(* ===== verification/Prelude.thy ===== *)
theory Prelude
  imports Main "HOL-Library.Word"
begin

text \<open>
  Shared vocabulary of the development: Rust's \<open>Result\<close>, its checked and saturating
  machine arithmetic, strings as sequences of Unicode scalar values with their UTF-8
  encoding, and the generic lemmas on lists and transition systems that the component
  theories use.  Nothing here models a file of the runtime; it models the part of the
  language and of its standard library the runtime is written in.
\<close>

named_theorems text_defs \<open>definitions of character classes and UTF-8 lengths\<close>
named_theorems result_simps \<open>rewriting of Result combinators\<close>

subsection \<open>Result\<close>

datatype ('a, 'e) result = Ok 'a | Err 'e

definition is_ok :: "('a, 'e) result \<Rightarrow> bool" where
  "is_ok r = (case r of Ok _ \<Rightarrow> True | Err _ \<Rightarrow> False)"

definition map_err :: "('e \<Rightarrow> 'f) \<Rightarrow> ('a, 'e) result \<Rightarrow> ('a, 'f) result" where
  "map_err f r = (case r of Ok a \<Rightarrow> Ok a | Err e \<Rightarrow> Err (f e))"

definition map_ok :: "('a \<Rightarrow> 'b) \<Rightarrow> ('a, 'e) result \<Rightarrow> ('b, 'e) result" where
  "map_ok f r = (case r of Ok a \<Rightarrow> Ok (f a) | Err e \<Rightarrow> Err e)"

definition and_then :: "('a, 'e) result \<Rightarrow> ('a \<Rightarrow> ('b, 'e) result) \<Rightarrow> ('b, 'e) result" where
  "and_then r f = (case r of Ok a \<Rightarrow> f a | Err e \<Rightarrow> Err e)"

definition ok_or :: "'a option \<Rightarrow> 'e \<Rightarrow> ('a, 'e) result" where
  "ok_or x e = (case x of Some a \<Rightarrow> Ok a | None \<Rightarrow> Err e)"

lemma is_ok_simps [simp, result_simps]: "is_ok (Ok a)" "\<not> is_ok (Err e)"
  by (simp_all add: is_ok_def)

lemma is_ok_iff: "is_ok r \<longleftrightarrow> (\<exists>a. r = Ok a)"
  by (cases r) auto

lemma map_err_simps [simp, result_simps]:
  "map_err f (Ok a) = Ok a" "map_err f (Err e) = Err (f e)"
  by (simp_all add: map_err_def)

lemma map_err_eq_Ok [simp]: "map_err f r = Ok a \<longleftrightarrow> r = Ok a"
  by (cases r) auto

lemma map_err_eq_Err: "map_err f r = Err e \<longleftrightarrow> (\<exists>x. r = Err x \<and> e = f x)"
  by (cases r) auto

lemma map_ok_simps [simp, result_simps]:
  "map_ok f (Ok a) = Ok (f a)" "map_ok f (Err e) = Err e"
  by (simp_all add: map_ok_def)

lemma map_ok_eq_Ok: "map_ok f r = Ok b \<longleftrightarrow> (\<exists>a. r = Ok a \<and> b = f a)"
  by (cases r) auto

lemma and_then_simps [simp, result_simps]:
  "and_then (Ok a) f = f a" "and_then (Err e) f = Err e"
  by (simp_all add: and_then_def)

lemma and_then_eq_Ok:
  "and_then r f = Ok b \<longleftrightarrow> (\<exists>a. r = Ok a \<and> f a = Ok b)"
  by (cases r) auto

lemma ok_or_simps [simp, result_simps]: "ok_or (Some a) e = Ok a" "ok_or None e = Err e"
  by (simp_all add: ok_or_def)

lemma ok_or_eq_Ok [simp]: "ok_or x e = Ok a \<longleftrightarrow> x = Some a"
  by (cases x) auto

subsection \<open>Machine integers\<close>

type_synonym u8 = "8 word"
type_synonym u16 = "16 word"
type_synonym u32 = "32 word"
type_synonym u64 = "64 word"

definition checked_add :: "'a::len word \<Rightarrow> 'a word \<Rightarrow> 'a word option" where
  "checked_add a b = (if unat a + unat b < 2 ^ LENGTH('a) then Some (a + b) else None)"

definition saturating_add :: "'a::len word \<Rightarrow> 'a word \<Rightarrow> 'a word" where
  "saturating_add a b = (if unat a + unat b < 2 ^ LENGTH('a) then a + b else - 1)"

lemma unat_add_fits:
  fixes a b :: "'a::len word"
  assumes "unat a + unat b < 2 ^ LENGTH('a)"
  shows "unat (a + b) = unat a + unat b"
  using assms by (simp add: unat_word_ariths)

lemma unat_max_word: "unat (- 1 :: 'a::len word) = 2 ^ LENGTH('a) - 1"
  by transfer (simp add: take_bit_minus_one_eq_mask nat_mask_eq mask_eq_exp_minus_1 nat_diff_distrib nat_power_eq)

lemma checked_add_Some:
  fixes a b c :: "'a::len word"
  shows "checked_add a b = Some c \<longleftrightarrow> unat c = unat a + unat b"
proof
  show "checked_add a b = Some c \<Longrightarrow> unat c = unat a + unat b"
    by (auto simp: checked_add_def unat_add_fits split: if_splits)
next
  assume eq: "unat c = unat a + unat b"
  have fits: "unat a + unat b < 2 ^ LENGTH('a)"
    unfolding eq [symmetric] by (rule unsigned_less)
  then have "unat c = unat (a + b)" using eq by (simp add: unat_add_fits)
  then have "c = a + b" by (simp add: word_unat_eq_iff)
  with fits show "checked_add a b = Some c" by (simp add: checked_add_def)
qed

lemma checked_add_None:
  fixes a b :: "'a::len word"
  shows "checked_add a b = None \<longleftrightarrow> 2 ^ LENGTH('a) \<le> unat a + unat b"
  by (auto simp: checked_add_def)

lemma unat_saturating_add:
  fixes a b :: "'a::len word"
  shows "unat (saturating_add a b) = min (unat a + unat b) (2 ^ LENGTH('a) - 1)"
  by (auto simp: saturating_add_def unat_add_fits unat_max_word)

lemma saturating_add_mono:
  fixes a b :: "'a::len word"
  shows "a \<le> saturating_add a b"
proof -
  have "unat a < 2 ^ LENGTH('a)" by (rule unsigned_less)
  then have "unat a \<le> 2 ^ LENGTH('a) - 1" by linarith
  then show ?thesis by (simp add: word_le_nat_alt unat_saturating_add)
qed

text \<open>
  \<open>usize\<close> quantities (byte lengths, counts of list elements) are natural numbers:
  a length never reaches the width.  The only place where the code asks for saturation
  is written with this addition.
\<close>

definition USIZE_MAX :: nat where
  "USIZE_MAX = 2 ^ 64 - 1"

definition usize_saturating_add :: "nat \<Rightarrow> nat \<Rightarrow> nat" where
  "usize_saturating_add a b = min (a + b) USIZE_MAX"

subsection \<open>Strings\<close>

text \<open>
  A Rust \<open>char\<close> is a Unicode scalar value, here its number; a \<open>str\<close> is a sequence
  of them and \<open>str::len\<close> counts the bytes of its UTF-8 encoding.
\<close>

type_synonym rchar = nat
type_synonym rstr = "rchar list"

definition utf8_char :: "rchar \<Rightarrow> nat list" where
  "utf8_char c =
     (if c < 0x80 then [c]
      else if c < 0x800 then [0xC0 + c div 0x40, 0x80 + c mod 0x40]
      else if c < 0x10000 then
        [0xE0 + c div 0x1000, 0x80 + (c div 0x40) mod 0x40, 0x80 + c mod 0x40]
      else
        [0xF0 + c div 0x40000, 0x80 + (c div 0x1000) mod 0x40,
         0x80 + (c div 0x40) mod 0x40, 0x80 + c mod 0x40])"

definition str_bytes :: "rstr \<Rightarrow> nat list" where
  "str_bytes s = concat (map utf8_char s)"

definition str_len :: "rstr \<Rightarrow> nat" where
  "str_len s = length (str_bytes s)"

definition lit :: "string \<Rightarrow> rstr" where
  "lit s = map of_char s"

definition utf8_len :: "rchar \<Rightarrow> nat" where
  "utf8_len c = (if c < 0x80 then 1 else if c < 0x800 then 2 else if c < 0x10000 then 3 else 4)"

lemma length_utf8_char [simp]: "length (utf8_char c) = utf8_len c"
  by (simp add: utf8_char_def utf8_len_def)

lemma utf8_len_pos [simp]: "0 < utf8_len c"
  by (simp add: utf8_len_def)

lemma str_bytes_simps [simp]:
  "str_bytes [] = []" "str_bytes (c # s) = utf8_char c @ str_bytes s"
  by (simp_all add: str_bytes_def)

lemma str_bytes_append [simp]: "str_bytes (s @ t) = str_bytes s @ str_bytes t"
  by (simp add: str_bytes_def)

lemma str_len_simps [simp]: "str_len [] = 0" "str_len (c # s) = utf8_len c + str_len s"
  by (simp_all add: str_len_def)

lemma str_len_append [simp]: "str_len (s @ t) = str_len s + str_len t"
  by (simp add: str_len_def)

lemma str_len_eq_0 [simp]: "str_len s = 0 \<longleftrightarrow> s = []"
  by (cases s) simp_all

lemma length_le_str_len: "length s \<le> str_len s"
proof (induction s)
  case (Cons c s)
  have "1 \<le> utf8_len c" by (simp add: utf8_len_def)
  with Cons show ?case by simp
qed simp

text \<open>A byte below 128 in the encoding is an ASCII character; the others are all at least 128.\<close>

lemma ascii_bytes:
  assumes "\<forall>b \<in> set (str_bytes s). b < 0x80"
  shows "str_bytes s = s"
  using assms
proof (induction s)
  case (Cons c s)
  have "c < 0x80"
  proof (rule ccontr)
    assume "\<not> c < 0x80"
    then have "hd (utf8_char c) \<in> set (utf8_char c)" and "0x80 \<le> hd (utf8_char c)"
      by (simp_all add: utf8_char_def)
    with Cons.prems show False by (simp add: not_less [symmetric])
  qed
  with Cons show ?case by (auto simp: utf8_char_def)
qed simp

lemma ascii_str_len:
  assumes "\<forall>c \<in> set s. c < 0x80"
  shows "str_bytes s = s"
  using assms by (induction s) (auto simp: utf8_char_def)

lemma str_bytes_ascii_iff: "(\<forall>b \<in> set (str_bytes s). b < 0x80) \<longleftrightarrow> (\<forall>c \<in> set s. c < 0x80)"
  by (metis ascii_bytes ascii_str_len)

text \<open>\<open>char::is_control\<close>: the general category Cc.\<close>

definition is_control :: "rchar \<Rightarrow> bool" where
  [text_defs]: "is_control c \<longleftrightarrow> c < 0x20 \<or> (0x7F \<le> c \<and> c \<le> 0x9F)"

definition is_ascii_alphanumeric :: "nat \<Rightarrow> bool" where
  [text_defs]: "is_ascii_alphanumeric b \<longleftrightarrow>
     (0x30 \<le> b \<and> b \<le> 0x39) \<or> (0x41 \<le> b \<and> b \<le> 0x5A) \<or> (0x61 \<le> b \<and> b \<le> 0x7A)"

abbreviation LF :: rchar where "LF \<equiv> 10"
abbreviation CR :: rchar where "CR \<equiv> 13"
abbreviation TAB :: rchar where "TAB \<equiv> 9"
abbreviation SPACE :: rchar where "SPACE \<equiv> 32"

text \<open>Decimal digits, most significant first, and their value.\<close>

fun nat_digits :: "nat \<Rightarrow> rstr" where
  "nat_digits n = (if n < 10 then [0x30 + n] else nat_digits (n div 10) @ [0x30 + n mod 10])"

declare nat_digits.simps [simp del]

definition digits_value :: "rstr \<Rightarrow> nat" where
  "digits_value s = foldl (\<lambda>v c. 10 * v + (c - 0x30)) 0 s"

lemma digits_value_nat_digits [simp]: "digits_value (nat_digits n) = n"
proof (induction n rule: nat_digits.induct)
  case (1 n)
  then show ?case by (subst nat_digits.simps) (simp add: digits_value_def)
qed

lemma nat_digits_ascii: "c \<in> set (nat_digits n) \<Longrightarrow> 0x30 \<le> c \<and> c \<le> 0x39"
proof (induction n rule: nat_digits.induct)
  case (1 n)
  have "n mod 10 \<le> 9" using mod_less_divisor [of 10 n] by linarith
  with 1 show ?case by (subst (asm) (2) nat_digits.simps) (auto split: if_splits)
qed

subsection \<open>Wire formats\<close>

text \<open>
  A type with a private representation is written to a wire form and read back by code that
  validates.  What the reader owes: it reads back every valid value, and it yields only valid
  ones.
\<close>

locale wire_format =
  fixes encode :: "'a \<Rightarrow> 'w" and decode :: "'w \<Rightarrow> ('a, 'e) result" and valid :: "'a \<Rightarrow> bool"
  assumes decode_encode: "valid a \<Longrightarrow> decode (encode a) = Ok a"
    and decode_valid: "decode w = Ok a \<Longrightarrow> valid a"
begin

lemma roundtrip_iff: "decode (encode a) = Ok a \<longleftrightarrow> valid a"
  using decode_encode decode_valid by blast

lemma readable_iff: "(\<exists>w. decode w = Ok a) \<longleftrightarrow> valid a"
  using decode_encode decode_valid by blast

lemma encode_inj: "valid a \<Longrightarrow> valid b \<Longrightarrow> encode a = encode b \<Longrightarrow> a = b"
  by (metis decode_encode result.inject(1))

end

text \<open>A canonical format: a text that is accepted is the one the writer produces.\<close>

locale codec = wire_format +
  assumes encode_decode: "decode w = Ok a \<Longrightarrow> encode a = w"
begin

lemma decode_inj: "decode w = Ok a \<Longrightarrow> decode w' = Ok a \<Longrightarrow> w = w'"
  by (metis encode_decode)

lemma decode_Ok_iff: "decode w = Ok a \<longleftrightarrow> valid a \<and> w = encode a"
  by (metis decode_encode decode_valid encode_decode)

end

subsection \<open>Transition systems\<close>

text \<open>
  A component with shared state is an initial state and a step relation; what holds
  initially and is kept by every step holds in every reachable state.
\<close>

inductive reachable :: "'s \<Rightarrow> ('s \<Rightarrow> 's \<Rightarrow> bool) \<Rightarrow> 's \<Rightarrow> bool" for s0 step where
  start: "reachable s0 step s0"
| step: "reachable s0 step s \<Longrightarrow> step s t \<Longrightarrow> reachable s0 step t"

locale inductive_invariant =
  fixes s0 :: 's and step :: "'s \<Rightarrow> 's \<Rightarrow> bool" and inv :: "'s \<Rightarrow> bool"
  assumes inv_start: "inv s0"
    and inv_step: "step s t \<Longrightarrow> inv s \<Longrightarrow> inv t"
begin

lemma reachable_inv: "reachable s0 step s \<Longrightarrow> inv s"
  by (induction rule: reachable.induct) (auto intro: inv_start inv_step)

lemma reachable_inv_step: "reachable s0 step s \<Longrightarrow> step s t \<Longrightarrow> inv s \<and> inv t"
  by (blast intro: reachable_inv inv_step)

end

subsection \<open>Lists\<close>

lemma sum_list_replicate_le:
  fixes xs :: "nat list"
  shows "(\<forall>x \<in> set xs. x \<le> k) \<Longrightarrow> sum_list xs \<le> length xs * k"
  by (induction xs) auto

lemma list_all_update: "list_all P xs \<Longrightarrow> P x \<Longrightarrow> list_all P (xs[i := x])"
  by (induction xs arbitrary: i) (auto split: nat.splits)

lemma map_update_same: "i < length xs \<Longrightarrow> f x = f (xs ! i) \<Longrightarrow> map f (xs[i := x]) = map f xs"
  by (metis list_update_id map_update)

end
