(* ===== verification/Value_Text.thy ===== *)
theory Value_Text
  imports Prelude
begin

text \<open>
  Bounded text of \<^verbatim>\<open>src/value.rs\<close>: the \<open>BoundedText\<close> newtype and its constructors,
  the check \<open>valid_text\<close>, and \<open>normalize_model_text\<close>, which every piece of model output
  passes through.  The lemmas show that the one-pass loop of the code agrees with a
  position-wise reference definition, that its result is always valid text, never longer
  than its input and a fixed point, and how it distributes over concatenation, which is
  what the stream assembler relies on.
\<close>

subsection \<open>Constants, errors, bounded text\<close>

definition MAX_TEXT_BYTES :: nat where
  "MAX_TEXT_BYTES = 256 * 1024"

datatype ValueError =
    VE_InvalidText
  | VE_TextLimitTooLarge
  | VE_TextTooLarge
  | VE_JsonLimitTooLarge
  | VE_JsonTooLarge
  | VE_JsonTooDeep
  | VE_JsonTooManyNodes
  | VE_JsonSerialization

datatype BoundedText = BoundedText (as_str: rstr)

definition BoundedText_new_with_max_bytes :: "rstr \<Rightarrow> nat \<Rightarrow> (BoundedText, ValueError) result" where
  "BoundedText_new_with_max_bytes value max_bytes =
     (if MAX_TEXT_BYTES < max_bytes then Err VE_TextLimitTooLarge
      else if max_bytes < str_len value then Err VE_TextTooLarge
      else Ok (BoundedText value))"

definition BoundedText_new :: "rstr \<Rightarrow> (BoundedText, ValueError) result" where
  "BoundedText_new value = BoundedText_new_with_max_bytes value MAX_TEXT_BYTES"

definition bt_byte_len :: "BoundedText \<Rightarrow> nat" where
  "bt_byte_len b = str_len (as_str b)"

definition bt_is_empty :: "BoundedText \<Rightarrow> bool" where
  "bt_is_empty b \<longleftrightarrow> as_str b = []"

text \<open>What the private field guarantees of every value of the type.\<close>

definition bounded_text_ok :: "BoundedText \<Rightarrow> bool" where
  "bounded_text_ok b \<longleftrightarrow> bt_byte_len b \<le> MAX_TEXT_BYTES"

subsection \<open>Text checks and normalisation\<close>

definition allowed_char :: "rchar \<Rightarrow> bool" where
  [text_defs]: "allowed_char c \<longleftrightarrow> \<not> is_control c \<or> c = LF \<or> c = TAB"

definition valid_text :: "rstr \<Rightarrow> nat \<Rightarrow> bool \<Rightarrow> bool" where
  "valid_text value maximum allow_empty \<longleftrightarrow>
     (allow_empty \<or> value \<noteq> []) \<and> str_len value \<le> maximum \<and> list_all allowed_char value"

text \<open>\<open>Cow\<close>: the normaliser says whether it had to build a new string.\<close>

datatype cow = Borrowed (cow_str: rstr) | Owned (cow_str: rstr)

text \<open>The body of the \<open>while let\<close> loop over the peekable character iterator.\<close>

fun normalize_chars :: "rstr \<Rightarrow> rstr" where
  "normalize_chars [] = []"
| "normalize_chars (c # cs) =
     (if c = CR then
        LF # (case cs of
                d # ds \<Rightarrow> (if d = LF then normalize_chars ds else normalize_chars cs)
              | [] \<Rightarrow> [])
      else if c = LF \<or> c = TAB then c # normalize_chars cs
      else if is_control c then SPACE # normalize_chars cs
      else c # normalize_chars cs)"

definition normalize_model_text :: "rstr \<Rightarrow> cow" where
  "normalize_model_text value =
     (if valid_text value USIZE_MAX True then Borrowed value
      else Owned (normalize_chars value))"

subsection \<open>Reference definition of normalisation\<close>

text \<open>
  Position by position: a line feed that directly follows a carriage return disappears,
  a carriage return becomes a line feed, any other disallowed control character a space.
  The flag says whether the character before the text was a carriage return.
\<close>

definition clean_char :: "rchar \<Rightarrow> rchar" where
  "clean_char c = (if c = CR then LF else if allowed_char c then c else SPACE)"

fun drop_lf_after_cr :: "bool \<Rightarrow> rstr \<Rightarrow> rstr" where
  "drop_lf_after_cr prev_cr [] = []"
| "drop_lf_after_cr prev_cr (c # cs) =
     (if prev_cr \<and> c = LF then drop_lf_after_cr False cs
      else c # drop_lf_after_cr (c = CR) cs)"

definition normalized_reference :: "rstr \<Rightarrow> rstr" where
  "normalized_reference s = map clean_char (drop_lf_after_cr False s)"

text \<open>Whether the text, read after \<open>prev_cr\<close>, leaves a pending carriage return.\<close>

fun ends_in_cr :: "bool \<Rightarrow> rstr \<Rightarrow> bool" where
  "ends_in_cr prev_cr [] = prev_cr"
| "ends_in_cr prev_cr (c # cs) = ends_in_cr (c = CR) cs"

subsection \<open>Lemmas on bounded text\<close>

lemma BoundedText_new_with_max_bytes_Ok:
  "BoundedText_new_with_max_bytes v m = Ok b \<longleftrightarrow>
     m \<le> MAX_TEXT_BYTES \<and> str_len v \<le> m \<and> b = BoundedText v"
  by (auto simp: BoundedText_new_with_max_bytes_def)

lemma BoundedText_new_Ok:
  "BoundedText_new v = Ok b \<longleftrightarrow> str_len v \<le> MAX_TEXT_BYTES \<and> b = BoundedText v"
  by (simp add: BoundedText_new_def BoundedText_new_with_max_bytes_Ok)

lemma BoundedText_new_ok: "BoundedText_new v = Ok b \<Longrightarrow> bounded_text_ok b"
  by (simp add: BoundedText_new_Ok bounded_text_ok_def bt_byte_len_def)

subsection \<open>Lemmas on normalisation\<close>

lemma clean_char_simps [simp]:
  "clean_char CR = LF" "clean_char LF = LF" "clean_char TAB = TAB"
  by (simp_all add: clean_char_def text_defs)

lemma clean_char_allowed [simp]: "allowed_char (clean_char c)"
  by (simp add: clean_char_def text_defs)

lemma clean_char_id: "allowed_char c \<Longrightarrow> clean_char c = c"
  by (auto simp: clean_char_def text_defs)

lemma clean_char_len: "utf8_len (clean_char c) \<le> utf8_len c"
  by (auto simp: clean_char_def text_defs utf8_len_def)

lemma allowed_not_cr: "allowed_char c \<Longrightarrow> c \<noteq> CR"
  by (auto simp: text_defs)

lemma normalize_chars_reference: "normalize_chars s = normalized_reference s"
proof (induction s rule: normalize_chars.induct)
  case 1
  then show ?case by (simp add: normalized_reference_def)
next
  case (2 c cs)
  consider (cr) "c = CR" | (keep) "c = LF \<or> c = TAB"
    | (ctl) "c \<noteq> CR" "c \<noteq> LF" "c \<noteq> TAB" "is_control c"
    | (other) "c \<noteq> CR" "c \<noteq> LF" "c \<noteq> TAB" "\<not> is_control c" by blast
  then show ?case
  proof cases
    case cr
    show ?thesis
    proof (cases cs)
      case Nil
      with cr show ?thesis by (simp add: normalized_reference_def)
    next
      case (Cons d ds)
      with cr 2 show ?thesis by (auto simp: normalized_reference_def)
    qed
  next
    case keep
    with 2 show ?thesis by (auto simp: normalized_reference_def)
  next
    case ctl
    with 2 show ?thesis by (simp add: normalized_reference_def clean_char_def allowed_char_def)
  next
    case other
    with 2 show ?thesis by (simp add: normalized_reference_def clean_char_def allowed_char_def)
  qed
qed

lemma drop_lf_after_cr_id:
  "list_all allowed_char s \<Longrightarrow> drop_lf_after_cr False s = s"
  by (induction s) (auto dest: allowed_not_cr)

lemma map_clean_id: "list_all allowed_char s \<Longrightarrow> map clean_char s = s"
  by (induction s) (auto simp: clean_char_id)

lemma normalized_reference_id: "list_all allowed_char s \<Longrightarrow> normalized_reference s = s"
  by (simp add: normalized_reference_def drop_lf_after_cr_id map_clean_id)

lemma cow_normalize_model_text [simp]: "cow_str (normalize_model_text s) = normalized_reference s"
  by (auto simp: normalize_model_text_def valid_text_def normalize_chars_reference
      normalized_reference_id)

lemma drop_lf_after_cr_append:
  "drop_lf_after_cr b (s @ t) = drop_lf_after_cr b s @ drop_lf_after_cr (ends_in_cr b s) t"
  by (induction s arbitrary: b) auto

lemma ends_in_cr_append: "ends_in_cr b (s @ t) = ends_in_cr (ends_in_cr b s) t"
  by (induction s arbitrary: b) auto

lemma ends_in_cr_last: "s \<noteq> [] \<Longrightarrow> ends_in_cr b s \<longleftrightarrow> last s = CR"
  by (induction s arbitrary: b) auto

lemma str_len_drop_lf: "str_len (drop_lf_after_cr b s) \<le> str_len s"
  by (induction s arbitrary: b) (auto intro: trans_le_add2)

lemma str_len_map_clean: "str_len (map clean_char s) \<le> str_len s"
  by (induction s) (auto intro: add_le_mono clean_char_len)

lemma str_len_normalized: "str_len (normalized_reference s) \<le> str_len s"
  unfolding normalized_reference_def
  by (rule le_trans [OF str_len_map_clean str_len_drop_lf])

lemma normalized_allowed: "list_all allowed_char (normalized_reference s)"
  by (simp add: normalized_reference_def list.pred_map list_all_iff)

lemma valid_text_normalized:
  "str_len s \<le> m \<Longrightarrow> valid_text (normalized_reference s) m True"
  using str_len_normalized [of s] by (simp add: valid_text_def normalized_allowed)

subsection \<open>Properties\<close>

text \<open>
  C36: \<open>normalize_model_text\<close> computes the position-wise reference: carriage return / line
  feed pairs collapse, lone carriage returns become line feeds, other control characters
  become spaces, and nothing else changes.
\<close>
theorem normalize_model_text_correct:
  "cow_str (normalize_model_text s) = map clean_char (drop_lf_after_cr False s)"
  by (simp add: normalized_reference_def)

text \<open>
  Normalised model text is valid text that is never longer than its input in UTF-8
  bytes, and normalising again borrows it unchanged.
\<close>
theorem normalize_model_text_bounds:
  assumes "str_len s \<le> USIZE_MAX"
  shows "str_len (cow_str (normalize_model_text s)) \<le> str_len s
       \<and> valid_text (cow_str (normalize_model_text s)) (str_len s) True
       \<and> normalize_model_text (cow_str (normalize_model_text s))
           = Borrowed (cow_str (normalize_model_text s))"
proof -
  have "valid_text (normalized_reference s) USIZE_MAX True"
    using assms by (rule valid_text_normalized)
  then show ?thesis
    by (simp add: str_len_normalized valid_text_normalized normalize_model_text_def [of "normalized_reference s"])
qed

theorem normalize_model_text_bounds_witness:
  "str_len (lit ''ab'' @ [CR, LF, 7]) \<le> USIZE_MAX
   \<and> cow_str (normalize_model_text (lit ''ab'' @ [CR, LF, 7])) = lit ''ab'' @ [LF, SPACE]
   \<and> str_len (cow_str (normalize_model_text (lit ''ab'' @ [CR, LF, 7]))) \<le> 5
   \<and> normalize_model_text (lit ''ab'' @ [LF, SPACE]) = Borrowed (lit ''ab'' @ [LF, SPACE])"
proof -
  have h: "str_len (lit ''ab'' @ [CR, LF, 7]) \<le> USIZE_MAX"
    by (simp add: lit_def utf8_len_def USIZE_MAX_def)
  have n: "cow_str (normalize_model_text (lit ''ab'' @ [CR, LF, 7])) = lit ''ab'' @ [LF, SPACE]"
    by (simp add: lit_def normalized_reference_def clean_char_def text_defs)
  from normalize_model_text_bounds [OF h] n show ?thesis
    using h by (simp add: lit_def utf8_len_def)
qed

end
