(* ===== verification/Value_Json.thy ===== *)
theory Value_Json
  imports Value_Text
begin

text \<open>
  JSON budgets of \<^verbatim>\<open>src/value.rs\<close>: the depth-and-node check on a value, the byte-counting
  writer, \<open>validate_json_size\<close> and \<open>json_bytes\<close>.

  The serialiser is \<^verbatim>\<open>serde_json\<close>, which is not part of the sources: it is the parameter
  \<open>ser\<close>, which gives for a value the lengths of the successive buffers that \<open>to_writer\<close> hands
  to the writer and whether the serialiser itself then succeeds.  The size of its compact
  output is the sum of the chunk lengths.

  The shape checks and the counting writers here and in \<^verbatim>\<open>Replay.thy\<close> are instances of one
  interface each, the locales \<open>shape_check\<close> and \<open>counting_writer\<close>; the writer of this theory
  also remembers a refusal, which is the extension \<open>budget_writer\<close>.
\<close>

subsection \<open>JSON values\<close>

text \<open>
  \<open>serde_json::Value\<close> by its variants.  Numbers keep their text; an object is its
  key-value list (a \<open>BTreeMap\<close>, in key order).
\<close>

datatype json =
    JNull
  | JBool bool
  | JNumber rstr
  | JString rstr
  | JArray "json list"
  | JObject "(rstr \<times> json) list"

definition json_is_object :: "json \<Rightarrow> bool" where
  "json_is_object v = (case v of JObject _ \<Rightarrow> True | _ \<Rightarrow> False)"

fun json_children :: "json \<Rightarrow> json list" where
  "json_children (JArray vs) = vs"
| "json_children (JObject kvs) = map snd kvs"
| "json_children _ = []"

text \<open>The number of values in a tree and the depth of its deepest value.\<close>

fun json_nodes :: "json \<Rightarrow> nat" where
  "json_nodes (JArray vs) = Suc (sum_list (map json_nodes vs))"
| "json_nodes (JObject kvs) = Suc (sum_list (map (\<lambda>kv. json_nodes (snd kv)) kvs))"
| "json_nodes _ = 1"

fun json_depth :: "json \<Rightarrow> nat" where
  "json_depth (JArray vs) = fold max (map (\<lambda>v. Suc (json_depth v)) vs) 0"
| "json_depth (JObject kvs) = fold max (map (\<lambda>kv. Suc (json_depth (snd kv))) kvs) 0"
| "json_depth _ = 0"

subsection \<open>Shape checks\<close>

definition MAX_JSON_BYTES :: nat where "MAX_JSON_BYTES = 64 * 1024"
definition MAX_JSON_DEPTH :: nat where "MAX_JSON_DEPTH = 32"
definition MAX_JSON_NODES :: nat where "MAX_JSON_NODES = 4096"

text \<open>\<open>validate_json_shape\<close>: the counter \<open>nodes\<close> is threaded through the whole traversal.\<close>

fun validate_json_shape :: "json \<Rightarrow> nat \<Rightarrow> nat \<Rightarrow> (nat, ValueError) result"
and validate_json_shapes :: "json list \<Rightarrow> nat \<Rightarrow> nat \<Rightarrow> (nat, ValueError) result"
and validate_json_fields :: "(rstr \<times> json) list \<Rightarrow> nat \<Rightarrow> nat \<Rightarrow> (nat, ValueError) result" where
  "validate_json_shape v depth nodes =
     (if MAX_JSON_DEPTH < depth then Err VE_JsonTooDeep
      else if MAX_JSON_NODES < nodes + 1 then Err VE_JsonTooManyNodes
      else (case v of
              JArray vs \<Rightarrow> validate_json_shapes vs (depth + 1) (nodes + 1)
            | JObject kvs \<Rightarrow> validate_json_fields kvs (depth + 1) (nodes + 1)
            | _ \<Rightarrow> Ok (nodes + 1)))"
| "validate_json_shapes [] depth nodes = Ok nodes"
| "validate_json_shapes (v # vs) depth nodes =
     (case validate_json_shape v depth nodes of
        Err e \<Rightarrow> Err e
      | Ok n \<Rightarrow> validate_json_shapes vs depth n)"
| "validate_json_fields [] depth nodes = Ok nodes"
| "validate_json_fields (kv # kvs) depth nodes =
     (case validate_json_shape (snd kv) depth nodes of
        Err e \<Rightarrow> Err e
      | Ok n \<Rightarrow> validate_json_fields kvs depth n)"


subsection \<open>Counting writers\<close>

type_synonym 'v serializer = "'v \<Rightarrow> nat list \<times> bool"

text \<open>
  \<open>to_writer\<close>: each chunk goes through \<open>write_all\<close>, which for a writer that takes the whole
  buffer is one \<open>write\<close>; the first refused chunk aborts the serialisation.
\<close>

fun write_chunks :: "('w \<Rightarrow> nat \<Rightarrow> 'w \<times> bool) \<Rightarrow> 'w \<Rightarrow> nat list \<Rightarrow> 'w \<times> bool" where
  "write_chunks put w [] = (w, True)"
| "write_chunks put w (n # ns) =
     (case put w n of
        (w', True) \<Rightarrow> write_chunks put w' ns
      | (w', False) \<Rightarrow> (w', False))"

definition to_writer :: "('w \<Rightarrow> nat \<Rightarrow> 'w \<times> bool) \<Rightarrow> 'v serializer \<Rightarrow> 'w \<Rightarrow> 'v \<Rightarrow> 'w \<times> bool" where
  "to_writer put ser w v =
     (case write_chunks put w (fst (ser v)) of (w', ok) \<Rightarrow> (w', ok \<and> snd (ser v)))"

record JsonCountingWriter =
  jw_max_bytes :: nat
  jw_written :: nat
  jw_exceeded :: bool

definition JsonCountingWriter_new :: "nat \<Rightarrow> JsonCountingWriter" where
  "JsonCountingWriter_new max_bytes =
     \<lparr>jw_max_bytes = max_bytes, jw_written = 0, jw_exceeded = False\<rparr>"

definition JsonCountingWriter_write :: "JsonCountingWriter \<Rightarrow> nat \<Rightarrow> JsonCountingWriter \<times> bool" where
  "JsonCountingWriter_write w n =
     (let remaining = jw_max_bytes w - jw_written w in
      if remaining < n then (w\<lparr>jw_exceeded := True\<rparr>, False)
      else (w\<lparr>jw_written := jw_written w + n\<rparr>, True))"

definition validate_json_size :: "json serializer \<Rightarrow> json \<Rightarrow> nat \<Rightarrow> (unit, ValueError) result" where
  "validate_json_size ser v max_bytes =
     (if MAX_JSON_BYTES < max_bytes then Err VE_JsonLimitTooLarge
      else (case validate_json_shape v 0 0 of
              Err e \<Rightarrow> Err e
            | Ok _ \<Rightarrow>
                (case to_writer JsonCountingWriter_write ser (JsonCountingWriter_new max_bytes) v of
                   (sink, ok) \<Rightarrow>
                     if ok then Ok ()
                     else if jw_exceeded sink then Err VE_JsonTooLarge
                     else Err VE_JsonSerialization)))"

text \<open>\<open>json_bytes\<close>: the writer has no limit; \<open>None\<close> stands for the panic of the \<open>expect\<close>.\<close>

definition json_bytes :: "json serializer \<Rightarrow> json \<Rightarrow> nat option" where
  "json_bytes ser v =
     (case to_writer JsonCountingWriter_write ser (JsonCountingWriter_new USIZE_MAX) v of
        (sink, ok) \<Rightarrow> if ok then Some (jw_written sink) else None)"

subsection \<open>The shape-check interface\<close>

lemma fold_max_le: "fold max xs (a::nat) \<le> k \<longleftrightarrow> a \<le> k \<and> (\<forall>x \<in> set xs. x \<le> k)"
  by (induction xs arbitrary: a) auto

lemma json_nodes_children: "json_nodes v = Suc (sum_list (map json_nodes (json_children v)))"
  by (cases v) (simp_all add: comp_def)

lemma json_depth_children:
  "d + json_depth v \<le> k \<longleftrightarrow> d \<le> k \<and> (\<forall>c \<in> set (json_children v). Suc d + json_depth c \<le> k)"
proof -
  have "json_depth v = fold max (map (\<lambda>c. Suc (json_depth c)) (json_children v)) 0"
    by (cases v) (simp_all add: comp_def)
  moreover have "d + n \<le> k \<longleftrightarrow> d \<le> k \<and> n \<le> k - d" for n by arith
  moreover have "d \<le> k \<Longrightarrow> Suc n \<le> k - d \<longleftrightarrow> Suc d + n \<le> k" for n by arith
  ultimately show ?thesis by (auto simp: fold_max_le)
qed

lemma size_json_child: "c \<in> set (json_children v) \<Longrightarrow> size c < size v"
proof (induction v)
  case (JArray vs)
  then show ?case by (simp add: size_list_estimation' less_Suc_eq_le)
next
  case (JObject kvs)
  then obtain k where "(k, c) \<in> set kvs" by auto
  then have "size_prod (\<lambda>_. 0) size (k, c) \<le> size_list (size_prod (\<lambda>_. 0) size) kvs"
    by (rule size_list_estimation') simp
  then show ?case by simp
qed simp_all

locale shape_check =
  fixes check :: "json \<Rightarrow> nat \<Rightarrow> nat \<Rightarrow> (nat, 'e) result"
    and checks :: "json list \<Rightarrow> nat \<Rightarrow> nat \<Rightarrow> (nat, 'e) result"
    and max_depth :: nat and max_nodes :: nat
  assumes over: "max_depth < d \<or> max_nodes < n + 1 \<Longrightarrow> \<not> is_ok (check v d n)"
    and descend: "d \<le> max_depth \<Longrightarrow> n + 1 \<le> max_nodes \<Longrightarrow>
      check v d n = checks (json_children v) (d + 1) (n + 1)"
    and checks_Nil: "checks [] d n = Ok n"
    and checks_Cons: "checks (v # vs) d n =
      (case check v d n of Err e \<Rightarrow> Err e | Ok m \<Rightarrow> checks vs d m)"
begin

lemma checks_Ok_iff:
  assumes "\<And>v d n m. v \<in> set vs \<Longrightarrow> check v d n = Ok m \<longleftrightarrow>
      d + json_depth v \<le> max_depth \<and> n + json_nodes v \<le> max_nodes \<and> m = n + json_nodes v"
    and "n \<le> max_nodes"
  shows "checks vs d n = Ok m \<longleftrightarrow>
      (\<forall>v \<in> set vs. d + json_depth v \<le> max_depth)
      \<and> n + sum_list (map json_nodes vs) \<le> max_nodes \<and> m = n + sum_list (map json_nodes vs)"
  using assms
proof (induction vs arbitrary: n)
  case Nil
  then show ?case by (auto simp: checks_Nil)
next
  case (Cons v vs)
  show ?case
  proof (cases "check v d n")
    case (Ok k)
    then have k: "d + json_depth v \<le> max_depth" "n + json_nodes v \<le> max_nodes"
      "k = n + json_nodes v" using Cons.prems(1) [of v d n k] by simp_all
    have "checks vs d k = Ok m \<longleftrightarrow> (\<forall>v \<in> set vs. d + json_depth v \<le> max_depth)
      \<and> k + sum_list (map json_nodes vs) \<le> max_nodes \<and> m = k + sum_list (map json_nodes vs)"
      by (rule Cons.IH) (use Cons.prems k in simp_all)
    with Ok k show ?thesis by (simp add: checks_Cons add.assoc)
  next
    case (Err e)
    with Cons.prems(1) [of v d n "n + json_nodes v"] show ?thesis
      by (auto simp: checks_Cons)
  qed
qed

theorem check_Ok_iff:
  "check v d n = Ok m \<longleftrightarrow>
     d + json_depth v \<le> max_depth \<and> n + json_nodes v \<le> max_nodes \<and> m = n + json_nodes v"
proof (induction v arbitrary: d n m rule: measure_induct_rule [where f = size])
  case (less v)
  show ?case
  proof (cases "d \<le> max_depth \<and> n + 1 \<le> max_nodes")
    case True
    have "check c d' n' = Ok m' \<longleftrightarrow> d' + json_depth c \<le> max_depth
        \<and> n' + json_nodes c \<le> max_nodes \<and> m' = n' + json_nodes c"
      if "c \<in> set (json_children v)" for c d' n' m'
      using less.IH [OF size_json_child [OF that]] .
    then have "checks (json_children v) (d + 1) (n + 1) = Ok m \<longleftrightarrow>
      (\<forall>c \<in> set (json_children v). (d + 1) + json_depth c \<le> max_depth)
      \<and> (n + 1) + sum_list (map json_nodes (json_children v)) \<le> max_nodes
      \<and> m = (n + 1) + sum_list (map json_nodes (json_children v))"
      by (rule checks_Ok_iff) (use True in simp_all)
    with True show ?thesis
      by (simp add: descend json_depth_children [of d v] json_nodes_children [of v])
  next
    case False
    then have "\<not> is_ok (check v d n)" by (intro over) auto
    moreover have "1 \<le> json_nodes v" by (subst json_nodes_children) simp
    ultimately show ?thesis using False by (auto simp: is_ok_iff)
  qed
qed

end

lemma validate_json_fields_shapes:
  "validate_json_fields kvs d n = validate_json_shapes (map snd kvs) d n"
  by (induction kvs arbitrary: n) (auto split: result.splits)

interpretation args_shape: shape_check validate_json_shape validate_json_shapes
  MAX_JSON_DEPTH MAX_JSON_NODES
proof unfold_locales
  fix d n v
  assume "MAX_JSON_DEPTH < d \<or> MAX_JSON_NODES < n + 1"
  then show "\<not> is_ok (validate_json_shape v d n)" by auto
next
  fix d n v
  assume "d \<le> MAX_JSON_DEPTH" "n + 1 \<le> MAX_JSON_NODES"
  then show "validate_json_shape v d n = validate_json_shapes (json_children v) (d + 1) (n + 1)"
    by (cases v) (simp_all add: validate_json_fields_shapes)
qed simp_all

subsection \<open>The writer interface\<close>

locale counting_writer =
  fixes put :: "'w \<Rightarrow> nat \<Rightarrow> 'w \<times> bool" and written :: "'w \<Rightarrow> nat" and budget :: "'w \<Rightarrow> nat"
  assumes write_fits: "written w + n \<le> budget w \<Longrightarrow>
      snd (put w n) \<and> written (fst (put w n)) = written w + n \<and> budget (fst (put w n)) = budget w"
    and write_over: "written w \<le> budget w \<Longrightarrow> budget w < written w + n \<Longrightarrow> \<not> snd (put w n)"
begin

lemma write_chunks_fits:
  "written w + sum_list ns \<le> budget w \<Longrightarrow>
     snd (write_chunks put w ns) \<and> written (fst (write_chunks put w ns)) = written w + sum_list ns"
proof (induction ns arbitrary: w)
  case (Cons n ns)
  obtain w' ok where w': "put w n = (w', ok)" by (cases "put w n")
  with write_fits [of w n] Cons.prems have "ok" "written w' = written w + n"
    "budget w' = budget w" by simp_all
  with Cons.IH [of w'] Cons.prems w' show ?case by simp
qed simp

lemma write_chunks_over:
  "written w \<le> budget w \<Longrightarrow> budget w < written w + sum_list ns \<Longrightarrow> \<not> snd (write_chunks put w ns)"
proof (induction ns arbitrary: w)
  case (Cons n ns)
  obtain w' ok where w': "put w n = (w', ok)" by (cases "put w n")
  show ?case
  proof (cases "written w + n \<le> budget w")
    case True
    with write_fits [of w n] w' have "ok" "written w' = written w + n" "budget w' = budget w"
      by simp_all
    with Cons.IH [of w'] Cons.prems True w' show ?thesis by simp
  next
    case False
    with write_over [of w n] Cons.prems w' show ?thesis by simp
  qed
qed simp

theorem to_writer_Ok:
  assumes "written w = 0"
  shows "snd (to_writer put ser w v) \<longleftrightarrow> sum_list (fst (ser v)) \<le> budget w \<and> snd (ser v)"
    and "snd (to_writer put ser w v) \<Longrightarrow>
      written (fst (to_writer put ser w v)) = sum_list (fst (ser v))"
  using write_chunks_fits [of w "fst (ser v)"] write_chunks_over [of w "fst (ser v)"] assms
  by (cases "sum_list (fst (ser v)) \<le> budget w"; auto simp: to_writer_def split: prod.splits)+

end

text \<open>A writer that also remembers that it refused a chunk.\<close>

locale budget_writer = counting_writer +
  fixes refused :: "'a \<Rightarrow> bool"
  assumes fits_refused: "written w + n \<le> budget w \<Longrightarrow> refused (fst (put w n)) = refused w"
    and over_refused: "written w \<le> budget w \<Longrightarrow> budget w < written w + n \<Longrightarrow>
      refused (fst (put w n))"
begin

lemma refused_iff:
  "written w \<le> budget w \<Longrightarrow> \<not> refused w \<Longrightarrow>
     refused (fst (write_chunks put w ns)) \<longleftrightarrow> budget w < written w + sum_list ns"
proof (induction ns arbitrary: w)
  case (Cons n ns)
  obtain w' ok where w': "put w n = (w', ok)" by (cases "put w n")
  show ?case
  proof (cases "written w + n \<le> budget w")
    case True
    with write_fits [of w n] fits_refused [of w n] Cons.prems w' have
      "ok" "written w' = written w + n" "budget w' = budget w" "\<not> refused w'" by simp_all
    with Cons.IH [of w'] True w' show ?thesis by (simp add: add.assoc)
  next
    case False
    with write_over [of w n] over_refused [of w n] Cons.prems w' show ?thesis by simp
  qed
qed simp

theorem to_writer_refused:
  "written w = 0 \<Longrightarrow> \<not> refused w \<Longrightarrow>
     refused (fst (to_writer put ser w v)) \<longleftrightarrow> budget w < sum_list (fst (ser v))"
  using refused_iff [of w "fst (ser v)"] by (auto simp: to_writer_def split: prod.splits)

end

interpretation json_writer: budget_writer JsonCountingWriter_write jw_written jw_max_bytes jw_exceeded
  by unfold_locales (auto simp: JsonCountingWriter_write_def)

subsection \<open>Properties\<close>

lemma validate_json_shape_Err:
  "validate_json_shape v d n = Err e \<Longrightarrow> e = VE_JsonTooDeep \<or> e = VE_JsonTooManyNodes"
  "validate_json_shapes vs d n = Err e \<Longrightarrow> e = VE_JsonTooDeep \<or> e = VE_JsonTooManyNodes"
  "validate_json_fields kvs d n = Err e \<Longrightarrow> e = VE_JsonTooDeep \<or> e = VE_JsonTooManyNodes"
  by (induction v d n and vs d n and kvs d n
      rule: validate_json_shape_validate_json_shapes_validate_json_fields.induct)
    (auto split: if_splits json.splits result.splits)

lemma validate_json_size_eq:
  "validate_json_size ser v m =
     (if MAX_JSON_BYTES < m then Err VE_JsonLimitTooLarge
      else (case validate_json_shape v 0 0 of
              Err e \<Rightarrow> Err e
            | Ok _ \<Rightarrow>
                if m < sum_list (fst (ser v)) then Err VE_JsonTooLarge
                else if snd (ser v) then Ok () else Err VE_JsonSerialization))"
proof -
  have w: "jw_written (JsonCountingWriter_new m) = 0" "\<not> jw_exceeded (JsonCountingWriter_new m)"
    "jw_max_bytes (JsonCountingWriter_new m) = m"
    by (simp_all add: JsonCountingWriter_new_def)
  show ?thesis
    using json_writer.to_writer_Ok(1) [OF w(1), of ser v]
      json_writer.to_writer_refused [OF w(1,2), of ser v]
    by (cases "m < sum_list (fst (ser v))")
      (auto simp: validate_json_size_def w(3) simp del: validate_json_shape.simps
        split: result.splits prod.splits)
qed

lemma validate_json_shape_0: 
  "(\<exists>k. validate_json_shape v 0 0 = Ok k) \<longleftrightarrow>
     json_depth v \<le> MAX_JSON_DEPTH \<and> json_nodes v \<le> MAX_JSON_NODES"
  using args_shape.check_Ok_iff [of v 0 0] by auto

lemma validate_json_size_Ok:
  "validate_json_size ser v m = Ok () \<longleftrightarrow>
     m \<le> MAX_JSON_BYTES \<and> json_depth v \<le> MAX_JSON_DEPTH \<and> json_nodes v \<le> MAX_JSON_NODES
     \<and> sum_list (fst (ser v)) \<le> m \<and> snd (ser v)"
  using validate_json_shape_0 [of v]
  by (auto simp: validate_json_size_eq simp del: validate_json_shape.simps split: result.splits)

lemma json_bytes_eq:
  "sum_list (fst (ser v)) \<le> USIZE_MAX \<Longrightarrow> snd (ser v) \<Longrightarrow>
     json_bytes ser v = Some (sum_list (fst (ser v)))"
  using json_writer.to_writer_Ok [of "JsonCountingWriter_new USIZE_MAX" ser v]
  by (auto simp: json_bytes_def JsonCountingWriter_new_def split: prod.splits)

text \<open>
  C37: \<open>validate_json_size\<close> accepts a value exactly when the requested limit is within the
  absolute cap, the value nests at most 32 deep, has at most 4096 nodes, and its compact
  serialisation succeeds within the limit; the size error is reported exactly when the size
  is the first thing wrong with it.
\<close>
theorem validate_json_size_spec:
  "(validate_json_size ser v m = Ok () \<longleftrightarrow>
      m \<le> MAX_JSON_BYTES \<and> json_depth v \<le> MAX_JSON_DEPTH \<and> json_nodes v \<le> MAX_JSON_NODES
      \<and> sum_list (fst (ser v)) \<le> m \<and> snd (ser v))
   \<and> (validate_json_size ser v m = Err VE_JsonTooLarge \<longleftrightarrow>
      m \<le> MAX_JSON_BYTES \<and> json_depth v \<le> MAX_JSON_DEPTH \<and> json_nodes v \<le> MAX_JSON_NODES
      \<and> m < sum_list (fst (ser v)))"
  using validate_json_shape_0 [of v]
  by (auto simp: validate_json_size_eq simp del: validate_json_shape.simps
      dest: validate_json_shape_Err(1) split: result.splits)

end
