(* ===== verification/Ids.thy ===== *)
theory Ids
  imports Value_Text "HOL-Library.List_Lexorder"
begin

unbundle bit_operations_syntax

text \<open>
  Identifiers and symbolic names: the runtime ids of \<^verbatim>\<open>src/ids.rs\<close> (\<open>InteractionId\<close>,
  \<open>LoopId\<close>, generated by one macro) with their hexadecimal text form, \<open>ToolCallId\<close>,
  \<open>ModelRef\<close> of \<^verbatim>\<open>src/model/model_ref.rs\<close> and \<open>ToolName\<close> of \<^verbatim>\<open>src/tools/types.rs\<close>.

  Every type here is written to the wire as a string and read back by parsing
  (\<open>string_newtype_serde!\<close>, \<open>runtime_id!\<close>); the locale \<open>codec\<close> states what such a pair
  promises and \<open>symbolic_name\<close> the grammar the three name types share.
\<close>

subsection \<open>Runtime ids\<close>

datatype IdError =
    ID_InvalidPrefix | ID_InvalidLength | ID_InvalidHex | ID_ZeroPayload | ID_EntropyUnavailable

definition strip_prefix :: "rstr \<Rightarrow> rstr \<Rightarrow> rstr option" where
  "strip_prefix prefix s =
     (if take (length prefix) s = prefix then Some (drop (length prefix) s) else None)"

text \<open>
  \<open>random_nonzero_bytes\<close> draws 16 bytes until one is not zero.  The operating system's
  random source is the list of what successive calls of \<open>getrandom::fill\<close> deliver
  (\<open>None\<close> for a failed call); the result is \<open>None\<close> while the list is exhausted.
\<close>

fun random_nonzero_bytes :: "u8 list option list \<Rightarrow> (u8 list, IdError) result option" where
  "random_nonzero_bytes [] = None"
| "random_nonzero_bytes (None # fills) = Some (Err ID_EntropyUnavailable)"
| "random_nonzero_bytes (Some bytes # fills) =
     (if list_ex (\<lambda>b. b \<noteq> 0) bytes then Some (Ok bytes) else random_nonzero_bytes fills)"

definition decode_lower_hex :: "nat \<Rightarrow> u8 option" where
  "decode_lower_hex v =
     (if 0x30 \<le> v \<and> v \<le> 0x39 then Some (of_nat (v - 0x30))
      else if 0x61 \<le> v \<and> v \<le> 0x66 then Some (of_nat (v - 0x61 + 10))
      else None)"

fun decode_hex_pairs :: "nat list \<Rightarrow> (u8 list, IdError) result" where
  "decode_hex_pairs (high # low # rest) =
     (case decode_lower_hex high of
        None \<Rightarrow> Err ID_InvalidHex
      | Some h \<Rightarrow>
          (case decode_lower_hex low of
             None \<Rightarrow> Err ID_InvalidHex
           | Some l \<Rightarrow>
               (case decode_hex_pairs rest of
                  Err e \<Rightarrow> Err e
                | Ok bs \<Rightarrow> Ok ((push_bit 4 h OR l) # bs))))"
| "decode_hex_pairs _ = Ok []"

definition decode_runtime_id :: "rstr \<Rightarrow> rstr \<Rightarrow> (u8 list, IdError) result" where
  "decode_runtime_id value prefix =
     (case strip_prefix prefix value of
        None \<Rightarrow> Err ID_InvalidPrefix
      | Some payload \<Rightarrow>
          if str_len payload \<noteq> 32 then Err ID_InvalidLength
          else (case decode_hex_pairs (str_bytes payload) of
                  Err e \<Rightarrow> Err e
                | Ok bytes \<Rightarrow>
                    if list_all (\<lambda>b. b = 0) bytes then Err ID_ZeroPayload else Ok bytes))"

text \<open>The formatter \<^verbatim>\<open>{byte:02x}\<close>.\<close>

definition hex_digit :: "nat \<Rightarrow> rchar" where
  "hex_digit d = (if d < 10 then 0x30 + d else 0x61 + (d - 10))"

definition hex_byte :: "u8 \<Rightarrow> rstr" where
  "hex_byte b = [hex_digit (unat b div 16), hex_digit (unat b mod 16)]"

definition encode_runtime_id :: "rstr \<Rightarrow> u8 list \<Rightarrow> rstr" where
  "encode_runtime_id prefix bytes = prefix @ concat (map hex_byte bytes)"

datatype InteractionId = InteractionId (int_bytes: "u8 list")
datatype LoopId = LoopId (lup_bytes: "u8 list")

definition InteractionId_new :: "u8 list option list \<Rightarrow> (InteractionId, IdError) result option" where
  "InteractionId_new fills = map_option (map_ok InteractionId) (random_nonzero_bytes fills)"

definition InteractionId_from_str :: "rstr \<Rightarrow> (InteractionId, IdError) result" where
  "InteractionId_from_str s = map_ok InteractionId (decode_runtime_id s (lit ''int_''))"

definition InteractionId_to_string :: "InteractionId \<Rightarrow> rstr" where
  "InteractionId_to_string i = encode_runtime_id (lit ''int_'') (int_bytes i)"

definition LoopId_new :: "u8 list option list \<Rightarrow> (LoopId, IdError) result option" where
  "LoopId_new fills = map_option (map_ok LoopId) (random_nonzero_bytes fills)"

definition LoopId_from_str :: "rstr \<Rightarrow> (LoopId, IdError) result" where
  "LoopId_from_str s = map_ok LoopId (decode_runtime_id s (lit ''lup_''))"

definition LoopId_to_string :: "LoopId \<Rightarrow> rstr" where
  "LoopId_to_string i = encode_runtime_id (lit ''lup_'') (lup_bytes i)"

text \<open>The payloads that occur: sixteen bytes, not all zero.\<close>

definition id_payload_ok :: "u8 list \<Rightarrow> bool" where
  "id_payload_ok bytes \<longleftrightarrow> length bytes = 16 \<and> list_ex (\<lambda>b. b \<noteq> 0) bytes"

subsection \<open>Symbolic names\<close>

datatype ToolCallIdError = TCI_InvalidLength | TCI_NonPrintable
datatype ModelRefError = MR_InvalidLength | MR_InvalidGrammar
datatype ToolNameError = TN_InvalidLength | TN_InvalidGrammar

datatype ToolCallId = ToolCallId (tci_str: rstr)
datatype ModelRef = ModelRef (mref_str: rstr)
datatype ToolName = ToolName (tname_str: rstr)

definition opaque_byte :: "nat \<Rightarrow> bool" where
  [text_defs]: "opaque_byte b \<longleftrightarrow> 0x21 \<le> b \<and> b \<le> 0x7E \<and> b \<noteq> 0x22 \<and> b \<noteq> 0x5C"

definition model_ref_byte :: "nat \<Rightarrow> bool" where
  [text_defs]: "model_ref_byte b \<longleftrightarrow>
     is_ascii_alphanumeric b \<or> b = 0x5F \<or> b = 0x2D \<or> b = 0x2E \<or> b = 0x3A \<or> b = 0x2F"

definition tool_name_byte :: "nat \<Rightarrow> bool" where
  [text_defs]: "tool_name_byte b \<longleftrightarrow> is_ascii_alphanumeric b \<or> b = 0x5F \<or> b = 0x2D"

definition ToolCallId_new :: "rstr \<Rightarrow> (ToolCallId, ToolCallIdError) result" where
  "ToolCallId_new value =
     (if value = [] \<or> 256 < str_len value then Err TCI_InvalidLength
      else if \<not> list_all opaque_byte (str_bytes value) then Err TCI_NonPrintable
      else Ok (ToolCallId value))"

definition ModelRef_from_str :: "rstr \<Rightarrow> (ModelRef, ModelRefError) result" where
  "ModelRef_from_str value =
     (if value = [] \<or> 256 < str_len value then Err MR_InvalidLength
      else if \<not> list_all model_ref_byte (str_bytes value) then Err MR_InvalidGrammar
      else Ok (ModelRef value))"

definition ToolName_from_str :: "rstr \<Rightarrow> (ToolName, ToolNameError) result" where
  "ToolName_from_str value =
     (if value = [] \<or> 64 < str_len value then Err TN_InvalidLength
      else if \<not> list_all tool_name_byte (str_bytes value) then Err TN_InvalidGrammar
      else Ok (ToolName value))"

text \<open>
  \<open>ToolName\<close> derives \<open>Ord\<close>: the lexicographic order of its text, which for the ASCII text
  of a name is the order of its bytes.
\<close>

instantiation ToolName :: linorder
begin

definition less_eq_ToolName :: "ToolName \<Rightarrow> ToolName \<Rightarrow> bool" where
  "less_eq_ToolName a b \<longleftrightarrow> tname_str a \<le> tname_str b"

definition less_ToolName :: "ToolName \<Rightarrow> ToolName \<Rightarrow> bool" where
  "less_ToolName a b \<longleftrightarrow> tname_str a < tname_str b"

instance
proof
  fix a b c :: ToolName
  show "(a < b) = (a \<le> b \<and> \<not> b \<le> a)"
    by (auto simp: less_eq_ToolName_def less_ToolName_def)
  show "a \<le> a" by (simp add: less_eq_ToolName_def)
  show "a \<le> b \<Longrightarrow> b \<le> c \<Longrightarrow> a \<le> c" by (simp add: less_eq_ToolName_def)
  show "a \<le> b \<Longrightarrow> b \<le> a \<Longrightarrow> a = b" by (simp add: less_eq_ToolName_def ToolName.expand)
  show "a \<le> b \<or> b \<le> a" by (auto simp: less_eq_ToolName_def)
qed

end

subsection \<open>The interface of symbolic names\<close>

locale symbolic_name =
  fixes parse :: "rstr \<Rightarrow> ('a, 'e) result" and text_of :: "'a \<Rightarrow> rstr" and mk :: "rstr \<Rightarrow> 'a"
    and max_len :: nat and byte_ok :: "nat \<Rightarrow> bool" and len_err :: 'e and grammar_err :: 'e
  assumes parse_eq: "parse s =
      (if s = [] \<or> max_len < str_len s then Err len_err
       else if \<not> list_all byte_ok (str_bytes s) then Err grammar_err else Ok (mk s))"
    and text_of_mk: "text_of (mk s) = s"
    and mk_text_of: "mk (text_of a) = a"
    and byte_ok_ascii: "byte_ok b \<Longrightarrow> b < 0x80"
begin

definition name_ok :: "'a \<Rightarrow> bool" where
  "name_ok a \<longleftrightarrow> text_of a \<noteq> [] \<and> length (text_of a) \<le> max_len \<and> list_all byte_ok (text_of a)"

lemma byte_grammar: "list_all byte_ok (str_bytes s) \<longleftrightarrow> list_all byte_ok s"
proof
  assume "list_all byte_ok (str_bytes s)"
  then show "list_all byte_ok s" using ascii_bytes [of s] byte_ok_ascii by (simp add: list_all_iff)
next
  assume "list_all byte_ok s"
  then show "list_all byte_ok (str_bytes s)"
    using ascii_str_len [of s] byte_ok_ascii by (simp add: list_all_iff)
qed

lemma grammar_len: "list_all byte_ok s \<Longrightarrow> str_len s = length s"
  using ascii_str_len [of s] byte_ok_ascii by (simp add: list_all_iff str_len_def)

lemma parse_Ok_iff: "parse s = Ok a \<longleftrightarrow> name_ok a \<and> text_of a = s"
  by (auto simp: parse_eq name_ok_def byte_grammar grammar_len text_of_mk not_less
      mk_text_of split: if_splits)

end

sublocale symbolic_name \<subseteq> codec text_of parse name_ok
  by unfold_locales (auto simp: parse_Ok_iff)

interpretation tool_call_id: symbolic_name ToolCallId_new tci_str ToolCallId 256 opaque_byte
  TCI_InvalidLength TCI_NonPrintable
  by unfold_locales (auto simp: ToolCallId_new_def text_defs)

interpretation model_ref: symbolic_name ModelRef_from_str mref_str ModelRef 256 model_ref_byte
  MR_InvalidLength MR_InvalidGrammar
  by unfold_locales (auto simp: ModelRef_from_str_def text_defs)

interpretation tool_name: symbolic_name ToolName_from_str tname_str ToolName 64 tool_name_byte
  TN_InvalidLength TN_InvalidGrammar
  by unfold_locales (auto simp: ToolName_from_str_def text_defs)


subsection \<open>Hexadecimal round trip\<close>

lemma decode_hex_digit: "d < 16 \<Longrightarrow> decode_lower_hex (hex_digit d) = Some (of_nat d)"
  by (auto simp: hex_digit_def decode_lower_hex_def)

lemma decode_lower_hex_Some:
  assumes "decode_lower_hex v = Some h"
  obtains d where "d < 16" "v = hex_digit d" "h = of_nat d"
proof (cases "v \<le> 0x39")
  case True
  with assms show ?thesis
    by (intro that [of "v - 0x30"]) (auto simp: decode_lower_hex_def hex_digit_def split: if_splits)
next
  case False
  with assms show ?thesis
    by (intro that [of "v - 0x61 + 10"])
      (auto simp: decode_lower_hex_def hex_digit_def split: if_splits)
qed

lemma nibbles_all:
  "\<forall>h \<in> set [0..<16]. \<forall>l \<in> set [0..<16].
     (push_bit 4 (of_nat h) OR of_nat l :: u8) = of_nat (16 * h + l)"
  by code_simp

lemma nibbles: "h < 16 \<Longrightarrow> l < 16 \<Longrightarrow> (push_bit 4 (of_nat h) OR of_nat l :: u8) = of_nat (16 * h + l)"
  using nibbles_all by simp

lemma hex_byte_nibbles:
  assumes "h < 16" "l < 16"
  shows "hex_byte (of_nat (16 * h + l)) = [hex_digit h, hex_digit l]"
proof -
  have "16 * h + l < 256" using assms by simp
  then have "unat (of_nat (16 * h + l) :: u8) = 16 * h + l"
    by (simp only: unat_of_nat take_bit_nat_eq_self_iff) simp
  with assms show ?thesis by (simp add: hex_byte_def)
qed

lemma byte_nibbles: "(of_nat (16 * (unat b div 16) + unat b mod 16) :: u8) = b"
  by simp

lemma byte_high_nibble: "unat (b :: u8) div 16 < 16"
proof -
  have "unat b < 2 ^ 8" using unsigned_less [of b] by simp
  then show ?thesis by simp
qed

lemma decode_hex_pairs_encode: "decode_hex_pairs (concat (map hex_byte bs)) = Ok bs"
proof (induction bs)
  case (Cons b bs)
  have "push_bit 4 (of_nat (unat b div 16)) OR of_nat (unat b mod 16) = b"
    using nibbles [OF byte_high_nibble [of b], of "unat b mod 16"] byte_nibbles [of b] by simp
  with Cons show ?case
    by (simp add: hex_byte_def decode_hex_digit byte_high_nibble)
qed simp

lemma encode_decode_hex_pairs:
  "decode_hex_pairs xs = Ok bs \<Longrightarrow> even (length xs) \<Longrightarrow> xs = concat (map hex_byte bs)"
proof (induction xs arbitrary: bs rule: decode_hex_pairs.induct)
  case (1 high low rest)
  from "1.prems"(1) obtain h l bs' where
    h: "decode_lower_hex high = Some h" and l: "decode_lower_hex low = Some l"
    and bs': "decode_hex_pairs rest = Ok bs'" and bs: "bs = (push_bit 4 h OR l) # bs'"
    by (auto split: option.splits result.splits)
  from h obtain dh where dh: "dh < 16" "high = hex_digit dh" "h = of_nat dh"
    by (rule decode_lower_hex_Some)
  from l obtain dl where dl: "dl < 16" "low = hex_digit dl" "l = of_nat dl"
    by (rule decode_lower_hex_Some)
  have "hex_byte (push_bit 4 h OR l) = [high, low]"
    using nibbles [OF dh(1) dl(1)] hex_byte_nibbles [OF dh(1) dl(1)] dh dl by simp
  with "1.IH" [OF h l bs'] "1.prems"(2) bs show ?case by simp
qed auto

lemma hex_byte_ascii: "c \<in> set (hex_byte b) \<Longrightarrow> c < 0x80"
  using byte_high_nibble [of b] by (auto simp: hex_byte_def hex_digit_def)

lemma hex_text_bytes: "str_bytes (concat (map hex_byte bs)) = concat (map hex_byte bs)"
  by (rule ascii_str_len) (auto dest: hex_byte_ascii)

lemma length_hex_text: "length (concat (map hex_byte bs)) = 2 * length bs"
  by (induction bs) (simp_all add: hex_byte_def)

lemma decode_hex_pairs_ascii:
  "decode_hex_pairs xs = Ok bs \<Longrightarrow> even (length xs) \<Longrightarrow> x \<in> set xs \<Longrightarrow> x < 0x80"
  by (auto dest!: encode_decode_hex_pairs hex_byte_ascii)

lemma decode_runtime_id_encode:
  "id_payload_ok bs \<Longrightarrow> decode_runtime_id (encode_runtime_id prefix bs) prefix = Ok bs"
  by (auto simp: decode_runtime_id_def encode_runtime_id_def strip_prefix_def id_payload_ok_def
      str_len_def hex_text_bytes length_hex_text decode_hex_pairs_encode list_all_iff list_ex_iff)

lemma decode_runtime_id_Ok:
  assumes "decode_runtime_id s prefix = Ok bs"
  shows "id_payload_ok bs \<and> encode_runtime_id prefix bs = s"
proof -
  from assms obtain payload where
    s: "s = prefix @ payload" and len: "str_len payload = 32"
    and dec: "decode_hex_pairs (str_bytes payload) = Ok bs"
    and nz: "\<not> list_all (\<lambda>b. b = 0) bs"
    by (auto simp: decode_runtime_id_def strip_prefix_def split: if_splits option.splits result.splits)
      (metis append_take_drop_id)
  have even: "even (length (str_bytes payload))" using len by (simp add: str_len_def)
  have hex: "str_bytes payload = concat (map hex_byte bs)"
    using dec even by (rule encode_decode_hex_pairs)
  moreover have "str_bytes payload = payload"
    by (rule ascii_bytes) (use dec even in \<open>blast intro: decode_hex_pairs_ascii\<close>)
  moreover have "length bs = 16"
    using hex len length_hex_text [of bs] by (simp add: str_len_def)
  ultimately show ?thesis
    using s nz by (simp add: encode_runtime_id_def id_payload_ok_def list_all_iff list_ex_iff)
qed

interpretation interaction_id: codec InteractionId_to_string InteractionId_from_str
  "\<lambda>i. id_payload_ok (int_bytes i)"
proof unfold_locales
  show "id_payload_ok (int_bytes a) \<Longrightarrow> InteractionId_from_str (InteractionId_to_string a) = Ok a" for a
    by (simp add: InteractionId_from_str_def InteractionId_to_string_def decode_runtime_id_encode)
qed (auto simp: InteractionId_from_str_def InteractionId_to_string_def map_ok_def
    split: result.splits dest!: decode_runtime_id_Ok)

interpretation loop_id: codec LoopId_to_string LoopId_from_str "\<lambda>i. id_payload_ok (lup_bytes i)"
proof unfold_locales
  show "id_payload_ok (lup_bytes a) \<Longrightarrow> LoopId_from_str (LoopId_to_string a) = Ok a" for a
    by (simp add: LoopId_from_str_def LoopId_to_string_def decode_runtime_id_encode)
qed (auto simp: LoopId_from_str_def LoopId_to_string_def map_ok_def
    split: result.splits dest!: decode_runtime_id_Ok)

lemma random_nonzero_bytes_Ok:
  "random_nonzero_bytes fills = Some (Ok bs) \<Longrightarrow>
     Some bs \<in> set fills \<and> list_ex (\<lambda>b. b \<noteq> 0) bs"
  by (induction fills rule: random_nonzero_bytes.induct) (auto split: if_splits)

subsection \<open>Properties\<close>

text \<open>
  The text form of a loop id is read back to the same id exactly for the ids the
  generator can produce (sixteen bytes, not all zero), every text that parses is the
  canonical text of the id it denotes, and interaction and loop ids never share a text.
\<close>
lemma loop_id_text_roundtrip:
  "(LoopId_from_str s = Ok i \<longleftrightarrow> id_payload_ok (lup_bytes i) \<and> s = LoopId_to_string i)
   \<and> (InteractionId_from_str s = Ok k \<longleftrightarrow> id_payload_ok (int_bytes k) \<and> s = InteractionId_to_string k)
   \<and> \<not> (is_ok (LoopId_from_str s) \<and> is_ok (InteractionId_from_str s))"
proof -
  have "\<not> (is_ok (LoopId_from_str s) \<and> is_ok (InteractionId_from_str s))"
  proof
    assume "is_ok (LoopId_from_str s) \<and> is_ok (InteractionId_from_str s)"
    then obtain a b where "LoopId_to_string a = InteractionId_to_string b"
      unfolding is_ok_iff loop_id.decode_Ok_iff interaction_id.decode_Ok_iff by metis
    then show False
      by (simp add: LoopId_to_string_def InteractionId_to_string_def encode_runtime_id_def lit_def)
  qed
  then show ?thesis by (simp add: loop_id.decode_Ok_iff interaction_id.decode_Ok_iff)
qed

text \<open>
  The three symbolic name types accept exactly the non-empty texts within their byte
  limit whose characters are all in their grammar, and keep the text unchanged.
\<close>
lemma symbolic_names_grammar:
  "(ToolCallId_new s = Ok c \<longleftrightarrow> c = ToolCallId s \<and> 1 \<le> length s \<and> length s \<le> 256 \<and> list_all opaque_byte s)
   \<and> (ModelRef_from_str s = Ok m \<longleftrightarrow> m = ModelRef s \<and> 1 \<le> length s \<and> length s \<le> 256 \<and> list_all model_ref_byte s)
   \<and> (ToolName_from_str s = Ok t \<longleftrightarrow> t = ToolName s \<and> 1 \<le> length s \<and> length s \<le> 64 \<and> list_all tool_name_byte s)"
  by (cases c; cases m; cases t)
    (auto simp: tool_call_id.parse_Ok_iff model_ref.parse_Ok_iff tool_name.parse_Ok_iff
      tool_call_id.name_ok_def model_ref.name_ok_def tool_name.name_ok_def Suc_le_eq)

end
