(* ===== verification/Port_Call.thy ===== *)
theory Port_Call
  imports Prelude
begin

text \<open>
  Deadlines (\<^verbatim>\<open>src/time.rs\<close>) and the one wrapper every host port is called through
  (\<^verbatim>\<open>src/port_call.rs\<close>).

  Instants and durations are nanoseconds.  \<open>tokio\<close> is outside the sources: what
  \<open>run_port_call\<close> observes of it is the argument \<open>port_env\<close>, the value of the cancellation
  token on entry, the two clock readings, whether the closure panics, and one \<open>port_poll\<close>
  for every time the \<open>select!\<close> is polled, which says which branches are ready then.  A run
  whose polls never have a ready branch is still pending, the value \<open>None\<close>.
\<close>

subsection \<open>Deadlines\<close>

type_synonym instant = nat
type_synonym duration = nat

abbreviation SECOND :: duration where "SECOND \<equiv> 1000000000"

text \<open>
  \<open>Instant\<close> stores whole seconds in 64 signed bits; \<open>checked_add\<close> is \<open>None\<close> beyond.
\<close>

definition INSTANT_LIMIT :: nat where
  "INSTANT_LIMIT = 2 ^ 63 * SECOND"

definition instant_checked_add :: "instant \<Rightarrow> duration \<Rightarrow> instant option" where
  "instant_checked_add t d = (if t + d < INSTANT_LIMIT then Some (t + d) else None)"

datatype DeadlineSource = Turn | Port

record EffectiveDeadline =
  ed_standard :: instant
  ed_tokio :: instant
  ed_source :: DeadlineSource

datatype DeadlineOverflow = DeadlineOverflow

definition effective_deadline_from ::
  "instant \<Rightarrow> instant \<Rightarrow> duration \<Rightarrow> (EffectiveDeadline, DeadlineOverflow) result" where
  "effective_deadline_from now turn_deadline port_timeout =
     (case instant_checked_add now port_timeout of
        None \<Rightarrow> Err DeadlineOverflow
      | Some port_deadline \<Rightarrow>
          (let (tokio, source) = (if turn_deadline \<le> port_deadline then (turn_deadline, Turn)
                                  else (port_deadline, Port))
           in Ok \<lparr>ed_standard = tokio, ed_tokio = tokio, ed_source = source\<rparr>))"

subsection \<open>Port calls\<close>

datatype ('a, 'e) PortCallOutcome =
    Returned "('a, 'e) result"
  | PC_Cancelled
  | PC_DeadlineExceeded DeadlineSource
  | PC_InvalidDeadline DeadlineOverflow
  | PC_Panicked

text \<open>What \<open>catch_unwind\<close> yields: the value, or the fact of a panic.\<close>

datatype 'a caught = Completed 'a | Unwound

record 'a port_poll =
  pp_cancelled :: bool
  pp_elapsed :: bool
  pp_ready :: "'a caught option"

record 'a port_env =
  pe_cancelled :: bool
  pe_now_deadline :: instant
  pe_now_check :: instant
  pe_construct_panics :: bool
  pe_polls :: "'a port_poll list"

text \<open>
  What a call does with the port, in order: the child token is made, the closure is called with a
  clone of it and a deadline, the child token is cancelled, the future is dropped.  A local future
  is dropped when its scope is left, that is after the statements before the \<open>return\<close>.
\<close>

datatype port_step = Child_Created | Closure_Called instant | Child_Cancelled | Future_Dropped

record ('a, 'e) port_run =
  pr_outcome :: "('a, 'e) PortCallOutcome"
  pr_steps :: "port_step list"

text \<open>The deadline the closure was called with, if it was called.\<close>

fun called_with :: "port_step list \<Rightarrow> instant option" where
  "called_with [] = None"
| "called_with (Closure_Called d # steps) = Some d"
| "called_with (_ # steps) = called_with steps"

definition pr_called :: "('a, 'e) port_run \<Rightarrow> instant option" where
  "pr_called run = called_with (pr_steps run)"

text \<open>The \<open>biased\<close> select over cancellation, timer and future, poll after poll.\<close>

datatype 'a selected = Sel_Cancelled | Sel_Elapsed | Sel_Result "'a caught"

fun select_port :: "'a port_poll list \<Rightarrow> 'a selected option" where
  "select_port [] = None"
| "select_port (p # ps) =
     (if pp_cancelled p then Some Sel_Cancelled
      else if pp_elapsed p then Some Sel_Elapsed
      else (case pp_ready p of Some r \<Rightarrow> Some (Sel_Result r) | None \<Rightarrow> select_port ps))"

definition run_port_call ::
  "instant \<Rightarrow> duration \<Rightarrow> ('a, 'e) result port_env \<Rightarrow> ('a, 'e) port_run option" where
  "run_port_call turn_deadline port_timeout env =
     (if pe_cancelled env then Some \<lparr>pr_outcome = PC_Cancelled, pr_steps = []\<rparr>
      else case effective_deadline_from (pe_now_deadline env) turn_deadline port_timeout of
        Err e \<Rightarrow> Some \<lparr>pr_outcome = PC_InvalidDeadline e, pr_steps = []\<rparr>
      | Ok deadline \<Rightarrow>
          if ed_tokio deadline \<le> pe_now_check env then
            Some \<lparr>pr_outcome = PC_DeadlineExceeded (ed_source deadline), pr_steps = []\<rparr>
          else
            (let called = [Child_Created, Closure_Called (ed_standard deadline)] in
             if pe_construct_panics env then
               Some \<lparr>pr_outcome = PC_Panicked, pr_steps = called @ [Child_Cancelled]\<rparr>
             else case select_port (pe_polls env) of
                 None \<Rightarrow> None
               | Some Sel_Cancelled \<Rightarrow>
                   Some \<lparr>pr_outcome = PC_Cancelled, pr_steps = called @ [Child_Cancelled, Future_Dropped]\<rparr>
               | Some Sel_Elapsed \<Rightarrow>
                   Some \<lparr>pr_outcome = PC_DeadlineExceeded (ed_source deadline),
                         pr_steps = called @ [Child_Cancelled, Future_Dropped]\<rparr>
               | Some (Sel_Result result) \<Rightarrow>
                   Some \<lparr>pr_outcome = (case result of Completed r \<Rightarrow> Returned r | Unwound \<Rightarrow> PC_Panicked),
                         pr_steps = called @ [Child_Cancelled, Future_Dropped]\<rparr>))"

text \<open>The outcome alone, which is what the callers match on.\<close>

definition port_outcome ::
  "instant \<Rightarrow> duration \<Rightarrow> ('a, 'e) result port_env \<Rightarrow> ('a, 'e) PortCallOutcome option" where
  "port_outcome turn_deadline port_timeout env =
     map_option pr_outcome (run_port_call turn_deadline port_timeout env)"

subsection \<open>Lemmas\<close>

definition poll_decisive :: "'a port_poll \<Rightarrow> bool" where
  "poll_decisive p \<longleftrightarrow> pp_cancelled p \<or> pp_elapsed p \<or> pp_ready p \<noteq> None"

lemma select_port_None: "select_port ps = None \<longleftrightarrow> list_all (\<lambda>p. \<not> poll_decisive p) ps"
  by (induction ps) (auto simp: poll_decisive_def split: option.splits)

lemma select_port_skip:
  "list_all (\<lambda>p. \<not> poll_decisive p) ps \<Longrightarrow> select_port (ps @ qs) = select_port qs"
  by (induction ps) (auto simp: poll_decisive_def)

lemma select_port_Result:
  assumes "select_port ps = Some (Sel_Result r)"
  obtains ps1 p ps2 where "ps = ps1 @ p # ps2" "list_all (\<lambda>p. \<not> poll_decisive p) ps1"
    "\<not> pp_cancelled p" "\<not> pp_elapsed p" "pp_ready p = Some r"
  using assms
proof (induction ps arbitrary: thesis)
  case (Cons p ps)
  show ?case
  proof (cases "pp_ready p")
    case (Some r')
    with Cons.prems(2) show ?thesis by (intro Cons.prems(1) [of "[]" p ps]) (auto split: if_splits)
  next
    case None
    with Cons.prems(2) have "select_port ps = Some (Sel_Result r)" "\<not> poll_decisive p"
      by (auto simp: poll_decisive_def split: if_splits)
    from Cons.IH [OF _ this(1)] this(2) show ?thesis
      by (metis Cons.prems(1) append_Cons list.pred_inject(2))
  qed
qed simp

lemma effective_deadline_Ok:
  "effective_deadline_from now turn timeout = Ok d \<longleftrightarrow>
     now + timeout < INSTANT_LIMIT
     \<and> d = \<lparr>ed_standard = min turn (now + timeout), ed_tokio = min turn (now + timeout),
            ed_source = (if turn \<le> now + timeout then Turn else Port)\<rparr>"
  by (auto simp: effective_deadline_from_def instant_checked_add_def)

lemma effective_deadline_Err:
  "effective_deadline_from now turn timeout = Err e \<longleftrightarrow> INSTANT_LIMIT \<le> now + timeout"
  by (cases e) (auto simp: effective_deadline_from_def instant_checked_add_def)

lemma pr_called_simps [simp]:
  "pr_called \<lparr>pr_outcome = out, pr_steps = []\<rparr> = None"
  "pr_called \<lparr>pr_outcome = out, pr_steps = Child_Created # Closure_Called d # steps\<rparr> = Some d"
  by (simp_all add: pr_called_def)

lemma run_port_call_Returned:
  assumes "run_port_call turn timeout env = Some r" "pr_outcome r = Returned v"
  shows "pr_called r \<noteq> None \<and> select_port (pe_polls env) = Some (Sel_Result (Completed v))"
  using assms unfolding run_port_call_def
  by (auto simp: Let_def split: if_splits result.splits option.splits selected.splits caught.splits)

text \<open>
  The protocol a port can rely on, as an automaton: the closure gets a token of its own, the token is
  cancelled once, before the future goes away; a closure that panics leaves no future.
\<close>

datatype call_phase = Not_Called | Token_Ready | In_Call | Token_Cancelled | Call_Over

fun phase_step :: "port_step \<Rightarrow> call_phase \<Rightarrow> call_phase option" where
  "phase_step Child_Created Not_Called = Some Token_Ready"
| "phase_step (Closure_Called d) Token_Ready = Some In_Call"
| "phase_step Child_Cancelled In_Call = Some Token_Cancelled"
| "phase_step Future_Dropped Token_Cancelled = Some Call_Over"
| "phase_step step phase = None"

fun phase_after :: "port_step list \<Rightarrow> call_phase \<Rightarrow> call_phase option" where
  "phase_after [] phase = Some phase"
| "phase_after (step # steps) phase = Option.bind (phase_step step phase) (phase_after steps)"

text \<open>What decides a call that was made: its first poll with an answer.\<close>

definition poll_outcome :: "DeadlineSource \<Rightarrow> ('a, 'e) result port_poll \<Rightarrow> ('a, 'e) PortCallOutcome" where
  "poll_outcome source p =
     (if pp_cancelled p then PC_Cancelled
      else if pp_elapsed p then PC_DeadlineExceeded source
      else case pp_ready p of Some (Completed r) \<Rightarrow> Returned r | _ \<Rightarrow> PC_Panicked)"

lemma select_port_find:
  "select_port ps = map_option (\<lambda>p. if pp_cancelled p then Sel_Cancelled else if pp_elapsed p then Sel_Elapsed
     else Sel_Result (the (pp_ready p))) (List.find poll_decisive ps)"
  by (induction ps) (auto simp: poll_decisive_def split: option.splits)

lemma find_decisive: "List.find poll_decisive ps = Some p \<Longrightarrow> poll_decisive p"
  by (induction ps) (auto split: if_splits)

lemma run_port_call_terminates:
  "list_ex poll_decisive (pe_polls env) \<Longrightarrow> \<exists>r. run_port_call turn timeout env = Some r"
proof -
  assume "list_ex poll_decisive (pe_polls env)"
  then have "select_port (pe_polls env) \<noteq> None"
    by (auto simp: select_port_None list_all_iff list_ex_iff)
  then show ?thesis
    unfolding run_port_call_def
    by (auto simp: Let_def split: if_splits result.splits option.splits selected.splits caught.splits)
qed

subsection \<open>Properties\<close>

text \<open>
  C34: the life of a port call.  It returns as soon as some poll finds cancellation, the timer or the
  future ready.  If the closure is not called, the outcome says which guard stopped it, and that guard
  is true.  If it is called, then under a live token and with a deadline still to come, the earlier of
  turn deadline and clock plus timeout; the outcome is a panic of the closure or what the first
  decisive poll says, cancellation before the timer before the result; and on every path, the
  panics included, the closure's own token is cancelled exactly once after the call and before the
  future is dropped.
\<close>
theorem run_port_call_lifecycle:
  "(list_ex poll_decisive (pe_polls env) \<longrightarrow> run_port_call turn timeout env \<noteq> None)
   \<and> (\<forall>r. run_port_call turn timeout env = Some r \<longrightarrow>
        (case pr_called r of
           None \<Rightarrow> phase_after (pr_steps r) Not_Called = Some Not_Called
             \<and> (pr_outcome r = PC_Cancelled \<and> pe_cancelled env
                \<or> pr_outcome r = PC_InvalidDeadline DeadlineOverflow \<and> INSTANT_LIMIT \<le> (pe_now_deadline env + timeout)
                \<or> pr_outcome r = PC_DeadlineExceeded Turn \<and> turn \<le> pe_now_check env
                \<or> pr_outcome r = PC_DeadlineExceeded Port \<and> (pe_now_deadline env + timeout) \<le> pe_now_check env)
         | Some d \<Rightarrow> \<not> pe_cancelled env \<and> d = min turn (pe_now_deadline env + timeout) \<and> pe_now_check env < d \<and> d < INSTANT_LIMIT
             \<and> (if pe_construct_panics env
                then pr_outcome r = PC_Panicked \<and> phase_after (pr_steps r) Not_Called = Some Token_Cancelled
                else (\<exists>p. List.find poll_decisive (pe_polls env) = Some p
                       \<and> pr_outcome r = poll_outcome (if turn \<le> (pe_now_deadline env + timeout) then Turn else Port) p)
                     \<and> phase_after (pr_steps r) Not_Called = Some Call_Over)))"
proof (intro conjI impI allI)
  show "run_port_call turn timeout env \<noteq> None" if "list_ex poll_decisive (pe_polls env)"
    using run_port_call_terminates [OF that, of turn timeout] by auto
next
  let ?limit = "pe_now_deadline env + timeout"
  fix r assume r: "run_port_call turn timeout env = Some r"
  show "case pr_called r of
           None \<Rightarrow> phase_after (pr_steps r) Not_Called = Some Not_Called
             \<and> (pr_outcome r = PC_Cancelled \<and> pe_cancelled env
                \<or> pr_outcome r = PC_InvalidDeadline DeadlineOverflow \<and> INSTANT_LIMIT \<le> (pe_now_deadline env + timeout)
                \<or> pr_outcome r = PC_DeadlineExceeded Turn \<and> turn \<le> pe_now_check env
                \<or> pr_outcome r = PC_DeadlineExceeded Port \<and> (pe_now_deadline env + timeout) \<le> pe_now_check env)
         | Some d \<Rightarrow> \<not> pe_cancelled env \<and> d = min turn (pe_now_deadline env + timeout) \<and> pe_now_check env < d \<and> d < INSTANT_LIMIT
             \<and> (if pe_construct_panics env
                then pr_outcome r = PC_Panicked \<and> phase_after (pr_steps r) Not_Called = Some Token_Cancelled
                else (\<exists>p. List.find poll_decisive (pe_polls env) = Some p
                       \<and> pr_outcome r = poll_outcome (if turn \<le> (pe_now_deadline env + timeout) then Turn else Port) p)
                     \<and> phase_after (pr_steps r) Not_Called = Some Call_Over)"
  proof (cases "pe_cancelled env \<or> INSTANT_LIMIT \<le> ?limit \<or> min turn ?limit \<le> pe_now_check env \<or> pe_construct_panics env")
    case True
    with r show ?thesis
      by (cases "?limit < INSTANT_LIMIT")
        (auto simp: run_port_call_def effective_deadline_from_def instant_checked_add_def Let_def split: if_splits)
  next
    case False
    then have env: "\<not> pe_cancelled env" "?limit < INSTANT_LIMIT" "\<not> min turn ?limit \<le> pe_now_check env"
      "\<not> pe_construct_panics env" by simp_all
    define d where "d = \<lparr>ed_standard = min turn ?limit, ed_tokio = min turn ?limit,
       ed_source = (if turn \<le> ?limit then Turn else Port)\<rparr>"
    have d: "effective_deadline_from (pe_now_deadline env) turn timeout = Ok d" "ed_standard d = min turn ?limit"
      "ed_tokio d = min turn ?limit" "ed_source d = (if turn \<le> ?limit then Turn else Port)"
      using env(2) by (simp_all add: effective_deadline_Ok d_def)
    obtain p where p: "List.find poll_decisive (pe_polls env) = Some p"
      using r env by (auto simp: run_port_call_def d select_port_find Let_def split: option.splits)
    then have dec: "poll_decisive p" by (rule find_decisive)
    have "r = \<lparr>pr_outcome = poll_outcome (ed_source d) p,
        pr_steps = [Child_Created, Closure_Called (min turn ?limit), Child_Cancelled, Future_Dropped]\<rparr>"
      using r env dec
      by (auto simp: run_port_call_def d select_port_find p Let_def poll_outcome_def poll_decisive_def split: if_splits caught.splits)
    with env p d(4) show ?thesis by (auto simp: min_less_iff_disj)
  qed
qed

theorem run_port_call_lifecycle_witness:
  "\<exists>r. run_port_call 100 50 \<lparr>pe_cancelled = False, pe_now_deadline = 10, pe_now_check = 11,
        pe_construct_panics = False,
        pe_polls = [\<lparr>pp_cancelled = False, pp_elapsed = False, pp_ready = None\<rparr>,
                    \<lparr>pp_cancelled = False, pp_elapsed = True, pp_ready = None\<rparr>]\<rparr>
        = Some (r :: (unit, unit) port_run)
      \<and> pr_called r = Some 60 \<and> pr_outcome r = PC_DeadlineExceeded Port
      \<and> phase_after (pr_steps r) Not_Called = Some Call_Over"
proof -
  let ?env = "\<lparr>pe_cancelled = False, pe_now_deadline = 10, pe_now_check = 11,
        pe_construct_panics = False,
        pe_polls = [\<lparr>pp_cancelled = False, pp_elapsed = False, pp_ready = None\<rparr>,
                    \<lparr>pp_cancelled = False, pp_elapsed = True, pp_ready = None\<rparr>]\<rparr>
        :: (unit, unit) result port_env"
  note life = run_port_call_lifecycle [of ?env 100 50]
  have "list_ex poll_decisive (pe_polls ?env)" by (simp add: poll_decisive_def)
  then obtain r where r: "run_port_call 100 50 ?env = Some r" using life by blast
  with life show ?thesis
    by (auto simp: INSTANT_LIMIT_def poll_decisive_def poll_outcome_def split: option.splits intro!: exI [of _ r])
qed

text \<open>
  Cancellation beats the timer and the timer beats the result.  At the first poll with
  any ready branch, the outcome is Cancelled if the token is cancelled, otherwise
  DeadlineExceeded with the source of the effective deadline if the timer elapsed, otherwise the
  result of the future or Panicked.
\<close>
theorem run_port_call_priority:
  assumes "\<not> pe_cancelled env"
    and "pe_now_deadline env + timeout < INSTANT_LIMIT"
    and "pe_now_check env < min turn (pe_now_deadline env + timeout)"
    and "\<not> pe_construct_panics env"
    and "pe_polls env = pending @ p # rest"
    and "list_all (\<lambda>q. \<not> poll_decisive q) pending" and "poll_decisive p"
  shows "port_outcome turn timeout env = Some
     (if pp_cancelled p then PC_Cancelled
      else if pp_elapsed p then
        PC_DeadlineExceeded (if turn \<le> pe_now_deadline env + timeout then Turn else Port)
      else case pp_ready p of Some (Completed v) \<Rightarrow> Returned v | _ \<Rightarrow> PC_Panicked)"
proof -
  have sel: "select_port (pe_polls env) = select_port (p # rest)"
    using assms by (simp add: select_port_skip del: select_port.simps)
  obtain d where d: "effective_deadline_from (pe_now_deadline env) turn timeout = Ok d"
    and src: "ed_source d = (if turn \<le> pe_now_deadline env + timeout then Turn else Port)"
    and tok: "\<not> ed_tokio d \<le> pe_now_check env"
    using assms(2,3) effective_deadline_Ok [of "pe_now_deadline env" turn timeout] by auto
  show ?thesis
    using assms(1,4,7) sel d tok
    by (auto simp: port_outcome_def run_port_call_def Let_def src poll_decisive_def
        split: option.splits caught.splits)
qed

theorem run_port_call_priority_witness:
  "port_outcome 100 50 \<lparr>pe_cancelled = False, pe_now_deadline = 10, pe_now_check = 11,
        pe_construct_panics = False,
        pe_polls = [\<lparr>pp_cancelled = False, pp_elapsed = False, pp_ready = None\<rparr>,
                    \<lparr>pp_cancelled = True, pp_elapsed = True,
                     pp_ready = Some (Completed (Ok () :: (unit, unit) result))\<rparr>]\<rparr>
        = Some PC_Cancelled"
  using run_port_call_priority [of "\<lparr>pe_cancelled = False, pe_now_deadline = 10, pe_now_check = 11,
        pe_construct_panics = False,
        pe_polls = [\<lparr>pp_cancelled = False, pp_elapsed = False, pp_ready = None\<rparr>,
                    \<lparr>pp_cancelled = True, pp_elapsed = True,
                     pp_ready = Some (Completed (Ok () :: (unit, unit) result))\<rparr>]\<rparr>" 50 100
      "[\<lparr>pp_cancelled = False, pp_elapsed = False, pp_ready = None\<rparr>]"
      "\<lparr>pp_cancelled = True, pp_elapsed = True,
                     pp_ready = Some (Completed (Ok () :: (unit, unit) result))\<rparr>" "[]"]
  by (simp add: poll_decisive_def INSTANT_LIMIT_def)

end
