(* ===== verification/Model_Error.thy ===== *)
theory Model_Error
  imports Value_Text Port_Call
begin

text \<open>
  Diagnostics (\<^verbatim>\<open>src/error.rs\<close>) and model errors (\<^verbatim>\<open>src/model/error.rs\<close>).  A
  \<open>ModelError\<close> carries a delivery state and a retry hint; its fields are private, so every
  value comes from one of the four constructors or from deserialisation, and the invariant
  \<open>model_error_ok\<close> says what holds of all of them.
\<close>

datatype DiagnosticCategory =
    DCat_Configuration | DCat_Model | DCat_Tool | DCat_Policy | DCat_Context
  | DCat_Cancellation | DCat_Internal

datatype DiagnosticCode =
    DC_InvalidConfiguration | DC_ModelTimeout | DC_ModelMalformedResponse | DC_ModelUnavailable
  | DC_RuntimeTerminated | DC_ContextFailed | DC_PolicyDenied | DC_PolicyFailed | DC_ToolNotFound
  | DC_ToolTimeout | DC_ToolFailed | DC_InteractionNotFound | DC_InteractionKindMismatch
  | DC_TurnBudgetExceeded | DC_Internal

record DiagnosticSummary =
  ds_code :: DiagnosticCode
  ds_category :: DiagnosticCategory
  ds_message :: BoundedText
  ds_retryable :: bool

definition DiagnosticSummary_new ::
  "DiagnosticCode \<Rightarrow> DiagnosticCategory \<Rightarrow> BoundedText \<Rightarrow> bool \<Rightarrow> (DiagnosticSummary, ValueError) result" where
  "DiagnosticSummary_new code category message retryable =
     (if \<not> valid_text (as_str message) MAX_TEXT_BYTES True then Err VE_InvalidText
      else Ok \<lparr>ds_code = code, ds_category = category, ds_message = message,
               ds_retryable = retryable\<rparr>)"

text \<open>\<open>bounded_static\<close> panics, here \<open>None\<close>, on text that is too long or not valid.\<close>

definition DiagnosticSummary_bounded_static ::
  "DiagnosticCode \<Rightarrow> DiagnosticCategory \<Rightarrow> rstr \<Rightarrow> bool \<Rightarrow> DiagnosticSummary option" where
  "DiagnosticSummary_bounded_static code category message retryable =
     (case BoundedText_new message of
        Err _ \<Rightarrow> None
      | Ok b \<Rightarrow> (case DiagnosticSummary_new code category b retryable of
                   Err _ \<Rightarrow> None | Ok d \<Rightarrow> Some d))"

definition DiagnosticSummary_deserialize :: "DiagnosticSummary \<Rightarrow> (DiagnosticSummary, ValueError) result" where
  "DiagnosticSummary_deserialize wire =
     DiagnosticSummary_new (ds_code wire) (ds_category wire) (ds_message wire) (ds_retryable wire)"

definition diagnostic_ok :: "DiagnosticSummary \<Rightarrow> bool" where
  "diagnostic_ok d \<longleftrightarrow> valid_text (as_str (ds_message d)) MAX_TEXT_BYTES True"

subsection \<open>Model errors\<close>

datatype DeliveryState = NotStarted | Started | Delivery_Unknown

datatype ModelValueError =
    MV_InvalidText | MV_EmptyReasoningContent | MV_EmptyMessages | MV_EmptyAssistantParts
  | MV_InvalidToolArguments | MV_OrphanToolResult | MV_DuplicateToolResult
  | MV_IncompleteToolExchange | MV_EmptyResponseParts | MV_DuplicateToolCallId
  | MV_DuplicateToolCallIndex | MV_InvalidToolCallOrder | MV_InvalidDescriptor | MV_InvalidEvent
  | MV_InvalidProviderReplay | MV_InvalidTools

datatype ModelErrorKind =
    ME_InvalidRequest | ME_Unavailable | ME_ProviderUnavailable | ME_AuthMissing | ME_AuthRejected
  | ME_RateLimited | ME_QuotaExceeded | ME_ContextOverflow | ME_Timeout | ME_TransportUnavailable
  | ME_Cancelled | ME_InvalidProviderResponse | ME_IncompleteResponse | ME_StreamInterrupted
  | ME_RequestOutcomeUnknown | ME_UnexpectedToolCall | ME_Panicked | ME_Internal

datatype RetryHint = Never | Retryable (retry_after: "duration option")

text \<open>The wire form of a hint is an enum with the same two shapes.\<close>

datatype RetryHintWire = Wire_Never | Wire_Retryable "duration option"

definition RetryHint_deserialize :: "RetryHintWire \<Rightarrow> RetryHint" where
  "RetryHint_deserialize wire =
     (case wire of Wire_Never \<Rightarrow> Never | Wire_Retryable after \<Rightarrow> Retryable after)"

record ModelError =
  me_kind :: ModelErrorKind
  me_delivery :: DeliveryState
  me_retry_hint :: RetryHint
  me_diagnostic :: DiagnosticSummary

definition ModelError_not_started ::
  "ModelErrorKind \<Rightarrow> duration option \<Rightarrow> DiagnosticSummary \<Rightarrow> ModelError" where
  "ModelError_not_started kind after diagnostic =
     \<lparr>me_kind = kind, me_delivery = NotStarted, me_retry_hint = Retryable after,
      me_diagnostic = diagnostic\<lparr>ds_retryable := True\<rparr>\<rparr>"

definition ModelError_started :: "ModelErrorKind \<Rightarrow> DiagnosticSummary \<Rightarrow> ModelError" where
  "ModelError_started kind diagnostic =
     \<lparr>me_kind = kind, me_delivery = Started, me_retry_hint = Never,
      me_diagnostic = diagnostic\<lparr>ds_retryable := False\<rparr>\<rparr>"

definition ModelError_unknown :: "ModelErrorKind \<Rightarrow> DiagnosticSummary \<Rightarrow> ModelError" where
  "ModelError_unknown kind diagnostic =
     \<lparr>me_kind = kind, me_delivery = Delivery_Unknown, me_retry_hint = Never,
      me_diagnostic = diagnostic\<lparr>ds_retryable := False\<rparr>\<rparr>"

definition ModelError_permanent ::
  "ModelErrorKind \<Rightarrow> DeliveryState \<Rightarrow> DiagnosticSummary \<Rightarrow> ModelError" where
  "ModelError_permanent kind delivery diagnostic =
     \<lparr>me_kind = kind, me_delivery = delivery, me_retry_hint = Never,
      me_diagnostic = diagnostic\<lparr>ds_retryable := False\<rparr>\<rparr>"

text \<open>What follows the reading of the wire record, which has the same four fields.\<close>

definition ModelError_deserialize :: "ModelError \<Rightarrow> (ModelError, string) result" where
  "ModelError_deserialize wire =
     (case me_retry_hint wire of
        Retryable after \<Rightarrow>
          if me_delivery wire \<noteq> NotStarted
          then Err ''retryable model error requires delivery state NotStarted''
          else Ok (ModelError_not_started (me_kind wire) after (me_diagnostic wire))
      | Never \<Rightarrow> Ok (ModelError_permanent (me_kind wire) (me_delivery wire) (me_diagnostic wire)))"

definition is_retryable :: "RetryHint \<Rightarrow> bool" where
  "is_retryable h = (case h of Retryable _ \<Rightarrow> True | Never \<Rightarrow> False)"

text \<open>A retryable error never reached the provider, and its diagnostic says the same.\<close>

definition model_error_ok :: "ModelError \<Rightarrow> bool" where
  "model_error_ok e \<longleftrightarrow>
     (is_retryable (me_retry_hint e) \<longrightarrow> me_delivery e = NotStarted)
     \<and> (ds_retryable (me_diagnostic e) \<longleftrightarrow> is_retryable (me_retry_hint e))"

lemmas model_error_constructors = ModelError_not_started_def ModelError_started_def
  ModelError_unknown_def ModelError_permanent_def

lemma model_error_constructors_ok [simp, intro]:
  "model_error_ok (ModelError_not_started k after d)"
  "model_error_ok (ModelError_started k d)"
  "model_error_ok (ModelError_unknown k d)"
  "model_error_ok (ModelError_permanent k dv d)"
  by (simp_all add: model_error_ok_def model_error_constructors is_retryable_def)

interpretation model_error_wire: wire_format "\<lambda>e. e" ModelError_deserialize model_error_ok
proof unfold_locales
  show "model_error_ok e \<Longrightarrow> ModelError_deserialize e = Ok e" for e
    by (auto simp: ModelError_deserialize_def model_error_ok_def model_error_constructors
        is_retryable_def split: RetryHint.splits)
  show "ModelError_deserialize w = Ok e \<Longrightarrow> model_error_ok e" for w e
    by (auto simp: ModelError_deserialize_def split: RetryHint.splits if_splits)
qed

lemma model_error_ok_retryable:
  "model_error_ok e \<Longrightarrow> me_retry_hint e = Retryable a \<Longrightarrow> me_delivery e = NotStarted"
  by (simp add: model_error_ok_def is_retryable_def)

lemma bounded_static_Some:
  "list_all allowed_char m \<Longrightarrow> str_len m \<le> MAX_TEXT_BYTES \<Longrightarrow>
     DiagnosticSummary_bounded_static c cat m r =
       Some \<lparr>ds_code = c, ds_category = cat, ds_message = BoundedText m, ds_retryable = r\<rparr>"
  by (simp add: DiagnosticSummary_bounded_static_def BoundedText_new_def
      BoundedText_new_with_max_bytes_def DiagnosticSummary_new_def valid_text_def)

subsection \<open>Properties\<close>

text \<open>
  The fields of a \<open>ModelError\<close> are private: these are all the ways to make one, the four constructors
  and the reader.
\<close>

inductive error_made :: "ModelError \<Rightarrow> bool" where
  error_made_not_started: "error_made (ModelError_not_started kind after d)"
| error_made_started: "error_made (ModelError_started kind d)"
| error_made_unknown: "error_made (ModelError_unknown kind d)"
| error_made_permanent: "error_made (ModelError_permanent kind delivery d)"
| error_made_read: "ModelError_deserialize w = Ok e \<Longrightarrow> error_made e"

lemma error_made_ok: "error_made e \<Longrightarrow> model_error_ok e"
proof (induction rule: error_made.induct)
  case (error_made_read w e)
  then show ?case using model_error_wire.readable_iff [of e] by blast
qed simp_all

text \<open>
  C35: the model errors that exist are exactly the well-formed ones.  Whatever made it, a constructor
  or the reader, an error is retryable only if nothing was delivered, and the flag of its diagnostic
  says whether it is; a well-formed error is read back unchanged; the wire records that are
  refused are exactly the retryable ones that were delivered; and reading keeps the kind, the
  delivery state and the hint and corrects nothing but the flag of the diagnostic.
\<close>
theorem model_error_invariant:
  "error_made e = model_error_ok e
   \<and> (ModelError_deserialize e = Ok e) = model_error_ok e
   \<and> is_ok (ModelError_deserialize w) =
       (is_retryable (me_retry_hint w) \<longrightarrow> me_delivery w = NotStarted)
   \<and> (\<forall>e'. ModelError_deserialize w = Ok e' \<longrightarrow>
        e' = w\<lparr>me_diagnostic := (me_diagnostic w)\<lparr>ds_retryable := is_retryable (me_retry_hint w)\<rparr>\<rparr>)"
proof -
  have "error_made e = model_error_ok e"
    using error_made_ok error_made_read model_error_wire.roundtrip_iff [of e] by blast
  then show ?thesis
    using model_error_wire.roundtrip_iff [of e]
    by (cases w) (auto simp: ModelError_deserialize_def is_retryable_def model_error_constructors split: RetryHint.splits if_splits)
qed

theorem model_error_invariant_witness:
  "\<exists>w e. ModelError_deserialize w = Ok e \<and> model_error_ok e \<and> is_retryable (me_retry_hint e)"
proof -
  let ?d = "\<lparr>ds_code = DC_ModelUnavailable, ds_category = DCat_Model, ds_message = BoundedText [],
      ds_retryable = True\<rparr>"
  let ?e = "ModelError_not_started ME_RateLimited (Some SECOND) ?d"
  have "model_error_ok ?e" by simp
  then have "ModelError_deserialize ?e = Ok ?e" using model_error_invariant [of ?e ?e] by blast
  moreover have "is_retryable (me_retry_hint ?e)"
    by (simp add: ModelError_not_started_def is_retryable_def)
  ultimately show ?thesis using \<open>model_error_ok ?e\<close> by blast
qed

end
