(* ===== verification/Replay.thy ===== *)
theory Replay
  imports Value_Json Model_Error
begin

text \<open>
  Provider replay metadata, \<^verbatim>\<open>src/model/replay.rs\<close>: a format name and an opaque JSON payload
  under depth, node and byte budgets of their own.  Its shape check and counting writer are the
  second instances of the interfaces \<open>shape_check\<close> and \<open>counting_writer\<close>.
\<close>

definition REPLAY_MAX_BYTES :: nat where "REPLAY_MAX_BYTES = 256 * 1024"
definition REPLAY_MAX_DEPTH :: nat where "REPLAY_MAX_DEPTH = 32"
definition REPLAY_MAX_NODES :: nat where "REPLAY_MAX_NODES = 16384"

record ProviderReplay =
  replay_format :: rstr
  replay_payload :: json
  replay_bytes :: nat

definition replay_format_byte :: "nat \<Rightarrow> bool" where
  [text_defs]: "replay_format_byte b \<longleftrightarrow>
     is_ascii_alphanumeric b \<or> b = 0x5F \<or> b = 0x2D \<or> b = 0x2E \<or> b = 0x3A \<or> b = 0x2F"

fun validate_shape :: "json \<Rightarrow> nat \<Rightarrow> nat \<Rightarrow> (nat, ModelValueError) result"
and validate_shape_items :: "json list \<Rightarrow> nat \<Rightarrow> nat \<Rightarrow> (nat, ModelValueError) result"
and validate_shape_fields :: "(rstr \<times> json) list \<Rightarrow> nat \<Rightarrow> nat \<Rightarrow> (nat, ModelValueError) result" where
  "validate_shape v depth nodes =
     (if REPLAY_MAX_DEPTH < depth \<or> REPLAY_MAX_NODES < nodes + 1 then Err MV_InvalidProviderReplay
      else (case v of
              JArray vs \<Rightarrow> validate_shape_items vs (depth + 1) (nodes + 1)
            | JObject kvs \<Rightarrow> validate_shape_fields kvs (depth + 1) (nodes + 1)
            | _ \<Rightarrow> Ok (nodes + 1)))"
| "validate_shape_items [] depth nodes = Ok nodes"
| "validate_shape_items (v # vs) depth nodes =
     (case validate_shape v depth nodes of
        Err e \<Rightarrow> Err e
      | Ok n \<Rightarrow> validate_shape_items vs depth n)"
| "validate_shape_fields [] depth nodes = Ok nodes"
| "validate_shape_fields (kv # kvs) depth nodes =
     (case validate_shape (snd kv) depth nodes of
        Err e \<Rightarrow> Err e
      | Ok n \<Rightarrow> validate_shape_fields kvs depth n)"

record CountingWriter =
  cw_written :: nat

definition CountingWriter_write :: "CountingWriter \<Rightarrow> nat \<Rightarrow> CountingWriter \<times> bool" where
  "CountingWriter_write w n =
     (if REPLAY_MAX_BYTES - cw_written w < n then (w, False)
      else (w\<lparr>cw_written := cw_written w + n\<rparr>, True))"

text \<open>The envelope is serialised without the \<open>bytes\<close> field, so \<open>ser\<close> reads format and payload.\<close>

definition ProviderReplay_new ::
  "(rstr \<times> json) serializer \<Rightarrow> rstr \<Rightarrow> json \<Rightarrow> (ProviderReplay, ModelValueError) result" where
  "ProviderReplay_new ser format payload =
     (if format = [] \<or> 128 < str_len format \<or> \<not> list_all replay_format_byte (str_bytes format)
      then Err MV_InvalidProviderReplay
      else (case validate_shape payload 0 0 of
              Err e \<Rightarrow> Err e
            | Ok _ \<Rightarrow>
                (case to_writer CountingWriter_write ser \<lparr>cw_written = 0\<rparr> (format, payload) of
                   (sink, ok) \<Rightarrow>
                     if ok then Ok \<lparr>replay_format = format, replay_payload = payload,
                                    replay_bytes = cw_written sink\<rparr>
                     else Err MV_InvalidProviderReplay)))"

definition ProviderReplay_deserialize ::
  "(rstr \<times> json) serializer \<Rightarrow> rstr \<times> json \<Rightarrow> (ProviderReplay, ModelValueError) result" where
  "ProviderReplay_deserialize ser wire = ProviderReplay_new ser (fst wire) (snd wire)"

subsection \<open>Instances of the interfaces\<close>

lemma validate_shape_fields_items:
  "validate_shape_fields kvs d n = validate_shape_items (map snd kvs) d n"
  by (induction kvs arbitrary: n) (auto split: result.splits)

interpretation replay_shape: shape_check validate_shape validate_shape_items
  REPLAY_MAX_DEPTH REPLAY_MAX_NODES
proof unfold_locales
  fix d n v
  assume "REPLAY_MAX_DEPTH < d \<or> REPLAY_MAX_NODES < n + 1"
  then show "\<not> is_ok (validate_shape v d n)" by auto
next
  fix d n v
  assume "d \<le> REPLAY_MAX_DEPTH" "n + 1 \<le> REPLAY_MAX_NODES"
  then show "validate_shape v d n = validate_shape_items (json_children v) (d + 1) (n + 1)"
    by (cases v) (simp_all add: validate_shape_fields_items)
qed simp_all

interpretation replay_writer: counting_writer CountingWriter_write cw_written "\<lambda>_. REPLAY_MAX_BYTES"
  by unfold_locales (auto simp: CountingWriter_write_def)

subsection \<open>Properties\<close>

text \<open>
  A replay envelope is accepted exactly when its format is 1 to 128 characters of the
  symbolic grammar, its payload is at most 32 levels deep with at most 16384 values, and its
  compact serialisation succeeds within 256 KiB; the accepted value keeps format and payload
  and records that size.
\<close>
lemma provider_replay_new_spec:
  "ProviderReplay_new ser format payload = Ok r \<longleftrightarrow>
     1 \<le> length format \<and> length format \<le> 128 \<and> list_all replay_format_byte format
     \<and> json_depth payload \<le> 32 \<and> json_nodes payload \<le> 16384
     \<and> snd (ser (format, payload)) \<and> sum_list (fst (ser (format, payload))) \<le> 262144
     \<and> r = \<lparr>replay_format = format, replay_payload = payload,
            replay_bytes = sum_list (fst (ser (format, payload)))\<rparr>"
proof -
  have bytes: "list_all replay_format_byte (str_bytes format) \<longleftrightarrow> list_all replay_format_byte format"
  proof -
    have "replay_format_byte b \<Longrightarrow> b < 0x80" for b by (auto simp: text_defs)
    then show ?thesis
      using ascii_bytes [of format] ascii_str_len [of format]
      by (metis (no_types, lifting) list_all_iff)
  qed
  have len: "list_all replay_format_byte format \<Longrightarrow> str_len format = length format"
    using ascii_str_len [of format] by (fastforce simp: str_len_def list_all_iff text_defs)
  have shape: "(\<exists>n. validate_shape payload 0 0 = Ok n) \<longleftrightarrow>
      json_depth payload \<le> 32 \<and> json_nodes payload \<le> 16384"
    unfolding replay_shape.check_Ok_iff by (simp add: REPLAY_MAX_DEPTH_def REPLAY_MAX_NODES_def)
  have writer: "(case to_writer CountingWriter_write ser \<lparr>cw_written = 0\<rparr> (format, payload) of
        (sink, ok) \<Rightarrow> if ok then Ok \<lparr>replay_format = format, replay_payload = payload,
            replay_bytes = cw_written sink\<rparr> else Err MV_InvalidProviderReplay) = Ok r
      \<longleftrightarrow> snd (ser (format, payload)) \<and> sum_list (fst (ser (format, payload))) \<le> 262144
      \<and> r = \<lparr>replay_format = format, replay_payload = payload,
            replay_bytes = sum_list (fst (ser (format, payload)))\<rparr>"
    using replay_writer.to_writer_Ok [of "\<lparr>cw_written = 0\<rparr>" ser "(format, payload)"]
    by (auto simp: REPLAY_MAX_BYTES_def split: prod.splits)
  show ?thesis
  proof (cases "validate_shape payload 0 0")
    case (Ok n)
    with shape have "json_depth payload \<le> 32 \<and> json_nodes payload \<le> 16384" by blast
    with Ok writer bytes len show ?thesis
      by (auto simp: ProviderReplay_new_def Suc_le_eq simp del: validate_shape.simps)
  next
    case (Err e)
    with shape have "\<not> (json_depth payload \<le> 32 \<and> json_nodes payload \<le> 16384)" by simp
    with Err show ?thesis by (auto simp: ProviderReplay_new_def simp del: validate_shape.simps)
  qed
qed

end
