(* ===== verification/Ordered_Map.thy ===== *)
theory Ordered_Map
  imports Prelude
begin

text \<open>
  \<open>std::collections::BTreeMap\<close> as far as the runtime uses it: a list of key-value pairs in
  strictly increasing key order, with insertion, lookup and in-order iteration.
\<close>

type_synonym ('k, 'v) btree = "('k \<times> 'v) list"

fun btree_insert :: "'k::linorder \<Rightarrow> 'v \<Rightarrow> ('k, 'v) btree \<Rightarrow> ('k, 'v) btree" where
  "btree_insert k v [] = [(k, v)]"
| "btree_insert k v ((k', v') # m) =
     (if k < k' then (k, v) # (k', v') # m
      else if k = k' then (k, v) # m
      else (k', v') # btree_insert k v m)"

definition btree_get :: "('k::linorder, 'v) btree \<Rightarrow> 'k \<Rightarrow> 'v option" where
  "btree_get m k = map_of m k"

definition btree_contains_key :: "('k::linorder, 'v) btree \<Rightarrow> 'k \<Rightarrow> bool" where
  "btree_contains_key m k \<longleftrightarrow> btree_get m k \<noteq> None"

definition btree_ok :: "('k::linorder, 'v) btree \<Rightarrow> bool" where
  "btree_ok m \<longleftrightarrow> sorted_wrt (<) (map fst m)"

lemma btree_ok_Nil [simp]: "btree_ok []"
  by (simp add: btree_ok_def)

lemma btree_get_Nil [simp]: "btree_get [] k = None"
  by (simp add: btree_get_def)

lemma fst_btree_insert: "fst ` set (btree_insert k v m) = insert k (fst ` set m)"
  by (induction k v m rule: btree_insert.induct) (simp_all add: insert_commute)

lemma btree_insert_ok [intro]: "btree_ok m \<Longrightarrow> btree_ok (btree_insert k v m)"
proof (induction m)
  case (Cons kv m)
  obtain k' v' where kv: "kv = (k', v')" by (cases kv)
  from Cons.prems kv have lt: "\<forall>x \<in> fst ` set m. k' < x" and ok: "btree_ok m"
    by (simp_all add: btree_ok_def)
  consider "k < k'" | "k = k'" | "k' < k" by fastforce
  then show ?case
  proof cases
    case 1
    with lt Cons.prems kv show ?thesis by (auto simp: btree_ok_def)
  next
    case 2
    with Cons.prems kv show ?thesis by (simp add: btree_ok_def)
  next
    case 3
    then have "\<forall>x \<in> fst ` set (btree_insert k v m). k' < x" "\<not> k < k'" "k \<noteq> k'"
      using lt by (auto simp: fst_btree_insert)
    with Cons.IH [OF ok] kv show ?thesis by (simp add: btree_ok_def)
  qed
qed (simp add: btree_ok_def)

lemma btree_get_insert:
  "btree_ok m \<Longrightarrow> btree_get (btree_insert k v m) = (btree_get m)(k \<mapsto> v)"
proof (induction m)
  case (Cons kv m)
  then show ?case
    by (cases kv) (auto simp: btree_get_def btree_ok_def fun_eq_iff)
qed (auto simp: btree_get_def)

lemma btree_ok_distinct: "btree_ok m \<Longrightarrow> distinct (map fst m)"
  by (simp add: btree_ok_def strict_sorted_iff)

lemma btree_get_Some_iff: "btree_ok m \<Longrightarrow> btree_get m k = Some v \<longleftrightarrow> (k, v) \<in> set m"
  by (simp add: btree_get_def btree_ok_distinct)

lemma btree_insert_append:
  "btree_ok (m @ [(k, v)]) \<Longrightarrow> btree_insert k v m = m @ [(k, v)]"
  by (induction m) (auto simp: btree_ok_def)

lemma btree_rebuild: "btree_ok m \<Longrightarrow> fold (\<lambda>(k, v). btree_insert k v) m [] = m"
proof (induction m rule: rev_induct)
  case (snoc kv m)
  obtain k v where kv: "kv = (k, v)" by (cases kv)
  from snoc.prems have "btree_ok m" by (simp add: btree_ok_def sorted_wrt_append)
  with snoc kv show ?case by (simp add: btree_insert_append)
qed simp

end
