(* ===== verification/Tools.thy ===== *)
theory Tools
  imports Ids Value_Json Port_Call Ordered_Map
begin

text \<open>
  Tools (\<^verbatim>\<open>src/tools/types.rs\<close>, \<^verbatim>\<open>src/tools/tool.rs\<close>, \<^verbatim>\<open>src/tools/set.rs\<close>): the
  validated tool specification, output and invocation, and the tool set with its builder.

  A tool implementation is host code, the type parameter \<open>'t\<close>; its \<open>spec\<close> method is the
  parameter \<open>spec_of\<close>, which may panic.  The serialiser is the parameter \<open>ser\<close> of
  \<^verbatim>\<open>Value_Json.thy\<close>.
\<close>

subsection \<open>Values\<close>

datatype ToolError = TE_Cancelled | TE_Failed | TE_TimedOut | TE_Panicked | TE_InvalidInvocation | TE_Internal

datatype ToolValueError = TV_InvalidText | TV_InvalidSchema | TV_InvalidAnswer

datatype ToolResultOutcome = TR_Success | TR_Failed | TR_Denied | TR_Cancelled | TR_InputProvided

definition MAX_TOOL_DESCRIPTION_BYTES :: nat where "MAX_TOOL_DESCRIPTION_BYTES = 4096"

record ToolSpec =
  spec_name :: ToolName
  spec_description :: BoundedText
  spec_input_schema :: json

definition ToolSpec_validate :: "json serializer \<Rightarrow> ToolSpec \<Rightarrow> (unit, ToolValueError) result" where
  "ToolSpec_validate ser spec =
     (if \<not> valid_text (as_str (spec_description spec)) MAX_TOOL_DESCRIPTION_BYTES False
      then Err TV_InvalidText
      else if \<not> json_is_object (spec_input_schema spec)
        \<or> \<not> is_ok (validate_json_size ser (spec_input_schema spec) MAX_JSON_BYTES)
      then Err TV_InvalidSchema
      else Ok ())"

definition ToolSpec_new ::
  "json serializer \<Rightarrow> ToolName \<Rightarrow> rstr \<Rightarrow> json \<Rightarrow> (ToolSpec, ToolValueError) result" where
  "ToolSpec_new ser name description input_schema =
     and_then (map_err (\<lambda>_. TV_InvalidText)
         (BoundedText_new_with_max_bytes description MAX_TOOL_DESCRIPTION_BYTES)) (\<lambda>d.
       let spec = \<lparr>spec_name = name, spec_description = d, spec_input_schema = input_schema\<rparr> in
       and_then (ToolSpec_validate ser spec) (\<lambda>_. Ok spec))"

text \<open>\<open>json_bytes\<close> panics if the serialiser fails, hence the outer option.\<close>

definition ToolSpec_validate_for_bindings ::
  "json serializer \<Rightarrow> ToolSpec \<Rightarrow> nat \<Rightarrow> nat \<Rightarrow> (unit, ToolValueError) result option" where
  "ToolSpec_validate_for_bindings ser spec max_name_bytes max_schema_bytes =
     (if max_name_bytes < str_len (tname_str (spec_name spec))
        \<or> min max_schema_bytes MAX_TOOL_DESCRIPTION_BYTES < bt_byte_len (spec_description spec)
      then Some (Err TV_InvalidText)
      else (case json_bytes ser (spec_input_schema spec) of
              None \<Rightarrow> None
            | Some n \<Rightarrow> Some (if max_schema_bytes < n then Err TV_InvalidSchema else Ok ())))"

definition ToolSpec_deserialize ::
  "json serializer \<Rightarrow> ToolSpec \<Rightarrow> (ToolSpec, ToolValueError) result" where
  "ToolSpec_deserialize ser wire =
     ToolSpec_new ser (spec_name wire) (as_str (spec_description wire)) (spec_input_schema wire)"

datatype ToolOutput = ToolOutput (out_content: BoundedText)

definition ToolOutput_new :: "rstr \<Rightarrow> (ToolOutput, ToolValueError) result" where
  "ToolOutput_new content =
     (if \<not> valid_text content MAX_TEXT_BYTES True then Err TV_InvalidText
      else map_ok ToolOutput (map_err (\<lambda>_. TV_InvalidText)
             (BoundedText_new_with_max_bytes content MAX_TEXT_BYTES)))"

definition ToolOutput_deserialize :: "BoundedText \<Rightarrow> (ToolOutput, ToolValueError) result" where
  "ToolOutput_deserialize wire = ToolOutput_new (as_str wire)"

definition tool_output_ok :: "ToolOutput \<Rightarrow> bool" where
  "tool_output_ok out \<longleftrightarrow> valid_text (as_str (out_content out)) MAX_TEXT_BYTES True"

record ToolInvocation =
  inv_tool_call_id :: ToolCallId
  inv_tool_name :: ToolName
  inv_arguments :: json

definition ToolInvocation_new ::
  "json serializer \<Rightarrow> ToolCallId \<Rightarrow> ToolName \<Rightarrow> json \<Rightarrow> (ToolInvocation, ToolError) result" where
  "ToolInvocation_new ser call_id name arguments =
     (if \<not> json_is_object arguments \<or> \<not> is_ok (validate_json_size ser arguments MAX_JSON_BYTES)
      then Err TE_InvalidInvocation
      else Ok \<lparr>inv_tool_call_id = call_id, inv_tool_name = name, inv_arguments = arguments\<rparr>)"

definition ToolInvocation_deserialize ::
  "json serializer \<Rightarrow> ToolInvocation \<Rightarrow> (ToolInvocation, ToolError) result" where
  "ToolInvocation_deserialize ser wire =
     ToolInvocation_new ser (inv_tool_call_id wire) (inv_tool_name wire) (inv_arguments wire)"

subsection \<open>Tool sets\<close>

record 't EnabledTool =
  en_implementation :: 't
  en_spec :: ToolSpec

record 't ToolSet =
  ts_specs :: "ToolSpec list"
  ts_entries :: "(ToolName, 't EnabledTool) btree"

record 't RegisteredTool =
  rt_tool :: 't
  rt_spec :: ToolSpec

datatype ToolSetError = TS_DuplicateTool | TS_Panicked

record 't ToolSetBuilder =
  tb_tools :: "(ToolName, 't RegisteredTool) btree"
  tb_error :: "ToolSetError option"

definition ToolSetBuilder_default :: "'t ToolSetBuilder" where
  "ToolSetBuilder_default = \<lparr>tb_tools = [], tb_error = None\<rparr>"

definition ToolSetBuilder_register ::
  "('t \<Rightarrow> ToolSpec caught) \<Rightarrow> 't ToolSetBuilder \<Rightarrow> 't \<Rightarrow> 't ToolSetBuilder" where
  "ToolSetBuilder_register spec_of b tool =
     (if tb_error b \<noteq> None then b
      else case spec_of tool of
        Unwound \<Rightarrow> b\<lparr>tb_error := Some TS_Panicked\<rparr>
      | Completed spec \<Rightarrow>
          if btree_contains_key (tb_tools b) (spec_name spec)
          then b\<lparr>tb_error := Some TS_DuplicateTool\<rparr>
          else b\<lparr>tb_tools := btree_insert (spec_name spec)
                   \<lparr>rt_tool = tool, rt_spec = spec\<rparr> (tb_tools b)\<rparr>)"

text \<open>The loop of \<open>build\<close> over the registered tools in name order.\<close>

fun build_entries ::
  "(ToolName, 't RegisteredTool) btree \<Rightarrow> ToolSpec list \<Rightarrow> (ToolName, 't EnabledTool) btree \<Rightarrow>
     ToolSpec list \<times> (ToolName, 't EnabledTool) btree" where
  "build_entries [] specs entries = (specs, entries)"
| "build_entries ((name, registered) # rest) specs entries =
     build_entries rest (specs @ [rt_spec registered])
       (btree_insert name \<lparr>en_implementation = rt_tool registered, en_spec = rt_spec registered\<rparr>
          entries)"

definition ToolSetBuilder_build :: "'t ToolSetBuilder \<Rightarrow> ('t ToolSet, ToolSetError) result" where
  "ToolSetBuilder_build b =
     (case tb_error b of
        Some e \<Rightarrow> Err e
      | None \<Rightarrow> (case build_entries (tb_tools b) [] [] of
                   (specs, entries) \<Rightarrow> Ok \<lparr>ts_specs = specs, ts_entries = entries\<rparr>))"

definition EnabledTools_get :: "'t ToolSet \<Rightarrow> ToolName \<Rightarrow> 't EnabledTool option" where
  "EnabledTools_get ts name = btree_get (ts_entries ts) name"

definition ToolSet_get :: "'t ToolSet \<Rightarrow> ToolName \<Rightarrow> 't option" where
  "ToolSet_get ts name = map_option en_implementation (EnabledTools_get ts name)"

definition ToolSet_contains :: "'t ToolSet \<Rightarrow> ToolName \<Rightarrow> bool" where
  "ToolSet_contains ts name \<longleftrightarrow> btree_contains_key (ts_entries ts) name"

text \<open>\<open>specs_for\<close> iterates over a set of names in order, here its sorted list.\<close>

definition ToolSet_specs_for :: "'t ToolSet \<Rightarrow> ToolName list \<Rightarrow> ToolSpec list" where
  "ToolSet_specs_for ts enabled =
     List.map_filter (\<lambda>name. map_option en_spec (EnabledTools_get ts name)) enabled"

text \<open>The fold of \<open>register\<close> over the tools a host registers.\<close>

definition register_all :: "('t \<Rightarrow> ToolSpec caught) \<Rightarrow> 't list \<Rightarrow> 't ToolSetBuilder" where
  "register_all spec_of tools =
     fold (\<lambda>tool b. ToolSetBuilder_register spec_of b tool) tools ToolSetBuilder_default"

subsection \<open>Lemmas on values\<close>

lemma ToolOutput_new_Ok:
  "ToolOutput_new s = Ok out \<longleftrightarrow> valid_text s MAX_TEXT_BYTES True \<and> out = ToolOutput (BoundedText s)"
  by (auto simp: ToolOutput_new_def BoundedText_new_with_max_bytes_def valid_text_def)

lemma ToolOutput_new_ok: "ToolOutput_new s = Ok out \<Longrightarrow> tool_output_ok out"
  by (auto simp: ToolOutput_new_Ok tool_output_ok_def)

lemma ToolSpec_new_Ok:
  "ToolSpec_new ser n d j = Ok spec \<longleftrightarrow>
     spec = \<lparr>spec_name = n, spec_description = BoundedText d, spec_input_schema = j\<rparr>
     \<and> ToolSpec_validate ser spec = Ok ()"
  by (auto simp: ToolSpec_new_def and_then_eq_Ok BoundedText_new_with_max_bytes_Ok Let_def
      ToolSpec_validate_def valid_text_def MAX_TOOL_DESCRIPTION_BYTES_def MAX_TEXT_BYTES_def
      split: if_splits)

lemma ToolInvocation_new_Ok:
  "ToolInvocation_new ser i n a = Ok v \<longleftrightarrow>
     json_is_object a \<and> validate_json_size ser a MAX_JSON_BYTES = Ok ()
     \<and> v = \<lparr>inv_tool_call_id = i, inv_tool_name = n, inv_arguments = a\<rparr>"
  by (auto simp: ToolInvocation_new_def is_ok_iff)

subsection \<open>Lemmas on tool sets\<close>

definition builder_ok :: "('t \<Rightarrow> ToolSpec caught) \<Rightarrow> 't ToolSetBuilder \<Rightarrow> bool" where
  "builder_ok spec_of b \<longleftrightarrow>
     btree_ok (tb_tools b)
     \<and> (\<forall>(name, r) \<in> set (tb_tools b).
          spec_of (rt_tool r) = Completed (rt_spec r) \<and> spec_name (rt_spec r) = name)"

lemma set_btree_insert: "set (btree_insert k v m) \<subseteq> insert (k, v) (set m)"
  by (induction k v m rule: btree_insert.induct) (auto split: if_splits)

lemma register_ok: "builder_ok spec_of b \<Longrightarrow> builder_ok spec_of (ToolSetBuilder_register spec_of b t)"
  using set_btree_insert
  by (fastforce simp: builder_ok_def ToolSetBuilder_register_def split: caught.splits)

lemma build_entries_eq:
  "build_entries regs specs entries =
     (specs @ map (rt_spec \<circ> snd) regs,
      fold (\<lambda>(k, v). btree_insert k v)
        (map (\<lambda>(k, r). (k, \<lparr>en_implementation = rt_tool r, en_spec = rt_spec r\<rparr>)) regs) entries)"
  by (induction regs specs entries rule: build_entries.induct) simp_all

lemma build_Ok:
  assumes "btree_ok (tb_tools b)"
  shows "ToolSetBuilder_build b = Ok ts \<longleftrightarrow>
     tb_error b = None
     \<and> ts = \<lparr>ts_specs = map (rt_spec \<circ> snd) (tb_tools b),
             ts_entries = map (\<lambda>(k, r). (k, \<lparr>en_implementation = rt_tool r, en_spec = rt_spec r\<rparr>))
               (tb_tools b)\<rparr>"
proof -
  let ?es = "map (\<lambda>(k, r). (k, \<lparr>en_implementation = rt_tool r, en_spec = rt_spec r\<rparr>)) (tb_tools b)"
  have "map fst ?es = map fst (tb_tools b)" by (simp add: comp_def case_prod_beta)
  then have "btree_ok ?es" using assms unfolding btree_ok_def by argo
  then have "fold (\<lambda>(k, v). btree_insert k v) ?es [] = ?es" by (rule btree_rebuild)
  then show ?thesis by (auto simp: ToolSetBuilder_build_def build_entries_eq split: option.splits)
qed

text \<open>The names that are registered without panic, in registration order.\<close>

fun spec_names :: "('t \<Rightarrow> ToolSpec caught) \<Rightarrow> 't list \<Rightarrow> ToolName list" where
  "spec_names spec_of [] = []"
| "spec_names spec_of (t # ts) =
     (case spec_of t of Completed s \<Rightarrow> spec_name s # spec_names spec_of ts
      | Unwound \<Rightarrow> spec_names spec_of ts)"

lemma register_error_stays:
  "tb_error b \<noteq> None \<Longrightarrow> fold (\<lambda>tool b. ToolSetBuilder_register spec_of b tool) tools b = b"
  by (induction tools) (simp_all add: ToolSetBuilder_register_def)

lemma register_fold:
  assumes "builder_ok spec_of b" "tb_error b = None"
  shows "let b' = fold (\<lambda>tool b. ToolSetBuilder_register spec_of b tool) tools b in
     builder_ok spec_of b'
     \<and> (tb_error b' = None \<longleftrightarrow> (\<forall>t \<in> set tools. spec_of t \<noteq> Unwound)
          \<and> distinct (spec_names spec_of tools)
          \<and> (\<forall>n \<in> set (spec_names spec_of tools). \<not> btree_contains_key (tb_tools b) n))
     \<and> (tb_error b' = None \<longrightarrow>
          (\<forall>n. btree_get (tb_tools b') n =
             (case btree_get (tb_tools b) n of Some r \<Rightarrow> Some r
              | None \<Rightarrow> map_option (\<lambda>t. \<lparr>rt_tool = t,
                   rt_spec = (case spec_of t of Completed s \<Rightarrow> s)\<rparr>)
                 (find (\<lambda>t. case spec_of t of Completed s \<Rightarrow> spec_name s = n | Unwound \<Rightarrow> False) tools))))"
  using assms
proof (induction tools arbitrary: b)
  case Nil
  then show ?case by (simp add: Let_def split: option.splits)
next
  case (Cons t tools)
  let ?b = "ToolSetBuilder_register spec_of b t"
  have ok: "builder_ok spec_of ?b" using Cons.prems(1) by (rule register_ok)
  have bt: "btree_ok (tb_tools b)" using Cons.prems(1) by (simp add: builder_ok_def)
  show ?case
  proof (cases "tb_error ?b")
    case (Some e)
    then have "spec_of t = Unwound \<or>
        (\<exists>s. spec_of t = Completed s \<and> btree_contains_key (tb_tools b) (spec_name s))"
      using Cons.prems(2) by (auto simp: ToolSetBuilder_register_def split: caught.splits if_splits)
    with Some ok show ?thesis
      by (auto simp: register_error_stays Let_def)
  next
    case None
    then obtain s where s: "spec_of t = Completed s" "\<not> btree_contains_key (tb_tools b) (spec_name s)"
      and reg: "?b = b\<lparr>tb_tools := btree_insert (spec_name s) \<lparr>rt_tool = t, rt_spec = s\<rparr> (tb_tools b)\<rparr>"
      using Cons.prems(2) by (auto simp: ToolSetBuilder_register_def split: caught.splits if_splits)
    have get: "btree_get (tb_tools ?b) = (btree_get (tb_tools b))(spec_name s \<mapsto> \<lparr>rt_tool = t, rt_spec = s\<rparr>)"
      using bt by (simp add: reg btree_get_insert)
    show ?thesis
      using Cons.IH [OF ok None] s get
      by (auto simp: Let_def btree_contains_key_def split: option.splits)
  qed
qed

lemma builder_default_ok: "builder_ok spec_of ToolSetBuilder_default"
  by (simp add: builder_ok_def ToolSetBuilder_default_def)

lemmas register_all_spec = register_fold
  [OF builder_default_ok, where tools = tools for tools, unfolded register_all_def [symmetric]]

definition tool_set_ok :: "'t ToolSet \<Rightarrow> bool" where
  "tool_set_ok ts \<longleftrightarrow>
     sorted_wrt (<) (map spec_name (ts_specs ts))
     \<and> map fst (ts_entries ts) = map spec_name (ts_specs ts)
     \<and> map (en_spec \<circ> snd) (ts_entries ts) = ts_specs ts"

lemma tool_set_ok_btree: "tool_set_ok ts \<Longrightarrow> btree_ok (ts_entries ts)"
  by (simp add: tool_set_ok_def btree_ok_def)

lemma tool_set_get_spec:
  assumes "tool_set_ok ts" "EnabledTools_get ts n = Some e"
  shows "spec_name (en_spec e) = n \<and> en_spec e \<in> set (ts_specs ts)"
proof -
  have mem: "(n, e) \<in> set (ts_entries ts)"
    using assms by (simp add: EnabledTools_get_def btree_get_Some_iff tool_set_ok_btree)
  have "map fst (ts_entries ts) = map (spec_name \<circ> en_spec \<circ> snd) (ts_entries ts)"
    using assms(1) unfolding tool_set_ok_def by (metis (no_types, lifting) comp_assoc map_map)
  then have "\<forall>p \<in> set (ts_entries ts). fst p = spec_name (en_spec (snd p))" by simp
  with mem have "spec_name (en_spec e) = n" by fastforce
  moreover have "en_spec e \<in> set (map (en_spec \<circ> snd) (ts_entries ts))" using mem by force
  then have "en_spec e \<in> set (ts_specs ts)" using assms(1) unfolding tool_set_ok_def by argo
  ultimately show ?thesis ..
qed

lemma tool_set_contains:
  "tool_set_ok ts \<Longrightarrow> EnabledTools_get ts n \<noteq> None \<longleftrightarrow> n \<in> spec_name ` set (ts_specs ts)"
proof -
  assume ok: "tool_set_ok ts"
  have "EnabledTools_get ts n \<noteq> None \<longleftrightarrow> n \<in> fst ` set (ts_entries ts)"
    by (simp add: EnabledTools_get_def btree_get_def map_of_eq_None_iff)
  also have "\<dots> \<longleftrightarrow> n \<in> set (map fst (ts_entries ts))" by simp
  also have "\<dots> \<longleftrightarrow> n \<in> spec_name ` set (ts_specs ts)"
    using ok by (simp add: tool_set_ok_def)
  finally show ?thesis .
qed

lemma build_tool_set_ok:
  assumes "builder_ok spec_of b" "ToolSetBuilder_build b = Ok ts"
  shows "tool_set_ok ts"
proof -
  have bt: "btree_ok (tb_tools b)"
    and names: "\<forall>(name, r) \<in> set (tb_tools b). spec_name (rt_spec r) = name"
    using assms(1) by (auto simp: builder_ok_def)
  from assms(2) bt have ts: "ts = \<lparr>ts_specs = map (rt_spec \<circ> snd) (tb_tools b),
      ts_entries = map (\<lambda>(k, r). (k, \<lparr>en_implementation = rt_tool r, en_spec = rt_spec r\<rparr>)) (tb_tools b)\<rparr>"
    by (simp add: build_Ok)
  have sp: "map spec_name (ts_specs ts) = map fst (tb_tools b)"
    using names by (auto simp: ts)
  have en: "map fst (ts_entries ts) = map fst (tb_tools b)"
    "map (en_spec \<circ> snd) (ts_entries ts) = ts_specs ts" by (auto simp: ts)
  show ?thesis using bt unfolding tool_set_ok_def btree_ok_def sp en by simp
qed

subsection \<open>Properties\<close>

text \<open>
  C38: registering a sequence of tools and building succeeds exactly when no specification
  panics and no name occurs twice; then the catalog lists the specifications in strictly
  increasing name order, the dispatch table has the same names and the same specifications,
  and looking a name up finds the one tool that was registered under it.
\<close>
theorem tool_set_build_spec:
  "(is_ok (ToolSetBuilder_build (register_all spec_of tools)) \<longleftrightarrow>
      (\<forall>t \<in> set tools. spec_of t \<noteq> Unwound) \<and> distinct (spec_names spec_of tools))
   \<and> (\<forall>ts. ToolSetBuilder_build (register_all spec_of tools) = Ok ts \<longrightarrow>
      tool_set_ok ts
      \<and> (\<forall>n. ToolSet_get ts n =
          find (\<lambda>t. case spec_of t of Completed s \<Rightarrow> spec_name s = n | Unwound \<Rightarrow> False) tools))"
proof -
  let ?b = "register_all spec_of tools"
  have "tb_error (ToolSetBuilder_default :: 'a ToolSetBuilder) = None"
    by (simp add: ToolSetBuilder_default_def)
  note spec = register_all_spec [OF this, of spec_of tools, unfolded Let_def]
  have ok: "builder_ok spec_of ?b" using spec by blast
  then have bt: "btree_ok (tb_tools ?b)" by (simp add: builder_ok_def)
  have "is_ok (ToolSetBuilder_build ?b) \<longleftrightarrow> tb_error ?b = None"
    using bt by (auto simp: is_ok_iff build_Ok)
  then have "is_ok (ToolSetBuilder_build ?b) \<longleftrightarrow>
      (\<forall>t \<in> set tools. spec_of t \<noteq> Unwound) \<and> distinct (spec_names spec_of tools)"
    using spec by (auto simp: ToolSetBuilder_default_def btree_contains_key_def)
  moreover have "ToolSet_get ts n =
      find (\<lambda>t. case spec_of t of Completed s \<Rightarrow> spec_name s = n | Unwound \<Rightarrow> False) tools"
    if "ToolSetBuilder_build ?b = Ok ts" for ts n
  proof -
    have err: "tb_error ?b = None" and "ts_entries ts =
        map (\<lambda>(k, r). (k, \<lparr>en_implementation = rt_tool r, en_spec = rt_spec r\<rparr>)) (tb_tools ?b)"
      using that bt by (simp_all add: build_Ok)
    then have "ToolSet_get ts n = map_option rt_tool (btree_get (tb_tools ?b) n)"
      by (simp add: ToolSet_get_def EnabledTools_get_def btree_get_def map_of_map option.map_comp comp_def)
    with spec err show ?thesis
      by (auto simp: ToolSetBuilder_default_def option.map_comp comp_def option.map_ident)
  qed
  ultimately show ?thesis using build_tool_set_ok [OF ok] by blast
qed

theorem tool_set_build_spec_witness:
  "\<exists>ts. ToolSetBuilder_build (register_all (\<lambda>t. Completed \<lparr>spec_name = ToolName (lit t),
        spec_description = BoundedText [], spec_input_schema = JObject []\<rparr>) [''write'', ''read''])
      = Ok ts \<and> tool_set_ok ts \<and> ToolSet_get ts (ToolName (lit ''read'')) = Some ''read''"
proof -
  let ?f = "\<lambda>t. Completed \<lparr>spec_name = ToolName (lit t),
        spec_description = BoundedText [], spec_input_schema = JObject []\<rparr>"
  have "is_ok (ToolSetBuilder_build (register_all ?f [''write'', ''read'']))"
    using tool_set_build_spec [of ?f "[''write'', ''read'']"] by (simp add: lit_def)
  then obtain ts where ts: "ToolSetBuilder_build (register_all ?f [''write'', ''read'']) = Ok ts"
    unfolding is_ok_iff by blast
  with tool_set_build_spec [of ?f "[''write'', ''read'']"] have
    "tool_set_ok ts" "ToolSet_get ts (ToolName (lit ''read'')) =
      find (\<lambda>t. case ?f t of Completed s \<Rightarrow> spec_name s = ToolName (lit ''read'') | Unwound \<Rightarrow> False)
        [''write'', ''read'']" by blast+
  then have "tool_set_ok ts" "ToolSet_get ts (ToolName (lit ''read'')) = Some ''read''"
    by (simp_all add: lit_def)
  with ts show ?thesis by blast
qed

end
