(* ===== verification/Tool_Interaction.thy ===== *)
theory Tool_Interaction
  imports Tools
begin

text \<open>
  What a tool or a policy may ask the host: policy decisions and approvals
  (\<^verbatim>\<open>src/tools/policy.rs\<close>), input requests and answers (\<^verbatim>\<open>src/tools/input.rs\<close>), progress
  (\<^verbatim>\<open>src/tools/progress.rs\<close>) and the pending interaction that carries one of them to the
  host (\<^verbatim>\<open>src/interaction.rs\<close>).

  \<open>serde_json::to_string\<close> is the parameter \<open>enc\<close>.
\<close>

subsection \<open>Policy\<close>

definition MAX_TOOL_POLICY_TEXT_BYTES :: nat where "MAX_TOOL_POLICY_TEXT_BYTES = 8192"

datatype ToolPolicyError = TP_Cancelled | TP_Failed | TP_InvalidDecision | TP_Panicked | TP_Internal

datatype ApprovalRisk = Risk_Low | Risk_Medium | Risk_High

record ApprovalRequest =
  ar_prompt :: BoundedText
  ar_risk :: ApprovalRisk

datatype ApprovalDecision = AllowOnce | Deny_Approval

datatype ToolDecision =
    TD_Allow
  | TD_Deny BoundedText
  | TD_RequireApproval ApprovalRequest

definition validate_policy_text :: "rstr \<Rightarrow> (unit, ToolPolicyError) result" where
  "validate_policy_text value =
     (if valid_text value MAX_TOOL_POLICY_TEXT_BYTES False then Ok () else Err TP_InvalidDecision)"

definition checked_policy_text :: "rstr \<Rightarrow> (BoundedText, ToolPolicyError) result" where
  "checked_policy_text value =
     and_then (validate_policy_text value) (\<lambda>_.
       map_err (\<lambda>_. TP_InvalidDecision)
         (BoundedText_new_with_max_bytes value MAX_TOOL_POLICY_TEXT_BYTES))"

definition ApprovalRequest_validate :: "ApprovalRequest \<Rightarrow> (unit, ToolPolicyError) result" where
  "ApprovalRequest_validate r = validate_policy_text (as_str (ar_prompt r))"

definition ApprovalRequest_new :: "rstr \<Rightarrow> ApprovalRisk \<Rightarrow> (ApprovalRequest, ToolPolicyError) result" where
  "ApprovalRequest_new prompt risk =
     and_then (checked_policy_text prompt) (\<lambda>p.
       let r = \<lparr>ar_prompt = p, ar_risk = risk\<rparr> in
       and_then (ApprovalRequest_validate r) (\<lambda>_. Ok r))"

definition ToolDecision_validate :: "ToolDecision \<Rightarrow> (unit, ToolPolicyError) result" where
  "ToolDecision_validate d =
     (case d of
        TD_Allow \<Rightarrow> Ok ()
      | TD_Deny reason \<Rightarrow> validate_policy_text (as_str reason)
      | TD_RequireApproval r \<Rightarrow> ApprovalRequest_validate r)"

definition ToolDecision_deny :: "rstr \<Rightarrow> (ToolDecision, ToolPolicyError) result" where
  "ToolDecision_deny reason =
     and_then (checked_policy_text reason) (\<lambda>b.
       and_then (ToolDecision_validate (TD_Deny b)) (\<lambda>_. Ok (TD_Deny b)))"

definition ToolDecision_require_approval :: "ApprovalRequest \<Rightarrow> (ToolDecision, ToolPolicyError) result" where
  "ToolDecision_require_approval r =
     and_then (ToolDecision_validate (TD_RequireApproval r)) (\<lambda>_. Ok (TD_RequireApproval r))"

subsection \<open>Input requests and answers\<close>

datatype ToolInputAnswerKind = Kind_Text | Kind_SingleChoice

record ToolInputRequest =
  ti_prompt :: BoundedText
  ti_choices :: "BoundedText list"
  ti_answer_kind :: ToolInputAnswerKind

datatype ToolInputAnswer = Answer_Text BoundedText | Answer_Choice nat

definition ToolInputRequest_validate :: "ToolInputRequest \<Rightarrow> (unit, ToolValueError) result" where
  "ToolInputRequest_validate r =
     (if \<not> valid_text (as_str (ti_prompt r)) 8192 False
        \<or> 32 < length (ti_choices r)
        \<or> list_ex (\<lambda>c. \<not> valid_text (as_str c) 1024 False) (ti_choices r)
        \<or> (ti_answer_kind r = Kind_SingleChoice \<and> ti_choices r = [])
      then Err TV_InvalidText else Ok ())"

definition ToolInputRequest_new ::
  "rstr \<Rightarrow> BoundedText list \<Rightarrow> ToolInputAnswerKind \<Rightarrow> (ToolInputRequest, ToolValueError) result" where
  "ToolInputRequest_new prompt choices kind =
     and_then (map_err (\<lambda>_. TV_InvalidText) (BoundedText_new_with_max_bytes prompt 8192)) (\<lambda>p.
       let r = \<lparr>ti_prompt = p, ti_choices = choices, ti_answer_kind = kind\<rparr> in
       and_then (ToolInputRequest_validate r) (\<lambda>_. Ok r))"

definition ToolInputRequest_deserialize ::
  "ToolInputRequest \<Rightarrow> (ToolInputRequest, ToolValueError) result" where
  "ToolInputRequest_deserialize wire =
     ToolInputRequest_new (as_str (ti_prompt wire)) (ti_choices wire) (ti_answer_kind wire)"

definition validate_answer_text :: "rstr \<Rightarrow> (unit, ToolValueError) result" where
  "validate_answer_text value = (if valid_text value 8192 False then Ok () else Err TV_InvalidAnswer)"

definition ToolInputAnswer_validate ::
  "ToolInputAnswer \<Rightarrow> ToolInputRequest \<Rightarrow> (unit, ToolValueError) result" where
  "ToolInputAnswer_validate a r =
     (case (a, ti_answer_kind r) of
        (Answer_Text v, Kind_Text) \<Rightarrow>
          if is_ok (validate_answer_text (as_str v)) then Ok () else Err TV_InvalidAnswer
      | (Answer_Choice i, Kind_SingleChoice) \<Rightarrow>
          if i < length (ti_choices r) then Ok () else Err TV_InvalidAnswer
      | _ \<Rightarrow> Err TV_InvalidAnswer)"

text \<open>The canonical tool result of an answer; \<open>None\<close> is the panic of the index expression.\<close>

definition canonical_result :: "ToolInputAnswer \<Rightarrow> ToolInputRequest \<Rightarrow> json option" where
  "canonical_result a r =
     (case a of
        Answer_Text v \<Rightarrow> Some (JObject [(lit ''answer'', JString (as_str v))])
      | Answer_Choice i \<Rightarrow>
          if i < length (ti_choices r)
          then Some (JObject [(lit ''choice_index'', JNumber (nat_digits i)),
                              (lit ''choice'', JString (as_str (ti_choices r ! i)))])
          else None)"

definition ToolInputAnswer_encode_result ::
  "(json \<Rightarrow> rstr) \<Rightarrow> ToolInputAnswer \<Rightarrow> ToolInputRequest \<Rightarrow> rstr option" where
  "ToolInputAnswer_encode_result enc a r = map_option enc (canonical_result a r)"

text \<open>
  The wire form of an answer: \<open>tag = kind\<close>, \<open>content = data\<close>.  \<open>Value::as_u64\<close> accepts a
  number written as a plain decimal below two to the 64.
\<close>

definition ToolInputAnswer_serialize :: "ToolInputAnswer \<Rightarrow> json" where
  "ToolInputAnswer_serialize a =
     (case a of
        Answer_Text v \<Rightarrow> JObject [(lit ''data'', JString (as_str v)), (lit ''kind'', JString (lit ''text''))]
      | Answer_Choice i \<Rightarrow>
          JObject [(lit ''data'', JObject [(lit ''index'', JNumber (nat_digits i))]),
                   (lit ''kind'', JString (lit ''choice''))])"

definition json_as_u64 :: "json \<Rightarrow> nat option" where
  "json_as_u64 v =
     (case v of
        JNumber s \<Rightarrow>
          if nat_digits (digits_value s) = s \<and> digits_value s < 2 ^ 64 then Some (digits_value s) else None
      | _ \<Rightarrow> None)"

definition json_as_str :: "json \<Rightarrow> rstr option" where
  "json_as_str v = (case v of JString s \<Rightarrow> Some s | _ \<Rightarrow> None)"

definition json_as_object :: "json \<Rightarrow> (rstr \<times> json) list option" where
  "json_as_object v = (case v of JObject kvs \<Rightarrow> Some kvs | _ \<Rightarrow> None)"

definition ToolInputAnswer_deserialize :: "json \<Rightarrow> (ToolInputAnswer, string) result" where
  "ToolInputAnswer_deserialize v =
     and_then (ok_or (json_as_object v) ''tool input answer must be an object'') (\<lambda>kvs.
       if length kvs \<noteq> 2 then Err ''tool input answer has unknown fields''
       else
         and_then (ok_or (Option.bind (map_of kvs (lit ''kind'')) json_as_str)
             ''tool input answer kind must be a string'') (\<lambda>kind.
         and_then (ok_or (map_of kvs (lit ''data'')) ''tool input answer data is missing'') (\<lambda>data.
           if kind = lit ''text'' then
             and_then (ok_or (json_as_str data) ''tool input text answer must be a string'') (\<lambda>s.
             and_then (map_err (\<lambda>_. ''tool input answer is invalid for the request'')
                 (validate_answer_text s)) (\<lambda>_.
               map_ok Answer_Text (map_err (\<lambda>_. ''bounded text exceeds its byte limit'') (BoundedText_new_with_max_bytes s 8192))))
           else if kind = lit ''choice'' then
             and_then (ok_or (json_as_object data) ''tool input choice answer must be an object'') (\<lambda>choice.
               if length choice \<noteq> 1 \<or> map_of choice (lit ''index'') = None
               then Err ''tool input choice has unknown fields''
               else map_ok Answer_Choice
                      (ok_or (Option.bind (map_of choice (lit ''index'')) json_as_u64)
                         ''tool input choice index must be an integer''))
           else Err ''unknown tool input answer kind'')))"

subsection \<open>Progress\<close>

record ToolProgress =
  tp_message :: "BoundedText option"
  tp_completed :: "u64 option"
  tp_total :: "u64 option"

datatype ToolProgressError = TPE_InvalidText | TPE_CompletedExceedsTotal

definition ToolProgress_validate :: "ToolProgress \<Rightarrow> (unit, ToolProgressError) result" where
  "ToolProgress_validate p =
     (if (case tp_message p of Some m \<Rightarrow> \<not> valid_text (as_str m) MAX_TEXT_BYTES True | None \<Rightarrow> False)
      then Err TPE_InvalidText
      else case (tp_completed p, tp_total p) of
        (Some completed, Some tot) \<Rightarrow>
          if tot < completed then Err TPE_CompletedExceedsTotal else Ok ()
      | _ \<Rightarrow> Ok ())"

definition ToolProgress_new ::
  "BoundedText option \<Rightarrow> u64 option \<Rightarrow> u64 option \<Rightarrow> (ToolProgress, ToolProgressError) result" where
  "ToolProgress_new message completed tot =
     (let p = \<lparr>tp_message = message, tp_completed = completed, tp_total = tot\<rparr> in
      and_then (ToolProgress_validate p) (\<lambda>_. Ok p))"

text \<open>An emitter changes some state \<open>'s\<close>, a channel for instance, and says whether it accepted.\<close>

type_synonym 's emitter = "ToolProgress \<Rightarrow> 's \<Rightarrow> 's \<times> bool"

definition NoopToolProgressEmitter_emit :: "'s emitter" where
  "NoopToolProgressEmitter_emit p s = (s, False)"

definition ToolProgressSink_emit :: "'s emitter \<Rightarrow> 's emitter" where
  "ToolProgressSink_emit inner p s =
     (if \<not> is_ok (ToolProgress_validate p) then (s, False) else inner p s)"

subsection \<open>Interactions\<close>

datatype InteractionKind = IK_Approval ApprovalRequest | IK_ToolInput ToolInputRequest

datatype InteractionAnswer = IA_Approval ApprovalDecision | IA_ToolInput ToolInputAnswer

record PendingInteraction =
  pi_interaction_id :: InteractionId
  pi_tool_call_id :: ToolCallId
  pi_tool_name :: ToolName
  pi_kind :: InteractionKind

definition InteractionAnswer_validate ::
  "InteractionAnswer \<Rightarrow> InteractionKind \<Rightarrow> (unit, ToolValueError) result" where
  "InteractionAnswer_validate a k =
     (case (a, k) of
        (IA_Approval _, IK_Approval _) \<Rightarrow> Ok ()
      | (IA_ToolInput t, IK_ToolInput r) \<Rightarrow> ToolInputAnswer_validate t r
      | _ \<Rightarrow> Err TV_InvalidAnswer)"

definition PendingInteraction_validate_answer ::
  "PendingInteraction \<Rightarrow> InteractionAnswer \<Rightarrow> (unit, ToolValueError) result" where
  "PendingInteraction_validate_answer p a = InteractionAnswer_validate a (pi_kind p)"

datatype ToolExecutionOutcome = TX_Completed ToolOutput | TX_RequestInput ToolInputRequest

subsection \<open>Lemmas\<close>

lemma InteractionAnswer_validate_Ok:
  "InteractionAnswer_validate a k = Ok () \<longleftrightarrow>
     (\<exists>d r. a = IA_Approval d \<and> k = IK_Approval r)
     \<or> (\<exists>t r. a = IA_ToolInput t \<and> k = IK_ToolInput r \<and> ToolInputAnswer_validate t r = Ok ())"
  by (auto simp: InteractionAnswer_validate_def split: InteractionAnswer.splits InteractionKind.splits)

lemma ToolInputAnswer_validate_Ok:
  "ToolInputAnswer_validate a r = Ok () \<longleftrightarrow>
     (case a of
        Answer_Text v \<Rightarrow> ti_answer_kind r = Kind_Text \<and> valid_text (as_str v) 8192 False
      | Answer_Choice i \<Rightarrow> ti_answer_kind r = Kind_SingleChoice \<and> i < length (ti_choices r))"
  by (auto simp: ToolInputAnswer_validate_def validate_answer_text_def
      split: ToolInputAnswer.splits ToolInputAnswerKind.splits)

text \<open>An accepted answer is always encodable: the index expression cannot panic.\<close>

lemma encode_result_total:
  "ToolInputAnswer_validate a r = Ok () \<Longrightarrow> ToolInputAnswer_encode_result enc a r \<noteq> None"
  by (auto simp: ToolInputAnswer_validate_Ok ToolInputAnswer_encode_result_def canonical_result_def
      split: ToolInputAnswer.splits)

lemma sink_emit_invalid:
  "ToolProgress_validate p = Err e \<Longrightarrow> ToolProgressSink_emit inner p s = (s, False)"
  by (simp add: ToolProgressSink_emit_def)

definition answer_wire_ok :: "ToolInputAnswer \<Rightarrow> bool" where
  "answer_wire_ok a =
     (case a of Answer_Text v \<Rightarrow> valid_text (as_str v) 8192 False | Answer_Choice i \<Rightarrow> i < 2 ^ 64)"

lemma json_as_u64_bound: "json_as_u64 v = Some n \<Longrightarrow> n < 2 ^ 64"
  by (auto simp: json_as_u64_def split: json.splits if_splits)

lemma answer_deserialize_ok: "ToolInputAnswer_deserialize v = Ok a \<Longrightarrow> answer_wire_ok a"
  by (auto simp: ToolInputAnswer_deserialize_def answer_wire_ok_def validate_answer_text_def
      and_then_eq_Ok BoundedText_new_with_max_bytes_Ok bind_eq_Some_conv map_ok_eq_Ok dest: json_as_u64_bound
      split: if_splits)

lemma answer_roundtrip:
  assumes "answer_wire_ok a"
  shows "ToolInputAnswer_deserialize (ToolInputAnswer_serialize a) = Ok a"
proof (cases a)
  case (Answer_Text v)
  with assms show ?thesis
    by (cases v)
      (simp add: answer_wire_ok_def ToolInputAnswer_serialize_def ToolInputAnswer_deserialize_def
        json_as_object_def json_as_str_def validate_answer_text_def valid_text_def
        BoundedText_new_with_max_bytes_def MAX_TEXT_BYTES_def lit_def)
next
  case (Answer_Choice i)
  with assms show ?thesis
    by (simp add: answer_wire_ok_def ToolInputAnswer_serialize_def ToolInputAnswer_deserialize_def
        json_as_object_def json_as_str_def json_as_u64_def lit_def)
qed

interpretation answer_wire: wire_format ToolInputAnswer_serialize ToolInputAnswer_deserialize answer_wire_ok
  by unfold_locales (simp_all add: answer_roundtrip answer_deserialize_ok)

subsection \<open>Properties\<close>

text \<open>
  An answer is accepted for a pending interaction exactly when it is of the kind asked for
  (an approval for an approval, a valid text for a text request, an index within the offered
  choices for a choice request), and every accepted tool-input answer has a canonical result
  that names exactly the text or the chosen option.
\<close>
lemma interaction_answer_spec:
  "(PendingInteraction_validate_answer p a = Ok () \<longleftrightarrow>
     (case (pi_kind p, a) of
        (IK_Approval _, IA_Approval _) \<Rightarrow> True
      | (IK_ToolInput r, IA_ToolInput (Answer_Text v)) \<Rightarrow>
          ti_answer_kind r = Kind_Text \<and> valid_text (as_str v) 8192 False
      | (IK_ToolInput r, IA_ToolInput (Answer_Choice i)) \<Rightarrow>
          ti_answer_kind r = Kind_SingleChoice \<and> i < length (ti_choices r)
      | _ \<Rightarrow> False))
   \<and> (\<forall>r t. pi_kind p = IK_ToolInput r \<longrightarrow> a = IA_ToolInput t \<longrightarrow>
        PendingInteraction_validate_answer p a = Ok () \<longrightarrow>
        ToolInputAnswer_encode_result enc t r =
          Some (case t of
            Answer_Text v \<Rightarrow> enc (JObject [(lit ''answer'', JString (as_str v))])
          | Answer_Choice i \<Rightarrow>
              enc (JObject [(lit ''choice_index'', JNumber (nat_digits i)),
                            (lit ''choice'', JString (as_str (ti_choices r ! i)))])))"
  by (auto simp: PendingInteraction_validate_answer_def InteractionAnswer_validate_Ok
      ToolInputAnswer_validate_Ok ToolInputAnswer_encode_result_def canonical_result_def
      split: InteractionKind.splits InteractionAnswer.splits ToolInputAnswer.splits)

lemma interaction_answer_spec_witness:
  "\<exists>p r. pi_kind p = IK_ToolInput r
    \<and> PendingInteraction_validate_answer p (IA_ToolInput (Answer_Choice 1)) = Ok ()
    \<and> ToolInputAnswer_encode_result (\<lambda>v. lit (if v = JNull then ''null'' else ''object'')) (Answer_Choice 1) r
        = Some (lit ''object'')"
proof -
  let ?r = "\<lparr>ti_prompt = BoundedText (lit ''which?''), ti_choices = [BoundedText (lit ''a''), BoundedText (lit ''b'')],
      ti_answer_kind = Kind_SingleChoice\<rparr>"
  let ?p = "\<lparr>pi_interaction_id = InteractionId [1], pi_tool_call_id = ToolCallId (lit ''c''),
      pi_tool_name = ToolName (lit ''ask''), pi_kind = IK_ToolInput ?r\<rparr>"
  let ?enc = "\<lambda>v. lit (if v = JNull then ''null'' else ''object'')"
  have ok: "PendingInteraction_validate_answer ?p (IA_ToolInput (Answer_Choice 1)) = Ok ()"
    using interaction_answer_spec [of ?p "IA_ToolInput (Answer_Choice 1)" ?enc] by simp
  moreover have "ToolInputAnswer_encode_result ?enc (Answer_Choice 1) ?r = Some (lit ''object'')"
    using interaction_answer_spec [of ?p "IA_ToolInput (Answer_Choice 1)" ?enc] ok by simp
  ultimately show ?thesis by (intro exI [of _ ?p] exI [of _ ?r]) simp
qed

text \<open>
  Writing a tool-input answer in its wire form and reading it back gives the same answer
  exactly for the answers the reader can produce: non-empty allowed text of at most 8192 bytes,
  or an index that fits in 64 bits.
\<close>
lemma tool_input_answer_roundtrip:
  "(ToolInputAnswer_deserialize (ToolInputAnswer_serialize a) = Ok a \<longleftrightarrow> answer_wire_ok a)
   \<and> ((\<exists>v. ToolInputAnswer_deserialize v = Ok a) \<longleftrightarrow> answer_wire_ok a)"
  using answer_wire.roundtrip_iff [of a] answer_wire.readable_iff [of a] by blast

end
