(* ===== verification/Message.thy ===== *)
theory Message
  imports Tools Replay
begin

text \<open>
  Messages between the loop and a model (\<^verbatim>\<open>src/model/message.rs\<close>): assistant parts, reasoning
  content, tool calls, the five kinds of message, their constructors and validation, and what
  deserialisation does once the wire record is read.  The central check is
  \<open>validate_tool_call_order\<close>; \<open>tool_call_order_spec\<close> says what it accepts.
\<close>

definition MAX_MODEL_MESSAGE_TEXT_BYTES :: nat where "MAX_MODEL_MESSAGE_TEXT_BYTES = 262144"

subsection \<open>Reasoning content\<close>

record ReasoningContent =
  rc_text :: "rstr option"
  rc_summary :: "rstr option"
  rc_encrypted :: "rstr option"
  rc_signature :: "rstr option"

definition normalize_optional_text :: "rstr option \<Rightarrow> nat \<Rightarrow> (rstr option, ModelValueError) result" where
  "normalize_optional_text value maximum =
     (case value of
        None \<Rightarrow> Ok None
      | Some v \<Rightarrow>
          (let text_v = cow_str (normalize_model_text v) in
           if maximum < str_len text_v then Err MV_InvalidText else Ok (Some text_v)))"

definition validate_optional_opaque :: "rstr option \<Rightarrow> nat \<Rightarrow> (unit, ModelValueError) result" where
  "validate_optional_opaque value maximum =
     (case value of
        None \<Rightarrow> Ok ()
      | Some v \<Rightarrow>
          if v = [] \<or> maximum < str_len v
            \<or> list_ex (\<lambda>b. \<not> (0x21 \<le> b \<and> b \<le> 0x7E) \<or> b = 0x22 \<or> b = 0x5C) (str_bytes v)
          then Err MV_InvalidText else Ok ())"

definition ReasoningContent_new ::
  "rstr option \<Rightarrow> rstr option \<Rightarrow> rstr option \<Rightarrow> rstr option \<Rightarrow> (ReasoningContent, ModelValueError) result" where
  "ReasoningContent_new text0 summary0 encrypted signature =
     and_then (normalize_optional_text text0 262144) (\<lambda>text1.
     and_then (normalize_optional_text summary0 131072) (\<lambda>summary1.
     and_then (validate_optional_opaque encrypted 262144) (\<lambda>_.
     and_then (validate_optional_opaque signature 16384) (\<lambda>_.
       if text1 = None \<and> summary1 = None \<and> encrypted = None \<and> signature = None
       then Err MV_EmptyReasoningContent
       else Ok \<lparr>rc_text = text1, rc_summary = summary1, rc_encrypted = encrypted,
                rc_signature = signature\<rparr>))))"

definition ReasoningContent_deserialize :: "ReasoningContent \<Rightarrow> (ReasoningContent, ModelValueError) result" where
  "ReasoningContent_deserialize wire =
     ReasoningContent_new (rc_text wire) (rc_summary wire) (rc_encrypted wire) (rc_signature wire)"

subsection \<open>Tool calls and assistant parts\<close>

record ToolCall =
  tc_id :: ToolCallId
  tc_name :: ToolName
  tc_arguments :: json
  tc_index :: u32

definition ToolCall_new_with_max_bytes ::
  "json serializer \<Rightarrow> ToolCallId \<Rightarrow> ToolName \<Rightarrow> json \<Rightarrow> u32 \<Rightarrow> nat \<Rightarrow> (ToolCall, ModelValueError) result" where
  "ToolCall_new_with_max_bytes ser call_id name arguments call_index max_bytes =
     (if \<not> json_is_object arguments \<or> \<not> is_ok (validate_json_size ser arguments max_bytes)
      then Err MV_InvalidToolArguments
      else Ok \<lparr>tc_id = call_id, tc_name = name, tc_arguments = arguments, tc_index = call_index\<rparr>)"

definition ToolCall_new ::
  "json serializer \<Rightarrow> ToolCallId \<Rightarrow> ToolName \<Rightarrow> json \<Rightarrow> u32 \<Rightarrow> (ToolCall, ModelValueError) result" where
  "ToolCall_new ser call_id name arguments call_index =
     ToolCall_new_with_max_bytes ser call_id name arguments call_index MAX_JSON_BYTES"

definition ToolCall_deserialize :: "json serializer \<Rightarrow> ToolCall \<Rightarrow> (ToolCall, ModelValueError) result" where
  "ToolCall_deserialize ser wire =
     ToolCall_new ser (tc_id wire) (tc_name wire) (tc_arguments wire) (tc_index wire)"

datatype AssistantPart =
    AP_Text rstr
  | AP_Reasoning ReasoningContent
  | AP_ToolCall ToolCall

definition AssistantPart_validate :: "AssistantPart \<Rightarrow> (unit, ModelValueError) result" where
  "AssistantPart_validate part =
     (case part of
        AP_Text t \<Rightarrow>
          if valid_text t MAX_MODEL_MESSAGE_TEXT_BYTES True then Ok () else Err MV_InvalidText
      | AP_Reasoning _ \<Rightarrow> Ok ()
      | AP_ToolCall _ \<Rightarrow> Ok ())"

definition as_tool_call :: "AssistantPart \<Rightarrow> ToolCall option" where
  "as_tool_call part = (case part of AP_ToolCall c \<Rightarrow> Some c | _ \<Rightarrow> None)"

definition AssistantPart_deserialize :: "AssistantPart \<Rightarrow> (AssistantPart, ModelValueError) result" where
  "AssistantPart_deserialize wire =
     (let value = (case wire of AP_Text t \<Rightarrow> AP_Text (cow_str (normalize_model_text t)) | other \<Rightarrow> other) in
      and_then (AssistantPart_validate value) (\<lambda>_. Ok value))"

subsection \<open>Order of tool calls\<close>

text \<open>The loop over the parts, with the two sets and the next expected index.\<close>

fun tool_call_order_loop ::
  "AssistantPart list \<Rightarrow> ToolCallId set \<Rightarrow> u32 set \<Rightarrow> u32 \<Rightarrow> (unit, ModelValueError) result" where
  "tool_call_order_loop [] ids indices expected = Ok ()"
| "tool_call_order_loop (part # parts) ids indices expected =
     (case AssistantPart_validate part of
        Err e \<Rightarrow> Err e
      | Ok _ \<Rightarrow>
          (case as_tool_call part of
             None \<Rightarrow> tool_call_order_loop parts ids indices expected
           | Some call \<Rightarrow>
               if tc_index call \<in> indices then Err MV_DuplicateToolCallIndex
               else if tc_index call \<noteq> expected then Err MV_InvalidToolCallOrder
               else if tc_id call \<in> ids then Err MV_DuplicateToolCallId
               else (case checked_add expected 1 of
                       None \<Rightarrow> Err MV_InvalidToolCallOrder
                     | Some next \<Rightarrow>
                         tool_call_order_loop parts (insert (tc_id call) ids)
                           (insert (tc_index call) indices) next)))"

definition validate_tool_call_order :: "AssistantPart list \<Rightarrow> (unit, ModelValueError) result" where
  "validate_tool_call_order parts = tool_call_order_loop parts {} {} 0"

text \<open>Only texts that normalisation changes are replaced.\<close>

definition normalize_part :: "AssistantPart \<Rightarrow> AssistantPart" where
  "normalize_part part =
     (case part of
        AP_Text t \<Rightarrow>
          (case normalize_model_text t of Owned n \<Rightarrow> AP_Text n | Borrowed _ \<Rightarrow> part)
      | _ \<Rightarrow> part)"

definition normalize_parts :: "AssistantPart list \<Rightarrow> AssistantPart list" where
  "normalize_parts parts = map normalize_part parts"

subsection \<open>Messages\<close>

datatype ModelMessage =
    MM_System rstr
  | MM_User rstr
  | MM_Assistant "AssistantPart list"
  | MM_AssistantWithReplay "AssistantPart list" ProviderReplay
  | MM_Tool ToolCallId ToolOutput ToolResultOutcome

definition ModelMessage_validate :: "ModelMessage \<Rightarrow> (unit, ModelValueError) result" where
  "ModelMessage_validate m =
     (case m of
        MM_System t \<Rightarrow>
          if valid_text t MAX_MODEL_MESSAGE_TEXT_BYTES False then Ok () else Err MV_InvalidText
      | MM_User t \<Rightarrow>
          if valid_text t MAX_MODEL_MESSAGE_TEXT_BYTES False then Ok () else Err MV_InvalidText
      | MM_Assistant parts \<Rightarrow>
          if parts = [] then Err MV_EmptyAssistantParts else validate_tool_call_order parts
      | MM_AssistantWithReplay parts _ \<Rightarrow> validate_tool_call_order parts
      | MM_Tool _ _ _ \<Rightarrow> Ok ())"

definition ModelMessage_system :: "rstr \<Rightarrow> (ModelMessage, ModelValueError) result" where
  "ModelMessage_system t =
     (if \<not> valid_text t MAX_MODEL_MESSAGE_TEXT_BYTES False then Err MV_InvalidText
      else Ok (MM_System t))"

definition ModelMessage_user :: "rstr \<Rightarrow> (ModelMessage, ModelValueError) result" where
  "ModelMessage_user t =
     (if \<not> valid_text t MAX_MODEL_MESSAGE_TEXT_BYTES False then Err MV_InvalidText
      else Ok (MM_User t))"

definition ModelMessage_assistant_with_provider_replay ::
  "AssistantPart list \<Rightarrow> ProviderReplay option \<Rightarrow> (ModelMessage, ModelValueError) result" where
  "ModelMessage_assistant_with_provider_replay parts replay =
     (let parts' = normalize_parts parts;
          message = (case replay of Some r \<Rightarrow> MM_AssistantWithReplay parts' r | None \<Rightarrow> MM_Assistant parts') in
      and_then (ModelMessage_validate message) (\<lambda>_. Ok message))"

definition ModelMessage_assistant :: "AssistantPart list \<Rightarrow> (ModelMessage, ModelValueError) result" where
  "ModelMessage_assistant parts = ModelMessage_assistant_with_provider_replay parts None"

definition ModelMessage_tool_with_outcome ::
  "ToolCallId \<Rightarrow> ToolOutput \<Rightarrow> ToolResultOutcome \<Rightarrow> (ModelMessage, ModelValueError) result" where
  "ModelMessage_tool_with_outcome call_id output outcome = Ok (MM_Tool call_id output outcome)"

text \<open>The wire enum: assistant content is a bare list of parts or a replay record.\<close>

datatype AssistantMessageWire =
    Wire_Legacy "AssistantPart list"
  | Wire_Replay "AssistantPart list" "ProviderReplay option"

datatype ModelMessageWire =
    Wire_System rstr
  | Wire_User rstr
  | Wire_Assistant AssistantMessageWire
  | Wire_Tool ToolCallId ToolOutput ToolResultOutcome

definition ModelMessage_deserialize :: "ModelMessageWire \<Rightarrow> (ModelMessage, ModelValueError) result" where
  "ModelMessage_deserialize wire =
     and_then
       (case wire of
          Wire_System t \<Rightarrow> Ok (MM_System t)
        | Wire_User t \<Rightarrow> Ok (MM_User t)
        | Wire_Assistant (Wire_Legacy parts) \<Rightarrow> Ok (MM_Assistant parts)
        | Wire_Assistant (Wire_Replay parts replay) \<Rightarrow>
            ModelMessage_assistant_with_provider_replay parts replay
        | Wire_Tool i out oc \<Rightarrow> Ok (MM_Tool i out oc))
       (\<lambda>value. and_then (ModelMessage_validate value) (\<lambda>_. Ok value))"

definition ModelMessage_serialize :: "ModelMessage \<Rightarrow> ModelMessageWire" where
  "ModelMessage_serialize m =
     (case m of
        MM_System t \<Rightarrow> Wire_System t
      | MM_User t \<Rightarrow> Wire_User t
      | MM_Assistant parts \<Rightarrow> Wire_Assistant (Wire_Legacy parts)
      | MM_AssistantWithReplay parts replay \<Rightarrow> Wire_Assistant (Wire_Replay parts (Some replay))
      | MM_Tool i out oc \<Rightarrow> Wire_Tool i out oc)"

subsection \<open>What the checks accept\<close>

definition tool_calls :: "AssistantPart list \<Rightarrow> ToolCall list" where
  "tool_calls parts = List.map_filter as_tool_call parts"

lemma tool_calls_simps [simp]:
  "tool_calls [] = []"
  "tool_calls (AP_Text t # ps) = tool_calls ps"
  "tool_calls (AP_Reasoning r # ps) = tool_calls ps"
  "tool_calls (AP_ToolCall c # ps) = c # tool_calls ps"
  by (simp_all add: tool_calls_def as_tool_call_def List.map_filter_def)

lemma tool_calls_append: "tool_calls (ps @ qs) = tool_calls ps @ tool_calls qs"
  by (simp add: tool_calls_def List.map_filter_def)

definition parts_valid :: "AssistantPart list \<Rightarrow> bool" where
  "parts_valid parts \<longleftrightarrow> list_all (\<lambda>p. AssistantPart_validate p = Ok ()) parts"

definition calls_in_order :: "ToolCall list \<Rightarrow> bool" where
  "calls_in_order calls \<longleftrightarrow>
     map (unat \<circ> tc_index) calls = [0..<length calls] \<and> distinct (map tc_id calls)
     \<and> length calls < 2 ^ 32"

lemma tool_call_order_loop_Ok:
  assumes "indices = {i. unat i < unat expected}"
  shows "tool_call_order_loop parts ids indices expected = Ok () \<longleftrightarrow>
     parts_valid parts
     \<and> map (unat \<circ> tc_index) (tool_calls parts)
         = [unat expected..<unat expected + length (tool_calls parts)]
     \<and> distinct (map tc_id (tool_calls parts)) \<and> set (map tc_id (tool_calls parts)) \<inter> ids = {}
     \<and> unat expected + length (tool_calls parts) < 2 ^ 32"
  using assms
proof (induction parts arbitrary: ids indices expected)
  case Nil
  have "unat expected < 2 ^ 32" using unsigned_less [of expected] by simp
  then show ?case by (simp add: parts_valid_def)
next
  case (Cons p parts)
  show ?case
  proof (cases p)
    case (AP_Text t)
    with Cons.IH [OF Cons.prems] show ?thesis
      by (auto simp: parts_valid_def as_tool_call_def split: result.splits)
  next
    case (AP_Reasoning r)
    with Cons.IH [OF Cons.prems] show ?thesis
      by (auto simp: parts_valid_def as_tool_call_def AssistantPart_validate_def)
  next
    case (AP_ToolCall c)
    let ?n = "length (tool_calls parts)"
    have up: "[n..<Suc (n + ?n)] = n # [Suc n..<Suc (n + ?n)]" for n
      by (subst upt_conv_Cons) simp_all
    show ?thesis
    proof (cases "checked_add expected 1")
      case None
      then have "2 ^ 32 \<le> unat expected + 1" by (simp add: checked_add_None)
      with None AP_ToolCall show ?thesis
        by (auto simp: as_tool_call_def AssistantPart_validate_def)
    next
      case (Some e)
      then have e: "unat e = Suc (unat expected)" by (simp add: checked_add_Some)
      have ind: "insert expected indices = {i. unat i < unat e}"
        using Cons.prems e by (auto simp: less_Suc_eq word_unat_eq_iff)
      show ?thesis
      proof (cases "tc_index c = expected")
        case True
        then have "tc_index c \<notin> indices" using Cons.prems by simp
        with True AP_ToolCall Some Cons.IH [OF ind, of "insert (tc_id c) ids"] show ?thesis
          by (auto simp: as_tool_call_def AssistantPart_validate_def parts_valid_def e up simp del: upt_Suc)
      next
        case False
        then have "unat (tc_index c) \<noteq> unat expected" by (simp add: word_unat_eq_iff)
        with False AP_ToolCall show ?thesis
          by (auto simp: as_tool_call_def AssistantPart_validate_def up simp del: upt_Suc)
      qed
    qed
  qed
qed

lemma validate_tool_call_order_Ok:
  "validate_tool_call_order parts = Ok () \<longleftrightarrow> parts_valid parts \<and> calls_in_order (tool_calls parts)"
  using tool_call_order_loop_Ok [of "{}" 0 parts "{}"]
  by (auto simp: validate_tool_call_order_def calls_in_order_def)

lemma normalize_part_eq:
  "normalize_part p = (case p of AP_Text t \<Rightarrow> AP_Text (normalized_reference t) | _ \<Rightarrow> p)"
proof (cases p)
  case (AP_Text t)
  show ?thesis
    using cow_normalize_model_text [of t]
    by (auto simp: AP_Text normalize_part_def normalize_model_text_def split: cow.splits if_splits)
qed (simp_all add: normalize_part_def)

lemma tool_calls_normalize [simp]: "tool_calls (normalize_parts parts) = tool_calls parts"
proof (induction parts)
  case (Cons p parts)
  then show ?case by (cases p) (simp_all add: normalize_parts_def normalize_part_eq)
qed (simp add: normalize_parts_def)

lemma normalize_parts_id: "parts_valid parts \<Longrightarrow> normalize_parts parts = parts"
proof (induction parts)
  case (Cons p parts)
  then show ?case
    by (cases p) (auto simp: normalize_parts_def normalize_part_eq parts_valid_def
        AssistantPart_validate_def valid_text_def normalized_reference_id split: if_splits)
qed (simp add: normalize_parts_def)

lemma AssistantPart_deserialize_valid:
  "AssistantPart_deserialize w = Ok p \<Longrightarrow> AssistantPart_validate p = Ok ()"
  by (auto simp: AssistantPart_deserialize_def Let_def and_then_eq_Ok)

text \<open>Fields that only the constructor can set.\<close>

definition reasoning_ok :: "ReasoningContent \<Rightarrow> bool" where
  "reasoning_ok r \<longleftrightarrow>
     (\<forall>t. rc_text r = Some t \<longrightarrow> valid_text t 262144 True)
     \<and> (\<forall>t. rc_summary r = Some t \<longrightarrow> valid_text t 131072 True)
     \<and> (\<forall>t. rc_encrypted r = Some t \<longrightarrow> t \<noteq> [] \<and> length t \<le> 262144 \<and> list_all opaque_byte t)
     \<and> (\<forall>t. rc_signature r = Some t \<longrightarrow> t \<noteq> [] \<and> length t \<le> 16384 \<and> list_all opaque_byte t)
     \<and> (rc_text r \<noteq> None \<or> rc_summary r \<noteq> None \<or> rc_encrypted r \<noteq> None \<or> rc_signature r \<noteq> None)"

lemma normalize_optional_text_Ok:
  "normalize_optional_text v m = Ok w \<longleftrightarrow>
     w = map_option normalized_reference v \<and> (\<forall>t. w = Some t \<longrightarrow> str_len t \<le> m)"
  by (auto simp: normalize_optional_text_def Let_def split: option.splits)

lemma validate_optional_opaque_Ok:
  "validate_optional_opaque v m = Ok () \<longleftrightarrow>
     (\<forall>t. v = Some t \<longrightarrow> t \<noteq> [] \<and> length t \<le> m \<and> list_all opaque_byte t)"
proof (cases v)
  case (Some t)
  have "\<not> list_ex (\<lambda>b. \<not> (0x21 \<le> b \<and> b \<le> 0x7E) \<or> b = 0x22 \<or> b = 0x5C) (str_bytes t)
      \<longleftrightarrow> list_all opaque_byte (str_bytes t)"
    by (auto simp: list_ex_iff list_all_iff opaque_byte_def)
  then show ?thesis
    using Some tool_call_id.byte_grammar [of t] tool_call_id.grammar_len [of t]
    by (auto simp: validate_optional_opaque_def)
qed (simp add: validate_optional_opaque_def)

lemma reasoning_new_Ok:
  "ReasoningContent_new t s e g = Ok r \<longleftrightarrow>
     r = \<lparr>rc_text = map_option normalized_reference t, rc_summary = map_option normalized_reference s,
          rc_encrypted = e, rc_signature = g\<rparr> \<and> reasoning_ok r"
  by (auto simp: ReasoningContent_new_def and_then_eq_Ok normalize_optional_text_Ok
      validate_optional_opaque_Ok reasoning_ok_def valid_text_def normalized_allowed
      split: if_splits)

lemma system_Ok:
  "ModelMessage_system t = Ok m \<longleftrightarrow> m = MM_System t \<and> ModelMessage_validate m = Ok ()"
  by (auto simp: ModelMessage_system_def ModelMessage_validate_def)

lemma user_Ok:
  "ModelMessage_user t = Ok m \<longleftrightarrow> m = MM_User t \<and> ModelMessage_validate m = Ok ()"
  by (auto simp: ModelMessage_user_def ModelMessage_validate_def)

lemma assistant_Ok:
  "ModelMessage_assistant_with_provider_replay parts replay = Ok m \<longleftrightarrow>
     m = (case replay of Some r \<Rightarrow> MM_AssistantWithReplay (normalize_parts parts) r
          | None \<Rightarrow> MM_Assistant (normalize_parts parts))
     \<and> ModelMessage_validate m = Ok ()"
  by (auto simp: ModelMessage_assistant_with_provider_replay_def Let_def and_then_eq_Ok)

lemma message_deserialize_Ok_valid:
  "ModelMessage_deserialize w = Ok m \<Longrightarrow> ModelMessage_validate m = Ok ()"
  by (auto simp: ModelMessage_deserialize_def and_then_eq_Ok)

lemma assistant_validate_parts:
  "ModelMessage_validate (MM_Assistant parts) = Ok () \<Longrightarrow> parts_valid parts"
  "ModelMessage_validate (MM_AssistantWithReplay parts r) = Ok () \<Longrightarrow> parts_valid parts"
  by (auto simp: ModelMessage_validate_def validate_tool_call_order_Ok split: if_splits)

interpretation model_message_wire: wire_format ModelMessage_serialize ModelMessage_deserialize
  "\<lambda>m. ModelMessage_validate m = Ok ()"
proof unfold_locales
  fix m
  assume ok: "ModelMessage_validate m = Ok ()"
  show "ModelMessage_deserialize (ModelMessage_serialize m) = Ok m"
  proof (cases m)
    case (MM_AssistantWithReplay parts r)
    with ok assistant_validate_parts(2) [of parts r] show ?thesis
      by (auto simp: ModelMessage_deserialize_def ModelMessage_serialize_def and_then_eq_Ok
          assistant_Ok normalize_parts_id)
  qed (use ok in \<open>simp_all add: ModelMessage_deserialize_def ModelMessage_serialize_def\<close>)
qed (rule message_deserialize_Ok_valid)

subsection \<open>Properties\<close>

text \<open>
  The tool-call check accepts assistant parts exactly when every text part is valid, the
  calls carry the indices 0, 1, 2, ... in order, their ids are pairwise different, and there
  are fewer than 2^32 of them; the 32-bit index counter therefore never wraps.
\<close>
lemma tool_call_order_spec:
  "validate_tool_call_order parts = Ok () \<longleftrightarrow>
     list_all (\<lambda>p. case p of AP_Text t \<Rightarrow> valid_text t 262144 True | _ \<Rightarrow> True) parts
     \<and> map (unat \<circ> tc_index) (tool_calls parts) = [0..<length (tool_calls parts)]
     \<and> distinct (map tc_id (tool_calls parts))
     \<and> length (tool_calls parts) < 2 ^ 32"
proof -
  have "AssistantPart_validate p = Ok () \<longleftrightarrow>
      (case p of AP_Text t \<Rightarrow> valid_text t 262144 True | _ \<Rightarrow> True)" for p
    by (simp add: AssistantPart_validate_def MAX_MODEL_MESSAGE_TEXT_BYTES_def split: AssistantPart.splits)
  then show ?thesis
    unfolding validate_tool_call_order_Ok parts_valid_def calls_in_order_def by simp
qed

text \<open>
  A reasoning value exists exactly with valid text of at most 256 KiB, valid summary of at
  most 128 KiB, printable opaque artifacts within their limits, and at least one of the four;
  constructing it normalises text and summary and keeps the opaque artifacts unchanged.
\<close>
lemma reasoning_content_new_spec:
  "ReasoningContent_new t s e g = Ok r \<longleftrightarrow>
     r = \<lparr>rc_text = map_option (\<lambda>x. cow_str (normalize_model_text x)) t,
          rc_summary = map_option (\<lambda>x. cow_str (normalize_model_text x)) s,
          rc_encrypted = e, rc_signature = g\<rparr>
     \<and> reasoning_ok r"
  by (simp add: reasoning_new_Ok)

text \<open>
  C39: writing a valid message in its wire form and reading it back gives the same message, and
  every message that can be read is valid; in particular a replay message keeps its parts and
  its provider metadata.
\<close>
theorem model_message_roundtrip:
  "(ModelMessage_deserialize (ModelMessage_serialize m) = Ok m) = (ModelMessage_validate m = Ok ())
   \<and> (\<exists>w. ModelMessage_deserialize w = Ok m) = (ModelMessage_validate m = Ok ())"
  using model_message_wire.roundtrip_iff [of m] model_message_wire.readable_iff [of m] by blast

end
