(* ===== verification/Usage.thy ===== *)
theory Usage
  imports Prelude
begin

text \<open>
  Token usage: the record of \<^verbatim>\<open>src/model/usage.rs\<close>, whose counters are optional 64-bit
  words, and the accumulator of \<^verbatim>\<open>src/usage.rs\<close> that adds the usage of every model request
  of a loop with checked addition.  The main result says what the accumulator holds after
  any sequence of rounds and exactly when it overflows.
\<close>

record Usage =
  input_tokens :: "u64 option"
  output_tokens :: "u64 option"
  reasoning_tokens :: "u64 option"
  cache_read_tokens :: "u64 option"
  cache_write_tokens :: "u64 option"
  provider_total_tokens :: "u64 option"

definition Usage_from_optional :: "u64 option \<Rightarrow> u64 option \<Rightarrow> u64 option \<Rightarrow> Usage" where
  "Usage_from_optional i out r =
     \<lparr>input_tokens = i, output_tokens = out, reasoning_tokens = r,
      cache_read_tokens = None, cache_write_tokens = None, provider_total_tokens = None\<rparr>"

definition Usage_new :: "u64 \<Rightarrow> u64 \<Rightarrow> u64 \<Rightarrow> Usage" where
  "Usage_new i out r = Usage_from_optional (Some i) (Some out) (Some r)"

definition Usage_default :: Usage where
  "Usage_default = Usage_from_optional None None None"

definition with_cache_read_tokens :: "u64 option \<Rightarrow> Usage \<Rightarrow> Usage" where
  "with_cache_read_tokens v u = u\<lparr>cache_read_tokens := v\<rparr>"

definition with_cache_write_tokens :: "u64 option \<Rightarrow> Usage \<Rightarrow> Usage" where
  "with_cache_write_tokens v u = u\<lparr>cache_write_tokens := v\<rparr>"

definition with_provider_total_tokens :: "u64 option \<Rightarrow> Usage \<Rightarrow> Usage" where
  "with_provider_total_tokens v u = u\<lparr>provider_total_tokens := v\<rparr>"

definition total_tokens :: "Usage \<Rightarrow> u64 option" where
  "total_tokens u =
     (case (input_tokens u, output_tokens u, reasoning_tokens u) of
        (Some i, Some out, Some r) \<Rightarrow>
          (case checked_add i out of None \<Rightarrow> None | Some t \<Rightarrow> checked_add t r)
      | _ \<Rightarrow> None)"

definition sum_field :: "u64 option \<Rightarrow> u64 option \<Rightarrow> (u64 option, unit) result" where
  "sum_field left right =
     (case (left, right) of
        (Some l, Some r) \<Rightarrow> ok_or (map_option Some (checked_add l r)) ()
      | _ \<Rightarrow> Ok (case left of Some l \<Rightarrow> Some l | None \<Rightarrow> right))"

definition sum_usage :: "Usage \<Rightarrow> Usage \<Rightarrow> (Usage, unit) result" where
  "sum_usage left right =
     and_then (sum_field (input_tokens left) (input_tokens right)) (\<lambda>i.
     and_then (sum_field (output_tokens left) (output_tokens right)) (\<lambda>out.
     and_then (sum_field (reasoning_tokens left) (reasoning_tokens right)) (\<lambda>r.
     and_then (sum_field (cache_read_tokens left) (cache_read_tokens right)) (\<lambda>cr.
     and_then (sum_field (cache_write_tokens left) (cache_write_tokens right)) (\<lambda>cw.
     and_then (sum_field (provider_total_tokens left) (provider_total_tokens right)) (\<lambda>t.
       Ok (with_provider_total_tokens t
            (with_cache_write_tokens cw
              (with_cache_read_tokens cr (Usage_from_optional i out r))))))))))"

text \<open>The accumulator: \<open>add\<close> keeps the old value when a counter overflows.\<close>

record UsageAccumulator =
  ua_value :: Usage

definition UsageAccumulator_default :: UsageAccumulator where
  "UsageAccumulator_default = \<lparr>ua_value = Usage_default\<rparr>"

definition UsageAccumulator_add :: "UsageAccumulator \<Rightarrow> Usage \<Rightarrow> UsageAccumulator \<times> (unit, unit) result" where
  "UsageAccumulator_add acc v =
     (case sum_usage (ua_value acc) v of
        Ok u \<Rightarrow> (acc\<lparr>ua_value := u\<rparr>, Ok ())
      | Err e \<Rightarrow> (acc, Err e))"

definition UsageAccumulator_finish :: "UsageAccumulator \<Rightarrow> Usage" where
  "UsageAccumulator_finish acc = ua_value acc"

text \<open>The rounds of a loop, up to the first overflow.\<close>

fun add_rounds :: "UsageAccumulator \<Rightarrow> Usage list \<Rightarrow> UsageAccumulator \<times> (unit, unit) result" where
  "add_rounds acc [] = (acc, Ok ())"
| "add_rounds acc (u # us) =
     (case UsageAccumulator_add acc u of
        (acc', Ok _) \<Rightarrow> add_rounds acc' us
      | (acc', Err e) \<Rightarrow> (acc', Err e))"

subsection \<open>One counter\<close>

text \<open>The reported values of a counter, and what their sum is as an optional word.\<close>

definition reported :: "(Usage \<Rightarrow> u64 option) \<Rightarrow> Usage list \<Rightarrow> nat list" where
  "reported f us = map (\<lambda>u. unat (the (f u))) (filter (\<lambda>u. f u \<noteq> None) us)"

definition counter_total :: "(Usage \<Rightarrow> u64 option) \<Rightarrow> Usage list \<Rightarrow> nat" where
  "counter_total f us = sum_list (reported f us)"

definition counter_is :: "u64 option \<Rightarrow> nat list \<Rightarrow> bool" where
  "counter_is v ns \<longleftrightarrow>
     (case v of None \<Rightarrow> ns = [] | Some w \<Rightarrow> ns \<noteq> [] \<and> unat w = sum_list ns)"

lemma reported_simps [simp]:
  "reported f [] = []"
  "reported f (u # us) = (case f u of None \<Rightarrow> reported f us | Some w \<Rightarrow> unat w # reported f us)"
  by (simp_all add: reported_def split: option.splits)

lemma reported_append: "reported f (us @ vs) = reported f us @ reported f vs"
  by (simp add: reported_def)

lemma sum_field_Ok:
  assumes "counter_is a ns"
  shows "sum_field a b = Ok c \<longleftrightarrow>
     counter_is c (ns @ (case b of None \<Rightarrow> [] | Some w \<Rightarrow> [unat w]))"
proof (cases a)
  case None
  with assms have "ns = []" by (simp add: counter_is_def)
  with None show ?thesis
    by (cases b; cases c) (auto simp: sum_field_def counter_is_def word_unat_eq_iff)
next
  case (Some l)
  with assms have ns: "ns \<noteq> []" "unat l = sum_list ns" by (simp_all add: counter_is_def)
  show ?thesis
  proof (cases b)
    case None
    with Some ns show ?thesis
      by (cases c) (auto simp: sum_field_def counter_is_def word_unat_eq_iff)
  next
    case (Some r)
    with \<open>a = Some l\<close> ns show ?thesis
      by (cases c) (auto simp: sum_field_def counter_is_def checked_add_Some)
  qed
qed

lemma counter_exists:
  "sum_list ns < 2 ^ 64 \<longleftrightarrow> (\<exists>v. counter_is v ns)"
proof
  assume "sum_list ns < 2 ^ 64"
  then have "counter_is (if ns = [] then None else Some (of_nat (sum_list ns))) ns"
    by (auto simp: counter_is_def unat_of_nat take_bit_nat_eq_self_iff)
  then show "\<exists>v. counter_is v ns" ..
next
  assume "\<exists>v. counter_is v ns"
  then obtain v where v: "counter_is v ns" ..
  show "sum_list ns < 2 ^ 64"
  proof (cases v)
    case (Some w)
    then have "sum_list ns = unat w" using v by (simp add: counter_is_def)
    then show ?thesis using unsigned_less [of w] by simp
  qed (use v in \<open>simp add: counter_is_def\<close>)
qed

subsection \<open>All counters\<close>

definition counters :: "(Usage \<Rightarrow> u64 option) list" where
  "counters = [input_tokens, output_tokens, reasoning_tokens, cache_read_tokens,
     cache_write_tokens, provider_total_tokens]"

text \<open>A usage value holds, counter by counter, the sum of what the rounds reported.\<close>

definition usage_is :: "Usage \<Rightarrow> Usage list \<Rightarrow> bool" where
  "usage_is u us \<longleftrightarrow> list_all (\<lambda>f. counter_is (f u) (reported f us)) counters"

lemma usage_is_default: "usage_is Usage_default []"
  by (simp add: usage_is_def counters_def Usage_default_def Usage_from_optional_def counter_is_def)

lemma counter_snoc:
  "counter_is a (reported f us) \<Longrightarrow>
     sum_field a (f u) = Ok c \<longleftrightarrow> counter_is c (reported f (us @ [u]))"
  by (simp add: sum_field_Ok reported_append split: option.splits)

lemmas usage_builders = Usage_from_optional_def with_cache_read_tokens_def
  with_cache_write_tokens_def with_provider_total_tokens_def

lemma sum_usage_Ok:
  assumes "usage_is a us"
  shows "sum_usage a u = Ok b \<longleftrightarrow> usage_is b (us @ [u])"
proof -
  have c: "counter_is (input_tokens a) (reported input_tokens us)"
    "counter_is (output_tokens a) (reported output_tokens us)"
    "counter_is (reasoning_tokens a) (reported reasoning_tokens us)"
    "counter_is (cache_read_tokens a) (reported cache_read_tokens us)"
    "counter_is (cache_write_tokens a) (reported cache_write_tokens us)"
    "counter_is (provider_total_tokens a) (reported provider_total_tokens us)"
    using assms by (simp_all add: usage_is_def counters_def)
  show ?thesis
    by (cases b)
      (auto simp: sum_usage_def and_then_eq_Ok c [THEN counter_snoc] usage_is_def counters_def
        usage_builders)
qed

lemma usage_exists:
  "(\<exists>u. usage_is u us) \<longleftrightarrow> (\<forall>f \<in> set counters. counter_total f us < 2 ^ 64)"
proof
  assume "\<exists>u. usage_is u us"
  then show "\<forall>f \<in> set counters. counter_total f us < 2 ^ 64"
    unfolding usage_is_def list_all_iff counter_total_def counter_exists by blast
next
  assume "\<forall>f \<in> set counters. counter_total f us < 2 ^ 64"
  then have "\<forall>f \<in> set counters. \<exists>w. counter_is w (reported f us)"
    unfolding counter_exists counter_total_def .
  then obtain g where g: "\<forall>f \<in> set counters. counter_is (g f) (reported f us)" by metis
  have "usage_is (with_provider_total_tokens (g provider_total_tokens)
      (with_cache_write_tokens (g cache_write_tokens)
        (with_cache_read_tokens (g cache_read_tokens)
          (Usage_from_optional (g input_tokens) (g output_tokens) (g reasoning_tokens))))) us"
    using g by (simp add: usage_is_def counters_def usage_builders)
  then show "\<exists>u. usage_is u us" ..
qed

lemma counter_total_append: "counter_total f (us @ vs) = counter_total f us + counter_total f vs"
  by (simp add: counter_total_def reported_append)

lemma usage_prefix: "\<exists>u. usage_is u (us @ vs) \<Longrightarrow> \<exists>u. usage_is u us"
  unfolding usage_exists by (auto simp: counter_total_append)

lemma add_rounds_spec:
  assumes "usage_is (ua_value acc) us"
  shows "(snd (add_rounds acc vs) = Ok () \<longleftrightarrow> (\<exists>u. usage_is u (us @ vs)))
    \<and> (snd (add_rounds acc vs) = Ok () \<longrightarrow> usage_is (ua_value (fst (add_rounds acc vs))) (us @ vs))"
  using assms
proof (induction vs arbitrary: acc us)
  case Nil
  then show ?case by auto
next
  case (Cons v vs)
  show ?case
  proof (cases "sum_usage (ua_value acc) v")
    case (Ok u)
    then have "usage_is u (us @ [v])" using Cons.prems by (simp add: sum_usage_Ok)
    then have "usage_is (ua_value (acc\<lparr>ua_value := u\<rparr>)) (us @ [v])" by simp
    from Cons.IH [OF this] Ok show ?thesis by (simp add: UsageAccumulator_add_def)
  next
    case (Err e)
    then have "\<not> usage_is u (us @ [v])" for u
      using sum_usage_Ok [OF Cons.prems, of v u] by simp
    then have "\<not> (\<exists>u. usage_is u (us @ v # vs))" using usage_prefix [of "us @ [v]" vs] by auto
    with Err show ?thesis by (simp add: UsageAccumulator_add_def)
  qed
qed

subsection \<open>Properties\<close>

text \<open>
  Adding the usage of any sequence of model requests succeeds exactly when, for each of
  the six counters, the reported values sum to less than 2^64; then the accumulator holds for
  each counter that sum, or nothing if no round reported it.
\<close>
lemma usage_accumulator_sums:
  "(snd (add_rounds UsageAccumulator_default us) = Ok () \<longleftrightarrow>
      (\<forall>f \<in> set counters. counter_total f us < 2 ^ 64))
   \<and> (snd (add_rounds UsageAccumulator_default us) = Ok () \<longrightarrow>
      (\<forall>f \<in> set counters.
         (case f (UsageAccumulator_finish (fst (add_rounds UsageAccumulator_default us))) of
            None \<Rightarrow> reported f us = []
          | Some w \<Rightarrow> reported f us \<noteq> [] \<and> unat w = counter_total f us)))"
proof -
  have init: "usage_is (ua_value UsageAccumulator_default) []"
    by (simp add: UsageAccumulator_default_def usage_is_default)
  have "usage_is u us \<longleftrightarrow> (\<forall>f \<in> set counters. case f u of None \<Rightarrow> reported f us = []
      | Some w \<Rightarrow> reported f us \<noteq> [] \<and> unat w = counter_total f us)" for u
    unfolding usage_is_def list_all_iff counter_is_def counter_total_def ..
  note content = this
  note spec = add_rounds_spec [OF init, of us, unfolded append_Nil usage_exists]
  show ?thesis using spec unfolding UsageAccumulator_finish_def content .
qed

lemma usage_accumulator_sums_witness:
  "snd (add_rounds UsageAccumulator_default
      [Usage_default, Usage_from_optional (Some 2) None None, Usage_new 5 4 0]) = Ok ()
   \<and> input_tokens (UsageAccumulator_finish (fst (add_rounds UsageAccumulator_default
      [Usage_default, Usage_from_optional (Some 2) None None, Usage_new 5 4 0]))) = Some 7"
proof -
  let ?us = "[Usage_default, Usage_from_optional (Some 2) None None, Usage_new 5 4 0]"
  have h: "\<forall>f \<in> set counters. counter_total f ?us < 2 ^ 64"
    by (simp add: counters_def counter_total_def Usage_default_def Usage_new_def usage_builders)
  have ok: "snd (add_rounds UsageAccumulator_default ?us) = Ok ()"
    using usage_accumulator_sums [of ?us] h by blast
  have "input_tokens \<in> set counters" by (simp add: counters_def)
  with usage_accumulator_sums [of ?us] ok have
    "case input_tokens (UsageAccumulator_finish (fst (add_rounds UsageAccumulator_default ?us))) of
       None \<Rightarrow> reported input_tokens ?us = []
     | Some w \<Rightarrow> reported input_tokens ?us \<noteq> [] \<and> unat w = counter_total input_tokens ?us"
    by blast
  then have "input_tokens (UsageAccumulator_finish (fst (add_rounds UsageAccumulator_default ?us))) = Some 7"
    by (auto simp: counter_total_def Usage_default_def Usage_new_def usage_builders
        word_unat_eq_iff split: option.splits)
  with ok show ?thesis by blast
qed

end
