(* ===== verification/Request.thy ===== *)
theory Request
  imports Message Usage
begin

text \<open>
  Model requests (\<^verbatim>\<open>src/model/request.rs\<close>), responses and stream events
  (\<^verbatim>\<open>src/model/response.rs\<close>) and the model descriptor (\<^verbatim>\<open>src/model/port.rs\<close>).  The abstract
  specification of a message list that may be sent is the grammar \<open>exchange\<close>: valid system and
  user messages, and assistant messages directly followed by exactly one result for each of
  their tool calls.  The one-pass check of the code is shown to decide it.
\<close>

subsection \<open>Limits, preferences, descriptor\<close>

datatype ReasoningPreference =
  RP_Auto | RP_Disabled | RP_Low | RP_Medium | RP_High | RP_XHigh | RP_Max | RP_Ultra

datatype ModelLimitsError = ML_Zero

record ModelLimits =
  context_window_tokens :: "u32 option"
  max_output_tokens :: "u32 option"

definition ModelLimits_new :: "u32 option \<Rightarrow> u32 option \<Rightarrow> (ModelLimits, ModelLimitsError) result" where
  "ModelLimits_new context output =
     (if context = Some 0 \<or> output = Some 0 then Err ML_Zero
      else Ok \<lparr>context_window_tokens = context, max_output_tokens = output\<rparr>)"

definition ModelLimits_default :: ModelLimits where
  "ModelLimits_default = \<lparr>context_window_tokens = None, max_output_tokens = None\<rparr>"

definition ModelLimits_deserialize :: "ModelLimits \<Rightarrow> (ModelLimits, ModelLimitsError) result" where
  "ModelLimits_deserialize wire = ModelLimits_new (context_window_tokens wire) (max_output_tokens wire)"

record ModelDescriptor =
  md_model_ref :: ModelRef
  md_context_window :: u64
  md_supported_reasoning :: "ReasoningPreference set"
  md_supports_tools :: bool

definition ModelDescriptor_validate :: "ModelDescriptor \<Rightarrow> (unit, ModelValueError) result" where
  "ModelDescriptor_validate d =
     (if md_context_window d = 0 \<or> md_supported_reasoning d = {} then Err MV_InvalidDescriptor
      else Ok ())"

definition ModelDescriptor_new ::
  "ModelRef \<Rightarrow> u64 \<Rightarrow> ReasoningPreference set \<Rightarrow> bool \<Rightarrow> (ModelDescriptor, ModelValueError) result" where
  "ModelDescriptor_new mref window reasoning tools =
     (let d = \<lparr>md_model_ref = mref, md_context_window = window,
               md_supported_reasoning = reasoning, md_supports_tools = tools\<rparr> in
      and_then (ModelDescriptor_validate d) (\<lambda>_. Ok d))"

definition supports_reasoning :: "ModelDescriptor \<Rightarrow> ReasoningPreference \<Rightarrow> bool" where
  "supports_reasoning d preference \<longleftrightarrow> preference \<in> md_supported_reasoning d"

subsection \<open>Requests\<close>

record ModelRequest =
  mq_messages :: "ModelMessage list"
  mq_tools :: "ToolSpec list"
  mq_limits :: ModelLimits
  mq_reasoning :: ReasoningPreference

definition part_call_ids :: "AssistantPart list \<Rightarrow> ToolCallId set" where
  "part_call_ids parts = set (map tc_id (tool_calls parts))"

text \<open>The loop of \<open>validate_tool_exchange\<close> with its two sets.\<close>

fun exchange_loop ::
  "ModelMessage list \<Rightarrow> ToolCallId set \<Rightarrow> ToolCallId set \<Rightarrow> (unit, ModelValueError) result" where
  "exchange_loop [] pending completed =
     (if pending = {} then Ok () else Err MV_IncompleteToolExchange)"
| "exchange_loop (MM_Assistant parts # ms) pending completed =
     (if pending \<noteq> {} then Err MV_IncompleteToolExchange
      else (case ModelMessage_validate (MM_Assistant parts) of
              Err e \<Rightarrow> Err e
            | Ok _ \<Rightarrow> exchange_loop ms (pending \<union> part_call_ids parts) {}))"
| "exchange_loop (MM_AssistantWithReplay parts r # ms) pending completed =
     (if pending \<noteq> {} then Err MV_IncompleteToolExchange
      else (case ModelMessage_validate (MM_AssistantWithReplay parts r) of
              Err e \<Rightarrow> Err e
            | Ok _ \<Rightarrow> exchange_loop ms (pending \<union> part_call_ids parts) {}))"
| "exchange_loop (MM_Tool call_id output outcome # ms) pending completed =
     (if call_id \<in> completed then Err MV_DuplicateToolResult
      else if pending = {} \<or> call_id \<notin> pending then Err MV_OrphanToolResult
      else exchange_loop ms (pending - {call_id}) (insert call_id completed))"
| "exchange_loop (MM_System t # ms) pending completed =
     (if pending \<noteq> {} then Err MV_IncompleteToolExchange
      else (case ModelMessage_validate (MM_System t) of
              Err e \<Rightarrow> Err e | Ok _ \<Rightarrow> exchange_loop ms pending {}))"
| "exchange_loop (MM_User t # ms) pending completed =
     (if pending \<noteq> {} then Err MV_IncompleteToolExchange
      else (case ModelMessage_validate (MM_User t) of
              Err e \<Rightarrow> Err e | Ok _ \<Rightarrow> exchange_loop ms pending {}))"

definition validate_tool_exchange :: "ModelMessage list \<Rightarrow> (unit, ModelValueError) result" where
  "validate_tool_exchange ms = exchange_loop ms {} {}"

definition ModelRequest_with_validated_tools ::
  "ModelMessage list \<Rightarrow> ToolSpec list \<Rightarrow> ModelLimits \<Rightarrow> ReasoningPreference \<Rightarrow>
     (ModelRequest, ModelValueError) result" where
  "ModelRequest_with_validated_tools messages tools limits reasoning =
     (if messages = [] then Err MV_EmptyMessages
      else and_then (validate_tool_exchange messages) (\<lambda>_.
        Ok \<lparr>mq_messages = messages, mq_tools = tools, mq_limits = limits, mq_reasoning = reasoning\<rparr>))"

definition ModelRequest_new ::
  "ModelMessage list \<Rightarrow> ToolSpec list \<Rightarrow> ModelLimits \<Rightarrow> ReasoningPreference \<Rightarrow>
     (ModelRequest, ModelValueError) result" where
  "ModelRequest_new messages tools limits reasoning =
     (if list_ex (\<lambda>(a, b). spec_name b \<le> spec_name a) (zip tools (tl tools)) then Err MV_InvalidTools
      else ModelRequest_with_validated_tools messages tools limits reasoning)"

definition ModelRequest_deserialize :: "ModelRequest \<Rightarrow> (ModelRequest, ModelValueError) result" where
  "ModelRequest_deserialize wire =
     ModelRequest_new (mq_messages wire) (mq_tools wire) (mq_limits wire) (mq_reasoning wire)"

subsection \<open>Responses and events\<close>

datatype ModelFinishReason =
  FR_Stop | FR_ToolCalls | FR_Length | FR_ContentFiltered | FR_Refused | FR_Unknown

record ModelResponse =
  mr_parts :: "AssistantPart list"
  mr_finish_reason :: ModelFinishReason
  mr_usage :: "Usage option"
  mr_provider_replay :: "ProviderReplay option"

definition ModelResponse_new_with_provider_replay ::
  "AssistantPart list \<Rightarrow> ModelFinishReason \<Rightarrow> Usage option \<Rightarrow> ProviderReplay option \<Rightarrow>
     (ModelResponse, ModelValueError) result" where
  "ModelResponse_new_with_provider_replay parts reason usage replay =
     (let parts' = normalize_parts parts in
      if parts' = [] \<and> replay = None then Err MV_EmptyResponseParts
      else and_then (validate_tool_call_order parts') (\<lambda>_.
        Ok \<lparr>mr_parts = parts', mr_finish_reason = reason, mr_usage = usage,
            mr_provider_replay = replay\<rparr>))"

definition ModelResponse_new ::
  "AssistantPart list \<Rightarrow> ModelFinishReason \<Rightarrow> Usage option \<Rightarrow> (ModelResponse, ModelValueError) result" where
  "ModelResponse_new parts reason usage = ModelResponse_new_with_provider_replay parts reason usage None"

definition ModelResponse_with_provider_replay :: "ModelResponse \<Rightarrow> ProviderReplay \<Rightarrow> ModelResponse" where
  "ModelResponse_with_provider_replay r replay = r\<lparr>mr_provider_replay := Some replay\<rparr>"

definition ModelResponse_deserialize :: "ModelResponse \<Rightarrow> (ModelResponse, ModelValueError) result" where
  "ModelResponse_deserialize wire =
     ModelResponse_new_with_provider_replay (mr_parts wire) (mr_finish_reason wire)
       (mr_usage wire) (mr_provider_replay wire)"

definition MAX_MODEL_EVENT_TEXT_BYTES :: nat where "MAX_MODEL_EVENT_TEXT_BYTES = 64 * 1024"

datatype ModelEvent =
    EV_TextDelta BoundedText
  | EV_ReasoningDelta BoundedText
  | EV_ToolCallStart ToolCallId ToolName
  | EV_ToolCallArgumentsDelta ToolCallId BoundedText
  | EV_ToolCallEnd ToolCallId
  | EV_Usage Usage
  | EV_ProviderReplay ProviderReplay
  | EV_Finish ModelFinishReason

definition checked_event_text :: "rstr \<Rightarrow> (BoundedText, ModelValueError) result" where
  "checked_event_text value =
     map_err (\<lambda>_. MV_InvalidEvent) (BoundedText_new_with_max_bytes value MAX_MODEL_EVENT_TEXT_BYTES)"

definition ModelEvent_text_delta :: "rstr \<Rightarrow> (ModelEvent, ModelValueError) result" where
  "ModelEvent_text_delta delta = map_ok EV_TextDelta (checked_event_text delta)"

definition ModelEvent_reasoning_delta :: "rstr \<Rightarrow> (ModelEvent, ModelValueError) result" where
  "ModelEvent_reasoning_delta delta = map_ok EV_ReasoningDelta (checked_event_text delta)"

definition ModelEvent_tool_call_arguments_delta ::
  "ToolCallId \<Rightarrow> rstr \<Rightarrow> (ModelEvent, ModelValueError) result" where
  "ModelEvent_tool_call_arguments_delta call_id delta =
     map_ok (EV_ToolCallArgumentsDelta call_id) (checked_event_text delta)"

definition event_text :: "ModelEvent \<Rightarrow> BoundedText option" where
  "event_text e =
     (case e of
        EV_TextDelta d \<Rightarrow> Some d | EV_ReasoningDelta d \<Rightarrow> Some d
      | EV_ToolCallArgumentsDelta _ d \<Rightarrow> Some d | _ \<Rightarrow> None)"

definition ModelEvent_validate :: "ModelEvent \<Rightarrow> (unit, ModelValueError) result" where
  "ModelEvent_validate e =
     (case event_text e of
        Some d \<Rightarrow> if bt_byte_len d \<le> MAX_MODEL_EVENT_TEXT_BYTES then Ok () else Err MV_InvalidEvent
      | None \<Rightarrow> Ok ())"

subsection \<open>The exchange grammar\<close>

definition message_parts :: "ModelMessage \<Rightarrow> AssistantPart list option" where
  "message_parts m =
     (case m of MM_Assistant ps \<Rightarrow> Some ps | MM_AssistantWithReplay ps _ \<Rightarrow> Some ps | _ \<Rightarrow> None)"

definition tool_result_id :: "ModelMessage \<Rightarrow> ToolCallId option" where
  "tool_result_id m = (case m of MM_Tool i _ _ \<Rightarrow> Some i | _ \<Rightarrow> None)"

text \<open>\<open>answers rs ids\<close>: the messages are tool results, one for every id and no other.\<close>

definition answers :: "ModelMessage list \<Rightarrow> ToolCallId set \<Rightarrow> bool" where
  "answers rs ids \<longleftrightarrow>
     list_all (\<lambda>m. tool_result_id m \<noteq> None) rs
     \<and> distinct (map tool_result_id rs) \<and> set (map tool_result_id rs) = Some ` ids"

inductive exchange :: "ModelMessage list \<Rightarrow> bool" where
  empty: "exchange []"
| plain: "message_parts m = None \<Longrightarrow> tool_result_id m = None \<Longrightarrow> ModelMessage_validate m = Ok ()
    \<Longrightarrow> exchange ms \<Longrightarrow> exchange (m # ms)"
| turn: "message_parts m = Some parts \<Longrightarrow> ModelMessage_validate m = Ok ()
    \<Longrightarrow> answers rs (part_call_ids parts) \<Longrightarrow> exchange ms \<Longrightarrow> exchange (m # rs @ ms)"

inductive_cases exchange_ConsE: "exchange (m # ms)"

lemma answers_Nil [simp]: "answers [] ids \<longleftrightarrow> ids = {}"
  by (auto simp: answers_def)

lemma answers_empty [simp]: "answers rs {} \<longleftrightarrow> rs = []"
  by (auto simp: answers_def)

lemma insert_image_Some:
  "insert (Some i) A = Some ` ids \<and> Some i \<notin> A \<longleftrightarrow> i \<in> ids \<and> A = Some ` (ids - {i})"
proof
  assume "insert (Some i) A = Some ` ids \<and> Some i \<notin> A"
  then have "i \<in> ids" "A = Some ` ids - {Some i}" by blast+
  then show "i \<in> ids \<and> A = Some ` (ids - {i})" by (simp add: image_set_diff)
qed auto

lemma answers_Cons:
  "answers (m # rs) ids \<longleftrightarrow>
     (\<exists>i. tool_result_id m = Some i \<and> i \<in> ids \<and> answers rs (ids - {i}))"
proof (cases "tool_result_id m")
  case (Some i)
  have "answers (m # rs) ids \<longleftrightarrow>
      list_all (\<lambda>m. tool_result_id m \<noteq> None) rs \<and> distinct (map tool_result_id rs)
      \<and> (insert (Some i) (set (map tool_result_id rs)) = Some ` ids
         \<and> Some i \<notin> set (map tool_result_id rs))"
    using Some by (simp add: answers_def) blast
  then show ?thesis unfolding insert_image_Some using Some by (simp add: answers_def) blast
qed (simp add: answers_def)

lemma exchange_plain_Cons:
  assumes "message_parts m = None" "tool_result_id m = None"
  shows "exchange (m # ms) \<longleftrightarrow> ModelMessage_validate m = Ok () \<and> exchange ms"
  using assms by (auto elim: exchange_ConsE intro: exchange.plain)

lemma exchange_tool_Cons: "tool_result_id m = Some i \<Longrightarrow> \<not> exchange (m # ms)"
  by (auto elim!: exchange_ConsE simp: tool_result_id_def message_parts_def split: ModelMessage.splits)

lemma exchange_turn_Cons:
  assumes "message_parts m = Some parts"
  shows "exchange (m # ms) \<longleftrightarrow> ModelMessage_validate m = Ok ()
     \<and> (\<exists>rs rest. ms = rs @ rest \<and> answers rs (part_call_ids parts) \<and> exchange rest)"
proof
  assume "exchange (m # ms)"
  then show "ModelMessage_validate m = Ok ()
     \<and> (\<exists>rs rest. ms = rs @ rest \<and> answers rs (part_call_ids parts) \<and> exchange rest)"
    by (rule exchange_ConsE) (use assms in auto)
qed (use assms in \<open>blast intro: exchange.turn\<close>)

lemma exchange_loop_cases:
  "exchange_loop (m # ms) pending completed =
     (case tool_result_id m of
        Some i \<Rightarrow>
          if i \<in> completed then Err MV_DuplicateToolResult
          else if i \<notin> pending then Err MV_OrphanToolResult
          else exchange_loop ms (pending - {i}) (insert i completed)
      | None \<Rightarrow>
          if pending \<noteq> {} then Err MV_IncompleteToolExchange
          else (case ModelMessage_validate m of
                  Err e \<Rightarrow> Err e
                | Ok _ \<Rightarrow> exchange_loop ms
                    (case message_parts m of Some ps \<Rightarrow> part_call_ids ps | None \<Rightarrow> {}) {}))"
  by (cases m) (auto simp: tool_result_id_def message_parts_def split: result.splits)

lemma exchange_loop_Ok:
  "pending \<inter> completed = {} \<Longrightarrow>
     exchange_loop ms pending completed = Ok () \<longleftrightarrow>
     (\<exists>rs rest. ms = rs @ rest \<and> answers rs pending \<and> exchange rest)"
proof (induction ms arbitrary: pending completed)
  case Nil
  then show ?case by (auto intro: exchange.empty)
next
  case (Cons m ms)
  show ?case
  proof (cases "tool_result_id m")
    case (Some i)
    have "(pending - {i}) \<inter> insert i completed = {}" using Cons.prems by auto
    note IH = Cons.IH [OF this]
    have "(\<exists>rs rest. m # ms = rs @ rest \<and> answers rs pending \<and> exchange rest) \<longleftrightarrow>
        (\<exists>rs rest. ms = rs @ rest \<and> answers (m # rs) pending \<and> exchange rest)"
      using exchange_tool_Cons [OF Some] unfolding Cons_eq_append_conv by blast
    also have "\<dots> \<longleftrightarrow> i \<in> pending
        \<and> (\<exists>rs rest. ms = rs @ rest \<and> answers rs (pending - {i}) \<and> exchange rest)"
      using Some unfolding answers_Cons by auto
    finally show ?thesis using IH Some Cons.prems by (auto simp: exchange_loop_cases)
  next
    case None
    have split: "(\<exists>rs rest. m # ms = rs @ rest \<and> answers rs pending \<and> exchange rest) \<longleftrightarrow>
        pending = {} \<and> exchange (m # ms)"
      using None by (auto simp: Cons_eq_append_conv answers_Cons)
    show ?thesis
    proof (cases "message_parts m")
      case (Some parts)
      with None Cons.IH [of "part_call_ids parts" "{}"] show ?thesis
        unfolding split exchange_turn_Cons [OF Some]
        by (auto simp: exchange_loop_cases split: result.splits)
    next
      case parts: None
      have "(\<exists>rs rest. ms = rs @ rest \<and> rs = [] \<and> exchange rest) \<longleftrightarrow> exchange ms" by auto
      with None parts Cons.IH [of "{}" "{}"] show ?thesis
        unfolding split exchange_plain_Cons [OF parts None]
        by (auto simp: exchange_loop_cases split: result.splits)
    qed
  qed
qed

lemma validate_tool_exchange_Ok: "validate_tool_exchange ms = Ok () \<longleftrightarrow> exchange ms"
  using exchange_loop_Ok [of "{}" "{}" ms] by (auto simp: validate_tool_exchange_def)

lemma exchange_append: "exchange ms \<Longrightarrow> exchange ns \<Longrightarrow> exchange (ms @ ns)"
  by (induction rule: exchange.induct) (auto intro: exchange.intros)

lemma exchange_validates: "exchange ms \<Longrightarrow> m \<in> set ms \<Longrightarrow> ModelMessage_validate m = Ok ()"
proof (induction rule: exchange.induct)
  case (turn a parts rs ms)
  have "ModelMessage_validate r = Ok ()" if "r \<in> set rs" for r
    using turn.hyps(3) that
    by (auto simp: answers_def list_all_iff tool_result_id_def ModelMessage_validate_def
        split: ModelMessage.splits)
  with turn show ?case by auto
qed auto

lemma strictly_increasing_windows:
  fixes f :: "'a \<Rightarrow> 'b::linorder"
  shows "\<not> list_ex (\<lambda>(a, b). f b \<le> f a) (zip xs (tl xs)) \<longleftrightarrow> sorted_wrt (<) (map f xs)"
proof (induction xs)
  case (Cons x xs)
  show ?case
  proof (cases xs)
    case (Cons y ys)
    with Cons.IH show ?thesis by (auto simp: not_le intro: less_trans)
  qed simp
qed simp

subsection \<open>Lemmas on responses\<close>

lemma ModelResponse_new_Ok:
  "ModelResponse_new_with_provider_replay parts reason usage replay = Ok r \<longleftrightarrow>
     (parts \<noteq> [] \<or> replay \<noteq> None) \<and> validate_tool_call_order (normalize_parts parts) = Ok ()
     \<and> r = \<lparr>mr_parts = normalize_parts parts, mr_finish_reason = reason, mr_usage = usage,
            mr_provider_replay = replay\<rparr>"
  by (auto simp: ModelResponse_new_with_provider_replay_def Let_def and_then_eq_Ok normalize_parts_def)

definition response_ok :: "ModelResponse \<Rightarrow> bool" where
  "response_ok r \<longleftrightarrow>
     (mr_parts r \<noteq> [] \<or> mr_provider_replay r \<noteq> None) \<and> validate_tool_call_order (mr_parts r) = Ok ()"

lemma response_new_ok:
  "ModelResponse_new_with_provider_replay parts reason usage replay = Ok r \<Longrightarrow> response_ok r"
  by (auto simp: ModelResponse_new_Ok response_ok_def normalize_parts_def)

interpretation response_wire: wire_format "\<lambda>r. r" ModelResponse_deserialize response_ok
proof unfold_locales
  fix r
  assume "response_ok r"
  then show "ModelResponse_deserialize r = Ok r"
    by (cases r) (auto simp: response_ok_def ModelResponse_deserialize_def ModelResponse_new_Ok
        validate_tool_call_order_Ok normalize_parts_id)
next
  show "ModelResponse_deserialize w = Ok r \<Longrightarrow> response_ok r" for w r
    unfolding ModelResponse_deserialize_def by (rule response_new_ok)
qed

lemma response_message_ok:
  assumes "response_ok r"
  shows "\<exists>m. ModelMessage_assistant_with_provider_replay (mr_parts r) (mr_provider_replay r) = Ok m
      \<and> message_parts m = Some (mr_parts r)"
  using assms
  by (cases "mr_provider_replay r")
    (auto simp: response_ok_def assistant_Ok message_parts_def ModelMessage_validate_def
      normalize_parts_id validate_tool_call_order_Ok split: option.splits)

subsection \<open>Properties\<close>

text \<open>
  C33: the one-pass check with its pending and completed sets accepts a message list exactly
  when it is an exchange: every message is valid, and every assistant message is directly
  followed by one tool result for each of its calls, in any order, with no result missing,
  repeated or unrelated.
\<close>
theorem validate_tool_exchange_spec: "validate_tool_exchange ms = Ok () \<longleftrightarrow> exchange ms"
  by (rule validate_tool_exchange_Ok)

text \<open>
  A request is accepted exactly when its messages are a non-empty exchange and its tools
  are in strictly increasing name order (so no name occurs twice), and it carries its inputs
  unchanged.
\<close>
lemma model_request_new_spec:
  "ModelRequest_new ms tools limits reasoning = Ok q \<longleftrightarrow>
     ms \<noteq> [] \<and> exchange ms \<and> sorted_wrt (<) (map spec_name tools)
     \<and> q = \<lparr>mq_messages = ms, mq_tools = tools, mq_limits = limits, mq_reasoning = reasoning\<rparr>"
  using strictly_increasing_windows [of spec_name tools]
  by (auto simp: ModelRequest_new_def ModelRequest_with_validated_tools_def and_then_eq_Ok
      validate_tool_exchange_Ok split: if_splits)

end
