(* ===== verification/Limits.thy ===== *)
theory Limits
  imports Value_Json
begin

text \<open>
  The per-item safety ceilings of \<^verbatim>\<open>src/limits.rs\<close>: \<open>LoopLimits\<close>, its default and its
  validation.  Byte and count budgets are \<open>usize\<close>, here natural numbers.
\<close>

definition MAX_TOOL_CALLS_PER_RESPONSE :: nat where "MAX_TOOL_CALLS_PER_RESPONSE = 64"
definition MAX_TOOL_NAME_BYTES :: nat where "MAX_TOOL_NAME_BYTES = 64"

record LoopLimits =
  max_user_input_bytes :: nat
  max_model_text_bytes :: nat
  max_model_reasoning_bytes :: nat
  max_tool_calls_per_response :: nat
  max_tool_name_bytes :: nat
  max_tool_schema_bytes :: nat
  max_tool_arguments_bytes :: nat
  max_tool_output_bytes :: nat

definition LoopLimits_default :: LoopLimits where
  "LoopLimits_default =
     \<lparr>max_user_input_bytes = MAX_TEXT_BYTES,
      max_model_text_bytes = MAX_TEXT_BYTES,
      max_model_reasoning_bytes = MAX_TEXT_BYTES,
      max_tool_calls_per_response = MAX_TOOL_CALLS_PER_RESPONSE,
      max_tool_name_bytes = MAX_TOOL_NAME_BYTES,
      max_tool_schema_bytes = MAX_JSON_BYTES,
      max_tool_arguments_bytes = MAX_JSON_BYTES,
      max_tool_output_bytes = MAX_TEXT_BYTES\<rparr>"

datatype LoopLimitsError = LL_InvalidBounds

definition LoopLimits_validate :: "LoopLimits \<Rightarrow> (unit, LoopLimitsError) result" where
  "LoopLimits_validate l =
     (if max_user_input_bytes l = 0 \<or> MAX_TEXT_BYTES < max_user_input_bytes l
       \<or> max_model_text_bytes l = 0 \<or> MAX_TEXT_BYTES < max_model_text_bytes l
       \<or> max_model_reasoning_bytes l = 0 \<or> MAX_TEXT_BYTES < max_model_reasoning_bytes l
       \<or> max_tool_calls_per_response l = 0
       \<or> MAX_TOOL_CALLS_PER_RESPONSE < max_tool_calls_per_response l
       \<or> max_tool_name_bytes l = 0 \<or> MAX_TOOL_NAME_BYTES < max_tool_name_bytes l
       \<or> max_tool_schema_bytes l = 0 \<or> MAX_JSON_BYTES < max_tool_schema_bytes l
       \<or> max_tool_arguments_bytes l = 0 \<or> MAX_JSON_BYTES < max_tool_arguments_bytes l
       \<or> max_tool_output_bytes l = 0 \<or> MAX_TEXT_BYTES < max_tool_output_bytes l
      then Err LL_InvalidBounds else Ok ())"

definition limits_ok :: "LoopLimits \<Rightarrow> bool" where
  "limits_ok l \<longleftrightarrow> is_ok (LoopLimits_validate l)"

lemma limits_ok_bounds:
  assumes "limits_ok l"
  shows "0 < max_model_text_bytes l" "max_model_text_bytes l \<le> MAX_TEXT_BYTES"
    and "0 < max_model_reasoning_bytes l" "max_model_reasoning_bytes l \<le> MAX_TEXT_BYTES"
    and "0 < max_tool_calls_per_response l"
      "max_tool_calls_per_response l \<le> MAX_TOOL_CALLS_PER_RESPONSE"
    and "0 < max_tool_arguments_bytes l" "max_tool_arguments_bytes l \<le> MAX_JSON_BYTES"
    and "0 < max_tool_output_bytes l" "max_tool_output_bytes l \<le> MAX_TEXT_BYTES"
    and "0 < max_user_input_bytes l" "max_user_input_bytes l \<le> MAX_TEXT_BYTES"
  using assms by (simp_all add: limits_ok_def LoopLimits_validate_def split: if_splits)

lemma limits_default_ok: "limits_ok LoopLimits_default"
  by (simp add: limits_ok_def LoopLimits_validate_def LoopLimits_default_def MAX_TEXT_BYTES_def
      MAX_JSON_BYTES_def MAX_TOOL_CALLS_PER_RESPONSE_def MAX_TOOL_NAME_BYTES_def)

end
