(* ===== verification/History.thy ===== *)
theory History
  imports Request Tool_Interaction Limits
begin

text \<open>
  History, execution configuration and the default prompt: \<^verbatim>\<open>src/history.rs\<close>,
  \<^verbatim>\<open>src/execution.rs\<close> and \<^verbatim>\<open>src/prompt.rs\<close>.  The working history of a loop only grows at its
  end; the default prompt projects it to messages in order, and \<open>default_prompt_exchange\<close> says
  for which histories the projection is an exchange a request accepts.

  Models, policies and prompt providers are host code, type parameters here.
\<close>

subsection \<open>User input\<close>

datatype UserInput = UI_Text (ui_text: BoundedText)

datatype UserInputError = UI_InvalidText

definition UserInput_text :: "rstr \<Rightarrow> (UserInput, UserInputError) result" where
  "UserInput_text value =
     and_then (map_err (\<lambda>_. UI_InvalidText) (BoundedText_new value)) (\<lambda>b.
       if bt_is_empty b then Err UI_InvalidText else Ok (UI_Text b))"

definition UserInput_as_text :: "UserInput \<Rightarrow> rstr" where
  "UserInput_as_text u = (case u of UI_Text b \<Rightarrow> as_str b)"

subsection \<open>History\<close>

datatype UserMessageKind = UK_Prompt | UK_Steering

record UserHistory =
  uh_loop_id :: LoopId
  uh_kind :: UserMessageKind
  uh_input :: UserInput

record AssistantHistory =
  ah_loop_id :: LoopId
  ah_request_index :: u32
  ah_model :: ModelRef
  ah_reasoning :: ReasoningPreference
  ah_content :: "AssistantPart list"
  ah_provider_replay :: "ProviderReplay option"
  ah_finish_reason :: ModelFinishReason
  ah_usage :: Usage

record ToolResultHistory =
  th_loop_id :: LoopId
  th_request_index :: u32
  th_call_id :: ToolCallId
  th_tool_name :: ToolName
  th_outcome :: ToolResultOutcome
  th_output :: ToolOutput

record SummaryHistory =
  sh_content :: BoundedText

datatype HistoryItem =
    HI_User UserHistory
  | HI_Assistant AssistantHistory
  | HI_ToolResult ToolResultHistory
  | HI_Summary SummaryHistory

record HistoryView =
  hv_base :: "HistoryItem list"
  hv_appended :: "HistoryItem list"

definition HistoryView_len :: "HistoryView \<Rightarrow> nat" where
  "HistoryView_len v = length (hv_base v) + length (hv_appended v)"

definition HistoryView_is_empty :: "HistoryView \<Rightarrow> bool" where
  "HistoryView_is_empty v \<longleftrightarrow> hv_base v = [] \<and> hv_appended v = []"

definition HistoryView_iter :: "HistoryView \<Rightarrow> HistoryItem list" where
  "HistoryView_iter v = hv_base v @ hv_appended v"

record WorkingHistory =
  wh_base :: "HistoryItem list"
  wh_appended :: "HistoryItem list"

definition WorkingHistory_new :: "HistoryItem list \<Rightarrow> WorkingHistory" where
  "WorkingHistory_new base = \<lparr>wh_base = base, wh_appended = []\<rparr>"

definition WorkingHistory_view :: "WorkingHistory \<Rightarrow> HistoryView" where
  "WorkingHistory_view w = \<lparr>hv_base = wh_base w, hv_appended = wh_appended w\<rparr>"

definition append_user :: "UserHistory \<Rightarrow> WorkingHistory \<Rightarrow> WorkingHistory" where
  "append_user item w = w\<lparr>wh_appended := wh_appended w @ [HI_User item]\<rparr>"

definition append_assistant :: "AssistantHistory \<Rightarrow> WorkingHistory \<Rightarrow> WorkingHistory" where
  "append_assistant item w = w\<lparr>wh_appended := wh_appended w @ [HI_Assistant item]\<rparr>"

definition append_tool_result :: "ToolResultHistory \<Rightarrow> WorkingHistory \<Rightarrow> WorkingHistory" where
  "append_tool_result item w = w\<lparr>wh_appended := wh_appended w @ [HI_ToolResult item]\<rparr>"

definition into_appended :: "WorkingHistory \<Rightarrow> HistoryItem list" where
  "into_appended w = wh_appended w"

lemmas history_defs = WorkingHistory_new_def WorkingHistory_view_def append_user_def
  append_assistant_def append_tool_result_def into_appended_def HistoryView_iter_def

text \<open>Size estimate; \<open>None\<close> is the panic of \<open>json_bytes\<close> when the serialiser fails.\<close>

definition estimate_part_bytes :: "json serializer \<Rightarrow> AssistantPart \<Rightarrow> nat option" where
  "estimate_part_bytes ser part =
     (case part of
        AP_Text t \<Rightarrow> Some (str_len t)
      | AP_Reasoning r \<Rightarrow>
          Some (usize_saturating_add (usize_saturating_add (usize_saturating_add
            (case rc_text r of None \<Rightarrow> 0 | Some t \<Rightarrow> str_len t)
            (case rc_summary r of None \<Rightarrow> 0 | Some t \<Rightarrow> str_len t))
            (case rc_encrypted r of None \<Rightarrow> 0 | Some t \<Rightarrow> str_len t))
            (case rc_signature r of None \<Rightarrow> 0 | Some t \<Rightarrow> str_len t))
      | AP_ToolCall c \<Rightarrow>
          map_option (\<lambda>n. str_len (tname_str (tc_name c)) + n) (json_bytes ser (tc_arguments c)))"

definition estimate_item_bytes :: "json serializer \<Rightarrow> HistoryItem \<Rightarrow> nat option" where
  "estimate_item_bytes ser item =
     (case item of
        HI_User u \<Rightarrow> Some (str_len (UserInput_as_text (uh_input u)))
      | HI_Assistant a \<Rightarrow>
          map_option (\<lambda>ns. usize_saturating_add (foldl usize_saturating_add 0 ns)
              (case ah_provider_replay a of None \<Rightarrow> 0 | Some r \<Rightarrow> replay_bytes r))
            (those (map (estimate_part_bytes ser) (ah_content a)))
      | HI_ToolResult r \<Rightarrow>
          Some (str_len (tci_str (th_call_id r)) + str_len (tname_str (th_tool_name r))
            + str_len (as_str (out_content (th_output r))))
      | HI_Summary s \<Rightarrow> Some (str_len (as_str (sh_content s))))"

definition estimate_history_bytes :: "json serializer \<Rightarrow> HistoryItem list \<Rightarrow> nat option" where
  "estimate_history_bytes ser items =
     map_option (foldl usize_saturating_add 0) (those (map (estimate_item_bytes ser) items))"

subsection \<open>Execution configuration\<close>

datatype ConfigRevision = ConfigRevision (as_u64: u64)

definition ConfigRevision_INITIAL :: ConfigRevision where
  "ConfigRevision_INITIAL = ConfigRevision 0"

definition ConfigRevision_next :: "ConfigRevision \<Rightarrow> ConfigRevision" where
  "ConfigRevision_next r = ConfigRevision (saturating_add (as_u64 r) 1)"

datatype ExecutionConfigError =
    EC_ModelDescriptorPanicked | EC_InvalidDescriptor | EC_UnsupportedReasoning
  | EC_ToolsUnsupported | EC_InvalidTools

record ('m, 't, 'p, 'q) ExecutionConfig =
  ec_model :: 'm
  ec_descriptor :: ModelDescriptor
  ec_reasoning :: ReasoningPreference
  ec_tools :: "'t ToolSet"
  ec_policy :: "'p option"
  ec_prompt :: 'q

definition ExecutionConfig_new ::
  "('m \<Rightarrow> ModelDescriptor caught) \<Rightarrow> 'm \<Rightarrow> ReasoningPreference \<Rightarrow> 't ToolSet \<Rightarrow> 'p option \<Rightarrow> 'q \<Rightarrow>
     (('m, 't, 'p, 'q) ExecutionConfig, ExecutionConfigError) result" where
  "ExecutionConfig_new descriptor_of model reasoning tools policy prompt =
     (case descriptor_of model of
        Unwound \<Rightarrow> Err EC_ModelDescriptorPanicked
      | Completed descriptor \<Rightarrow>
          and_then (map_err (\<lambda>_. EC_InvalidDescriptor) (ModelDescriptor_validate descriptor)) (\<lambda>_.
            if \<not> supports_reasoning descriptor reasoning then Err EC_UnsupportedReasoning
            else if length (ts_specs tools) \<noteq> 0 \<and> \<not> md_supports_tools descriptor
            then Err EC_ToolsUnsupported
            else Ok \<lparr>ec_model = model, ec_descriptor = descriptor, ec_reasoning = reasoning,
                     ec_tools = tools, ec_policy = policy, ec_prompt = prompt\<rparr>))"

text \<open>The loop over the frozen specifications; the outer option is the panic of \<open>json_bytes\<close>.\<close>

fun specs_within ::
  "json serializer \<Rightarrow> LoopLimits \<Rightarrow> ToolSpec list \<Rightarrow> (unit, ExecutionConfigError) result option" where
  "specs_within ser limits [] = Some (Ok ())"
| "specs_within ser limits (spec # specs) =
     (case ToolSpec_validate_for_bindings ser spec (max_tool_name_bytes limits)
             (max_tool_schema_bytes limits) of
        None \<Rightarrow> None
      | Some (Err _) \<Rightarrow> Some (Err EC_InvalidTools)
      | Some (Ok _) \<Rightarrow> specs_within ser limits specs)"

definition validate_against_limits ::
  "json serializer \<Rightarrow> ('m, 't, 'p, 'q) ExecutionConfig \<Rightarrow> LoopLimits \<Rightarrow>
     (unit, ExecutionConfigError) result option" where
  "validate_against_limits ser config limits = specs_within ser limits (ts_specs (ec_tools config))"

definition config_ok :: "('m, 't, 'p, 'q) ExecutionConfig \<Rightarrow> bool" where
  "config_ok c \<longleftrightarrow>
     md_context_window (ec_descriptor c) \<noteq> 0
     \<and> ec_reasoning c \<in> md_supported_reasoning (ec_descriptor c)
     \<and> (ts_specs (ec_tools c) \<noteq> [] \<longrightarrow> md_supports_tools (ec_descriptor c))"

subsection \<open>Default prompt\<close>

datatype PromptError = PE_InvalidHistory | PE_Cancelled | PE_EmptyPrompt

definition SUMMARY_PREFIX :: rstr where
  "SUMMARY_PREFIX = lit ''Conversation summary:'' @ [LF]"

text \<open>
  \<open>is_char_boundary\<close> and slicing at a byte offset: an offset is a boundary when some prefix of
  the characters has that many bytes, and the slice is that prefix.
\<close>

fun char_prefix :: "rstr \<Rightarrow> nat \<Rightarrow> rstr option" where
  "char_prefix s 0 = Some []"
| "char_prefix [] (Suc n) = None"
| "char_prefix (c # s) (Suc n) =
     (if utf8_len c \<le> Suc n then map_option ((#) c) (char_prefix s (Suc n - utf8_len c)) else None)"

definition is_char_boundary :: "rstr \<Rightarrow> nat \<Rightarrow> bool" where
  "is_char_boundary s n \<longleftrightarrow> char_prefix s n \<noteq> None"

text \<open>The \<open>while\<close> loop that moves the end back to a boundary.\<close>

fun boundary_below :: "rstr \<Rightarrow> nat \<Rightarrow> nat" where
  "boundary_below s 0 = 0"
| "boundary_below s (Suc n) = (if is_char_boundary s (Suc n) then Suc n else boundary_below s n)"

definition summary_end :: "rstr \<Rightarrow> nat" where
  "summary_end content =
     (if MAX_MODEL_MESSAGE_TEXT_BYTES < str_len SUMMARY_PREFIX + str_len content
      then boundary_below content (MAX_MODEL_MESSAGE_TEXT_BYTES - str_len SUMMARY_PREFIX)
      else str_len content)"

text \<open>\<open>None\<close> would be the panic of slicing inside a character.\<close>

definition summary_message :: "SummaryHistory \<Rightarrow> (ModelMessage, ModelValueError) result option" where
  "summary_message summary =
     (let content = as_str (sh_content summary) in
      map_option (\<lambda>cut. ModelMessage_system (SUMMARY_PREFIX @ cut))
        (char_prefix content (summary_end content)))"

definition assistant_message :: "AssistantHistory \<Rightarrow> (ModelMessage, ModelValueError) result" where
  "assistant_message a =
     ModelMessage_assistant_with_provider_replay (ah_content a) (ah_provider_replay a)"

definition project_item :: "HistoryItem \<Rightarrow> (ModelMessage, ModelValueError) result option" where
  "project_item item =
     (case item of
        HI_User u \<Rightarrow> Some (Ok (MM_User (UserInput_as_text (uh_input u))))
      | HI_Assistant a \<Rightarrow> Some (assistant_message a)
      | HI_ToolResult r \<Rightarrow>
          Some (ModelMessage_tool_with_outcome (th_call_id r) (th_output r) (th_outcome r))
      | HI_Summary s \<Rightarrow> summary_message s)"

fun project_items ::
  "HistoryItem list \<Rightarrow> ModelMessage list \<Rightarrow> (ModelMessage list, PromptError) result option" where
  "project_items [] messages = Some (Ok messages)"
| "project_items (item # items) messages =
     (case project_item item of
        None \<Rightarrow> None
      | Some (Err _) \<Rightarrow> Some (Err PE_InvalidHistory)
      | Some (Ok m) \<Rightarrow> project_items items (messages @ [m]))"

text \<open>
  \<open>prepare\<close>: the check of token and deadline happens when the future is built; \<open>now\<close> is the
  clock then.
\<close>

definition DefaultPromptProvider_prepare ::
  "BoundedText option \<Rightarrow> bool \<Rightarrow> instant \<Rightarrow> instant \<Rightarrow> HistoryView \<Rightarrow>
     (ModelMessage list, PromptError) result option" where
  "DefaultPromptProvider_prepare system_prompt cancelled deadline now history =
     (if cancelled \<or> deadline \<le> now then Some (Err PE_Cancelled)
      else
        (let messages = (case system_prompt of
                           Some s \<Rightarrow> if bt_is_empty s then [] else [MM_System (as_str s)]
                         | None \<Rightarrow> []) in
         case project_items (HistoryView_iter history) messages of
           None \<Rightarrow> None
         | Some (Err e) \<Rightarrow> Some (Err e)
         | Some (Ok ms) \<Rightarrow> Some (if ms = [] then Err PE_EmptyPrompt else Ok ms)))"

subsection \<open>Lemmas: size estimate\<close>

lemma foldl_saturating:
  "a \<le> USIZE_MAX \<Longrightarrow> foldl usize_saturating_add a ns = min (a + sum_list ns) USIZE_MAX"
  by (induction ns arbitrary: a) (auto simp: usize_saturating_add_def min_def)

text \<open>The estimate is the exact sum of the item sizes cut off at the largest \<open>usize\<close>.\<close>

lemma estimate_history_eq:
  "estimate_history_bytes ser items =
     map_option (\<lambda>ns. min (sum_list ns) USIZE_MAX) (those (map (estimate_item_bytes ser) items))"
  by (cases "those (map (estimate_item_bytes ser) items)")
    (simp_all add: estimate_history_bytes_def foldl_saturating)

subsection \<open>Lemmas: execution configuration\<close>

lemma ExecutionConfig_new_Ok:
  "ExecutionConfig_new descriptor_of model reasoning tools policy prompt = Ok c \<Longrightarrow>
     config_ok c \<and> ec_tools c = tools \<and> ec_reasoning c = reasoning
     \<and> descriptor_of model = Completed (ec_descriptor c)"
  by (auto simp: ExecutionConfig_new_def and_then_eq_Ok ModelDescriptor_validate_def config_ok_def
      supports_reasoning_def split: caught.splits if_splits)

lemma next_revision_mono: "as_u64 r \<le> as_u64 (ConfigRevision_next r)"
  by (simp add: ConfigRevision_next_def saturating_add_mono)

lemma next_revision_strict:
  assumes "as_u64 r \<noteq> - 1"
  shows "unat (as_u64 (ConfigRevision_next r)) = Suc (unat (as_u64 r))"
proof -
  have "unat (as_u64 r) < 2 ^ 64 - 1"
  proof (rule ccontr)
    assume "\<not> ?thesis"
    moreover have "unat (as_u64 r) < 2 ^ 64" using unsigned_less [of "as_u64 r"] by simp
    ultimately have "unat (as_u64 r) = unat (- 1 :: u64)" by (simp add: unat_max_word)
    then show False using assms by (simp add: word_unat_eq_iff)
  qed
  then show ?thesis by (simp add: ConfigRevision_next_def unat_saturating_add)
qed

subsection \<open>Lemmas: summary truncation\<close>

lemma char_prefix_Some:
  "char_prefix s n = Some t \<Longrightarrow> str_len t = n \<and> (\<exists>r. s = t @ r)"
  by (induction s n arbitrary: t rule: char_prefix.induct) (auto split: if_splits)

lemma char_prefix_append: "char_prefix (t @ r) (str_len t) = Some t"
proof (induction t)
  case (Cons c t)
  have "utf8_len c + str_len t = Suc (utf8_len c + str_len t - 1)" using utf8_len_pos [of c] by linarith
  then show ?case using Cons by (metis add_diff_cancel_left' append_Cons char_prefix.simps(3)
      le_add1 option.simps(9) str_len_simps(2))
qed simp

lemma boundary_below_spec:
  "boundary_below s n \<le> n \<and> is_char_boundary s (boundary_below s n)
   \<and> (\<forall>k. boundary_below s n < k \<longrightarrow> k \<le> n \<longrightarrow> \<not> is_char_boundary s k)"
proof (induction n)
  case 0
  then show ?case by (simp add: is_char_boundary_def)
next
  case (Suc n)
  then show ?case by (auto simp: le_Suc_eq)
qed

lemma summary_prefix_len: "str_len SUMMARY_PREFIX = 22"
  by (simp add: SUMMARY_PREFIX_def lit_def utf8_len_def)

lemma summary_end_boundary: "is_char_boundary content (summary_end content)"
  using boundary_below_spec [of content] char_prefix_append [of content "[]"]
  by (simp add: summary_end_def is_char_boundary_def)

lemma summary_prefix_allowed: "list_all allowed_char SUMMARY_PREFIX"
  by (simp add: SUMMARY_PREFIX_def lit_def text_defs)

lemma summary_message_Some:
  obtains cut rest where
    "as_str (sh_content s) = cut @ rest" "str_len cut = summary_end (as_str (sh_content s))"
    "summary_message s = Some (ModelMessage_system (SUMMARY_PREFIX @ cut))"
proof -
  obtain cut where "char_prefix (as_str (sh_content s)) (summary_end (as_str (sh_content s))) = Some cut"
    using summary_end_boundary [of "as_str (sh_content s)"] by (auto simp: is_char_boundary_def)
  with char_prefix_Some [OF this] that show thesis by (auto simp: summary_message_def Let_def)
qed

lemma summary_end_fits: "str_len SUMMARY_PREFIX + summary_end content \<le> MAX_MODEL_MESSAGE_TEXT_BYTES"
  using boundary_below_spec [of content "MAX_MODEL_MESSAGE_TEXT_BYTES - str_len SUMMARY_PREFIX"]
  by (auto simp: summary_end_def summary_prefix_len MAX_MODEL_MESSAGE_TEXT_BYTES_def)

lemma utf8_len_le_4: "utf8_len c \<le> 4"
  by (simp add: utf8_len_def)

lemma boundary_near:
  "n \<le> str_len s \<Longrightarrow> n < boundary_below s n + 4"
proof (induction s n rule: char_prefix.induct)
  case (3 c s n)
  show ?case
  proof (cases "utf8_len c \<le> Suc n")
    case True
    let ?m = "Suc n - utf8_len c"
    obtain t where t: "char_prefix s (boundary_below s ?m) = Some t"
      using boundary_below_spec [of s ?m] by (auto simp: is_char_boundary_def)
    from char_prefix_Some [OF t] have len: "str_len t = boundary_below s ?m" and "\<exists>r. s = t @ r" by auto
    then obtain r where "c # s = (c # t) @ r" by auto
    then have b: "is_char_boundary (c # s) (utf8_len c + boundary_below s ?m)"
      using char_prefix_append [of "c # t" r] len by (simp add: is_char_boundary_def)
    have le: "utf8_len c + boundary_below s ?m \<le> Suc n"
      using boundary_below_spec [of s ?m] True by linarith
    have "\<not> boundary_below (c # s) (Suc n) < utf8_len c + boundary_below s ?m"
      using boundary_below_spec [of "c # s" "Suc n"] b le by blast
    moreover have "?m < boundary_below s ?m + 4" using 3 True by simp
    ultimately show ?thesis using True by linarith
  next
    case False
    then show ?thesis using utf8_len_le_4 [of c] by linarith
  qed
qed auto

subsection \<open>Lemmas: projection\<close>

lemma project_item_total: "project_item item \<noteq> None"
  by (cases item) (auto simp: project_item_def intro: summary_message_Some)

lemma project_items_Ok:
  "project_items items ms = Some (Ok out) \<longleftrightarrow>
     (\<exists>ns. out = ms @ ns \<and> list_all2 (\<lambda>i m. project_item i = Some (Ok m)) items ns)"
proof (induction items arbitrary: ms)
  case (Cons i items)
  then show ?case
    by (auto simp: list_all2_Cons1 split: option.splits result.splits)
qed auto

lemma project_items_total: "project_items items ms \<noteq> None"
  using project_item_total
  by (induction items arbitrary: ms) (auto split: option.splits result.splits)

subsection \<open>Properties\<close>

text \<open>
  C40: projecting a summary never fails to slice: the message starts with the fixed prefix,
  continues with a prefix of the summary that ends between two characters, stays within the
  262144-byte ceiling, loses nothing when everything fits, and otherwise loses less than four
  bytes more than it must.
\<close>
theorem summary_message_spec:
  "\<exists>cut rest. as_str (sh_content s) = cut @ rest
     \<and> summary_message s = Some (ModelMessage_system (SUMMARY_PREFIX @ cut))
     \<and> str_len (SUMMARY_PREFIX @ cut) \<le> 262144
     \<and> (str_len (SUMMARY_PREFIX @ as_str (sh_content s)) \<le> 262144 \<longrightarrow> rest = [])
     \<and> (rest \<noteq> [] \<longrightarrow> 262144 < str_len (SUMMARY_PREFIX @ cut) + 4)"
proof -
  obtain cut rest where c: "as_str (sh_content s) = cut @ rest"
      "str_len cut = summary_end (as_str (sh_content s))"
      "summary_message s = Some (ModelMessage_system (SUMMARY_PREFIX @ cut))"
    by (rule summary_message_Some)
  let ?s = "as_str (sh_content s)" and ?m = "MAX_MODEL_MESSAGE_TEXT_BYTES - str_len SUMMARY_PREFIX"
  have full: "summary_end ?s = str_len ?s" if "str_len (SUMMARY_PREFIX @ ?s) \<le> 262144"
    using that by (simp add: summary_end_def MAX_MODEL_MESSAGE_TEXT_BYTES_def)
  then have fit: "str_len (SUMMARY_PREFIX @ ?s) \<le> 262144 \<Longrightarrow> rest = []" using c(1,2) by simp
  have near: "262144 < str_len (SUMMARY_PREFIX @ cut) + 4" if "rest \<noteq> []"
  proof -
    from that fit have over: "262144 < str_len SUMMARY_PREFIX + str_len ?s" by fastforce
    then have "?m \<le> str_len ?s" by (simp add: MAX_MODEL_MESSAGE_TEXT_BYTES_def)
    then have "?m < boundary_below ?s ?m + 4" by (rule boundary_near)
    with over c(2) show ?thesis
      by (simp add: summary_end_def MAX_MODEL_MESSAGE_TEXT_BYTES_def summary_prefix_len)
  qed
  have "str_len (SUMMARY_PREFIX @ cut) \<le> 262144"
    using summary_end_fits [of ?s] c(2) by (simp add: MAX_MODEL_MESSAGE_TEXT_BYTES_def)
  with c fit near show ?thesis by blast
qed

theorem summary_message_spec_witness:
  "\<exists>cut rest. lit ''goals'' = cut @ rest \<and> rest = []
     \<and> summary_message \<lparr>sh_content = BoundedText (lit ''goals'')\<rparr>
         = Some (ModelMessage_system (SUMMARY_PREFIX @ cut))"
proof -
  have "str_len (SUMMARY_PREFIX @ lit ''goals'') \<le> 262144"
    by (simp add: summary_prefix_len lit_def utf8_len_def)
  then show ?thesis
    using summary_message_spec [of "\<lparr>sh_content = BoundedText (lit ''goals'')\<rparr>"] by auto
qed

end
