(* ===== verification/Assembler.thy ===== *)
theory Assembler
  imports Request Limits
begin

text \<open>
  The stream assembler, \<^verbatim>\<open>src/model/driver/assembler.rs\<close>: it consumes the events of one model
  attempt and builds the response.  \<open>serde_json::from_str\<close> is the parameter \<open>parse\<close>.  Panics of
  the code (the two \<open>expect\<close> calls and indexing) are the value \<open>None\<close>; \<open>push_total\<close> and
  \<open>finish_total\<close> show that they cannot happen.

  \<open>push\<close> is written with one definition per arm of its \<open>match\<close>; each returns the assembler as
  the arm leaves it, on the error paths too.
\<close>

subsection \<open>Errors\<close>

definition malformed_diagnostic :: "rstr \<Rightarrow> DiagnosticSummary" where
  "malformed_diagnostic message =
     \<lparr>ds_code = DC_ModelMalformedResponse, ds_category = DCat_Model,
      ds_message = BoundedText message, ds_retryable = False\<rparr>"

definition assembler_error :: "ModelErrorKind \<Rightarrow> ModelError" where
  "assembler_error kind =
     ModelError_started kind (malformed_diagnostic
       (lit (if kind = ME_UnexpectedToolCall then ''unexpected tool call in model response''
             else ''invalid model provider response'')))"

text \<open>The two \<open>expect\<close> calls on static text succeed.\<close>

lemma assembler_diagnostic_static:
  "DiagnosticSummary_bounded_static DC_ModelMalformedResponse DCat_Model
     (lit ''unexpected tool call in model response'') False
     = Some (malformed_diagnostic (lit ''unexpected tool call in model response''))"
  "DiagnosticSummary_bounded_static DC_ModelMalformedResponse DCat_Model
     (lit ''invalid model provider response'') False
     = Some (malformed_diagnostic (lit ''invalid model provider response''))"
  by (subst bounded_static_Some;
      simp add: lit_def text_defs utf8_len_def MAX_TEXT_BYTES_def malformed_diagnostic_def)+

abbreviation "invalid_response \<equiv> assembler_error ME_InvalidProviderResponse"

definition observed_delivery :: "bool \<Rightarrow> DeliveryState" where
  "observed_delivery observed = (if observed then Started else Delivery_Unknown)"

definition generated_diagnostic :: "ModelErrorKind \<Rightarrow> DiagnosticSummary" where
  "generated_diagnostic kind =
     (let (code, msg) =
        (case kind of
           ME_Cancelled \<Rightarrow> (DC_RuntimeTerminated, ''model request cancelled'')
         | ME_Timeout \<Rightarrow> (DC_ModelTimeout, ''model request timed out'')
         | ME_Panicked \<Rightarrow> (DC_Internal, ''model driver panicked'')
         | ME_InvalidRequest \<Rightarrow> (DC_InvalidConfiguration, ''invalid model request'')
         | ME_InvalidProviderResponse \<Rightarrow> (DC_ModelMalformedResponse, ''invalid model provider response'')
         | ME_UnexpectedToolCall \<Rightarrow> (DC_ModelMalformedResponse, ''invalid model provider response'')
         | ME_IncompleteResponse \<Rightarrow> (DC_ModelMalformedResponse, ''invalid model provider response'')
         | ME_ProviderUnavailable \<Rightarrow> (DC_ModelUnavailable, ''model provider unavailable'')
         | ME_Unavailable \<Rightarrow> (DC_ModelUnavailable, ''model provider unavailable'')
         | _ \<Rightarrow> (DC_Internal, ''model operation failed''))
      in \<lparr>ds_code = code, ds_category = DCat_Model, ds_message = BoundedText (lit msg),
          ds_retryable = False\<rparr>)"

definition generated_error :: "ModelErrorKind \<Rightarrow> DeliveryState \<Rightarrow> ModelError" where
  "generated_error kind delivery =
     (case delivery of
        NotStarted \<Rightarrow> ModelError_permanent kind NotStarted (generated_diagnostic kind)
      | Started \<Rightarrow> ModelError_started kind (generated_diagnostic kind)
      | Delivery_Unknown \<Rightarrow> ModelError_unknown kind (generated_diagnostic kind))"

lemma generated_error_simps [simp]:
  "me_kind (generated_error k d) = k" "me_delivery (generated_error k d) = d"
  "me_retry_hint (generated_error k d) = Never" "model_error_ok (generated_error k d)"
  by (cases d; simp add: generated_error_def model_error_constructors
      model_error_ok_def is_retryable_def)+

lemma assembler_error_simps [simp]:
  "me_kind (assembler_error k) = k" "me_delivery (assembler_error k) = Started"
  "me_retry_hint (assembler_error k) = Never" "model_error_ok (assembler_error k)"
  by (simp_all add: assembler_error_def ModelError_started_def model_error_ok_def is_retryable_def)

subsection \<open>State\<close>

datatype PartSlot = PS_Text | PS_Reasoning | PS_Tool nat

record ToolAssembly =
  ta_id :: ToolCallId
  ta_name :: ToolName
  ta_arguments_text :: rstr
  ta_call :: "ToolCall option"
  ta_call_index :: u32

record Assembler =
  asm_request_tools :: "ToolSpec list"
  asm_limits :: LoopLimits
  asm_slots :: "PartSlot list"
  asm_text :: rstr
  asm_reasoning :: rstr
  asm_text_ended_with_cr :: bool
  asm_reasoning_ended_with_cr :: bool
  asm_tools :: "ToolAssembly list"
  asm_usage :: "Usage option"
  asm_provider_replay :: "ProviderReplay option"
  asm_finish_reason :: "ModelFinishReason option"
  asm_observed_event :: bool

datatype ModelDriverProgress = DP_TextDelta BoundedText | DP_ReasoningDelta BoundedText

type_synonym pushed = "(Assembler \<times> (ModelDriverProgress option, ModelError) result) option"

definition Assembler_new :: "ToolSpec list \<Rightarrow> LoopLimits \<Rightarrow> Assembler" where
  "Assembler_new tools limits =
     \<lparr>asm_request_tools = tools, asm_limits = limits, asm_slots = [], asm_text = [],
      asm_reasoning = [], asm_text_ended_with_cr = False, asm_reasoning_ended_with_cr = False,
      asm_tools = [], asm_usage = None, asm_provider_replay = None, asm_finish_reason = None,
      asm_observed_event = False\<rparr>"

subsection \<open>Pushing an event\<close>

text \<open>The normalised delta, \<open>None\<close> if the \<open>expect\<close> panicked, and the new carriage-return flag.\<close>

definition strip_lf :: "rstr \<Rightarrow> rstr" where
  "strip_lf s = (case s of c # cs \<Rightarrow> if c = LF then cs else s | [] \<Rightarrow> [])"

definition normalized_delta :: "BoundedText \<Rightarrow> bool \<Rightarrow> BoundedText option \<times> bool" where
  "normalized_delta delta ended_with_cr =
     (if bt_is_empty delta then (Some delta, ended_with_cr)
      else
        (let raw = as_str delta;
             text_in = (if ended_with_cr then strip_lf raw else raw);
             flag = (last raw = CR);
             fresh = (\<lambda>t. case BoundedText_new t of Ok b \<Rightarrow> Some b | Err _ \<Rightarrow> None) in
         (case normalize_model_text text_in of
            Borrowed t \<Rightarrow> if str_len t = str_len raw then Some delta else fresh t
          | Owned t \<Rightarrow> fresh t, flag)))"

definition append_bounded :: "rstr \<Rightarrow> rstr \<Rightarrow> nat \<Rightarrow> (rstr, ModelError) result" where
  "append_bounded target delta maximum =
     (if USIZE_MAX < str_len target + str_len delta then Err invalid_response
      else if maximum < str_len target + str_len delta then Err invalid_response
      else Ok (target @ delta))"

definition push_text :: "Assembler \<Rightarrow> BoundedText \<Rightarrow> pushed" where
  "push_text a delta =
     (case normalized_delta delta (asm_text_ended_with_cr a) of
        (None, _) \<Rightarrow> None
      | (Some d, flag) \<Rightarrow>
          (let a1 = a\<lparr>asm_text_ended_with_cr := flag\<rparr> in
           if bt_is_empty d then Some (a1, Ok None)
           else
             (let a2 = (if asm_text a = [] then a1\<lparr>asm_slots := asm_slots a1 @ [PS_Text]\<rparr> else a1) in
              case append_bounded (asm_text a) (as_str d) (max_model_text_bytes (asm_limits a)) of
                Err e \<Rightarrow> Some (a2, Err e)
              | Ok t \<Rightarrow> Some (a2\<lparr>asm_text := t\<rparr>, Ok (Some (DP_TextDelta d))))))"

definition push_reasoning :: "Assembler \<Rightarrow> BoundedText \<Rightarrow> pushed" where
  "push_reasoning a delta =
     (case normalized_delta delta (asm_reasoning_ended_with_cr a) of
        (None, _) \<Rightarrow> None
      | (Some d, flag) \<Rightarrow>
          (let a1 = a\<lparr>asm_reasoning_ended_with_cr := flag\<rparr> in
           if bt_is_empty d then Some (a1, Ok None)
           else
             (let a2 = (if asm_reasoning a = []
                        then a1\<lparr>asm_slots := asm_slots a1 @ [PS_Reasoning]\<rparr> else a1) in
              case append_bounded (asm_reasoning a) (as_str d)
                     (max_model_reasoning_bytes (asm_limits a)) of
                Err e \<Rightarrow> Some (a2, Err e)
              | Ok t \<Rightarrow> Some (a2\<lparr>asm_reasoning := t\<rparr>, Ok (Some (DP_ReasoningDelta d))))))"

definition push_tool_start :: "Assembler \<Rightarrow> ToolCallId \<Rightarrow> ToolName \<Rightarrow> pushed" where
  "push_tool_start a call_id name =
     (if \<not> list_ex (\<lambda>t. spec_name t = name) (asm_request_tools a)
      then Some (a, Err (assembler_error ME_UnexpectedToolCall))
      else if max_tool_calls_per_response (asm_limits a) \<le> length (asm_tools a)
        \<or> list_ex (\<lambda>t. ta_id t = call_id) (asm_tools a)
      then Some (a, Err invalid_response)
      else if 2 ^ 32 \<le> length (asm_tools a) then Some (a, Err invalid_response)
      else
        Some (a\<lparr>asm_tools := asm_tools a @
                   [\<lparr>ta_id = call_id, ta_name = name, ta_arguments_text = [], ta_call = None,
                     ta_call_index = of_nat (length (asm_tools a))\<rparr>],
                asm_slots := asm_slots a @ [PS_Tool (length (asm_tools a))]\<rparr>, Ok None))"

text \<open>\<open>tool_mut\<close>: the position of the first assembly with the id.\<close>

fun tool_mut :: "ToolAssembly list \<Rightarrow> ToolCallId \<Rightarrow> nat option" where
  "tool_mut [] call_id = None"
| "tool_mut (t # ts) call_id =
     (if ta_id t = call_id then Some 0 else map_option Suc (tool_mut ts call_id))"

definition push_tool_arguments :: "Assembler \<Rightarrow> ToolCallId \<Rightarrow> BoundedText \<Rightarrow> pushed" where
  "push_tool_arguments a call_id delta =
     (case tool_mut (asm_tools a) call_id of
        None \<Rightarrow> Some (a, Err invalid_response)
      | Some i \<Rightarrow>
          (let tool = asm_tools a ! i in
           if ta_call tool \<noteq> None then Some (a, Err invalid_response)
           else
             (case append_bounded (ta_arguments_text tool)
                     (cow_str (normalize_model_text (as_str delta))) MAX_JSON_BYTES of
                Err e \<Rightarrow> Some (a, Err e)
              | Ok t \<Rightarrow>
                  Some (a\<lparr>asm_tools := (asm_tools a)[i := tool\<lparr>ta_arguments_text := t\<rparr>]\<rparr>, Ok None))))"

definition push_tool_end ::
  "(rstr \<Rightarrow> json option) \<Rightarrow> json serializer \<Rightarrow> Assembler \<Rightarrow> ToolCallId \<Rightarrow> pushed" where
  "push_tool_end parse ser a call_id =
     (case tool_mut (asm_tools a) call_id of
        None \<Rightarrow> Some (a, Err invalid_response)
      | Some i \<Rightarrow>
          (let tool = asm_tools a ! i in
           if ta_call tool \<noteq> None \<or> ta_arguments_text tool = [] then Some (a, Err invalid_response)
           else
             (case parse (ta_arguments_text tool) of
                None \<Rightarrow> Some (a, Err invalid_response)
              | Some arguments \<Rightarrow>
                  (case ToolCall_new_with_max_bytes ser (ta_id tool) (ta_name tool) arguments
                          (ta_call_index tool) (max_tool_arguments_bytes (asm_limits a)) of
                     Err _ \<Rightarrow> Some (a, Err invalid_response)
                   | Ok call \<Rightarrow>
                       Some (a\<lparr>asm_tools := (asm_tools a)[i := tool\<lparr>ta_call := Some call\<rparr>]\<rparr>, Ok None)))))"

definition push ::
  "(rstr \<Rightarrow> json option) \<Rightarrow> json serializer \<Rightarrow> Assembler \<Rightarrow> ModelEvent \<Rightarrow> pushed" where
  "push parse ser a event =
     (if asm_finish_reason a \<noteq> None \<or> \<not> is_ok (ModelEvent_validate event)
      then Some (a, Err invalid_response)
      else case event of
        EV_TextDelta delta \<Rightarrow> push_text a delta
      | EV_ReasoningDelta delta \<Rightarrow> push_reasoning a delta
      | EV_ToolCallStart call_id name \<Rightarrow> push_tool_start a call_id name
      | EV_ToolCallArgumentsDelta call_id delta \<Rightarrow> push_tool_arguments a call_id delta
      | EV_ToolCallEnd call_id \<Rightarrow> push_tool_end parse ser a call_id
      | EV_Usage u \<Rightarrow>
          Some (a\<lparr>asm_usage := Some u\<rparr>,
                if asm_usage a \<noteq> None then Err invalid_response else Ok None)
      | EV_ProviderReplay r \<Rightarrow>
          Some (a\<lparr>asm_provider_replay := Some r\<rparr>,
                if asm_provider_replay a \<noteq> None then Err invalid_response else Ok None)
      | EV_Finish reason \<Rightarrow>
          if list_ex (\<lambda>t. ta_call t = None) (asm_tools a) then Some (a, Err invalid_response)
          else Some (a\<lparr>asm_finish_reason := Some reason\<rparr>, Ok None))"

subsection \<open>Finishing\<close>

text \<open>The loop over the slots; \<open>take\<close> empties the text, the reasoning and the calls it moves out.\<close>

fun build_parts ::
  "PartSlot list \<Rightarrow> rstr \<Rightarrow> rstr \<Rightarrow> ToolAssembly list \<Rightarrow> AssistantPart list \<Rightarrow>
     (AssistantPart list, ModelError) result option" where
  "build_parts [] t r tools parts = Some (Ok parts)"
| "build_parts (PS_Text # slots) t r tools parts =
     build_parts slots [] r tools (parts @ [AP_Text t])"
| "build_parts (PS_Reasoning # slots) t r tools parts =
     (case ReasoningContent_new (Some r) None None None of
        Err _ \<Rightarrow> Some (Err invalid_response)
      | Ok rc \<Rightarrow> build_parts slots t [] tools (parts @ [AP_Reasoning rc]))"
| "build_parts (PS_Tool i # slots) t r tools parts =
     (if i < length tools then
        (case ta_call (tools ! i) of
           None \<Rightarrow> None
         | Some call \<Rightarrow>
             build_parts slots t r (tools[i := (tools ! i)\<lparr>ta_call := None\<rparr>])
               (parts @ [AP_ToolCall call]))
      else None)"

definition finish :: "Assembler \<Rightarrow> (ModelResponse, ModelError) result option" where
  "finish a =
     (case asm_finish_reason a of
        None \<Rightarrow>
          Some (Err (generated_error ME_IncompleteResponse (observed_delivery (asm_observed_event a))))
      | Some reason \<Rightarrow>
          (let has_tools = (asm_tools a \<noteq> []) in
           if (has_tools \<and> reason \<noteq> FR_ToolCalls \<and> reason \<noteq> FR_Unknown)
             \<or> (\<not> has_tools \<and> reason = FR_ToolCalls)
           then Some (Err invalid_response)
           else if (reason = FR_ContentFiltered \<or> reason = FR_Refused) \<and> asm_text a = []
           then Some (Err invalid_response)
           else
             (case build_parts (asm_slots a) (asm_text a) (asm_reasoning a) (asm_tools a) [] of
                None \<Rightarrow> None
              | Some (Err e) \<Rightarrow> Some (Err e)
              | Some (Ok parts) \<Rightarrow>
                  Some (map_err (\<lambda>_. invalid_response)
                    (ModelResponse_new_with_provider_replay parts reason
                      (Some (case asm_usage a of Some u \<Rightarrow> u | None \<Rightarrow> Usage_default))
                      (asm_provider_replay a))))))"

text \<open>The events of an attempt that are accepted, with the progress they give.\<close>

fun push_all ::
  "(rstr \<Rightarrow> json option) \<Rightarrow> json serializer \<Rightarrow> Assembler \<Rightarrow> ModelEvent list \<Rightarrow>
     (Assembler \<times> (ModelDriverProgress list, ModelError) result) option" where
  "push_all parse ser a [] = Some (a, Ok [])"
| "push_all parse ser a (ev # evs) =
     (case push parse ser a ev of
        None \<Rightarrow> None
      | Some (a', Err e) \<Rightarrow> Some (a', Err e)
      | Some (a', Ok p) \<Rightarrow>
          (case push_all parse ser a' evs of
             None \<Rightarrow> None
           | Some (a'', Err e) \<Rightarrow> Some (a'', Err e)
           | Some (a'', Ok ps) \<Rightarrow>
               Some (a'', Ok ((case p of Some x \<Rightarrow> [x] | None \<Rightarrow> []) @ ps))))"

subsection \<open>Normalised deltas\<close>

lemma drop_lf_strip:
  "drop_lf_after_cr False (if b then strip_lf s else s) = drop_lf_after_cr b s"
  by (cases s) (auto simp: strip_lf_def)

lemma str_len_strip_lf: "str_len (strip_lf s) \<le> str_len s"
  by (cases s) (auto simp: strip_lf_def)

lemma strip_lf_same_len: "str_len (strip_lf s) = str_len s \<Longrightarrow> strip_lf s = s"
  by (cases s) (auto simp: strip_lf_def utf8_len_def split: if_splits)

lemma normalized_delta_eq:
  assumes "bt_byte_len d \<le> MAX_TEXT_BYTES"
  shows "normalized_delta d b =
     (Some (BoundedText (map clean_char (drop_lf_after_cr b (as_str d)))), ends_in_cr b (as_str d))"
proof (cases "bt_is_empty d")
  case True
  then show ?thesis by (cases d) (simp add: normalized_delta_def bt_is_empty_def)
next
  case False
  let ?raw = "as_str d" and ?in = "if b then strip_lf (as_str d) else as_str d"
  have norm: "normalized_reference ?in = map clean_char (drop_lf_after_cr b ?raw)"
    by (simp add: normalized_reference_def drop_lf_strip del: if_split)
  have len: "str_len (normalized_reference ?in) \<le> MAX_TEXT_BYTES"
    using assms str_len_normalized [of ?in] str_len_strip_lf [of ?raw]
    by (auto simp: bt_byte_len_def split: if_splits)
  have fresh: "(case BoundedText_new (normalized_reference ?in) of Ok b \<Rightarrow> Some b | Err _ \<Rightarrow> None)
      = Some (BoundedText (normalized_reference ?in))"
    using len by (simp add: BoundedText_new_def BoundedText_new_with_max_bytes_def)
  have flag: "(last ?raw = CR) = ends_in_cr b ?raw"
    using False by (simp add: ends_in_cr_last bt_is_empty_def)
  have unf: "normalized_delta d b = ((case normalize_model_text ?in of
        Borrowed t \<Rightarrow> if str_len t = str_len ?raw then Some d
          else (case BoundedText_new t of Ok b \<Rightarrow> Some b | Err _ \<Rightarrow> None)
      | Owned t \<Rightarrow> (case BoundedText_new t of Ok b \<Rightarrow> Some b | Err _ \<Rightarrow> None)), ends_in_cr b ?raw)"
    using False unfolding normalized_delta_def Let_def flag by (simp only: if_False)
  show ?thesis
  proof (cases "normalize_model_text ?in")
    case (Borrowed t)
    then have t: "t = ?in" "t = normalized_reference ?in"
      using cow_normalize_model_text [of ?in]
      by (auto simp: normalize_model_text_def split: if_splits)
    have "d = BoundedText t" if "str_len t = str_len ?raw"
      using that t(1) strip_lf_same_len [of ?raw] by (cases d) (auto split: if_splits)
    then show ?thesis
      unfolding unf Borrowed cow.case norm [symmetric] t(2) [symmetric] using fresh t(2) by simp
  next
    case (Owned t)
    then have "t = normalized_reference ?in" using cow_normalize_model_text [of ?in] by simp
    then show ?thesis unfolding unf Owned cow.case norm [symmetric] using fresh by simp
  qed
qed

subsection \<open>Invariant\<close>

definition tool_slots :: "PartSlot list \<Rightarrow> nat list" where
  "tool_slots slots = List.map_filter (\<lambda>s. case s of PS_Tool i \<Rightarrow> Some i | _ \<Rightarrow> None) slots"

lemma tool_slots_simps [simp]:
  "tool_slots [] = []" "tool_slots (xs @ ys) = tool_slots xs @ tool_slots ys"
  "tool_slots (PS_Text # xs) = tool_slots xs" "tool_slots (PS_Reasoning # xs) = tool_slots xs"
  "tool_slots (PS_Tool i # xs) = i # tool_slots xs"
  by (simp_all add: tool_slots_def List.map_filter_def)

lemma set_tool_slots: "i \<in> set (tool_slots xs) \<longleftrightarrow> PS_Tool i \<in> set xs"
  by (induction xs) (auto simp: tool_slots_def List.map_filter_def split: PartSlot.splits)

definition call_matches :: "json serializer \<Rightarrow> LoopLimits \<Rightarrow> ToolAssembly \<Rightarrow> ToolCall \<Rightarrow> bool" where
  "call_matches ser limits t c \<longleftrightarrow>
     tc_id c = ta_id t \<and> tc_name c = ta_name t \<and> tc_index c = ta_call_index t
     \<and> json_is_object (tc_arguments c)
     \<and> validate_json_size ser (tc_arguments c) (max_tool_arguments_bytes limits) = Ok ()"

definition tools_ok :: "json serializer \<Rightarrow> ToolSpec list \<Rightarrow> LoopLimits \<Rightarrow> ToolAssembly list \<Rightarrow> bool" where
  "tools_ok ser specs limits tools \<longleftrightarrow>
     length tools \<le> max_tool_calls_per_response limits
     \<and> distinct (map ta_id tools)
     \<and> map (unat \<circ> ta_call_index) tools = [0..<length tools]
     \<and> list_all (\<lambda>t. ta_name t \<in> spec_name ` set specs
          \<and> (\<forall>c. ta_call t = Some c \<longrightarrow> call_matches ser limits t c)) tools"

definition assembler_ok :: "json serializer \<Rightarrow> Assembler \<Rightarrow> bool" where
  "assembler_ok ser a \<longleftrightarrow>
     limits_ok (asm_limits a)
     \<and> distinct (asm_slots a)
     \<and> (PS_Text \<in> set (asm_slots a) \<longleftrightarrow> asm_text a \<noteq> [])
     \<and> (PS_Reasoning \<in> set (asm_slots a) \<longleftrightarrow> asm_reasoning a \<noteq> [])
     \<and> tool_slots (asm_slots a) = [0..<length (asm_tools a)]
     \<and> valid_text (asm_text a) (max_model_text_bytes (asm_limits a)) True
     \<and> valid_text (asm_reasoning a) (max_model_reasoning_bytes (asm_limits a)) True
     \<and> tools_ok ser (asm_request_tools a) (asm_limits a) (asm_tools a)
     \<and> (asm_finish_reason a \<noteq> None \<longrightarrow> list_all (\<lambda>t. ta_call t \<noteq> None) (asm_tools a))"

lemma assembler_new_ok: "limits_ok limits \<Longrightarrow> assembler_ok ser (Assembler_new specs limits)"
  by (simp add: assembler_ok_def Assembler_new_def valid_text_def tools_ok_def)

lemma event_text_bounded:
  "ModelEvent_validate e = Ok () \<Longrightarrow> event_text e = Some d \<Longrightarrow> bt_byte_len d \<le> MAX_TEXT_BYTES"
  by (auto simp: ModelEvent_validate_def MAX_MODEL_EVENT_TEXT_BYTES_def MAX_TEXT_BYTES_def
      split: if_splits)

lemma append_bounded_Ok:
  "append_bounded target delta maximum = Ok t \<longleftrightarrow>
     t = target @ delta \<and> str_len target + str_len delta \<le> min USIZE_MAX maximum"
  by (auto simp: append_bounded_def)

lemma clean_chars_allowed: "list_all allowed_char (map clean_char s)"
  by (simp add: list.pred_map list_all_iff)

lemma push_text_ok:
  assumes "assembler_ok ser a" "bt_byte_len d \<le> MAX_TEXT_BYTES"
    and "push_text a d = Some (a', Ok p)"
  shows "assembler_ok ser a'"
  using assms clean_chars_allowed
  by (auto simp: push_text_def normalized_delta_eq Let_def bt_is_empty_def append_bounded_Ok
      assembler_ok_def valid_text_def split: if_splits result.splits)

lemma push_reasoning_ok:
  assumes "assembler_ok ser a" "bt_byte_len d \<le> MAX_TEXT_BYTES"
    and "push_reasoning a d = Some (a', Ok p)"
  shows "assembler_ok ser a'"
  using assms clean_chars_allowed
  by (auto simp: push_reasoning_def normalized_delta_eq Let_def bt_is_empty_def append_bounded_Ok
      assembler_ok_def valid_text_def split: if_splits result.splits)

lemma push_tool_start_ok:
  assumes ok: "assembler_ok ser a" and "push_tool_start a i n = Some (a', Ok p)"
    and fin: "asm_finish_reason a = None"
  shows "assembler_ok ser a'"
proof -
  let ?n = "length (asm_tools a)"
  from assms(2) have n: "n \<in> spec_name ` set (asm_request_tools a)"
    and lim: "?n < max_tool_calls_per_response (asm_limits a)" "?n < 2 ^ 32"
    and fresh: "i \<notin> ta_id ` set (asm_tools a)"
    and a': "a' = a\<lparr>asm_tools := asm_tools a @
               [\<lparr>ta_id = i, ta_name = n, ta_arguments_text = [], ta_call = None,
                 ta_call_index = of_nat ?n\<rparr>],
             asm_slots := asm_slots a @ [PS_Tool ?n]\<rparr>"
    by (auto simp: push_tool_start_def list_ex_iff not_le split: if_splits)
  have idx: "unat (of_nat ?n :: u32) = ?n"
    using lim by (simp add: unat_of_nat take_bit_nat_eq_self_iff)
  have "PS_Tool ?n \<notin> set (asm_slots a)"
    using ok by (metis assembler_ok_def atLeastLessThan_iff less_irrefl set_tool_slots set_upt)
  then show ?thesis
    using ok n lim fresh fin idx by (simp add: assembler_ok_def tools_ok_def a' image_iff)
qed

lemma tool_mut_Some:
  "tool_mut ts call_id = Some i \<Longrightarrow> i < length ts \<and> ta_id (ts ! i) = call_id"
  by (induction ts arbitrary: i) (auto split: if_splits)

lemma tools_ok_update:
  assumes "tools_ok ser specs limits ts" "i < length ts"
    and "ta_id t = ta_id (ts ! i)" "ta_name t = ta_name (ts ! i)"
    "ta_call_index t = ta_call_index (ts ! i)"
    and "\<And>c. ta_call t = Some c \<Longrightarrow> call_matches ser limits t c"
  shows "tools_ok ser specs limits (ts[i := t])"
proof -
  have "ta_name (ts ! i) \<in> spec_name ` set specs"
    using assms(1,2) by (auto simp: tools_ok_def list_all_iff)
  with assms show ?thesis
    by (auto simp: tools_ok_def map_update_same intro!: list_all_update)
qed

lemma push_tool_arguments_ok:
  assumes ok: "assembler_ok ser a" and "push_tool_arguments a i d = Some (a', Ok p)"
    and fin: "asm_finish_reason a = None"
  shows "assembler_ok ser a'"
proof -
  from assms(2) obtain k t where k: "tool_mut (asm_tools a) i = Some k"
    and none: "ta_call (asm_tools a ! k) = None"
    and a': "a' = a\<lparr>asm_tools := (asm_tools a)[k := (asm_tools a ! k)\<lparr>ta_arguments_text := t\<rparr>]\<rparr>"
    by (auto simp: push_tool_arguments_def Let_def split: option.splits if_splits result.splits)
  have "tools_ok ser (asm_request_tools a) (asm_limits a)
      ((asm_tools a)[k := (asm_tools a ! k)\<lparr>ta_arguments_text := t\<rparr>])"
    by (rule tools_ok_update) (use ok none tool_mut_Some [OF k] in \<open>auto simp: assembler_ok_def\<close>)
  with ok fin show ?thesis by (simp add: assembler_ok_def a')
qed

lemma push_tool_end_ok:
  assumes ok: "assembler_ok ser a" and "push_tool_end parse ser a i = Some (a', Ok p)"
    and fin: "asm_finish_reason a = None"
  shows "assembler_ok ser a'"
proof -
  from assms(2) obtain k v c where k: "tool_mut (asm_tools a) i = Some k"
    and c: "ToolCall_new_with_max_bytes ser (ta_id (asm_tools a ! k)) (ta_name (asm_tools a ! k)) v
        (ta_call_index (asm_tools a ! k)) (max_tool_arguments_bytes (asm_limits a)) = Ok c"
    and a': "a' = a\<lparr>asm_tools := (asm_tools a)[k := (asm_tools a ! k)\<lparr>ta_call := Some c\<rparr>]\<rparr>"
    by (auto simp: push_tool_end_def Let_def split: option.splits if_splits result.splits)
  have "call_matches ser (asm_limits a) ((asm_tools a ! k)\<lparr>ta_call := Some c\<rparr>) c"
    using c by (auto simp: ToolCall_new_with_max_bytes_def call_matches_def is_ok_iff split: if_splits)
  then have "tools_ok ser (asm_request_tools a) (asm_limits a)
      ((asm_tools a)[k := (asm_tools a ! k)\<lparr>ta_call := Some c\<rparr>])"
    by (intro tools_ok_update) (use ok tool_mut_Some [OF k] in \<open>auto simp: assembler_ok_def\<close>)
  with ok fin show ?thesis by (simp add: assembler_ok_def a')
qed

lemma push_ok:
  assumes ok: "assembler_ok ser a" and "push parse ser a ev = Some (a', Ok p)"
  shows "assembler_ok ser a' \<and> asm_limits a' = asm_limits a
     \<and> asm_request_tools a' = asm_request_tools a"
proof -
  from assms(2) have fin: "asm_finish_reason a = None" and v: "ModelEvent_validate ev = Ok ()"
    by (auto simp: push_def is_ok_iff split: if_splits)
  have keep: "asm_limits a' = asm_limits a \<and> asm_request_tools a' = asm_request_tools a"
    using assms(2) fin v
    by (auto simp: push_def push_text_def push_reasoning_def push_tool_start_def
        push_tool_arguments_def push_tool_end_def Let_def
        split: ModelEvent.splits option.splits result.splits if_splits prod.splits)
  have "assembler_ok ser a'"
  proof (cases ev)
    case (EV_TextDelta d)
    with assms fin v event_text_bounded [OF v, of d] show ?thesis
      by (auto simp: push_def event_text_def intro: push_text_ok)
  next
    case (EV_ReasoningDelta d)
    with assms fin v event_text_bounded [OF v, of d] show ?thesis
      by (auto simp: push_def event_text_def intro: push_reasoning_ok)
  next
    case (EV_ToolCallStart i n)
    with assms fin v show ?thesis by (auto simp: push_def intro: push_tool_start_ok)
  next
    case (EV_ToolCallArgumentsDelta i d)
    with assms fin v show ?thesis by (auto simp: push_def intro: push_tool_arguments_ok)
  next
    case (EV_ToolCallEnd i)
    with assms fin v show ?thesis by (auto simp: push_def intro: push_tool_end_ok)
  next
    case (EV_Finish r)
    with assms fin v show ?thesis
      by (auto simp: push_def assembler_ok_def list_all_iff list_ex_iff split: if_splits)
  qed (use assms fin v in \<open>auto simp: push_def assembler_ok_def split: if_splits\<close>)
  with keep show ?thesis by blast
qed

lemma push_total:
  assumes "push parse ser a ev = None"
  shows False
proof -
  from assms have v: "ModelEvent_validate ev = Ok ()"
    by (auto simp: push_def is_ok_iff split: if_splits)
  with assms event_text_bounded [OF v] show False
    by (auto simp: push_def push_text_def push_reasoning_def push_tool_start_def event_text_def
        push_tool_arguments_def push_tool_end_def Let_def normalized_delta_eq
        split: ModelEvent.splits option.splits result.splits if_splits)
qed

lemma push_all_total: "push_all parse ser a evs \<noteq> None"
proof (induction evs arbitrary: a)
  case (Cons ev evs)
  obtain a' r where "push parse ser a ev = Some (a', r)" using push_total [of parse ser a ev] by fastforce
  with Cons.IH [of a'] show ?case by (auto split: result.splits)
qed simp

lemma push_all_ok:
  "assembler_ok ser a \<Longrightarrow> push_all parse ser a evs = Some (a', Ok ps) \<Longrightarrow>
     assembler_ok ser a' \<and> asm_limits a' = asm_limits a
     \<and> asm_request_tools a' = asm_request_tools a"
proof (induction evs arbitrary: a ps)
  case (Cons ev evs)
  then obtain a1 p where "push parse ser a ev = Some (a1, Ok p)"
    by (auto split: option.splits result.splits)
  with Cons push_ok [OF Cons.prems(1) this] show ?case
    by (auto split: option.splits result.splits)
qed simp

subsection \<open>Streaming\<close>

text \<open>The raw text and reasoning of a sequence of events, and the text of progress.\<close>

definition raw_text :: "ModelEvent list \<Rightarrow> rstr" where
  "raw_text evs = concat (map (\<lambda>e. case e of EV_TextDelta d \<Rightarrow> as_str d | _ \<Rightarrow> []) evs)"

definition raw_reasoning :: "ModelEvent list \<Rightarrow> rstr" where
  "raw_reasoning evs = concat (map (\<lambda>e. case e of EV_ReasoningDelta d \<Rightarrow> as_str d | _ \<Rightarrow> []) evs)"

definition progress_text :: "ModelDriverProgress list \<Rightarrow> rstr" where
  "progress_text ps = concat (map (\<lambda>p. case p of DP_TextDelta d \<Rightarrow> as_str d | _ \<Rightarrow> []) ps)"

definition progress_reasoning :: "ModelDriverProgress list \<Rightarrow> rstr" where
  "progress_reasoning ps = concat (map (\<lambda>p. case p of DP_ReasoningDelta d \<Rightarrow> as_str d | _ \<Rightarrow> []) ps)"

abbreviation clean_after :: "bool \<Rightarrow> rstr \<Rightarrow> rstr" where
  "clean_after b s \<equiv> map clean_char (drop_lf_after_cr b s)"

lemma clean_after_append:
  "clean_after b (s @ t) = clean_after b s @ clean_after (ends_in_cr b s) t"
  by (simp add: drop_lf_after_cr_append)

lemma push_streams:
  assumes "push parse ser a ev = Some (a', Ok p)"
  shows "asm_text a' = asm_text a @ clean_after (asm_text_ended_with_cr a) (raw_text [ev])
     \<and> asm_text_ended_with_cr a' = ends_in_cr (asm_text_ended_with_cr a) (raw_text [ev])
     \<and> asm_reasoning a' = asm_reasoning a @ clean_after (asm_reasoning_ended_with_cr a) (raw_reasoning [ev])
     \<and> asm_reasoning_ended_with_cr a' = ends_in_cr (asm_reasoning_ended_with_cr a) (raw_reasoning [ev])
     \<and> progress_text (case p of Some x \<Rightarrow> [x] | None \<Rightarrow> [])
         = clean_after (asm_text_ended_with_cr a) (raw_text [ev])
     \<and> progress_reasoning (case p of Some x \<Rightarrow> [x] | None \<Rightarrow> [])
         = clean_after (asm_reasoning_ended_with_cr a) (raw_reasoning [ev])"
proof -
  from assms have v: "ModelEvent_validate ev = Ok ()"
    by (auto simp: push_def is_ok_iff split: if_splits)
  note defs = raw_text_def raw_reasoning_def progress_text_def progress_reasoning_def
  show ?thesis
  proof (cases ev)
    case (EV_TextDelta d)
    have "bt_byte_len d \<le> MAX_TEXT_BYTES"
      using event_text_bounded [OF v, of d] EV_TextDelta by (simp add: event_text_def)
    with assms v EV_TextDelta show ?thesis
      by (auto simp: push_def push_text_def normalized_delta_eq Let_def bt_is_empty_def defs
          append_bounded_Ok split: if_splits result.splits)
  next
    case (EV_ReasoningDelta d)
    have "bt_byte_len d \<le> MAX_TEXT_BYTES"
      using event_text_bounded [OF v, of d] EV_ReasoningDelta by (simp add: event_text_def)
    with assms v EV_ReasoningDelta show ?thesis
      by (auto simp: push_def push_reasoning_def normalized_delta_eq Let_def bt_is_empty_def defs
          append_bounded_Ok split: if_splits result.splits)
  qed (use assms v in \<open>auto simp: push_def push_tool_start_def push_tool_arguments_def
      push_tool_end_def Let_def defs split: option.splits if_splits result.splits\<close>)
qed

lemma push_all_streams:
  "push_all parse ser a evs = Some (a', Ok ps) \<Longrightarrow>
     asm_text a' = asm_text a @ clean_after (asm_text_ended_with_cr a) (raw_text evs)
     \<and> asm_reasoning a' = asm_reasoning a @ clean_after (asm_reasoning_ended_with_cr a) (raw_reasoning evs)
     \<and> progress_text ps = clean_after (asm_text_ended_with_cr a) (raw_text evs)
     \<and> progress_reasoning ps = clean_after (asm_reasoning_ended_with_cr a) (raw_reasoning evs)"
proof (induction evs arbitrary: a ps)
  case Nil
  then show ?case
    by (simp add: raw_text_def raw_reasoning_def progress_text_def progress_reasoning_def)
next
  case (Cons ev evs)
  then obtain a1 p qs where p: "push parse ser a ev = Some (a1, Ok p)"
    and rest: "push_all parse ser a1 evs = Some (a', Ok qs)"
    and ps: "ps = (case p of Some x \<Rightarrow> [x] | None \<Rightarrow> []) @ qs"
    by (auto split: option.splits result.splits)
  have raw: "raw_text (ev # evs) = raw_text [ev] @ raw_text evs"
    "raw_reasoning (ev # evs) = raw_reasoning [ev] @ raw_reasoning evs"
    by (simp_all add: raw_text_def raw_reasoning_def)
  have prog: "progress_text ps = progress_text (case p of Some x \<Rightarrow> [x] | None \<Rightarrow> []) @ progress_text qs"
    "progress_reasoning ps = progress_reasoning (case p of Some x \<Rightarrow> [x] | None \<Rightarrow> []) @ progress_reasoning qs"
    by (simp_all add: ps progress_text_def progress_reasoning_def)
  show ?case
    unfolding raw prog clean_after_append
    using push_streams [OF p] Cons.IH [OF rest] by simp
qed

subsection \<open>The finished response\<close>

definition slot_part :: "rstr \<Rightarrow> rstr \<Rightarrow> ToolAssembly list \<Rightarrow> PartSlot \<Rightarrow> AssistantPart" where
  "slot_part t r tools s =
     (case s of
        PS_Text \<Rightarrow> AP_Text t
      | PS_Reasoning \<Rightarrow>
          AP_Reasoning \<lparr>rc_text = Some r, rc_summary = None, rc_encrypted = None, rc_signature = None\<rparr>
      | PS_Tool i \<Rightarrow> AP_ToolCall (the (ta_call (tools ! i))))"

lemma reasoning_text_new:
  "valid_text r 262144 True \<Longrightarrow>
     ReasoningContent_new (Some r) None None None
       = Ok \<lparr>rc_text = Some r, rc_summary = None, rc_encrypted = None, rc_signature = None\<rparr>"
  by (simp add: reasoning_new_Ok reasoning_ok_def valid_text_def normalized_reference_id)

lemma build_parts_eq:
  assumes "distinct slots" "PS_Reasoning \<in> set slots \<Longrightarrow> valid_text r 262144 True"
    and "\<And>i. PS_Tool i \<in> set slots \<Longrightarrow> i < length tools \<and> ta_call (tools ! i) \<noteq> None"
  shows "build_parts slots t r tools parts = Some (Ok (parts @ map (slot_part t r tools) slots))"
  using assms
proof (induction slots arbitrary: t r tools parts)
  case (Cons s slots)
  show ?case
  proof (cases s)
    case PS_Text
    with Cons.prems have "map (slot_part [] r tools) slots = map (slot_part t r tools) slots"
      by (auto simp: slot_part_def split: PartSlot.splits)
    moreover have "build_parts slots [] r tools (parts @ [AP_Text t])
        = Some (Ok ((parts @ [AP_Text t]) @ map (slot_part [] r tools) slots))"
      by (rule Cons.IH) (use Cons.prems in auto)
    ultimately show ?thesis using PS_Text by (simp add: slot_part_def)
  next
    case PS_Reasoning
    with Cons.prems have "map (slot_part t [] tools) slots = map (slot_part t r tools) slots"
      by (auto simp: slot_part_def split: PartSlot.splits)
    moreover have "build_parts slots t [] tools (parts @ [p])
        = Some (Ok ((parts @ [p]) @ map (slot_part t [] tools) slots))" for p
      by (rule Cons.IH) (use Cons.prems PS_Reasoning in auto)
    ultimately show ?thesis
      using PS_Reasoning Cons.prems(2) by (simp add: slot_part_def reasoning_text_new)
  next
    case (PS_Tool i)
    with Cons.prems(3) [of i] obtain c where i: "i < length tools" "ta_call (tools ! i) = Some c" by auto
    let ?tools = "tools[i := (tools ! i)\<lparr>ta_call := None\<rparr>]"
    have other: "i \<noteq> k" if "PS_Tool k \<in> set slots" for k using Cons.prems(1) PS_Tool that by auto
    have "map (slot_part t r ?tools) slots = map (slot_part t r tools) slots"
      using other by (auto simp: slot_part_def split: PartSlot.splits)
    moreover have "build_parts slots t r ?tools (parts @ [AP_ToolCall c])
        = Some (Ok ((parts @ [AP_ToolCall c]) @ map (slot_part t r ?tools) slots))"
      by (rule Cons.IH) (use Cons.prems PS_Tool other in fastforce)+
    ultimately show ?thesis using PS_Tool i by (simp add: slot_part_def)
  qed
qed simp

lemma tool_calls_slots:
  "tool_calls (map (slot_part t r tools) slots) = map (\<lambda>i. the (ta_call (tools ! i))) (tool_slots slots)"
proof (induction slots)
  case (Cons s slots)
  then show ?case by (cases s) (simp_all add: slot_part_def)
qed simp

definition parts_text :: "AssistantPart list \<Rightarrow> rstr" where
  "parts_text parts = concat (map (\<lambda>p. case p of AP_Text t \<Rightarrow> t | _ \<Rightarrow> []) parts)"

definition parts_reasoning :: "AssistantPart list \<Rightarrow> rstr" where
  "parts_reasoning parts =
     concat (map (\<lambda>p. case p of AP_Reasoning r \<Rightarrow> (case rc_text r of Some t \<Rightarrow> t | None \<Rightarrow> []) | _ \<Rightarrow> []) parts)"

lemma parts_text_slots:
  "distinct slots \<Longrightarrow>
     parts_text (map (slot_part t r tools) slots) = (if PS_Text \<in> set slots then t else [])
     \<and> parts_reasoning (map (slot_part t r tools) slots) = (if PS_Reasoning \<in> set slots then r else [])"
proof (induction slots)
  case (Cons s slots)
  then show ?case
    by (cases s) (auto simp: parts_text_def parts_reasoning_def slot_part_def split: if_splits)
qed (simp add: parts_text_def parts_reasoning_def)

lemma text_limits:
  assumes "assembler_ok ser a"
  shows "valid_text (asm_text a) 262144 True" "valid_text (asm_reasoning a) 262144 True"
    "length (asm_tools a) \<le> 64"
  using assms limits_ok_bounds [of "asm_limits a"]
  by (auto simp: assembler_ok_def valid_text_def tools_ok_def MAX_TEXT_BYTES_def
      MAX_TOOL_CALLS_PER_RESPONSE_def)

lemma assembled_calls:
  assumes ok: "assembler_ok ser a" and fin: "asm_finish_reason a \<noteq> None"
  shows "tool_calls (map (slot_part t r (asm_tools a)) (asm_slots a)) = map (the \<circ> ta_call) (asm_tools a)"
    and "calls_in_order (map (the \<circ> ta_call) (asm_tools a))"
    and "list_all (\<lambda>c. tc_name c \<in> spec_name ` set (asm_request_tools a)
        \<and> json_is_object (tc_arguments c)
        \<and> validate_json_size ser (tc_arguments c) (max_tool_arguments_bytes (asm_limits a)) = Ok ())
        (map (the \<circ> ta_call) (asm_tools a))"
proof -
  have calls: "call_matches ser (asm_limits a) u (the (ta_call u))" if "u \<in> set (asm_tools a)" for u
  proof -
    have tools: "tools_ok ser (asm_request_tools a) (asm_limits a) (asm_tools a)"
      and "list_all (\<lambda>t. ta_call t \<noteq> None) (asm_tools a)"
      using ok fin by (simp_all add: assembler_ok_def)
    then obtain c where "ta_call u = Some c" using \<open>u \<in> set (asm_tools a)\<close> by (auto simp: list_all_iff)
    with tools that show ?thesis by (simp add: tools_ok_def list_all_iff)
  qed
  have "tool_slots (asm_slots a) = [0..<length (asm_tools a)]" using ok by (simp add: assembler_ok_def)
  then show "tool_calls (map (slot_part t r (asm_tools a)) (asm_slots a)) = map (the \<circ> ta_call) (asm_tools a)"
    using map_map [of "the \<circ> ta_call" "(!) (asm_tools a)" "[0..<length (asm_tools a)]"]
    by (simp add: tool_calls_slots map_nth comp_def)
  have ids: "map tc_id (map (the \<circ> ta_call) (asm_tools a)) = map ta_id (asm_tools a)"
    and idx: "map (unat \<circ> tc_index) (map (the \<circ> ta_call) (asm_tools a)) = map (unat \<circ> ta_call_index) (asm_tools a)"
    using calls by (auto simp: call_matches_def)
  show "calls_in_order (map (the \<circ> ta_call) (asm_tools a))"
    using ok text_limits(3) [OF ok] unfolding calls_in_order_def ids idx
    by (simp add: assembler_ok_def tools_ok_def)
  show "list_all (\<lambda>c. tc_name c \<in> spec_name ` set (asm_request_tools a)
        \<and> json_is_object (tc_arguments c)
        \<and> validate_json_size ser (tc_arguments c) (max_tool_arguments_bytes (asm_limits a)) = Ok ())
        (map (the \<circ> ta_call) (asm_tools a))"
    using calls ok by (simp add: call_matches_def list_all_iff assembler_ok_def tools_ok_def)
qed

text \<open>Reasons that fit what was streamed.\<close>

definition reason_fits :: "Assembler \<Rightarrow> ModelFinishReason \<Rightarrow> bool" where
  "reason_fits a reason \<longleftrightarrow>
     (if asm_tools a = [] then reason \<noteq> FR_ToolCalls else reason = FR_ToolCalls \<or> reason = FR_Unknown)
     \<and> (reason = FR_ContentFiltered \<or> reason = FR_Refused \<longrightarrow> asm_text a \<noteq> [])
     \<and> (asm_slots a = [] \<longrightarrow> asm_provider_replay a \<noteq> None)"

definition assembled :: "Assembler \<Rightarrow> ModelFinishReason \<Rightarrow> ModelResponse" where
  "assembled a reason =
     \<lparr>mr_parts = map (slot_part (asm_text a) (asm_reasoning a) (asm_tools a)) (asm_slots a),
      mr_finish_reason = reason,
      mr_usage = Some (case asm_usage a of Some u \<Rightarrow> u | None \<Rightarrow> Usage_default),
      mr_provider_replay = asm_provider_replay a\<rparr>"

lemma assembled_parts_valid:
  assumes ok: "assembler_ok ser a" and fin: "asm_finish_reason a = Some reason"
  shows "validate_tool_call_order (mr_parts (assembled a reason)) = Ok ()"
proof -
  have "parts_valid (map (slot_part (asm_text a) (asm_reasoning a) (asm_tools a)) (asm_slots a))"
    using text_limits(1) [OF ok]
    by (auto simp: parts_valid_def list_all_iff slot_part_def AssistantPart_validate_def
        MAX_MODEL_MESSAGE_TEXT_BYTES_def split: PartSlot.splits)
  with assembled_calls(1,2) [OF ok] fin show ?thesis
    by (simp add: assembled_def validate_tool_call_order_Ok)
qed

lemma finish_eq:
  assumes ok: "assembler_ok ser a"
  shows "finish a =
     (case asm_finish_reason a of
        None \<Rightarrow>
          Some (Err (generated_error ME_IncompleteResponse (observed_delivery (asm_observed_event a))))
      | Some reason \<Rightarrow>
          Some (if reason_fits a reason then Ok (assembled a reason) else Err invalid_response))"
proof (cases "asm_finish_reason a")
  case None
  then show ?thesis by (simp add: finish_def)
next
  case (Some reason)
  let ?parts = "map (slot_part (asm_text a) (asm_reasoning a) (asm_tools a)) (asm_slots a)"
  have slot: "i < length (asm_tools a) \<and> ta_call (asm_tools a ! i) \<noteq> None"
    if "PS_Tool i \<in> set (asm_slots a)" for i
  proof -
    have "i \<in> set (tool_slots (asm_slots a))" using that by (simp add: set_tool_slots)
    with ok Some show ?thesis by (simp add: assembler_ok_def list_all_length)
  qed
  have build: "build_parts (asm_slots a) (asm_text a) (asm_reasoning a) (asm_tools a) [] = Some (Ok ?parts)"
    using build_parts_eq [of "asm_slots a" "asm_reasoning a" "asm_tools a" "asm_text a" "[]"]
      ok slot text_limits(2) [OF ok] by (simp add: assembler_ok_def)
  have order: "validate_tool_call_order ?parts = Ok ()"
    using assembled_parts_valid [OF ok Some] by (simp add: assembled_def)
  then have "normalize_parts ?parts = ?parts"
    by (simp add: validate_tool_call_order_Ok normalize_parts_id)
  with order have resp: "ModelResponse_new_with_provider_replay ?parts reason u replay =
      (if asm_slots a = [] \<and> replay = None then Err MV_EmptyResponseParts
       else Ok \<lparr>mr_parts = ?parts, mr_finish_reason = reason, mr_usage = u, mr_provider_replay = replay\<rparr>)"
    for u replay by (simp add: ModelResponse_new_with_provider_replay_def Let_def)
  show ?thesis
    using Some by (auto simp: finish_def Let_def build resp reason_fits_def assembled_def)
qed

lemma finish_total: "assembler_ok ser a \<Longrightarrow> finish a \<noteq> None"
  by (simp add: finish_eq split: option.splits)

lemma assembled_response_ok:
  "assembler_ok ser a \<Longrightarrow> finish a = Some (Ok resp) \<Longrightarrow> response_ok resp"
  using assembled_parts_valid [of ser a]
  by (auto simp: finish_eq response_ok_def assembled_def reason_fits_def split: option.splits if_splits)

lemma assembled_facts:
  assumes lim: "limits_ok limits"
    and run: "push_all parse ser (Assembler_new specs limits) evs = Some (a, Ok ps)"
    and fin: "finish a = Some (Ok resp)"
  shows "response_ok resp"
    and "length (tool_calls (mr_parts resp)) \<le> max_tool_calls_per_response limits"
    and "list_all (\<lambda>c. tc_name c \<in> spec_name ` set specs \<and> json_is_object (tc_arguments c)
        \<and> validate_json_size ser (tc_arguments c) (max_tool_arguments_bytes limits) = Ok ())
        (tool_calls (mr_parts resp))"
    and "parts_text (mr_parts resp) = asm_text a" "parts_reasoning (mr_parts resp) = asm_reasoning a"
    and "str_len (asm_text a) \<le> max_model_text_bytes limits"
    and "str_len (asm_reasoning a) \<le> max_model_reasoning_bytes limits"
proof -
  have ok: "assembler_ok ser a" and keep: "asm_limits a = limits" "asm_request_tools a = specs"
    using push_all_ok [OF assembler_new_ok [OF lim] run] by (simp_all add: Assembler_new_def)
  show "response_ok resp" using assembled_response_ok [OF ok fin] .
  from fin obtain reason where fr: "asm_finish_reason a = Some reason" and resp: "resp = assembled a reason"
    by (auto simp: finish_eq [OF ok] split: option.splits if_splits)
  have calls: "tool_calls (mr_parts resp) = map (the \<circ> ta_call) (asm_tools a)"
    using assembled_calls(1) [OF ok] fr by (simp add: resp assembled_def)
  show "parts_text (mr_parts resp) = asm_text a" "parts_reasoning (mr_parts resp) = asm_reasoning a"
    using ok parts_text_slots [of "asm_slots a"] by (auto simp: resp assembled_def assembler_ok_def)
  show "length (tool_calls (mr_parts resp)) \<le> max_tool_calls_per_response limits"
    using ok keep by (simp add: calls assembler_ok_def tools_ok_def)
  show "list_all (\<lambda>c. tc_name c \<in> spec_name ` set specs \<and> json_is_object (tc_arguments c)
      \<and> validate_json_size ser (tc_arguments c) (max_tool_arguments_bytes limits) = Ok ())
      (tool_calls (mr_parts resp))"
    using assembled_calls(3) [OF ok] fr keep calls by simp
  show "str_len (asm_text a) \<le> max_model_text_bytes limits"
    "str_len (asm_reasoning a) \<le> max_model_reasoning_bytes limits"
    using ok keep by (simp_all add: assembler_ok_def valid_text_def)
qed

subsection \<open>Properties\<close>

text \<open>
  C31: however a stream of text and reasoning is cut into deltas, what the host sees as progress
  and what the assembler accumulates is the normalisation of the whole concatenated stream: a
  carriage return and line feed split across two deltas still collapse to one line feed.
\<close>
theorem streaming_equivalence:
  assumes "push_all parse ser (Assembler_new specs limits) evs = Some (a, Ok ps)"
  shows "asm_text a = cow_str (normalize_model_text (raw_text evs))
     \<and> asm_reasoning a = cow_str (normalize_model_text (raw_reasoning evs))
     \<and> progress_text ps = asm_text a \<and> progress_reasoning ps = asm_reasoning a"
  using push_all_streams [OF assms] by (simp add: Assembler_new_def normalized_reference_def)

theorem streaming_equivalence_witness:
  "\<exists>a ps. push_all (\<lambda>_. None) (\<lambda>_. ([], True)) (Assembler_new [] LoopLimits_default)
        [EV_TextDelta (BoundedText [0x61, CR]), EV_TextDelta (BoundedText [LF, 0x62])] = Some (a, Ok ps)
     \<and> asm_text a = [0x61, LF, 0x62] \<and> progress_text ps = [0x61, LF, 0x62]"
proof -
  let ?evs = "[EV_TextDelta (BoundedText [0x61, CR]), EV_TextDelta (BoundedText [LF, 0x62])]"
  let ?run = "push_all (\<lambda>_. None) (\<lambda>_. ([], True)) (Assembler_new [] LoopLimits_default) ?evs"
  have "\<exists>a ps. ?run = Some (a, Ok ps)"
    by (simp add: push_def ModelEvent_validate_def event_text_def push_text_def normalized_delta_eq
        bt_byte_len_def bt_is_empty_def utf8_len_def MAX_TEXT_BYTES_def MAX_MODEL_EVENT_TEXT_BYTES_def
        append_bounded_def USIZE_MAX_def LoopLimits_default_def Assembler_new_def Let_def
        clean_char_def text_defs)
  then obtain a ps where run: "?run = Some (a, Ok ps)" by blast
  have "normalized_reference (raw_text ?evs) = [0x61, LF, 0x62]"
    by (simp add: raw_text_def normalized_reference_def clean_char_def text_defs)
  with streaming_equivalence [OF run] run show ?thesis by auto
qed

text \<open>
  C32: the assembler never panics, whatever events a provider sends, and the response it
  finishes is valid: tool calls are numbered 0, 1, ... with distinct ids, every call names a
  tool of the request and carries a JSON object within the argument limit, there are at most
  as many calls as the limit says, and text and reasoning are the normalised streams within
  their limits.
\<close>
theorem assembled_response:
  assumes "limits_ok limits"
  shows "push_all parse ser (Assembler_new specs limits) evs \<noteq> None
     \<and> (\<forall>a ps. push_all parse ser (Assembler_new specs limits) evs = Some (a, Ok ps) \<longrightarrow>
          finish a \<noteq> None
          \<and> (\<forall>resp. finish a = Some (Ok resp) \<longrightarrow>
               response_ok resp
               \<and> length (tool_calls (mr_parts resp)) \<le> max_tool_calls_per_response limits
               \<and> list_all (\<lambda>c. tc_name c \<in> spec_name ` set specs \<and> json_is_object (tc_arguments c)
                   \<and> validate_json_size ser (tc_arguments c) (max_tool_arguments_bytes limits) = Ok ())
                   (tool_calls (mr_parts resp))
               \<and> parts_text (mr_parts resp) = cow_str (normalize_model_text (raw_text evs))
               \<and> parts_reasoning (mr_parts resp) = cow_str (normalize_model_text (raw_reasoning evs))
               \<and> str_len (parts_text (mr_parts resp)) \<le> max_model_text_bytes limits
               \<and> str_len (parts_reasoning (mr_parts resp)) \<le> max_model_reasoning_bytes limits))"
proof -
  have "finish a \<noteq> None" if "push_all parse ser (Assembler_new specs limits) evs = Some (a, Ok ps)" for a ps
    using push_all_ok [OF assembler_new_ok [OF assms] that] finish_total by blast
  moreover have "asm_text a = cow_str (normalize_model_text (raw_text evs))
      \<and> asm_reasoning a = cow_str (normalize_model_text (raw_reasoning evs))"
    if "push_all parse ser (Assembler_new specs limits) evs = Some (a, Ok ps)" for a ps
    using push_all_streams [OF that] by (simp add: Assembler_new_def normalized_reference_def)
  ultimately show ?thesis
    using push_all_total assembled_facts [OF assms] by (metis (no_types, lifting))
qed

theorem assembled_response_witness:
  "\<exists>a ps resp. push_all (\<lambda>_. None) (\<lambda>_. ([], True)) (Assembler_new [] LoopLimits_default)
        [EV_TextDelta (BoundedText [0x61]), EV_Finish FR_Stop] = Some (a, Ok ps)
     \<and> finish a = Some (Ok resp) \<and> response_ok resp \<and> parts_text (mr_parts resp) = [0x61]"
proof -
  let ?evs = "[EV_TextDelta (BoundedText [0x61]), EV_Finish FR_Stop]"
  let ?run = "push_all (\<lambda>_. None) (\<lambda>_. ([], True)) (Assembler_new [] LoopLimits_default) ?evs"
  have "\<exists>a ps resp. ?run = Some (a, Ok ps) \<and> finish a = Some (Ok resp)"
    by (simp add: push_def ModelEvent_validate_def event_text_def push_text_def normalized_delta_eq
        bt_byte_len_def bt_is_empty_def utf8_len_def MAX_TEXT_BYTES_def MAX_MODEL_EVENT_TEXT_BYTES_def
        append_bounded_def USIZE_MAX_def LoopLimits_default_def Assembler_new_def Let_def
        clean_char_def text_defs finish_def ModelResponse_new_with_provider_replay_def
        normalize_parts_def normalize_part_eq validate_tool_call_order_def AssistantPart_validate_def
        valid_text_def MAX_MODEL_MESSAGE_TEXT_BYTES_def as_tool_call_def normalized_reference_def)
  then obtain a ps resp where run: "?run = Some (a, Ok ps)" and f: "finish a = Some (Ok resp)" by blast
  have "normalized_reference (raw_text ?evs) = [0x61]"
    by (simp add: raw_text_def normalized_reference_def clean_char_def text_defs)
  with assembled_response [OF limits_default_ok, of "\<lambda>_. None" "\<lambda>_. ([], True)" "[]" ?evs] run f
  show ?thesis by auto
qed

end
