(* ===== verification/Driver.thy ===== *)
theory Driver
  imports Assembler
begin

text \<open>
  The model driver, \<^verbatim>\<open>src/model/driver.rs\<close> and \<^verbatim>\<open>src/model/driver/failure.rs\<close>: attempts at one
  model request under one effective deadline, the retry policy, the wait between attempts.

  The model is host code and the clock, the timers and the token are \<open>tokio\<close>'s: a run is a
  function of a \<open>driver_env\<close>, the readings and polls of that run.  A poll of the stream also says
  what the progress channel answers to a send at that moment.  \<open>Pending\<close> is a run whose polls are
  used up without a decision, \<open>Aborted\<close> a panic of the driver itself; \<open>driver_returns\<close> shows
  when neither happens.
\<close>

datatype 'a async = Done 'a | Pending | Aborted

subsection \<open>Failures and retry policy\<close>

definition MAX_MODEL_CALL_TIMEOUT :: duration where "MAX_MODEL_CALL_TIMEOUT = 24 * 60 * 60 * SECOND"
definition MAX_MODEL_RETRY_DELAY :: duration where "MAX_MODEL_RETRY_DELAY = 30 * SECOND"

text \<open>\<open>Duration\<close> holds whole seconds in 64 bits; \<open>checked_mul\<close> is \<open>None\<close> beyond.\<close>

definition DURATION_LIMIT :: duration where "DURATION_LIMIT = 2 ^ 64 * SECOND"

definition duration_checked_mul :: "duration \<Rightarrow> nat \<Rightarrow> duration option" where
  "duration_checked_mul d k = (if d * k < DURATION_LIMIT then Some (d * k) else None)"

record RetryPolicySnapshot =
  rp_max_attempts :: u8
  rp_base_delay :: duration

record AttemptFailure =
  af_error :: ModelError
  af_observed_event :: bool
  af_deadline_source :: "DeadlineSource option"

record ModelDriverFailure =
  df_error :: ModelError
  df_deadline_source :: "DeadlineSource option"

definition ModelDriverFailure_ordinary :: "ModelError \<Rightarrow> ModelDriverFailure" where
  "ModelDriverFailure_ordinary e = \<lparr>df_error = e, df_deadline_source = None\<rparr>"

definition ModelDriverFailure_deadline :: "ModelError \<Rightarrow> DeadlineSource \<Rightarrow> ModelDriverFailure" where
  "ModelDriverFailure_deadline e source = \<lparr>df_error = e, df_deadline_source = Some source\<rparr>"

definition AttemptFailure_new :: "ModelError \<Rightarrow> bool \<Rightarrow> AttemptFailure" where
  "AttemptFailure_new e observed =
     \<lparr>af_error = e, af_observed_event = observed, af_deadline_source = None\<rparr>"

definition AttemptFailure_deadline :: "ModelError \<Rightarrow> bool \<Rightarrow> DeadlineSource \<Rightarrow> AttemptFailure" where
  "AttemptFailure_deadline e observed source =
     \<lparr>af_error = e, af_observed_event = observed, af_deadline_source = Some source\<rparr>"

definition into_driver_failure :: "AttemptFailure \<Rightarrow> ModelDriverFailure" where
  "into_driver_failure f = \<lparr>df_error = af_error f, df_deadline_source = af_deadline_source f\<rparr>"

fun double_capped :: "nat \<Rightarrow> duration \<Rightarrow> duration" where
  "double_capped 0 d = d"
| "double_capped (Suc n) d =
     double_capped n (min (case duration_checked_mul d 2 of Some x \<Rightarrow> x | None \<Rightarrow> MAX_MODEL_RETRY_DELAY)
                        MAX_MODEL_RETRY_DELAY)"

definition delay_for_retry :: "RetryPolicySnapshot \<Rightarrow> u8 \<Rightarrow> duration option \<Rightarrow> duration option" where
  "delay_for_retry policy retry_index after =
     (let exponential = double_capped (unat retry_index) (rp_base_delay policy) in
      case after of
        Some v \<Rightarrow> if MAX_MODEL_RETRY_DELAY < v then None else Some (max v exponential)
      | None \<Rightarrow> Some exponential)"

text \<open>\<open>now\<close> is the clock at the call.\<close>

definition retry_fits :: "instant \<Rightarrow> instant \<Rightarrow> duration \<Rightarrow> bool" where
  "retry_fits now deadline delay =
     (case instant_checked_add now delay of Some retry_at \<Rightarrow> retry_at < deadline | None \<Rightarrow> False)"

definition evaluate_retry ::
  "RetryPolicySnapshot \<Rightarrow> u8 \<Rightarrow> AttemptFailure \<Rightarrow> instant \<Rightarrow> instant \<Rightarrow> duration option" where
  "evaluate_retry policy attempt failure deadline now =
     (if rp_max_attempts policy \<le> attempt + 1 \<or> af_observed_event failure
        \<or> me_delivery (af_error failure) \<noteq> NotStarted
      then None
      else case me_retry_hint (af_error failure) of
        Never \<Rightarrow> None
      | Retryable after \<Rightarrow>
          (case delay_for_retry policy attempt after of
             None \<Rightarrow> None
           | Some delay \<Rightarrow> if retry_fits now deadline delay then Some delay else None))"

definition normalize_after_event :: "ModelError \<Rightarrow> bool \<Rightarrow> ModelError" where
  "normalize_after_event e observed =
     (if observed \<and> (me_delivery e \<noteq> Started \<or> me_retry_hint e \<noteq> Never)
      then ModelError_started (me_kind e) (me_diagnostic e) else e)"

text \<open>
  \<open>wait_for_retry\<close>: the biased select over token, deadline and retry timer.  Adding the delay to
  the clock panics beyond the range of \<open>Instant\<close>.
\<close>

definition wait_for_retry ::
  "instant \<Rightarrow> unit port_poll list \<Rightarrow> DeadlineSource \<Rightarrow> duration \<Rightarrow> ModelError \<Rightarrow>
     (unit, ModelDriverFailure) result async" where
  "wait_for_retry now polls source delay e =
     (case instant_checked_add now delay of
        None \<Rightarrow> Aborted
      | Some _ \<Rightarrow>
          (case select_port polls of
             None \<Rightarrow> Pending
           | Some Sel_Cancelled \<Rightarrow> Done (Err \<lparr>df_error = e, df_deadline_source = None\<rparr>)
           | Some Sel_Elapsed \<Rightarrow> Done (Err \<lparr>df_error = e, df_deadline_source = Some source\<rparr>)
           | Some (Sel_Result _) \<Rightarrow> Done (Ok ())))"

subsection \<open>The driver\<close>

record ModelDriver =
  drv_descriptor :: ModelDescriptor
  drv_model_call_timeout :: duration
  drv_retry_policy :: RetryPolicySnapshot
  drv_limits :: LoopLimits

definition ModelDriver_from_validated ::
  "ModelDescriptor \<Rightarrow> duration \<Rightarrow> u8 \<Rightarrow> duration \<Rightarrow> LoopLimits \<Rightarrow> ModelDriver" where
  "ModelDriver_from_validated descriptor timeout max_attempts base_delay limits =
     \<lparr>drv_descriptor = descriptor, drv_model_call_timeout = timeout,
      drv_retry_policy = \<lparr>rp_max_attempts = max_attempts, rp_base_delay = base_delay\<rparr>,
      drv_limits = limits\<rparr>"

definition precheck ::
  "bool \<Rightarrow> instant \<Rightarrow> instant \<Rightarrow> DeadlineSource \<Rightarrow> (unit, ModelDriverFailure) result" where
  "precheck cancelled now deadline source =
     (if cancelled then Err (ModelDriverFailure_ordinary (generated_error ME_Cancelled NotStarted))
      else if deadline \<le> now
      then Err (ModelDriverFailure_deadline (generated_error ME_Timeout NotStarted) source)
      else Ok ())"

definition validate_request :: "ModelDriver \<Rightarrow> ModelRequest \<Rightarrow> (unit, ModelError) result" where
  "validate_request drv request =
     (let invalid = generated_error ME_InvalidRequest NotStarted in
      if \<not> supports_reasoning (drv_descriptor drv) (mq_reasoning request) then Err invalid
      else if mq_tools request \<noteq> [] \<and> \<not> md_supports_tools (drv_descriptor drv) then Err invalid
      else if (case context_window_tokens (mq_limits request) of
                 Some limit \<Rightarrow> unat (md_context_window (drv_descriptor drv)) < unat limit
               | None \<Rightarrow> False)
      then Err invalid else Ok ())"

subsection \<open>One attempt\<close>

datatype send_result = Sent | Channel_Full | Channel_Closed

record stream_poll =
  sp_cancelled :: bool
  sp_elapsed :: bool
  sp_ready :: "(ModelEvent, ModelError) result option caught option"
  sp_send :: send_result

record driver_log =
  dl_sent :: "ModelDriverProgress list"
  dl_dropped :: u64

definition send_progress :: "send_result \<Rightarrow> ModelDriverProgress option \<Rightarrow> driver_log \<Rightarrow> driver_log" where
  "send_progress answer p log =
     (case p of
        None \<Rightarrow> log
      | Some x \<Rightarrow>
          (case answer of
             Sent \<Rightarrow> log\<lparr>dl_sent := dl_sent log @ [x]\<rparr>
           | Channel_Full \<Rightarrow> log\<lparr>dl_dropped := dl_dropped log + 1\<rparr>
           | Channel_Closed \<Rightarrow> log))"

type_synonym attempt_result = "(ModelResponse, AttemptFailure) result async"

fun run_stream ::
  "(rstr \<Rightarrow> json option) \<Rightarrow> json serializer \<Rightarrow> DeadlineSource \<Rightarrow> stream_poll list \<Rightarrow> Assembler \<Rightarrow>
     driver_log \<Rightarrow> attempt_result \<times> driver_log" where
  "run_stream parse ser source [] asm log = (Pending, log)"
| "run_stream parse ser source (p # ps) asm log =
     (let observed = asm_observed_event asm in
      if sp_cancelled p then
        (Done (Err (AttemptFailure_new (generated_error ME_Cancelled (observed_delivery observed)) observed)), log)
      else if sp_elapsed p then
        (Done (Err (AttemptFailure_deadline
           (generated_error ME_Timeout (observed_delivery observed)) observed source)), log)
      else case sp_ready p of
        None \<Rightarrow> run_stream parse ser source ps asm log
      | Some (Completed (Some (Ok event))) \<Rightarrow>
          (case push parse ser (asm\<lparr>asm_observed_event := True\<rparr>) event of
             None \<Rightarrow> (Aborted, log)
           | Some (asm', Err e) \<Rightarrow> (Done (Err (AttemptFailure_new e (asm_observed_event asm'))), log)
           | Some (asm', Ok progress) \<Rightarrow>
               run_stream parse ser source ps asm' (send_progress (sp_send p) progress log))
      | Some (Completed (Some (Err e))) \<Rightarrow>
          (Done (Err (AttemptFailure_new (normalize_after_event e observed) observed)), log)
      | Some (Completed None) \<Rightarrow>
          (case finish asm of
             None \<Rightarrow> (Aborted, log)
           | Some (Ok response) \<Rightarrow> (Done (Ok response), log)
           | Some (Err e) \<Rightarrow> (Done (Err (AttemptFailure_new e observed)), log))
      | Some Unwound \<Rightarrow>
          (Done (Err (AttemptFailure_new (generated_error ME_Panicked (observed_delivery observed)) observed)),
           log))"

record attempt_env =
  ae_cancelled :: bool
  ae_now :: instant
  ae_start_panics :: bool
  ae_start_polls :: "(unit, ModelError) result port_poll list"
  ae_stream_polls :: "stream_poll list"
  ae_now_retry :: instant
  ae_now_wait :: instant
  ae_wait_polls :: "unit port_poll list"

definition run_attempt ::
  "(rstr \<Rightarrow> json option) \<Rightarrow> json serializer \<Rightarrow> ModelDriver \<Rightarrow> ModelRequest \<Rightarrow> DeadlineSource \<Rightarrow>
     attempt_env \<Rightarrow> driver_log \<Rightarrow> attempt_result \<times> driver_log" where
  "run_attempt parse ser drv request source env log =
     (if ae_start_panics env then
        (Done (Err (AttemptFailure_new (generated_error ME_Panicked Delivery_Unknown) False)), log)
      else case select_port (ae_start_polls env) of
        None \<Rightarrow> (Pending, log)
      | Some Sel_Cancelled \<Rightarrow>
          (Done (Err (AttemptFailure_new (generated_error ME_Cancelled Delivery_Unknown) False)), log)
      | Some Sel_Elapsed \<Rightarrow>
          (Done (Err (AttemptFailure_deadline (generated_error ME_Timeout Delivery_Unknown) False source)), log)
      | Some (Sel_Result (Completed (Err e))) \<Rightarrow> (Done (Err (AttemptFailure_new e False)), log)
      | Some (Sel_Result Unwound) \<Rightarrow>
          (Done (Err (AttemptFailure_new (generated_error ME_Panicked Delivery_Unknown) False)), log)
      | Some (Sel_Result (Completed (Ok _))) \<Rightarrow>
          run_stream parse ser source (ae_stream_polls env)
            (Assembler_new (mq_tools request) (drv_limits drv)) log)"

subsection \<open>The loop over attempts\<close>

text \<open>
  The result carries, for the record, the failure of every attempt that failed, in order; one
  element per call of \<open>start\<close> that did not give a response.
\<close>

type_synonym driver_result = "(ModelResponse, ModelDriverFailure) result async"

fun run_attempts ::
  "(rstr \<Rightarrow> json option) \<Rightarrow> json serializer \<Rightarrow> ModelDriver \<Rightarrow> ModelRequest \<Rightarrow> EffectiveDeadline \<Rightarrow>
     u8 \<Rightarrow> attempt_env list \<Rightarrow> driver_log \<Rightarrow> AttemptFailure list \<Rightarrow>
     driver_result \<times> driver_log \<times> AttemptFailure list" where
  "run_attempts parse ser drv request deadline attempt [] log fails = (Pending, log, fails)"
| "run_attempts parse ser drv request deadline attempt (env # envs) log fails =
     (case precheck (ae_cancelled env) (ae_now env) (ed_tokio deadline) (ed_source deadline) of
        Err f \<Rightarrow> (Done (Err f), log, fails)
      | Ok _ \<Rightarrow>
          (case run_attempt parse ser drv request (ed_source deadline) env log of
             (Pending, log') \<Rightarrow> (Pending, log', fails)
           | (Aborted, log') \<Rightarrow> (Aborted, log', fails)
           | (Done (Ok response), log') \<Rightarrow> (Done (Ok response), log', fails)
           | (Done (Err failure), log') \<Rightarrow>
               (case evaluate_retry (drv_retry_policy drv) attempt failure (ed_tokio deadline)
                       (ae_now_retry env) of
                  None \<Rightarrow> (Done (Err (into_driver_failure failure)), log', fails @ [failure])
                | Some delay \<Rightarrow>
                    (case wait_for_retry (ae_now_wait env) (ae_wait_polls env) (ed_source deadline)
                            delay (af_error failure) of
                       Pending \<Rightarrow> (Pending, log', fails @ [failure])
                     | Aborted \<Rightarrow> (Aborted, log', fails @ [failure])
                     | Done (Err f) \<Rightarrow> (Done (Err f), log', fails @ [failure])
                     | Done (Ok _) \<Rightarrow>
                         run_attempts parse ser drv request deadline (attempt + 1) envs log'
                           (fails @ [failure])))))"

record driver_env =
  de_now_deadline :: instant
  de_cancelled :: bool
  de_now_check :: instant
  de_attempts :: "attempt_env list"

definition run_detailed ::
  "(rstr \<Rightarrow> json option) \<Rightarrow> json serializer \<Rightarrow> ModelDriver \<Rightarrow> ModelRequest \<Rightarrow> instant \<Rightarrow> driver_env \<Rightarrow>
     driver_log \<Rightarrow> driver_result \<times> driver_log \<times> AttemptFailure list" where
  "run_detailed parse ser drv request context_deadline env log =
     (case effective_deadline_from (de_now_deadline env) context_deadline (drv_model_call_timeout drv) of
        Err _ \<Rightarrow>
          (Done (Err (ModelDriverFailure_ordinary (generated_error ME_InvalidRequest NotStarted))), log, [])
      | Ok deadline \<Rightarrow>
          (case precheck (de_cancelled env) (de_now_check env) (ed_tokio deadline) (ed_source deadline) of
             Err f \<Rightarrow> (Done (Err f), log, [])
           | Ok _ \<Rightarrow>
               (case validate_request drv request of
                  Err e \<Rightarrow> (Done (Err (ModelDriverFailure_ordinary e)), log, [])
                | Ok _ \<Rightarrow> run_attempts parse ser drv request deadline 0 (de_attempts env) log [])))"

subsection \<open>Lemmas: delays\<close>

lemma min_cap: "min (min a m * 2 ^ n) m = min (a * 2 ^ n) (m :: nat)"
proof (cases "a \<le> m")
  case False
  have "m * 1 \<le> m * 2 ^ n" "m * 1 \<le> a * 2 ^ n"
    using False by (intro mult_le_mono; simp)+
  with False show ?thesis by simp
qed simp

lemma double_capped_le:
  "d \<le> MAX_MODEL_RETRY_DELAY \<Longrightarrow> double_capped n d = min (d * 2 ^ n) MAX_MODEL_RETRY_DELAY"
proof (induction n arbitrary: d)
  case (Suc n)
  have "d * 2 < DURATION_LIMIT"
    using Suc.prems by (simp add: MAX_MODEL_RETRY_DELAY_def DURATION_LIMIT_def)
  then have "double_capped (Suc n) d = double_capped n (min (d * 2) MAX_MODEL_RETRY_DELAY)"
    by (simp add: duration_checked_mul_def)
  also have "\<dots> = min (min (d * 2) MAX_MODEL_RETRY_DELAY * 2 ^ n) MAX_MODEL_RETRY_DELAY"
    by (rule Suc.IH) simp
  also have "\<dots> = min (d * 2 ^ Suc n) MAX_MODEL_RETRY_DELAY"
    by (simp add: min_cap mult.assoc)
  finally show ?case .
qed simp

lemma double_capped_Suc: "double_capped (Suc n) d = min (d * 2 ^ Suc n) MAX_MODEL_RETRY_DELAY"
proof -
  have "double_capped (Suc n) d = double_capped n (min (d * 2) MAX_MODEL_RETRY_DELAY)"
    by (auto simp: duration_checked_mul_def MAX_MODEL_RETRY_DELAY_def DURATION_LIMIT_def min_def)
  also have "\<dots> = min (min (d * 2) MAX_MODEL_RETRY_DELAY * 2 ^ n) MAX_MODEL_RETRY_DELAY"
    by (rule double_capped_le) simp
  also have "\<dots> = min (d * 2 ^ Suc n) MAX_MODEL_RETRY_DELAY"
    by (simp add: min_cap mult.assoc)
  finally show ?thesis .
qed

lemma delay_for_retry_bound:
  assumes "delay_for_retry policy i after = Some d" "rp_base_delay policy \<le> MAX_MODEL_RETRY_DELAY"
  shows "d \<le> MAX_MODEL_RETRY_DELAY"
  using assms double_capped_le [OF assms(2), of "unat i"]
  by (auto simp: delay_for_retry_def Let_def split: option.splits if_splits)

definition retry_safe :: "AttemptFailure \<Rightarrow> bool" where
  "retry_safe f \<longleftrightarrow>
     \<not> af_observed_event f \<and> me_delivery (af_error f) = NotStarted
     \<and> is_retryable (me_retry_hint (af_error f))"

lemma evaluate_retry_Some:
  assumes "evaluate_retry policy attempt f deadline now = Some delay"
  shows "attempt + 1 < rp_max_attempts policy" "retry_safe f" "now + delay < deadline"
    and "\<exists>after. me_retry_hint (af_error f) = Retryable after \<and> delay_for_retry policy attempt after = Some delay"
  using assms
  by (auto simp: evaluate_retry_def retry_safe_def is_retryable_def retry_fits_def
      instant_checked_add_def split: if_splits RetryHint.splits option.splits)

subsection \<open>Lemmas: attempts\<close>

lemma asm_observed_push:
  "push parse ser a ev = Some (a', r) \<Longrightarrow> asm_observed_event a' = asm_observed_event a"
  by (auto simp: push_def push_text_def push_reasoning_def push_tool_start_def
      push_tool_arguments_def push_tool_end_def Let_def
      split: ModelEvent.splits option.splits result.splits if_splits prod.splits)

abbreviation obs :: "bool \<Rightarrow> Assembler \<Rightarrow> Assembler" where
  "obs b a \<equiv> a\<lparr>asm_observed_event := b\<rparr>"

lemma push_obs:
  "push parse ser (obs b a) ev = map_option (\<lambda>(a', r). (obs b a', r)) (push parse ser a ev)"
  by (auto simp: push_def push_text_def push_reasoning_def push_tool_start_def
      push_tool_arguments_def push_tool_end_def Let_def
      split: ModelEvent.splits option.splits result.splits prod.splits)

lemma push_all_obs_eq:
  "push_all parse ser (obs b a) evs = map_option (\<lambda>(a', r). (obs b a', r)) (push_all parse ser a evs)"
proof (induction evs arbitrary: a)
  case (Cons ev evs)
  then show ?case by (auto simp: push_obs split: option.splits result.splits)
qed simp

lemma finish_obs: "finish (obs b a) = Some (Ok resp) \<longleftrightarrow> finish a = Some (Ok resp)"
  by (auto simp: finish_def Let_def split: option.splits result.splits if_splits)

lemma assembler_ok_obs [simp]: "assembler_ok ser (obs b a) = assembler_ok ser a"
  by (simp add: assembler_ok_def)

lemma push_obs_True: "push parse ser (obs True a) ev = Some (a', r) \<Longrightarrow> asm_observed_event a'"
  by (auto dest: asm_observed_push)

lemma run_stream_observed:
  "run_stream parse ser source ps asm log = (Done (Err f), log') \<Longrightarrow> asm_observed_event asm
     \<Longrightarrow> af_observed_event f"
proof (induction ps arbitrary: asm log)
  case (Cons p ps)
  then show ?case
    by (auto simp: Let_def AttemptFailure_new_def AttemptFailure_deadline_def
        split: if_splits option.splits caught.splits result.splits dest!: push_obs_True)
qed simp

lemma run_stream_silent:
  "run_stream parse ser source ps asm log = (Done (Err f), log') \<Longrightarrow> \<not> af_observed_event f
     \<Longrightarrow> log' = log"
proof (induction ps arbitrary: asm log)
  case (Cons p ps)
  have "\<not> af_observed_event f \<Longrightarrow>
      run_stream parse ser source ps a l \<noteq> (Done (Err f), log')" if "asm_observed_event a" for a l
    using run_stream_observed that by blast
  with Cons show ?case
    by (auto simp: Let_def AttemptFailure_new_def AttemptFailure_deadline_def
        split: if_splits option.splits caught.splits result.splits dest!: push_obs_True)
qed simp

lemma run_attempt_silent:
  "run_attempt parse ser drv request source env log = (Done (Err f), log') \<Longrightarrow>
     \<not> af_observed_event f \<Longrightarrow> log' = log"
  by (auto simp: run_attempt_def split: if_splits option.splits selected.splits caught.splits
      result.splits dest: run_stream_silent)

definition all_sent :: "stream_poll list \<Rightarrow> bool" where
  "all_sent ps \<longleftrightarrow> list_all (\<lambda>p. sp_send p = Sent) ps"

text \<open>The deltas the channel took: those whose flag is set.\<close>

definition kept :: "bool list \<Rightarrow> 'a list \<Rightarrow> 'a list" where
  "kept accepted xs = map snd (filter fst (zip accepted xs))"

lemma kept_simps [simp]:
  "kept [] [] = []" "kept (b # bs) (x # xs) = (if b then x # kept bs xs else kept bs xs)"
  by (simp_all add: kept_def)


text \<open>What the channel answered is progress_told for: taken, counted as dropped, or lost because it is closed.\<close>

definition progress_told :: "stream_poll list \<Rightarrow> ModelDriverProgress list \<Rightarrow> driver_log \<Rightarrow> driver_log \<Rightarrow> bool" where
  "progress_told ps prog log log' \<longleftrightarrow> (\<exists>accepted. length accepted = length prog
     \<and> dl_sent log' = dl_sent log @ kept accepted prog
     \<and> ((\<forall>p \<in> set ps. sp_send p \<noteq> Channel_Closed) \<longrightarrow> dl_dropped log' = dl_dropped log + of_nat (length (filter Not accepted)))
     \<and> (all_sent ps \<longrightarrow> list_all id accepted))"

lemma progress_told_simps [simp]: "progress_told ps [] log log"
  by (simp add: progress_told_def)

lemma progress_told_send:
  assumes "progress_told ps prog (send_progress (sp_send p) pr log) log'"
  shows "progress_told (p # ps) ((case pr of Some x \<Rightarrow> [x] | None \<Rightarrow> []) @ prog) log log'"
proof -
  obtain accepted where a: "length accepted = length prog"
    "dl_sent log' = dl_sent (send_progress (sp_send p) pr log) @ kept accepted prog"
    "(\<forall>p \<in> set ps. sp_send p \<noteq> Channel_Closed) \<longrightarrow>
       dl_dropped log' = dl_dropped (send_progress (sp_send p) pr log) + of_nat (length (filter Not accepted))"
    "all_sent ps \<longrightarrow> list_all id accepted"
    using assms by (auto simp: progress_told_def)
  show ?thesis
  proof (cases pr)
    case None
    with a show ?thesis by (auto simp: progress_told_def send_progress_def all_sent_def)
  next
    case (Some x)
    with a show ?thesis
      unfolding progress_told_def
      by (intro exI [of _ "(sp_send p = Sent) # accepted"])
        (cases "sp_send p"; auto simp: send_progress_def all_sent_def)
  qed
qed

lemma progress_told_skip: "progress_told ps prog log log' \<Longrightarrow> progress_told (p # ps) prog log log'"
  using progress_told_send [of ps prog p None log log'] by (simp add: send_progress_def)

lemma run_stream_response:
  "run_stream parse ser source ps asm log = (Done (Ok resp), log') \<Longrightarrow>
     \<exists>evs prog a. push_all parse ser asm evs = Some (a, Ok prog) \<and> finish a = Some (Ok resp) \<and> progress_told ps prog log log'"
proof (induction ps arbitrary: asm log)
  case (Cons p ps)
  from Cons.prems consider
      (skip) "sp_ready p = None" "run_stream parse ser source ps asm log = (Done (Ok resp), log')"
    | (event) ev a1 pr where "sp_ready p = Some (Completed (Some (Ok ev)))"
        "push parse ser (obs True asm) ev = Some (a1, Ok pr)"
        "run_stream parse ser source ps a1 (send_progress (sp_send p) pr log) = (Done (Ok resp), log')"
    | (finish) "finish asm = Some (Ok resp)" "log' = log"
    by (auto simp: Let_def split: if_splits option.splits caught.splits result.splits)
  then show ?case
  proof cases
    case skip
    with Cons.IH [OF skip(2)] show ?thesis by (blast intro: progress_told_skip)
  next
    case event
    from event(2) obtain a2 where a2: "push parse ser asm ev = Some (a2, Ok pr)" "a1 = obs True a2"
      by (auto simp: push_obs)
    from Cons.IH [OF event(3)] obtain evs prog a where
      IH: "push_all parse ser a1 evs = Some (a, Ok prog)" "finish a = Some (Ok resp)"
      "progress_told ps prog (send_progress (sp_send p) pr log) log'" by blast
    have "\<exists>b. push_all parse ser a2 evs = Some (b, Ok prog) \<and> finish b = Some (Ok resp)"
      using IH(1,2) unfolding a2(2) push_all_obs_eq by (auto simp: finish_obs)
    then obtain b where b: "push_all parse ser a2 evs = Some (b, Ok prog)" "finish b = Some (Ok resp)"
      by blast
    have "push_all parse ser asm (ev # evs)
        = Some (b, Ok ((case pr of Some x \<Rightarrow> [x] | None \<Rightarrow> []) @ prog))"
      using a2 b by simp
    with progress_told_send [OF IH(3)] b(2) show ?thesis by blast
  next
    case finish
    then show ?thesis by (intro exI [of _ "[]"] exI [of _ asm]) auto
  qed
qed simp

subsection \<open>Lemmas: the loop\<close>

abbreviation attempt_budget :: "ModelDriver \<Rightarrow> nat" where
  "attempt_budget drv \<equiv> max 1 (unat (rp_max_attempts (drv_retry_policy drv)))"

lemma attempt_no_wrap:
  assumes "Suc (unat (attempt :: u8)) \<le> max 1 (unat (m :: u8))" "attempt + 1 < m"
  shows "unat (attempt + 1) = Suc (unat attempt)" "Suc (Suc (unat attempt)) \<le> unat m"
proof -
  have "unat m < 256" using unsigned_less [of m] by simp
  then have "unat attempt + 1 < 2 ^ 8"
    using assms(1) by (cases "unat m = 0") simp_all
  then show u: "unat (attempt + 1) = Suc (unat attempt)" using unat_add_fits [of attempt 1] by simp
  then show "Suc (Suc (unat attempt)) \<le> unat m" using assms(2) by (simp add: word_less_nat_alt)
qed

lemma run_attempts_safe:
  assumes "run_attempts parse ser drv request deadline attempt envs log fails = (r, log', fails')"
    and "unat attempt = length fails" "Suc (unat attempt) \<le> attempt_budget drv"
    and "list_all retry_safe fails"
  shows "length fails' \<le> attempt_budget drv \<and> list_all retry_safe (butlast fails')
     \<and> (\<forall>resp. r = Done (Ok resp) \<longrightarrow> length fails' < attempt_budget drv \<and> list_all retry_safe fails')"
  using assms
proof (induction envs arbitrary: attempt log fails)
  case Nil
  then show ?case by (auto simp: list_all_iff in_set_butlastD)
next
  case (Cons env envs)
  consider (stop) "fails' = fails"
    | (last) f where "fails' = fails @ [f]" "\<forall>resp. r \<noteq> Done (Ok resp)"
    | (retry) f delay l where "evaluate_retry (drv_retry_policy drv) attempt f (ed_tokio deadline)
          (ae_now_retry env) = Some delay"
        "run_attempts parse ser drv request deadline (attempt + 1) envs l (fails @ [f]) = (r, log', fails')"
    using Cons.prems(1)
    by (auto split: result.splits prod.splits async.splits option.splits)
  then show ?case
  proof cases
    case retry
    note ev = evaluate_retry_Some [OF retry(1)]
    note step = attempt_no_wrap [OF Cons.prems(3) ev(1)]
    show ?thesis
      by (rule Cons.IH [OF retry(2)]) (use Cons.prems step ev(2) in auto)
  qed (use Cons.prems in \<open>auto simp: list_all_iff in_set_butlastD\<close>)
qed

lemma run_attempts_response:
  assumes "run_attempts parse ser drv request deadline attempt envs log fails = (Done (Ok resp), log', fails')"
  shows "\<exists>env \<in> set envs.
     run_stream parse ser (ed_source deadline) (ae_stream_polls env)
       (Assembler_new (mq_tools request) (drv_limits drv)) log = (Done (Ok resp), log')"
  using assms
proof (induction envs arbitrary: attempt log fails)
  case (Cons env envs)
  consider (now) "run_attempt parse ser drv request (ed_source deadline) env log = (Done (Ok resp), log')"
    | (retry) f l delay where "run_attempt parse ser drv request (ed_source deadline) env log = (Done (Err f), l)"
        "evaluate_retry (drv_retry_policy drv) attempt f (ed_tokio deadline) (ae_now_retry env) = Some delay"
        "run_attempts parse ser drv request deadline (attempt + 1) envs l (fails @ [f])
           = (Done (Ok resp), log', fails')"
    using Cons.prems by (auto split: result.splits prod.splits async.splits option.splits)
  then show ?case
  proof cases
    case now
    then have "run_stream parse ser (ed_source deadline) (ae_stream_polls env)
       (Assembler_new (mq_tools request) (drv_limits drv)) log = (Done (Ok resp), log')"
      by (auto simp: run_attempt_def split: if_splits option.splits selected.splits caught.splits
          result.splits)
    then show ?thesis by simp
  next
    case retry
    have "l = log"
      using run_attempt_silent [OF retry(1)] evaluate_retry_Some(2) [OF retry(2)] by (simp add: retry_safe_def)
    with Cons.IH [OF retry(3)] show ?thesis by auto
  qed
qed simp

lemma run_detailed_attempts:
  assumes "run_detailed parse ser drv request cd env log = (Done (Ok resp), log', fails)"
  obtains deadline where "run_attempts parse ser drv request deadline 0 (de_attempts env) log []
      = (Done (Ok resp), log', fails)"
  using assms by (auto simp: run_detailed_def split: result.splits)

subsection \<open>Lemmas: what errors say\<close>

lemma push_Err:
  "push parse ser a ev = Some (a', Err e) \<Longrightarrow> me_delivery e = Started \<and> me_retry_hint e = Never"
  by (auto simp: push_def push_text_def push_reasoning_def push_tool_start_def append_bounded_def
      push_tool_arguments_def push_tool_end_def Let_def
      split: ModelEvent.splits option.splits result.splits if_splits prod.splits)

lemma build_parts_Err: "build_parts slots t r tools parts = Some (Err e) \<Longrightarrow> e = invalid_response"
  by (induction slots t r tools parts rule: build_parts.induct)
    (auto split: result.splits option.splits if_splits)

lemma finish_Err:
  "finish a = Some (Err e) \<Longrightarrow>
     me_retry_hint e = Never \<and> (asm_observed_event a \<longrightarrow> me_delivery e = Started)"
  by (auto simp: finish_def Let_def observed_delivery_def map_err_eq_Err dest: build_parts_Err
      split: option.splits result.splits if_splits)

lemma run_stream_delivery:
  "run_stream parse ser source ps asm log = (Done (Err f), log') \<Longrightarrow> af_observed_event f \<Longrightarrow>
     me_delivery (af_error f) = Started \<and> me_retry_hint (af_error f) = Never"
proof (induction ps arbitrary: asm log)
  case (Cons p ps)
  then show ?case
    by (auto simp: Let_def AttemptFailure_new_def AttemptFailure_deadline_def observed_delivery_def
        normalize_after_event_def ModelError_started_def
        split: if_splits option.splits caught.splits result.splits dest!: push_Err finish_Err)
qed simp

lemma run_attempt_delivery:
  "run_attempt parse ser drv request source env log = (Done (Err f), log') \<Longrightarrow>
     log' \<noteq> log \<Longrightarrow> me_delivery (af_error f) = Started \<and> me_retry_hint (af_error f) = Never"
  using run_attempt_silent [of parse ser drv request source env log f log']
  by (auto simp: run_attempt_def split: if_splits option.splits selected.splits caught.splits
      result.splits dest: run_stream_delivery)

lemma run_attempts_delivery:
  "run_attempts parse ser drv request deadline attempt envs log fails = (Done (Err d), log', fails') \<Longrightarrow>
     log' \<noteq> log \<Longrightarrow> me_delivery (df_error d) = Started \<and> me_retry_hint (df_error d) = Never"
proof (induction envs arbitrary: attempt log fails)
  case (Cons env envs)
  from Cons.prems consider
      (last) f where "run_attempt parse ser drv request (ed_source deadline) env log = (Done (Err f), log')"
        "d = into_driver_failure f"
    | (retry) f l delay where "run_attempt parse ser drv request (ed_source deadline) env log = (Done (Err f), l)"
        "evaluate_retry (drv_retry_policy drv) attempt f (ed_tokio deadline) (ae_now_retry env) = Some delay"
        "log' = l \<or> run_attempts parse ser drv request deadline (attempt + 1) envs l (fails @ [f])
           = (Done (Err d), log', fails')"
    by (auto split: result.splits prod.splits async.splits option.splits)
  then show ?case
  proof cases
    case last
    with Cons.prems(2) run_attempt_delivery [OF last(1)] show ?thesis
      by (simp add: into_driver_failure_def)
  next
    case retry
    have "l = log"
      using run_attempt_silent [OF retry(1)] evaluate_retry_Some(2) [OF retry(2)] by (simp add: retry_safe_def)
    with retry(3) Cons.prems(2) Cons.IH show ?thesis by blast
  qed
qed simp

subsection \<open>Lemmas: termination\<close>

definition stream_terminal :: "stream_poll \<Rightarrow> bool" where
  "stream_terminal p \<longleftrightarrow> sp_cancelled p \<or> sp_elapsed p
     \<or> (case sp_ready p of None \<Rightarrow> False | Some (Completed (Some (Ok _))) \<Rightarrow> False | _ \<Rightarrow> True)"

definition attempt_settles :: "attempt_env \<Rightarrow> bool" where
  "attempt_settles env \<longleftrightarrow>
     list_ex poll_decisive (ae_start_polls env) \<and> list_ex stream_terminal (ae_stream_polls env)
     \<and> list_ex poll_decisive (ae_wait_polls env)
     \<and> ae_now_wait env + MAX_MODEL_RETRY_DELAY < INSTANT_LIMIT"

lemma run_stream_returns:
  "assembler_ok ser asm \<Longrightarrow> list_ex stream_terminal ps \<Longrightarrow>
     \<exists>r l. run_stream parse ser source ps asm log = (Done r, l)"
proof (induction ps arbitrary: asm log)
  case (Cons p ps)
  show ?case
  proof (cases "stream_terminal p")
    case True
    with finish_total [OF Cons.prems(1)] show ?thesis
      by (auto simp: stream_terminal_def Let_def split: option.splits caught.splits result.splits)
  next
    case False
    then have rest: "list_ex stream_terminal ps" using Cons.prems by simp
    show ?thesis
    proof (cases "sp_ready p")
      case None
      with False Cons.IH [OF Cons.prems(1) rest] show ?thesis by (simp add: stream_terminal_def Let_def)
    next
      case (Some r)
      with False obtain ev where r: "r = Completed (Some (Ok ev))"
        by (auto simp: stream_terminal_def split: caught.splits option.splits result.splits)
      obtain a' q where push: "push parse ser (obs True asm) ev = Some (a', q)"
        using push_total [of parse ser "obs True asm" ev] by fastforce
      show ?thesis
      proof (cases q)
        case (Ok pr)
        have "assembler_ok ser a'"
          using push_ok [of ser "obs True asm" parse ev a' pr] push Ok Cons.prems(1) by simp
        from Cons.IH [OF this rest] False Some r push Ok show ?thesis
          by (simp add: stream_terminal_def Let_def)
      qed (use False Some r push in \<open>simp add: stream_terminal_def Let_def\<close>)
    qed
  qed
qed simp

lemma select_port_decides: "list_ex poll_decisive ps \<Longrightarrow> select_port ps \<noteq> None"
  by (auto simp: select_port_None list_all_iff list_ex_iff)

lemma run_attempt_returns:
  assumes "limits_ok (drv_limits drv)" "attempt_settles env"
  shows "\<exists>r l. run_attempt parse ser drv request source env log = (Done r, l)"
  using assms select_port_decides [of "ae_start_polls env"]
    run_stream_returns [OF assembler_new_ok [OF assms(1)], of "ae_stream_polls env" parse ser source
      "mq_tools request" log]
  by (auto simp: run_attempt_def attempt_settles_def
      split: option.splits selected.splits caught.splits result.splits)

lemma wait_returns:
  assumes "attempt_settles env" "delay \<le> MAX_MODEL_RETRY_DELAY"
  shows "\<exists>r. wait_for_retry (ae_now_wait env) (ae_wait_polls env) source delay e = Done r"
  using assms select_port_decides [of "ae_wait_polls env"]
  by (auto simp: wait_for_retry_def instant_checked_add_def attempt_settles_def
      split: option.splits selected.splits)

lemma run_attempts_returns:
  assumes "limits_ok (drv_limits drv)"
    and "rp_base_delay (drv_retry_policy drv) \<le> MAX_MODEL_RETRY_DELAY"
    and "list_all attempt_settles envs" "Suc (unat attempt) \<le> attempt_budget drv"
    and "attempt_budget drv \<le> unat attempt + length envs"
  shows "\<exists>r l. run_attempts parse ser drv request deadline attempt envs log fails = (Done r, l)"
  using assms
proof (induction envs arbitrary: attempt log fails)
  case Nil
  then show ?case by (simp add: max_def split: if_splits)
next
  case (Cons env envs)
  have settles: "attempt_settles env" using Cons.prems(3) by simp
  obtain r l where run: "run_attempt parse ser drv request (ed_source deadline) env log = (Done r, l)"
    using run_attempt_returns [OF Cons.prems(1) settles] by blast
  show ?case
  proof (cases "\<exists>f delay. r = Err f \<and> evaluate_retry (drv_retry_policy drv) attempt f
      (ed_tokio deadline) (ae_now_retry env) = Some delay")
    case True
    then obtain f delay where f: "r = Err f" and ev: "evaluate_retry (drv_retry_policy drv) attempt f
      (ed_tokio deadline) (ae_now_retry env) = Some delay" by blast
    have d: "delay \<le> MAX_MODEL_RETRY_DELAY"
      using evaluate_retry_Some(4) [OF ev] delay_for_retry_bound Cons.prems(2) by blast
    obtain w where w: "wait_for_retry (ae_now_wait env) (ae_wait_polls env) (ed_source deadline)
        delay (af_error f) = Done w" using wait_returns [OF settles d] by blast
    note step = attempt_no_wrap [OF Cons.prems(4) evaluate_retry_Some(1) [OF ev]]
    have "\<exists>r l. run_attempts parse ser drv request deadline (attempt + 1) envs l' fs = (Done r, l)" for l' fs
      by (rule Cons.IH) (use Cons.prems step in auto)
    with run f ev w show ?thesis by (auto split: result.splits)
  next
    case False
    with run show ?thesis by (auto split: result.splits option.splits)
  qed
qed

subsection \<open>Lemmas: no panic\<close>

lemma run_stream_no_abort:
  "assembler_ok ser asm \<Longrightarrow> fst (run_stream parse ser source ps asm log) \<noteq> Aborted"
proof (induction ps arbitrary: asm log)
  case (Cons p ps)
  show ?case
  proof (cases "stream_terminal p")
    case True
    with run_stream_returns [OF Cons.prems, of "p # ps" parse source log] show ?thesis by fastforce
  next
    case False
    show ?thesis
    proof (cases "sp_ready p")
      case None
      with False Cons.IH [OF Cons.prems] show ?thesis by (simp add: stream_terminal_def Let_def)
    next
      case (Some r)
      with False obtain ev where r: "r = Completed (Some (Ok ev))"
        by (auto simp: stream_terminal_def split: caught.splits option.splits result.splits)
      obtain a' q where push: "push parse ser (obs True asm) ev = Some (a', q)"
        using push_total [of parse ser "obs True asm" ev] by fastforce
      show ?thesis
      proof (cases q)
        case (Ok pr)
        have "assembler_ok ser a'"
          using push_ok [of ser "obs True asm" parse ev a' pr] push Ok Cons.prems by simp
        from Cons.IH [OF this] False Some r push Ok show ?thesis
          by (simp add: stream_terminal_def Let_def)
      qed (use False Some r push in \<open>simp add: stream_terminal_def Let_def\<close>)
    qed
  qed
qed simp

lemma run_attempt_no_abort:
  "limits_ok (drv_limits drv) \<Longrightarrow> fst (run_attempt parse ser drv request source env log) \<noteq> Aborted"
  using run_stream_no_abort [OF assembler_new_ok]
  by (auto simp: run_attempt_def split: option.splits selected.splits caught.splits result.splits)

lemma run_attempts_no_abort:
  assumes "limits_ok (drv_limits drv)" "rp_base_delay (drv_retry_policy drv) \<le> MAX_MODEL_RETRY_DELAY"
    and "list_all (\<lambda>env. ae_now_wait env + MAX_MODEL_RETRY_DELAY < INSTANT_LIMIT) envs"
  shows "fst (run_attempts parse ser drv request deadline attempt envs log fails) \<noteq> Aborted"
  using assms(3)
proof (induction envs arbitrary: attempt log fails)
  case (Cons env envs)
  have wait: "wait_for_retry (ae_now_wait env) (ae_wait_polls env) source delay e \<noteq> Aborted"
    if "evaluate_retry (drv_retry_policy drv) attempt f (ed_tokio deadline) (ae_now_retry env) = Some delay"
    for source delay e f
    using Cons.prems evaluate_retry_Some(4) [OF that] delay_for_retry_bound [OF _ assms(2)]
    by (fastforce simp: wait_for_retry_def instant_checked_add_def split: option.splits selected.splits)
  show ?case
    using Cons.IH Cons.prems run_attempt_no_abort [OF assms(1), of parse ser request "ed_source deadline" env log] wait
    by (auto split: result.splits prod.splits async.splits option.splits)
qed simp

lemma run_detailed_no_abort:
  assumes "limits_ok (drv_limits drv)" "rp_base_delay (drv_retry_policy drv) \<le> MAX_MODEL_RETRY_DELAY"
    and "list_all (\<lambda>a. ae_now_wait a + MAX_MODEL_RETRY_DELAY < INSTANT_LIMIT) (de_attempts env)"
  shows "fst (run_detailed parse ser drv request cd env log) \<noteq> Aborted"
  using run_attempts_no_abort [OF assms] by (auto simp: run_detailed_def split: result.splits)

lemma run_detailed_response:
  assumes "limits_ok (drv_limits drv)"
    and "run_detailed parse ser drv request cd env log = (Done (Ok resp), log', fails)"
  shows "response_ok resp"
    "list_all (\<lambda>c. tc_name c \<in> spec_name ` set (mq_tools request)) (tool_calls (mr_parts resp))"
proof -
  obtain deadline where "run_attempts parse ser drv request deadline 0 (de_attempts env) log []
      = (Done (Ok resp), log', fails)" by (rule run_detailed_attempts [OF assms(2)])
  from run_attempts_response [OF this] obtain a where a: "a \<in> set (de_attempts env)"
    and stream: "run_stream parse ser (ed_source deadline) (ae_stream_polls a)
       (Assembler_new (mq_tools request) (drv_limits drv)) log = (Done (Ok resp), log')" by blast
  from run_stream_response [OF stream] obtain evs prog asm where
    run: "push_all parse ser (Assembler_new (mq_tools request) (drv_limits drv)) evs = Some (asm, Ok prog)"
    "finish asm = Some (Ok resp)" by blast
  note facts = assembled_facts [OF assms(1) run]
  show "response_ok resp"
    "list_all (\<lambda>c. tc_name c \<in> spec_name ` set (mq_tools request)) (tool_calls (mr_parts resp))"
    using facts(1,3) by (auto simp: list_all_iff)
qed

subsection \<open>Sample runs\<close>

text \<open>A driver, a request and a clock at zero, for evaluating runs on concrete inputs.\<close>

definition sample_driver :: "u8 \<Rightarrow> ModelDriver" where
  "sample_driver n = ModelDriver_from_validated
     \<lparr>md_model_ref = ModelRef (lit ''m''), md_context_window = 1, md_supported_reasoning = {RP_Auto},
      md_supports_tools = False\<rparr> (60 * SECOND) n SECOND LoopLimits_default"

definition sample_request :: ModelRequest where
  "sample_request = \<lparr>mq_messages = [MM_User (lit ''hi'')], mq_tools = [], mq_limits = ModelLimits_default,
     mq_reasoning = RP_Auto\<rparr>"

definition sample_env :: "attempt_env list \<Rightarrow> driver_env" where
  "sample_env ats = \<lparr>de_now_deadline = 0, de_cancelled = False, de_now_check = 0, de_attempts = ats\<rparr>"

definition sample_attempt ::
  "(unit, ModelError) result \<Rightarrow> stream_poll list \<Rightarrow> attempt_env" where
  "sample_attempt started polls =
     \<lparr>ae_cancelled = False, ae_now = 0, ae_start_panics = False,
      ae_start_polls = [\<lparr>pp_cancelled = False, pp_elapsed = False, pp_ready = Some (Completed started)\<rparr>],
      ae_stream_polls = polls, ae_now_retry = 0, ae_now_wait = 0,
      ae_wait_polls = [\<lparr>pp_cancelled = False, pp_elapsed = False, pp_ready = Some (Completed ())\<rparr>]\<rparr>"

abbreviation sample_deadline :: EffectiveDeadline where
  "sample_deadline \<equiv> \<lparr>ed_standard = 60 * SECOND, ed_tokio = 60 * SECOND, ed_source = Port\<rparr>"

lemma sample_run:
  "run_detailed parse ser (sample_driver n) sample_request (100 * SECOND) (sample_env ats) log
     = run_attempts parse ser (sample_driver n) sample_request sample_deadline 0 ats log []"
  by (simp add: run_detailed_def effective_deadline_from_def instant_checked_add_def INSTANT_LIMIT_def
      sample_driver_def sample_request_def sample_env_def ModelDriver_from_validated_def precheck_def
      validate_request_def supports_reasoning_def ModelLimits_default_def)

lemma sample_attempt_run:
  "run_attempt parse ser (sample_driver n) sample_request source (sample_attempt (Err e) ps) log
     = (Done (Err (AttemptFailure_new e False)), log)"
  "run_attempt parse ser (sample_driver n) sample_request source (sample_attempt (Ok ()) ps) log
     = run_stream parse ser source ps (Assembler_new [] LoopLimits_default) log"
  "precheck (ae_cancelled (sample_attempt st ps)) (ae_now (sample_attempt st ps))
     (ed_tokio sample_deadline) src = Ok ()"
  "delay \<le> 60 * SECOND \<Longrightarrow> wait_for_retry (ae_now_wait (sample_attempt st ps)) (ae_wait_polls (sample_attempt st ps)) src
     delay e = Done (Ok ())"
  by (simp_all add: run_attempt_def sample_attempt_def sample_driver_def sample_request_def
      ModelDriver_from_validated_def precheck_def wait_for_retry_def instant_checked_add_def INSTANT_LIMIT_def)

lemma sample_limits: "limits_ok (drv_limits (sample_driver n))"
  by (simp add: sample_driver_def ModelDriver_from_validated_def limits_default_ok)

subsection \<open>Properties\<close>

text \<open>
  C7: a model request is sent again only when it certainly did not reach the provider.  There
  are at most \<open>max_attempts\<close> attempts (one if that is zero); every attempt that is followed by
  another failed with an error whose delivery is NotStarted and whose hint is Retryable, and
  without any stream event; the 8-bit attempt counter does not wrap.
\<close>
theorem driver_retries_only_undelivered:
  assumes "run_detailed parse ser drv request cd env log = (r, log', fails)"
  shows "length fails \<le> max 1 (unat (rp_max_attempts (drv_retry_policy drv)))
     \<and> (\<forall>f \<in> set (butlast fails). \<not> af_observed_event f \<and> me_delivery (af_error f) = NotStarted
          \<and> is_retryable (me_retry_hint (af_error f)))
     \<and> (\<forall>resp. r = Done (Ok resp) \<longrightarrow>
          length fails < max 1 (unat (rp_max_attempts (drv_retry_policy drv)))
          \<and> (\<forall>f \<in> set fails. \<not> af_observed_event f \<and> me_delivery (af_error f) = NotStarted
               \<and> is_retryable (me_retry_hint (af_error f))))"
proof (cases "fails = []")
  case True
  then show ?thesis by auto
next
  case False
  then obtain deadline where
    "run_attempts parse ser drv request deadline 0 (de_attempts env) log [] = (r, log', fails)"
    using assms by (auto simp: run_detailed_def split: result.splits)
  from run_attempts_safe [OF this] show ?thesis
    unfolding list_all_iff retry_safe_def by simp
qed

theorem driver_retries_only_undelivered_witness:
  "\<exists>f1 f2 log'.
     run_detailed (\<lambda>_. None) (\<lambda>_. ([], True)) (sample_driver 2) sample_request (100 * SECOND)
       (sample_env [sample_attempt (Err (ModelError_not_started ME_RateLimited None (generated_diagnostic ME_RateLimited))) [],
                    sample_attempt (Err (generated_error ME_Internal NotStarted)) []])
       \<lparr>dl_sent = [], dl_dropped = 0\<rparr>
       = (Done (Err (into_driver_failure f2)), log', [f1, f2])
     \<and> me_delivery (af_error f1) = NotStarted \<and> \<not> af_observed_event f1"
proof -
  let ?e = "ModelError_not_started ME_RateLimited None (generated_diagnostic ME_RateLimited)"
  let ?e2 = "generated_error ME_Internal NotStarted"
  let ?at1 = "sample_attempt (Err ?e) []" and ?at2 = "sample_attempt (Err ?e2) []"
  let ?f1 = "AttemptFailure_new ?e False" and ?f2 = "AttemptFailure_new ?e2 False"
  let ?log = "\<lparr>dl_sent = [], dl_dropped = 0\<rparr> :: driver_log"
  have retry: "evaluate_retry (drv_retry_policy (sample_driver 2)) 0 ?f1 (ed_tokio sample_deadline)
      (ae_now_retry ?at1) = Some SECOND"
    by (simp add: evaluate_retry_def sample_driver_def ModelDriver_from_validated_def AttemptFailure_new_def
        sample_attempt_def ModelError_not_started_def delay_for_retry_def retry_fits_def
        instant_checked_add_def INSTANT_LIMIT_def word_le_nat_alt)
  have stop: "evaluate_retry (drv_retry_policy (sample_driver 2)) 1 ?f2 (ed_tokio sample_deadline)
      (ae_now_retry ?at2) = None"
    by (simp add: evaluate_retry_def sample_driver_def ModelDriver_from_validated_def)
  have "run_detailed (\<lambda>_. None) (\<lambda>_. ([], True)) (sample_driver 2) sample_request (100 * SECOND)
      (sample_env [?at1, ?at2]) ?log = (Done (Err (into_driver_failure ?f2)), ?log, [?f1, ?f2])"
    unfolding sample_run run_attempts.simps sample_attempt_run(1,3) using retry stop
    by (simp add: sample_attempt_run(4))
  with driver_retries_only_undelivered [OF this] show ?thesis by (intro exI conjI) auto
qed



text \<open>
  The delay before retry \<open>i\<close> is the base delay for the first retry and otherwise the base
  delay doubled \<open>i\<close> times and capped at thirty seconds, raised to what the provider asked for;
  a provider that asks for more than thirty seconds is not retried.  With a base delay of at
  most thirty seconds no delay is longer.
\<close>
theorem retry_delay_spec:
  "delay_for_retry policy i after =
     (let exponential = (if i = 0 then rp_base_delay policy
                         else min (rp_base_delay policy * 2 ^ unat i) (30 * SECOND)) in
      case after of
        None \<Rightarrow> Some exponential
      | Some v \<Rightarrow> if 30 * SECOND < v then None else Some (max v exponential))
   \<and> (rp_base_delay policy \<le> 30 * SECOND \<longrightarrow>
        (\<forall>d. delay_for_retry policy i after = Some d \<longrightarrow> d \<le> 30 * SECOND))"
proof -
  have "double_capped (unat i) (rp_base_delay policy) =
      (if i = 0 then rp_base_delay policy
       else min (rp_base_delay policy * 2 ^ unat i) MAX_MODEL_RETRY_DELAY)"
  proof (cases "unat i")
    case (Suc n)
    then have "i \<noteq> 0" by auto
    with Suc double_capped_Suc [of n "rp_base_delay policy"] show ?thesis by (simp del: double_capped.simps)
  qed (simp add: unat_eq_0)
  then show ?thesis
    using delay_for_retry_bound [of policy i after]
    unfolding delay_for_retry_def MAX_MODEL_RETRY_DELAY_def by (auto simp: Let_def)
qed

theorem retry_delay_spec_witness:
  "delay_for_retry \<lparr>rp_max_attempts = 5, rp_base_delay = 8 * SECOND\<rparr> 2 (Some (3 * SECOND)) = Some (30 * SECOND)
   \<and> 30 * SECOND \<le> 30 * SECOND"
  using retry_delay_spec [of "\<lparr>rp_max_attempts = 5, rp_base_delay = 8 * SECOND\<rparr>" 2 "Some (3 * SECOND)"]
  by simp

text \<open>
  Once a delta has been sent to the progress channel, a failure of the request says so: its
  delivery is Started and its hint is Never, whatever the provider reported.
\<close>
lemma driver_failure_after_output:
  assumes "run_detailed parse ser drv request cd env log = (Done (Err f), log', fails)"
    and "dl_sent log' \<noteq> dl_sent log"
  shows "me_delivery (df_error f) = Started \<and> me_retry_hint (df_error f) = Never"
proof -
  from assms obtain deadline where
    run: "run_attempts parse ser drv request deadline 0 (de_attempts env) log [] = (Done (Err f), log', fails)"
    by (auto simp: run_detailed_def split: result.splits)
  show ?thesis by (rule run_attempts_delivery [OF run]) (use assms(2) in auto)
qed

lemma driver_failure_after_output_witness:
  "\<exists>polls log' f fails.
     run_detailed (\<lambda>_. None) (\<lambda>_. ([], True)) (sample_driver 2) sample_request (100 * SECOND)
       (sample_env [sample_attempt (Ok ()) polls]) \<lparr>dl_sent = [], dl_dropped = 0\<rparr>
       = (Done (Err f), log', fails) \<and> dl_sent log' \<noteq> [] \<and> me_delivery (df_error f) = Started"
proof -
  let ?polls = "[\<lparr>sp_cancelled = False, sp_elapsed = False,
        sp_ready = Some (Completed (Some (Ok (EV_TextDelta (BoundedText [0x61]))))), sp_send = Sent\<rparr>,
      \<lparr>sp_cancelled = True, sp_elapsed = False, sp_ready = None, sp_send = Sent\<rparr>]"
  let ?log = "\<lparr>dl_sent = [], dl_dropped = 0\<rparr> :: driver_log"
  let ?f = "AttemptFailure_new (generated_error ME_Cancelled Started) True"
  have "\<exists>log'. run_stream (\<lambda>_. None) (\<lambda>_. ([], True)) Port ?polls (Assembler_new [] LoopLimits_default) ?log
      = (Done (Err ?f), log') \<and> dl_sent log' \<noteq> []"
    by (simp add: push_def ModelEvent_validate_def event_text_def push_text_def normalized_delta_eq
        bt_byte_len_def bt_is_empty_def utf8_len_def MAX_TEXT_BYTES_def MAX_MODEL_EVENT_TEXT_BYTES_def
        append_bounded_def USIZE_MAX_def LoopLimits_default_def Assembler_new_def Let_def send_progress_def
        clean_char_def text_defs observed_delivery_def)
  then obtain log' where str: "run_stream (\<lambda>_. None) (\<lambda>_. ([], True)) Port ?polls
      (Assembler_new [] LoopLimits_default) ?log = (Done (Err ?f), log')" and ne: "dl_sent log' \<noteq> []" by blast
  have stop: "evaluate_retry policy n ?f deadline now = None" for policy n deadline now
    by (simp add: evaluate_retry_def AttemptFailure_new_def)
  have run: "run_detailed (\<lambda>_. None) (\<lambda>_. ([], True)) (sample_driver 2) sample_request (100 * SECOND)
      (sample_env [sample_attempt (Ok ()) ?polls]) ?log = (Done (Err (into_driver_failure ?f)), log', [?f])"
    unfolding sample_run run_attempts.simps sample_attempt_run(2,3) using str stop
    by (simp del: run_stream.simps)
  show ?thesis
    using driver_failure_after_output [OF run] run ne by (intro exI [of _ ?polls]) auto
qed

text \<open>
  C29: the driver returns.  If every attempt settles (the start future, the stream and the wait
  each reach a poll with a ready branch), as many attempts as the policy allows are enough,
  and no part of the driver panics.
\<close>
theorem driver_returns:
  assumes "limits_ok (drv_limits drv)"
    and "rp_base_delay (drv_retry_policy drv) \<le> MAX_MODEL_RETRY_DELAY"
    and "list_all attempt_settles (de_attempts env)"
    and "max 1 (unat (rp_max_attempts (drv_retry_policy drv))) \<le> length (de_attempts env)"
  shows "\<exists>r rest. run_detailed parse ser drv request cd env log = (Done r, rest)"
  using run_attempts_returns [OF assms(1-3), of 0] assms(4)
  by (auto simp: run_detailed_def split: result.splits)

theorem driver_returns_witness:
  "\<exists>at r rest. attempt_settles at
     \<and> run_detailed (\<lambda>_. None) (\<lambda>_. ([], True)) (sample_driver 1) sample_request (100 * SECOND)
         (sample_env [at]) \<lparr>dl_sent = [], dl_dropped = 0\<rparr> = (Done r, rest)"
proof -
  let ?at = "sample_attempt (Ok ())
      [\<lparr>sp_cancelled = False, sp_elapsed = False, sp_ready = Some (Completed None), sp_send = Sent\<rparr>]"
  have h: "rp_base_delay (drv_retry_policy (sample_driver 1)) \<le> MAX_MODEL_RETRY_DELAY"
    "list_all attempt_settles (de_attempts (sample_env [?at]))"
    "max 1 (unat (rp_max_attempts (drv_retry_policy (sample_driver 1)))) \<le> length (de_attempts (sample_env [?at]))"
    by (simp_all add: sample_driver_def sample_attempt_def sample_env_def ModelDriver_from_validated_def
        MAX_MODEL_RETRY_DELAY_def attempt_settles_def poll_decisive_def stream_terminal_def INSTANT_LIMIT_def)
  show ?thesis
    using driver_returns [OF sample_limits h] h(2) by (intro exI [of _ ?at]) (auto simp: sample_env_def)
qed

end
