(* ===== verification/Loop_Types.thy ===== *)
theory Loop_Types
  imports Driver History
begin

text \<open>
  The public data of one agent loop: options, state, events, outcome and report, from
  \<^verbatim>\<open>src/agent_loop/mod.rs\<close>, \<^verbatim>\<open>src/agent_loop/state.rs\<close> and \<^verbatim>\<open>src/agent_loop/event.rs\<close>.
\<close>

subsection \<open>Errors and outcomes\<close>

datatype CancelReason = CR_User | CR_OwnerDropped | CR_Shutdown | CR_Deadline

datatype LoopFailureKind =
    LF_Prompt | LF_Model | LF_InvalidModelResponse | LF_OutputLimit | LF_Refused
  | LF_ContentFiltered | LF_Policy | LF_Interaction | LF_MaxToolRounds | LF_Internal

record LoopFailure =
  lf_kind :: LoopFailureKind
  lf_diagnostic :: DiagnosticSummary
  lf_model_error :: "ModelError option"

datatype LoopOutcome = LO_Completed | LO_Cancelled CancelReason | LO_Failed LoopFailure

datatype LoopStartError =
    LS_NoTokioRuntime | LS_InvalidOptions | LS_InvalidConfig | LS_InvalidInput | LS_IdGeneration

datatype AnswerError = AE_InteractionNotFound | AE_WrongInteraction | AE_NotActive

datatype UpdateError = UE_InvalidConfig | UE_NotActive

datatype LoopWaitError = LW_CompletionClosed

datatype LoopJoinError = LJ_TaskCancelled

datatype TakeEventsError = TK_AlreadyTaken

record LoopReport =
  rep_loop_id :: LoopId
  rep_outcome :: LoopOutcome
  rep_appended :: "HistoryItem list"
  rep_usage :: Usage
  rep_requests :: u32
  rep_tool_rounds :: u64
  rep_final_config_revision :: ConfigRevision

subsection \<open>Options\<close>

definition MAX_TOOL_ROUNDS :: u16 where "MAX_TOOL_ROUNDS = 1024"
definition MAX_EVENT_CAPACITY :: nat where "MAX_EVENT_CAPACITY = 4096"
definition MAX_MODEL_RETRY_ATTEMPTS :: u8 where "MAX_MODEL_RETRY_ATTEMPTS = 4"

record LoopOptions =
  lo_deadline :: "instant option"
  lo_max_tool_rounds :: u16
  lo_event_capacity :: nat
  lo_prompt_timeout :: duration
  lo_model_timeout :: duration
  lo_policy_timeout :: duration
  lo_tool_timeout :: duration
  lo_model_retry_attempts :: u8
  lo_model_retry_base_delay :: duration
  lo_limits :: LoopLimits

text \<open>\<open>validate\<close> reads the clock, here \<open>now\<close>, for the deadline.\<close>

definition LoopOptions_validate :: "instant \<Rightarrow> LoopOptions \<Rightarrow> (unit, LoopStartError) result" where
  "LoopOptions_validate now opts =
     (if MAX_TOOL_ROUNDS < lo_max_tool_rounds opts
        \<or> \<not> (1 \<le> lo_event_capacity opts \<and> lo_event_capacity opts \<le> MAX_EVENT_CAPACITY)
        \<or> lo_prompt_timeout opts = 0
        \<or> lo_model_timeout opts = 0
        \<or> MAX_MODEL_CALL_TIMEOUT < lo_model_timeout opts
        \<or> lo_policy_timeout opts = 0
        \<or> lo_tool_timeout opts = 0
        \<or> lo_model_retry_attempts opts = 0
        \<or> MAX_MODEL_RETRY_ATTEMPTS < lo_model_retry_attempts opts
        \<or> lo_model_retry_base_delay opts = 0
        \<or> MAX_MODEL_RETRY_DELAY < lo_model_retry_base_delay opts
        \<or> (case lo_deadline opts of Some deadline \<Rightarrow> deadline \<le> now | None \<Rightarrow> False)
      then Err LS_InvalidOptions
      else map_err (\<lambda>_. LS_InvalidOptions) (LoopLimits_validate (lo_limits opts)))"

definition LoopOptions_default_checked :: "instant \<Rightarrow> (LoopOptions, LoopStartError) result" where
  "LoopOptions_default_checked now =
     (let opts = \<lparr>lo_deadline = None, lo_max_tool_rounds = 0, lo_event_capacity = 256,
                  lo_prompt_timeout = 30 * SECOND, lo_model_timeout = 10 * 60 * SECOND,
                  lo_policy_timeout = 30 * SECOND, lo_tool_timeout = 30 * 60 * SECOND,
                  lo_model_retry_attempts = 2, lo_model_retry_base_delay = 100 * 1000000,
                  lo_limits = LoopLimits_default\<rparr> in
      and_then (LoopOptions_validate now opts) (\<lambda>_. Ok opts))"

record ('m, 't, 'p, 'q) LoopRequest =
  lq_history :: "HistoryItem list"
  lq_input :: UserInput
  lq_config :: "('m, 't, 'p, 'q) ExecutionConfig"

subsection \<open>State\<close>

datatype LoopStatus =
    LS_Starting | LS_RunningModel | LS_RunningTools | LS_WaitingForInput | LS_Finishing | LS_Finished

record LoopState =
  lst_loop_id :: LoopId
  lst_status :: LoopStatus
  lst_request_index :: u32
  lst_config_revision :: ConfigRevision
  lst_model :: "ModelRef option"
  lst_pending_interaction :: "PendingInteraction option"

definition LoopState_new :: "LoopId \<Rightarrow> LoopStatus \<Rightarrow> u32 \<Rightarrow> ConfigRevision \<Rightarrow> LoopState" where
  "LoopState_new loop_id status request_index config_revision =
     \<lparr>lst_loop_id = loop_id, lst_status = status, lst_request_index = request_index,
      lst_config_revision = config_revision, lst_model = None, lst_pending_interaction = None\<rparr>"

subsection \<open>Events\<close>

datatype OutputChannel = OC_Text | OC_Reasoning

datatype LoopOutcomeSummary = OS_Completed | OS_Cancelled CancelReason | OS_Failed LoopFailureKind

datatype LoopEvent =
    EV_Started LoopId
  | EV_StateChanged LoopState
  | EV_RequestStarted LoopId u32 ConfigRevision ModelRef ReasoningPreference
  | EV_OutputDelta LoopId u32 OutputChannel BoundedText
  | EV_ToolStarted LoopId u32 ToolCallId ToolName
  | EV_ToolProgress LoopId u32 ToolCallId ToolProgress
  | EV_ToolFinished LoopId u32 ToolCallId ToolResultOutcome nat
  | EV_InteractionRequested LoopId PendingInteraction
  | EV_InteractionResolved LoopId InteractionId
  | EV_Finished LoopId LoopOutcomeSummary

record LoopEventEnvelope =
  env_dropped_before :: u64
  env_event :: LoopEvent

subsection \<open>Lemmas\<close>

definition options_ok :: "LoopOptions \<Rightarrow> bool" where
  "options_ok opts \<longleftrightarrow>
     unat (lo_max_tool_rounds opts) \<le> 1024
     \<and> lo_event_capacity opts \<in> {1..4096}
     \<and> 0 < lo_prompt_timeout opts \<and> 0 < lo_policy_timeout opts \<and> 0 < lo_tool_timeout opts
     \<and> 0 < lo_model_timeout opts \<and> lo_model_timeout opts \<le> 24 * 60 * 60 * SECOND
     \<and> unat (lo_model_retry_attempts opts) \<in> {1..4}
     \<and> 0 < lo_model_retry_base_delay opts \<and> lo_model_retry_base_delay opts \<le> 30 * SECOND
     \<and> limits_ok (lo_limits opts)"

lemma options_validate_Ok:
  "LoopOptions_validate now opts = Ok () \<longleftrightarrow>
     options_ok opts \<and> (\<forall>d. lo_deadline opts = Some d \<longrightarrow> now < d)"
proof -
  have *: "(MAX_TOOL_ROUNDS < r) = (1024 < unat r)" for r :: u16
    by (simp add: MAX_TOOL_ROUNDS_def word_less_nat_alt)
  have **: "(MAX_MODEL_RETRY_ATTEMPTS < r) = (4 < unat r)" "(r = 0) = (unat r = 0)" for r :: u8
    by (simp_all add: MAX_MODEL_RETRY_ATTEMPTS_def word_less_nat_alt unat_eq_0)
  show ?thesis
    by (auto simp: LoopOptions_validate_def options_ok_def * ** limits_ok_def is_ok_iff
        MAX_EVENT_CAPACITY_def MAX_MODEL_CALL_TIMEOUT_def MAX_MODEL_RETRY_DELAY_def
        split: option.splits)
qed

end
