(* ===== verification/Events.thy ===== *)
theory Events
  imports Loop_Types "HOL-Library.Sublist"
begin

text \<open>
  The event channel of a loop, \<^verbatim>\<open>src/agent_loop/event.rs\<close>: a bounded queue between the runner and
  one consumer.  The runner only ever tries to send; an event that does not fit is counted, and
  the next event that fits carries the count.

  The consumer runs in its own task.  \<open>sk_consumer\<close> holds what it does before each emission; the
  fields \<open>sk_sent\<close> and \<open>sk_received\<close> record what entered and left the channel.
\<close>

subsection \<open>Bounded channel\<close>

record 'a mpsc =
  ch_capacity :: nat
  ch_queue :: "'a list"
  ch_open :: bool

definition mpsc_channel :: "nat \<Rightarrow> 'a mpsc" where
  "mpsc_channel capacity = \<lparr>ch_capacity = capacity, ch_queue = [], ch_open = True\<rparr>"

definition mpsc_try_send :: "'a \<Rightarrow> 'a mpsc \<Rightarrow> 'a mpsc \<times> send_result" where
  "mpsc_try_send x ch =
     (if \<not> ch_open ch then (ch, Channel_Closed)
      else if ch_capacity ch \<le> length (ch_queue ch) then (ch, Channel_Full)
      else (ch\<lparr>ch_queue := ch_queue ch @ [x]\<rparr>, Sent))"

definition mpsc_try_recv :: "'a mpsc \<Rightarrow> 'a mpsc \<times> 'a option" where
  "mpsc_try_recv ch =
     (case ch_queue ch of
        [] \<Rightarrow> (ch, None)
      | x # xs \<Rightarrow> (ch\<lparr>ch_queue := xs\<rparr>, Some x))"

definition mpsc_drop_receiver :: "'a mpsc \<Rightarrow> 'a mpsc" where
  "mpsc_drop_receiver ch = ch\<lparr>ch_open := False, ch_queue := []\<rparr>"

subsection \<open>Event sink\<close>

datatype EventSinkError = ES_InvalidCapacity

datatype consumer_op = Consumer_Recv | Consumer_Drop

record LoopEventSink =
  sk_sender :: "LoopEventEnvelope mpsc"
  sk_dropped :: u64
  sk_closed :: bool
  sk_consumer :: "consumer_op list list"
  sk_sent :: "LoopEventEnvelope list"
  sk_received :: "LoopEventEnvelope list"

definition LoopEventSink_channel :: "consumer_op list list \<Rightarrow> nat \<Rightarrow> (LoopEventSink, EventSinkError) result" where
  "LoopEventSink_channel consumer capacity =
     (if capacity = 0 \<or> MAX_EVENT_CAPACITY < capacity then Err ES_InvalidCapacity
      else Ok \<lparr>sk_sender = mpsc_channel capacity, sk_dropped = 0, sk_closed = False,
               sk_consumer = consumer, sk_sent = [], sk_received = []\<rparr>)"

fun consume :: "consumer_op \<Rightarrow> LoopEventSink \<Rightarrow> LoopEventSink" where
  "consume Consumer_Recv sk =
     (case mpsc_try_recv (sk_sender sk) of
        (_, None) \<Rightarrow> sk
      | (ch, Some x) \<Rightarrow> sk\<lparr>sk_sender := ch, sk_received := sk_received sk @ [x]\<rparr>)"
| "consume Consumer_Drop sk = sk\<lparr>sk_sender := mpsc_drop_receiver (sk_sender sk)\<rparr>"

definition consumer_turn :: "LoopEventSink \<Rightarrow> LoopEventSink" where
  "consumer_turn sk =
     (case sk_consumer sk of
        [] \<Rightarrow> sk
      | ops # rest \<Rightarrow> fold consume ops (sk\<lparr>sk_consumer := rest\<rparr>))"

definition record_dropped :: "u64 \<Rightarrow> LoopEventSink \<Rightarrow> LoopEventSink" where
  "record_dropped count sk = sk\<lparr>sk_dropped := saturating_add (sk_dropped sk) count\<rparr>"

definition try_emit :: "LoopEvent \<Rightarrow> LoopEventSink \<Rightarrow> LoopEventSink" where
  "try_emit event sink =
     (let sk = consumer_turn sink in
      if sk_closed sk then sk
      else
        (let envelope = \<lparr>env_dropped_before = sk_dropped sk, env_event = event\<rparr> in
         case mpsc_try_send envelope (sk_sender sk) of
           (ch, Sent) \<Rightarrow> sk\<lparr>sk_sender := ch, sk_dropped := 0, sk_sent := sk_sent sk @ [envelope]\<rparr>
         | (_, Channel_Full) \<Rightarrow> sk\<lparr>sk_dropped := saturating_add (sk_dropped sk) 1\<rparr>
         | (_, Channel_Closed) \<Rightarrow> sk\<lparr>sk_closed := True\<rparr>))"

text \<open>What a runner does to its sink, as a sequence.\<close>

datatype sink_op = Op_Emit LoopEvent | Op_Record u64

fun sink_step :: "sink_op \<Rightarrow> LoopEventSink \<Rightarrow> LoopEventSink" where
  "sink_step (Op_Emit e) sk = try_emit e sk"
| "sink_step (Op_Record n) sk = record_dropped n sk"

fun emitted :: "sink_op list \<Rightarrow> LoopEvent list" where
  "emitted [] = []"
| "emitted (Op_Emit e # ops) = e # emitted ops"
| "emitted (Op_Record n # ops) = emitted ops"

fun recorded :: "sink_op list \<Rightarrow> nat" where
  "recorded [] = 0"
| "recorded (Op_Emit e # ops) = recorded ops"
| "recorded (Op_Record n # ops) = unat n + recorded ops"

subsection \<open>Lemmas\<close>

lemma emitted_append [simp]: "emitted (xs @ ys) = emitted xs @ emitted ys"
  by (induction xs rule: emitted.induct) auto

lemma recorded_append [simp]: "recorded (xs @ ys) = recorded xs + recorded ys"
  by (induction xs rule: recorded.induct) auto

text \<open>
  The invariant of a sink after the operations \<open>ops\<close>: the consumer has a prefix of what entered,
  the rest is queued while the receiver lives, and every event is delivered or counted.
\<close>

definition sink_inv :: "sink_op list \<Rightarrow> LoopEventSink \<Rightarrow> bool" where
  "sink_inv ops sk \<longleftrightarrow>
     length (ch_queue (sk_sender sk)) \<le> ch_capacity (sk_sender sk)
     \<and> (ch_open (sk_sender sk) \<longrightarrow> sk_received sk @ ch_queue (sk_sender sk) = sk_sent sk)
     \<and> (\<not> ch_open (sk_sender sk) \<longrightarrow> prefix (sk_received sk) (sk_sent sk) \<and> ch_queue (sk_sender sk) = [])
     \<and> (sk_closed sk \<longrightarrow> \<not> ch_open (sk_sender sk))
     \<and> subseq (map env_event (sk_sent sk)) (emitted ops)
     \<and> (\<not> sk_closed sk \<longrightarrow> length (emitted ops) + recorded ops < 2 ^ 64 \<longrightarrow>
          length (sk_sent sk) + (\<Sum>x\<leftarrow>sk_sent sk. unat (env_dropped_before x)) + unat (sk_dropped sk)
            = length (emitted ops) + recorded ops)"

lemma consume_inv: "sink_inv ops sk \<Longrightarrow> sink_inv ops (consume c sk)"
proof (cases c)
  case Consumer_Recv
  assume "sink_inv ops sk"
  then show ?thesis
    unfolding Consumer_Recv
    by (cases "ch_queue (sk_sender sk)") (auto simp: sink_inv_def mpsc_try_recv_def)
next
  case Consumer_Drop
  assume inv: "sink_inv ops sk"
  then have "prefix (sk_received sk) (sk_sent sk)" unfolding sink_inv_def by (metis prefixI)
  with inv show ?thesis unfolding Consumer_Drop by (simp add: sink_inv_def mpsc_drop_receiver_def)
qed

lemma fold_consume_inv: "sink_inv ops sk \<Longrightarrow> sink_inv ops (fold consume cs sk)"
  by (induction cs arbitrary: sk) (simp_all add: consume_inv)

lemma sink_inv_consumer: "sink_inv ops (sk\<lparr>sk_consumer := r\<rparr>) = sink_inv ops sk"
  by (simp add: sink_inv_def)

lemma consumer_turn_inv: "sink_inv ops sk \<Longrightarrow> sink_inv ops (consumer_turn sk)"
  by (simp add: consumer_turn_def sink_inv_consumer fold_consume_inv split: list.splits)

lemma record_dropped_inv:
  assumes "sink_inv ops sk" shows "sink_inv (ops @ [Op_Record n]) (record_dropped n sk)"
proof -
  have "unat (saturating_add (sk_dropped sk) n) = unat (sk_dropped sk) + unat n"
    if "length (emitted ops) + (recorded ops + unat n) < 2 ^ 64"
      "length (sk_sent sk) + (\<Sum>x\<leftarrow>sk_sent sk. unat (env_dropped_before x)) + unat (sk_dropped sk)
            = length (emitted ops) + recorded ops"
    using that by (simp add: unat_saturating_add)
  then show ?thesis using assms by (auto simp: sink_inv_def record_dropped_def)
qed

lemma subseq_grow: "subseq xs ys \<Longrightarrow> subseq xs (ys @ [e])" "subseq xs ys \<Longrightarrow> subseq (xs @ [e]) (ys @ [e])"
  by (simp_all add: list_emb_prefix subseq_append')

lemma try_emit_inv:
  assumes "sink_inv ops sk" shows "sink_inv (ops @ [Op_Emit e]) (try_emit e sk)"
proof -
  obtain s where s: "s = consumer_turn sk" "sink_inv ops s" using consumer_turn_inv [OF assms] by blast
  have sat: "unat (saturating_add (sk_dropped s) 1) = unat (sk_dropped s) + 1"
    if "Suc (length (emitted ops) + recorded ops) < 2 ^ 64"
      "length (sk_sent s) + (\<Sum>x\<leftarrow>sk_sent s. unat (env_dropped_before x)) + unat (sk_dropped s)
            = length (emitted ops) + recorded ops"
    using that by (simp add: unat_saturating_add)
  consider "sk_closed s" | "\<not> sk_closed s" "\<not> ch_open (sk_sender s)"
    | "\<not> sk_closed s" "ch_open (sk_sender s)" "ch_capacity (sk_sender s) \<le> length (ch_queue (sk_sender s))"
    | "\<not> sk_closed s" "ch_open (sk_sender s)" "length (ch_queue (sk_sender s)) < ch_capacity (sk_sender s)"
    by linarith
  then show ?thesis
  proof cases
    case 3
    then have "try_emit e sk = s\<lparr>sk_dropped := saturating_add (sk_dropped s) 1\<rparr>"
      by (simp add: try_emit_def Let_def s(1) [symmetric] mpsc_try_send_def)
    then show ?thesis using s(2) sat 3 by (simp add: sink_inv_def subseq_grow)
  next
    case 4
    then have "try_emit e sk = s\<lparr>sk_sender := (sk_sender s)\<lparr>ch_queue := ch_queue (sk_sender s)
        @ [\<lparr>env_dropped_before = sk_dropped s, env_event = e\<rparr>]\<rparr>, sk_dropped := 0,
        sk_sent := sk_sent s @ [\<lparr>env_dropped_before = sk_dropped s, env_event = e\<rparr>]\<rparr>"
      by (simp add: try_emit_def Let_def s(1) [symmetric] mpsc_try_send_def)
    then show ?thesis using s(2) 4 by (simp add: sink_inv_def subseq_grow add.assoc)
  qed (use s(2) in \<open>simp_all add: try_emit_def Let_def s(1) [symmetric] mpsc_try_send_def
      sink_inv_def subseq_grow\<close>)
qed

lemma sink_step_inv: "sink_inv ops sk \<Longrightarrow> sink_inv (ops @ [op]) (sink_step op sk)"
  by (cases op) (simp_all add: try_emit_inv record_dropped_inv)

lemma sink_run_inv:
  assumes "LoopEventSink_channel consumer capacity = Ok sk"
  shows "sink_inv ops (fold sink_step ops sk)"
proof (induction ops rule: rev_induct)
  case Nil
  show ?case using assms
    by (auto simp: LoopEventSink_channel_def mpsc_channel_def sink_inv_def split: if_splits)
next
  case (snoc op ops)
  then show ?case using sink_step_inv by simp
qed

subsection \<open>Properties\<close>

text \<open>
  C30: the consumer of a loop's events sees a subsequence of what was emitted, in order, and can
  count what it missed.  Whatever the capacity and whenever it reads, the events it received are
  a prefix of those that entered the channel, these are a subsequence of the emitted ones, and as
  long as the receiver was not found closed every emitted event and every recorded drop is either
  an event in the channel's history or counted, in an envelope or in the pending count.
\<close>
theorem event_drop_accounting:
  assumes "LoopEventSink_channel consumer capacity = Ok sink"
    and "sk = fold sink_step ops sink"
    and "length (emitted ops) + recorded ops < 2 ^ 64"
  shows "prefix (sk_received sk) (sk_sent sk)
     \<and> subseq (map env_event (sk_sent sk)) (emitted ops)
     \<and> length (ch_queue (sk_sender sk)) \<le> ch_capacity (sk_sender sk)
     \<and> (\<not> sk_closed sk \<longrightarrow>
          length (sk_sent sk) + (\<Sum>x\<leftarrow>sk_sent sk. unat (env_dropped_before x)) + unat (sk_dropped sk)
            = length (emitted ops) + recorded ops)"
proof -
  have inv: "sink_inv ops sk" using sink_run_inv [OF assms(1)] assms(2) by simp
  then have "prefix (sk_received sk) (sk_sent sk)"
    unfolding sink_inv_def by (metis prefixI)
  with inv assms(3) show ?thesis unfolding sink_inv_def by blast
qed

theorem event_drop_accounting_witness:
  "\<exists>sink sk. LoopEventSink_channel [[], [], [], [Consumer_Recv]] 1 = Ok sink
     \<and> sk = fold sink_step [Op_Emit (EV_Started (LoopId [])), Op_Emit (EV_Started (LoopId [])),
              Op_Record 5, Op_Emit (EV_Started (LoopId [])), Op_Emit (EV_Started (LoopId []))] sink
     \<and> map env_dropped_before (sk_sent sk) = [0, 7]
     \<and> length (sk_sent sk) + (\<Sum>x\<leftarrow>sk_sent sk. unat (env_dropped_before x)) + unat (sk_dropped sk) = 9"
proof -
  define sink where "sink = \<lparr>sk_sender = mpsc_channel 1, sk_dropped = 0, sk_closed = False,
      sk_consumer = [[], [], [], [Consumer_Recv]], sk_sent = [], sk_received = []\<rparr>"
  define ops where "ops = [Op_Emit (EV_Started (LoopId [])), Op_Emit (EV_Started (LoopId [])),
      Op_Record 5, Op_Emit (EV_Started (LoopId [])), Op_Emit (EV_Started (LoopId []))]"
  have s: "LoopEventSink_channel [[], [], [], [Consumer_Recv]] 1 = Ok sink"
    by (simp add: LoopEventSink_channel_def sink_def MAX_EVENT_CAPACITY_def)
  have n: "length (emitted ops) + recorded ops < 2 ^ 64" by (simp add: ops_def)
  have r: "map env_dropped_before (sk_sent (fold sink_step ops sink)) = [0, 7]"
    "\<not> sk_closed (fold sink_step ops sink)"
    by (simp_all add: ops_def sink_def try_emit_def consumer_turn_def mpsc_try_send_def mpsc_try_recv_def
        mpsc_channel_def record_dropped_def saturating_add_def Let_def)
  show ?thesis
    using event_drop_accounting [OF s refl n] r s
    by (intro exI [of _ sink] exI [of _ "fold sink_step ops sink"]) (simp add: ops_def)
qed

end
