(* ===== verification/Control.thy ===== *)
theory Control
  imports Events
begin

text \<open>
  The control plane of a loop, \<^verbatim>\<open>src/agent_loop/control.rs\<close> and \<^verbatim>\<open>src/agent_loop/handle.rs\<close>: an
  atomic byte that cancellation and the final seal race on, and a mutex around the pending
  configuration, the revisions and the pending interaction.

  The operations are functions on the shared state, each the whole body of the method.  The
  second half of the theory runs them concurrently, one atomic access at a time, and shows that
  every interleaving is a sequence of the whole operations (\<open>control_linearizable\<close>).

  A watch channel is its current value.  A oneshot channel is a cell in \<open>lc_replies\<close>; dropping
  the sender closes an empty cell.
\<close>

subsection \<open>State\<close>

definition STATE_NONE :: u8 where "STATE_NONE = 0"
definition STATE_CANCEL_USER :: u8 where "STATE_CANCEL_USER = 1"
definition STATE_CANCEL_OWNER_DROPPED :: u8 where "STATE_CANCEL_OWNER_DROPPED = 2"
definition STATE_CANCEL_SHUTDOWN :: u8 where "STATE_CANCEL_SHUTDOWN = 3"
definition STATE_FINISHED :: u8 where "STATE_FINISHED = 4"

lemmas state_defs = STATE_NONE_def STATE_CANCEL_USER_def STATE_CANCEL_OWNER_DROPPED_def
  STATE_CANCEL_SHUTDOWN_def STATE_FINISHED_def

datatype FinishSeal = Seal_Clean | Seal_CancelledPrior CancelReason | Seal_AlreadyFinished

datatype CancelSource = CS_User | CS_OwnerDropped | CS_Shutdown

datatype InteractionStateError = IS_Busy

datatype 'a oneshot = Oneshot_Empty | Oneshot_Sent 'a | Oneshot_Closed

record InteractionSlot =
  slot_id :: InteractionId
  slot_expected :: InteractionKind
  slot_reply :: nat

record 'c PendingConfig =
  pc_revision :: ConfigRevision
  pc_config :: 'c

record 'c ControlState =
  cs_interaction :: "InteractionSlot option"
  cs_accepting_updates :: bool
  cs_current_revision :: ConfigRevision
  cs_next_revision :: ConfigRevision
  cs_pending_config :: "'c PendingConfig option"

record 'c LoopControl =
  lc_id :: LoopId
  lc_cancel :: bool
  lc_limits :: LoopLimits
  lc_state_tx :: LoopState
  lc_completion :: "LoopReport option"
  lc_state :: u8
  lc_inner :: "'c ControlState"
  lc_replies :: "InteractionAnswer oneshot list"

definition LoopControl_new ::
  "consumer_op list list \<Rightarrow> LoopId \<Rightarrow> nat \<Rightarrow> LoopLimits \<Rightarrow> ('c LoopControl \<times> LoopEventSink, EventSinkError) result" where
  "LoopControl_new consumer ident event_capacity limits =
     and_then (LoopEventSink_channel consumer event_capacity) (\<lambda>sink.
       Ok (\<lparr>lc_id = ident, lc_cancel = False, lc_limits = limits,
            lc_state_tx = LoopState_new ident LS_Starting 0 ConfigRevision_INITIAL,
            lc_completion = None, lc_state = STATE_NONE,
            lc_inner = \<lparr>cs_interaction = None, cs_accepting_updates = True,
                        cs_current_revision = ConfigRevision_INITIAL,
                        cs_next_revision = ConfigRevision_next ConfigRevision_INITIAL,
                        cs_pending_config = None\<rparr>,
            lc_replies = []\<rparr>, sink))"

subsection \<open>Cancellation and the seal\<close>

definition compare_exchange :: "u8 \<Rightarrow> u8 \<Rightarrow> u8 \<Rightarrow> u8 \<times> (u8, u8) result" where
  "compare_exchange current new st = (if st = current then (new, Ok st) else (st, Err st))"

definition cancel_target :: "CancelSource \<Rightarrow> u8" where
  "cancel_target source =
     (case source of
        CS_User \<Rightarrow> STATE_CANCEL_USER
      | CS_OwnerDropped \<Rightarrow> STATE_CANCEL_OWNER_DROPPED
      | CS_Shutdown \<Rightarrow> STATE_CANCEL_SHUTDOWN)"

definition cancel_reason_value :: "u8 \<Rightarrow> CancelReason" where
  "cancel_reason_value v =
     (if v = STATE_CANCEL_OWNER_DROPPED then CR_OwnerDropped
      else if v = STATE_CANCEL_SHUTDOWN then CR_Shutdown else CR_User)"

definition is_active :: "'c LoopControl \<Rightarrow> bool" where
  "is_active c \<longleftrightarrow> lc_state c = STATE_NONE"

definition is_finished :: "'c LoopControl \<Rightarrow> bool" where
  "is_finished c \<longleftrightarrow> lc_state c = STATE_FINISHED"

definition cancel_reason :: "'c LoopControl \<Rightarrow> CancelReason" where
  "cancel_reason c = cancel_reason_value (lc_state c)"

text \<open>The two atomic accesses of \<open>mark_cancel\<close> apart: the exchange, then the token.\<close>

definition mark_cancel_exchange :: "CancelSource \<Rightarrow> 'c LoopControl \<Rightarrow> 'c LoopControl \<times> bool" where
  "mark_cancel_exchange source c =
     (case compare_exchange STATE_NONE (cancel_target source) (lc_state c) of
        (st, Ok _) \<Rightarrow> (c\<lparr>lc_state := st\<rparr>, True)
      | (st, Err _) \<Rightarrow> (c\<lparr>lc_state := st\<rparr>, False))"

definition cancel_token :: "'c LoopControl \<Rightarrow> 'c LoopControl" where
  "cancel_token c = c\<lparr>lc_cancel := True\<rparr>"

definition mark_cancel :: "CancelSource \<Rightarrow> 'c LoopControl \<Rightarrow> 'c LoopControl \<times> bool" where
  "mark_cancel source c =
     (case mark_cancel_exchange source c of
        (c', True) \<Rightarrow> (cancel_token c', True)
      | (c', False) \<Rightarrow> (c', False))"

text \<open>\<open>None\<close> is the panic of \<open>unreachable!\<close>.\<close>

definition seal_exchange :: "u8 \<Rightarrow> (u8 \<times> FinishSeal) option" where
  "seal_exchange st =
     (case compare_exchange STATE_NONE STATE_FINISHED st of
        (st', Ok _) \<Rightarrow> Some (st', Seal_Clean)
      | (st', Err v) \<Rightarrow>
          if v = STATE_NONE then None
          else if STATE_CANCEL_USER \<le> v \<and> v \<le> STATE_CANCEL_SHUTDOWN
          then Some (fst (compare_exchange v STATE_FINISHED st'),
                     Seal_CancelledPrior (cancel_reason_value v))
          else if v = STATE_FINISHED then Some (st', Seal_AlreadyFinished)
          else None)"

definition close_accepting :: "'c LoopControl \<Rightarrow> 'c LoopControl \<times> 'c option" where
  "close_accepting c =
     (c\<lparr>lc_inner := (lc_inner c)\<lparr>cs_accepting_updates := False, cs_pending_config := None\<rparr>\<rparr>,
      map_option pc_config (cs_pending_config (lc_inner c)))"

definition finish_once :: "'c LoopControl \<Rightarrow> ('c LoopControl \<times> FinishSeal \<times> 'c option) option" where
  "finish_once c =
     (case seal_exchange (lc_state c) of
        None \<Rightarrow> None
      | Some (st, seal) \<Rightarrow>
          (case close_accepting (c\<lparr>lc_state := st\<rparr>) of (c', discarded) \<Rightarrow> Some (c', seal, discarded)))"

definition begin_final :: "'c LoopControl \<Rightarrow> 'c LoopControl \<times> 'c option" where
  "begin_final c = close_accepting c"

subsection \<open>Configuration updates\<close>

definition install_config :: "'c \<Rightarrow> 'c LoopControl \<Rightarrow> 'c LoopControl" where
  "install_config config c =
     (let inner = lc_inner c; revision = cs_next_revision inner in
      c\<lparr>lc_inner := inner\<lparr>cs_next_revision := ConfigRevision_next revision,
          cs_pending_config := Some \<lparr>pc_revision = revision, pc_config = config\<rparr>\<rparr>\<rparr>)"

definition update_section :: "'c \<Rightarrow> 'c LoopControl \<Rightarrow> 'c LoopControl \<times> (ConfigRevision, UpdateError) result" where
  "update_section config c =
     (if \<not> cs_accepting_updates (lc_inner c) \<or> \<not> is_active c then (c, Err UE_NotActive)
      else (install_config config c, Ok (cs_next_revision (lc_inner c))))"

text \<open>The outer option is a panic of the serialiser during validation.\<close>

definition update ::
  "json serializer \<Rightarrow> ('m, 't, 'p, 'q) ExecutionConfig \<Rightarrow> ('m, 't, 'p, 'q) ExecutionConfig LoopControl \<Rightarrow>
     (('m, 't, 'p, 'q) ExecutionConfig LoopControl \<times> (ConfigRevision, UpdateError) result) option" where
  "update ser config c =
     (if \<not> is_active c then Some (c, Err UE_NotActive)
      else case validate_against_limits ser config (lc_limits c) of
        None \<Rightarrow> None
      | Some (Err _) \<Rightarrow> Some (c, Err UE_InvalidConfig)
      | Some (Ok _) \<Rightarrow> Some (update_section config c))"

definition take_config :: "'c LoopControl \<Rightarrow> 'c LoopControl \<times> (ConfigRevision \<times> 'c) option" where
  "take_config c =
     (c\<lparr>lc_inner := (lc_inner c)\<lparr>cs_pending_config := None\<rparr>\<rparr>,
      map_option (\<lambda>p. (pc_revision p, pc_config p)) (cs_pending_config (lc_inner c)))"

definition commit_revision :: "ConfigRevision \<Rightarrow> 'c LoopControl \<Rightarrow> 'c LoopControl" where
  "commit_revision revision c = c\<lparr>lc_inner := (lc_inner c)\<lparr>cs_current_revision := revision\<rparr>\<rparr>"

definition applied_revision :: "'c LoopControl \<Rightarrow> ConfigRevision" where
  "applied_revision c = cs_current_revision (lc_inner c)"

subsection \<open>Interactions\<close>

definition oneshot_channel :: "'c LoopControl \<Rightarrow> 'c LoopControl \<times> nat" where
  "oneshot_channel c = (c\<lparr>lc_replies := lc_replies c @ [Oneshot_Empty]\<rparr>, length (lc_replies c))"

definition drop_sender :: "nat \<Rightarrow> 'c LoopControl \<Rightarrow> 'c LoopControl" where
  "drop_sender i c =
     c\<lparr>lc_replies := (lc_replies c)[i :=
         (case lc_replies c ! i of Oneshot_Empty \<Rightarrow> Oneshot_Closed | x \<Rightarrow> x)]\<rparr>"

definition set_interaction ::
  "InteractionSlot \<Rightarrow> 'c LoopControl \<Rightarrow> 'c LoopControl \<times> (unit, InteractionStateError) result" where
  "set_interaction slot c =
     (case cs_interaction (lc_inner c) of
        Some _ \<Rightarrow> (drop_sender (slot_reply slot) c, Err IS_Busy)
      | None \<Rightarrow> (c\<lparr>lc_inner := (lc_inner c)\<lparr>cs_interaction := Some slot\<rparr>\<rparr>, Ok ()))"

text \<open>Every caller drops the slot it takes.\<close>

definition take_interaction :: "'c LoopControl \<Rightarrow> 'c LoopControl" where
  "take_interaction c =
     (case cs_interaction (lc_inner c) of
        None \<Rightarrow> c
      | Some slot \<Rightarrow> drop_sender (slot_reply slot) (c\<lparr>lc_inner := (lc_inner c)\<lparr>cs_interaction := None\<rparr>\<rparr>))"

definition send_reply :: "InteractionSlot \<Rightarrow> InteractionAnswer \<Rightarrow> 'c LoopControl \<Rightarrow> 'c LoopControl" where
  "send_reply slot a c =
     c\<lparr>lc_inner := (lc_inner c)\<lparr>cs_interaction := None\<rparr>,
       lc_replies := (lc_replies c)[slot_reply slot := Oneshot_Sent a]\<rparr>"

definition answer_check ::
  "InteractionId \<Rightarrow> InteractionAnswer \<Rightarrow> 'c LoopControl \<Rightarrow> (InteractionSlot, AnswerError) result" where
  "answer_check interaction_id a c =
     (if \<not> cs_accepting_updates (lc_inner c) \<or> \<not> is_active c then Err AE_NotActive
      else case cs_interaction (lc_inner c) of
        None \<Rightarrow> Err AE_InteractionNotFound
      | Some slot \<Rightarrow>
          if slot_id slot \<noteq> interaction_id then Err AE_WrongInteraction
          else case InteractionAnswer_validate a (slot_expected slot) of
            Err _ \<Rightarrow> Err AE_WrongInteraction
          | Ok _ \<Rightarrow> Ok slot)"

definition answer ::
  "InteractionId \<Rightarrow> InteractionAnswer \<Rightarrow> 'c LoopControl \<Rightarrow> 'c LoopControl \<times> (unit, AnswerError) result" where
  "answer interaction_id a c =
     (case answer_check interaction_id a c of
        Err e \<Rightarrow> (c, Err e)
      | Ok slot \<Rightarrow> (send_reply slot a c, Ok ()))"

subsection \<open>Watch channels and handles\<close>

definition publish_state :: "LoopState \<Rightarrow> 'c LoopControl \<Rightarrow> 'c LoopControl" where
  "publish_state st c = c\<lparr>lc_state_tx := st\<rparr>"

definition current_state :: "'c LoopControl \<Rightarrow> LoopState" where
  "current_state c = lc_state_tx c"

definition published_report :: "'c LoopControl \<Rightarrow> LoopReport option" where
  "published_report c = lc_completion c"

definition LoopHandle_cancel :: "'c LoopControl \<Rightarrow> 'c LoopControl \<times> bool" where
  "LoopHandle_cancel c = mark_cancel CS_User c"

definition LoopHandle_shutdown :: "'c LoopControl \<Rightarrow> 'c LoopControl \<times> bool" where
  "LoopHandle_shutdown c = mark_cancel CS_Shutdown c"

text \<open>The other methods of a handle read the control plane or hand the call on to it.\<close>

definition LoopHandle_id :: "'c LoopControl \<Rightarrow> LoopId" where
  "LoopHandle_id c = lc_id c"

definition LoopHandle_state :: "'c LoopControl \<Rightarrow> LoopState" where
  "LoopHandle_state c = current_state c"

definition LoopHandle_is_finished :: "'c LoopControl \<Rightarrow> bool" where
  "LoopHandle_is_finished c = is_finished c"

definition LoopHandle_answer ::
  "InteractionId \<Rightarrow> InteractionAnswer \<Rightarrow> 'c LoopControl \<Rightarrow> 'c LoopControl \<times> (unit, AnswerError) result" where
  "LoopHandle_answer interaction_id a c = answer interaction_id a c"

definition LoopHandle_update ::
  "json serializer \<Rightarrow> ('m, 't, 'p, 'q) ExecutionConfig \<Rightarrow> ('m, 't, 'p, 'q) ExecutionConfig LoopControl \<Rightarrow>
     (('m, 't, 'p, 'q) ExecutionConfig LoopControl \<times> (ConfigRevision, UpdateError) result) option" where
  "LoopHandle_update ser config c = update ser config c"

text \<open>
  \<open>wait\<close> looks at the completion channel once per change; \<open>seen\<close> are the values it sees and
  \<open>closed\<close> says whether the sender is gone after the last one.
\<close>

fun LoopHandle_wait :: "LoopReport option list \<Rightarrow> bool \<Rightarrow> (LoopReport, LoopWaitError) result async" where
  "LoopHandle_wait [] closed = (if closed then Done (Err LW_CompletionClosed) else Pending)"
| "LoopHandle_wait (Some report # seen) closed = Done (Ok report)"
| "LoopHandle_wait (None # seen) closed = LoopHandle_wait seen closed"

subsection \<open>Operations as data\<close>

text \<open>
  The operations other threads and the runner perform on the shared state.  \<open>mark_cancel\<close> is two
  of them, because the token is cancelled after the exchange and the runner can look in between.
\<close>

datatype 'c control_op =
    Op_Cancel CancelSource
  | Op_Token
  | Op_Update 'c
  | Op_Answer InteractionId InteractionAnswer
  | Op_Finish
  | Op_Take_Config
  | Op_Begin_Final
  | Op_Commit ConfigRevision
  | Op_Set_Interaction InteractionSlot
  | Op_Take_Interaction

datatype 'c control_result =
    Res_Unit
  | Res_Bool bool
  | Res_Update "(ConfigRevision, UpdateError) result"
  | Res_Answer "(unit, AnswerError) result"
  | Res_Finish FinishSeal "'c option"
  | Res_Config "(ConfigRevision \<times> 'c) option"
  | Res_Discarded "'c option"
  | Res_Set "(unit, InteractionStateError) result"

type_synonym ('m, 't, 'p, 'q) config_op = "('m, 't, 'p, 'q) ExecutionConfig control_op"
type_synonym ('m, 't, 'p, 'q) config_result = "('m, 't, 'p, 'q) ExecutionConfig control_result"
type_synonym ('m, 't, 'p, 'q) control = "('m, 't, 'p, 'q) ExecutionConfig LoopControl"

fun apply_op ::
  "json serializer \<Rightarrow> ('m, 't, 'p, 'q) config_op \<Rightarrow> ('m, 't, 'p, 'q) control \<Rightarrow>
     (('m, 't, 'p, 'q) control \<times> ('m, 't, 'p, 'q) config_result) option" where
  "apply_op ser (Op_Cancel s) c = Some (map_prod (\<lambda>x. x) Res_Bool (mark_cancel_exchange s c))"
| "apply_op ser Op_Token c = Some (cancel_token c, Res_Unit)"
| "apply_op ser (Op_Update config) c = map_option (map_prod (\<lambda>x. x) Res_Update) (update ser config c)"
| "apply_op ser (Op_Answer i a) c = Some (map_prod (\<lambda>x. x) Res_Answer (answer i a c))"
| "apply_op ser Op_Finish c = map_option (\<lambda>(c', seal, d). (c', Res_Finish seal d)) (finish_once c)"
| "apply_op ser Op_Take_Config c = Some (map_prod (\<lambda>x. x) Res_Config (take_config c))"
| "apply_op ser Op_Begin_Final c = Some (map_prod (\<lambda>x. x) Res_Discarded (begin_final c))"
| "apply_op ser (Op_Commit r) c = Some (commit_revision r c, Res_Unit)"
| "apply_op ser (Op_Set_Interaction slot) c = Some (map_prod (\<lambda>x. x) Res_Set (set_interaction slot c))"
| "apply_op ser Op_Take_Interaction c = Some (take_interaction c, Res_Unit)"

text \<open>A history is legal when each operation, applied in order, gives the recorded result.\<close>

inductive legal ::
  "json serializer \<Rightarrow> ('m, 't, 'p, 'q) control \<Rightarrow> (('m, 't, 'p, 'q) config_op \<times> ('m, 't, 'p, 'q) config_result) list \<Rightarrow>
     ('m, 't, 'p, 'q) control \<Rightarrow> bool" for ser c0 where
  legal_Nil: "legal ser c0 [] c0"
| legal_snoc: "legal ser c0 h c \<Longrightarrow> apply_op ser op c = Some (c', r) \<Longrightarrow> legal ser c0 (h @ [(op, r)]) c'"

subsection \<open>One atomic access at a time\<close>

text \<open>
  Where a thread is inside a method: past the exchange of \<open>mark_cancel\<close>; in \<open>update\<close> before the
  lock, inside it before the check, and after the check before the write; in \<open>answer\<close> and in
  \<open>finish_once\<close> inside the lock; or about to unlock and return.
\<close>

datatype 'c pc =
    At_Rest
  | At_Token CancelSource
  | At_Update_Lock 'c
  | At_Update_Check 'c
  | At_Update_Write 'c
  | At_Answer_Check InteractionId InteractionAnswer
  | At_Answer_Write InteractionId InteractionAnswer InteractionSlot
  | At_Finish_Exchange
  | At_Finish_Second u8
  | At_Finish_Close FinishSeal
  | At_Unlock "'c control_op" "'c control_result"

text \<open>
  \<open>mc_lin\<close> records the operations in the order in which they took effect, \<open>mc_ret\<close> what the
  methods returned to their callers.
\<close>

record 'c machine =
  mc_ctl :: "'c LoopControl"
  mc_lock :: "nat option"
  mc_pc :: "nat \<Rightarrow> 'c pc"
  mc_lin :: "(nat \<times> 'c control_op \<times> 'c control_result) list"
  mc_ret :: "(nat \<times> 'c control_op \<times> 'c control_result) list"

definition machine_start :: "'c LoopControl \<Rightarrow> 'c machine" where
  "machine_start c = \<lparr>mc_ctl = c, mc_lock = None, mc_pc = (\<lambda>_. At_Rest), mc_lin = [], mc_ret = []\<rparr>"

definition goto :: "nat \<Rightarrow> 'c pc \<Rightarrow> 'c machine \<Rightarrow> 'c machine" where
  "goto t p m = m\<lparr>mc_pc := (mc_pc m)(t := p)\<rparr>"

definition takes_effect :: "nat \<Rightarrow> 'c control_op \<Rightarrow> 'c control_result \<Rightarrow> 'c machine \<Rightarrow> 'c machine" where
  "takes_effect t op r m = m\<lparr>mc_lin := mc_lin m @ [(t, op, r)]\<rparr>"

definition returns :: "nat \<Rightarrow> 'c control_op \<Rightarrow> 'c control_result \<Rightarrow> 'c machine \<Rightarrow> 'c machine" where
  "returns t op r m = m\<lparr>mc_ret := mc_ret m @ [(t, op, r)]\<rparr>"

definition lone_section :: "'c control_op \<Rightarrow> bool" where
  "lone_section op \<longleftrightarrow> (case op of
       Op_Take_Config \<Rightarrow> True | Op_Begin_Final \<Rightarrow> True | Op_Commit _ \<Rightarrow> True
     | Op_Set_Interaction _ \<Rightarrow> True | Op_Take_Interaction \<Rightarrow> True | _ \<Rightarrow> False)"

inductive machine_step ::
  "json serializer \<Rightarrow> ('m, 't, 'p, 'q) ExecutionConfig machine \<Rightarrow> ('m, 't, 'p, 'q) ExecutionConfig machine \<Rightarrow> bool"
  for ser where
  cancel_won: "mc_pc m t = At_Rest \<Longrightarrow> mark_cancel_exchange s (mc_ctl m) = (c, True) \<Longrightarrow>
    machine_step ser m (goto t (At_Token s) (takes_effect t (Op_Cancel s) (Res_Bool True) (m\<lparr>mc_ctl := c\<rparr>)))"
| cancel_lost: "mc_pc m t = At_Rest \<Longrightarrow> mark_cancel_exchange s (mc_ctl m) = (c, False) \<Longrightarrow>
    machine_step ser m (returns t (Op_Cancel s) (Res_Bool False)
      (takes_effect t (Op_Cancel s) (Res_Bool False) (m\<lparr>mc_ctl := c\<rparr>)))"
| token: "mc_pc m t = At_Token s \<Longrightarrow>
    machine_step ser m (goto t At_Rest (returns t Op_Token Res_Unit (returns t (Op_Cancel s) (Res_Bool True)
      (takes_effect t Op_Token Res_Unit (m\<lparr>mc_ctl := cancel_token (mc_ctl m)\<rparr>)))))"
| update_early: "mc_pc m t = At_Rest \<Longrightarrow> \<not> is_active (mc_ctl m) \<Longrightarrow> r = Res_Update (Err UE_NotActive) \<Longrightarrow>
    machine_step ser m (returns t (Op_Update cfg) r (takes_effect t (Op_Update cfg) r m))"
| update_invalid: "mc_pc m t = At_Rest \<Longrightarrow> is_active (mc_ctl m) \<Longrightarrow>
    validate_against_limits ser cfg (lc_limits (mc_ctl m)) = Some (Err e) \<Longrightarrow> r = Res_Update (Err UE_InvalidConfig) \<Longrightarrow>
    machine_step ser m (returns t (Op_Update cfg) r (takes_effect t (Op_Update cfg) r m))"
| update_valid: "mc_pc m t = At_Rest \<Longrightarrow> is_active (mc_ctl m) \<Longrightarrow>
    validate_against_limits ser cfg (lc_limits (mc_ctl m)) = Some (Ok ()) \<Longrightarrow>
    machine_step ser m (goto t (At_Update_Lock cfg) m)"
| update_lock: "mc_pc m t = At_Update_Lock cfg \<Longrightarrow> mc_lock m = None \<Longrightarrow>
    machine_step ser m (goto t (At_Update_Check cfg) (m\<lparr>mc_lock := Some t\<rparr>))"
| update_refused: "mc_pc m t = At_Update_Check cfg \<Longrightarrow>
    \<not> cs_accepting_updates (lc_inner (mc_ctl m)) \<or> \<not> is_active (mc_ctl m) \<Longrightarrow> r = Res_Update (Err UE_NotActive) \<Longrightarrow>
    machine_step ser m (goto t (At_Unlock (Op_Update cfg) r) (takes_effect t (Op_Update cfg) r m))"
| update_check: "mc_pc m t = At_Update_Check cfg \<Longrightarrow>
    cs_accepting_updates (lc_inner (mc_ctl m)) \<Longrightarrow> is_active (mc_ctl m) \<Longrightarrow>
    machine_step ser m (goto t (At_Update_Write cfg)
      (takes_effect t (Op_Update cfg) (Res_Update (Ok (cs_next_revision (lc_inner (mc_ctl m))))) m))"
| update_write: "mc_pc m t = At_Update_Write cfg \<Longrightarrow>
    machine_step ser m (goto t (At_Unlock (Op_Update cfg) (Res_Update (Ok (cs_next_revision (lc_inner (mc_ctl m))))))
      (m\<lparr>mc_ctl := install_config cfg (mc_ctl m)\<rparr>))"
| answer_lock: "mc_pc m t = At_Rest \<Longrightarrow> mc_lock m = None \<Longrightarrow>
    machine_step ser m (goto t (At_Answer_Check i a) (m\<lparr>mc_lock := Some t\<rparr>))"
| answer_refused: "mc_pc m t = At_Answer_Check i a \<Longrightarrow> answer_check i a (mc_ctl m) = Err e \<Longrightarrow> r = Res_Answer (Err e) \<Longrightarrow>
    machine_step ser m (goto t (At_Unlock (Op_Answer i a) r) (takes_effect t (Op_Answer i a) r m))"
| answer_check: "mc_pc m t = At_Answer_Check i a \<Longrightarrow> answer_check i a (mc_ctl m) = Ok slot \<Longrightarrow>
    machine_step ser m (goto t (At_Answer_Write i a slot) (takes_effect t (Op_Answer i a) (Res_Answer (Ok ())) m))"
| answer_write: "mc_pc m t = At_Answer_Write i a slot \<Longrightarrow>
    machine_step ser m (goto t (At_Unlock (Op_Answer i a) (Res_Answer (Ok ())))
      (m\<lparr>mc_ctl := send_reply slot a (mc_ctl m)\<rparr>))"
| finish_lock: "mc_pc m t = At_Rest \<Longrightarrow> mc_lock m = None \<Longrightarrow>
    machine_step ser m (goto t At_Finish_Exchange (m\<lparr>mc_lock := Some t\<rparr>))"
| finish_clean: "mc_pc m t = At_Finish_Exchange \<Longrightarrow>
    compare_exchange STATE_NONE STATE_FINISHED (lc_state (mc_ctl m)) = (st, Ok v) \<Longrightarrow>
    machine_step ser m (goto t (At_Finish_Close Seal_Clean)
      (takes_effect t Op_Finish (Res_Finish Seal_Clean (snd (close_accepting (mc_ctl m))))
        (m\<lparr>mc_ctl := (mc_ctl m)\<lparr>lc_state := st\<rparr>\<rparr>)))"
| finish_already: "mc_pc m t = At_Finish_Exchange \<Longrightarrow>
    compare_exchange STATE_NONE STATE_FINISHED (lc_state (mc_ctl m)) = (st, Err v) \<Longrightarrow> v = STATE_FINISHED \<Longrightarrow>
    machine_step ser m (goto t (At_Finish_Close Seal_AlreadyFinished)
      (takes_effect t Op_Finish (Res_Finish Seal_AlreadyFinished (snd (close_accepting (mc_ctl m)))) m))"
| finish_cancelled: "mc_pc m t = At_Finish_Exchange \<Longrightarrow>
    compare_exchange STATE_NONE STATE_FINISHED (lc_state (mc_ctl m)) = (st, Err v) \<Longrightarrow>
    STATE_CANCEL_USER \<le> v \<Longrightarrow> v \<le> STATE_CANCEL_SHUTDOWN \<Longrightarrow>
    machine_step ser m (goto t (At_Finish_Second v) m)"
| finish_second: "mc_pc m t = At_Finish_Second v \<Longrightarrow>
    compare_exchange v STATE_FINISHED (lc_state (mc_ctl m)) = (st, ignored) \<Longrightarrow>
    seal = Seal_CancelledPrior (cancel_reason_value v) \<Longrightarrow>
    machine_step ser m (goto t (At_Finish_Close seal)
      (takes_effect t Op_Finish (Res_Finish seal (snd (close_accepting (mc_ctl m))))
        (m\<lparr>mc_ctl := (mc_ctl m)\<lparr>lc_state := st\<rparr>\<rparr>)))"
| finish_close: "mc_pc m t = At_Finish_Close seal \<Longrightarrow> close_accepting (mc_ctl m) = (c, discarded) \<Longrightarrow>
    machine_step ser m (goto t (At_Unlock Op_Finish (Res_Finish seal discarded)) (m\<lparr>mc_ctl := c\<rparr>))"
| unlock: "mc_pc m t = At_Unlock op r \<Longrightarrow>
    machine_step ser m (goto t At_Rest (returns t op r (m\<lparr>mc_lock := None\<rparr>)))"
| alone: "mc_pc m t = At_Rest \<Longrightarrow> mc_lock m = None \<Longrightarrow> lone_section op \<Longrightarrow>
    apply_op ser op (mc_ctl m) = Some (c, r) \<Longrightarrow>
    machine_step ser m (returns t op r (takes_effect t op r (m\<lparr>mc_ctl := c\<rparr>)))"

subsection \<open>The interleavings are sequences of whole operations\<close>

text \<open>
  The state the finished operations account for: what the holder of the lock has decided but
  not yet written is already in it.
\<close>

definition settle :: "'c pc \<Rightarrow> 'c LoopControl \<Rightarrow> 'c LoopControl" where
  "settle p c =
     (case p of
        At_Update_Write cfg \<Rightarrow> install_config cfg c
      | At_Answer_Write i a slot \<Rightarrow> send_reply slot a c
      | At_Finish_Close seal \<Rightarrow> fst (close_accepting c)
      | _ \<Rightarrow> c)"

definition settled :: "'c machine \<Rightarrow> 'c LoopControl" where
  "settled m = (case mc_lock m of None \<Rightarrow> mc_ctl m | Some t \<Rightarrow> settle (mc_pc m t) (mc_ctl m))"

definition unreturned :: "'c LoopControl \<Rightarrow> 'c pc \<Rightarrow> ('c control_op \<times> 'c control_result) list" where
  "unreturned c p =
     (case p of
        At_Token s \<Rightarrow> [(Op_Cancel s, Res_Bool True)]
      | At_Update_Write cfg \<Rightarrow> [(Op_Update cfg, Res_Update (Ok (cs_next_revision (lc_inner c))))]
      | At_Answer_Write i a slot \<Rightarrow> [(Op_Answer i a, Res_Answer (Ok ()))]
      | At_Finish_Close seal \<Rightarrow> [(Op_Finish, Res_Finish seal (snd (close_accepting c)))]
      | At_Unlock op r \<Rightarrow> [(op, r)]
      | _ \<Rightarrow> [])"

definition inside_lock :: "'c pc \<Rightarrow> bool" where
  "inside_lock p \<longleftrightarrow> (case p of At_Rest \<Rightarrow> False | At_Token _ \<Rightarrow> False | At_Update_Lock _ \<Rightarrow> False | _ \<Rightarrow> True)"

definition pc_ok :: "json serializer \<Rightarrow> ('m, 't, 'p, 'q) control \<Rightarrow> ('m, 't, 'p, 'q) ExecutionConfig pc \<Rightarrow> bool" where
  "pc_ok ser c p \<longleftrightarrow>
     (case p of
        At_Update_Lock cfg \<Rightarrow> validate_against_limits ser cfg (lc_limits c) = Some (Ok ())
      | At_Update_Check cfg \<Rightarrow> validate_against_limits ser cfg (lc_limits c) = Some (Ok ())
      | At_Finish_Second v \<Rightarrow> lc_state c = v \<and> STATE_CANCEL_USER \<le> v \<and> v \<le> STATE_CANCEL_SHUTDOWN
      | _ \<Rightarrow> True)"

text \<open>The part of a history that belongs to one thread.\<close>

definition history_of :: "nat \<Rightarrow> (nat \<times> 'c control_op \<times> 'c control_result) list \<Rightarrow> ('c control_op \<times> 'c control_result) list" where
  "history_of t h = map snd (filter (\<lambda>e. fst e = t) h)"

lemma history_of_simps [simp]:
  "history_of t (h @ k) = history_of t h @ history_of t k"
  "history_of t ((u, e) # h) = (if u = t then e # history_of t h else history_of t h)"
  "history_of t [] = []"
  by (simp_all add: history_of_def)

definition machine_inv ::
  "json serializer \<Rightarrow> ('m, 't, 'p, 'q) control \<Rightarrow> ('m, 't, 'p, 'q) ExecutionConfig machine \<Rightarrow> bool" where
  "machine_inv ser c0 m \<longleftrightarrow>
     legal ser c0 (map snd (mc_lin m)) (settled m)
     \<and> (\<forall>t. history_of t (mc_lin m) = history_of t (mc_ret m) @ unreturned (mc_ctl m) (mc_pc m t))
     \<and> (\<forall>t. inside_lock (mc_pc m t) \<longleftrightarrow> mc_lock m = Some t)
     \<and> (\<forall>t. pc_ok ser (mc_ctl m) (mc_pc m t))"

lemmas machine_simps = goto_def takes_effect_def returns_def

lemma machine_inv_start: "machine_inv ser c0 (machine_start c0)"
  by (simp add: machine_inv_def machine_start_def settled_def unreturned_def inside_lock_def pc_ok_def
      legal_Nil)

text \<open>How the whole operations relate to their parts.\<close>

lemma apply_update_section:
  assumes "validate_against_limits ser cfg (lc_limits c) = Some (Ok ())"
  shows "apply_op ser (Op_Update cfg) c =
    Some (if \<not> cs_accepting_updates (lc_inner c) \<or> \<not> is_active c then (c, Res_Update (Err UE_NotActive))
          else (install_config cfg c, Res_Update (Ok (cs_next_revision (lc_inner c)))))"
  using assms by (simp add: update_def update_section_def)

lemma apply_finish:
  assumes "seal_exchange (lc_state c) = Some (st, seal)"
  shows "apply_op ser Op_Finish c =
    Some (fst (close_accepting (c\<lparr>lc_state := st\<rparr>)), Res_Finish seal (snd (close_accepting c)))"
  using assms by (simp add: finish_once_def close_accepting_def)

lemma seal_exchange_simps:
  "seal_exchange STATE_NONE = Some (STATE_FINISHED, Seal_Clean)"
  "seal_exchange STATE_FINISHED = Some (STATE_FINISHED, Seal_AlreadyFinished)"
  "STATE_CANCEL_USER \<le> v \<Longrightarrow> v \<le> STATE_CANCEL_SHUTDOWN \<Longrightarrow>
     seal_exchange v = Some (STATE_FINISHED, Seal_CancelledPrior (cancel_reason_value v))"
  by (auto simp: seal_exchange_def compare_exchange_def state_defs)

lemma exchange_cases:
  "mark_cancel_exchange s c =
     (if lc_state c = STATE_NONE then (c\<lparr>lc_state := cancel_target s\<rparr>, True) else (c, False))"
  by (simp add: mark_cancel_exchange_def compare_exchange_def)

lemma inside_lock_simps [simp]:
  "\<not> inside_lock At_Rest" "\<not> inside_lock (At_Token s)" "\<not> inside_lock (At_Update_Lock cfg)"
  "inside_lock (At_Update_Check cfg)" "inside_lock (At_Update_Write cfg)" "inside_lock (At_Answer_Check i a)"
  "inside_lock (At_Answer_Write i a slot)" "inside_lock At_Finish_Exchange" "inside_lock (At_Finish_Second v)"
  "inside_lock (At_Finish_Close seal)" "inside_lock (At_Unlock op r)"
  by (simp_all add: inside_lock_def)

lemma unreturned_simps [simp]:
  "unreturned c At_Rest = []" "unreturned c (At_Token s) = [(Op_Cancel s, Res_Bool True)]"
  "unreturned c (At_Update_Lock cfg) = []" "unreturned c (At_Update_Check cfg) = []"
  "unreturned c (At_Update_Write cfg) = [(Op_Update cfg, Res_Update (Ok (cs_next_revision (lc_inner c))))]"
  "unreturned c (At_Answer_Check i a) = []"
  "unreturned c (At_Answer_Write i a slot) = [(Op_Answer i a, Res_Answer (Ok ()))]"
  "unreturned c At_Finish_Exchange = []" "unreturned c (At_Finish_Second v) = []"
  "unreturned c (At_Finish_Close seal) = [(Op_Finish, Res_Finish seal (snd (close_accepting c)))]"
  "unreturned c (At_Unlock op r) = [(op, r)]"
  by (simp_all add: unreturned_def)

lemma step_locks:
  assumes "machine_step ser m m'" and at: "\<And>t. inside_lock (mc_pc m t) \<longleftrightarrow> mc_lock m = Some t"
  shows "inside_lock (mc_pc m' u) \<longleftrightarrow> mc_lock m' = Some u"
  using assms(1)
proof cases
qed (use at [of u] at in \<open>force simp: machine_simps\<close>)+

lemma unreturned_frame:
  assumes "inside_lock p \<longrightarrow> lc_inner c = lc_inner c'"
  shows "unreturned c p = unreturned c' p"
  using assms by (cases p) (auto simp: close_accepting_def)

lemma step_inner_frame:
  assumes "machine_step ser m m'" and at: "\<And>t. inside_lock (mc_pc m t) \<longleftrightarrow> mc_lock m = Some t"
    and "inside_lock (mc_pc m u)" and "mc_pc m' u = mc_pc m u"
  shows "lc_inner (mc_ctl m') = lc_inner (mc_ctl m)"
  using assms(1)
proof cases
qed (use at [of u] at assms(3,4) in \<open>force simp: machine_simps exchange_cases cancel_token_def split: if_splits\<close>)+

lemma step_history:
  assumes step: "machine_step ser m m'" and at: "\<And>t. inside_lock (mc_pc m t) \<longleftrightarrow> mc_lock m = Some t"
    and hist: "\<And>t. history_of t (mc_lin m) = history_of t (mc_ret m) @ unreturned (mc_ctl m) (mc_pc m t)"
  shows "history_of u (mc_lin m') = history_of u (mc_ret m') @ unreturned (mc_ctl m') (mc_pc m' u)"
proof (cases "mc_pc m' u = mc_pc m u")
  case True
  then have frame: "unreturned (mc_ctl m') (mc_pc m u) = unreturned (mc_ctl m) (mc_pc m u)"
    using step_inner_frame [OF step at] by (intro unreturned_frame) auto
  from step show ?thesis
    by cases (use frame hist [of u] True in \<open>auto simp: machine_simps split: if_splits\<close>)
next
  case False
  from step show ?thesis
    by cases (use hist [of u] False in \<open>auto simp: machine_simps exchange_cases cancel_token_def
        close_accepting_def split: if_splits\<close>)
qed

lemmas control_defs = cancel_token_def install_config_def send_reply_def close_accepting_def
  take_config_def begin_final_def commit_revision_def set_interaction_def take_interaction_def drop_sender_def

lemma lone_section_fields:
  assumes "lone_section op" "apply_op ser op c = Some (c', r)"
  shows "lc_limits c' = lc_limits c \<and> lc_state c' = lc_state c \<and> lc_cancel c' = lc_cancel c"
  using assms by (cases op) (auto simp: lone_section_def control_defs split: option.splits)

lemma step_limits:
  assumes "machine_step ser m m'" shows "lc_limits (mc_ctl m') = lc_limits (mc_ctl m)"
  using assms by cases (auto simp: machine_simps exchange_cases control_defs Let_def lone_section_fields
      split: if_splits)

lemma step_state:
  assumes "machine_step ser m m'" and "lc_state (mc_ctl m) \<noteq> STATE_NONE"
  shows "lc_state (mc_ctl m') = lc_state (mc_ctl m)
     \<or> (\<exists>t v. mc_pc m t = At_Finish_Second v \<and> mc_pc m' t \<noteq> mc_pc m t)"
  using assms(1)
  by cases (use assms(2) in \<open>auto simp: machine_simps exchange_cases compare_exchange_def control_defs Let_def
      lone_section_fields split: if_splits\<close>)

lemma step_pc_ok:
  assumes step: "machine_step ser m m'" and at: "\<And>t. inside_lock (mc_pc m t) \<longleftrightarrow> mc_lock m = Some t"
    and ok: "\<And>t. pc_ok ser (mc_ctl m) (mc_pc m t)"
  shows "pc_ok ser (mc_ctl m') (mc_pc m' u)"
proof (cases "mc_pc m' u = mc_pc m u")
  case True
  have "lc_state (mc_ctl m') = lc_state (mc_ctl m)" if second: "mc_pc m u = At_Finish_Second v" for v
  proof -
    have "lc_state (mc_ctl m) \<noteq> STATE_NONE"
      using ok [of u] second by (auto simp: pc_ok_def state_defs)
    moreover have "t = u" if "mc_pc m t = At_Finish_Second w" for t w
      using at [of t] at [of u] second that by simp
    ultimately show ?thesis using step_state [OF step] True by metis
  qed
  then show ?thesis using ok [of u] True step_limits [OF step] by (cases "mc_pc m u") (auto simp: pc_ok_def)
next
  case False
  from step show ?thesis
    by cases (use ok [of u] False step_limits [OF step] in
        \<open>auto simp: machine_simps pc_ok_def compare_exchange_def split: if_splits\<close>)
qed

lemma settle_fields [simp]:
  "lc_state (settle p c) = lc_state c" "lc_limits (settle p c) = lc_limits c"
  "is_active (settle p c) = is_active c"
  by (simp_all add: settle_def control_defs is_active_def Let_def split: pc.splits)

lemma settle_commutes:
  "settle p (c\<lparr>lc_state := st\<rparr>) = (settle p c)\<lparr>lc_state := st\<rparr>"
  "settle p (cancel_token c) = cancel_token (settle p c)"
  by (simp_all add: settle_def control_defs Let_def split: pc.splits)

lemma settle_simps [simp]:
  "settle At_Rest c = c" "settle (At_Token s) c = c" "settle (At_Update_Lock cfg) c = c"
  "settle (At_Update_Check cfg) c = c" "settle (At_Update_Write cfg) c = install_config cfg c"
  "settle (At_Answer_Check i a) c = c" "settle (At_Answer_Write i a slot) c = send_reply slot a c"
  "settle At_Finish_Exchange c = c" "settle (At_Finish_Second v) c = c"
  "settle (At_Finish_Close seal) c = fst (close_accepting c)" "settle (At_Unlock op r) c = c"
  by (simp_all add: settle_def)

lemma settled_outside:
  assumes "\<And>t. inside_lock (mc_pc m t) \<longleftrightarrow> mc_lock m = Some t" "\<not> inside_lock (mc_pc m t)"
  shows "settled (m\<lparr>mc_ctl := c, mc_pc := (mc_pc m)(t := p)\<rparr>) = settled (m\<lparr>mc_ctl := c\<rparr>)"
  using assms by (auto simp: settled_def split: option.splits)

lemma settled_inside:
  assumes "\<And>t. inside_lock (mc_pc m t) \<longleftrightarrow> mc_lock m = Some t" "inside_lock (mc_pc m t)"
  shows "mc_lock m = Some t" "settled m = settle (mc_pc m t) (mc_ctl m)"
  using assms by (auto simp: settled_def)

text \<open>One atomic access changes nothing yet, or is the whole effect of one operation.\<close>

lemmas settled_simps = machine_simps settled_def settle_commutes exchange_cases update_def answer_def

lemmas settled_op_simps = machine_simps settled_def pc_ok_def compare_exchange_def apply_update_section
  apply_finish seal_exchange_simps

lemma step_settled:
  assumes step: "machine_step ser m m'" and at: "\<And>t. inside_lock (mc_pc m t) \<longleftrightarrow> mc_lock m = Some t"
    and ok: "\<And>t. pc_ok ser (mc_ctl m) (mc_pc m t)"
  shows "mc_lin m' = mc_lin m \<and> settled m' = settled m
     \<or> (\<exists>t op r. mc_lin m' = mc_lin m @ [(t, op, r)] \<and> apply_op ser op (settled m) = Some (settled m', r))"
  using step
proof cases
  case (finish_already t st v)
  then have "seal_exchange (lc_state (mc_ctl m)) = Some (lc_state (mc_ctl m), Seal_AlreadyFinished)"
    by (auto simp: compare_exchange_def seal_exchange_simps split: if_splits)
  with finish_already show ?thesis using at [of t]
    by (auto simp: machine_simps settled_def apply_finish simp del: apply_op.simps)
next
  case (update_refused t cfg)
  then show ?thesis using at [of t] ok [of t]
    by (auto simp: settled_op_simps simp del: apply_op.simps split: if_splits)
next
  case (update_check t cfg)
  then show ?thesis using at [of t] ok [of t]
    by (auto simp: settled_op_simps simp del: apply_op.simps split: if_splits)
next
  case (finish_clean t st v)
  then show ?thesis using at [of t] ok [of t]
    by (auto simp: settled_op_simps simp del: apply_op.simps split: if_splits)
next
  case (finish_second t v st ignored seal)
  then show ?thesis using at [of t] ok [of t]
    by (auto simp: settled_op_simps simp del: apply_op.simps split: if_splits)
next
  case (update_write t cfg)
  then show ?thesis using at [of t] by (auto simp: settled_simps)
next
  case (answer_refused t i a e)
  then show ?thesis using at [of t] by (auto simp: settled_simps)
next
  case (answer_check t i a slot)
  then show ?thesis using at [of t] by (auto simp: settled_simps)
next
  case (answer_write t i a slot)
  then show ?thesis using at [of t] by (auto simp: settled_simps)
next
  case (finish_cancelled t st v)
  then show ?thesis using at [of t] by (auto simp: settled_simps)
next
  case (finish_close t seal c discarded)
  then show ?thesis using at [of t] by (auto simp: settled_simps)
next
  case (unlock t op r)
  then show ?thesis using at [of t] by (auto simp: settled_simps)
qed (use at in \<open>force simp: settled_simps split: option.splits if_splits\<close>)+

lemma machine_inv_step: "machine_step ser m m' \<Longrightarrow> machine_inv ser c0 m \<Longrightarrow> machine_inv ser c0 m'"
proof -
  assume step: "machine_step ser m m'" and inv: "machine_inv ser c0 m"
  then have at: "inside_lock (mc_pc m t) \<longleftrightarrow> mc_lock m = Some t" and ok: "pc_ok ser (mc_ctl m) (mc_pc m t)"
    and hist: "history_of t (mc_lin m) = history_of t (mc_ret m) @ unreturned (mc_ctl m) (mc_pc m t)"
    and legal: "legal ser c0 (map snd (mc_lin m)) (settled m)" for t
    by (auto simp: machine_inv_def)
  have "legal ser c0 (map snd (mc_lin m')) (settled m')"
    using step_settled [OF step at ok] legal by (auto intro: legal_snoc)
  then show ?thesis
    using step_locks [OF step at] step_history [OF step at hist] step_pc_ok [OF step at ok]
    by (simp add: machine_inv_def)
qed

interpretation control_machine: inductive_invariant "machine_start c0" "machine_step ser" "machine_inv ser c0"
  for ser c0
  by unfold_locales (auto intro: machine_inv_start machine_inv_step)

subsection \<open>What a history can look like\<close>

fun won_cancel :: "'c control_op \<times> 'c control_result \<Rightarrow> CancelSource option" where
  "won_cancel (Op_Cancel s, Res_Bool True) = Some s"
| "won_cancel _ = None"

fun sealed_as :: "'c control_op \<times> 'c control_result \<Rightarrow> FinishSeal option" where
  "sealed_as (Op_Finish, Res_Finish seal d) = (if seal = Seal_AlreadyFinished then None else Some seal)"
| "sealed_as _ = None"

fun accepted_update :: "'c control_op \<times> 'c control_result \<Rightarrow> (ConfigRevision \<times> 'c) option" where
  "accepted_update (Op_Update cfg, Res_Update (Ok r)) = Some (r, cfg)"
| "accepted_update _ = None"

definition closes :: "'c control_op \<times> 'c control_result \<Rightarrow> bool" where
  "closes e \<longleftrightarrow> fst e = Op_Finish \<or> fst e = Op_Begin_Final"

text \<open>The configuration that is waiting after a history: the last accepted one nobody took.\<close>

fun waiting :: "('c control_op \<times> 'c control_result) list \<Rightarrow> (ConfigRevision \<times> 'c) option \<Rightarrow> (ConfigRevision \<times> 'c) option" where
  "waiting [] w = w"
| "waiting (e # h) w = waiting h (if fst e = Op_Take_Config \<or> closes e then None
                                 else case accepted_update e of Some u \<Rightarrow> Some u | None \<Rightarrow> w)"

lemma waiting_snoc [simp]:
  "waiting (h @ [e]) w = (if fst e = Op_Take_Config \<or> closes e then None
                          else case accepted_update e of Some u \<Rightarrow> Some u | None \<Rightarrow> waiting h w)"
  by (induction h arbitrary: w) (auto split: option.splits)

definition source_reason :: "CancelSource \<Rightarrow> CancelReason" where
  "source_reason s = (case s of CS_User \<Rightarrow> CR_User | CS_OwnerDropped \<Rightarrow> CR_OwnerDropped | CS_Shutdown \<Rightarrow> CR_Shutdown)"

lemma cancel_target_range:
  "STATE_CANCEL_USER \<le> cancel_target s" "cancel_target s \<le> STATE_CANCEL_SHUTDOWN"
  "cancel_target s \<noteq> STATE_NONE" "cancel_target s \<noteq> STATE_FINISHED"
  "cancel_reason_value (cancel_target s) = source_reason s"
  by (cases s; simp add: cancel_target_def state_defs cancel_reason_value_def source_reason_def)+

lemma cancel_target_inj [simp]: "cancel_target s = cancel_target s' \<longleftrightarrow> s = s'"
  by (cases s; cases s'; simp add: cancel_target_def state_defs)

lemmas states_distinct = cancel_target_range cancel_target_range(3,4) [symmetric]

lemma none_not_finished: "STATE_NONE \<noteq> STATE_FINISHED" "STATE_FINISHED \<noteq> STATE_NONE"
  by (simp_all add: state_defs)

text \<open>The state byte and what it says about the past.\<close>

definition state_inv :: "('c control_op \<times> 'c control_result) list \<Rightarrow> u8 \<Rightarrow> bool" where
  "state_inv h st \<longleftrightarrow>
     st = STATE_NONE \<and> List.map_filter won_cancel h = [] \<and> List.map_filter sealed_as h = []
     \<or> (\<exists>s. st = cancel_target s \<and> List.map_filter won_cancel h = [s] \<and> List.map_filter sealed_as h = [])
     \<or> st = STATE_FINISHED \<and> List.map_filter won_cancel h = [] \<and> List.map_filter sealed_as h = [Seal_Clean]
     \<or> (\<exists>s. st = STATE_FINISHED \<and> List.map_filter won_cancel h = [s]
          \<and> List.map_filter sealed_as h = [Seal_CancelledPrior (source_reason s)])"

definition fresh_control :: "'c LoopControl \<Rightarrow> bool" where
  "fresh_control c \<longleftrightarrow> lc_state c = STATE_NONE
     \<and> cs_accepting_updates (lc_inner c) \<and> cs_pending_config (lc_inner c) = None
     \<and> cs_next_revision (lc_inner c) = ConfigRevision 1"

lemma new_control_fresh: "LoopControl_new consumer ident n limits = Ok (c, sink) \<Longrightarrow> fresh_control c"
  by (auto simp: LoopControl_new_def and_then_eq_Ok fresh_control_def ConfigRevision_next_def
      ConfigRevision_INITIAL_def saturating_add_def)

lemma map_filter_snoc [simp]:
  "List.map_filter f (xs @ [x]) = List.map_filter f xs @ (case f x of None \<Rightarrow> [] | Some y \<Rightarrow> [y])"
  "List.map_filter f [] = []"
  by (simp_all add: List.map_filter_def split: option.splits)

text \<open>What one operation does to the state byte.\<close>

lemma apply_op_state:
  assumes "apply_op ser op c = Some (c', r)"
  shows "case op of
      Op_Cancel s \<Rightarrow> if lc_state c = STATE_NONE then r = Res_Bool True \<and> lc_state c' = cancel_target s
                     else r = Res_Bool False \<and> lc_state c' = lc_state c
    | Op_Finish \<Rightarrow> \<exists>d seal. r = Res_Finish seal d \<and> seal_exchange (lc_state c) = Some (lc_state c', seal)
    | _ \<Rightarrow> lc_state c' = lc_state c \<and> won_cancel (op, r) = None \<and> sealed_as (op, r) = None"
  using assms
  by (cases op) (auto simp: exchange_cases update_def update_section_def answer_def finish_once_def
      control_defs Let_def split: if_splits option.splits result.splits)

lemma legal_state:
  assumes "legal ser c0 h c" "lc_state c0 = STATE_NONE"
  shows "state_inv h (lc_state c)"
  using assms
proof induction
  case legal_Nil
  then show ?case by (simp add: state_inv_def)
next
  case (legal_snoc h c op c' r)
  then have inv: "state_inv h (lc_state c)" by simp
  note step = apply_op_state [OF legal_snoc.hyps(2)]
  consider s where "op = Op_Cancel s" | "op = Op_Finish"
    | "lc_state c' = lc_state c" "won_cancel (op, r) = None" "sealed_as (op, r) = None"
    using step by (cases op) auto
  then show ?case
  proof cases
    case (1 s)
    then show ?thesis using inv step
      by (auto simp: state_inv_def states_distinct none_not_finished split: if_splits)
  next
    case 2
    with step obtain d seal where r: "r = Res_Finish seal d" "seal_exchange (lc_state c) = Some (lc_state c', seal)"
      by auto
    from inv consider "lc_state c = STATE_NONE" | s where "lc_state c = cancel_target s" | "lc_state c = STATE_FINISHED"
      by (auto simp: state_inv_def)
    then show ?thesis
      by cases (use inv r 2 in \<open>auto simp: state_inv_def seal_exchange_simps states_distinct none_not_finished\<close>)
  next
    case 3
    then show ?thesis using inv by (simp add: state_inv_def)
  qed
qed

lemma apply_finish_Some:
  "apply_op ser Op_Finish c = Some (c', r) \<Longrightarrow> lc_state c' = STATE_FINISHED"
  by (auto simp: finish_once_def seal_exchange_def compare_exchange_def close_accepting_def
      split: option.splits if_splits)

lemma legal_finished:
  assumes "legal ser c0 h c" "e \<in> set h" "fst e = Op_Finish"
  shows "lc_state c = STATE_FINISHED"
  using assms
proof induction
  case (legal_snoc h c op c' r)
  show ?case
  proof (cases "op = Op_Finish")
    case False
    then have "lc_state c = STATE_FINISHED" using legal_snoc by auto
    then show ?thesis using apply_op_state [OF legal_snoc.hyps(2)] False
      by (cases op) (auto simp: none_not_finished split: if_splits)
  qed (use legal_snoc.hyps(2) apply_finish_Some in blast)
qed simp

lemma legal_append:
  "legal ser c0 (h1 @ h2) c \<Longrightarrow> \<exists>c1. legal ser c0 h1 c1 \<and> legal ser c1 h2 c"
proof (induction "h1 @ h2" c arbitrary: h2 rule: legal.induct)
  case (legal_snoc h c op c' r)
  show ?case
  proof (cases h2 rule: rev_cases)
    case (snoc h2' e)
    then have "h = h1 @ h2'" "e = (op, r)" using legal_snoc.hyps(4) by auto
    then show ?thesis using legal_snoc.hyps(2) [of h2'] legal_snoc.hyps(3) snoc legal.legal_snoc by metis
  qed (use legal_snoc legal.intros in \<open>metis append_Nil2\<close>)
qed (auto intro: legal.intros)

lemma legal_single: "legal ser c [(op, r)] c' \<Longrightarrow> apply_op ser op c = Some (c', r)"
  by (cases rule: legal.cases) (auto elim: legal.cases)

lemma legal_split:
  assumes "legal ser c0 (h1 @ (op, r) # h2) c"
  shows "\<exists>c1 c2. legal ser c0 h1 c1 \<and> apply_op ser op c1 = Some (c2, r)"
  using legal_append [of ser c0 "h1 @ [(op, r)]" h2] legal_append [of ser c0 h1 "[(op, r)]"] assms legal_single
  by fastforce

text \<open>The configuration side: the flag, the pending slot and the revisions.\<close>

definition config_inv :: "('c control_op \<times> 'c control_result) list \<Rightarrow> 'c ControlState \<Rightarrow> bool" where
  "config_inv h cs \<longleftrightarrow>
     (cs_accepting_updates cs \<longleftrightarrow> \<not> list_ex closes h)
     \<and> map_option (\<lambda>p. (pc_revision p, pc_config p)) (cs_pending_config cs) = waiting h None
     \<and> (length h < 2 ^ 64 - 1 \<longrightarrow>
          map (unat \<circ> as_u64 \<circ> fst) (List.map_filter accepted_update h)
            = [1..<Suc (length (List.map_filter accepted_update h))]
          \<and> unat (as_u64 (cs_next_revision cs)) = Suc (length (List.map_filter accepted_update h)))"

lemma length_map_filter: "length (List.map_filter f xs) \<le> length xs"
  by (simp add: List.map_filter_def)

lemma config_inv_install:
  assumes inv: "config_inv h (lc_inner c)"
  shows "config_inv (h @ [(Op_Update cfg, Res_Update (Ok (cs_next_revision (lc_inner c))))])
           (lc_inner (install_config cfg c))"
proof -
  have "unat (as_u64 (ConfigRevision_next (cs_next_revision (lc_inner c))))
      = Suc (unat (as_u64 (cs_next_revision (lc_inner c))))"
    if "Suc (length h) < 2 ^ 64 - 1"
      "unat (as_u64 (cs_next_revision (lc_inner c))) = Suc (length (List.map_filter accepted_update h))"
    using that length_map_filter [of accepted_update h]
    by (intro next_revision_strict) (auto simp: word_unat_eq_iff unat_max_word)
  then show ?thesis using inv
    by (auto simp: config_inv_def install_config_def Let_def closes_def)
qed

lemma apply_op_config:
  assumes "apply_op ser op c = Some (c', r)" "config_inv h (lc_inner c)"
  shows "config_inv (h @ [(op, r)]) (lc_inner c')"
proof (cases op)
  case (Op_Update cfg)
  then consider "c' = c" "accepted_update (op, r) = None"
    | "c' = install_config cfg c" "r = Res_Update (Ok (cs_next_revision (lc_inner c)))"
    using assms(1) by (auto simp: update_def update_section_def split: if_splits option.splits result.splits)
  then show ?thesis
  proof cases
    case 1
    with Op_Update show ?thesis using assms(2) by (simp add: config_inv_def closes_def)
  next
    case 2
    with Op_Update show ?thesis using config_inv_install [OF assms(2)] by simp
  qed
qed (use assms in \<open>auto simp: config_inv_def closes_def exchange_cases answer_def finish_once_def control_defs
      split: if_splits option.splits result.splits\<close>)

lemma legal_config:
  "legal ser c0 h c \<Longrightarrow> fresh_control c0 \<Longrightarrow> config_inv h (lc_inner c)"
  by (induction rule: legal.induct)
    (auto simp: fresh_control_def config_inv_def [of "[]"] intro: apply_op_config)

text \<open>
  A race to try the properties on: thread 1 has passed the check of \<open>update\<close> when thread 2 cancels;
  it writes afterwards.  Thread 0 seals the loop and thread 3 comes too late.
\<close>

definition race :: "'c \<Rightarrow> (nat \<times> 'c control_op \<times> 'c control_result) list" where
  "race cfg =
     [(1, Op_Update cfg, Res_Update (Ok (ConfigRevision 1))),
      (2, Op_Cancel CS_User, Res_Bool True),
      (0, Op_Finish, Res_Finish (Seal_CancelledPrior CR_User) (Some cfg)),
      (3, Op_Update cfg, Res_Update (Err UE_NotActive))]"

lemma race_reachable:
  assumes fresh: "fresh_control c0" and valid: "validate_against_limits ser cfg (lc_limits c0) = Some (Ok ())"
  shows "\<exists>m. reachable (machine_start c0) (machine_step ser) m \<and> mc_lin m = race cfg"
proof -
  let ?r1 = "Res_Update (Ok (ConfigRevision 1))"
  define m1 where "m1 = goto 1 (At_Update_Lock cfg) (machine_start c0)"
  define m2 where "m2 = goto 1 (At_Update_Check cfg) (m1\<lparr>mc_lock := Some 1\<rparr>)"
  define m3 where "m3 = goto 1 (At_Update_Write cfg) (takes_effect 1 (Op_Update cfg) ?r1 m2)"
  define c4 where "c4 = c0\<lparr>lc_state := STATE_CANCEL_USER\<rparr>"
  define m4 where "m4 = goto 2 (At_Token CS_User)
    (takes_effect 2 (Op_Cancel CS_User) (Res_Bool True) (m3\<lparr>mc_ctl := c4\<rparr>))"
  define m5 where "m5 = goto 1 (At_Unlock (Op_Update cfg) ?r1) (m4\<lparr>mc_ctl := install_config cfg c4\<rparr>)"
  define m6 where "m6 = goto 1 At_Rest (returns 1 (Op_Update cfg) ?r1 (m5\<lparr>mc_lock := None\<rparr>))"
  define m7 where "m7 = goto 0 At_Finish_Exchange (m6\<lparr>mc_lock := Some 0\<rparr>)"
  define m8 where "m8 = goto 0 (At_Finish_Second STATE_CANCEL_USER) m7"
  define m9 where "m9 = goto 0 (At_Finish_Close (Seal_CancelledPrior CR_User))
    (takes_effect 0 Op_Finish (Res_Finish (Seal_CancelledPrior CR_User) (Some cfg))
      (m8\<lparr>mc_ctl := (mc_ctl m8)\<lparr>lc_state := STATE_FINISHED\<rparr>\<rparr>))"
  define m10 where "m10 = returns 3 (Op_Update cfg) (Res_Update (Err UE_NotActive))
    (takes_effect 3 (Op_Update cfg) (Res_Update (Err UE_NotActive)) m9)"
  note ms = m1_def m2_def m3_def m4_def m5_def m6_def m7_def m8_def m9_def machine_simps machine_start_def
    c4_def install_config_def Let_def is_active_def
  have f: "lc_state c0 = STATE_NONE" "cs_accepting_updates (lc_inner c0)"
    "cs_next_revision (lc_inner c0) = ConfigRevision 1"
    using fresh by (simp_all add: fresh_control_def)
  have "machine_step ser (machine_start c0) m1"
    unfolding m1_def by (rule machine_step.update_valid) (simp_all add: machine_start_def is_active_def f valid)
  moreover have "machine_step ser m1 m2"
    unfolding m2_def by (rule machine_step.update_lock) (simp_all add: ms)
  moreover have "machine_step ser m2 m3"
    using machine_step.update_check [of m2 1 cfg ser] by (simp add: ms f)
  moreover have "machine_step ser m3 m4"
    unfolding m4_def by (rule machine_step.cancel_won) (simp_all add: ms f exchange_cases cancel_target_def)
  moreover have "machine_step ser m4 m5"
    using machine_step.update_write [of m4 1 cfg ser] by (simp add: ms f)
  moreover have "machine_step ser m5 m6" unfolding m6_def by (rule machine_step.unlock) (simp add: ms)
  moreover have "machine_step ser m6 m7" unfolding m7_def by (rule machine_step.finish_lock) (simp_all add: ms)
  moreover have "machine_step ser m7 m8"
    unfolding m8_def by (rule machine_step.finish_cancelled) (simp_all add: ms compare_exchange_def state_defs)
  moreover have "machine_step ser m8 m9"
    using machine_step.finish_second [of m8 0 STATE_CANCEL_USER STATE_FINISHED "Ok STATE_CANCEL_USER"
        "Seal_CancelledPrior CR_User" ser]
    by (simp add: ms compare_exchange_def close_accepting_def cancel_reason_value_def state_defs)
  moreover have "machine_step ser m9 m10"
    unfolding m10_def by (rule machine_step.update_early) (simp_all add: ms state_defs)
  ultimately have "reachable (machine_start c0) (machine_step ser) m10" by (meson reachable.intros)
  moreover have "mc_lin m10 = race cfg" by (simp add: m10_def ms race_def)
  ultimately show ?thesis by blast
qed

definition sample_config :: "(unit, unit, unit, unit) ExecutionConfig" where
  "sample_config =
     \<lparr>ec_model = (), ec_descriptor = \<lparr>md_model_ref = ModelRef (lit ''m''), md_context_window = 1,
        md_supported_reasoning = {RP_Auto}, md_supports_tools = False\<rparr>,
      ec_reasoning = RP_Auto, ec_tools = \<lparr>ts_specs = [], ts_entries = []\<rparr>, ec_policy = None, ec_prompt = ()\<rparr>"

lemma sample_control:
  "\<exists>c0 sink. LoopControl_new [] (LoopId []) 1 LoopLimits_default = Ok (c0, sink)
     \<and> (\<exists>m. reachable (machine_start c0) (machine_step (\<lambda>_. ([], True))) m \<and> mc_lin m = race sample_config)"
proof -
  obtain c0 :: "(unit, unit, unit, unit) control" and sink where
    new: "LoopControl_new [] (LoopId []) 1 LoopLimits_default = Ok (c0, sink)"
    by (simp add: LoopControl_new_def LoopEventSink_channel_def MAX_EVENT_CAPACITY_def)
  moreover have "validate_against_limits (\<lambda>_. ([], True)) sample_config (lc_limits c0) = Some (Ok ())"
    by (simp add: validate_against_limits_def sample_config_def)
  ultimately show ?thesis using race_reachable [OF new_control_fresh] by metis
qed

lemma reachable_history:
  assumes "LoopControl_new consumer ident n limits = Ok (c0, sink)"
    and "reachable (machine_start c0) (machine_step ser) m"
  shows "legal ser c0 (map snd (mc_lin m)) (settled m)" "state_inv (map snd (mc_lin m)) (lc_state (settled m))"
    "config_inv (map snd (mc_lin m)) (lc_inner (settled m))"
proof -
  show legal: "legal ser c0 (map snd (mc_lin m)) (settled m)"
    using control_machine.reachable_inv [OF assms(2)] by (simp add: machine_inv_def)
  have fresh: "fresh_control c0" using assms(1) by (rule new_control_fresh)
  then show "state_inv (map snd (mc_lin m)) (lc_state (settled m))"
    using legal_state [OF legal] by (simp add: fresh_control_def)
  show "config_inv (map snd (mc_lin m)) (lc_inner (settled m))" using legal_config [OF legal fresh] .
qed

lemma reachable_history_split:
  assumes "LoopControl_new consumer ident n limits = Ok (c0, sink)"
    and "reachable (machine_start c0) (machine_step ser) m"
    and "mc_lin m = h1 @ (t, op, r) # h2"
  shows "\<exists>c1 c2. apply_op ser op c1 = Some (c2, r) \<and> legal ser c0 (map snd h1) c1
           \<and> state_inv (map snd h1) (lc_state c1) \<and> config_inv (map snd h1) (lc_inner c1)"
proof -
  have fresh: "fresh_control c0" using assms(1) by (rule new_control_fresh)
  obtain c1 c2 where "legal ser c0 (map snd h1) c1" "apply_op ser op c1 = Some (c2, r)"
    using legal_split reachable_history(1) [OF assms(1,2)] assms(3) by fastforce
  then show ?thesis using legal_state legal_config [OF _ fresh] fresh fresh_control_def by blast
qed

subsection \<open>Properties\<close>

text \<open>
  C6: the control plane is linearizable.  However the atomic accesses of cancellations, updates,
  answers, seals and the runner's own critical sections interleave, there is one order of whole
  operations, \<open>mc_lin\<close>, in which each of them, run alone, gives the result its caller got; the
  operations of one thread stand in it in the order the thread called them, at most the last one
  not yet returned; and when nobody holds the lock its final state is the shared state.
\<close>
theorem control_linearizable:
  assumes "reachable (machine_start c0) (machine_step ser) m"
  shows "(\<exists>c. legal ser c0 (map snd (mc_lin m)) c \<and> (mc_lock m = None \<longrightarrow> c = mc_ctl m))
     \<and> (\<forall>t. \<exists>unret. history_of t (mc_lin m) = history_of t (mc_ret m) @ unret \<and> length unret \<le> 1
            \<and> (mc_pc m t = At_Rest \<longrightarrow> unret = []))"
proof -
  have inv: "machine_inv ser c0 m" using control_machine.reachable_inv [OF assms] .
  have "length (unreturned c p) \<le> 1" for c :: "('a, 'b, 'c, 'd) control" and p by (cases p) auto
  then have "\<exists>unret. history_of t (mc_lin m) = history_of t (mc_ret m) @ unret \<and> length unret \<le> 1
            \<and> (mc_pc m t = At_Rest \<longrightarrow> unret = [])" for t
    using inv by (intro exI [of _ "unreturned (mc_ctl m) (mc_pc m t)"]) (simp add: machine_inv_def)
  moreover have "\<exists>c. legal ser c0 (map snd (mc_lin m)) c \<and> (mc_lock m = None \<longrightarrow> c = mc_ctl m)"
    using inv by (intro exI [of _ "settled m"]) (simp add: machine_inv_def settled_def)
  ultimately show ?thesis by blast
qed

theorem control_linearizable_witness:
  "\<exists>c0 sink m. LoopControl_new [] (LoopId []) 1 LoopLimits_default = Ok (c0, sink)
     \<and> reachable (machine_start c0) (machine_step (\<lambda>_. ([], True))) m
     \<and> mc_lin m = race sample_config \<and> (\<exists>c. legal (\<lambda>_. ([], True)) c0 (map snd (mc_lin m)) c)"
  using sample_control control_linearizable by blast

text \<open>
  C11: the end of a loop is decided exactly once.  At most one cancellation wins and at most one
  seal is not AlreadyFinished; once a seal was attempted there is exactly one; it is Clean only
  if no cancellation ever won, and otherwise it names the reason of the cancellation that did.
\<close>
theorem seal_exactly_once:
  assumes "LoopControl_new consumer ident n limits = Ok (c0, sink)"
    and "reachable (machine_start c0) (machine_step ser) m"
    and "h = map snd (mc_lin m)"
  shows "length (List.map_filter won_cancel h) \<le> 1 \<and> length (List.map_filter sealed_as h) \<le> 1
     \<and> (list_ex (\<lambda>e. fst e = Op_Finish) h \<longrightarrow>
          List.map_filter sealed_as h =
            (case List.map_filter won_cancel h of
               [] \<Rightarrow> [Seal_Clean]
             | s # _ \<Rightarrow> [Seal_CancelledPrior (source_reason s)]))"
proof -
  have inv: "state_inv h (lc_state (settled m))" using reachable_history(2) [OF assms(1,2)] assms(3) by simp
  have "lc_state (settled m) = STATE_FINISHED" if "list_ex (\<lambda>e. fst e = Op_Finish) h"
    using legal_finished [OF reachable_history(1) [OF assms(1,2)]] that assms(3) unfolding list_ex_iff by blast
  with inv show ?thesis by (auto simp: state_inv_def none_not_finished states_distinct)
qed

theorem seal_exactly_once_witness:
  "\<exists>c0 sink m. LoopControl_new [] (LoopId []) 1 LoopLimits_default = Ok (c0, sink)
     \<and> reachable (machine_start c0) (machine_step (\<lambda>_. ([], True))) m
     \<and> mc_lin m = race sample_config
     \<and> List.map_filter sealed_as (map snd (mc_lin m)) = [Seal_CancelledPrior CR_User]"
proof -
  obtain c0 sink m where new: "LoopControl_new [] (LoopId []) 1 LoopLimits_default = Ok (c0, sink)"
    and run: "reachable (machine_start c0) (machine_step (\<lambda>_. ([], True))) m" "mc_lin m = race sample_config"
    using sample_control by blast
  show ?thesis
    using seal_exactly_once [OF new run(1) refl] run new
    by (intro exI [of _ c0] exI [of _ sink] exI [of _ m])
      (simp add: race_def List.map_filter_def source_reason_def)
qed

text \<open>
  C26: after a cancellation has won or the loop has been sealed, or its runner has begun the final
  state, nothing is accepted any more: an update is refused as not active (after a mere
  \<open>begin_final\<close> it is refused, invalid configurations as such), an answer as not active.
\<close>
theorem closed_loop_refuses:
  assumes "LoopControl_new consumer ident n limits = Ok (c0, sink)"
    and "reachable (machine_start c0) (machine_step ser) m"
    and "mc_lin m = h1 @ (t, op, r) # h2"
    and "list_ex (\<lambda>e. won_cancel e \<noteq> None \<or> closes e) (map snd h1)"
  shows "(\<forall>cfg. op = Op_Update cfg \<longrightarrow>
          r = Res_Update (Err UE_NotActive)
          \<or> r = Res_Update (Err UE_InvalidConfig) \<and> (\<forall>e \<in> set (map snd h1). won_cancel e = None \<and> fst e \<noteq> Op_Finish))
     \<and> (\<forall>i a. op = Op_Answer i a \<longrightarrow> r = Res_Answer (Err AE_NotActive))"
proof -
  obtain c1 c2 where step: "apply_op ser op c1 = Some (c2, r)" and legal: "legal ser c0 (map snd h1) c1"
    and inv: "state_inv (map snd h1) (lc_state c1)" "config_inv (map snd h1) (lc_inner c1)"
    using reachable_history_split [OF assms(1-3)] by blast
  have won: "\<not> is_active c1" if "e \<in> set (map snd h1)" "won_cancel e \<noteq> None \<or> fst e = Op_Finish" for e
  proof -
    have "List.map_filter won_cancel (map snd h1) \<noteq> []" if "won_cancel e \<noteq> None"
      using \<open>e \<in> set (map snd h1)\<close> that by (auto simp: List.map_filter_def filter_empty_conv)
    then show ?thesis
      using inv(1) that legal_finished [OF legal that(1)]
      by (auto simp: state_inv_def is_active_def none_not_finished states_distinct)
  qed
  have closed: "\<not> is_active c1 \<or> \<not> cs_accepting_updates (lc_inner c1)"
    using assms(4) won inv(2) unfolding list_ex_iff config_inv_def closes_def by blast
  have "(\<forall>cfg. op = Op_Update cfg \<longrightarrow>
          r = Res_Update (Err UE_NotActive) \<or> r = Res_Update (Err UE_InvalidConfig) \<and> is_active c1)
     \<and> (\<forall>i a. op = Op_Answer i a \<longrightarrow> r = Res_Answer (Err AE_NotActive))"
    using step closed
    by (auto simp: update_def update_section_def answer_def answer_check_def
        split: if_splits option.splits result.splits)
  then show ?thesis using won by blast
qed

theorem closed_loop_refuses_witness:
  "\<exists>c0 sink m. LoopControl_new [] (LoopId []) 1 LoopLimits_default = Ok (c0, sink)
     \<and> reachable (machine_start c0) (machine_step (\<lambda>_. ([], True))) m
     \<and> (\<exists>r. last (mc_lin m) = (3, Op_Update sample_config, r) \<and> r = Res_Update (Err UE_NotActive))"
proof -
  obtain c0 sink m where new: "LoopControl_new [] (LoopId []) 1 LoopLimits_default = Ok (c0, sink)"
    and run: "reachable (machine_start c0) (machine_step (\<lambda>_. ([], True))) m" "mc_lin m = race sample_config"
    using sample_control by blast
  have "mc_lin m = butlast (race sample_config) @ (3, Op_Update sample_config, Res_Update (Err UE_NotActive)) # []"
    using run(2) by (simp add: race_def)
  from closed_loop_refuses [OF new run(1) this] show ?thesis
    using new run by (intro exI [of _ c0] exI [of _ sink] exI [of _ m]) (auto simp: race_def closes_def)
qed

text \<open>
  C27: accepted updates are numbered one, two, three in the order in which they take effect, and
  the latest wins: what the runner takes at a request boundary, and what is discarded at the
  end, is the last accepted configuration that nobody took before.
\<close>
theorem updates_numbered_latest_wins:
  assumes "LoopControl_new consumer ident n limits = Ok (c0, sink)"
    and "reachable (machine_start c0) (machine_step ser) m"
    and "length (mc_lin m) < 2 ^ 64 - 1"
  shows "map (unat \<circ> as_u64 \<circ> fst) (List.map_filter accepted_update (map snd (mc_lin m)))
       = [1..<Suc (length (List.map_filter accepted_update (map snd (mc_lin m))))]
     \<and> (\<forall>h1 t op r h2. mc_lin m = h1 @ (t, op, r) # h2 \<longrightarrow>
          (op = Op_Take_Config \<longrightarrow> r = Res_Config (waiting (map snd h1) None))
          \<and> (op = Op_Begin_Final \<longrightarrow> r = Res_Discarded (map_option snd (waiting (map snd h1) None)))
          \<and> (op = Op_Finish \<longrightarrow> (\<exists>seal. r = Res_Finish seal (map_option snd (waiting (map snd h1) None)))))"
proof -
  have "(op = Op_Take_Config \<longrightarrow> r = Res_Config (waiting (map snd h1) None))
      \<and> (op = Op_Begin_Final \<longrightarrow> r = Res_Discarded (map_option snd (waiting (map snd h1) None)))
      \<and> (op = Op_Finish \<longrightarrow> (\<exists>seal. r = Res_Finish seal (map_option snd (waiting (map snd h1) None))))"
    if split: "mc_lin m = h1 @ (t, op, r) # h2" for h1 t op r h2
  proof -
    obtain c1 c2 where step: "apply_op ser op c1 = Some (c2, r)"
      and "config_inv (map snd h1) (lc_inner c1)"
      using reachable_history_split [OF assms(1,2) split] by blast
    then have w: "waiting (map snd h1) None
        = map_option (\<lambda>p. (pc_revision p, pc_config p)) (cs_pending_config (lc_inner c1))"
      by (simp add: config_inv_def)
    show ?thesis using step unfolding w
      by (auto simp: take_config_def begin_final_def finish_once_def close_accepting_def option.map_comp comp_def
          split: option.splits)
  qed
  moreover have "map (unat \<circ> as_u64 \<circ> fst) (List.map_filter accepted_update (map snd (mc_lin m)))
       = [1..<Suc (length (List.map_filter accepted_update (map snd (mc_lin m))))]"
    using reachable_history(3) [OF assms(1,2)] assms(3) unfolding config_inv_def length_map by blast
  ultimately show ?thesis by blast
qed

theorem updates_numbered_latest_wins_witness:
  "\<exists>c0 sink m. LoopControl_new [] (LoopId []) 1 LoopLimits_default = Ok (c0, sink)
     \<and> reachable (machine_start c0) (machine_step (\<lambda>_. ([], True))) m
     \<and> map (unat \<circ> as_u64 \<circ> fst) (List.map_filter accepted_update (map snd (mc_lin m))) = [1]
     \<and> mc_lin m = race sample_config"
proof -
  obtain c0 sink m where new: "LoopControl_new [] (LoopId []) 1 LoopLimits_default = Ok (c0, sink)"
    and run: "reachable (machine_start c0) (machine_step (\<lambda>_. ([], True))) m" "mc_lin m = race sample_config"
    using sample_control by blast
  have "length (mc_lin m) < 2 ^ 64 - 1" by (simp add: run(2) race_def)
  from updates_numbered_latest_wins [OF new run(1) this] show ?thesis
    using new run by (intro exI [of _ c0] exI [of _ sink] exI [of _ m]) (simp add: race_def List.map_filter_def)
qed

end
