(* ===== verification/Runner_Base.thy ===== *)
theory Runner_Base
  imports Control
begin

text \<open>
  The ground of the runner models, \<^verbatim>\<open>src/agent_loop/runner.rs\<close>: the state every phase of the runner
  threads through, the sequencing of its steps, and its environment.

  A step yields a value, waits for ever (\<open>Pending\<close>), or panics (\<open>Aborted\<close>), and the state at that
  point is kept, because the panic handler of the runner reads the control plane afterwards.

  The environment of a run is a script.  It holds what other threads do to the control plane
  between two accesses of the runner, the readings of the clock, and the polls of the host's
  futures.  Whether the token is cancelled at a poll is not part of the script: it follows from
  what the other threads did before.
\<close>

subsection \<open>Runner state\<close>

record ('m, 't, 'p, 'q) runner =
  rn_id :: LoopId
  rn_options :: LoopOptions
  rn_control :: "('m, 't, 'p, 'q) control"
  rn_sink :: LoopEventSink
  rn_working :: WorkingHistory
  rn_executed :: "ToolCallId list"

text \<open>\<open>rn_executed\<close> records the calls whose tool was really invoked.\<close>

type_synonym ('s, 'a) run = "'s \<Rightarrow> 'a async \<times> 's"

definition return_run :: "'a \<Rightarrow> ('s, 'a) run" where "return_run a s = (Done a, s)"

definition bind_run :: "('s, 'a) run \<Rightarrow> ('a \<Rightarrow> ('s, 'b) run) \<Rightarrow> ('s, 'b) run" where
  "bind_run f g s =
     (case f s of (Done a, s') \<Rightarrow> g a s' | (Pending, s') \<Rightarrow> (Pending, s') | (Aborted, s') \<Rightarrow> (Aborted, s'))"

definition modify_run :: "('s \<Rightarrow> 's) \<Rightarrow> ('s, unit) run" where "modify_run f s = (Done (), f s)"

definition gets_run :: "('s \<Rightarrow> 'a) \<Rightarrow> ('s, 'a) run" where "gets_run f s = (Done (f s), s)"

definition lift_run :: "'a async \<Rightarrow> ('s, 'a) run" where "lift_run r s = (r, s)"

text \<open>\<open>unwrap\<close> of a value that is there unless the code panics.\<close>

definition expect_run :: "'a option \<Rightarrow> ('s, 'a) run" where
  "expect_run x = lift_run (case x of Some a \<Rightarrow> Done a | None \<Rightarrow> Aborted)"

definition with_state :: "('s \<Rightarrow> ('s, 'a) run) \<Rightarrow> ('s, 'a) run" where "with_state f s = f s s"

definition then_run :: "('s, unit) run \<Rightarrow> ('s, 'b) run \<Rightarrow> ('s, 'b) run" where
  "then_run f g = bind_run f (\<lambda>_. g)"

type_synonym ('m, 't, 'p, 'q, 'a) step = "(('m, 't, 'p, 'q) runner, 'a) run"

text \<open>
  \<open>wp f Q E s\<close>: from \<open>s\<close>, the step \<open>f\<close> ends with \<open>Q\<close> if it yields a value and with \<open>E\<close> if it
  panics.
\<close>

definition wp :: "('s, 'a) run \<Rightarrow> ('a \<Rightarrow> 's \<Rightarrow> bool) \<Rightarrow> ('s \<Rightarrow> bool) \<Rightarrow> 's \<Rightarrow> bool" where
  "wp f Q E s = (case f s of (Done a, s') \<Rightarrow> Q a s' | (Pending, s') \<Rightarrow> True | (Aborted, s') \<Rightarrow> E s')"

lemma wp_simps [simp]:
  "wp (return_run a) Q E s = Q a s"
  "wp (modify_run f) R E s = R () (f s)"
  "wp (gets_run h) Q E s = Q (h s) s"
  "wp (bind_run m k) T E s = wp m (\<lambda>a. wp (k a) T E) E s"
  "wp (then_run n m) Q E s = wp n (\<lambda>_. wp m Q E) E s"
  "wp (with_state g) Q E s = wp (g s) Q E s"
  "wp (lift_run r) Q E s = (case r of Done a \<Rightarrow> Q a s | Pending \<Rightarrow> True | Aborted \<Rightarrow> E s)"
  "wp (expect_run x) Q E s = (case x of Some a \<Rightarrow> Q a s | None \<Rightarrow> E s)"
  by (auto simp: wp_def return_run_def modify_run_def gets_run_def bind_run_def then_run_def with_state_def
      lift_run_def expect_run_def split: prod.splits async.splits option.splits)

lemma wp_mono:
  assumes "wp f Q E s" "\<And>a s'. Q a s' \<Longrightarrow> Q' a s'" "\<And>s'. E s' \<Longrightarrow> E' s'"
  shows "wp f Q' E' s"
  using assms by (auto simp: wp_def split: prod.splits async.splits)

lemma wp_bindI:
  assumes "wp f R F s" "\<And>a t. R a t \<Longrightarrow> wp (g a) Q E t" "\<And>t. F t \<Longrightarrow> E t"
  shows "wp (bind_run f g) Q E s"
  using assms by (auto intro: wp_mono)

lemma wp_thenI:
  assumes "wp f R F s" "\<And>a t. R a t \<Longrightarrow> wp g Q E t" "\<And>t. F t \<Longrightarrow> E t"
  shows "wp (then_run f g) Q E s"
  using assms by (auto intro: wp_mono)

lemma wp_Done: "wp f Q E s \<Longrightarrow> f s = (Done a, s') \<Longrightarrow> Q a s'"
  by (simp add: wp_def)

lemma wp_Aborted: "wp f Q E s \<Longrightarrow> f s = (Aborted, s') \<Longrightarrow> E s'"
  by (simp add: wp_def)

definition emit :: "LoopEvent \<Rightarrow> ('m, 't, 'p, 'q, unit) step" where
  "emit event = modify_run (\<lambda>s. s\<lparr>rn_sink := try_emit event (rn_sink s)\<rparr>)"

definition record_dropped_run :: "u64 \<Rightarrow> ('m, 't, 'p, 'q, unit) step" where
  "record_dropped_run count = modify_run (\<lambda>s. s\<lparr>rn_sink := record_dropped count (rn_sink s)\<rparr>)"

definition on_control :: "(('m, 't, 'p, 'q) control \<Rightarrow> ('m, 't, 'p, 'q) control) \<Rightarrow> ('m, 't, 'p, 'q, unit) step" where
  "on_control f = modify_run (\<lambda>s. s\<lparr>rn_control := f (rn_control s)\<rparr>)"

text \<open>A method of the control plane that returns a value.\<close>

definition on_control_get ::
  "(('m, 't, 'p, 'q) control \<Rightarrow> ('m, 't, 'p, 'q) control \<times> 'a) \<Rightarrow> ('m, 't, 'p, 'q, 'a) step" where
  "on_control_get f =
     with_state (\<lambda>s. then_run (on_control (\<lambda>c. fst (f c))) (return_run (snd (f (rn_control s)))))"

definition publish :: "LoopState \<Rightarrow> ('m, 't, 'p, 'q, unit) step" where
  "publish st = then_run (on_control (publish_state st)) (emit (EV_StateChanged st))"

subsection \<open>Other threads\<close>

datatype 'c external =
    X_Cancel CancelSource
  | X_Token
  | X_Update 'c
  | X_Answer InteractionId InteractionAnswer

type_synonym ('m, 't, 'p, 'q) others = "('m, 't, 'p, 'q) ExecutionConfig external"

text \<open>
  A panic of the serialiser in \<open>update\<close> unwinds in the caller's thread.  The token is cancelled
  only by a thread whose exchange won before.
\<close>

fun act :: "json serializer \<Rightarrow> ('m, 't, 'p, 'q) others \<Rightarrow> ('m, 't, 'p, 'q) control \<Rightarrow> ('m, 't, 'p, 'q) control" where
  "act ser (X_Cancel s) c = fst (mark_cancel_exchange s c)"
| "act ser X_Token c = (if is_active c then c else cancel_token c)"
| "act ser (X_Update cfg) c = (case update ser cfg c of None \<Rightarrow> c | Some (c', _) \<Rightarrow> c')"
| "act ser (X_Answer i a) c = fst (answer i a c)"

definition interfere ::
  "json serializer \<Rightarrow> ('m, 't, 'p, 'q) others list \<Rightarrow> ('m, 't, 'p, 'q, unit) step" where
  "interfere ser ops = on_control (fold (act ser) ops)"

subsection \<open>Port calls in a running loop\<close>

record ('x, 'a) live_poll =
  lp_ops :: "'x list"
  lp_elapsed :: bool
  lp_ready :: "'a caught option"

record ('x, 'a) live_call =
  lv_ops :: "'x list"
  lv_now_turn :: instant
  lv_now_deadline :: instant
  lv_now_check :: instant
  lv_construct_panics :: bool
  lv_polls :: "('x, 'a) live_poll list"

text \<open>The polls as the port sees them, and the control plane after them.\<close>

fun play_polls ::
  "('x \<Rightarrow> 'c LoopControl \<Rightarrow> 'c LoopControl) \<Rightarrow> ('x, 'a) live_poll list \<Rightarrow> 'c LoopControl \<Rightarrow>
     'a port_poll list \<times> 'c LoopControl" where
  "play_polls ext [] c = ([], c)"
| "play_polls ext (p # ps) c =
     (let c' = fold ext (lp_ops p) c; rest = play_polls ext ps c' in
      (\<lparr>pp_cancelled = lc_cancel c', pp_elapsed = lp_elapsed p, pp_ready = lp_ready p\<rparr> # fst rest, snd rest))"

definition live_port ::
  "json serializer \<Rightarrow> instant \<Rightarrow> duration \<Rightarrow> (('m, 't, 'p, 'q) others, ('a, 'e) result) live_call \<Rightarrow>
     ('m, 't, 'p, 'q, ('a, 'e) port_run) step" where
  "live_port ser turn_deadline timeout call =
     then_run (interfere ser (lv_ops call)) (with_state (\<lambda>s.
       (let played = play_polls (act ser) (lv_polls call) (rn_control s) in
        then_run (on_control (\<lambda>_. snd played))
        (lift_run (case run_port_call turn_deadline timeout
               \<lparr>pe_cancelled = lc_cancel (rn_control s), pe_now_deadline = lv_now_deadline call,
                pe_now_check = lv_now_check call, pe_construct_panics = lv_construct_panics call,
                pe_polls = fst played\<rparr> of
          None \<Rightarrow> Pending
        | Some outcome \<Rightarrow> Done outcome)))))"

definition LOOP_HORIZON :: duration where "LOOP_HORIZON = 24 * 60 * 60 * SECOND"

text \<open>Adding the horizon panics beyond the range of the clock.\<close>

definition turn_deadline :: "instant \<Rightarrow> instant option \<Rightarrow> instant option" where
  "turn_deadline now loop_deadline =
     (case loop_deadline of
        Some deadline \<Rightarrow> Some deadline
      | None \<Rightarrow> instant_checked_add now LOOP_HORIZON)"

subsection \<open>How a run ends\<close>

datatype FailPath =
    FP_Completed | FP_Cancelled | FP_Deadline | FP_Prompt | FP_Model ModelError
  | FP_InvalidModelResponse ModelError | FP_OutputLimit | FP_Refused | FP_ContentFiltered
  | FP_Policy | FP_Interaction | FP_MaxToolRounds | FP_Internal

subsection \<open>Lemmas: steps\<close>

lemma wp_control_steps [simp]:
  "wp (emit e) Q E s = Q () (s\<lparr>rn_sink := try_emit e (rn_sink s)\<rparr>)"
  "wp (record_dropped_run n) Q E s = Q () (s\<lparr>rn_sink := record_dropped n (rn_sink s)\<rparr>)"
  "wp (on_control f) Q E s = Q () (s\<lparr>rn_control := f (rn_control s)\<rparr>)"
  "wp (on_control_get g) R E s = R (snd (g (rn_control s))) (s\<lparr>rn_control := fst (g (rn_control s))\<rparr>)"
  "wp (publish st) Q E s = Q () (s\<lparr>rn_control := publish_state st (rn_control s),
                                    rn_sink := try_emit (EV_StateChanged st) (rn_sink s)\<rparr>)"
  "wp (interfere ser ops) Q E s = Q () (s\<lparr>rn_control := fold (act ser) ops (rn_control s)\<rparr>)"
  by (simp_all add: emit_def record_dropped_run_def on_control_def on_control_get_def publish_def interfere_def)

subsection \<open>Lemmas: what other threads can do\<close>

text \<open>
  An assertion on the control plane is stable when no single act of another thread breaks it;
  it then survives every script of acts and every sequence of polls.
\<close>

locale stable =
  fixes act :: "'x \<Rightarrow> 'c LoopControl \<Rightarrow> 'c LoopControl" and ok :: "'x \<Rightarrow> bool"
    and inv :: "'c LoopControl \<Rightarrow> bool"
  assumes act_stable: "inv c \<Longrightarrow> ok x \<Longrightarrow> inv (act x c)"
begin

lemma acts_stable: "inv c \<Longrightarrow> list_all ok xs \<Longrightarrow> inv (fold act xs c)"
  by (induction xs arbitrary: c) (auto intro: act_stable)

lemma polls_stable:
  "inv c \<Longrightarrow> list_all (\<lambda>p. list_all ok (lp_ops p)) ps \<Longrightarrow> inv (snd (play_polls act ps c))"
  by (induction ps arbitrary: c) (auto simp: Let_def intro: acts_stable)

end

text \<open>
  Before the seal the state byte is \<open>NONE\<close> or a cancellation, the token is cancelled only after
  an exchange won, and the tool sets that reach the loop are well formed.
\<close>

definition typed_op :: "('m, 't, 'p, 'q) others \<Rightarrow> bool" where
  "typed_op x \<longleftrightarrow> (case x of X_Update cfg \<Rightarrow> tool_set_ok (ec_tools cfg) | _ \<Rightarrow> True)"

definition live :: "('m, 't, 'p, 'q) control \<Rightarrow> bool" where
  "live c \<longleftrightarrow> (lc_state c = STATE_NONE \<or> (\<exists>s. lc_state c = cancel_target s))
     \<and> (lc_cancel c \<longrightarrow> lc_state c \<noteq> STATE_NONE)
     \<and> (\<forall>p. cs_pending_config (lc_inner c) = Some p \<longrightarrow> tool_set_ok (ec_tools (pc_config p)))"

definition quiet :: "('m, 't, 'p, 'q) control \<Rightarrow> bool" where
  "quiet c \<longleftrightarrow> live c \<and> cs_interaction (lc_inner c) = None"

text \<open>The fields only the runner writes, the published state apart.\<close>

definition core :: "('m, 't, 'p, 'q) control \<Rightarrow> LoopId \<times> LoopReport option \<times> ConfigRevision" where
  "core c = (lc_id c, lc_completion c, cs_current_revision (lc_inner c))"

text \<open>While an interaction is pending its reply channel is empty, or holds a valid answer.\<close>

definition waiting_for :: "nat \<Rightarrow> InteractionKind \<Rightarrow> ('m, 't, 'p, 'q) control \<Rightarrow> bool" where
  "waiting_for reply kind c \<longleftrightarrow> live c \<and> reply < length (lc_replies c)
     \<and> (case cs_interaction (lc_inner c) of
          Some slot \<Rightarrow> slot_reply slot = reply \<and> slot_expected slot = kind \<and> lc_replies c ! reply = Oneshot_Empty
        | None \<Rightarrow> \<exists>a. lc_replies c ! reply = Oneshot_Sent a \<and> InteractionAnswer_validate a kind = Ok ())"

lemmas act_defs = exchange_cases cancel_token_def is_active_def update_def update_section_def
  install_config_def Let_def answer_def answer_check_def send_reply_def

lemma act_live: "live c \<Longrightarrow> typed_op x \<Longrightarrow> live (act ser x c)"
  by (cases x) (auto simp: live_def typed_op_def act_defs states_distinct
      split: option.splits result.splits if_splits)

lemma act_quiet: "quiet c \<Longrightarrow> typed_op x \<Longrightarrow> quiet (act ser x c)"
  unfolding quiet_def
  by (rule conjI, simp add: act_live, cases x)
    (auto simp: act_defs split: option.splits result.splits if_splits)

lemma act_core: "core (act ser x c) = core c"
  by (cases x) (auto simp: core_def act_defs split: option.splits result.splits if_splits)

lemma act_cancel: "lc_cancel c \<Longrightarrow> lc_cancel (act ser x c)"
  by (cases x) (auto simp: act_defs split: option.splits result.splits if_splits)

lemma act_waiting:
  assumes w: "waiting_for reply kind c" and "typed_op x"
  shows "waiting_for reply kind (act ser x c)"
proof -
  have live: "live (act ser x c)" using assms by (auto simp: waiting_for_def intro: act_live)
  show ?thesis
    using w live
    by (cases x) (auto simp: waiting_for_def act_defs split: option.splits result.splits if_splits)
qed

interpretation live: stable "act ser" typed_op live for ser by unfold_locales (rule act_live)
interpretation quiet: stable "act ser" typed_op quiet for ser by unfold_locales (rule act_quiet)
interpretation core: stable "act ser" "\<lambda>_. True" "\<lambda>c. core c = k" for ser k by unfold_locales (simp add: act_core)
interpretation cancelled: stable "act ser" "\<lambda>_. True" lc_cancel for ser by unfold_locales (rule act_cancel)
interpretation waiting: stable "act ser" typed_op "waiting_for reply kind" for ser reply kind
  by unfold_locales (rule act_waiting)

lemma list_all_True [simp]: "list_all (\<lambda>_. True) xs"
  by (simp add: list_all_iff)

lemma acts_core [simp]: "core (fold (act ser) xs c) = core c"
  by (rule core.acts_stable) simp_all

lemma polls_core [simp]: "core (snd (play_polls (act ser) ps c)) = core c"
  by (rule core.polls_stable) simp_all

lemma polls_cancel:
  "lc_cancel c \<Longrightarrow> lc_cancel (snd (play_polls (act ser) ps c))"
  by (rule cancelled.polls_stable) simp_all

lemma poll_cancelled:
  "p \<in> set (fst (play_polls (act ser) ps c)) \<Longrightarrow> pp_cancelled p \<Longrightarrow> lc_cancel (snd (play_polls (act ser) ps c))"
  by (induction ps arbitrary: c) (auto simp: Let_def intro: polls_cancel)

subsection \<open>Lemmas: port calls\<close>

definition typed_call :: "(('m, 't, 'p, 'q) others, 'a) live_call \<Rightarrow> bool" where
  "typed_call call \<longleftrightarrow> list_all typed_op (lv_ops call) \<and> list_all (\<lambda>p. list_all typed_op (lp_ops p)) (lv_polls call)"

text \<open>What a phase leaves alone unless it says otherwise.\<close>

definition keeps :: "('m, 't, 'p, 'q) runner \<Rightarrow> ('m, 't, 'p, 'q) runner \<Rightarrow> bool" where
  "keeps s s' \<longleftrightarrow> rn_id s' = rn_id s \<and> rn_options s' = rn_options s \<and> core (rn_control s') = core (rn_control s)"

lemma keeps_refl [simp]: "keeps s s"
  by (simp add: keeps_def)

lemma keeps_trans [trans]: "keeps s t \<Longrightarrow> keeps t u \<Longrightarrow> keeps s u"
  by (simp add: keeps_def)

lemma select_port_cancelled: "select_port ps = Some Sel_Cancelled \<Longrightarrow> \<exists>p \<in> set ps. pp_cancelled p"
  by (induction ps) (auto split: if_splits option.splits)

lemma run_port_call_cancelled:
  "run_port_call d t env = Some run \<Longrightarrow> pr_outcome run = PC_Cancelled \<Longrightarrow>
     pe_cancelled env \<or> (\<exists>p \<in> set (pe_polls env). pp_cancelled p)"
  by (auto simp: run_port_call_def Let_def dest!: select_port_cancelled
      split: if_splits result.splits option.splits selected.splits caught.splits)

lemma live_port_wp:
  assumes "quiet (rn_control s)" "typed_call call"
  shows "wp (live_port ser deadline timeout call)
     (\<lambda>run s'. keeps s s' \<and> quiet (rn_control s') \<and> rn_working s' = rn_working s \<and> rn_executed s' = rn_executed s
        \<and> (pr_outcome run = PC_Cancelled \<longrightarrow> lc_cancel (rn_control s')))
     (\<lambda>_. False) s"
proof -
  define c1 where "c1 = fold (act ser) (lv_ops call) (rn_control s)"
  define c2 where "c2 = snd (play_polls (act ser) (lv_polls call) c1)"
  have c1: "quiet c1" unfolding c1_def using assms by (intro quiet.acts_stable) (auto simp: typed_call_def)
  then have "quiet c2" unfolding c2_def using assms(2) by (intro quiet.polls_stable) (auto simp: typed_call_def)
  moreover have "core c2 = core (rn_control s)" by (simp add: c2_def c1_def)
  moreover have "lc_cancel c2" if "lc_cancel c1" using that unfolding c2_def by (rule polls_cancel)
  moreover have "lc_cancel c2" if "p \<in> set (fst (play_polls (act ser) (lv_polls call) c1))" "pp_cancelled p" for p
    using that unfolding c2_def by (rule poll_cancelled)
  ultimately show ?thesis
    by (auto simp: live_port_def Let_def keeps_def c1_def [symmetric] c2_def [symmetric]
        dest!: run_port_call_cancelled split: option.splits)
qed

end
