(* ===== verification/Runner_Tools.thy ===== *)
theory Runner_Tools
  imports Runner_Base
begin

text \<open>
  The tool phase of the runner, \<^verbatim>\<open>src/agent_loop/runner/tools.rs\<close>: policy decision, approval, the
  tool itself, input requests, and the result every call ends with.
\<close>

subsection \<open>Results\<close>

text \<open>\<open>None\<close> is a panic of \<open>expect\<close>.\<close>

definition static_output :: "rstr \<Rightarrow> nat \<Rightarrow> ToolOutput option" where
  "static_output message max_bytes =
     (case ToolOutput_new (if str_len message \<le> max_bytes then message else []) of
        Ok output \<Rightarrow> Some output
      | Err _ \<Rightarrow> None)"

definition terminal_tool_result ::
  "LoopId \<Rightarrow> u32 \<Rightarrow> ToolCallId \<Rightarrow> ToolName \<Rightarrow> ToolResultOutcome \<Rightarrow> rstr \<Rightarrow> nat \<Rightarrow> ToolResultHistory option" where
  "terminal_tool_result ident request_index call_id tool_name outcome message max_output_bytes =
     map_option (\<lambda>output. \<lparr>th_loop_id = ident, th_request_index = request_index, th_call_id = call_id,
         th_tool_name = tool_name, th_outcome = outcome, th_output = output\<rparr>)
       (static_output message max_output_bytes)"

definition completed_result ::
  "LoopId \<Rightarrow> u32 \<Rightarrow> ToolInvocation \<Rightarrow> ToolOutput \<Rightarrow> nat \<Rightarrow> ToolResultHistory option" where
  "completed_result ident request_index invocation output max_output_bytes =
     (if str_len (as_str (out_content output)) \<le> max_output_bytes
      then Some \<lparr>th_loop_id = ident, th_request_index = request_index,
                 th_call_id = inv_tool_call_id invocation, th_tool_name = inv_tool_name invocation,
                 th_outcome = TR_Success, th_output = output\<rparr>
      else terminal_tool_result ident request_index (inv_tool_call_id invocation)
             (inv_tool_name invocation) TR_Failed (lit ''tool output too large'') max_output_bytes)"

definition provided_input_result ::
  "LoopId \<Rightarrow> u32 \<Rightarrow> ToolInvocation \<Rightarrow> rstr \<Rightarrow> nat \<Rightarrow> ToolResultHistory option" where
  "provided_input_result ident request_index invocation content max_output_bytes =
     (let too_large = terminal_tool_result ident request_index (inv_tool_call_id invocation)
             (inv_tool_name invocation) TR_Failed (lit ''tool output too large'') max_output_bytes in
      if str_len content \<le> max_output_bytes
      then (case ToolOutput_new content of
              Ok output \<Rightarrow> Some \<lparr>th_loop_id = ident, th_request_index = request_index,
                 th_call_id = inv_tool_call_id invocation, th_tool_name = inv_tool_name invocation,
                 th_outcome = TR_InputProvided, th_output = output\<rparr>
            | Err _ \<Rightarrow> too_large)
      else too_large)"

definition denied_result ::
  "LoopId \<Rightarrow> u32 \<Rightarrow> ToolInvocation \<Rightarrow> BoundedText option \<Rightarrow> nat \<Rightarrow> ToolResultHistory option" where
  "denied_result ident request_index invocation reason max_output_bytes =
     map_option (\<lambda>output. \<lparr>th_loop_id = ident, th_request_index = request_index,
         th_call_id = inv_tool_call_id invocation, th_tool_name = inv_tool_name invocation,
         th_outcome = TR_Denied, th_output = output\<rparr>)
       (case reason of
          Some r \<Rightarrow>
            if str_len (as_str r) \<le> max_output_bytes
            then (case ToolOutput_new (as_str r) of Ok output \<Rightarrow> Some output | Err _ \<Rightarrow> None)
            else static_output (lit ''tool denied'') max_output_bytes
        | None \<Rightarrow> static_output (lit ''tool denied'') max_output_bytes)"

definition append_result :: "ToolResultHistory \<Rightarrow> ('m, 't, 'p, 'q, unit) step" where
  "append_result result = modify_run (\<lambda>s. s\<lparr>rn_working := append_tool_result result (rn_working s)\<rparr>)"

definition max_output :: "('m, 't, 'p, 'q) runner \<Rightarrow> nat" where
  "max_output s = max_tool_output_bytes (lo_limits (rn_options s))"

fun settle_calls ::
  "u32 \<Rightarrow> ToolCall list \<Rightarrow> ToolResultOutcome \<Rightarrow> rstr \<Rightarrow> ('m, 't, 'p, 'q, unit) step" where
  "settle_calls request_index [] outcome message = return_run ()"
| "settle_calls request_index (call # calls) outcome message =
     bind_run (with_state (\<lambda>s. expect_run (terminal_tool_result (rn_id s) request_index (tc_id call)
         (tc_name call) outcome message (max_output s)))) (\<lambda>result.
     then_run (append_result result)
       (settle_calls request_index calls outcome message))"

subsection \<open>Environment of one call\<close>

record 'x live_wait =
  lw_random :: "u8 list option list"
  lw_polls :: "('x list \<times> bool) list"

text \<open>
  The tool's progress: what was forwarded while it ran and what was drained afterwards, each
  with the drop count read at that moment, and the count read in between.
\<close>

record 'x live_tool =
  lt_ops :: "'x list"
  lt_policy :: "('x, (ToolDecision, ToolPolicyError) result) live_call"
  lt_approval :: "'x live_wait"
  lt_tool :: "('x, (ToolExecutionOutcome, ToolError) result) live_call"
  lt_progress :: "(u64 \<times> ToolProgress) list"
  lt_dropped :: u64
  lt_drained :: "(u64 \<times> ToolProgress) list"
  lt_input :: "'x live_wait"

subsection \<open>Interactions\<close>

text \<open>The biased select over token, deadline and the reply channel.\<close>

fun select_answer ::
  "('x \<Rightarrow> 'c LoopControl \<Rightarrow> 'c LoopControl) \<Rightarrow> instant option \<Rightarrow> nat \<Rightarrow> ('x list \<times> bool) list \<Rightarrow> 'c LoopControl \<Rightarrow>
     (InteractionAnswer, FailPath) result async \<times> 'c LoopControl" where
  "select_answer ext deadline reply [] c = (Pending, c)"
| "select_answer ext deadline reply (p # ps) c =
     (let c' = fold ext (fst p) c in
      if lc_cancel c' then (Done (Err FP_Cancelled), c')
      else if deadline \<noteq> None \<and> snd p then (Done (Err FP_Deadline), c')
      else case lc_replies c' ! reply of
        Oneshot_Sent a \<Rightarrow> (Done (Ok a), c')
      | Oneshot_Closed \<Rightarrow> (Done (Err FP_Interaction), c')
      | Oneshot_Empty \<Rightarrow> select_answer ext deadline reply ps c')"

definition wait_interaction ::
  "json serializer \<Rightarrow> ToolInvocation \<Rightarrow> InteractionId \<Rightarrow> InteractionKind \<Rightarrow> nat \<Rightarrow>
     (('m, 't, 'p, 'q) others list \<times> bool) list \<Rightarrow>
     ('m, 't, 'p, 'q, (InteractionAnswer, FailPath) result) step" where
  "wait_interaction ser invocation interaction_id kind reply polls =
     (let pending = \<lparr>pi_interaction_id = interaction_id, pi_tool_call_id = inv_tool_call_id invocation,
                     pi_tool_name = inv_tool_name invocation, pi_kind = kind\<rparr>;
          slot = \<lparr>slot_id = interaction_id, slot_expected = kind, slot_reply = reply\<rparr> in
      bind_run (on_control_get (set_interaction slot)) (\<lambda>set.
      case set of
        Err _ \<Rightarrow> return_run (Err FP_Internal)
      | Ok _ \<Rightarrow>
          bind_run (gets_run (\<lambda>s. current_state (rn_control s))) (\<lambda>current.
          then_run (publish (current\<lparr>lst_status := LS_WaitingForInput, lst_pending_interaction := Some pending\<rparr>))
          (bind_run (gets_run rn_id) (\<lambda>ident.
          then_run (emit (EV_InteractionRequested ident pending))
          (bind_run (with_state (\<lambda>s.
             (let selected = select_answer (act ser) (lo_deadline (rn_options s)) reply polls (rn_control s) in
              then_run (on_control (\<lambda>_. snd selected)) (lift_run (fst selected))))) (\<lambda>answered.
          then_run (on_control take_interaction)
          (case answered of
             Err path \<Rightarrow> return_run (Err path)
           | Ok a \<Rightarrow>
               then_run (emit (EV_InteractionResolved ident interaction_id))
               (bind_run (gets_run (\<lambda>s. current_state (rn_control s))) (\<lambda>running.
                then_run (publish (running\<lparr>lst_status := LS_RunningTools, lst_pending_interaction := None\<rparr>))
                  (return_run (Ok a)))))))))))) "

text \<open>
  A fresh id, a fresh reply channel and the wait, as both callers do it; an id that cannot be
  generated is an internal error.
\<close>

definition ask ::
  "json serializer \<Rightarrow> ToolInvocation \<Rightarrow> InteractionKind \<Rightarrow> ('m, 't, 'p, 'q) others live_wait \<Rightarrow>
     ('m, 't, 'p, 'q, (InteractionAnswer, FailPath) result) step" where
  "ask ser invocation kind wait =
     (case InteractionId_new (lw_random wait) of
        None \<Rightarrow> lift_run Pending
      | Some (Err _) \<Rightarrow> return_run (Err FP_Internal)
      | Some (Ok interaction_id) \<Rightarrow>
          bind_run (on_control_get oneshot_channel) (\<lambda>reply.
          wait_interaction ser invocation interaction_id kind reply (lw_polls wait)))"

subsection \<open>Policy\<close>

datatype PolicyStep =
    PS_Allow | PS_Denied "BoundedText option" | PS_RequireApproval ApprovalRequest
  | PS_Cancelled | PS_TurnDeadline | PS_Invalid

definition policy_step :: "(ToolDecision, ToolPolicyError) PortCallOutcome \<Rightarrow> PolicyStep" where
  "policy_step outcome =
     (case outcome of
        Returned (Ok decision) \<Rightarrow>
          if \<not> is_ok (ToolDecision_validate decision) then PS_Invalid
          else (case decision of
                  TD_Allow \<Rightarrow> PS_Allow
                | TD_Deny reason \<Rightarrow> PS_Denied (Some reason)
                | TD_RequireApproval request \<Rightarrow> PS_RequireApproval request)
      | PC_Cancelled \<Rightarrow> PS_Cancelled
      | PC_DeadlineExceeded Turn \<Rightarrow> PS_TurnDeadline
      | Returned (Err _) \<Rightarrow> PS_Denied None
      | PC_DeadlineExceeded Port \<Rightarrow> PS_Denied None
      | PC_InvalidDeadline _ \<Rightarrow> PS_Denied None
      | PC_Panicked \<Rightarrow> PS_Denied None)"

definition decide_policy ::
  "json serializer \<Rightarrow> 'p option \<Rightarrow> instant \<Rightarrow> duration \<Rightarrow>
     (('m, 't, 'p, 'q) others, (ToolDecision, ToolPolicyError) result) live_call \<Rightarrow> ('m, 't, 'p, 'q, PolicyStep) step" where
  "decide_policy ser policy deadline policy_timeout call =
     (case policy of
        None \<Rightarrow> return_run PS_Allow
      | Some _ \<Rightarrow> bind_run (live_port ser deadline policy_timeout call) (\<lambda>run.
          return_run (policy_step (pr_outcome run))))"

subsection \<open>The tool port\<close>

datatype ToolPort =
    TPort_Completed ToolOutput | TPort_RequestInput ToolInputRequest | TPort_Failed | TPort_End FailPath

definition tool_port :: "(ToolExecutionOutcome, ToolError) PortCallOutcome \<Rightarrow> ToolPort" where
  "tool_port outcome =
     (case outcome of
        Returned (Ok (TX_Completed output)) \<Rightarrow> TPort_Completed output
      | Returned (Ok (TX_RequestInput request)) \<Rightarrow>
          if is_ok (ToolInputRequest_validate request) then TPort_RequestInput request else TPort_Failed
      | PC_Cancelled \<Rightarrow> TPort_End FP_Cancelled
      | PC_DeadlineExceeded Turn \<Rightarrow> TPort_End FP_Deadline
      | Returned (Err _) \<Rightarrow> TPort_Failed
      | PC_DeadlineExceeded Port \<Rightarrow> TPort_Failed
      | PC_InvalidDeadline _ \<Rightarrow> TPort_End FP_Internal
      | PC_Panicked \<Rightarrow> TPort_Failed)"

fun forward_tool_progress ::
  "u32 \<Rightarrow> ToolCallId \<Rightarrow> (u64 \<times> ToolProgress) list \<Rightarrow> ('m, 't, 'p, 'q, unit) step" where
  "forward_tool_progress request_index call_id [] = return_run ()"
| "forward_tool_progress request_index call_id ((dropped, progress) # rest) =
     then_run (record_dropped_run dropped)
     (bind_run (gets_run rn_id) (\<lambda>ident.
      then_run (emit (EV_ToolProgress ident request_index call_id progress))
        (forward_tool_progress request_index call_id rest)))"

definition TOOL_PROGRESS_CAPACITY :: nat where "TOOL_PROGRESS_CAPACITY = 64"

text \<open>\<open>LoopToolProgress::emit\<close>: the tool's side of the progress channel, with its drop counter.\<close>

definition LoopToolProgress_emit ::
  "ToolCallId \<Rightarrow> (ToolCallId \<times> ToolProgress) mpsc \<times> u64 \<Rightarrow> ToolProgress \<Rightarrow>
     ((ToolCallId \<times> ToolProgress) mpsc \<times> u64) \<times> bool" where
  "LoopToolProgress_emit call_id st progress =
     (case mpsc_try_send (call_id, progress) (fst st) of
        (ch, Sent) \<Rightarrow> ((ch, snd st), True)
      | (_, Channel_Full) \<Rightarrow> ((fst st, snd st + 1), False)
      | (_, Channel_Closed) \<Rightarrow> (st, False))"

definition run_tool_port ::
  "json serializer \<Rightarrow> u32 \<Rightarrow> ToolInvocation \<Rightarrow> instant \<Rightarrow> ('m, 't, 'p, 'q) others live_tool \<Rightarrow>
     ('m, 't, 'p, 'q, ToolPort) step" where
  "run_tool_port ser request_index invocation deadline env =
     then_run (forward_tool_progress request_index (inv_tool_call_id invocation) (lt_progress env))
     (bind_run (gets_run (\<lambda>s. lo_tool_timeout (rn_options s))) (\<lambda>timeout.
      bind_run (live_port ser deadline timeout (lt_tool env)) (\<lambda>run.
      then_run (modify_run (\<lambda>s. if pr_called run = None then s
                  else s\<lparr>rn_executed := rn_executed s @ [inv_tool_call_id invocation]\<rparr>))
      (then_run (record_dropped_run (lt_dropped env))
      (then_run (forward_tool_progress request_index (inv_tool_call_id invocation) (lt_drained env))
        (return_run (tool_port (pr_outcome run))))))))"

subsection \<open>One call and the batch\<close>

datatype ToolStep = TStep_Result ToolResultHistory | TStep_End FailPath

definition result_step :: "(LoopId \<Rightarrow> nat \<Rightarrow> ToolResultHistory option) \<Rightarrow> ('m, 't, 'p, 'q, ToolStep) step" where
  "result_step f =
     bind_run (with_state (\<lambda>s. expect_run (f (rn_id s) (max_output s)))) (\<lambda>result. return_run (TStep_Result result))"

definition provide_input ::
  "json serializer \<Rightarrow> (json \<Rightarrow> rstr) \<Rightarrow> u32 \<Rightarrow> ToolInvocation \<Rightarrow> ToolInputRequest \<Rightarrow> ('m, 't, 'p, 'q) others live_wait \<Rightarrow>
     ('m, 't, 'p, 'q, ToolStep) step" where
  "provide_input ser enc request_index invocation request wait =
     bind_run (ask ser invocation (IK_ToolInput request) wait) (\<lambda>answered.
     case answered of
       Err path \<Rightarrow> return_run (TStep_End path)
     | Ok (IA_ToolInput a) \<Rightarrow>
         bind_run (expect_run (ToolInputAnswer_encode_result enc a request)) (\<lambda>content.
         result_step (\<lambda>ident mx. provided_input_result ident request_index invocation content mx))
     | Ok _ \<Rightarrow> return_run (TStep_End FP_Internal))"

definition call_tool ::
  "json serializer \<Rightarrow> (json \<Rightarrow> rstr) \<Rightarrow> u32 \<Rightarrow> ToolInvocation \<Rightarrow> ('m, 't, 'p, 'q) others live_tool \<Rightarrow>
     ('m, 't, 'p, 'q, ToolStep) step" where
  "call_tool ser enc request_index invocation env =
     bind_run (with_state (\<lambda>s. expect_run (turn_deadline (lv_now_turn (lt_tool env)) (lo_deadline (rn_options s))))) (\<lambda>deadline.
     bind_run (run_tool_port ser request_index invocation deadline env) (\<lambda>port.
     case port of
       TPort_Completed output \<Rightarrow>
         result_step (\<lambda>ident mx. completed_result ident request_index invocation output mx)
     | TPort_RequestInput request \<Rightarrow> provide_input ser enc request_index invocation request (lt_input env)
     | TPort_Failed \<Rightarrow>
         result_step (\<lambda>ident mx. terminal_tool_result ident request_index (inv_tool_call_id invocation)
           (inv_tool_name invocation) TR_Failed (lit ''tool failed'') mx)
     | TPort_End path \<Rightarrow> return_run (TStep_End path)))"

definition seek_approval ::
  "json serializer \<Rightarrow> (json \<Rightarrow> rstr) \<Rightarrow> u32 \<Rightarrow> ToolInvocation \<Rightarrow> ApprovalRequest \<Rightarrow> ('m, 't, 'p, 'q) others live_tool \<Rightarrow>
     ('m, 't, 'p, 'q, ToolStep) step" where
  "seek_approval ser enc request_index invocation request env =
     bind_run (ask ser invocation (IK_Approval request) (lt_approval env)) (\<lambda>answered.
     case answered of
       Err path \<Rightarrow> return_run (TStep_End path)
     | Ok (IA_Approval AllowOnce) \<Rightarrow> call_tool ser enc request_index invocation env
     | Ok (IA_Approval Deny_Approval) \<Rightarrow>
         result_step (\<lambda>ident mx. denied_result ident request_index invocation None mx)
     | Ok _ \<Rightarrow> return_run (TStep_End FP_Internal))"

definition run_tool_call ::
  "json serializer \<Rightarrow> (json \<Rightarrow> rstr) \<Rightarrow> u32 \<Rightarrow> ToolInvocation \<Rightarrow> 'p option \<Rightarrow> ('m, 't, 'p, 'q) others live_tool \<Rightarrow>
     ('m, 't, 'p, 'q, ToolStep) step" where
  "run_tool_call ser enc request_index invocation policy env =
     bind_run (with_state (\<lambda>s. expect_run (turn_deadline (lv_now_turn (lt_policy env)) (lo_deadline (rn_options s))))) (\<lambda>deadline.
     bind_run (gets_run (\<lambda>s. lo_policy_timeout (rn_options s))) (\<lambda>timeout.
     bind_run (decide_policy ser policy deadline timeout (lt_policy env)) (\<lambda>decided.
     case decided of
       PS_Allow \<Rightarrow> call_tool ser enc request_index invocation env
     | PS_Denied reason \<Rightarrow>
         result_step (\<lambda>ident mx. denied_result ident request_index invocation reason mx)
     | PS_RequireApproval request \<Rightarrow> seek_approval ser enc request_index invocation request env
     | PS_Cancelled \<Rightarrow> return_run (TStep_End FP_Cancelled)
     | PS_TurnDeadline \<Rightarrow> return_run (TStep_End FP_Deadline)
     | PS_Invalid \<Rightarrow> return_run (TStep_End FP_Policy))))"

text \<open>
  The loop over the calls of one response.  The tool of a call is looked up in the frozen set;
  \<open>None\<close> there is the panic of \<open>expect\<close>.
\<close>

definition start_call ::
  "json serializer \<Rightarrow> (json \<Rightarrow> rstr) \<Rightarrow> u32 \<Rightarrow> ('m, 't, 'p, 'q) ExecutionConfig \<Rightarrow> ToolCall \<Rightarrow>
     ('m, 't, 'p, 'q) others live_tool \<Rightarrow> ('m, 't, 'p, 'q, ToolStep) step" where
  "start_call ser enc request_index snapshot call env =
     bind_run (gets_run (\<lambda>s. lc_cancel (rn_control s))) (\<lambda>cancelled.
     if cancelled then return_run (TStep_End FP_Cancelled)
     else
       bind_run (expect_run (EnabledTools_get (ec_tools snapshot) (tc_name call))) (\<lambda>enabled.
       bind_run (gets_run rn_id) (\<lambda>ident.
       then_run (emit (EV_ToolStarted ident request_index (tc_id call) (tc_name call)))
         (run_tool_call ser enc request_index
            \<lparr>inv_tool_call_id = tc_id call, inv_tool_name = tc_name call,
             inv_arguments = tc_arguments call\<rparr> (ec_policy snapshot) env))))"

fun run_tool_batch ::
  "json serializer \<Rightarrow> (json \<Rightarrow> rstr) \<Rightarrow> u32 \<Rightarrow> ('m, 't, 'p, 'q) ExecutionConfig \<Rightarrow> ToolCall list \<Rightarrow>
     ('m, 't, 'p, 'q) others live_tool list \<Rightarrow> ('m, 't, 'p, 'q, FailPath option) step" where
  "run_tool_batch ser enc request_index snapshot [] envs = return_run None"
| "run_tool_batch ser enc request_index snapshot (call # calls) [] = lift_run Pending"
| "run_tool_batch ser enc request_index snapshot (call # calls) (env # envs) =
     then_run (interfere ser (lt_ops env))
     (bind_run (start_call ser enc request_index snapshot call env) (\<lambda>stepped.
      case stepped of
        TStep_Result result \<Rightarrow>
          bind_run (gets_run rn_id) (\<lambda>ident.
          then_run (emit (EV_ToolFinished ident request_index (tc_id call) (th_outcome result)
                       (str_len (as_str (out_content (th_output result))))))
          (then_run (append_result result)
             (run_tool_batch ser enc request_index snapshot calls envs)))
      | TStep_End path \<Rightarrow>
          then_run (settle_calls request_index (call # calls) TR_Cancelled (lit ''tool batch interrupted''))
            (return_run (Some path))))"

subsection \<open>Lemmas: results\<close>

definition answers_call :: "LoopId \<Rightarrow> u32 \<Rightarrow> nat \<Rightarrow> ToolCall \<Rightarrow> ToolResultHistory \<Rightarrow> bool" where
  "answers_call ident request_index mx call r \<longleftrightarrow>
     th_loop_id r = ident \<and> th_request_index r = request_index \<and> th_call_id r = tc_id call
     \<and> th_tool_name r = tc_name call \<and> str_len (as_str (out_content (th_output r))) \<le> mx"

definition invocation_of :: "ToolCall \<Rightarrow> ToolInvocation" where
  "invocation_of call = \<lparr>inv_tool_call_id = tc_id call, inv_tool_name = tc_name call, inv_arguments = tc_arguments call\<rparr>"

definition static_message :: "rstr \<Rightarrow> bool" where
  "static_message m \<longleftrightarrow> list_all allowed_char m \<and> str_len m \<le> MAX_TEXT_BYTES"

lemma static_output_fits:
  assumes "static_message m"
  shows "\<exists>output. static_output m mx = Some output \<and> str_len (as_str (out_content output)) \<le> mx"
  using assms
  by (auto simp: static_output_def static_message_def ToolOutput_new_def valid_text_def
      BoundedText_new_with_max_bytes_def)

lemma static_messages [simp]:
  "static_message (lit ''tool output too large'')" "static_message (lit ''tool denied'')"
  "static_message (lit ''tool failed'')" "static_message (lit ''tool batch interrupted'')"
  "static_message (lit ''tool round limit reached'')"
  by (simp_all add: static_message_def lit_def allowed_char_def is_control_def utf8_len_def utf8_char_def MAX_TEXT_BYTES_def)

lemma terminal_result_answers:
  "static_message m \<Longrightarrow>
     \<exists>r. terminal_tool_result ident ri (tc_id call) (tc_name call) outcome m mx = Some r
       \<and> answers_call ident ri mx call r \<and> th_outcome r = outcome"
  using static_output_fits [of m mx] by (auto simp: terminal_tool_result_def answers_call_def)

lemma completed_result_answers:
  "\<exists>r. completed_result ident ri (invocation_of call) output mx = Some r \<and> answers_call ident ri mx call r"
  using terminal_result_answers [of "lit ''tool output too large''" ident ri call TR_Failed mx]
  by (auto simp: completed_result_def invocation_of_def answers_call_def)

lemma provided_input_answers:
  "\<exists>r. provided_input_result ident ri (invocation_of call) content mx = Some r \<and> answers_call ident ri mx call r"
  using terminal_result_answers [of "lit ''tool output too large''" ident ri call TR_Failed mx]
  by (auto simp: provided_input_result_def invocation_of_def answers_call_def Let_def ToolOutput_new_Ok
      split: result.splits)

lemma denied_result_answers:
  assumes "\<And>r. reason = Some r \<Longrightarrow> ToolDecision_validate (TD_Deny r) = Ok ()"
  shows "\<exists>r. denied_result ident ri (invocation_of call) reason mx = Some r \<and> answers_call ident ri mx call r
           \<and> th_outcome r = TR_Denied"
proof -
  obtain out where "static_output (lit ''tool denied'') mx = Some out" "str_len (as_str (out_content out)) \<le> mx"
    using static_output_fits [of "lit ''tool denied''" mx] by auto
  moreover have "\<exists>out. ToolOutput_new (as_str r) = Ok out \<and> as_str (out_content out) = as_str r"
    if "reason = Some r" for r
    using assms [OF that]
    by (auto simp: ToolDecision_validate_def validate_policy_text_def ToolOutput_new_def valid_text_def
        MAX_TOOL_POLICY_TEXT_BYTES_def MAX_TEXT_BYTES_def BoundedText_new_with_max_bytes_def split: if_splits)
  ultimately show ?thesis
    by (fastforce simp: denied_result_def invocation_of_def answers_call_def split: option.splits)
qed

definition adds :: "('m, 't, 'p, 'q) runner \<Rightarrow> ('m, 't, 'p, 'q) runner \<Rightarrow> HistoryItem list \<Rightarrow> bool" where
  "adds s s' items \<longleftrightarrow> wh_base (rn_working s') = wh_base (rn_working s)
     \<and> wh_appended (rn_working s') = wh_appended (rn_working s) @ items"

lemma adds_simps [simp]: "adds s s []" "adds s t xs \<Longrightarrow> adds t u ys \<Longrightarrow> adds s u (xs @ ys)"
  by (simp_all add: adds_def)

lemma settle_calls_wp:
  assumes "static_message m"
  shows "wp (settle_calls ri calls outcome m)
     (\<lambda>_ s'. keeps s s' \<and> rn_control s' = rn_control s \<and> rn_sink s' = rn_sink s
        \<and> (\<exists>rs. adds s s' (map HI_ToolResult rs) \<and> (\<forall>r \<in> set rs. th_outcome r = outcome)
             \<and> list_all2 (answers_call (rn_id s) ri (max_output s)) calls rs))
     (\<lambda>_. False) s"
proof (induction calls arbitrary: s)
  case (Cons call calls)
  obtain r where r: "terminal_tool_result (rn_id s) ri (tc_id call) (tc_name call) outcome m (max_output s) = Some r"
    "answers_call (rn_id s) ri (max_output s) call r" "th_outcome r = outcome"
    using terminal_result_answers [OF assms] by blast
  define t where "t = s\<lparr>rn_working := append_tool_result r (rn_working s)\<rparr>"
  have t: "adds s t [HI_ToolResult r]" "rn_id t = rn_id s" "max_output t = max_output s" "keeps s t"
    "rn_control t = rn_control s" "rn_sink t = rn_sink s"
    by (simp_all add: t_def adds_def append_tool_result_def max_output_def keeps_def)
  have "wp (settle_calls ri calls outcome m)
     (\<lambda>_ s'. keeps s s' \<and> rn_control s' = rn_control s \<and> rn_sink s' = rn_sink s
        \<and> (\<exists>rs. adds s s' (map HI_ToolResult rs) \<and> (\<forall>r \<in> set rs. th_outcome r = outcome)
             \<and> list_all2 (answers_call (rn_id s) ri (max_output s)) (call # calls) rs)) (\<lambda>_. False) t"
  proof (rule wp_mono [OF Cons.IH [of t]])
    fix s' assume "keeps t s' \<and> rn_control s' = rn_control t \<and> rn_sink s' = rn_sink t
        \<and> (\<exists>rs. adds t s' (map HI_ToolResult rs) \<and> (\<forall>r \<in> set rs. th_outcome r = outcome)
             \<and> list_all2 (answers_call (rn_id t) ri (max_output t)) calls rs)"
    then obtain rs where *: "keeps t s'" "rn_control s' = rn_control t" "rn_sink s' = rn_sink t"
      "adds t s' (map HI_ToolResult rs)" "\<forall>r \<in> set rs. th_outcome r = outcome"
      "list_all2 (answers_call (rn_id t) ri (max_output t)) calls rs" by blast
    then show "keeps s s' \<and> rn_control s' = rn_control s \<and> rn_sink s' = rn_sink s
        \<and> (\<exists>rs. adds s s' (map HI_ToolResult rs) \<and> (\<forall>r \<in> set rs. th_outcome r = outcome)
             \<and> list_all2 (answers_call (rn_id s) ri (max_output s)) (call # calls) rs)"
      using t r adds_simps(2) [OF t(1) *(4)] keeps_trans [OF t(4)] by (intro conjI exI [of _ "r # rs"]) auto
  qed
  then show ?case by (simp add: r(1) append_result_def t_def)
qed simp

subsection \<open>Lemmas: interactions\<close>

text \<open>How the tool phase can end a loop.\<close>

definition end_path :: "('m, 't, 'p, 'q) control \<Rightarrow> FailPath \<Rightarrow> bool" where
  "end_path c p \<longleftrightarrow> p \<in> {FP_Cancelled, FP_Deadline, FP_Policy, FP_Internal} \<and> (p = FP_Cancelled \<longrightarrow> lc_cancel c)"

definition typed_wait :: "('m, 't, 'p, 'q) others live_wait \<Rightarrow> bool" where
  "typed_wait w \<longleftrightarrow> list_all (\<lambda>p. list_all typed_op (fst p)) (lw_polls w)"

lemma select_answer_spec:
  assumes "waiting_for reply kind c" "list_all (\<lambda>p. list_all typed_op (fst p)) polls"
    and "select_answer (act ser) deadline reply polls c = (r, c')"
  shows "waiting_for reply kind c' \<and> core c' = core c
     \<and> (case r of Done (Ok a) \<Rightarrow> InteractionAnswer_validate a kind = Ok ()
        | Done (Err p) \<Rightarrow> p = FP_Cancelled \<and> lc_cancel c' \<or> p = FP_Deadline
        | Pending \<Rightarrow> True | Aborted \<Rightarrow> False)"
  using assms
proof (induction polls arbitrary: c)
  case (Cons p ps)
  define d where "d = fold (act ser) (fst p) c"
  have d: "waiting_for reply kind d" "core d = core c"
    using waiting.acts_stable [OF Cons.prems(1)] Cons.prems(2) by (simp_all add: d_def)
  show ?case
    using Cons.IH [OF d(1)] Cons.prems(2,3) d
    by (auto simp: d_def [symmetric] Let_def waiting_for_def split: if_splits oneshot.splits option.splits)
qed auto

lemma take_interaction_quiet:
  "waiting_for reply kind c \<Longrightarrow> quiet (take_interaction c) \<and> core (take_interaction c) = core c
     \<and> lc_cancel (take_interaction c) = lc_cancel c"
  by (auto simp: waiting_for_def quiet_def live_def core_def take_interaction_def drop_sender_def split: option.splits)

lemma set_interaction_waiting:
  assumes "quiet c"
  shows "let c' = fst (oneshot_channel c); reply = snd (oneshot_channel c) in
     \<exists>c2. set_interaction \<lparr>slot_id = i, slot_expected = kind, slot_reply = reply\<rparr> c' = (c2, Ok ())
       \<and> waiting_for reply kind c2 \<and> core c2 = core c"
  using assms
  by (auto simp: oneshot_channel_def set_interaction_def waiting_for_def quiet_def live_def core_def Let_def)

lemma publish_state_stable [simp]:
  "quiet (publish_state st c) = quiet c" "core (publish_state st c) = core c"
  "waiting_for reply kind (publish_state st c) = waiting_for reply kind c"
  "lc_cancel (publish_state st c) = lc_cancel c" "live (publish_state st c) = live c"
  by (simp_all add: publish_state_def quiet_def live_def core_def waiting_for_def split: option.split)

lemma ask_wp:
  assumes "quiet (rn_control s)" "typed_wait w"
  shows "wp (ask ser invocation kind w)
     (\<lambda>r s'. keeps s s' \<and> quiet (rn_control s') \<and> rn_working s' = rn_working s \<and> rn_executed s' = rn_executed s
        \<and> (case r of Ok a \<Rightarrow> InteractionAnswer_validate a kind = Ok ()
           | Err p \<Rightarrow> end_path (rn_control s') p \<and> p \<noteq> FP_Policy))
     (\<lambda>_. False) s"
proof -
  have polls: "list_all (\<lambda>p. list_all typed_op (fst p)) (lw_polls w)" using assms(2) by (simp add: typed_wait_def)
  show ?thesis
  proof (cases "InteractionId_new (lw_random w)")
    case (Some idr)
    show ?thesis
    proof (cases idr)
      case (Ok i)
      obtain c2 where c2: "set_interaction \<lparr>slot_id = i, slot_expected = kind, slot_reply = snd (oneshot_channel (rn_control s))\<rparr>
          (fst (oneshot_channel (rn_control s))) = (c2, Ok ())"
        "waiting_for (snd (oneshot_channel (rn_control s))) kind c2" "core c2 = core (rn_control s)"
        using set_interaction_waiting [OF assms(1)] by (metis (no_types, lifting))
      define cp where "cp = publish_state ((current_state c2)\<lparr>lst_status := LS_WaitingForInput,
          lst_pending_interaction := Some \<lparr>pi_interaction_id = i, pi_tool_call_id = inv_tool_call_id invocation,
             pi_tool_name = inv_tool_name invocation, pi_kind = kind\<rparr>\<rparr>) c2"
      obtain r c' where sel: "select_answer (act ser) (lo_deadline (rn_options s))
          (snd (oneshot_channel (rn_control s))) (lw_polls w) cp = (r, c')"
        by fastforce
      have "waiting_for (snd (oneshot_channel (rn_control s))) kind cp" using c2(2) by (simp add: cp_def)
      note spec = select_answer_spec [OF this polls sel]
      have q: "quiet (take_interaction c')" "core (take_interaction c') = core c'"
        "lc_cancel (take_interaction c') = lc_cancel c'"
        using spec take_interaction_quiet by blast+
      have "core cp = core (rn_control s)" using c2(3) by (simp add: cp_def)
      then show ?thesis
        using spec q
        by (auto simp: ask_def Some Ok wait_interaction_def Let_def c2(1) cp_def [symmetric] sel keeps_def
            end_path_def split: async.splits result.splits)
    qed (simp add: ask_def Some end_path_def assms(1))
  qed (simp add: ask_def)
qed

subsection \<open>Lemmas: one call\<close>

definition typed_tool :: "('m, 't, 'p, 'q) others live_tool \<Rightarrow> bool" where
  "typed_tool env \<longleftrightarrow> list_all typed_op (lt_ops env) \<and> typed_call (lt_policy env) \<and> typed_wait (lt_approval env)
     \<and> typed_call (lt_tool env) \<and> typed_wait (lt_input env)"

text \<open>The only panic left in a call: a clock at the end of its range.\<close>

definition calm_tool :: "LoopOptions \<Rightarrow> ('m, 't, 'p, 'q) others live_tool \<Rightarrow> bool" where
  "calm_tool opts env \<longleftrightarrow> turn_deadline (lv_now_turn (lt_policy env)) (lo_deadline opts) \<noteq> None
     \<and> turn_deadline (lv_now_turn (lt_tool env)) (lo_deadline opts) \<noteq> None"

lemma forward_tool_progress_wp:
  "wp (forward_tool_progress ri call_id ps)
     (\<lambda>_ s'. keeps s s' \<and> rn_control s' = rn_control s \<and> rn_working s' = rn_working s \<and> rn_executed s' = rn_executed s)
     (\<lambda>_. False) s"
proof (induction ps arbitrary: s)
  case (Cons p ps)
  show ?case
    by (cases p, simp) (rule wp_mono [OF Cons.IH], auto simp: keeps_def)
qed simp

lemma tool_port_facts:
  assumes "out = PC_Cancelled \<longrightarrow> lc_cancel c"
  shows "case tool_port out of
      TPort_End p \<Rightarrow> end_path c p | TPort_RequestInput r \<Rightarrow> ToolInputRequest_validate r = Ok () | _ \<Rightarrow> True"
  using assms
  by (auto simp: tool_port_def end_path_def is_ok_iff split: PortCallOutcome.splits result.splits
      ToolExecutionOutcome.splits DeadlineSource.splits)

lemma run_tool_port_wp:
  assumes "quiet (rn_control s)" "typed_call (lt_tool env)"
  shows "wp (run_tool_port ser ri invocation deadline env)
     (\<lambda>port s'. keeps s s' \<and> quiet (rn_control s') \<and> rn_working s' = rn_working s
        \<and> (case port of
             TPort_End p \<Rightarrow> end_path (rn_control s') p
           | TPort_RequestInput r \<Rightarrow> ToolInputRequest_validate r = Ok ()
           | _ \<Rightarrow> True))
     (\<lambda>_. False) s"
  unfolding run_tool_port_def
proof (rule wp_thenI [OF forward_tool_progress_wp], unfold wp_simps, rule wp_mono [OF live_port_wp], goal_cases)
  case (3 a t run u)
  define v where "v = (if pr_called run = None then u
      else u\<lparr>rn_executed := rn_executed u @ [inv_tool_call_id invocation]\<rparr>)\<lparr>rn_sink := record_dropped (lt_dropped env) (rn_sink u)\<rparr>"
  have v: "keeps s v" "rn_control v = rn_control u" "rn_working v = rn_working s" "quiet (rn_control u)"
    using 3 by (auto simp: v_def keeps_def)
  have out: "pr_outcome run = PC_Cancelled \<longrightarrow> lc_cancel (rn_control u)" using 3 by blast
  show ?case
    using tool_port_facts [OF out] v
    by (simp add: wp_simps) (auto simp: v_def keeps_def intro!: wp_mono [OF forward_tool_progress_wp] split: ToolPort.splits)
qed (use assms in auto)

definition step_post ::
  "u32 \<Rightarrow> ToolCall \<Rightarrow> ('m, 't, 'p, 'q) runner \<Rightarrow> ToolStep \<Rightarrow> ('m, 't, 'p, 'q) runner \<Rightarrow> bool" where
  "step_post ri call s r s' \<longleftrightarrow> keeps s s' \<and> quiet (rn_control s') \<and> rn_working s' = rn_working s
     \<and> (case r of TStep_Result res \<Rightarrow> answers_call (rn_id s) ri (max_output s) call res
        | TStep_End p \<Rightarrow> end_path (rn_control s') p)"

lemma step_post_lift:
  assumes "keeps s t" "rn_working t = rn_working s" "step_post ri call t r u"
  shows "step_post ri call s r u"
  using assms by (auto simp: step_post_def keeps_def max_output_def split: ToolStep.splits)

lemma wp_step_lift:
  assumes "wp f (step_post ri call t) E t" "keeps s t" "rn_working t = rn_working s" "\<And>u. E u \<Longrightarrow> E' u"
  shows "wp f (step_post ri call s) E' t"
  using assms by (blast intro: wp_mono step_post_lift)

lemma result_step_wp:
  assumes "quiet (rn_control s)"
    and "\<And>i mx. \<exists>r. f i mx = Some r \<and> answers_call i ri mx call r"
  shows "wp (result_step f) (step_post ri call s) (\<lambda>_. False) s"
  using assms(1) assms(2) [of "rn_id s" "max_output s"] by (auto simp: result_step_def step_post_def)

lemma end_step_wp:
  "quiet (rn_control s) \<Longrightarrow> end_path (rn_control s) p \<Longrightarrow> wp (return_run (TStep_End p)) (step_post ri call s) (\<lambda>_. False) s"
  by (simp add: step_post_def)

lemma provide_input_wp:
  assumes "quiet (rn_control s)" "typed_wait wait"
  shows "wp (provide_input ser enc ri (invocation_of call) request wait) (step_post ri call s) (\<lambda>_. False) s"
  unfolding provide_input_def
proof (rule wp_bindI [OF ask_wp [OF assms]], goal_cases)
  case (1 answered t)
  then have t: "keeps s t" "quiet (rn_control t)" "rn_working t = rn_working s" by blast+
  show ?case
  proof (cases answered)
    case (Ok a)
    then obtain ta where ta: "a = IA_ToolInput ta" "ToolInputAnswer_validate ta request = Ok ()"
      using 1 by (auto simp: InteractionAnswer_validate_Ok)
    obtain content where "ToolInputAnswer_encode_result enc ta request = Some content"
      using encode_result_total [OF ta(2)] by auto
    with Ok ta show ?thesis
      using wp_step_lift [OF result_step_wp [OF t(2) provided_input_answers] t(1,3)] by simp
  next
    case (Err p)
    then show ?thesis using 1 wp_step_lift [OF end_step_wp [OF t(2)] t(1,3)] by simp
  qed
qed

lemma call_tool_wp:
  assumes "quiet (rn_control s)" "typed_tool env"
  shows "wp (call_tool ser enc ri (invocation_of call) env) (step_post ri call s)
     (\<lambda>t. keeps s t \<and> quiet (rn_control t) \<and> \<not> calm_tool (rn_options s) env) s"
proof (cases "turn_deadline (lv_now_turn (lt_tool env)) (lo_deadline (rn_options s))")
  case (Some deadline)
  have env: "typed_call (lt_tool env)" "typed_wait (lt_input env)" using assms(2) by (simp_all add: typed_tool_def)
  have failed: "\<exists>r. terminal_tool_result i ri (inv_tool_call_id (invocation_of call))
      (inv_tool_name (invocation_of call)) TR_Failed (lit ''tool failed'') mx = Some r \<and> answers_call i ri mx call r" for i mx
    using terminal_result_answers [of "lit ''tool failed''" i ri call TR_Failed mx] by (auto simp: invocation_of_def)
  show ?thesis
    unfolding call_tool_def wp_simps(4,6,8) Some option.case
  proof (rule wp_mono [OF run_tool_port_wp [OF assms(1) env(1)]], goal_cases)
    case (1 port t)
    then have t: "keeps s t" "quiet (rn_control t)" "rn_working t = rn_working s" by blast+
    show ?case
      by (cases port) (use 1 wp_step_lift [OF result_step_wp [OF t(2) completed_result_answers] t(1,3)]
          wp_step_lift [OF provide_input_wp [OF t(2) env(2)] t(1,3)]
          wp_step_lift [OF result_step_wp [OF t(2) failed] t(1,3)]
          wp_step_lift [OF end_step_wp [OF t(2)] t(1,3)] in simp_all)
  qed simp
qed (simp add: call_tool_def calm_tool_def assms(1))

lemma seek_approval_wp:
  assumes "quiet (rn_control s)" "typed_tool env"
  shows "wp (seek_approval ser enc ri (invocation_of call) request env) (step_post ri call s)
     (\<lambda>t. keeps s t \<and> quiet (rn_control t) \<and> \<not> calm_tool (rn_options s) env) s"
  unfolding seek_approval_def
proof (rule wp_bindI [OF ask_wp [OF assms(1)]], goal_cases)
  case (2 answered t)
  then have t: "keeps s t" "quiet (rn_control t)" "rn_working t = rn_working s" by blast+
  have opts: "rn_options t = rn_options s" using t(1) by (simp add: keeps_def)
  show ?case
  proof (cases answered)
    case (Ok a)
    then obtain d where a: "a = IA_Approval d" using 2 by (auto simp: InteractionAnswer_validate_Ok)
    show ?thesis
    proof (cases d)
      case AllowOnce
      then show ?thesis using Ok a opts t wp_step_lift [OF call_tool_wp [OF t(2) assms(2)] t(1,3)]
        by (simp add: keeps_trans)
    next
      case Deny_Approval
      have "\<exists>r. denied_result i ri (invocation_of call) None mx = Some r \<and> answers_call i ri mx call r" for i mx
        using denied_result_answers [of None] by blast
      then show ?thesis
        using Ok a Deny_Approval wp_step_lift [OF result_step_wp [OF t(2)] t(1,3)] by simp
    qed
  next
    case (Err p)
    then show ?thesis using 2 wp_step_lift [OF end_step_wp [OF t(2)] t(1,3)] by simp
  qed
qed (use assms(2) in \<open>simp_all add: typed_tool_def\<close>)

lemma policy_step_facts:
  assumes "out = PC_Cancelled \<longrightarrow> lc_cancel c"
  shows "case policy_step out of
      PS_Denied (Some r) \<Rightarrow> ToolDecision_validate (TD_Deny r) = Ok ()
    | PS_Cancelled \<Rightarrow> lc_cancel c | _ \<Rightarrow> True"
  using assms
  by (auto simp: policy_step_def is_ok_iff split: PortCallOutcome.splits result.splits ToolDecision.splits
      DeadlineSource.splits)

lemma decide_policy_wp:
  assumes "quiet (rn_control s)" "typed_call call"
  shows "wp (decide_policy ser policy deadline timeout call)
     (\<lambda>d t. keeps s t \<and> quiet (rn_control t) \<and> rn_working t = rn_working s \<and> rn_executed t = rn_executed s
        \<and> (case d of PS_Denied (Some r) \<Rightarrow> ToolDecision_validate (TD_Deny r) = Ok ()
           | PS_Cancelled \<Rightarrow> lc_cancel (rn_control t) | _ \<Rightarrow> True))
     (\<lambda>_. False) s"
proof (cases policy)
  case (Some p)
  show ?thesis
    unfolding decide_policy_def Some option.case wp_simps(4)
    by (rule wp_mono [OF live_port_wp [OF assms]]) (simp_all add: policy_step_facts)
qed (simp add: decide_policy_def assms)

lemma run_tool_call_wp:
  assumes "quiet (rn_control s)" "typed_tool env"
  shows "wp (run_tool_call ser enc ri (invocation_of call) policy env) (step_post ri call s)
     (\<lambda>t. keeps s t \<and> quiet (rn_control t) \<and> \<not> calm_tool (rn_options s) env) s"
proof (cases "turn_deadline (lv_now_turn (lt_policy env)) (lo_deadline (rn_options s))")
  case (Some deadline)
  have env: "typed_call (lt_policy env)" using assms(2) by (simp add: typed_tool_def)
  show ?thesis
    unfolding run_tool_call_def wp_simps(3,4,6,8) Some option.case
  proof (rule wp_mono [OF decide_policy_wp [OF assms(1) env]], goal_cases)
    case (1 decided t)
    then have t: "keeps s t" "quiet (rn_control t)" "rn_working t = rn_working s" by blast+
    have opts: "rn_options t = rn_options s" using t(1) by (simp add: keeps_def)
    have denied: "\<exists>r. denied_result i ri (invocation_of call) reason mx = Some r \<and> answers_call i ri mx call r"
      if "decided = PS_Denied reason" for reason i mx
      using denied_result_answers [of reason i ri call mx] 1 that by (cases reason) auto
    show ?case
    proof (cases decided)
      case (PS_Denied reason)
      then show ?thesis using wp_step_lift [OF result_step_wp [OF t(2) denied [OF PS_Denied]] t(1,3)] by simp
    qed (use 1 opts wp_step_lift [OF call_tool_wp [OF t(2) assms(2)] t(1,3)]
        wp_step_lift [OF seek_approval_wp [OF t(2) assms(2)] t(1,3)]
        wp_step_lift [OF end_step_wp [OF t(2)] t(1,3)] in \<open>simp_all add: end_path_def keeps_trans [OF t(1)]\<close>)
  qed simp
qed (simp add: run_tool_call_def calm_tool_def assms(1))

subsection \<open>Lemmas: the batch\<close>

definition knows_calls :: "('m, 't, 'p, 'q) ExecutionConfig \<Rightarrow> ToolCall list \<Rightarrow> bool" where
  "knows_calls config calls \<longleftrightarrow>
     list_all (\<lambda>call. EnabledTools_get (ec_tools config) (tc_name call) \<noteq> None) calls"

definition batch_post ::
  "u32 \<Rightarrow> ToolCall list \<Rightarrow> ('m, 't, 'p, 'q) runner \<Rightarrow> FailPath option \<Rightarrow> ('m, 't, 'p, 'q) runner \<Rightarrow> bool" where
  "batch_post ri calls s ended s' \<longleftrightarrow> keeps s s' \<and> quiet (rn_control s')
     \<and> (\<exists>rs. adds s s' (map HI_ToolResult rs) \<and> list_all2 (answers_call (rn_id s) ri (max_output s)) calls rs)
     \<and> (case ended of None \<Rightarrow> True | Some p \<Rightarrow> end_path (rn_control s') p)"

lemma settle_batch_wp:
  assumes "quiet (rn_control s)" "static_message m" "end_path (rn_control s) p"
  shows "wp (then_run (settle_calls ri calls outcome m) (return_run (Some p))) (batch_post ri calls s) (\<lambda>_. False) s"
  using assms by (auto simp: batch_post_def intro!: wp_mono [OF settle_calls_wp [OF assms(2)]])

lemma batch_post_head:
  assumes "batch_post ri calls t ended u" "keeps s t" "adds s t [HI_ToolResult r]"
    "answers_call (rn_id s) ri (max_output s) call r"
  shows "batch_post ri (call # calls) s ended u"
proof -
  have same: "rn_id t = rn_id s" "max_output t = max_output s"
    using assms(2) by (simp_all add: keeps_def max_output_def)
  obtain rs where "adds t u (map HI_ToolResult rs)" "list_all2 (answers_call (rn_id s) ri (max_output s)) calls rs"
    using assms(1) same by (auto simp: batch_post_def)
  with assms(3,4) have "adds s u (map HI_ToolResult (r # rs))
      \<and> list_all2 (answers_call (rn_id s) ri (max_output s)) (call # calls) (r # rs)"
    using adds_simps(2) [of s t "[HI_ToolResult r]" u "map HI_ToolResult rs"] by simp
  with assms(1,2) show ?thesis unfolding batch_post_def by (blast intro: keeps_trans)
qed

lemma batch_post_start:
  assumes "batch_post ri calls t ended u" "keeps s t" "rn_working t = rn_working s"
  shows "batch_post ri calls s ended u"
  using assms by (auto simp: batch_post_def keeps_def max_output_def adds_def)

lemma start_call_wp:
  assumes "quiet (rn_control s)" "typed_tool env" "EnabledTools_get (ec_tools config) (tc_name call) \<noteq> None"
  shows "wp (start_call ser enc ri config call env) (step_post ri call s)
      (\<lambda>t. keeps s t \<and> quiet (rn_control t) \<and> \<not> calm_tool (rn_options s) env) s"
proof (cases "lc_cancel (rn_control s)")
  case True
  then show ?thesis using assms(1) by (simp add: start_call_def step_post_def end_path_def)
next
  case False
  obtain e where e: "EnabledTools_get (ec_tools config) (tc_name call) = Some e" using assms(3) by blast
  define t where "t = s\<lparr>rn_sink := try_emit (EV_ToolStarted (rn_id s) ri (tc_id call) (tc_name call)) (rn_sink s)\<rparr>"
  have t: "keeps s t" "quiet (rn_control t)" "rn_working t = rn_working s" "rn_options t = rn_options s"
    using assms(1) by (simp_all add: t_def keeps_def)
  show ?thesis
    using False wp_step_lift [OF run_tool_call_wp [OF t(2) assms(2)] t(1,3)]
    by (simp add: start_call_def invocation_of_def e t_def [symmetric] t(4) keeps_trans [OF t(1)])
qed

lemma run_tool_batch_wp:
  assumes "quiet (rn_control s)" "list_all typed_tool envs" "knows_calls config calls"
  shows "wp (run_tool_batch ser enc ri config calls envs) (batch_post ri calls s)
     (\<lambda>t. keeps s t \<and> quiet (rn_control t) \<and> \<not> list_all (calm_tool (rn_options s)) envs) s"
  using assms
proof (induction calls envs arbitrary: s rule: list_induct2')
  case (4 call calls env envs)
  define t where "t = s\<lparr>rn_control := fold (act ser) (lt_ops env) (rn_control s)\<rparr>"
  have env: "typed_tool env" "list_all typed_op (lt_ops env)" using 4(3) by (simp_all add: typed_tool_def)
  have t: "keeps s t" "quiet (rn_control t)" "rn_working t = rn_working s" "rn_options t = rn_options s"
    using quiet.acts_stable [OF 4(2) env(2)] by (simp_all add: t_def keeps_def)
  have known: "EnabledTools_get (ec_tools config) (tc_name call) \<noteq> None" "knows_calls config calls"
    using 4(4) by (simp_all add: knows_calls_def)
  show ?case
    unfolding run_tool_batch.simps wp_simps(5) wp_control_steps(6) t_def [symmetric]
  proof (rule wp_bindI [OF start_call_wp [OF t(2) env(1) known(1)]], goal_cases)
    case (1 stepped u)
    then have u: "keeps s u" "quiet (rn_control u)" "rn_working u = rn_working s"
      using t by (auto simp: step_post_def intro: keeps_trans)
    have opts: "rn_options u = rn_options s" "rn_id u = rn_id s" "max_output u = max_output s"
      "rn_id t = rn_id s" "max_output t = max_output s"
      using u(1) t(1) by (simp_all add: keeps_def max_output_def)
    show ?case
    proof (cases stepped)
      case (TStep_Result r)
      define v where "v = u\<lparr>rn_sink := try_emit (EV_ToolFinished (rn_id u) ri (tc_id call) (th_outcome r)
          (str_len (as_str (out_content (th_output r))))) (rn_sink u), rn_working := append_tool_result r (rn_working u)\<rparr>"
      have v: "keeps s v" "quiet (rn_control v)" "adds s v [HI_ToolResult r]" "rn_options v = rn_options s"
        using u opts by (simp_all add: v_def keeps_def adds_def append_tool_result_def)
      have r: "answers_call (rn_id s) ri (max_output s) call r"
        using 1 TStep_Result opts by (simp add: step_post_def)
      have "wp (run_tool_batch ser enc ri config calls envs) (batch_post ri calls v)
          (\<lambda>w. keeps v w \<and> quiet (rn_control w) \<and> \<not> list_all (calm_tool (rn_options v)) envs) v"
        using 4(1) [OF v(2) _ known(2)] 4(3) by simp
      then have "wp (run_tool_batch ser enc ri config calls envs) (batch_post ri (call # calls) s)
          (\<lambda>w. keeps s w \<and> quiet (rn_control w) \<and> \<not> list_all (calm_tool (rn_options s)) (env # envs)) v"
        using batch_post_head [OF _ v(1,3) r] by (rule wp_mono) (auto simp: v(4) intro: keeps_trans [OF v(1)])
      then show ?thesis by (simp add: TStep_Result append_result_def v_def)
    next
      case (TStep_End p)
      then have "end_path (rn_control u) p" using 1 by (simp add: step_post_def)
      from settle_batch_wp [OF u(2) static_messages(4) this]
      show ?thesis
        unfolding TStep_End ToolStep.case by (rule wp_mono) (auto intro: batch_post_start [OF _ u(1,3)])
    qed
  qed (use t in \<open>auto intro: keeps_trans\<close>)
qed (simp_all add: batch_post_def)

subsection \<open>Lemmas: permission and cancellation\<close>

lemmas run_defs = return_run_def bind_run_def then_run_def with_state_def modify_run_def gets_run_def
  lift_run_def expect_run_def emit_def publish_def on_control_def on_control_get_def interfere_def record_dropped_run_def

lemma settle_calls_returns:
  assumes "static_message m"
  shows "\<exists>s'. settle_calls ri calls outcome m s = (Done (), s') \<and> rn_executed s' = rn_executed s"
proof (induction calls arbitrary: s)
  case (Cons call calls)
  obtain r where "terminal_tool_result (rn_id s) ri (tc_id call) (tc_name call) outcome m (max_output s) = Some r"
    using terminal_result_answers [OF assms] by blast
  then show ?case
    using Cons.IH [of "s\<lparr>rn_working := append_tool_result r (rn_working s)\<rparr>"]
    by (simp add: run_defs append_result_def)
qed (simp add: run_defs)

lemma cancelled_batch:
  assumes "lc_cancel (fold (act ser) (lt_ops env) (rn_control s))"
  shows "\<exists>s' rs. run_tool_batch ser enc ri config (call # calls) (env # envs) s = (Done (Some FP_Cancelled), s')
     \<and> rn_executed s' = rn_executed s \<and> adds s s' (map HI_ToolResult rs)
     \<and> (\<forall>r \<in> set rs. th_outcome r = TR_Cancelled)
     \<and> list_all2 (answers_call (rn_id s) ri (max_output s)) (call # calls) rs"
proof -
  define t where "t = s\<lparr>rn_control := fold (act ser) (lt_ops env) (rn_control s)\<rparr>"
  have start: "start_call ser enc ri config call env t = (Done (TStep_End FP_Cancelled), t)"
    using assms by (simp add: start_call_def run_defs t_def)
  obtain s' where s': "settle_calls ri (call # calls) TR_Cancelled (lit ''tool batch interrupted'') t = (Done (), s')"
    "rn_executed s' = rn_executed t"
    using settle_calls_returns static_messages(4) by blast
  obtain rs where rs: "adds t s' (map HI_ToolResult rs)" "\<forall>r \<in> set rs. th_outcome r = TR_Cancelled"
    "list_all2 (answers_call (rn_id t) ri (max_output t)) (call # calls) rs"
    using wp_Done [OF settle_calls_wp [OF static_messages(4)] s'(1)] by blast
  have "run_tool_batch ser enc ri config (call # calls) (env # envs) s = (Done (Some FP_Cancelled), s')"
    using start s'(1) by (simp add: run_defs t_def del: settle_calls.simps)
  then show ?thesis using rs s'(2) by (auto simp: adds_def t_def max_output_def)
qed

lemma ask_executed:
  "ask ser invocation kind w s = (r, s') \<Longrightarrow> rn_executed s' = rn_executed s"
  by (auto simp: ask_def wait_interaction_def run_defs Let_def split: option.splits result.splits prod.splits async.splits)

lemma live_port_executed: "live_port ser d t call s = (r, s') \<Longrightarrow> rn_executed s' = rn_executed s"
  by (auto simp: live_port_def run_defs Let_def split: option.splits)

lemma result_step_executed: "result_step f s = (r, s') \<Longrightarrow> rn_executed s' = rn_executed s"
  by (auto simp: result_step_def run_defs split: option.splits)

lemma seek_approval_executed:
  assumes "seek_approval ser enc ri invocation request env s = (r, s')" "rn_executed s' \<noteq> rn_executed s"
  shows "\<exists>t. ask ser invocation (IK_Approval request) (lt_approval env) s = (Done (Ok (IA_Approval AllowOnce)), t)"
proof -
  obtain a t where a: "ask ser invocation (IK_Approval request) (lt_approval env) s = (a, t)" by fastforce
  show ?thesis
    using assms a ask_executed [OF a] result_step_executed
    by (auto simp: seek_approval_def bind_run_def return_run_def split: async.splits result.splits
        InteractionAnswer.splits ApprovalDecision.splits dest!: result_step_executed)
qed

lemma policy_step_cases:
  "policy_step out = PS_Allow \<Longrightarrow> out = Returned (Ok TD_Allow)"
  "policy_step out = PS_RequireApproval request \<Longrightarrow>
     out = Returned (Ok (TD_RequireApproval request)) \<and> ToolDecision_validate (TD_RequireApproval request) = Ok ()"
  by (auto simp: policy_step_def is_ok_iff split: PortCallOutcome.splits result.splits ToolDecision.splits
      DeadlineSource.splits if_splits)

subsection \<open>A batch that runs\<close>

definition sample_runner :: "bool \<Rightarrow> (unit, unit, unit, unit) runner" where
  "sample_runner cancelled =
     \<lparr>rn_id = LoopId [], rn_options = \<lparr>lo_deadline = None, lo_max_tool_rounds = 0, lo_event_capacity = 1,
         lo_prompt_timeout = SECOND, lo_model_timeout = SECOND, lo_policy_timeout = SECOND,
         lo_tool_timeout = SECOND, lo_model_retry_attempts = 1, lo_model_retry_base_delay = 1,
         lo_limits = LoopLimits_default\<rparr>,
      rn_control = \<lparr>lc_id = LoopId [], lc_cancel = cancelled, lc_limits = LoopLimits_default,
         lc_state_tx = LoopState_new (LoopId []) LS_Starting 0 ConfigRevision_INITIAL, lc_completion = None,
         lc_state = (if cancelled then STATE_CANCEL_USER else STATE_NONE),
         lc_inner = \<lparr>cs_interaction = None, cs_accepting_updates = True, cs_current_revision = ConfigRevision_INITIAL,
           cs_next_revision = ConfigRevision_next ConfigRevision_INITIAL, cs_pending_config = None\<rparr>,
         lc_replies = []\<rparr>,
      rn_sink = (case LoopEventSink_channel [] 1 of Ok sink \<Rightarrow> sink),
      rn_working = WorkingHistory_new [], rn_executed = []\<rparr>"

definition sample_call :: "rstr \<Rightarrow> ToolCall" where
  "sample_call ident = \<lparr>tc_id = ToolCallId ident, tc_name = ToolName (lit ''t''), tc_arguments = JObject [], tc_index = 0\<rparr>"

definition sample_tools :: "unit option \<Rightarrow> (unit, unit, unit, unit) ExecutionConfig" where
  "sample_tools policy = sample_config\<lparr>ec_policy := policy, ec_tools :=
     (let spec = \<lparr>spec_name = ToolName (lit ''t''), spec_description = BoundedText [], spec_input_schema = JObject []\<rparr> in
      \<lparr>ts_specs = [spec], ts_entries = [(ToolName (lit ''t''), \<lparr>en_implementation = (), en_spec = spec\<rparr>)]\<rparr>)\<rparr>"

definition one_poll :: "'a \<Rightarrow> ((unit, unit, unit, unit) others, 'a) live_call" where
  "one_poll a = \<lparr>lv_ops = [], lv_now_turn = 0, lv_now_deadline = 0, lv_now_check = 0, lv_construct_panics = False,
     lv_polls = [\<lparr>lp_ops = [], lp_elapsed = False, lp_ready = Some (Completed a)\<rparr>]\<rparr>"

definition sample_tool :: "(unit, unit, unit, unit) others list \<Rightarrow> ToolDecision \<Rightarrow> (unit, unit, unit, unit) others live_tool" where
  "sample_tool ops decision =
     \<lparr>lt_ops = ops, lt_policy = one_poll (Ok decision),
      lt_approval = \<lparr>lw_random = [Some (replicate 16 0)], lw_polls = []\<rparr>,
      lt_tool = one_poll (Ok (TX_Completed (ToolOutput (BoundedText (lit ''ok''))))),
      lt_progress = [], lt_dropped = 0, lt_drained = [],
      lt_input = \<lparr>lw_random = [Some (replicate 16 0)], lw_polls = []\<rparr>\<rparr>"

lemmas sample_defs = sample_runner_def sample_call_def sample_tools_def sample_config_def one_poll_def sample_tool_def

lemma sample_typed:
  "quiet (rn_control (sample_runner b))" "list_all typed_op ops \<Longrightarrow> typed_tool (sample_tool ops d)"
  "knows_calls (sample_tools p) [sample_call i, sample_call j]"
  using cancel_target_range(3) [of CS_User] exI [of "\<lambda>x. STATE_CANCEL_USER = cancel_target x" CS_User]
  by (simp_all add: sample_defs quiet_def live_def typed_tool_def typed_call_def typed_wait_def knows_calls_def
      EnabledTools_get_def btree_get_def Let_def cancel_target_def)

lemma sample_port:
  assumes "\<not> lc_cancel (rn_control s)"
  shows "live_port ser LOOP_HORIZON SECOND (one_poll a) s
     = (Done \<lparr>pr_outcome = Returned a, pr_steps = [Child_Created, Closure_Called SECOND, Child_Cancelled, Future_Dropped]\<rparr>, s)"
  using assms
  by (simp add: live_port_def one_poll_def run_defs run_port_call_def effective_deadline_from_def LOOP_HORIZON_def
      instant_checked_add_def INSTANT_LIMIT_def)

lemma sample_options:
  "lo_policy_timeout (rn_options (sample_runner b)) = SECOND" "lt_policy (sample_tool ops d) = one_poll (Ok d)"
  by (simp_all add: sample_runner_def sample_tool_def)

lemma sample_deadline: "turn_deadline (lv_now_turn (one_poll a)) None = Some LOOP_HORIZON"
  by (simp add: turn_deadline_def one_poll_def instant_checked_add_def LOOP_HORIZON_def INSTANT_LIMIT_def)

lemma sample_tool_run:
  assumes "\<not> lc_cancel (rn_control s)" "rn_options s = rn_options (sample_runner b)"
  shows "call_tool ser enc ri (invocation_of call) (sample_tool ops d) s
     = (Done (TStep_Result \<lparr>th_loop_id = rn_id s, th_request_index = ri, th_call_id = tc_id call,
           th_tool_name = tc_name call, th_outcome = TR_Success, th_output = ToolOutput (BoundedText (lit ''ok''))\<rparr>),
        s\<lparr>rn_executed := rn_executed s @ [tc_id call], rn_sink := record_dropped 0 (rn_sink s)\<rparr>)"
  using assms
  by (simp add: call_tool_def run_tool_port_def run_defs sample_deadline sample_tool_def sample_runner_def sample_port
      tool_port_def result_step_def completed_result_def max_output_def invocation_of_def LoopLimits_default_def
      utf8_len_def utf8_char_def lit_def MAX_TEXT_BYTES_def)

lemma sample_call_run:
  assumes "\<not> lc_cancel (rn_control s)" "rn_options s = rn_options (sample_runner b)"
  shows "\<exists>s'. run_tool_call ser enc ri (invocation_of call) policy (sample_tool ops TD_Allow) s
     = (Done (TStep_Result \<lparr>th_loop_id = rn_id s, th_request_index = ri, th_call_id = tc_id call,
           th_tool_name = tc_name call, th_outcome = TR_Success, th_output = ToolOutput (BoundedText (lit ''ok''))\<rparr>), s')
     \<and> rn_control s' = rn_control s \<and> rn_executed s' = rn_executed s @ [tc_id call]"
proof -
  have opts: "lo_deadline (rn_options s) = None" "lo_policy_timeout (rn_options s) = SECOND"
    using assms(2) by (simp_all add: sample_runner_def)
  have env: "lt_policy (sample_tool ops TD_Allow) = one_poll (Ok TD_Allow)" by (simp add: sample_tool_def)
  show ?thesis
    by (cases policy) (simp_all add: run_tool_call_def run_defs opts env sample_deadline decide_policy_def
        sample_port [OF assms(1)] sample_tool_run [OF assms] policy_step_def ToolDecision_validate_def)
qed

lemma sample_batch_run:
  "\<exists>s'. run_tool_batch ser enc 0 (sample_tools None) [sample_call [65], sample_call [66]]
       [sample_tool [] TD_Allow, sample_tool [X_Cancel CS_User, X_Token] TD_Allow] (sample_runner False)
       = (Done (Some FP_Cancelled), s') \<and> rn_executed s' = [ToolCallId [65]]"
proof -
  have fresh: "\<not> lc_cancel (rn_control (sample_runner False))" "lc_state (rn_control (sample_runner False)) = STATE_NONE"
    "rn_executed (sample_runner False) = []"
    by (simp_all add: sample_runner_def)
  obtain e where e: "EnabledTools_get (ec_tools (sample_tools None)) (ToolName (lit ''t'')) = Some e"
    by (simp add: sample_tools_def Let_def EnabledTools_get_def btree_get_def)
  have sample: "tc_id (sample_call i) = ToolCallId i" "tc_name (sample_call i) = ToolName (lit ''t'')"
    "lt_ops (sample_tool ops d) = ops" "ec_policy (sample_tools p) = p" for i ops d p
    by (simp_all add: sample_call_def sample_tool_def sample_tools_def)
  define s1 where "s1 = (sample_runner False)\<lparr>rn_sink := try_emit (EV_ToolStarted (rn_id (sample_runner False)) 0
      (ToolCallId [65]) (ToolName (lit ''t''))) (rn_sink (sample_runner False))\<rparr>"
  obtain s2 r where s2: "run_tool_call ser enc 0 (invocation_of (sample_call [65])) None (sample_tool [] TD_Allow) s1
      = (Done (TStep_Result r), s2)" "rn_control s2 = rn_control (sample_runner False)" "rn_executed s2 = [ToolCallId [65]]"
    using sample_call_run [of s1 False ser enc 0 "sample_call [65]" None "[]"] fresh by (auto simp: s1_def sample)
  have one: "start_call ser enc 0 (sample_tools None) (sample_call [65]) (sample_tool [] TD_Allow) (sample_runner False)
      = (Done (TStep_Result r), s2)"
    using s2(1) fresh by (simp add: start_call_def run_defs e sample invocation_of_def s1_def)
  define s3 where "s3 = s2\<lparr>rn_sink := try_emit (EV_ToolFinished (rn_id s2) 0 (ToolCallId [65]) (th_outcome r)
      (str_len (as_str (out_content (th_output r))))) (rn_sink s2), rn_working := append_tool_result r (rn_working s2)\<rparr>"
  have cancel: "lc_cancel (fold (act ser) (lt_ops (sample_tool [X_Cancel CS_User, X_Token] TD_Allow)) (rn_control s3))"
    using s2(2) fresh by (simp add: sample s3_def mark_cancel_exchange_def compare_exchange_def cancel_token_def
        is_active_def cancel_target_range)
  obtain s4 where "run_tool_batch ser enc 0 (sample_tools None) [sample_call [66]]
      [sample_tool [X_Cancel CS_User, X_Token] TD_Allow] s3 = (Done (Some FP_Cancelled), s4)" "rn_executed s4 = rn_executed s3"
    using cancelled_batch [OF cancel] by blast
  moreover have "run_tool_batch ser enc 0 (sample_tools None) [sample_call [65], sample_call [66]]
       [sample_tool [] TD_Allow, sample_tool [X_Cancel CS_User, X_Token] TD_Allow] (sample_runner False)
     = run_tool_batch ser enc 0 (sample_tools None) [sample_call [66]]
      [sample_tool [X_Cancel CS_User, X_Token] TD_Allow] s3"
    by (subst run_tool_batch.simps(3))
      (simp add: run_defs one append_result_def sample s3_def del: run_tool_batch.simps)
  ultimately show ?thesis using s2(3) by (simp add: s3_def)
qed

subsection \<open>Properties\<close>

text \<open>
  C8: a batch of tool calls answers every call of the response exactly once, in order, on every
  path: policy denials, panics of the tool, oversized output, deadlines and cancellation
  included.  The answers carry the call's id and name and stay within the output limit; nothing
  else is appended.  A batch ends the loop as cancelled only when the token is cancelled, and
  never because an interaction was lost.
\<close>
theorem tool_batch_answers_every_call:
  assumes "quiet (rn_control s)" "list_all typed_tool envs" "knows_calls config calls"
    and "run_tool_batch ser enc ri config calls envs s = (Done ended, s')"
  shows "\<exists>rs. wh_appended (rn_working s') = wh_appended (rn_working s) @ map HI_ToolResult rs
       \<and> map th_call_id rs = map tc_id calls \<and> map th_tool_name rs = map tc_name calls
       \<and> (\<forall>r \<in> set rs. th_loop_id r = rn_id s \<and> th_request_index r = ri
            \<and> str_len (as_str (out_content (th_output r))) \<le> max_tool_output_bytes (lo_limits (rn_options s)))
       \<and> (ended = Some FP_Cancelled \<longrightarrow> lc_cancel (rn_control s'))
       \<and> ended \<noteq> Some FP_Interaction"
proof -
  have post: "batch_post ri calls s ended s'"
    by (rule wp_Done [OF run_tool_batch_wp [OF assms(1-3)] assms(4)])
  then obtain rs where rs: "wh_appended (rn_working s') = wh_appended (rn_working s) @ map HI_ToolResult rs"
    "list_all2 (answers_call (rn_id s) ri (max_output s)) calls rs"
    by (auto simp: batch_post_def adds_def)
  have "map th_call_id rs = map tc_id calls \<and> map th_tool_name rs = map tc_name calls
      \<and> (\<forall>r \<in> set rs. th_loop_id r = rn_id s \<and> th_request_index r = ri
            \<and> str_len (as_str (out_content (th_output r))) \<le> max_output s)"
    using rs(2) by (induction rule: list_all2_induct) (auto simp: answers_call_def)
  with rs(1) post show ?thesis
    by (intro exI [of _ rs]) (auto simp: max_output_def batch_post_def end_path_def)
qed

theorem tool_batch_answers_every_call_witness:
  "\<exists>s'. run_tool_batch (\<lambda>_. ([], True)) (\<lambda>_. []) 0 (sample_tools None) [sample_call [65], sample_call [66]]
       [sample_tool [] TD_Allow, sample_tool [X_Cancel CS_User, X_Token] TD_Allow] (sample_runner False)
       = (Done (Some FP_Cancelled), s')
     \<and> rn_executed s' = [ToolCallId [65]]
     \<and> (\<exists>rs. wh_appended (rn_working s') = map HI_ToolResult rs \<and> map th_call_id rs = [ToolCallId [65], ToolCallId [66]])"
proof -
  let ?envs = "[sample_tool [] TD_Allow, sample_tool [X_Cancel CS_User, X_Token] TD_Allow]"
  obtain s' where run: "run_tool_batch (\<lambda>_. ([], True)) (\<lambda>_. []) 0 (sample_tools None) [sample_call [65], sample_call [66]]
       ?envs (sample_runner False) = (Done (Some FP_Cancelled), s')" "rn_executed s' = [ToolCallId [65]]"
    using sample_batch_run by blast
  have "list_all typed_tool ?envs" by (simp add: sample_typed typed_op_def)
  from tool_batch_answers_every_call [OF sample_typed(1) this sample_typed(3) run(1)] run
  show ?thesis by (auto simp: sample_defs WorkingHistory_new_def)
qed

text \<open>
  C5: a tool is invoked only with permission: there is no policy, or the policy returned a valid
  decision to allow the call, or it asked for approval and the answer to that very request was
  to allow it once.  Policy errors, panics, timeouts and invalid decisions never run the tool.
\<close>
theorem tool_runs_only_if_permitted:
  assumes "run_tool_call ser enc ri invocation policy env s = (r, s')"
    and "rn_executed s' \<noteq> rn_executed s"
  shows "policy = None \<or> (\<exists>d run t.
     live_port ser d (lo_policy_timeout (rn_options s)) (lt_policy env) s = (Done run, t)
     \<and> (pr_outcome run = Returned (Ok TD_Allow)
        \<or> (\<exists>request u. pr_outcome run = Returned (Ok (TD_RequireApproval request))
              \<and> ToolDecision_validate (TD_RequireApproval request) = Ok ()
              \<and> ask ser invocation (IK_Approval request) (lt_approval env) t
                  = (Done (Ok (IA_Approval AllowOnce)), u))))"
proof (cases policy)
  case (Some p)
  obtain d where d: "turn_deadline (lv_now_turn (lt_policy env)) (lo_deadline (rn_options s)) = Some d"
    using assms by (auto simp: run_tool_call_def run_defs split: option.splits)
  obtain res t where port: "live_port ser d (lo_policy_timeout (rn_options s)) (lt_policy env) s = (res, t)" by fastforce
  obtain run where run: "res = Done run"
    using assms port live_port_executed [OF port]
    by (auto simp: run_tool_call_def run_defs d Some decide_policy_def split: async.splits)
  have same: "rn_executed t = rn_executed s" by (rule live_port_executed [OF port])
  have "policy_step (pr_outcome run) = PS_Allow
      \<or> (\<exists>request. policy_step (pr_outcome run) = PS_RequireApproval request
            \<and> seek_approval ser enc ri invocation request env t = (r, s'))"
    using assms port run same
    by (cases "policy_step (pr_outcome run)")
      (auto simp: run_tool_call_def run_defs d Some decide_policy_def dest!: result_step_executed)
  then have "pr_outcome run = Returned (Ok TD_Allow)
        \<or> (\<exists>request u. pr_outcome run = Returned (Ok (TD_RequireApproval request))
              \<and> ToolDecision_validate (TD_RequireApproval request) = Ok ()
              \<and> ask ser invocation (IK_Approval request) (lt_approval env) t
                  = (Done (Ok (IA_Approval AllowOnce)), u))"
    using seek_approval_executed [of ser enc ri invocation _ env t r s'] assms(2) same
    by (auto dest!: policy_step_cases)
  with port run show ?thesis by blast
qed simp

theorem tool_runs_only_if_permitted_witness:
  "\<exists>r s' d t (run :: (ToolDecision, ToolPolicyError) port_run). run_tool_call (\<lambda>_. ([], True)) (\<lambda>_. []) 0 (invocation_of (sample_call [65])) (Some ())
       (sample_tool [] TD_Allow) (sample_runner False) = (r, s')
     \<and> rn_executed s' = [ToolCallId [65]]
     \<and> live_port (\<lambda>_. ([], True)) d SECOND (one_poll (Ok TD_Allow)) (sample_runner False) = (Done run, t)
     \<and> pr_outcome run = Returned (Ok TD_Allow)"
proof -
  obtain r s' where run: "run_tool_call (\<lambda>_. ([], True)) (\<lambda>_. []) 0 (invocation_of (sample_call [65])) (Some ())
       (sample_tool [] TD_Allow) (sample_runner False) = (r, s')" "rn_executed s' = [ToolCallId [65]]"
    using sample_call_run [of "sample_runner False" False "\<lambda>_. ([], True)" "\<lambda>_. []" 0 "sample_call [65]" "Some ()" "[]"]
    by (auto simp: sample_runner_def sample_call_def)
  then have "rn_executed s' \<noteq> rn_executed (sample_runner False)" by (simp add: sample_runner_def)
  from tool_runs_only_if_permitted [OF run(1) this] obtain d t and p :: "(ToolDecision, ToolPolicyError) port_run" where
    port: "live_port (\<lambda>_. ([], True)) d SECOND (one_poll (Ok TD_Allow)) (sample_runner False) = (Done p, t)"
    "pr_outcome p = Returned (Ok TD_Allow)
      \<or> (\<exists>request. pr_outcome p = Returned (Ok (TD_RequireApproval request)))"
    unfolding sample_options by blast
  moreover have "pr_outcome p = Returned (Ok TD_Allow)"
    using port by (auto simp: live_port_def one_poll_def run_defs run_port_call_def Let_def
        split: option.splits if_splits result.splits)
  ultimately show ?thesis using run by blast
qed

text \<open>
  C25: once the token is cancelled, a batch ends at the next call: it returns, invokes no further
  tool, and answers every remaining call as cancelled.
\<close>
theorem cancelled_batch_ends:
  assumes "lc_cancel (rn_control s)" "calls \<noteq> []"
  shows "\<exists>s' rs. run_tool_batch ser enc ri config calls (env # envs) s = (Done (Some FP_Cancelled), s')
     \<and> rn_executed s' = rn_executed s
     \<and> wh_appended (rn_working s') = wh_appended (rn_working s) @ map HI_ToolResult rs
     \<and> map th_call_id rs = map tc_id calls \<and> (\<forall>r \<in> set rs. th_outcome r = TR_Cancelled)"
proof -
  obtain call rest where calls: "calls = call # rest" using assms(2) by (cases calls) auto
  have "lc_cancel (fold (act ser) (lt_ops env) (rn_control s))"
    using cancelled.acts_stable [OF assms(1)] by simp
  from cancelled_batch [OF this] obtain s' rs where
    run: "run_tool_batch ser enc ri config calls (env # envs) s = (Done (Some FP_Cancelled), s')"
      "rn_executed s' = rn_executed s" "adds s s' (map HI_ToolResult rs)" "\<forall>r \<in> set rs. th_outcome r = TR_Cancelled"
    and rs: "list_all2 (answers_call (rn_id s) ri (max_output s)) calls rs"
    unfolding calls by blast
  have "map th_call_id rs = map tc_id calls"
    using rs by (induction rule: list_all2_induct) (auto simp: answers_call_def)
  with run show ?thesis by (auto simp: adds_def)
qed

theorem cancelled_batch_ends_witness:
  "\<exists>s'. run_tool_batch (\<lambda>_. ([], True)) (\<lambda>_. []) 0 (sample_tools None) [sample_call [65]]
       [sample_tool [] TD_Allow] (sample_runner True) = (Done (Some FP_Cancelled), s') \<and> rn_executed s' = []"
proof -
  have "lc_cancel (rn_control (sample_runner True))" by (simp add: sample_runner_def)
  from cancelled_batch_ends [OF this, of "[sample_call [65]]" "\<lambda>_. ([], True)" "\<lambda>_. []" 0
      "sample_tools None" "sample_tool [] TD_Allow" "[]"]
  obtain s' where "run_tool_batch (\<lambda>_. ([], True)) (\<lambda>_. []) 0 (sample_tools None) [sample_call [65]]
       [sample_tool [] TD_Allow] (sample_runner True) = (Done (Some FP_Cancelled), s')"
    "rn_executed s' = rn_executed (sample_runner True)"
    by auto
  then show ?thesis by (simp add: sample_runner_def)
qed

text \<open>
  A pending interaction and the acts \<open>seen\<close> since it was set: its reply is empty and no acceptable
  answer has come, or its reply is an acceptable answer that was given to its id.
\<close>

definition answer_from :: "InteractionSlot \<Rightarrow> ('m, 't, 'p, 'q) others list \<Rightarrow> ('m, 't, 'p, 'q) control \<Rightarrow> bool" where
  "answer_from slot seen c \<longleftrightarrow> slot_reply slot < length (lc_replies c)
     \<and> (case lc_replies c ! slot_reply slot of
          Oneshot_Empty \<Rightarrow> cs_interaction (lc_inner c) = Some slot
            \<and> (cs_accepting_updates (lc_inner c) \<and> is_active c \<longrightarrow>
                (\<forall>a. X_Answer (slot_id slot) a \<in> set seen \<longrightarrow> InteractionAnswer_validate a (slot_expected slot) \<noteq> Ok ()))
        | Oneshot_Sent a \<Rightarrow> cs_interaction (lc_inner c) = None
            \<and> X_Answer (slot_id slot) a \<in> set seen \<and> InteractionAnswer_validate a (slot_expected slot) = Ok ()
        | Oneshot_Closed \<Rightarrow> False)"

lemma act_answer_from: "answer_from slot seen c \<Longrightarrow> answer_from slot (seen @ [x]) (act ser x c)"
  by (cases x) (auto simp: answer_from_def act_defs states_distinct split: oneshot.splits option.splits result.splits if_splits)

lemma acts_answer_from: "answer_from slot seen c \<Longrightarrow> answer_from slot (seen @ xs) (fold (act ser) xs c)"
proof (induction xs arbitrary: seen c)
  case (Cons x xs)
  from Cons.IH [OF act_answer_from [OF Cons.prems]] show ?case by simp
qed simp

text \<open>Why a wait ends, or has not ended.\<close>

lemma select_answer_causes:
  "answer_from slot seen c \<Longrightarrow> lc_replies c ! slot_reply slot = Oneshot_Empty \<Longrightarrow>
     select_answer (act ser) deadline (slot_reply slot) ps c = (r, c') \<Longrightarrow>
     (case r of
        Done (Ok a) \<Rightarrow> InteractionAnswer_validate a (slot_expected slot) = Ok ()
          \<and> X_Answer (slot_id slot) a \<in> set seen \<union> set (concat (map fst ps))
      | Done (Err path) \<Rightarrow> path = FP_Cancelled \<and> lc_cancel c' \<or> path = FP_Deadline \<and> deadline \<noteq> None \<and> (\<exists>p \<in> set ps. snd p)
      | Pending \<Rightarrow> (deadline \<noteq> None \<longrightarrow> (\<forall>p \<in> set ps. \<not> snd p))
          \<and> (cs_accepting_updates (lc_inner c') \<and> is_active c' \<longrightarrow>
              (\<forall>a. X_Answer (slot_id slot) a \<in> set seen \<union> set (concat (map fst ps)) \<longrightarrow>
                 InteractionAnswer_validate a (slot_expected slot) \<noteq> Ok ()))
      | Aborted \<Rightarrow> False)"
proof (induction ps arbitrary: seen c)
  case Nil
  then show ?case by (auto simp: answer_from_def)
next
  case (Cons p ps)
  define d where "d = fold (act ser) (fst p) c"
  have d: "answer_from slot (seen @ fst p) d" using acts_answer_from [OF Cons.prems(1)] by (simp add: d_def)
  show ?case
  proof (cases "lc_cancel d \<or> deadline \<noteq> None \<and> snd p \<or> lc_replies d ! slot_reply slot \<noteq> Oneshot_Empty")
    case True
    with Cons.prems(3) d show ?thesis
      by (auto simp: d_def [symmetric] Let_def answer_from_def split: if_splits oneshot.splits)
  next
    case False
    then have "select_answer (act ser) deadline (slot_reply slot) ps d = (r, c')"
      using Cons.prems(3) by (auto simp: d_def [symmetric] Let_def split: if_splits)
    from Cons.IH [OF d _ this] False show ?thesis by (auto split: async.splits result.splits)
  qed
qed

lemma ask_run:
  assumes "quiet (rn_control s)" "InteractionId_new (lw_random w) = Some (Ok i)" "ask ser invocation kind w s = (r, s')"
  obtains slot c c' where "slot_id slot = i" "slot_expected slot = kind" "answer_from slot [] c"
    "lc_replies c ! slot_reply slot = Oneshot_Empty"
    "select_answer (act ser) (lo_deadline (rn_options s)) (slot_reply slot) (lw_polls w) c = (r, c')"
    "lc_cancel (rn_control s') = lc_cancel c'" "r = Pending \<Longrightarrow> rn_control s' = c'"
proof -
  define reply where "reply = length (lc_replies (rn_control s))"
  define slot where "slot = \<lparr>slot_id = i, slot_expected = kind, slot_reply = reply\<rparr>"
  define c1 where "c1 = fst (oneshot_channel (rn_control s))"
  define c2 where "c2 = c1\<lparr>lc_inner := (lc_inner c1)\<lparr>cs_interaction := Some slot\<rparr>\<rparr>"
  have chan: "oneshot_channel (rn_control s) = (c1, reply)" by (simp add: c1_def reply_def oneshot_channel_def)
  have set: "set_interaction slot c1 = (c2, Ok ())"
    using assms(1) by (simp add: set_interaction_def c2_def c1_def oneshot_channel_def quiet_def)
  define cp where "cp = publish_state ((current_state c2)\<lparr>lst_status := LS_WaitingForInput,
      lst_pending_interaction := Some \<lparr>pi_interaction_id = i, pi_tool_call_id = inv_tool_call_id invocation,
         pi_tool_name = inv_tool_name invocation, pi_kind = kind\<rparr>\<rparr>) c2"
  have cp: "lc_replies cp ! reply = Oneshot_Empty" "answer_from slot [] cp"
    by (simp_all add: cp_def c2_def c1_def oneshot_channel_def publish_state_def slot_def reply_def answer_from_def)
  obtain r' c' where sel: "select_answer (act ser) (lo_deadline (rn_options s)) reply (lw_polls w) cp = (r', c')" by fastforce
  have cancel: "lc_cancel (take_interaction c') = lc_cancel c'"
    by (simp add: take_interaction_def drop_sender_def split: option.split)
  have "r' = r \<and> lc_cancel (rn_control s') = lc_cancel c' \<and> (r = Pending \<longrightarrow> rn_control s' = c')"
    using assms(3) sel cancel
    by (cases r'; cases "case r' of Done x \<Rightarrow> x | _ \<Rightarrow> Err FP_Internal")
      (auto simp: ask_def assms(2) wait_interaction_def Let_def run_defs chan set [unfolded slot_def] publish_state_def
        cp_def [unfolded publish_state_def, symmetric])
  with that [of slot cp c'] sel cp show thesis by (simp add: slot_def)
qed

definition wait_acts :: "'x live_wait \<Rightarrow> 'x list" where
  "wait_acts w = concat (map fst (lw_polls w))"

text \<open>
  C24: how an interaction ends, and that each end has its cause.  The runner gets an answer only if
  another thread gave it to the id that was drawn, and it is valid for what was asked; it gives up only
  because the loop was cancelled, because its deadline (if it has one) came, or because no id could be
  drawn.  It keeps waiting only while no deadline has come and, in a loop that still takes answers,
  no acceptable answer was given.  When it ends the pending slot is empty again, and neither the
  history nor the revision is touched.
\<close>
theorem interaction_resolves:
  assumes "quiet (rn_control s)" "typed_wait w" "ask ser invocation kind w s = (r, s')"
  shows "(case r of
       Done (Ok a) \<Rightarrow> InteractionAnswer_validate a kind = Ok ()
         \<and> (\<exists>i. InteractionId_new (lw_random w) = Some (Ok i) \<and> X_Answer i a \<in> set (wait_acts w))
     | Done (Err path) \<Rightarrow> path = FP_Cancelled \<and> lc_cancel (rn_control s')
         \<or> path = FP_Deadline \<and> lo_deadline (rn_options s) \<noteq> None \<and> (\<exists>p \<in> set (lw_polls w). snd p)
         \<or> path = FP_Internal \<and> (\<exists>e. InteractionId_new (lw_random w) = Some (Err e))
     | Pending \<Rightarrow> InteractionId_new (lw_random w) = None
         \<or> (lo_deadline (rn_options s) \<noteq> None \<longrightarrow> (\<forall>p \<in> set (lw_polls w). \<not> snd p))
           \<and> (cs_accepting_updates (lc_inner (rn_control s')) \<and> is_active (rn_control s') \<longrightarrow>
               (\<exists>i. InteractionId_new (lw_random w) = Some (Ok i)
                  \<and> (\<forall>a. X_Answer i a \<in> set (wait_acts w) \<longrightarrow> InteractionAnswer_validate a kind \<noteq> Ok ())))
     | Aborted \<Rightarrow> False)
     \<and> (r \<noteq> Pending \<longrightarrow> cs_interaction (lc_inner (rn_control s')) = None \<and> rn_working s' = rn_working s
          \<and> applied_revision (rn_control s') = applied_revision (rn_control s))"
proof -
  note ask = ask_wp [OF assms(1,2), of ser invocation kind]
  have clean: "r \<noteq> Pending \<longrightarrow> cs_interaction (lc_inner (rn_control s')) = None \<and> rn_working s' = rn_working s
      \<and> applied_revision (rn_control s') = applied_revision (rn_control s)"
    using wp_Done [OF ask] wp_Aborted [OF ask] assms(3)
    by (cases r) (auto simp: quiet_def keeps_def core_def applied_revision_def)
  show ?thesis
  proof (cases "\<exists>i. InteractionId_new (lw_random w) = Some (Ok i)")
    case True
    then obtain i where i: "InteractionId_new (lw_random w) = Some (Ok i)" by blast
    obtain slot c c' where wait: "slot_id slot = i" "slot_expected slot = kind" "answer_from slot [] c"
      "lc_replies c ! slot_reply slot = Oneshot_Empty"
      "select_answer (act ser) (lo_deadline (rn_options s)) (slot_reply slot) (lw_polls w) c = (r, c')"
      "lc_cancel (rn_control s') = lc_cancel c'" "r = Pending \<Longrightarrow> rn_control s' = c'"
      by (rule ask_run [OF assms(1) i assms(3)]) blast
    from select_answer_causes [OF wait(3-5)] wait(1,2,6,7) clean i show ?thesis
      by (auto simp: wait_acts_def split: async.splits result.splits)
  next
    case False
    with assms(3) clean show ?thesis
      by (auto simp: ask_def run_defs split: option.splits result.splits)
  qed
qed

theorem interaction_resolves_witness:
  "\<exists>i s'. InteractionId_new [Some (replicate 16 1)] = Some (Ok i)
     \<and> ask (\<lambda>_. ([], True)) (invocation_of (sample_call [65])) (IK_Approval \<lparr>ar_prompt = BoundedText [], ar_risk = Risk_Low\<rparr>)
         \<lparr>lw_random = [Some (replicate 16 1)], lw_polls = [([], False), ([X_Answer i (IA_Approval AllowOnce)], False)]\<rparr>
         (sample_runner False) = (Done (Ok (IA_Approval AllowOnce)), s')
     \<and> X_Answer i (IA_Approval AllowOnce) \<in> set (wait_acts
         \<lparr>lw_random = [Some (replicate 16 1)], lw_polls = [([], False), ([X_Answer i (IA_Approval AllowOnce)], False)]\<rparr>)
     \<and> cs_interaction (lc_inner (rn_control s')) = None"
proof -
  let ?kind = "IK_Approval \<lparr>ar_prompt = BoundedText [], ar_risk = Risk_Low\<rparr>"
  let ?wait = "\<lambda>i. \<lparr>lw_random = [Some (replicate 16 1)],
    lw_polls = [([], False), ([X_Answer i (IA_Approval AllowOnce)], False)]\<rparr>"
  obtain i where i: "InteractionId_new [Some (replicate 16 1)] = Some (Ok i)"
    by (simp add: InteractionId_new_def list_ex_iff)
  have typed: "typed_wait (?wait i)" by (simp add: typed_wait_def typed_op_def)
  obtain s' where run: "ask (\<lambda>_. ([], True)) (invocation_of (sample_call [65])) ?kind (?wait i) (sample_runner False)
      = (Done (Ok (IA_Approval AllowOnce)), s')"
    by (simp add: ask_def i wait_interaction_def run_defs oneshot_channel_def set_interaction_def sample_runner_def
        answer_def answer_check_def send_reply_def is_active_def InteractionAnswer_validate_def Let_def publish_state_def)
  from interaction_resolves [OF sample_typed(1) typed this] i run show ?thesis
    by (intro exI [of _ i] exI [of _ s']) (simp add: wait_acts_def)
qed

end
