(* ===== verification/Runner.thy ===== *)
theory Runner
  imports Runner_Tools
begin

text \<open>
  The runner of one agent loop, \<^verbatim>\<open>src/agent_loop/runner.rs\<close> and \<^verbatim>\<open>src/agent_loop/runner/model.rs\<close>:
  request boundaries, prompt, model call, tool batch, the seal and the report.
\<close>

subsection \<open>Request boundary\<close>

record ('m, 't, 'p, 'q) LoopLocals =
  ll_config :: "('m, 't, 'p, 'q) ExecutionConfig"
  ll_issued_revision :: ConfigRevision
  ll_candidate_revision :: "ConfigRevision option"
  ll_request_index :: u32
  ll_tool_rounds :: u64
  ll_requests :: u32
  ll_last_issued_request_index :: "u32 option"
  ll_usage :: UsageAccumulator

definition append_inputs :: "UserInput list \<Rightarrow> ('m, 't, 'p, 'q, unit) step" where
  "append_inputs inputs = modify_run (\<lambda>s. s\<lparr>rn_working :=
     fold (\<lambda>input. append_user \<lparr>uh_loop_id = rn_id s, uh_kind = UK_Steering, uh_input = input\<rparr>) inputs (rn_working s)\<rparr>)"

text \<open>\<open>take\<close> is host code: it answers with inputs or panics.\<close>

definition take_boundary ::
  "UserInput list caught \<Rightarrow> ('m, 't, 'p, 'q) LoopLocals \<Rightarrow> ('m, 't, 'p, 'q, bool \<times> ('m, 't, 'p, 'q) LoopLocals) step" where
  "take_boundary inputs l =
     bind_run (on_control_get take_config) (\<lambda>taken.
     (let l' = (case taken of
                  Some (revision, config) \<Rightarrow> l\<lparr>ll_config := config, ll_candidate_revision := Some revision\<rparr>
                | None \<Rightarrow> l) in
      case inputs of
        Unwound \<Rightarrow> lift_run Aborted
      | Completed given \<Rightarrow>
          then_run (append_inputs given) (return_run (taken \<noteq> None \<or> given \<noteq> [], l'))))"

subsection \<open>Prompt\<close>

datatype PromptPrep = PP_Ready "ModelMessage list" | PP_End FailPath

definition prompt_prep :: "(ModelMessage list, PromptError) PortCallOutcome \<Rightarrow> PromptPrep" where
  "prompt_prep outcome =
     (case outcome of
        Returned (Ok messages) \<Rightarrow> if messages = [] then PP_End FP_Prompt else PP_Ready messages
      | PC_Cancelled \<Rightarrow> PP_End FP_Cancelled
      | PC_DeadlineExceeded Turn \<Rightarrow> PP_End FP_Deadline
      | Returned (Err _) \<Rightarrow> PP_End FP_Prompt
      | PC_DeadlineExceeded Port \<Rightarrow> PP_End FP_Prompt
      | PC_InvalidDeadline _ \<Rightarrow> PP_End FP_Prompt
      | PC_Panicked \<Rightarrow> PP_End FP_Prompt)"

text \<open>The reply of a provider is a function of the history it is shown.\<close>

type_synonym prompt_reply = "HistoryView \<Rightarrow> (ModelMessage list, PromptError) result"

definition ready_for :: "HistoryView \<Rightarrow> ('x, HistoryView \<Rightarrow> 'a) live_poll \<Rightarrow> ('x, 'a) live_poll" where
  "ready_for view p = \<lparr>lp_ops = lp_ops p, lp_elapsed = lp_elapsed p,
     lp_ready = map_option (map_caught (\<lambda>f. f view)) (lp_ready p)\<rparr>"

definition call_for :: "HistoryView \<Rightarrow> ('x, HistoryView \<Rightarrow> 'a) live_call \<Rightarrow> ('x, 'a) live_call" where
  "call_for view call = \<lparr>lv_ops = lv_ops call, lv_now_turn = lv_now_turn call,
     lv_now_deadline = lv_now_deadline call, lv_now_check = lv_now_check call,
     lv_construct_panics = lv_construct_panics call, lv_polls = map (ready_for view) (lv_polls call)\<rparr>"

definition prepare_prompt ::
  "json serializer \<Rightarrow> instant \<Rightarrow> (('m, 't, 'p, 'q) others, prompt_reply) live_call \<Rightarrow> ('m, 't, 'p, 'q, PromptPrep) step" where
  "prepare_prompt ser deadline call =
     bind_run (gets_run (\<lambda>s. (lo_prompt_timeout (rn_options s), WorkingHistory_view (rn_working s)))) (\<lambda>(timeout, view).
     bind_run (live_port ser deadline timeout (call_for view call)) (\<lambda>run.
     return_run (prompt_prep (pr_outcome run))))"

definition build_model_request ::
  "ModelMessage list \<Rightarrow> ('m, 't, 'p, 'q) ExecutionConfig \<Rightarrow> (ModelRequest, ModelValueError) result" where
  "build_model_request messages snapshot =
     ModelRequest_with_validated_tools messages (ts_specs (ec_tools snapshot)) ModelLimits_default
       (ec_reasoning snapshot)"

subsection \<open>Model call\<close>

record 'x live_attempt =
  la_ops :: "'x list"
  la_now :: instant
  la_start_panics :: bool
  la_start :: "('x, (unit, ModelError) result) live_poll list"
  la_stream :: "(('x, (ModelEvent, ModelError) result option) live_poll \<times> send_result) list"
  la_now_retry :: instant
  la_now_wait :: instant
  la_wait :: "('x, unit) live_poll list"

record 'x live_model =
  lm_ops :: "'x list"
  lm_now_turn :: instant
  lm_now_deadline :: instant
  lm_now_check :: instant
  lm_attempts :: "'x live_attempt list"
  lm_forwarded :: "u64 list"
  lm_ops_after :: "'x list"

definition play_attempt ::
  "('x \<Rightarrow> 'c LoopControl \<Rightarrow> 'c LoopControl) \<Rightarrow> 'x live_attempt \<Rightarrow> 'c LoopControl \<Rightarrow> attempt_env \<times> 'c LoopControl" where
  "play_attempt ext a c =
     (let c1 = fold ext (la_ops a) c;
          start = play_polls ext (la_start a) c1;
          stream = play_polls ext (map fst (la_stream a)) (snd start);
          wait = play_polls ext (la_wait a) (snd stream) in
      (\<lparr>ae_cancelled = lc_cancel c1, ae_now = la_now a, ae_start_panics = la_start_panics a,
        ae_start_polls = fst start,
        ae_stream_polls = map2 (\<lambda>p answer. \<lparr>sp_cancelled = pp_cancelled p, sp_elapsed = pp_elapsed p,
            sp_ready = pp_ready p, sp_send = answer\<rparr>) (fst stream) (map snd (la_stream a)),
        ae_now_retry = la_now_retry a, ae_now_wait = la_now_wait a, ae_wait_polls = fst wait\<rparr>, snd wait))"

fun play_attempts ::
  "('x \<Rightarrow> 'c LoopControl \<Rightarrow> 'c LoopControl) \<Rightarrow> 'x live_attempt list \<Rightarrow> 'c LoopControl \<Rightarrow>
     attempt_env list \<times> 'c LoopControl" where
  "play_attempts ext [] c = ([], c)"
| "play_attempts ext (a # as) c =
     (let x = play_attempt ext a c; rest = play_attempts ext as (snd x) in (fst x # fst rest, snd rest))"

definition forward_progress :: "u32 \<Rightarrow> u64 \<Rightarrow> ModelDriverProgress \<Rightarrow> ('m, 't, 'p, 'q, unit) step" where
  "forward_progress request_index dropped value =
     then_run (record_dropped_run dropped)
     (bind_run (gets_run rn_id) (\<lambda>ident.
      emit (case value of
              DP_TextDelta delta \<Rightarrow> EV_OutputDelta ident request_index OC_Text delta
            | DP_ReasoningDelta delta \<Rightarrow> EV_OutputDelta ident request_index OC_Reasoning delta)))"

fun forward_all :: "u32 \<Rightarrow> (u64 \<times> ModelDriverProgress) list \<Rightarrow> ('m, 't, 'p, 'q, unit) step" where
  "forward_all request_index [] = return_run ()"
| "forward_all request_index (x # xs) =
     then_run (forward_progress request_index (fst x) (snd x)) (forward_all request_index xs)"

text \<open>
  The driver's deltas are forwarded while it runs, each with the drop count swapped out at that
  moment (\<open>lm_forwarded\<close>); what is left of count and deltas follows when it has returned.
\<close>

definition run_model ::
  "(rstr \<Rightarrow> json option) \<Rightarrow> json serializer \<Rightarrow> u32 \<Rightarrow> ('m, 't, 'p, 'q) ExecutionConfig \<Rightarrow> ModelRequest \<Rightarrow> instant \<Rightarrow>
     ('m, 't, 'p, 'q) others live_model \<Rightarrow> ('m, 't, 'p, 'q, (ModelResponse, ModelDriverFailure) result) step" where
  "run_model parse ser request_index snapshot request deadline env =
     then_run (interfere ser (lm_ops env)) (with_state (\<lambda>s.
       (let opts = rn_options s;
            driver = ModelDriver_from_validated (ec_descriptor snapshot) (lo_model_timeout opts)
              (lo_model_retry_attempts opts) (lo_model_retry_base_delay opts) (lo_limits opts);
            played = play_attempts (act ser) (lm_attempts env) (rn_control s);
            result = run_detailed parse ser driver request deadline
              \<lparr>de_now_deadline = lm_now_deadline env, de_cancelled = lc_cancel (rn_control s),
               de_now_check = lm_now_check env, de_attempts = fst played\<rparr> \<lparr>dl_sent = [], dl_dropped = 0\<rparr>;
            log = fst (snd result); k = length (lm_forwarded env) in
        then_run (on_control (\<lambda>_. snd played))
        (then_run (forward_all request_index (zip (lm_forwarded env) (dl_sent log)))
        (bind_run (lift_run (fst result)) (\<lambda>r.
         then_run (record_dropped_run (dl_dropped log - sum_list (take (length (dl_sent log)) (lm_forwarded env))))
         (then_run (forward_all request_index (map (Pair 0) (drop k (dl_sent log))))
         (then_run (interfere ser (lm_ops_after env)) (return_run r)))))))))"

definition map_model_failure :: "bool \<Rightarrow> ModelDriverFailure \<Rightarrow> FailPath" where
  "map_model_failure cancelled failure =
     (if cancelled then FP_Cancelled
      else if df_deadline_source failure = Some Turn then FP_Deadline
      else if me_kind (df_error failure) \<in> {ME_InvalidProviderResponse, ME_IncompleteResponse, ME_UnexpectedToolCall}
      then FP_InvalidModelResponse (df_error failure)
      else FP_Model (df_error failure))"

subsection \<open>One turn of the loop\<close>

record 'x live_round =
  lr_ops :: "'x list"
  lr_now :: instant
  lr_inputs :: "UserInput list caught"
  lr_prompt :: "('x, prompt_reply) live_call"
  lr_ops_stale :: "'x list"
  lr_inputs_stale :: "UserInput list caught"
  lr_model :: "'x live_model"
  lr_tools :: "'x live_tool list"

datatype 'l turn = Again 'l | Stop FailPath 'l

text \<open>How a response without tool calls ends the loop.\<close>

definition no_tool_finish :: "ModelFinishReason \<Rightarrow> FailPath option" where
  "no_tool_finish reason =
     (case reason of
        FR_Stop \<Rightarrow> Some FP_Completed
      | FR_Length \<Rightarrow> Some FP_OutputLimit
      | FR_Refused \<Rightarrow> Some FP_Refused
      | FR_ContentFiltered \<Rightarrow> Some FP_ContentFiltered
      | _ \<Rightarrow> None)"

definition unsupported_finish :: "ModelError option" where
  "unsupported_finish = map_option (ModelError_started ME_InvalidProviderResponse)
     (DiagnosticSummary_bounded_static DC_ModelMalformedResponse DCat_Model
        (lit ''model returned an invalid response'') False)"

definition round_state :: "LoopId \<Rightarrow> LoopStatus \<Rightarrow> u32 \<Rightarrow> ConfigRevision \<Rightarrow> ModelRef option \<Rightarrow> LoopState" where
  "round_state ident status request_index revision model =
     \<lparr>lst_loop_id = ident, lst_status = status, lst_request_index = request_index,
      lst_config_revision = revision, lst_model = model, lst_pending_interaction = None\<rparr>"

definition append_response ::
  "u32 \<Rightarrow> ('m, 't, 'p, 'q) ExecutionConfig \<Rightarrow> ModelResponse \<Rightarrow> Usage \<Rightarrow> ('m, 't, 'p, 'q, unit) step" where
  "append_response request_index snapshot response round_usage =
     modify_run (\<lambda>s. s\<lparr>rn_working := append_assistant
       \<lparr>ah_loop_id = rn_id s, ah_request_index = request_index,
        ah_model = md_model_ref (ec_descriptor snapshot), ah_reasoning = ec_reasoning snapshot,
        ah_content = mr_parts response, ah_provider_replay = mr_provider_replay response,
        ah_finish_reason = mr_finish_reason response, ah_usage = round_usage\<rparr> (rn_working s)\<rparr>)"

text \<open>The tool calls of a response: the round limit, or a batch.\<close>

definition tool_round ::
  "json serializer \<Rightarrow> (json \<Rightarrow> rstr) \<Rightarrow> ('m, 't, 'p, 'q) others live_round \<Rightarrow> ('m, 't, 'p, 'q) ExecutionConfig \<Rightarrow>
     ConfigRevision \<Rightarrow> ToolCall list \<Rightarrow> ('m, 't, 'p, 'q) LoopLocals \<Rightarrow> ('m, 't, 'p, 'q, ('m, 't, 'p, 'q) LoopLocals turn) step" where
  "tool_round ser enc env snapshot revision calls l =
     bind_run (gets_run (\<lambda>s. lo_max_tool_rounds (rn_options s))) (\<lambda>max_rounds.
     if max_rounds \<noteq> 0 \<and> unat max_rounds \<le> unat (ll_tool_rounds l) then
       then_run (settle_calls (ll_request_index l) calls TR_Failed (lit ''tool round limit reached''))
         (return_run (Stop FP_MaxToolRounds l))
     else
       (let l' = l\<lparr>ll_tool_rounds := saturating_add (ll_tool_rounds l) 1\<rparr> in
        bind_run (gets_run rn_id) (\<lambda>ident.
        then_run (publish (round_state ident LS_RunningTools (ll_request_index l) revision
            (Some (md_model_ref (ec_descriptor snapshot)))))
        (bind_run (run_tool_batch ser enc (ll_request_index l) snapshot calls (lr_tools env)) (\<lambda>ended.
         case ended of
           Some path \<Rightarrow> return_run (Stop path l')
         | None \<Rightarrow> return_run (Again (l'\<lparr>ll_request_index := saturating_add (ll_request_index l) 1\<rparr>)))))))"

definition handle_response ::
  "json serializer \<Rightarrow> (json \<Rightarrow> rstr) \<Rightarrow> ('m, 't, 'p, 'q) others live_round \<Rightarrow> ('m, 't, 'p, 'q) ExecutionConfig \<Rightarrow>
     ConfigRevision \<Rightarrow> ModelResponse \<Rightarrow> ('m, 't, 'p, 'q) LoopLocals \<Rightarrow> ('m, 't, 'p, 'q, ('m, 't, 'p, 'q) LoopLocals turn) step" where
  "handle_response ser enc env snapshot revision response l =
     (let round_usage = (case mr_usage response of Some u \<Rightarrow> u | None \<Rightarrow> Usage_default);
          added = UsageAccumulator_add (ll_usage l) round_usage;
          l' = l\<lparr>ll_usage := fst added\<rparr>;
          calls = tool_calls (mr_parts response) in
      if \<not> is_ok (snd added) then return_run (Stop FP_Internal l')
      else if calls = [] then
        (case no_tool_finish (mr_finish_reason response) of
           None \<Rightarrow> bind_run (expect_run unsupported_finish) (\<lambda>e. return_run (Stop (FP_InvalidModelResponse e) l'))
         | Some path \<Rightarrow>
             then_run (append_response (ll_request_index l) snapshot response round_usage)
             (then_run (if path = FP_Completed then on_control (\<lambda>c. fst (begin_final c)) else return_run ())
               (return_run (Stop path l'))))
      else
        then_run (append_response (ll_request_index l) snapshot response round_usage)
          (tool_round ser enc env snapshot revision calls l'))"

text \<open>From the issue boundary on: the revision is committed, the model is called.\<close>

definition issue_request ::
  "(rstr \<Rightarrow> json option) \<Rightarrow> json serializer \<Rightarrow> (json \<Rightarrow> rstr) \<Rightarrow> ('m, 't, 'p, 'q) others live_round \<Rightarrow>
     ('m, 't, 'p, 'q) ExecutionConfig \<Rightarrow> ModelRequest \<Rightarrow> ('m, 't, 'p, 'q) LoopLocals \<Rightarrow>
     ('m, 't, 'p, 'q, ('m, 't, 'p, 'q) LoopLocals turn) step" where
  "issue_request parse ser enc env snapshot request l =
     (let revision = (case ll_candidate_revision l of Some r \<Rightarrow> r | None \<Rightarrow> ll_issued_revision l);
          model = md_model_ref (ec_descriptor snapshot);
          l' = l\<lparr>ll_issued_revision := revision, ll_candidate_revision := None,
                 ll_requests := saturating_add (ll_requests l) 1,
                 ll_last_issued_request_index := Some (ll_request_index l)\<rparr> in
      then_run (on_control (commit_revision revision))
      (bind_run (gets_run rn_id) (\<lambda>ident.
       then_run (emit (EV_RequestStarted ident (ll_request_index l) revision model (ec_reasoning snapshot)))
       (then_run (publish (round_state ident LS_RunningModel (ll_request_index l) revision (Some model)))
       (bind_run (with_state (\<lambda>s. expect_run (turn_deadline (lm_now_turn (lr_model env)) (lo_deadline (rn_options s))))) (\<lambda>deadline.
        bind_run (run_model parse ser (ll_request_index l) snapshot request deadline (lr_model env)) (\<lambda>result.
        case result of
          Err failure \<Rightarrow>
            bind_run (gets_run (\<lambda>s. lc_cancel (rn_control s))) (\<lambda>cancelled.
            return_run (Stop (map_model_failure cancelled failure) l'))
        | Ok response \<Rightarrow> handle_response ser enc env snapshot revision response l')))))))"

definition loop_turn ::
  "(rstr \<Rightarrow> json option) \<Rightarrow> json serializer \<Rightarrow> (json \<Rightarrow> rstr) \<Rightarrow> ('m, 't, 'p, 'q) others live_round \<Rightarrow>
     ('m, 't, 'p, 'q) LoopLocals \<Rightarrow> ('m, 't, 'p, 'q, ('m, 't, 'p, 'q) LoopLocals turn) step" where
  "loop_turn parse ser enc env l =
     then_run (interfere ser (lr_ops env))
     (bind_run (gets_run (\<lambda>s. (rn_id s, lc_cancel (rn_control s), lo_deadline (rn_options s)))) (\<lambda>(ident, cancelled, deadline).
      if cancelled then return_run (Stop FP_Cancelled l)
      else if (case deadline of Some d \<Rightarrow> d \<le> lr_now env | None \<Rightarrow> False) then return_run (Stop FP_Deadline l)
      else
        bind_run (take_boundary (lr_inputs env) l) (\<lambda>(_, l1).
        then_run (publish (LoopState_new ident LS_Starting (ll_request_index l1) (ll_issued_revision l1)))
        (bind_run (expect_run (turn_deadline (lv_now_turn (lr_prompt env)) deadline)) (\<lambda>prompt_deadline.
         bind_run (prepare_prompt ser prompt_deadline (lr_prompt env)) (\<lambda>prep.
         case prep of
           PP_End path \<Rightarrow> return_run (Stop path l1)
         | PP_Ready messages \<Rightarrow>
             then_run (interfere ser (lr_ops_stale env))
             (bind_run (take_boundary (lr_inputs_stale env) l1) (\<lambda>(taken, l2).
              if taken then return_run (Again l2)
              else case build_model_request messages (ll_config l1) of
                Err _ \<Rightarrow> return_run (Stop FP_Prompt l2)
              | Ok request \<Rightarrow> issue_request parse ser enc env (ll_config l1) request l2)))))))) "

fun run_turns ::
  "(rstr \<Rightarrow> json option) \<Rightarrow> json serializer \<Rightarrow> (json \<Rightarrow> rstr) \<Rightarrow> ('m, 't, 'p, 'q) others live_round list \<Rightarrow>
     ('m, 't, 'p, 'q) LoopLocals \<Rightarrow> ('m, 't, 'p, 'q, FailPath \<times> ('m, 't, 'p, 'q) LoopLocals) step" where
  "run_turns parse ser enc [] l = lift_run Pending"
| "run_turns parse ser enc (env # envs) l =
     bind_run (loop_turn parse ser enc env l) (\<lambda>t.
     case t of
       Stop path l' \<Rightarrow> return_run (path, l')
     | Again l' \<Rightarrow> run_turns parse ser enc envs l')"

subsection \<open>Outcome and report\<close>

text \<open>\<open>None\<close> is a panic of \<open>bounded_static\<close>.\<close>

definition failure :: "LoopFailureKind \<Rightarrow> DiagnosticCode \<Rightarrow> DiagnosticCategory \<Rightarrow> rstr \<Rightarrow> LoopFailure option" where
  "failure kind code category message =
     map_option (\<lambda>d. \<lparr>lf_kind = kind, lf_diagnostic = d, lf_model_error = None\<rparr>)
       (DiagnosticSummary_bounded_static code category message False)"

definition model_failure :: "LoopFailureKind \<Rightarrow> ModelError \<Rightarrow> LoopFailure" where
  "model_failure kind e = \<lparr>lf_kind = kind, lf_diagnostic = me_diagnostic e, lf_model_error = Some e\<rparr>"

definition outcome_for :: "'c LoopControl \<Rightarrow> FailPath \<Rightarrow> LoopOutcome option" where
  "outcome_for control path =
     (case path of
        FP_Completed \<Rightarrow> Some LO_Completed
      | FP_Cancelled \<Rightarrow> Some (LO_Cancelled (cancel_reason control))
      | FP_Deadline \<Rightarrow> Some (LO_Cancelled CR_Deadline)
      | FP_Prompt \<Rightarrow> map_option LO_Failed (failure LF_Prompt DC_ContextFailed DCat_Context
          (lit ''prompt preparation failed''))
      | FP_Model e \<Rightarrow> Some (LO_Failed (model_failure LF_Model e))
      | FP_InvalidModelResponse e \<Rightarrow> Some (LO_Failed (model_failure LF_InvalidModelResponse e))
      | FP_OutputLimit \<Rightarrow> map_option LO_Failed (failure LF_OutputLimit DC_ModelMalformedResponse DCat_Model
          (lit ''model output exceeded the configured limit''))
      | FP_Refused \<Rightarrow> map_option LO_Failed (failure LF_Refused DC_ModelMalformedResponse DCat_Model
          (lit ''model refused to answer''))
      | FP_ContentFiltered \<Rightarrow> map_option LO_Failed (failure LF_ContentFiltered DC_ModelMalformedResponse DCat_Model
          (lit ''model response was content filtered''))
      | FP_Policy \<Rightarrow> map_option LO_Failed (failure LF_Policy DC_PolicyFailed DCat_Policy
          (lit ''tool policy evaluation failed''))
      | FP_Interaction \<Rightarrow> map_option LO_Failed (failure LF_Interaction DC_InteractionNotFound DCat_Internal
          (lit ''pending interaction was not resolved''))
      | FP_MaxToolRounds \<Rightarrow> map_option LO_Failed (failure LF_MaxToolRounds DC_TurnBudgetExceeded DCat_Internal
          (lit ''maximum tool rounds reached''))
      | FP_Internal \<Rightarrow> map_option LO_Failed (failure LF_Internal DC_Internal DCat_Internal
          (lit ''loop runner hit an internal error'')))"

definition outcome_summary :: "LoopOutcome \<Rightarrow> LoopOutcomeSummary" where
  "outcome_summary outcome =
     (case outcome of
        LO_Completed \<Rightarrow> OS_Completed
      | LO_Cancelled reason \<Rightarrow> OS_Cancelled reason
      | LO_Failed f \<Rightarrow> OS_Failed (lf_kind f))"

definition publish_final_states :: "u32 \<Rightarrow> ConfigRevision \<Rightarrow> ('m, 't, 'p, 'q, unit) step" where
  "publish_final_states request_index revision =
     bind_run (gets_run (\<lambda>s. (rn_id s, lst_model (current_state (rn_control s))))) (\<lambda>(ident, model).
     then_run (publish (round_state ident LS_Finishing request_index revision model))
     (bind_run (gets_run (\<lambda>s. lst_model (current_state (rn_control s)))) (\<lambda>model'.
      publish (round_state ident LS_Finished request_index revision model'))))"

definition complete :: "LoopReport \<Rightarrow> 'c LoopControl \<Rightarrow> 'c LoopControl" where
  "complete report c = c\<lparr>lc_completion := Some report\<rparr>"

definition finish_once_run :: "('m, 't, 'p, 'q, FinishSeal) step" where
  "finish_once_run =
     bind_run (gets_run (\<lambda>s. finish_once (rn_control s))) (\<lambda>r.
     bind_run (expect_run r) (\<lambda>(c, seal, _).
     then_run (on_control (\<lambda>_. c)) (return_run seal)))"

text \<open>
  Between reading the intended outcome and the seal other threads may act (\<open>between\<close>); dropping
  the discarded configuration runs host code whose panic is swallowed and is not modelled.
\<close>

definition finish_loop ::
  "json serializer \<Rightarrow> ('m, 't, 'p, 'q) others list \<Rightarrow> FailPath \<Rightarrow> ('m, 't, 'p, 'q) LoopLocals \<Rightarrow>
     ('m, 't, 'p, 'q, LoopReport) step" where
  "finish_loop ser between path l =
     bind_run (gets_run (\<lambda>s. applied_revision (rn_control s))) (\<lambda>revision.
     bind_run (with_state (\<lambda>s. expect_run (outcome_for (rn_control s) path))) (\<lambda>intended.
     then_run (interfere ser between)
     (bind_run finish_once_run (\<lambda>seal.
      (let publish_report = (\<lambda>outcome.
         bind_run (gets_run (\<lambda>s. \<lparr>rep_loop_id = rn_id s, rep_outcome = outcome,
             rep_appended = into_appended (rn_working s),
             rep_usage = UsageAccumulator_finish (ll_usage l), rep_requests = ll_requests l,
             rep_tool_rounds = ll_tool_rounds l, rep_final_config_revision = revision\<rparr>)) (\<lambda>report.
         then_run (publish_final_states (case ll_last_issued_request_index l of Some i \<Rightarrow> i | None \<Rightarrow> 0) revision)
         (then_run (on_control (complete report))
         (then_run (emit (EV_Finished (rep_loop_id report) (outcome_summary outcome)))
         (then_run (on_control cancel_token) (return_run report)))))) in
       case seal of
         Seal_Clean \<Rightarrow> publish_report intended
       | Seal_CancelledPrior reason \<Rightarrow> publish_report (LO_Cancelled reason)
       | Seal_AlreadyFinished \<Rightarrow> with_state (\<lambda>s. expect_run (published_report (rn_control s))))))))"

record 'x live_loop =
  ln_rounds :: "'x live_round list"
  ln_between :: "'x list"
  ln_panic :: "'x list"

definition run_loop_inner ::
  "(rstr \<Rightarrow> json option) \<Rightarrow> json serializer \<Rightarrow> (json \<Rightarrow> rstr) \<Rightarrow> ('m, 't, 'p, 'q) others live_loop \<Rightarrow>
     ('m, 't, 'p, 'q) LoopRequest \<Rightarrow> ('m, 't, 'p, 'q, LoopReport) step" where
  "run_loop_inner parse ser enc env request =
     bind_run (gets_run rn_id) (\<lambda>ident.
     then_run (emit (EV_Started ident))
     (then_run (modify_run (\<lambda>s. s\<lparr>rn_working := append_user
         \<lparr>uh_loop_id = ident, uh_kind = UK_Prompt, uh_input = lq_input request\<rparr> (WorkingHistory_new (lq_history request))\<rparr>))
     (bind_run (run_turns parse ser enc (ln_rounds env)
         \<lparr>ll_config = lq_config request, ll_issued_revision = ConfigRevision_INITIAL, ll_candidate_revision = None,
          ll_request_index = 0, ll_tool_rounds = 0, ll_requests = 0, ll_last_issued_request_index = None,
          ll_usage = UsageAccumulator_default\<rparr>) (\<lambda>(path, l).
      finish_loop ser (ln_between env) path l))))"

definition panic_report ::
  "json serializer \<Rightarrow> ('m, 't, 'p, 'q) others list \<Rightarrow> ('m, 't, 'p, 'q, LoopReport) step" where
  "panic_report ser others =
     then_run (interfere ser others)
     (bind_run (expect_run (failure LF_Internal DC_Internal DCat_Internal (lit ''loop runner panicked''))) (\<lambda>f.
      bind_run (gets_run (\<lambda>s. lc_id (rn_control s))) (\<lambda>ident.
      (let report = \<lparr>rep_loop_id = ident, rep_outcome = LO_Failed f, rep_appended = [],
             rep_usage = Usage_default, rep_requests = 0, rep_tool_rounds = 0,
             rep_final_config_revision = ConfigRevision_INITIAL\<rparr> in
       bind_run finish_once_run (\<lambda>seal.
       if seal = Seal_AlreadyFinished then with_state (\<lambda>s. expect_run (published_report (rn_control s)))
       else
         then_run (on_control (publish_state (LoopState_new ident LS_Finished 0 ConfigRevision_INITIAL)))
         (then_run (on_control (complete report))
         (then_run (on_control cancel_token) (return_run report))))))))"

definition run_loop ::
  "(rstr \<Rightarrow> json option) \<Rightarrow> json serializer \<Rightarrow> (json \<Rightarrow> rstr) \<Rightarrow> ('m, 't, 'p, 'q) others live_loop \<Rightarrow>
     ('m, 't, 'p, 'q) LoopRequest \<Rightarrow> ('m, 't, 'p, 'q, LoopReport) step" where
  "run_loop parse ser enc env request s =
     (case run_loop_inner parse ser enc env request s of
        (Done report, s') \<Rightarrow> (Done report, s')
      | (Pending, s') \<Rightarrow> (Pending, s')
      | (Aborted, s') \<Rightarrow> panic_report ser (ln_panic env) s')"

subsection \<open>Lemmas: boundary and prompt\<close>

lemma take_config_quiet:
  "quiet c \<Longrightarrow> quiet (fst (take_config c)) \<and> core (fst (take_config c)) = core c
     \<and> (\<forall>r cfg. snd (take_config c) = Some (r, cfg) \<longrightarrow> tool_set_ok (ec_tools cfg))"
  by (auto simp: take_config_def quiet_def live_def core_def)

lemma append_users:
  "fold (\<lambda>input. append_user \<lparr>uh_loop_id = i, uh_kind = k, uh_input = input\<rparr>) inputs w
     = w\<lparr>wh_appended := wh_appended w @ map (\<lambda>input. HI_User \<lparr>uh_loop_id = i, uh_kind = k, uh_input = input\<rparr>) inputs\<rparr>"
  by (induction inputs arbitrary: w) (simp_all add: append_user_def)

definition steering :: "LoopId \<Rightarrow> UserInput list \<Rightarrow> HistoryItem list" where
  "steering ident inputs =
     map (\<lambda>input. HI_User \<lparr>uh_loop_id = ident, uh_kind = UK_Steering, uh_input = input\<rparr>) inputs"

text \<open>A boundary touches the working configuration and the candidate, nothing else of the locals.\<close>

definition rebased :: "('m, 't, 'p, 'q) LoopLocals \<Rightarrow> ('m, 't, 'p, 'q) LoopLocals \<Rightarrow> bool" where
  "rebased l l' \<longleftrightarrow> (\<exists>cfg r. l' = l\<lparr>ll_config := cfg, ll_candidate_revision := r\<rparr> \<and> (cfg = ll_config l \<or> tool_set_ok (ec_tools cfg)))"

lemma take_boundary_wp:
  assumes "quiet (rn_control s)"
  shows "wp (take_boundary inputs l)
     (\<lambda>(changed, l') s'. keeps s s' \<and> quiet (rn_control s') \<and> rebased l l'
        \<and> (\<exists>given. inputs = Completed given \<and> adds s s' (steering (rn_id s) given) \<and> (given \<noteq> [] \<longrightarrow> changed))
        \<and> (\<not> changed \<longrightarrow> l' = l))
     (\<lambda>s'. keeps s s' \<and> quiet (rn_control s') \<and> adds s s' [] \<and> inputs = Unwound) s"
proof -
  note taken = take_config_quiet [OF assms]
  have "rebased l l" by (auto simp: rebased_def intro!: exI [of _ "ll_config l"] exI [of _ "ll_candidate_revision l"])
  then show ?thesis
    using taken
    by (auto simp: take_boundary_def Let_def append_inputs_def append_users steering_def adds_def keeps_def rebased_def
        split: option.splits caught.splits)
qed

lemma typed_call_for [simp]: "typed_call (call_for view call) = typed_call call"
  by (simp add: typed_call_def call_for_def list_all_iff ready_for_def)

lemma prompt_prep_facts:
  assumes "out = PC_Cancelled \<longrightarrow> lc_cancel c"
  shows "case prompt_prep out of
      PP_Ready messages \<Rightarrow> messages \<noteq> []
    | PP_End p \<Rightarrow> p = FP_Cancelled \<and> lc_cancel c \<or> p \<in> {FP_Deadline, FP_Prompt}"
  using assms
  by (auto simp: prompt_prep_def split: PortCallOutcome.splits result.splits DeadlineSource.splits)

lemma prepare_prompt_wp:
  assumes "quiet (rn_control s)" "typed_call call"
  shows "wp (prepare_prompt ser deadline call)
     (\<lambda>prep s'. keeps s s' \<and> quiet (rn_control s') \<and> rn_working s' = rn_working s
        \<and> (case prep of PP_Ready messages \<Rightarrow> messages \<noteq> []
           | PP_End p \<Rightarrow> p = FP_Cancelled \<and> lc_cancel (rn_control s') \<or> p \<in> {FP_Deadline, FP_Prompt}))
     (\<lambda>_. False) s"
  unfolding prepare_prompt_def wp_simps(3,4) prod.case
  by (rule wp_mono [OF live_port_wp [OF assms(1)]]) (use assms(2) prompt_prep_facts in auto)

subsection \<open>Lemmas: the model call\<close>

definition attempt_acts :: "('x \<Rightarrow> bool) \<Rightarrow> 'x live_attempt \<Rightarrow> bool" where
  "attempt_acts ok a \<longleftrightarrow> list_all ok (la_ops a) \<and> list_all (\<lambda>p. list_all ok (lp_ops p)) (la_start a)
     \<and> list_all (\<lambda>p. list_all ok (lp_ops (fst p))) (la_stream a) \<and> list_all (\<lambda>p. list_all ok (lp_ops p)) (la_wait a)"

context stable
begin

lemma attempt_stable: "inv c \<Longrightarrow> attempt_acts ok a \<Longrightarrow> inv (snd (play_attempt act a c))"
  unfolding play_attempt_def Let_def attempt_acts_def snd_conv
  by (intro polls_stable acts_stable) (auto simp: list_all_iff)

lemma attempts_stable: "inv c \<Longrightarrow> list_all (attempt_acts ok) as \<Longrightarrow> inv (snd (play_attempts act as c))"
  by (induction as arbitrary: c) (auto simp: Let_def intro: attempt_stable)

end

lemma play_attempts_waits:
  "list_all (\<lambda>a. P (ae_now_wait a)) (fst (play_attempts ext as c)) = list_all (\<lambda>a. P (la_now_wait a)) as"
  by (induction as arbitrary: c) (simp_all add: Let_def play_attempt_def)

lemma attempts_core [simp]: "core (snd (play_attempts (act ser) as c)) = core c"
  by (rule core.attempts_stable) (simp_all add: attempt_acts_def list_all_iff)

definition typed_model :: "('m, 't, 'p, 'q) others live_model \<Rightarrow> bool" where
  "typed_model env \<longleftrightarrow> list_all typed_op (lm_ops env) \<and> list_all (attempt_acts typed_op) (lm_attempts env)
     \<and> list_all typed_op (lm_ops_after env)"

text \<open>A model call panics only when the clock is at the end of its range.\<close>

definition calm_model :: "LoopOptions \<Rightarrow> ('m, 't, 'p, 'q) others live_model \<Rightarrow> bool" where
  "calm_model opts env \<longleftrightarrow> turn_deadline (lm_now_turn env) (lo_deadline opts) \<noteq> None
     \<and> list_all (\<lambda>a. la_now_wait a + MAX_MODEL_RETRY_DELAY < INSTANT_LIMIT) (lm_attempts env)"

lemma forward_all_wp:
  "wp (forward_all ri xs)
     (\<lambda>_ s'. keeps s s' \<and> rn_control s' = rn_control s \<and> rn_working s' = rn_working s \<and> rn_executed s' = rn_executed s)
     (\<lambda>_. False) s"
proof (induction xs arbitrary: s)
  case (Cons x xs)
  show ?case
    by (simp add: forward_progress_def) (rule wp_mono [OF Cons.IH], auto simp: keeps_def)
qed simp

definition model_post ::
  "ModelRequest \<Rightarrow> ('m, 't, 'p, 'q) runner \<Rightarrow> (ModelResponse, 'e) result \<Rightarrow> ('m, 't, 'p, 'q) runner \<Rightarrow> bool" where
  "model_post request s r s' \<longleftrightarrow> keeps s s' \<and> quiet (rn_control s') \<and> rn_working s' = rn_working s
     \<and> (\<forall>resp. r = Ok resp \<longrightarrow> response_ok resp
          \<and> list_all (\<lambda>c. tc_name c \<in> spec_name ` set (mq_tools request)) (tool_calls (mr_parts resp)))"

lemma run_model_wp:
  assumes "quiet (rn_control s)" "options_ok (rn_options s)" "typed_model env"
  shows "wp (run_model parse ser ri snapshot request deadline env) (model_post request s)
     (\<lambda>t. keeps s t \<and> quiet (rn_control t) \<and> rn_working t = rn_working s \<and> \<not> calm_model (rn_options s) env) s"
proof -
  define c1 where "c1 = fold (act ser) (lm_ops env) (rn_control s)"
  define played where "played = play_attempts (act ser) (lm_attempts env) c1"
  define drv where "drv = ModelDriver_from_validated (ec_descriptor snapshot) (lo_model_timeout (rn_options s))
    (lo_model_retry_attempts (rn_options s)) (lo_model_retry_base_delay (rn_options s)) (lo_limits (rn_options s))"
  define denv where "denv = \<lparr>de_now_deadline = lm_now_deadline env, de_cancelled = lc_cancel c1,
    de_now_check = lm_now_check env, de_attempts = fst played\<rparr>"
  obtain r log fails where run: "run_detailed parse ser drv request deadline denv \<lparr>dl_sent = [], dl_dropped = 0\<rparr>
      = (r, log, fails)" by (metis prod_cases3)
  have c1: "quiet c1" "core c1 = core (rn_control s)"
    using quiet.acts_stable [OF assms(1)] assms(3) by (simp_all add: c1_def typed_model_def)
  have c2: "quiet (snd played)" "core (snd played) = core (rn_control s)"
    using quiet.attempts_stable [OF c1(1)] assms(3) c1(2) by (simp_all add: played_def typed_model_def)
  have after: "quiet (fold (act ser) (lm_ops_after env) c)" if "quiet c" for c
    using quiet.acts_stable [OF that] assms(3) by (simp add: typed_model_def)
  have drv: "limits_ok (drv_limits drv)" "rp_base_delay (drv_retry_policy drv) \<le> MAX_MODEL_RETRY_DELAY"
    using assms(2) by (simp_all add: drv_def ModelDriver_from_validated_def options_ok_def MAX_MODEL_RETRY_DELAY_def)
  have aborted: "r = Aborted \<Longrightarrow> \<not> calm_model (rn_options s) env"
    using run_detailed_no_abort [OF drv, of denv parse ser request deadline "\<lparr>dl_sent = [], dl_dropped = 0\<rparr>"]
      play_attempts_waits [of "\<lambda>now. now + MAX_MODEL_RETRY_DELAY < INSTANT_LIMIT" "act ser" "lm_attempts env" c1] run
    by (auto simp: calm_model_def denv_def played_def)
  have resp: "response_ok resp \<and> list_all (\<lambda>c. tc_name c \<in> spec_name ` set (mq_tools request)) (tool_calls (mr_parts resp))"
    if "r = Done (Ok resp)" for resp
    using run_detailed_response [OF drv(1), of parse ser request deadline denv] run that by blast
  define s1 where "s1 = s\<lparr>rn_control := snd played\<rparr>"
  have s1: "keeps s s1" "rn_working s1 = rn_working s" "rn_control s1 = snd played"
    using c2(2) by (simp_all add: s1_def keeps_def)
  have tail: "wp (then_run (record_dropped_run n) (then_run (forward_all ri xs)
        (then_run (interfere ser (lm_ops_after env)) (return_run out)))) (model_post request s) (\<lambda>_. False) u"
    if "keeps s u" "rn_working u = rn_working s" "rn_control u = snd played" "r = Done out" for n xs out u
    using that c2 resp
    by (auto simp: model_post_def keeps_def intro!: wp_mono [OF forward_all_wp] after)
  have "wp (then_run (forward_all ri xs) (bind_run (lift_run r) (\<lambda>out. then_run (record_dropped_run n)
        (then_run (forward_all ri ys) (then_run (interfere ser (lm_ops_after env)) (return_run out))))))
      (model_post request s)
      (\<lambda>t. keeps s t \<and> quiet (rn_control t) \<and> rn_working t = rn_working s \<and> \<not> calm_model (rn_options s) env) s1"
    for xs ys n
  proof (rule wp_thenI [OF forward_all_wp], goal_cases)
    case (1 _ u)
    then have u: "keeps s u" "rn_working u = rn_working s" "rn_control u = snd played"
      using s1 by (auto intro: keeps_trans)
    show ?case
    proof (cases r)
      case (Done out)
      from wp_mono [OF tail [OF u this]] show ?thesis
        unfolding Done wp_simps(4,7) async.case by blast
    qed (use u c2 aborted in simp_all)
  qed simp
  then show ?thesis
    unfolding s1_def played_def c1_def
    by (simp add: run_model_def Let_def run [unfolded drv_def denv_def played_def c1_def] del: wp_simps(4))
qed

subsection \<open>Lemmas: the transcript and the loop invariant\<close>

text \<open>
  What a loop appends: user inputs, and assistant messages each followed by one result for every
  tool call, in order.
\<close>

definition assistant_ok :: "AssistantHistory \<Rightarrow> bool" where
  "assistant_ok a \<longleftrightarrow> (ah_content a \<noteq> [] \<or> ah_provider_replay a \<noteq> None)
     \<and> validate_tool_call_order (ah_content a) = Ok ()"

inductive transcript :: "LoopId \<Rightarrow> nat \<Rightarrow> HistoryItem list \<Rightarrow> bool" for ident mx where
  empty: "transcript ident mx []"
| input: "transcript ident mx h \<Longrightarrow> uh_loop_id u = ident \<Longrightarrow> transcript ident mx (h @ [HI_User u])"
| turn: "transcript ident mx h \<Longrightarrow> ah_loop_id a = ident \<Longrightarrow> assistant_ok a
    \<Longrightarrow> list_all2 (answers_call ident (ah_request_index a) mx) (tool_calls (ah_content a)) rs
    \<Longrightarrow> transcript ident mx (h @ HI_Assistant a # map HI_ToolResult rs)"

lemma transcript_steering: "transcript ident mx h \<Longrightarrow> transcript ident mx (h @ steering ident inputs)"
proof (induction inputs rule: rev_induct)
  case (snoc x xs)
  then show ?case
    using transcript.input [of ident mx "h @ steering ident xs"] by (simp add: steering_def)
qed (simp add: steering_def)

definition round_bound :: "LoopOptions \<Rightarrow> u64 \<Rightarrow> bool" where
  "round_bound opts n \<longleftrightarrow> (lo_max_tool_rounds opts \<noteq> 0 \<longrightarrow> unat n \<le> unat (lo_max_tool_rounds opts))"

text \<open>A loop that has issued no request still runs on its first configuration.\<close>

definition issue_ok :: "('m, 't, 'p, 'q) LoopLocals \<Rightarrow> bool" where
  "issue_ok l \<longleftrightarrow> (ll_requests l = 0 \<longrightarrow> ll_issued_revision l = ConfigRevision_INITIAL)"

definition loop_inv :: "('m, 't, 'p, 'q) runner \<Rightarrow> ('m, 't, 'p, 'q) LoopLocals \<Rightarrow> bool" where
  "loop_inv s l \<longleftrightarrow> quiet (rn_control s) \<and> options_ok (rn_options s) \<and> tool_set_ok (ec_tools (ll_config l))
     \<and> applied_revision (rn_control s) = ll_issued_revision l \<and> issue_ok l
     \<and> transcript (rn_id s) (max_output s) (wh_appended (rn_working s))
     \<and> round_bound (rn_options s) (ll_tool_rounds l)"

text \<open>What every step of the loop leaves alone; \<open>keeps\<close> and the applied revision beside it.\<close>

definition stays :: "('m, 't, 'p, 'q) runner \<Rightarrow> ('m, 't, 'p, 'q) runner \<Rightarrow> bool" where
  "stays s s' \<longleftrightarrow> rn_id s' = rn_id s \<and> rn_options s' = rn_options s
     \<and> lc_id (rn_control s') = lc_id (rn_control s) \<and> lc_completion (rn_control s') = lc_completion (rn_control s)"

lemma stays_refl [simp]: "stays s s"
  by (simp add: stays_def)

lemma stays_keeps: "keeps s s' \<Longrightarrow> stays s s'"
  by (simp add: stays_def keeps_def core_def)

lemma stays_trans [trans]: "stays s t \<Longrightarrow> stays t u \<Longrightarrow> stays s u"
  by (simp add: stays_def)

text \<open>How the loop may stop.\<close>

definition stop_ok :: "('m, 't, 'p, 'q) runner \<Rightarrow> ('m, 't, 'p, 'q) LoopLocals \<Rightarrow> FailPath \<Rightarrow> bool" where
  "stop_ok s l p \<longleftrightarrow> p \<noteq> FP_Interaction \<and> (p = FP_Cancelled \<longrightarrow> lc_cancel (rn_control s))
     \<and> (p = FP_MaxToolRounds \<longrightarrow> lo_max_tool_rounds (rn_options s) \<noteq> 0
          \<and> unat (ll_tool_rounds l) = unat (lo_max_tool_rounds (rn_options s)))
     \<and> (p = FP_Completed \<longrightarrow> (\<exists>h a. wh_appended (rn_working s) = h @ [HI_Assistant a]
          \<and> tool_calls (ah_content a) = [] \<and> ah_finish_reason a = FR_Stop))"

definition turn_post ::
  "('m, 't, 'p, 'q) runner \<Rightarrow> ('m, 't, 'p, 'q) LoopLocals turn \<Rightarrow> ('m, 't, 'p, 'q) runner \<Rightarrow> bool" where
  "turn_post s t s' \<longleftrightarrow> stays s s' \<and> (\<exists>items. adds s s' items)
     \<and> (case t of Again l \<Rightarrow> loop_inv s' l | Stop p l \<Rightarrow> loop_inv s' l \<and> stop_ok s' l p)"

definition crash :: "('m, 't, 'p, 'q) runner \<Rightarrow> bool \<Rightarrow> ('m, 't, 'p, 'q) runner \<Rightarrow> bool" where
  "crash s calm s' \<longleftrightarrow> stays s s' \<and> quiet (rn_control s') \<and> \<not> calm"

lemma turn_post_lift: "stays s t \<Longrightarrow> adds s t items \<Longrightarrow> turn_post t r u \<Longrightarrow> turn_post s r u"
  unfolding turn_post_def by (blast intro: stays_trans adds_simps(2))

lemma wp_turn_lift:
  assumes "wp f (turn_post t) (crash t calm) t" "stays s t" "adds s t items" "calm' \<longrightarrow> calm"
  shows "wp f (turn_post s) (crash s calm') t"
  by (rule wp_mono [OF assms(1)])
    (use turn_post_lift [OF assms(2,3)] stays_trans [OF assms(2)] assms(4) in \<open>auto simp: crash_def\<close>)

lemma loop_inv_keeps:
  assumes "loop_inv s l" "keeps s t" "quiet (rn_control t)" "rn_working t = rn_working s"
  shows "loop_inv t l"
  using assms by (auto simp: loop_inv_def keeps_def core_def applied_revision_def max_output_def)

lemma failure_messages [simp]:
  "static_message (lit ''model returned an invalid response'')" "static_message (lit ''prompt preparation failed'')"
  "static_message (lit ''model output exceeded the configured limit'')" "static_message (lit ''model refused to answer'')"
  "static_message (lit ''model response was content filtered'')" "static_message (lit ''tool policy evaluation failed'')"
  "static_message (lit ''pending interaction was not resolved'')" "static_message (lit ''maximum tool rounds reached'')"
  "static_message (lit ''loop runner hit an internal error'')" "static_message (lit ''loop runner panicked'')"
  by (simp_all add: static_message_def lit_def allowed_char_def is_control_def utf8_len_def utf8_char_def MAX_TEXT_BYTES_def)

lemma unsupported_finish_Some: "\<exists>e. unsupported_finish = Some e"
  using failure_messages(1) by (simp add: unsupported_finish_def static_message_def bounded_static_Some)

lemma failure_static [simp]:
  "static_message m \<Longrightarrow> failure k c cat m
     = Some \<lparr>lf_kind = k, lf_diagnostic = \<lparr>ds_code = c, ds_category = cat, ds_message = BoundedText m, ds_retryable = False\<rparr>,
             lf_model_error = None\<rparr>"
  by (simp add: failure_def static_message_def bounded_static_Some)

lemma outcome_for_Some:
  obtains out where "outcome_for c p = Some out" "out = LO_Completed \<longleftrightarrow> p = FP_Completed"
    "\<And>reason. out = LO_Cancelled reason \<Longrightarrow> p = FP_Cancelled \<and> reason = cancel_reason c \<or> p = FP_Deadline \<and> reason = CR_Deadline"
    "\<And>f. out = LO_Failed f \<Longrightarrow> p \<notin> {FP_Completed, FP_Cancelled, FP_Deadline} \<and> (lf_kind f = LF_Interaction \<longrightarrow> p = FP_Interaction)
        \<and> (lf_kind f = LF_MaxToolRounds \<longrightarrow> p = FP_MaxToolRounds)"
  by (cases p) (auto simp: outcome_for_def model_failure_def)

subsection \<open>Lemmas: one turn\<close>

text \<open>The state between an assistant message and the results of its calls.\<close>

definition open_turn ::
  "('m, 't, 'p, 'q) runner \<Rightarrow> ('m, 't, 'p, 'q) LoopLocals \<Rightarrow> ToolCall list \<Rightarrow> bool" where
  "open_turn s l calls \<longleftrightarrow> quiet (rn_control s) \<and> options_ok (rn_options s) \<and> tool_set_ok (ec_tools (ll_config l))
     \<and> applied_revision (rn_control s) = ll_issued_revision l \<and> issue_ok l
     \<and> round_bound (rn_options s) (ll_tool_rounds l)
     \<and> (\<forall>rs. list_all2 (answers_call (rn_id s) (ll_request_index l) (max_output s)) calls rs \<longrightarrow>
          transcript (rn_id s) (max_output s) (wh_appended (rn_working s) @ map HI_ToolResult rs))"

lemma open_turn_settled:
  assumes "open_turn s l calls" "keeps s t" "quiet (rn_control t)" "adds s t (map HI_ToolResult rs)"
    and "list_all2 (answers_call (rn_id s) (ll_request_index l) (max_output s)) calls rs"
    and "ll_config l' = ll_config l" "ll_issued_revision l' = ll_issued_revision l" "ll_requests l' = ll_requests l"
    and "round_bound (rn_options s) (ll_tool_rounds l')"
  shows "loop_inv t l' \<and> stays s t"
  using assms
  by (auto simp: open_turn_def loop_inv_def keeps_def core_def applied_revision_def max_output_def stays_def adds_def
      issue_ok_def)

lemma round_bound_next:
  assumes "\<not> (lo_max_tool_rounds opts \<noteq> 0 \<and> unat (lo_max_tool_rounds opts) \<le> unat n)"
  shows "round_bound opts (saturating_add n 1)"
  using assms by (auto simp: round_bound_def unat_saturating_add)

lemma end_path_stop:
  "end_path (rn_control s) p \<Longrightarrow> stop_ok s l p"
  by (auto simp: end_path_def stop_ok_def)

lemma tool_round_wp:
  assumes "open_turn s l calls" "knows_calls snapshot calls" "list_all typed_tool (lr_tools env)"
  shows "wp (tool_round ser enc env snapshot revision calls l) (turn_post s)
     (crash s (list_all (calm_tool (rn_options s)) (lr_tools env))) s"
proof (cases "lo_max_tool_rounds (rn_options s) \<noteq> 0 \<and> unat (lo_max_tool_rounds (rn_options s)) \<le> unat (ll_tool_rounds l)")
  case True
  have bound: "round_bound (rn_options s) (ll_tool_rounds l)" and q: "quiet (rn_control s)"
    using assms(1) by (simp_all add: open_turn_def)
  have "wp (then_run (settle_calls (ll_request_index l) calls TR_Failed (lit ''tool round limit reached''))
      (return_run (Stop FP_MaxToolRounds l))) (turn_post s) (\<lambda>_. False) s"
  proof (rule wp_thenI [OF settle_calls_wp [OF static_messages(5)]], goal_cases)
    case (1 _ t)
    then obtain rs where t: "keeps s t" "quiet (rn_control t)" "adds s t (map HI_ToolResult rs)"
      "list_all2 (answers_call (rn_id s) (ll_request_index l) (max_output s)) calls rs"
      using q by auto
    from open_turn_settled [OF assms(1) t refl refl refl bound] t(3) True bound show ?case
      by (auto simp: turn_post_def stop_ok_def round_bound_def stays_def)
  qed simp
  then show ?thesis using True by (auto simp: tool_round_def intro: wp_mono)
next
  case False
  let ?l = "l\<lparr>ll_tool_rounds := saturating_add (ll_tool_rounds l) 1\<rparr>"
  define st where "st = round_state (rn_id s) LS_RunningTools (ll_request_index l) revision
      (Some (md_model_ref (ec_descriptor snapshot)))"
  define t where "t = s\<lparr>rn_control := publish_state st (rn_control s),
      rn_sink := try_emit (EV_StateChanged st) (rn_sink s)\<rparr>"
  have t: "keeps s t" "quiet (rn_control t)" "rn_working t = rn_working s" "rn_id t = rn_id s"
    "max_output t = max_output s" "rn_options t = rn_options s"
    using assms(1) by (simp_all add: t_def keeps_def open_turn_def max_output_def)
  have bound: "round_bound (rn_options s) (ll_tool_rounds ?l)" using round_bound_next [OF False] by simp
  have "wp (bind_run (run_tool_batch ser enc (ll_request_index l) snapshot calls (lr_tools env)) (\<lambda>ended.
         case ended of
           Some path \<Rightarrow> return_run (Stop path ?l)
         | None \<Rightarrow> return_run (Again (?l\<lparr>ll_request_index := saturating_add (ll_request_index l) 1\<rparr>))))
      (turn_post s) (crash s (list_all (calm_tool (rn_options s)) (lr_tools env))) t"
  proof (rule wp_bindI [OF run_tool_batch_wp [OF t(2) assms(3,2)]], goal_cases)
    case (1 ended u)
    then obtain rs where u: "keeps s u" "quiet (rn_control u)" "adds s u (map HI_ToolResult rs)"
      "list_all2 (answers_call (rn_id s) (ll_request_index l) (max_output s)) calls rs"
      using t by (auto simp: batch_post_def adds_def intro: keeps_trans)
    note settled = open_turn_settled [OF assms(1) u]
    show ?case
      using 1 u(3) settled [of ?l] settled [of "?l\<lparr>ll_request_index := saturating_add (ll_request_index l) 1\<rparr>"] bound
      by (cases ended) (auto simp: turn_post_def batch_post_def end_path_stop)
  next
    case (2 u)
    then show ?case using t by (auto simp: crash_def intro: stays_keeps keeps_trans)
  qed
  then show ?thesis using False by (auto simp: tool_round_def Let_def t_def st_def)
qed


definition typed_round :: "('m, 't, 'p, 'q) others live_round \<Rightarrow> bool" where
  "typed_round env \<longleftrightarrow> list_all typed_op (lr_ops env) \<and> typed_call (lr_prompt env) \<and> list_all typed_op (lr_ops_stale env)
     \<and> typed_model (lr_model env) \<and> list_all typed_tool (lr_tools env)"

text \<open>The panics left in a turn: host code that hands over inputs, and a clock out of range.\<close>

definition calm_round :: "LoopOptions \<Rightarrow> ('m, 't, 'p, 'q) others live_round \<Rightarrow> bool" where
  "calm_round opts env \<longleftrightarrow> lr_inputs env \<noteq> Unwound \<and> lr_inputs_stale env \<noteq> Unwound
     \<and> turn_deadline (lv_now_turn (lr_prompt env)) (lo_deadline opts) \<noteq> None
     \<and> calm_model opts (lr_model env) \<and> list_all (calm_tool opts) (lr_tools env)"

lemma knows_response_calls:
  assumes "tool_set_ok (ec_tools snapshot)"
    and "list_all (\<lambda>c. tc_name c \<in> spec_name ` set (ts_specs (ec_tools snapshot))) calls"
  shows "knows_calls snapshot calls"
  using assms tool_set_contains [OF assms(1)] by (auto simp: knows_calls_def list_all_iff)

lemma begin_final_quiet:
  "quiet c \<Longrightarrow> quiet (fst (begin_final c))" "core (fst (begin_final c)) = core c"
  by (auto simp: begin_final_def close_accepting_def quiet_def live_def core_def)

lemma handle_response_wp:
  assumes "loop_inv s l" "response_ok response" "knows_calls snapshot (tool_calls (mr_parts response))"
    and "list_all typed_tool (lr_tools env)"
  shows "wp (handle_response ser enc env snapshot revision response l) (turn_post s)
     (crash s (list_all (calm_tool (rn_options s)) (lr_tools env))) s"
proof -
  define usage where "usage = (case mr_usage response of Some u \<Rightarrow> u | None \<Rightarrow> Usage_default)"
  define added where "added = UsageAccumulator_add (ll_usage l) usage"
  define l' where "l' = l\<lparr>ll_usage := fst added\<rparr>"
  define a where "a = \<lparr>ah_loop_id = rn_id s, ah_request_index = ll_request_index l,
        ah_model = md_model_ref (ec_descriptor snapshot), ah_reasoning = ec_reasoning snapshot,
        ah_content = mr_parts response, ah_provider_replay = mr_provider_replay response,
        ah_finish_reason = mr_finish_reason response, ah_usage = usage\<rparr>"
  define t where "t = s\<lparr>rn_working := append_assistant a (rn_working s)\<rparr>"
  obtain e where e: "unsupported_finish = Some e" using unsupported_finish_Some by blast
  have inv: "loop_inv s l'" using assms(1) by (simp add: l'_def loop_inv_def issue_ok_def)
  have t: "keeps s t" "adds s t [HI_Assistant a]" "rn_control t = rn_control s" "rn_id t = rn_id s"
    "max_output t = max_output s" "rn_options t = rn_options s"
    by (simp_all add: t_def keeps_def adds_def append_assistant_def max_output_def)
  have a: "ah_loop_id a = rn_id s" "assistant_ok a" "ah_content a = mr_parts response"
    "ah_request_index a = ll_request_index l'" "ah_finish_reason a = mr_finish_reason response"
    using assms(2) by (simp_all add: a_def assistant_ok_def response_ok_def l'_def)
  have "open_turn t l' (tool_calls (mr_parts response))"
    using inv t a(1) transcript.turn [OF _ a(1,2), of "max_output s" "wh_appended (rn_working s)"]
    by (auto simp: open_turn_def loop_inv_def adds_def a(3,4))
  note opened = this
  have round: "wp (tool_round ser enc env snapshot revision (tool_calls (mr_parts response)) l') (turn_post s)
     (crash s (list_all (calm_tool (rn_options s)) (lr_tools env))) t"
    using wp_turn_lift [OF tool_round_wp [OF opened assms(3,4)] stays_keeps [OF t(1)] t(2)] t(6) by simp
  have final: "loop_inv t l'" if "tool_calls (mr_parts response) = []"
    using open_turn_settled [OF opened keeps_refl, of "[]" l'] opened that
    by (simp add: open_turn_def)
  have final_post: "turn_post s (Stop p l') (if p = FP_Completed
      then t\<lparr>rn_control := fst (begin_final (rn_control t))\<rparr> else t)"
    if calls: "tool_calls (mr_parts response) = []" and p: "no_tool_finish (mr_finish_reason response) = Some p" for p
  proof -
    have path: "p \<in> {FP_Completed, FP_OutputLimit, FP_Refused, FP_ContentFiltered}"
      "p = FP_Completed \<longrightarrow> mr_finish_reason response = FR_Stop"
      using p by (auto simp: no_tool_finish_def split: ModelFinishReason.splits)
    define u where "u = (if p = FP_Completed then t\<lparr>rn_control := fst (begin_final (rn_control t))\<rparr> else t)"
    have q: "quiet (rn_control t)" using final [OF calls] by (simp add: loop_inv_def)
    have u: "keeps t u" "quiet (rn_control u)" "rn_working u = rn_working t"
      using q begin_final_quiet by (auto simp: u_def keeps_def)
    have "adds s u [HI_Assistant a]" using t(2) u(3) by (simp add: adds_def)
    moreover have "stays s u" using t(1) u(1) by (blast intro: stays_keeps keeps_trans)
    moreover have "loop_inv u l'" using loop_inv_keeps [OF final [OF calls] u] .
    moreover have "stop_ok u l' p" using path calls a(3,5) \<open>adds s u [HI_Assistant a]\<close> by (auto simp: stop_ok_def adds_def)
    ultimately show ?thesis by (auto simp: turn_post_def u_def [symmetric])
  qed
  have unfold: "handle_response ser enc env snapshot revision response l =
     (if \<not> is_ok (snd added) then return_run (Stop FP_Internal l')
      else if tool_calls (mr_parts response) = [] then
        (case no_tool_finish (mr_finish_reason response) of
           None \<Rightarrow> bind_run (expect_run unsupported_finish) (\<lambda>e. return_run (Stop (FP_InvalidModelResponse e) l'))
         | Some path \<Rightarrow>
             then_run (append_response (ll_request_index l) snapshot response usage)
             (then_run (if path = FP_Completed then on_control (\<lambda>c. fst (begin_final c)) else return_run ())
               (return_run (Stop path l'))))
      else
        then_run (append_response (ll_request_index l) snapshot response usage)
          (tool_round ser enc env snapshot revision (tool_calls (mr_parts response)) l'))"
    unfolding handle_response_def Let_def usage_def added_def l'_def by (rule refl)
  have append: "wp (append_response (ll_request_index l) snapshot response usage) Q E s = Q () t" for Q E
    by (simp add: append_response_def t_def a_def)
  have stop: "turn_post s (Stop p l') s" if "p \<notin> {FP_Interaction, FP_Cancelled, FP_MaxToolRounds, FP_Completed}" for p
    using inv that by (auto simp: turn_post_def stop_ok_def intro: adds_simps(1))
  show ?thesis
  proof (cases "is_ok (snd added) \<and> tool_calls (mr_parts response) = []")
    case True
    then show ?thesis
      using stop final_post by (auto simp: unfold append e split: option.splits)
  next
    case False
    then show ?thesis using stop round by (auto simp: unfold append)
  qed
qed

lemma model_failure_stop:
  "\<lbrakk>cancelled \<longrightarrow> lc_cancel (rn_control s)\<rbrakk> \<Longrightarrow> stop_ok s l (map_model_failure cancelled f)"
  by (auto simp: stop_ok_def map_model_failure_def)

lemma saturating_add_pos: "saturating_add (n :: u32) 1 \<noteq> 0"
  using unat_saturating_add [of n 1] by auto

lemma issue_request_wp:
  assumes "loop_inv s l" "tool_set_ok (ec_tools snapshot)" "mq_tools request = ts_specs (ec_tools snapshot)"
    and "typed_model (lr_model env)" "list_all typed_tool (lr_tools env)"
  shows "wp (issue_request parse ser enc env snapshot request l) (turn_post s)
     (crash s (calm_model (rn_options s) (lr_model env) \<and> list_all (calm_tool (rn_options s)) (lr_tools env))) s"
proof -
  define revision where "revision = (case ll_candidate_revision l of Some r \<Rightarrow> r | None \<Rightarrow> ll_issued_revision l)"
  define l' where "l' = l\<lparr>ll_issued_revision := revision, ll_candidate_revision := None,
      ll_requests := saturating_add (ll_requests l) 1, ll_last_issued_request_index := Some (ll_request_index l)\<rparr>"
  define model where "model = md_model_ref (ec_descriptor snapshot)"
  define st where "st = round_state (rn_id s) LS_RunningModel (ll_request_index l) revision (Some model)"
  define t where "t = s\<lparr>rn_control := publish_state st (commit_revision revision (rn_control s)),
      rn_sink := try_emit (EV_StateChanged st) (try_emit (EV_RequestStarted (rn_id s) (ll_request_index l) revision model
        (ec_reasoning snapshot)) (rn_sink s))\<rparr>"
  have t: "stays s t" "adds s t []" "loop_inv t l'" "rn_options t = rn_options s"
    using assms(1)
    by (simp_all add: t_def stays_def adds_def loop_inv_def l'_def commit_revision_def publish_state_def
        applied_revision_def quiet_def live_def max_output_def issue_ok_def saturating_add_pos)
  let ?calm = "calm_model (rn_options s) (lr_model env) \<and> list_all (calm_tool (rn_options s)) (lr_tools env)"
  have q: "quiet (rn_control t)" "options_ok (rn_options t)" using t(3) by (simp_all add: loop_inv_def)
  have body: "wp (bind_run (run_model parse ser (ll_request_index l) snapshot request deadline (lr_model env)) (\<lambda>result.
        case result of
          Err f \<Rightarrow>
            bind_run (gets_run (\<lambda>s. lc_cancel (rn_control s))) (\<lambda>cancelled.
            return_run (Stop (map_model_failure cancelled f) l'))
        | Ok response \<Rightarrow> handle_response ser enc env snapshot revision response l'))
      (turn_post t) (crash t ?calm) t" for deadline
  proof (rule wp_bindI [OF run_model_wp [OF q assms(4)]], goal_cases)
    case (1 result u)
    then have u: "keeps t u" "quiet (rn_control u)" "rn_working u = rn_working t" by (simp_all add: model_post_def)
    have inv: "loop_inv u l'" by (rule loop_inv_keeps [OF t(3) u])
    have add: "adds t u []" using u(3) by (simp add: adds_def)
    have opts: "rn_options u = rn_options s" using u(1) t(4) by (simp add: keeps_def)
    show ?case
    proof (cases result)
      case (Ok response)
      then have resp: "response_ok response" "knows_calls snapshot (tool_calls (mr_parts response))"
        using 1 assms(2,3) by (simp_all add: model_post_def knows_response_calls)
      show ?thesis
        using wp_turn_lift [OF handle_response_wp [OF inv resp assms(5)] stays_keeps [OF u(1)] add, of ?calm] opts Ok
        by simp
    next
      case (Err f)
      then show ?thesis
        using inv add stays_keeps [OF u(1)] model_failure_stop [of "lc_cancel (rn_control u)" u l' f]
        by (auto simp: turn_post_def)
    qed
  next
    case (2 u)
    then show ?case using t(4) by (auto simp: crash_def intro: stays_keeps)
  qed
  have run: "wp (bind_run (with_state (\<lambda>s. expect_run (turn_deadline (lm_now_turn (lr_model env)) (lo_deadline (rn_options s))))) (\<lambda>deadline.
        bind_run (run_model parse ser (ll_request_index l) snapshot request deadline (lr_model env)) (\<lambda>result.
        case result of
          Err f \<Rightarrow>
            bind_run (gets_run (\<lambda>s. lc_cancel (rn_control s))) (\<lambda>cancelled.
            return_run (Stop (map_model_failure cancelled f) l'))
        | Ok response \<Rightarrow> handle_response ser enc env snapshot revision response l')))
      (turn_post t) (crash t ?calm) t"
  proof (cases "turn_deadline (lm_now_turn (lr_model env)) (lo_deadline (rn_options s))")
    case None
    then show ?thesis using t(4) q by (simp add: crash_def calm_model_def)
  next
    case (Some d)
    then show ?thesis using body [of d] t(4) by simp
  qed
  show ?thesis
    using wp_turn_lift [OF run t(1,2)]
    by (simp add: issue_request_def Let_def t_def st_def model_def l'_def revision_def cong: option.case_cong)
qed

lemma boundary_inv:
  assumes "loop_inv s l" "keeps s t" "quiet (rn_control t)" "adds s t (steering (rn_id s) given)" "rebased l l'"
  shows "loop_inv t l'"
  using assms transcript_steering [of "rn_id s" "max_output s" "wh_appended (rn_working s)" given]
  by (auto simp: loop_inv_def keeps_def core_def applied_revision_def max_output_def adds_def rebased_def
      issue_ok_def)

text \<open>From the second boundary on.\<close>

lemma issue_phase_wp:
  assumes "loop_inv s l" "typed_round env"
  shows "wp (bind_run (take_boundary (lr_inputs_stale env) l) (\<lambda>(taken, l2).
              if taken then return_run (Again l2)
              else case build_model_request messages (ll_config l) of
                Err _ \<Rightarrow> return_run (Stop FP_Prompt l2)
              | Ok request \<Rightarrow> issue_request parse ser enc env (ll_config l) request l2))
     (turn_post s) (crash s (calm_round (rn_options s) env)) s"
proof (rule wp_bindI [OF take_boundary_wp], goal_cases)
  case 1
  show ?case using assms(1) by (simp add: loop_inv_def)
next
  case (2 r t)
  obtain taken l2 where r: "r = (taken, l2)" by fastforce
  with 2 obtain given where t: "keeps s t" "quiet (rn_control t)" "adds s t (steering (rn_id s) given)" "rebased l l2"
    and same: "\<not> taken \<Longrightarrow> l2 = l" by auto
  have inv: "loop_inv t l2" by (rule boundary_inv [OF assms(1) t])
  have opts: "rn_options t = rn_options s" using t(1) by (simp add: keeps_def)
  show ?case
  proof (cases "taken \<or> \<not> is_ok (build_model_request messages (ll_config l))")
    case True
    then show ?thesis
      using inv t(3) stays_keeps [OF t(1)]
      by (auto simp: r turn_post_def stop_ok_def is_ok_def split: result.splits)
  next
    case False
    then obtain request where request: "build_model_request messages (ll_config l) = Ok request"
      by (auto simp: is_ok_iff)
    then have tools: "mq_tools request = ts_specs (ec_tools (ll_config l))"
      by (auto simp: build_model_request_def ModelRequest_with_validated_tools_def and_then_eq_Ok split: if_splits)
    have set: "tool_set_ok (ec_tools (ll_config l))" using assms(1) by (simp add: loop_inv_def)
    have env: "typed_model (lr_model env)" "list_all typed_tool (lr_tools env)"
      using assms(2) by (simp_all add: typed_round_def)
    show ?thesis
      using wp_turn_lift [OF issue_request_wp [OF inv set tools env] stays_keeps [OF t(1)] t(3), of "calm_round (rn_options s) env"]
        False request opts
      by (simp add: r calm_round_def)
  qed
next
  case (3 t)
  then show ?case by (auto simp: crash_def calm_round_def intro: stays_keeps)
qed

lemma interfere_inv:
  assumes "loop_inv s l" "list_all typed_op ops" "t = s\<lparr>rn_control := fold (act ser) ops (rn_control s)\<rparr>"
  shows "keeps s t" "loop_inv t l" "rn_working t = rn_working s"
proof -
  show "keeps s t" "rn_working t = rn_working s" by (simp_all add: assms(3) keeps_def)
  moreover have "quiet (rn_control t)"
    using quiet.acts_stable assms by (auto simp: loop_inv_def)
  ultimately show "loop_inv t l" by (intro loop_inv_keeps [OF assms(1)])
qed

text \<open>From the first boundary on.\<close>

lemma prompt_phase_wp:
  assumes "loop_inv s l" "typed_round env" "deadline = lo_deadline (rn_options s)" "ident = rn_id s"
  shows "wp (then_run (publish (LoopState_new ident LS_Starting (ll_request_index l) (ll_issued_revision l)))
        (bind_run (expect_run (turn_deadline (lv_now_turn (lr_prompt env)) deadline)) (\<lambda>prompt_deadline.
         bind_run (prepare_prompt ser prompt_deadline (lr_prompt env)) (\<lambda>prep.
         case prep of
           PP_End path \<Rightarrow> return_run (Stop path l)
         | PP_Ready messages \<Rightarrow>
             then_run (interfere ser (lr_ops_stale env))
             (bind_run (take_boundary (lr_inputs_stale env) l) (\<lambda>(taken, l2).
              if taken then return_run (Again l2)
              else case build_model_request messages (ll_config l) of
                Err _ \<Rightarrow> return_run (Stop FP_Prompt l2)
              | Ok request \<Rightarrow> issue_request parse ser enc env (ll_config l) request l2))))))
     (turn_post s) (crash s (calm_round (rn_options s) env)) s"
proof (cases "turn_deadline (lv_now_turn (lr_prompt env)) deadline")
  case None
  then show ?thesis
    using assms by (auto simp: crash_def calm_round_def stays_def loop_inv_def publish_state_def quiet_def live_def)
next
  case (Some d)
  let ?st = "LoopState_new ident LS_Starting (ll_request_index l) (ll_issued_revision l)"
  define t where "t = s\<lparr>rn_control := publish_state ?st (rn_control s),
      rn_sink := try_emit (EV_StateChanged ?st) (rn_sink s)\<rparr>"
  have t: "keeps s t" "rn_working t = rn_working s" "quiet (rn_control t)"
    using assms(1) by (simp_all add: t_def keeps_def loop_inv_def)
  have tinv: "loop_inv t l" using loop_inv_keeps [OF assms(1) t(1,3,2)] .
  have env: "typed_call (lr_prompt env)" "list_all typed_op (lr_ops_stale env)" using assms(2) by (simp_all add: typed_round_def)
  have "wp (bind_run (prepare_prompt ser d (lr_prompt env)) (\<lambda>prep.
         case prep of
           PP_End path \<Rightarrow> return_run (Stop path l)
         | PP_Ready messages \<Rightarrow>
             then_run (interfere ser (lr_ops_stale env))
             (bind_run (take_boundary (lr_inputs_stale env) l) (\<lambda>(taken, l2).
              if taken then return_run (Again l2)
              else case build_model_request messages (ll_config l) of
                Err _ \<Rightarrow> return_run (Stop FP_Prompt l2)
              | Ok request \<Rightarrow> issue_request parse ser enc env (ll_config l) request l2))))
     (turn_post s) (crash s (calm_round (rn_options s) env)) t"
  proof (rule wp_bindI [OF prepare_prompt_wp [OF t(3) env(1)]], goal_cases)
    case (1 prep u)
    then have u: "keeps t u" "quiet (rn_control u)" "rn_working u = rn_working t" by simp_all
    have inv: "loop_inv u l" using loop_inv_keeps [OF tinv u] .
    have su: "stays s u" "adds s u []" using t u by (auto simp: adds_def intro: stays_keeps keeps_trans)
    show ?case
    proof (cases prep)
      case (PP_End p)
      then show ?thesis using 1 inv su by (auto simp: turn_post_def stop_ok_def)
    next
      case (PP_Ready messages)
      define v where "v = u\<lparr>rn_control := fold (act ser) (lr_ops_stale env) (rn_control u)\<rparr>"
      note v = interfere_inv [OF inv env(2) v_def]
      have sv: "stays s v" "adds s v []" "rn_options v = rn_options s"
        using su v(1,3) stays_trans [OF su(1) stays_keeps] by (auto simp: adds_def stays_def keeps_def)
      show ?thesis
        using wp_turn_lift [OF issue_phase_wp [OF v(2) assms(2)] sv(1,2), of "calm_round (rn_options s) env"] sv(3)
        unfolding PP_Ready PromptPrep.case wp_simps(5) wp_control_steps(6) v_def [symmetric] by simp
    qed
  qed simp
  then show ?thesis unfolding wp_simps(5) wp_control_steps(5) t_def [symmetric] by (simp add: Some)
qed

lemma loop_turn_wp:
  assumes "loop_inv s l" "typed_round env"
  shows "wp (loop_turn parse ser enc env l) (turn_post s) (crash s (calm_round (rn_options s) env)) s"
proof -
  define t where "t = s\<lparr>rn_control := fold (act ser) (lr_ops env) (rn_control s)\<rparr>"
  have ops: "list_all typed_op (lr_ops env)" using assms(2) by (simp add: typed_round_def)
  note t = interfere_inv [OF assms(1) ops t_def]
  have st: "stays s t" "adds s t []" "rn_options t = rn_options s" "quiet (rn_control t)"
    using t stays_keeps [OF t(1)] by (auto simp: adds_def keeps_def loop_inv_def)
  let ?deadline = "lo_deadline (rn_options t)"
  show ?thesis
  proof (cases "lc_cancel (rn_control t) \<or> (case ?deadline of Some d \<Rightarrow> d \<le> lr_now env | None \<Rightarrow> False)")
    case True
    then show ?thesis
      using t(2) st(1,2)
      unfolding loop_turn_def wp_simps(5) wp_control_steps(6) t_def [symmetric]
      by (auto simp: turn_post_def stop_ok_def)
  next
    case False
    have "wp (bind_run (take_boundary (lr_inputs env) l) (\<lambda>(_, l1).
        then_run (publish (LoopState_new (rn_id t) LS_Starting (ll_request_index l1) (ll_issued_revision l1)))
        (bind_run (expect_run (turn_deadline (lv_now_turn (lr_prompt env)) ?deadline)) (\<lambda>prompt_deadline.
         bind_run (prepare_prompt ser prompt_deadline (lr_prompt env)) (\<lambda>prep.
         case prep of
           PP_End path \<Rightarrow> return_run (Stop path l1)
         | PP_Ready messages \<Rightarrow>
             then_run (interfere ser (lr_ops_stale env))
             (bind_run (take_boundary (lr_inputs_stale env) l1) (\<lambda>(taken, l2).
              if taken then return_run (Again l2)
              else case build_model_request messages (ll_config l1) of
                Err _ \<Rightarrow> return_run (Stop FP_Prompt l2)
              | Ok request \<Rightarrow> issue_request parse ser enc env (ll_config l1) request l2)))))))
        (turn_post t) (crash t (calm_round (rn_options s) env)) t"
    proof (rule wp_bindI [OF take_boundary_wp [OF st(4)]], goal_cases)
      case (1 r u)
      obtain x l1 where r: "r = (x, l1)" by fastforce
      with 1 obtain given where u: "keeps t u" "quiet (rn_control u)" "adds t u (steering (rn_id t) given)" "rebased l l1"
        by auto
      have inv: "loop_inv u l1" by (rule boundary_inv [OF t(2) u])
      have same: "rn_options u = rn_options s" "rn_id t = rn_id u" "?deadline = lo_deadline (rn_options u)"
        using u(1) st(3) by (simp_all add: keeps_def)
      show ?case
        using wp_turn_lift [OF prompt_phase_wp [OF inv assms(2) same(3,2)] stays_keeps [OF u(1)] u(3)] same(1)
        unfolding r prod.case by simp
    next
      case (2 u)
      then show ?case by (auto simp: crash_def calm_round_def intro: stays_keeps)
    qed
    from wp_turn_lift [OF this st(1,2)] False show ?thesis
      unfolding loop_turn_def wp_simps(5) wp_control_steps(6) t_def [symmetric]
      by simp
  qed
qed

subsection \<open>Lemmas: the whole run\<close>

definition turns_post ::
  "('m, 't, 'p, 'q) runner \<Rightarrow> FailPath \<times> ('m, 't, 'p, 'q) LoopLocals \<Rightarrow> ('m, 't, 'p, 'q) runner \<Rightarrow> bool" where
  "turns_post s r s' \<longleftrightarrow> stays s s' \<and> (\<exists>items. adds s s' items) \<and> loop_inv s' (snd r) \<and> stop_ok s' (snd r) (fst r)"

lemma run_turns_wp:
  assumes "loop_inv s l" "list_all typed_round envs"
  shows "wp (run_turns parse ser enc envs l) (turns_post s) (crash s (list_all (calm_round (rn_options s)) envs)) s"
  using assms
proof (induction envs arbitrary: s l)
  case (Cons env envs)
  have typed: "typed_round env" "list_all typed_round envs" using Cons.prems(2) by simp_all
  show ?case
    unfolding run_turns.simps
  proof (rule wp_bindI [OF loop_turn_wp [OF Cons.prems(1) typed(1)]], goal_cases)
    case (1 r t)
    then obtain items where t: "stays s t" "adds s t items" by (auto simp: turn_post_def)
    have opts: "rn_options t = rn_options s" using t(1) by (simp add: stays_def)
    show ?case
    proof (cases r)
      case (Again l')
      have "wp (run_turns parse ser enc envs l') (turns_post t) (crash t (list_all (calm_round (rn_options t)) envs)) t"
        using Cons.IH [OF _ typed(2)] 1 Again by (simp add: turn_post_def)
      then have "wp (run_turns parse ser enc envs l') (turns_post s)
          (crash s (list_all (calm_round (rn_options s)) (env # envs))) t"
        by (rule wp_mono) (use t opts in \<open>auto simp: turns_post_def crash_def intro: stays_trans adds_simps(2)\<close>)
      then show ?thesis by (simp add: Again)
    next
      case (Stop p l')
      then show ?thesis using 1 t by (auto simp: turn_post_def turns_post_def)
    qed
  next
    case (2 t)
    then show ?case by (auto simp: crash_def)
  qed
qed simp

lemma finish_once_live:
  assumes "live c"
  obtains seal d c' where "finish_once c = Some (c', seal, d)" "is_finished c'" "\<not> cs_accepting_updates (lc_inner c')"
    "lc_id c' = lc_id c" "lc_completion c' = lc_completion c" "lc_state_tx c' = lc_state_tx c"
    "seal = (if lc_state c = STATE_NONE then Seal_Clean else Seal_CancelledPrior (cancel_reason c))"
  using assms
  by (auto simp: live_def finish_once_def close_accepting_def seal_exchange_simps states_distinct is_finished_def
      cancel_reason_def)

text \<open>What an ended loop looks like from outside.\<close>

definition concluded :: "LoopReport \<Rightarrow> ('m, 't, 'p, 'q) control \<Rightarrow> bool" where
  "concluded report c \<longleftrightarrow> published_report c = Some report \<and> is_finished c \<and> lc_cancel c
     \<and> \<not> cs_accepting_updates (lc_inner c) \<and> lst_status (current_state c) = LS_Finished
     \<and> lst_pending_interaction (current_state c) = None"

text \<open>The outcome the seal decides on: a cancellation that came first, or what the runner intends.\<close>

definition sealed_outcome :: "('m, 't, 'p, 'q) control \<Rightarrow> LoopOutcome \<Rightarrow> LoopOutcome" where
  "sealed_outcome c intended = (if lc_state c = STATE_NONE then intended else LO_Cancelled (cancel_reason c))"

lemma finish_loop_run:
  assumes "loop_inv s l" "list_all typed_op between"
  obtains intended report s' where "outcome_for (rn_control s) path = Some intended"
    "finish_loop ser between path l s = (Done report, s')" "concluded report (rn_control s')"
    "report = \<lparr>rep_loop_id = rn_id s,
       rep_outcome = sealed_outcome (fold (act ser) between (rn_control s)) intended,
       rep_appended = wh_appended (rn_working s), rep_usage = UsageAccumulator_finish (ll_usage l),
       rep_requests = ll_requests l, rep_tool_rounds = ll_tool_rounds l,
       rep_final_config_revision = applied_revision (rn_control s)\<rparr>"
proof -
  obtain intended where intended: "outcome_for (rn_control s) path = Some intended" by (rule outcome_for_Some)
  define c where "c = fold (act ser) between (rn_control s)"
  have "live c" using live.acts_stable [of "rn_control s"] assms by (simp add: c_def loop_inv_def quiet_def)
  then obtain seal d c' where c': "finish_once c = Some (c', seal, d)" "is_finished c'" "\<not> cs_accepting_updates (lc_inner c')"
    "seal = (if lc_state c = STATE_NONE then Seal_Clean else Seal_CancelledPrior (cancel_reason c))"
    by (rule finish_once_live) blast
  have "\<exists>s'. finish_loop ser between path l s = (Done \<lparr>rep_loop_id = rn_id s,
       rep_outcome = sealed_outcome c intended,
       rep_appended = wh_appended (rn_working s), rep_usage = UsageAccumulator_finish (ll_usage l),
       rep_requests = ll_requests l, rep_tool_rounds = ll_tool_rounds l,
       rep_final_config_revision = applied_revision (rn_control s)\<rparr>, s')
     \<and> concluded \<lparr>rep_loop_id = rn_id s,
       rep_outcome = sealed_outcome c intended,
       rep_appended = wh_appended (rn_working s), rep_usage = UsageAccumulator_finish (ll_usage l),
       rep_requests = ll_requests l, rep_tool_rounds = ll_tool_rounds l,
       rep_final_config_revision = applied_revision (rn_control s)\<rparr> (rn_control s')"
    using c'
    by (auto simp: finish_loop_def run_defs intended finish_once_run_def c_def [symmetric] Let_def sealed_outcome_def
        publish_final_states_def complete_def into_appended_def concluded_def published_report_def is_finished_def
        publish_state_def current_state_def cancel_token_def round_state_def)
  with intended that show thesis unfolding c_def by blast
qed

definition start_ok :: "('m, 't, 'p, 'q) runner \<Rightarrow> ('m, 't, 'p, 'q) LoopRequest \<Rightarrow> bool" where
  "start_ok s request \<longleftrightarrow> quiet (rn_control s) \<and> options_ok (rn_options s)
     \<and> lc_id (rn_control s) = rn_id s \<and> lc_completion (rn_control s) = None
     \<and> applied_revision (rn_control s) = ConfigRevision_INITIAL
     \<and> tool_set_ok (ec_tools (lq_config request))"

definition typed_loop :: "('m, 't, 'p, 'q) others live_loop \<Rightarrow> bool" where
  "typed_loop env \<longleftrightarrow> list_all typed_round (ln_rounds env) \<and> list_all typed_op (ln_between env)
     \<and> list_all typed_op (ln_panic env)"

definition initial_locals :: "('m, 't, 'p, 'q) LoopRequest \<Rightarrow> ('m, 't, 'p, 'q) LoopLocals" where
  "initial_locals request =
     \<lparr>ll_config = lq_config request, ll_issued_revision = ConfigRevision_INITIAL, ll_candidate_revision = None,
      ll_request_index = 0, ll_tool_rounds = 0, ll_requests = 0, ll_last_issued_request_index = None,
      ll_usage = UsageAccumulator_default\<rparr>"

definition first_input :: "LoopId \<Rightarrow> ('m, 't, 'p, 'q) LoopRequest \<Rightarrow> HistoryItem" where
  "first_input ident request = HI_User \<lparr>uh_loop_id = ident, uh_kind = UK_Prompt, uh_input = lq_input request\<rparr>"

definition opened :: "('m, 't, 'p, 'q) runner \<Rightarrow> ('m, 't, 'p, 'q) LoopRequest \<Rightarrow> ('m, 't, 'p, 'q) runner" where
  "opened s request = s\<lparr>rn_sink := try_emit (EV_Started (rn_id s)) (rn_sink s),
     rn_working := \<lparr>wh_base = lq_history request, wh_appended = [first_input (rn_id s) request]\<rparr>\<rparr>"

lemma run_loop_inner_opened:
  "run_loop_inner parse ser enc env request s =
     bind_run (run_turns parse ser enc (ln_rounds env) (initial_locals request))
       (\<lambda>(path, l). finish_loop ser (ln_between env) path l) (opened s request)"
  by (simp add: run_loop_inner_def run_defs opened_def initial_locals_def first_input_def append_user_def
      WorkingHistory_new_def)

lemma opened_inv:
  assumes "start_ok s request"
  shows "loop_inv (opened s request) (initial_locals request)"
proof -
  have "transcript (rn_id s) (max_output s) ([] @ [first_input (rn_id s) request])"
    unfolding first_input_def by (intro transcript.intros) simp
  with assms show ?thesis
    by (simp add: start_ok_def loop_inv_def opened_def initial_locals_def max_output_def issue_ok_def round_bound_def)
qed

lemma panic_report_run:
  assumes "quiet (rn_control s)" "list_all typed_op others"
  obtains f s' where "panic_report ser others s = (Done \<lparr>rep_loop_id = lc_id (rn_control s), rep_outcome = LO_Failed f,
       rep_appended = [], rep_usage = Usage_default, rep_requests = 0, rep_tool_rounds = 0,
       rep_final_config_revision = ConfigRevision_INITIAL\<rparr>, s')"
    "concluded \<lparr>rep_loop_id = lc_id (rn_control s), rep_outcome = LO_Failed f,
       rep_appended = [], rep_usage = Usage_default, rep_requests = 0, rep_tool_rounds = 0,
       rep_final_config_revision = ConfigRevision_INITIAL\<rparr> (rn_control s')"
    "lf_kind f = LF_Internal"
proof -
  define c where "c = fold (act ser) others (rn_control s)"
  have "live c" using live.acts_stable [of "rn_control s"] assms by (simp add: c_def quiet_def)
  then obtain seal d c' where c': "finish_once c = Some (c', seal, d)" "is_finished c'" "\<not> cs_accepting_updates (lc_inner c')"
    "seal = (if lc_state c = STATE_NONE then Seal_Clean else Seal_CancelledPrior (cancel_reason c))"
    by (rule finish_once_live) blast
  have "lc_id c = lc_id (rn_control s)" using acts_core [of ser others "rn_control s"] by (simp add: c_def core_def)
  with c' that show thesis
    by (auto simp: panic_report_def run_defs finish_once_run_def c_def [symmetric] Let_def complete_def concluded_def
        published_report_def is_finished_def publish_state_def current_state_def cancel_token_def LoopState_new_def)
qed

lemma run_loop_result:
  assumes "start_ok s request" "typed_loop env" "run_loop parse ser enc env request s = (r, s')"
  obtains (pending) "r = Pending" "fst (run_loop_inner parse ser enc env request s) = Pending"
  | (finished) t path l intended report where "turns_post (opened s request) (path, l) t"
      "outcome_for (rn_control t) path = Some intended" "r = Done report" "concluded report (rn_control s')"
      "report = \<lparr>rep_loop_id = rn_id s,
         rep_outcome = sealed_outcome (fold (act ser) (ln_between env) (rn_control t)) intended,
         rep_appended = wh_appended (rn_working t), rep_usage = UsageAccumulator_finish (ll_usage l),
         rep_requests = ll_requests l, rep_tool_rounds = ll_tool_rounds l,
         rep_final_config_revision = ll_issued_revision l\<rparr>"
      "fst (run_loop_inner parse ser enc env request s) = Done report"
  | (panicked) f report where "r = Done report" "concluded report (rn_control s')"
      "report = \<lparr>rep_loop_id = rn_id s, rep_outcome = LO_Failed f, rep_appended = [], rep_usage = Usage_default,
         rep_requests = 0, rep_tool_rounds = 0, rep_final_config_revision = ConfigRevision_INITIAL\<rparr>"
      "lf_kind f = LF_Internal" "\<not> list_all (calm_round (rn_options s)) (ln_rounds env)"
proof -
  let ?o = "opened s request"
  have env: "list_all typed_round (ln_rounds env)" "list_all typed_op (ln_between env)" "list_all typed_op (ln_panic env)"
    using assms(2) by (simp_all add: typed_loop_def)
  note turns = run_turns_wp [OF opened_inv [OF assms(1)] env(1), of parse ser enc]
  obtain x t where run: "run_turns parse ser enc (ln_rounds env) (initial_locals request) ?o = (x, t)" by fastforce
  have opened: "rn_options ?o = rn_options s" "rn_control ?o = rn_control s" "rn_id ?o = rn_id s"
    by (simp_all add: opened_def)
  show thesis
  proof (cases x)
    case (Done pl)
    obtain path l where pl: "pl = (path, l)" by fastforce
    have post: "turns_post ?o (path, l) t" using wp_Done [OF turns] run Done pl by blast
    then have inv: "loop_inv t l" "rn_id t = rn_id s" "applied_revision (rn_control t) = ll_issued_revision l"
      by (auto simp: turns_post_def stays_def opened loop_inv_def)
    obtain intended report u where fin: "outcome_for (rn_control t) path = Some intended"
      "finish_loop ser (ln_between env) path l t = (Done report, u)" "concluded report (rn_control u)"
      "report = \<lparr>rep_loop_id = rn_id t,
       rep_outcome = sealed_outcome (fold (act ser) (ln_between env) (rn_control t)) intended,
       rep_appended = wh_appended (rn_working t), rep_usage = UsageAccumulator_finish (ll_usage l),
       rep_requests = ll_requests l, rep_tool_rounds = ll_tool_rounds l,
       rep_final_config_revision = applied_revision (rn_control t)\<rparr>"
      by (rule finish_loop_run [OF inv(1) env(2)])
    have "run_loop_inner parse ser enc env request s = (Done report, u)"
      using fin(2) by (simp add: run_loop_inner_opened bind_run_def run Done pl)
    with assms(3) have "r = Done report" "s' = u" "fst (run_loop_inner parse ser enc env request s) = Done report"
      by (simp_all add: run_loop_def)
    with post fin inv finished show thesis by metis
  next
    case Pending
    with assms(3) pending show thesis by (simp add: run_loop_def run_loop_inner_opened bind_run_def run)
  next
    case Aborted
    have crash: "crash ?o (list_all (calm_round (rn_options s)) (ln_rounds env)) t"
      using wp_Aborted [OF turns] run Aborted opened by simp
    then have q: "quiet (rn_control t)" "lc_id (rn_control t) = rn_id s"
      "\<not> list_all (calm_round (rn_options s)) (ln_rounds env)"
      using assms(1) opened by (auto simp: crash_def stays_def start_ok_def)
    obtain f u where "panic_report ser (ln_panic env) t = (Done \<lparr>rep_loop_id = lc_id (rn_control t), rep_outcome = LO_Failed f,
       rep_appended = [], rep_usage = Usage_default, rep_requests = 0, rep_tool_rounds = 0,
       rep_final_config_revision = ConfigRevision_INITIAL\<rparr>, u)"
      "concluded \<lparr>rep_loop_id = lc_id (rn_control t), rep_outcome = LO_Failed f,
       rep_appended = [], rep_usage = Usage_default, rep_requests = 0, rep_tool_rounds = 0,
       rep_final_config_revision = ConfigRevision_INITIAL\<rparr> (rn_control u)" "lf_kind f = LF_Internal"
      by (rule panic_report_run [OF q(1) env(3)])
    with assms(3) q(2,3) panicked show thesis
      by (auto simp: run_loop_def run_loop_inner_opened bind_run_def run Aborted)
  qed
qed

end
