(* ===== verification/Observers.thy ===== *)
theory Observers
  imports Runner
begin

text \<open>
  Events are observation only.  A step is \<open>blind\<close> when neither its result nor the state it leaves,
  the event sink apart, depends on the sink it starts with.  The building blocks of the runner are
  blind, sequencing keeps blindness, and so every phase and the whole run are blind.
\<close>

subsection \<open>Blind steps\<close>

definition blind :: "('m, 't, 'p, 'q, 'a) step \<Rightarrow> bool" where
  "blind f \<longleftrightarrow> (\<forall>s k. \<exists>k'. f (s\<lparr>rn_sink := k\<rparr>) = (fst (f s), (snd (f s))\<lparr>rn_sink := k'\<rparr>))"

named_theorems blind_steps

lemma blindD: "blind f \<Longrightarrow> \<exists>k'. f (s\<lparr>rn_sink := k\<rparr>) = (fst (f s), (snd (f s))\<lparr>rn_sink := k'\<rparr>)"
  by (simp add: blind_def)

lemma blind_return [blind_steps]: "blind (return_run a)"
  by (auto simp: blind_def return_run_def)

lemma blind_lift [blind_steps]: "blind (lift_run r)"
  by (auto simp: blind_def lift_run_def)

lemma blind_expect [blind_steps]: "blind (expect_run x)"
  by (simp add: expect_run_def blind_lift)

lemma blind_bind [blind_steps]:
  assumes "blind f" "\<And>a. blind (g a)"
  shows "blind (bind_run f g)"
  unfolding blind_def
proof (intro allI)
  fix s k
  obtain r t where f: "f s = (r, t)" by fastforce
  obtain k' where k': "f (s\<lparr>rn_sink := k\<rparr>) = (r, t\<lparr>rn_sink := k'\<rparr>)" using blindD [OF assms(1), where s = s and k = k] f by auto
  show "\<exists>k'. bind_run f g (s\<lparr>rn_sink := k\<rparr>) = (fst (bind_run f g s), (snd (bind_run f g s))\<lparr>rn_sink := k'\<rparr>)"
    using blindD [OF assms(2), where s = t and k = k'] f k' by (cases r) (auto simp: bind_run_def)
qed

lemma blind_then [blind_steps]: "blind f \<Longrightarrow> blind g \<Longrightarrow> blind (then_run f g)"
  by (simp add: then_run_def blind_bind)

lemma blind_gets [blind_steps]: "(\<And>s k. h (s\<lparr>rn_sink := k\<rparr>) = h s) \<Longrightarrow> blind (gets_run h)"
  by (auto simp: blind_def gets_run_def)

lemma blind_modify [blind_steps]:
  "(\<And>s k. f (s\<lparr>rn_sink := k\<rparr>) = (f s)\<lparr>rn_sink := k\<rparr>) \<Longrightarrow> blind (modify_run f)"
  by (auto simp: blind_def modify_run_def)

lemma blind_sink: "blind (modify_run (\<lambda>s. s\<lparr>rn_sink := h (rn_sink s)\<rparr>))"
  by (auto simp: blind_def modify_run_def)

lemma blind_with_state [blind_steps]:
  assumes "\<And>s k. g (s\<lparr>rn_sink := k\<rparr>) = g s" "\<And>s. blind (g s)"
  shows "blind (with_state g)"
  using assms(2) unfolding blind_def with_state_def assms(1) by blast

lemma blind_control_steps [blind_steps]:
  "blind (emit e)" "blind (record_dropped_run n)" "blind (on_control f)" "blind (interfere ser ops)" "blind (publish st)"
  by (simp_all add: emit_def record_dropped_run_def on_control_def interfere_def publish_def blind_modify blind_sink
      blind_then)

lemma blind_on_control_get [blind_steps]: "blind (on_control_get f)"
  unfolding on_control_get_def by (intro blind_steps) auto

lemma blind_live_port [blind_steps]: "blind (live_port ser d t call)"
  unfolding live_port_def Let_def by (intro blind_steps) auto

subsection \<open>The tool phase\<close>

lemma blind_max [simp]: "max_output (s\<lparr>rn_sink := k\<rparr>) = max_output s"
  by (simp add: max_output_def)

lemma blind_append [blind_steps]: "blind (append_result r)"
  unfolding append_result_def by (rule blind_modify) simp

lemma blind_result_step [blind_steps]: "blind (result_step f)"
  unfolding result_step_def by (intro blind_steps) auto

lemma blind_settle [blind_steps]: "blind (settle_calls ri calls outcome m)"
  by (induction calls) (auto intro!: blind_steps)

lemma blind_wait [blind_steps]: "blind (wait_interaction ser invocation i kind reply polls)"
  unfolding wait_interaction_def Let_def
  by (auto intro!: blind_steps split: result.splits)

lemma blind_ask [blind_steps]: "blind (ask ser invocation kind w)"
  unfolding ask_def by (auto intro!: blind_steps split: option.splits result.splits)

lemma blind_policy [blind_steps]: "blind (decide_policy ser policy d t call)"
  unfolding decide_policy_def by (auto intro!: blind_steps split: option.splits)

lemma blind_forward [blind_steps]: "blind (forward_tool_progress ri c ps)"
  by (induction ri c ps rule: forward_tool_progress.induct) (auto intro!: blind_steps)

lemma blind_tool_port [blind_steps]: "blind (run_tool_port ser ri invocation d env)"
  unfolding run_tool_port_def by (intro blind_steps) auto

lemma blind_tool_call [blind_steps]:
  "blind (provide_input ser enc ri invocation request w)"
  "blind (call_tool ser enc ri invocation env)"
  "blind (seek_approval ser enc ri invocation req env)"
  "blind (run_tool_call ser enc ri invocation policy env)"
  unfolding provide_input_def call_tool_def seek_approval_def run_tool_call_def
  by (auto intro!: blind_steps split: result.splits InteractionAnswer.splits ApprovalDecision.splits ToolPort.splits
      PolicyStep.splits)

lemma blind_start [blind_steps]: "blind (start_call ser enc ri config call env)"
  unfolding start_call_def by (auto intro!: blind_steps)

lemma blind_batch [blind_steps]: "blind (run_tool_batch ser enc ri config calls envs)"
  by (induction ser enc ri config calls envs rule: run_tool_batch.induct)
    (auto intro!: blind_steps split: ToolStep.splits)

subsection \<open>The loop\<close>

lemma blind_boundary [blind_steps]: "blind (take_boundary inputs l)"
  unfolding take_boundary_def Let_def append_inputs_def
  by (auto intro!: blind_steps split: caught.splits)

lemma blind_prompt [blind_steps]: "blind (prepare_prompt ser d call)"
  unfolding prepare_prompt_def by (auto intro!: blind_steps)

lemma blind_forward_all [blind_steps]: "blind (forward_all ri xs)"
  by (induction xs) (auto simp: forward_progress_def intro!: blind_steps)

lemma blind_model [blind_steps]: "blind (run_model parse ser ri config request d env)"
  unfolding run_model_def Let_def by (intro blind_steps) auto

lemma blind_round [blind_steps]: "blind (tool_round ser enc env config revision calls l)"
  unfolding tool_round_def Let_def by (auto intro!: blind_steps split: option.splits)

lemma blind_append_response [blind_steps]: "blind (append_response ri config response usage)"
  unfolding append_response_def by (rule blind_modify) simp

lemma blind_handle [blind_steps]: "blind (handle_response ser enc env config revision response l)"
  unfolding handle_response_def Let_def by (auto intro!: blind_steps split: option.splits)

lemma blind_issue [blind_steps]: "blind (issue_request parse ser enc env config request l)"
  unfolding issue_request_def Let_def by (auto intro!: blind_steps split: result.splits)

lemma blind_turn [blind_steps]: "blind (loop_turn parse ser enc env l)"
  unfolding loop_turn_def by (auto intro!: blind_steps split: PromptPrep.splits result.splits)

lemma blind_turns [blind_steps]: "blind (run_turns parse ser enc envs l)"
  by (induction envs arbitrary: l) (auto intro!: blind_steps split: turn.splits)

lemma blind_finish_once [blind_steps]: "blind finish_once_run"
  unfolding finish_once_run_def by (auto intro!: blind_steps)

lemma blind_finish [blind_steps]: "blind (finish_loop ser between path l)"
  unfolding finish_loop_def Let_def publish_final_states_def
  by (auto intro!: blind_steps split: FinishSeal.splits)

lemma blind_inner [blind_steps]: "blind (run_loop_inner parse ser enc env request)"
  unfolding run_loop_inner_def by (auto intro!: blind_steps)

lemma blind_panic [blind_steps]: "blind (panic_report ser others)"
  unfolding panic_report_def Let_def by (auto intro!: blind_steps)

lemma blind_run_loop: "blind (run_loop parse ser enc env request)"
  unfolding blind_def
proof (intro allI)
  fix s k
  obtain r t where f: "run_loop_inner parse ser enc env request s = (r, t)" by fastforce
  obtain k' where k': "run_loop_inner parse ser enc env request (s\<lparr>rn_sink := k\<rparr>) = (r, t\<lparr>rn_sink := k'\<rparr>)"
    using blindD [OF blind_inner [of parse ser enc env request], where s = s and k = k] f by auto
  show "\<exists>k'. run_loop parse ser enc env request (s\<lparr>rn_sink := k\<rparr>)
      = (fst (run_loop parse ser enc env request s), (snd (run_loop parse ser enc env request s))\<lparr>rn_sink := k'\<rparr>)"
    using blindD [OF blind_panic [of ser "ln_panic env"], where s = t and k = k'] f k' by (cases r) (auto simp: run_loop_def)
qed

subsection \<open>Properties\<close>

text \<open>
  C14: events are observation only.  Whatever the event channel is (full, closed, never read), a
  run returns the same report, invokes the same tools, writes the same history and leaves the
  same control plane.
\<close>
theorem events_do_not_influence_the_loop:
  "fst (run_loop parse ser enc env request (s\<lparr>rn_sink := k\<rparr>)) = fst (run_loop parse ser enc env request s)
   \<and> rn_control (snd (run_loop parse ser enc env request (s\<lparr>rn_sink := k\<rparr>)))
      = rn_control (snd (run_loop parse ser enc env request s))
   \<and> rn_working (snd (run_loop parse ser enc env request (s\<lparr>rn_sink := k\<rparr>)))
      = rn_working (snd (run_loop parse ser enc env request s))
   \<and> rn_executed (snd (run_loop parse ser enc env request (s\<lparr>rn_sink := k\<rparr>)))
      = rn_executed (snd (run_loop parse ser enc env request s))"
  using blindD [OF blind_run_loop [of parse ser enc env request], where s = s and k = k] by auto

end
