(* ===== verification/Runner_Properties.thy ===== *)
theory Runner_Properties
  imports Runner
begin

text \<open>
  What a whole run of the loop guarantees, stated on \<open>run_loop\<close> and \<open>finish_loop\<close> for every
  environment that hands in well-formed tool sets, and a sample loop that completes.
\<close>

subsection \<open>Sample loops\<close>

definition sample_options :: LoopOptions where
  "sample_options = \<lparr>lo_deadline = Some (100 * SECOND), lo_max_tool_rounds = 2, lo_event_capacity = 1,
     lo_prompt_timeout = SECOND, lo_model_timeout = 60 * SECOND, lo_policy_timeout = SECOND,
     lo_tool_timeout = SECOND, lo_model_retry_attempts = 1, lo_model_retry_base_delay = SECOND,
     lo_limits = LoopLimits_default\<rparr>"

definition sample_start :: "bool \<Rightarrow> (unit, unit, unit, unit) runner" where
  "sample_start cancelled = (sample_runner cancelled)\<lparr>rn_options := sample_options\<rparr>"

definition sample_loop_request :: "(unit, unit, unit, unit) LoopRequest" where
  "sample_loop_request = \<lparr>lq_history = [], lq_input = UI_Text (BoundedText (lit ''hi'')), lq_config = sample_config\<rparr>"

definition sample_events :: "(ModelEvent, ModelError) result option list" where
  "sample_events = [Some (Ok (EV_TextDelta (BoundedText [0x61]))), Some (Ok (EV_Finish FR_Stop)), None]"

definition sample_model :: "(unit, unit, unit, unit) others live_model" where
  "sample_model =
     (let ready = (\<lambda>r. \<lparr>lp_ops = [], lp_elapsed = False, lp_ready = Some (Completed r)\<rparr>) in
      \<lparr>lm_ops = [], lm_now_turn = 0, lm_now_deadline = 0, lm_now_check = 0,
       lm_attempts = [\<lparr>la_ops = [], la_now = 0, la_start_panics = False,
         la_start = [\<lparr>lp_ops = [], lp_elapsed = False, lp_ready = Some (Completed (Ok ()))\<rparr>],
         la_stream = map (\<lambda>r. (ready r, Sent)) sample_events, la_now_retry = 0, la_now_wait = 0,
         la_wait = [\<lparr>lp_ops = [], lp_elapsed = False, lp_ready = Some (Completed ())\<rparr>]\<rparr>],
       lm_forwarded = [], lm_ops_after = []\<rparr>)"

definition sample_round :: "(unit, unit, unit, unit) others live_round" where
  "sample_round = \<lparr>lr_ops = [], lr_now = 0, lr_inputs = Completed [],
     lr_prompt = one_poll (\<lambda>_. Ok [MM_User (lit ''hi'')]), lr_ops_stale = [], lr_inputs_stale = Completed [],
     lr_model = sample_model, lr_tools = []\<rparr>"

definition sample_loop :: "(unit, unit, unit, unit) others live_loop" where
  "sample_loop = \<lparr>ln_rounds = [sample_round], ln_between = [], ln_panic = []\<rparr>"

lemma sample_loop_ok:
  "start_ok (sample_start b) sample_loop_request" "typed_loop sample_loop"
  "list_all (calm_round (rn_options (sample_start b))) (ln_rounds sample_loop)"
proof -
  have "limits_ok LoopLimits_default" using sample_limits by (simp add: sample_driver_def ModelDriver_from_validated_def)
  then show "start_ok (sample_start b) sample_loop_request"
    using sample_typed(1) [of b]
    by (simp add: start_ok_def sample_start_def options_ok_def sample_options_def sample_loop_request_def sample_config_def
        tool_set_ok_def applied_revision_def sample_runner_def)
  show "typed_loop sample_loop" "list_all (calm_round (rn_options (sample_start b))) (ln_rounds sample_loop)"
    by (simp_all add: typed_loop_def sample_loop_def sample_round_def typed_round_def typed_call_def one_poll_def
        typed_model_def sample_model_def Let_def attempt_acts_def list_all_iff calm_round_def calm_model_def
        sample_start_def sample_options_def turn_deadline_def INSTANT_LIMIT_def MAX_MODEL_RETRY_DELAY_def)
qed

lemma sample_start_fields:
  "rn_id (sample_start b) = LoopId []" "max_tool_output_bytes (lo_limits (rn_options (sample_start b))) = 262144"
  by (simp_all add: sample_start_def sample_runner_def sample_options_def LoopLimits_default_def MAX_TEXT_BYTES_def)

lemma sample_stream:
  "\<exists>resp log'. run_stream (\<lambda>_. None) ser Port
      (map (\<lambda>r. \<lparr>sp_cancelled = False, sp_elapsed = False, sp_ready = Some (Completed r), sp_send = Sent\<rparr>) sample_events)
      (Assembler_new [] LoopLimits_default) \<lparr>dl_sent = [], dl_dropped = 0\<rparr> = (Done (Ok resp), log')
    \<and> tool_calls (mr_parts resp) = [] \<and> mr_finish_reason resp = FR_Stop \<and> mr_usage resp = Some Usage_default"
  by (simp add: sample_events_def push_def ModelEvent_validate_def event_text_def push_text_def normalized_delta_eq
        bt_byte_len_def bt_is_empty_def utf8_len_def MAX_TEXT_BYTES_def MAX_MODEL_EVENT_TEXT_BYTES_def
        append_bounded_def USIZE_MAX_def LoopLimits_default_def Assembler_new_def Let_def send_progress_def
        clean_char_def text_defs finish_def ModelResponse_new_with_provider_replay_def
        normalize_parts_def normalize_part_eq validate_tool_call_order_def AssistantPart_validate_def
        valid_text_def MAX_MODEL_MESSAGE_TEXT_BYTES_def as_tool_call_def normalized_reference_def)


lemma forward_all_returns:
  "\<exists>u. forward_all ri xs t = (Done (), u) \<and> rn_id u = rn_id t \<and> rn_options u = rn_options t
      \<and> rn_control u = rn_control t \<and> rn_working u = rn_working t"
proof (induction xs arbitrary: t)
  case (Cons x xs)
  obtain t' where "forward_progress ri (fst x) (snd x) t = (Done (), t')" "rn_id t' = rn_id t"
    "rn_options t' = rn_options t" "rn_control t' = rn_control t" "rn_working t' = rn_working t"
    by (simp add: run_defs forward_progress_def)
  with Cons.IH [of t'] show ?case by (simp add: then_run_def bind_run_def)
qed (simp add: run_defs)

lemma sample_model_run:
  assumes "\<not> lc_cancel (rn_control s)" "rn_options s = sample_options"
  obtains resp s' where "run_model (\<lambda>_. None) ser ri sample_config sample_request (100 * SECOND) sample_model s
      = (Done (Ok resp), s')"
    "tool_calls (mr_parts resp) = []" "mr_finish_reason resp = FR_Stop" "mr_usage resp = Some Usage_default"
    "rn_id s' = rn_id s" "rn_options s' = rn_options s" "rn_control s' = rn_control s" "rn_working s' = rn_working s"
proof -
  let ?polls = "map (\<lambda>r. \<lparr>sp_cancelled = False, sp_elapsed = False, sp_ready = Some (Completed r), sp_send = Sent\<rparr>) sample_events"
  obtain resp log' where str: "run_stream (\<lambda>_. None) ser Port ?polls
      (Assembler_new [] LoopLimits_default) \<lparr>dl_sent = [], dl_dropped = 0\<rparr> = (Done (Ok resp), log')"
    and resp: "tool_calls (mr_parts resp) = []" "mr_finish_reason resp = FR_Stop" "mr_usage resp = Some Usage_default"
    using sample_stream [of ser] by blast
  have drv: "ModelDriver_from_validated (ec_descriptor sample_config) (lo_model_timeout sample_options)
    (lo_model_retry_attempts sample_options) (lo_model_retry_base_delay sample_options) (lo_limits sample_options)
    = sample_driver 1"
    by (simp add: sample_config_def sample_options_def sample_driver_def)
  have played: "play_attempts (act ser) (lm_attempts sample_model) (rn_control s) = ([sample_attempt (Ok ()) ?polls], rn_control s)"
    using assms(1) by (simp add: sample_model_def Let_def play_attempt_def sample_attempt_def sample_events_def)
  have env: "\<lparr>de_now_deadline = lm_now_deadline sample_model, de_cancelled = lc_cancel (rn_control s),
      de_now_check = lm_now_check sample_model, de_attempts = [sample_attempt (Ok ()) ?polls]\<rparr> = sample_env [sample_attempt (Ok ()) ?polls]"
    using assms(1) by (simp add: sample_env_def sample_model_def Let_def)
  have run: "run_detailed (\<lambda>_. None) ser (sample_driver 1) sample_request (100 * SECOND)
      (sample_env [sample_attempt (Ok ()) ?polls]) \<lparr>dl_sent = [], dl_dropped = 0\<rparr> = (Done (Ok resp), log', [])"
    unfolding sample_run run_attempts.simps sample_attempt_run(2,3) using str by (simp del: run_stream.simps)
  have ops: "lm_ops sample_model = []" "lm_ops_after sample_model = []" "lm_forwarded sample_model = []"
    by (simp_all add: sample_model_def Let_def)
  define t where "t = s\<lparr>rn_sink := record_dropped (dl_dropped log') (rn_sink s)\<rparr>"
  obtain u where fwd: "forward_all ri (map (Pair 0) (dl_sent log')) t = (Done (), u)" "rn_id u = rn_id t"
    "rn_options u = rn_options t" "rn_control u = rn_control t" "rn_working u = rn_working t"
    using forward_all_returns by blast
  have "run_model (\<lambda>_. None) ser ri sample_config sample_request (100 * SECOND) sample_model s = (Done (Ok resp), u)"
    using fwd(1) unfolding run_model_def
    by (simp add: run_defs ops assms(2) drv played env [simplified] run [simplified] Let_def t_def)
  from that [OF this resp] fwd(2-) show thesis by (simp add: t_def)
qed

lemma sample_port_for:
  assumes "\<not> lc_cancel (rn_control s)"
  shows "live_port ser (100 * SECOND) SECOND (call_for view (one_poll f)) s
     = (Done \<lparr>pr_outcome = Returned (f view), pr_steps = [Child_Created, Closure_Called SECOND, Child_Cancelled, Future_Dropped]\<rparr>, s)"
  using assms
  by (simp add: live_port_def one_poll_def run_defs run_port_call_def effective_deadline_from_def call_for_def ready_for_def
      instant_checked_add_def INSTANT_LIMIT_def)

lemma sample_build: "build_model_request [MM_User (lit ''hi'')] sample_config = Ok sample_request"
  by (simp add: build_model_request_def ModelRequest_with_validated_tools_def validate_tool_exchange_def
      ModelMessage_validate_def valid_text_def sample_request_def sample_config_def text_defs lit_def utf8_len_def
      MAX_MODEL_MESSAGE_TEXT_BYTES_def)

lemma sample_turn_completes:
  assumes "\<not> lc_cancel (rn_control s)" "rn_options s = sample_options" "cs_pending_config (lc_inner (rn_control s)) = None"
    and "ll_config l = sample_config" "ll_usage l = UsageAccumulator_default"
  obtains l' s' where "loop_turn (\<lambda>_. None) ser enc sample_round l s = (Done (Stop FP_Completed l'), s')"
    "lc_state (rn_control s') = lc_state (rn_control s)"
proof -
  have opts: "lo_deadline sample_options = Some (100 * SECOND)" "lo_prompt_timeout sample_options = SECOND"
    by (simp_all add: sample_options_def)
  define t where "t = snd (publish (LoopState_new (rn_id s) LS_Starting (ll_request_index l) (ll_issued_revision l))
     (s\<lparr>rn_control := fst (take_config (rn_control s))\<rparr>))"
  define revision where "revision = (case ll_candidate_revision l of Some r \<Rightarrow> r | None \<Rightarrow> ll_issued_revision l)"
  define st where "st = round_state (rn_id s) LS_RunningModel (ll_request_index l) revision
     (Some (md_model_ref (ec_descriptor sample_config)))"
  define u where "u = t\<lparr>rn_control := publish_state st (commit_revision revision (fst (take_config (rn_control t)))),
      rn_sink := try_emit (EV_StateChanged st) (try_emit (EV_RequestStarted (rn_id s) (ll_request_index l) revision
        (md_model_ref (ec_descriptor sample_config)) (ec_reasoning sample_config)) (rn_sink t))\<rparr>"
  have t: "\<not> lc_cancel (rn_control t)" "rn_options t = sample_options" "rn_id t = rn_id s"
    "snd (take_config (rn_control s)) = None" "snd (take_config (rn_control t)) = None"
    "lc_state (rn_control t) = lc_state (rn_control s)"
    using assms(1-3) by (simp_all add: take_config_def t_def run_defs publish_state_def)
  have u: "\<not> lc_cancel (rn_control u)" "rn_options u = sample_options" "lc_state (rn_control u) = lc_state (rn_control s)"
    using t by (simp_all add: u_def take_config_def commit_revision_def publish_state_def)
  obtain resp v where model: "run_model (\<lambda>_. None) ser (ll_request_index l) sample_config sample_request (100 * SECOND) sample_model u
      = (Done (Ok resp), v)"
    and resp: "tool_calls (mr_parts resp) = []" "mr_finish_reason resp = FR_Stop" "mr_usage resp = Some Usage_default"
    and v: "rn_control v = rn_control u"
    by (rule sample_model_run [OF u(1,2)])
  have env: "lr_ops sample_round = []" "lr_inputs sample_round = Completed []" "lr_now sample_round = 0"
    "lr_prompt sample_round = one_poll (\<lambda>_. Ok [MM_User (lit ''hi'')])" "lr_ops_stale sample_round = []"
    "lr_inputs_stale sample_round = Completed []" "lr_model sample_round = sample_model"
    "lv_now_turn (one_poll (\<lambda>_. Ok [MM_User (lit ''hi'')])) = 0" "lm_now_turn sample_model = 0"
    by (simp_all add: sample_round_def one_poll_def sample_model_def Let_def)
  have usage: "is_ok (snd (UsageAccumulator_add UsageAccumulator_default Usage_default))"
    by (simp add: UsageAccumulator_add_def UsageAccumulator_default_def Usage_default_def Usage_from_optional_def
        sum_usage_def sum_field_def)
  have handled: "\<exists>l' s'. handle_response ser enc sample_round sample_config revision resp l2 v = (Done (Stop FP_Completed l'), s')
      \<and> lc_state (rn_control s') = lc_state (rn_control s)" if "ll_usage l2 = UsageAccumulator_default" for l2
    using usage resp v u(3) that
    by (simp add: handle_response_def Let_def no_tool_finish_def run_defs append_response_def begin_final_def close_accepting_def)
  have issued: "\<exists>l' s'. issue_request (\<lambda>_. None) ser enc sample_round sample_config sample_request l
      (t\<lparr>rn_control := fst (take_config (rn_control t))\<rparr>) = (Done (Stop FP_Completed l'), s')
      \<and> lc_state (rn_control s') = lc_state (rn_control s)"
    using handled model assms(5) t(2,3)
    by (simp add: issue_request_def Let_def run_defs env turn_deadline_def sample_options_def u_def st_def revision_def) 
  have "loop_turn (\<lambda>_. None) ser enc sample_round l s
     = issue_request (\<lambda>_. None) ser enc sample_round sample_config sample_request l
         (t\<lparr>rn_control := fst (take_config (rn_control t))\<rparr>)"
    using t assms(1,2,4) sample_build
    by (simp add: loop_turn_def run_defs env opts turn_deadline_def take_boundary_def append_inputs_def Let_def
        t_def prepare_prompt_def prompt_prep_def sample_port_for [simplified])
  with issued that show thesis by metis
qed

lemma sample_run_completes:
  assumes "start_ok s sample_loop_request" "rn_options s = sample_options" "lc_state (rn_control s) = STATE_NONE"
    and "cs_pending_config (lc_inner (rn_control s)) = None"
  obtains report s' where "run_loop (\<lambda>_. None) ser enc sample_loop sample_loop_request s = (Done report, s')"
    "rep_outcome report = LO_Completed"
proof -
  let ?o = "opened s sample_loop_request"
  have o: "\<not> lc_cancel (rn_control ?o)" "rn_options ?o = sample_options" "cs_pending_config (lc_inner (rn_control ?o)) = None"
    "ll_config (initial_locals sample_loop_request) = sample_config"
    "ll_usage (initial_locals sample_loop_request) = UsageAccumulator_default" "lc_state (rn_control ?o) = STATE_NONE"
    using assms by (auto simp: opened_def initial_locals_def sample_loop_request_def start_ok_def quiet_def live_def)
  obtain l t where turn: "loop_turn (\<lambda>_. None) ser enc sample_round (initial_locals sample_loop_request) ?o
      = (Done (Stop FP_Completed l), t)" "lc_state (rn_control t) = STATE_NONE"
    using sample_turn_completes [OF o(1-5)] o(6) by metis
  have rounds: "ln_rounds sample_loop = [sample_round]" "ln_between sample_loop = []" by (simp_all add: sample_loop_def)
  have turns: "run_turns (\<lambda>_. None) ser enc [sample_round] (initial_locals sample_loop_request) ?o
      = (Done (FP_Completed, l), t)"
    by (simp add: bind_run_def turn(1) return_run_def)
  have "loop_inv t l"
    using wp_Done [OF run_turns_wp [OF opened_inv [OF assms(1)], of "[sample_round]"] turns] sample_loop_ok(2)
    by (simp add: turns_post_def typed_loop_def rounds)
  then obtain report u where fin: "finish_loop ser [] FP_Completed l t = (Done report, u)"
    "rep_outcome report = sealed_outcome (rn_control t) LO_Completed"
    by (rule finish_loop_run [where between = "[]" and path = FP_Completed and ser = ser]) (auto simp: outcome_for_def)
  have "run_loop (\<lambda>_. None) ser enc sample_loop sample_loop_request s = (Done report, u)"
    by (simp add: run_loop_def run_loop_inner_opened bind_run_def rounds turns fin(1) del: run_turns.simps)
  with that fin(2) turn(2) show thesis by (simp add: sealed_outcome_def)
qed

lemma sample_loop_completes:
  obtains report s' where "run_loop (\<lambda>_. None) ser enc sample_loop sample_loop_request (sample_start False) = (Done report, s')"
    "rep_outcome report = LO_Completed"
  by (rule sample_run_completes [OF sample_loop_ok(1) [of False]]) (simp_all add: sample_start_def sample_runner_def)

subsection \<open>Properties\<close>

text \<open>
  C2: a loop reports exactly once, whatever the host's code does.  If the run returns, the report
  it returns is the report that was published, it carries the id of the loop, the state byte is
  sealed, the token is cancelled, updates are refused and the last published state is Finished
  without a pending interaction; the run itself never unwinds, not even when the runner panics.
\<close>
theorem loop_reports_once:
  assumes "start_ok s request" "typed_loop env" "run_loop parse ser enc env request s = (r, s')"
  shows "r \<noteq> Aborted
     \<and> (\<forall>report. r = Done report \<longrightarrow> rep_loop_id report = rn_id s
          \<and> published_report (rn_control s') = Some report \<and> is_finished (rn_control s') \<and> lc_cancel (rn_control s')
          \<and> \<not> cs_accepting_updates (lc_inner (rn_control s'))
          \<and> lst_status (current_state (rn_control s')) = LS_Finished
          \<and> lst_pending_interaction (current_state (rn_control s')) = None)"
  by (rule run_loop_result [OF assms]) (auto simp: concluded_def)

theorem loop_reports_once_witness:
  "\<exists>report s'. run_loop (\<lambda>_. None) (\<lambda>_. ([], True)) (\<lambda>_. []) sample_loop sample_loop_request (sample_start False)
       = (Done report, s')
     \<and> rep_outcome report = LO_Completed \<and> published_report (rn_control s') = Some report"
proof -
  obtain report s' where run: "run_loop (\<lambda>_. None) (\<lambda>_. ([], True)) (\<lambda>_. []) sample_loop sample_loop_request
      (sample_start False) = (Done report, s')" "rep_outcome report = LO_Completed"
    by (rule sample_loop_completes)
  from loop_reports_once [OF sample_loop_ok(1,2) this(1)] run show ?thesis by blast
qed

text \<open>
  C3: the history a loop hands back is well formed on every path.  It is empty (the runner
  panicked) or starts with the user's prompt; every assistant message in it is valid and is
  followed at once by exactly one result per tool call, in call order, each with the call's id,
  tool name and request index and an output within the limit.
\<close>
theorem loop_transcript:
  assumes "start_ok s request" "typed_loop env" "run_loop parse ser enc env request s = (Done report, s')"
  shows "transcript (rn_id s) (max_tool_output_bytes (lo_limits (rn_options s))) (rep_appended report)
     \<and> (rep_appended report = []
        \<or> hd (rep_appended report) = HI_User \<lparr>uh_loop_id = rn_id s, uh_kind = UK_Prompt, uh_input = lq_input request\<rparr>)"
proof (rule run_loop_result [OF assms], goal_cases)
  case (2 t path l intended rep)
  then have rep: "rep_appended report = wh_appended (rn_working t)" by simp
  obtain items where "wh_appended (rn_working t) = first_input (rn_id s) request # items"
    using 2(1) by (auto simp: turns_post_def adds_def opened_def)
  moreover have "transcript (rn_id s) (max_output s) (wh_appended (rn_working t))"
    using 2(1) by (auto simp: turns_post_def loop_inv_def stays_def opened_def max_output_def)
  ultimately show ?case by (simp add: rep first_input_def max_output_def)
qed (auto intro: transcript.empty)

theorem loop_transcript_witness:
  "\<exists>report s'. run_loop (\<lambda>_. None) (\<lambda>_. ([], True)) (\<lambda>_. []) sample_loop sample_loop_request (sample_start False)
       = (Done report, s') \<and> transcript (LoopId []) 262144 (rep_appended report)"
proof -
  obtain report s' where run: "run_loop (\<lambda>_. None) (\<lambda>_. ([], True)) (\<lambda>_. []) sample_loop sample_loop_request
      (sample_start False) = (Done report, s')" "rep_outcome report = LO_Completed"
    by (rule sample_loop_completes)
  from loop_transcript [OF sample_loop_ok(1,2) this(1)] run show ?thesis
    by (auto simp: sample_start_fields)
qed

text \<open>
  C12: what an outcome means.  Completed: the history ends with an assistant message without tool
  calls whose finish reason was stop.  Failed because of tool rounds: a limit is set and exactly
  that many rounds were run; no loop runs more, and no loop fails with a lost interaction.
  The reported revision is the initial one unless a request was issued.
\<close>
theorem loop_outcome_meaning:
  assumes "start_ok s request" "typed_loop env" "run_loop parse ser enc env request s = (Done report, s')"
  shows "(rep_outcome report = LO_Completed \<longrightarrow>
            (\<exists>h a. rep_appended report = h @ [HI_Assistant a] \<and> tool_calls (ah_content a) = []
               \<and> ah_finish_reason a = FR_Stop))
     \<and> (\<forall>f. rep_outcome report = LO_Failed f \<longrightarrow> lf_kind f \<noteq> LF_Interaction
          \<and> (lf_kind f = LF_MaxToolRounds \<longrightarrow> lo_max_tool_rounds (rn_options s) \<noteq> 0
               \<and> unat (rep_tool_rounds report) = unat (lo_max_tool_rounds (rn_options s))))
     \<and> (lo_max_tool_rounds (rn_options s) \<noteq> 0 \<longrightarrow>
          unat (rep_tool_rounds report) \<le> unat (lo_max_tool_rounds (rn_options s)))
     \<and> (rep_requests report = 0 \<longrightarrow> rep_final_config_revision report = ConfigRevision_INITIAL)"
proof (rule run_loop_result [OF assms], goal_cases)
  case (2 t path l intended rep)
  have opts: "rn_options t = rn_options s" using 2(1) by (simp add: turns_post_def stays_def opened_def)
  have inv: "loop_inv t l" "stop_ok t l path" using 2(1) by (simp_all add: turns_post_def)
  obtain out where "outcome_for (rn_control t) path = Some out" and out: "out = LO_Completed \<longleftrightarrow> path = FP_Completed"
    "\<And>f. out = LO_Failed f \<Longrightarrow> (lf_kind f = LF_Interaction \<longrightarrow> path = FP_Interaction)
        \<and> (lf_kind f = LF_MaxToolRounds \<longrightarrow> path = FP_MaxToolRounds)"
    by (rule outcome_for_Some) blast
  with 2(2) have "out = intended" by simp
  with out 2 inv opts show ?case
    by (auto simp: sealed_outcome_def stop_ok_def loop_inv_def round_bound_def issue_ok_def split: if_splits)
qed simp_all

theorem loop_outcome_meaning_witness:
  "\<exists>report s' h a. run_loop (\<lambda>_. None) (\<lambda>_. ([], True)) (\<lambda>_. []) sample_loop sample_loop_request (sample_start False)
       = (Done report, s') \<and> rep_outcome report = LO_Completed \<and> rep_appended report = h @ [HI_Assistant a]"
proof -
  obtain report s' where run: "run_loop (\<lambda>_. None) (\<lambda>_. ([], True)) (\<lambda>_. []) sample_loop sample_loop_request
      (sample_start False) = (Done report, s')" "rep_outcome report = LO_Completed"
    by (rule sample_loop_completes)
  from loop_outcome_meaning [OF sample_loop_ok(1,2) this(1)] run show ?thesis by blast
qed

text \<open>
  C10: the seal decides.  Whatever path ended the turns, a cancellation whose exchange came first
  is the outcome, with its reason; otherwise the outcome is what the path says, where the path of
  a deadline is a cancellation for that reason and only the path of a completed loop completes.
\<close>
theorem seal_decides_outcome:
  assumes "loop_inv s l" "list_all typed_op between"
  shows "\<exists>report s' intended. finish_loop ser between path l s = (Done report, s')
     \<and> outcome_for (rn_control s) path = Some intended
     \<and> (case lc_state (fold (act ser) between (rn_control s)) of st \<Rightarrow>
          (st = STATE_NONE \<and> rep_outcome report = intended
           \<or> (\<exists>source. st = cancel_target source \<and> rep_outcome report = LO_Cancelled (source_reason source))))
     \<and> (intended = LO_Completed \<longleftrightarrow> path = FP_Completed)"
proof -
  let ?c = "fold (act ser) between (rn_control s)"
  obtain intended report s' where fin: "outcome_for (rn_control s) path = Some intended"
    "finish_loop ser between path l s = (Done report, s')" "rep_outcome report = sealed_outcome ?c intended"
    by (rule finish_loop_run [OF assms, of path ser]) auto
  have "live ?c" using live.acts_stable [of "rn_control s"] assms by (simp add: loop_inv_def quiet_def)
  then have "lc_state ?c = STATE_NONE \<or> (\<exists>source. lc_state ?c = cancel_target source)" by (simp add: live_def)
  moreover have "intended = LO_Completed \<longleftrightarrow> path = FP_Completed"
    by (rule outcome_for_Some [of "rn_control s" path]) (use fin(1) in auto)
  ultimately show ?thesis
    using fin by (auto simp: sealed_outcome_def cancel_reason_def states_distinct)
qed

theorem seal_decides_outcome_witness:
  "\<exists>report s'. finish_loop (\<lambda>_. ([], True)) [X_Cancel CS_Shutdown] FP_Completed (initial_locals sample_loop_request)
       (opened (sample_start False) sample_loop_request) = (Done report, s')
     \<and> rep_outcome report = LO_Cancelled CR_Shutdown"
proof -
  let ?o = "opened (sample_start False) sample_loop_request"
  have typed: "list_all typed_op [X_Cancel CS_Shutdown]" by (simp add: typed_op_def)
  have st: "lc_state (fold (act (\<lambda>_. ([], True))) [X_Cancel CS_Shutdown] (rn_control ?o)) = cancel_target CS_Shutdown"
    by (simp add: opened_def sample_start_def sample_runner_def exchange_cases)
  from seal_decides_outcome [OF opened_inv [OF sample_loop_ok(1) [of False]] typed, of "\<lambda>_. ([], True)" FP_Completed] show ?thesis
    unfolding st by (auto simp: states_distinct source_reason_def)
qed

text \<open>
  C13: the runner itself does not panic.  If the host's inputs do not panic and the clock is within
  range, none of the runner's \<open>expect\<close> calls fails: the tools of a response are all in the
  frozen set, static texts are valid, sealed loops have published, and answers encode.
\<close>
theorem runner_does_not_panic:
  assumes "start_ok s request" "typed_loop env" "list_all (calm_round (rn_options s)) (ln_rounds env)"
  shows "fst (run_loop_inner parse ser enc env request s) \<noteq> Aborted"
proof -
  obtain r s' where run: "run_loop parse ser enc env request s = (r, s')" by fastforce
  show ?thesis by (rule run_loop_result [OF assms(1,2) run]) (use assms(3) in auto)
qed

theorem runner_does_not_panic_witness:
  "fst (run_loop_inner (\<lambda>_. None) (\<lambda>_. ([], True)) (\<lambda>_. []) sample_loop sample_loop_request (sample_start False)) \<noteq> Aborted"
  using runner_does_not_panic [OF sample_loop_ok] .

end
