(* ===== verification/Agent_Loop.thy ===== *)
theory Agent_Loop
  imports Runner_Properties
begin

text \<open>
  The owner of a loop, \<open>AgentLoop\<close> of \<^verbatim>\<open>src/agent_loop/mod.rs\<close>: starting, taking the events,
  joining, shutting down and dropping.  Tokio is outside: whether a runtime is there is an argument
  of \<open>start\<close>, and what awaiting the task gives is an argument of \<open>join\<close> and \<open>shutdown\<close>, with the
  control plane as it is then.
\<close>

subsection \<open>Owner\<close>

record ('m, 't, 'p, 'q) AgentLoop =
  al_control :: "('m, 't, 'p, 'q) control"
  al_events :: bool
  al_join :: bool

text \<open>
  A started loop is its owner and the task it spawned, here the runner's initial state.  \<open>None\<close>:
  the serialiser panicked, or the random source never delivered an id.
\<close>

definition spawn :: "LoopId \<Rightarrow> LoopOptions \<Rightarrow> ('m, 't, 'p, 'q) control \<Rightarrow> LoopEventSink \<Rightarrow> ('m, 't, 'p, 'q) runner" where
  "spawn ident options control sink =
     \<lparr>rn_id = ident, rn_options = options, rn_control = control, rn_sink = sink,
      rn_working = WorkingHistory_new [], rn_executed = []\<rparr>"

definition AgentLoop_start ::
  "json serializer \<Rightarrow> bool \<Rightarrow> instant \<Rightarrow> u8 list option list \<Rightarrow> consumer_op list list \<Rightarrow> ('m, 't, 'p, 'q) LoopRequest \<Rightarrow>
     LoopOptions \<Rightarrow> (('m, 't, 'p, 'q) AgentLoop \<times> ('m, 't, 'p, 'q) runner, LoopStartError) result option" where
  "AgentLoop_start ser runtime now fills consumer request options =
     (if \<not> runtime then Some (Err LS_NoTokioRuntime)
      else case LoopOptions_validate now options of
        Err e \<Rightarrow> Some (Err e)
      | Ok _ \<Rightarrow>
        (case validate_against_limits ser (lq_config request) (lo_limits options) of
           None \<Rightarrow> None
         | Some (Err _) \<Rightarrow> Some (Err LS_InvalidConfig)
         | Some (Ok _) \<Rightarrow>
           (let input_bytes = str_len (UserInput_as_text (lq_input request)) in
            if input_bytes = 0 \<or> max_user_input_bytes (lo_limits options) < input_bytes then Some (Err LS_InvalidInput)
            else case LoopId_new fills of
              None \<Rightarrow> None
            | Some (Err _) \<Rightarrow> Some (Err LS_IdGeneration)
            | Some (Ok ident) \<Rightarrow>
              (case LoopControl_new consumer ident (lo_event_capacity options) (lo_limits options) of
                 Err _ \<Rightarrow> Some (Err LS_InvalidOptions)
               | Ok (control, sink) \<Rightarrow>
                   Some (Ok (\<lparr>al_control = control, al_events = True, al_join = True\<rparr>,
                             spawn ident options control sink))))))"

definition AgentLoop_id :: "('m, 't, 'p, 'q) AgentLoop \<Rightarrow> LoopId" where
  "AgentLoop_id a = lc_id (al_control a)"

definition AgentLoop_take_events ::
  "('m, 't, 'p, 'q) AgentLoop \<Rightarrow> ('m, 't, 'p, 'q) AgentLoop \<times> (unit, TakeEventsError) result" where
  "AgentLoop_take_events a = (a\<lparr>al_events := False\<rparr>, if al_events a then Ok () else Err TK_AlreadyTaken)"

definition AgentLoop_drop :: "('m, 't, 'p, 'q) AgentLoop \<Rightarrow> ('m, 't, 'p, 'q) AgentLoop" where
  "AgentLoop_drop a = a\<lparr>al_control := fst (mark_cancel CS_OwnerDropped (al_control a))\<rparr>"

text \<open>
  Both consume the owner, so its destructor runs after the task has been awaited; \<open>awaited\<close> is
  the control plane then and what the task gave, \<open>None\<close> when it was aborted.
\<close>

definition await_task ::
  "('m, 't, 'p, 'q) AgentLoop \<Rightarrow> ('m, 't, 'p, 'q) control \<times> LoopReport option \<Rightarrow>
     ('m, 't, 'p, 'q) AgentLoop \<times> (LoopReport, LoopJoinError) result" where
  "await_task a awaited =
     (if al_join a
      then (AgentLoop_drop (a\<lparr>al_join := False, al_control := fst awaited\<rparr>), ok_or (snd awaited) LJ_TaskCancelled)
      else (AgentLoop_drop a, Err LJ_TaskCancelled))"

definition AgentLoop_join ::
  "('m, 't, 'p, 'q) AgentLoop \<Rightarrow> ('m, 't, 'p, 'q) control \<times> LoopReport option \<Rightarrow>
     ('m, 't, 'p, 'q) AgentLoop \<times> (LoopReport, LoopJoinError) result" where
  "AgentLoop_join a awaited = await_task a awaited"

definition AgentLoop_shutdown ::
  "('m, 't, 'p, 'q) AgentLoop \<Rightarrow> (('m, 't, 'p, 'q) control \<Rightarrow> ('m, 't, 'p, 'q) control \<times> LoopReport option) \<Rightarrow>
     ('m, 't, 'p, 'q) AgentLoop \<times> (LoopReport, LoopJoinError) result" where
  "AgentLoop_shutdown a task =
     (let a' = a\<lparr>al_control := fst (mark_cancel CS_Shutdown (al_control a))\<rparr> in await_task a' (task (al_control a')))"

subsection \<open>Lemmas\<close>

lemma started_runner:
  assumes "AgentLoop_start ser runtime now fills consumer request options = Some (Ok (a, s))"
    and "tool_set_ok (ec_tools (lq_config request))"
  shows "start_ok s request" "rn_options s = options" "al_control a = rn_control s" "AgentLoop_id a = rn_id s"
    "lc_state (rn_control s) = STATE_NONE" "cs_pending_config (lc_inner (rn_control s)) = None"
  using assms
  by (auto simp: AgentLoop_start_def start_ok_def spawn_def options_validate_Ok LoopControl_new_def and_then_eq_Ok Let_def
      quiet_def live_def applied_revision_def AgentLoop_id_def split: if_splits result.splits option.splits)

lemma str_len_empty: "str_len x = 0 \<longleftrightarrow> x = []"
  by (cases x) (auto simp: utf8_len_def)

lemma start_accepts:
  "(\<exists>a s. AgentLoop_start ser runtime now fills consumer request options = Some (Ok (a, s))) \<longleftrightarrow>
      runtime \<and> options_ok options \<and> (\<forall>d. lo_deadline options = Some d \<longrightarrow> now < d)
      \<and> validate_against_limits ser (lq_config request) (lo_limits options) = Some (Ok ())
      \<and> UserInput_as_text (lq_input request) \<noteq> []
      \<and> str_len (UserInput_as_text (lq_input request)) \<le> max_user_input_bytes (lo_limits options)
      \<and> (\<exists>i. LoopId_new fills = Some (Ok i))" (is "?started \<longleftrightarrow> ?checks")
proof
  assume ?started
  then obtain a s where "AgentLoop_start ser runtime now fills consumer request options = Some (Ok (a, s))" by blast
  then have "runtime \<and> LoopOptions_validate now options = Ok ()
      \<and> validate_against_limits ser (lq_config request) (lo_limits options) = Some (Ok ())
      \<and> str_len (UserInput_as_text (lq_input request)) \<noteq> 0
      \<and> str_len (UserInput_as_text (lq_input request)) \<le> max_user_input_bytes (lo_limits options)
      \<and> (\<exists>i. LoopId_new fills = Some (Ok i))"
    by (simp add: AgentLoop_start_def Let_def split: if_splits result.splits option.splits)
  then show ?checks unfolding options_validate_Ok str_len_empty by blast
next
  assume checks: ?checks
  then obtain i where i: "LoopId_new fills = Some (Ok i)" by blast
  obtain c :: "('a, 'b, 'c, 'd) control" and sink where
    "LoopControl_new consumer i (lo_event_capacity options) (lo_limits options) = Ok (c, sink)"
    using checks by (auto simp: LoopControl_new_def LoopEventSink_channel_def MAX_EVENT_CAPACITY_def options_ok_def)
  moreover have "LoopOptions_validate now options = Ok ()" using checks by (simp add: options_validate_Ok)
  ultimately show ?started using checks i by (simp add: AgentLoop_start_def Let_def str_len_empty not_less)
qed

lemma act_marked: "lc_state c = cancel_target source \<Longrightarrow> lc_state (act ser x c) = cancel_target source"
  by (cases x) (auto simp: act_defs states_distinct split: option.splits result.splits if_splits)

interpretation marked: stable "act ser" "\<lambda>_. True" "\<lambda>c. lc_state c = cancel_target source" for ser source
  by unfold_locales (rule act_marked)

lemma cancelled_turns:
  assumes "lc_cancel (rn_control s)"
  shows "run_turns parse ser enc (env # envs) l s
     = (Done (FP_Cancelled, l), s\<lparr>rn_control := fold (act ser) (lr_ops env) (rn_control s)\<rparr>)"
proof -
  have "lc_cancel (fold (act ser) (lr_ops env) (rn_control s))" using cancelled.acts_stable [OF assms] by simp
  then show ?thesis by (simp add: bind_run_def return_run_def loop_turn_def run_defs)
qed

lemma mark_cancel_fresh:
  "lc_state c = STATE_NONE \<Longrightarrow> mark_cancel source c = (c\<lparr>lc_state := cancel_target source, lc_cancel := True\<rparr>, True)"
  by (simp add: mark_cancel_def exchange_cases cancel_token_def)

lemma mark_cancel_finished: "is_finished c \<Longrightarrow> mark_cancel source c = (c, False)"
  by (simp add: mark_cancel_def exchange_cases is_finished_def none_not_finished)

lemma sample_agent:
  obtains a s where "AgentLoop_start (\<lambda>_. ([], True)) True 0 [Some (replicate 16 1)] [] sample_loop_request sample_options
      = Some (Ok (a, s))"
proof -
  have "options_ok sample_options" using sample_loop_ok(1) [of True] by (simp add: start_ok_def sample_start_def)
  then have "LoopOptions_validate 0 sample_options = Ok ()" by (simp add: options_validate_Ok) (simp add: sample_options_def)
  moreover have "LoopId_new [Some (replicate 16 1)] = Some (Ok (LoopId (replicate 16 1)))"
    by (simp add: LoopId_new_def list_ex_iff)
  ultimately show thesis
    using that
    by (auto simp: AgentLoop_start_def sample_loop_request_def sample_config_def validate_against_limits_def
        UserInput_as_text_def LoopControl_new_def LoopEventSink_channel_def MAX_EVENT_CAPACITY_def Let_def
        sample_options_def LoopLimits_default_def MAX_TEXT_BYTES_def lit_def utf8_len_def utf8_char_def)
qed

lemma sample_tools_ok: "tool_set_ok (ec_tools (lq_config sample_loop_request))"
  using sample_loop_ok(1) [of True] by (simp add: start_ok_def)

subsection \<open>Properties\<close>

text \<open>
  C20: when a loop starts.  \<open>start\<close> succeeds exactly inside a runtime, with options within all
  bounds and a deadline in the future, a configuration within the limits, an input that is not
  empty and not too long, and a random id; the task it spawns then starts in a state the runner's
  guarantees rest on, with the id and the options given.
\<close>
theorem agent_loop_start_spec:
  "((\<exists>a s. AgentLoop_start ser runtime now fills consumer request options = Some (Ok (a, s))) \<longleftrightarrow>
      runtime \<and> options_ok options \<and> (\<forall>d. lo_deadline options = Some d \<longrightarrow> now < d)
      \<and> validate_against_limits ser (lq_config request) (lo_limits options) = Some (Ok ())
      \<and> UserInput_as_text (lq_input request) \<noteq> []
      \<and> str_len (UserInput_as_text (lq_input request)) \<le> max_user_input_bytes (lo_limits options)
      \<and> (\<exists>i. LoopId_new fills = Some (Ok i)))
   \<and> (\<forall>a s. AgentLoop_start ser runtime now fills consumer request options = Some (Ok (a, s)) \<longrightarrow>
        tool_set_ok (ec_tools (lq_config request)) \<longrightarrow>
        start_ok s request \<and> rn_options s = options \<and> al_control a = rn_control s \<and> AgentLoop_id a = rn_id s)"
  by (intro conjI allI impI start_accepts) (auto intro: started_runner)

theorem agent_loop_start_spec_witness:
  "\<exists>a s. AgentLoop_start (\<lambda>_. ([], True)) True 0 [Some (replicate 16 1)] [] sample_loop_request sample_options
      = Some (Ok (a, s)) \<and> start_ok s sample_loop_request"
proof -
  obtain a s where "AgentLoop_start (\<lambda>_. ([], True)) True 0 [Some (replicate 16 1)] [] sample_loop_request sample_options
      = Some (Ok (a, s))" by (rule sample_agent)
  with agent_loop_start_spec [of "\<lambda>_. ([], True)" True 0 "[Some (replicate 16 1)]" "[]" sample_loop_request sample_options]
    sample_tools_ok show ?thesis by blast
qed

text \<open>
  C17: a loop that is cancelled, shut down or dropped ends.  If the mark wins before the first
  turn, the run returns a report at its first turn: cancelled for that reason, no request issued,
  nothing but the prompt in the history, whatever other threads do meanwhile.
\<close>
theorem cancelled_loop_ends:
  assumes "AgentLoop_start ser runtime now fills consumer request options = Some (Ok (a, s))"
    and "tool_set_ok (ec_tools (lq_config request))" "typed_loop env" "ln_rounds env \<noteq> []"
  shows "\<exists>report s'. run_loop parse ser enc env request (s\<lparr>rn_control := fst (mark_cancel source (al_control a))\<rparr>)
       = (Done report, s')
     \<and> rep_outcome report = LO_Cancelled (source_reason source) \<and> rep_requests report = 0
     \<and> rep_appended report = [HI_User \<lparr>uh_loop_id = AgentLoop_id a, uh_kind = UK_Prompt, uh_input = lq_input request\<rparr>]"
proof -
  define c where "c = fst (mark_cancel source (al_control a))"
  define s1 where "s1 = s\<lparr>rn_control := c\<rparr>"
  note start = started_runner [OF assms(1,2)]
  have c: "c = (rn_control s)\<lparr>lc_state := cancel_target source, lc_cancel := True\<rparr>"
    using start(3,5) by (simp add: c_def mark_cancel_fresh)
  have ok: "start_ok s1 request"
    using start(1) by (auto simp: start_ok_def s1_def c quiet_def live_def applied_revision_def states_distinct)
  obtain round rounds where rounds: "ln_rounds env = round # rounds" using assms(4) by (cases "ln_rounds env") auto
  have ops: "list_all typed_op (lr_ops round)" "list_all typed_op (ln_between env)"
    using assms(3) by (simp_all add: typed_loop_def rounds typed_round_def)
  define t where "t = (opened s1 request)\<lparr>rn_control := fold (act ser) (lr_ops round) (rn_control (opened s1 request))\<rparr>"
  have cancelled: "lc_cancel (rn_control (opened s1 request))" by (simp add: opened_def s1_def c)
  have turns: "run_turns parse ser enc (ln_rounds env) (initial_locals request) (opened s1 request)
      = (Done (FP_Cancelled, initial_locals request), t)"
    using cancelled_turns [OF cancelled] by (simp add: rounds t_def del: run_turns.simps)
  have inv: "loop_inv t (initial_locals request)"
    by (rule interfere_inv(2) [OF opened_inv [OF ok] ops(1) t_def])
  have mark: "lc_state (fold (act ser) (ln_between env) (rn_control t)) = cancel_target source"
    unfolding t_def by (auto simp: opened_def s1_def c intro!: marked.acts_stable)
  obtain report u where fin: "finish_loop ser (ln_between env) FP_Cancelled (initial_locals request) t = (Done report, u)"
    "rep_outcome report = LO_Cancelled (source_reason source)" "rep_requests report = 0"
    "rep_appended report = [first_input (rn_id s) request]"
    by (rule finish_loop_run [OF inv ops(2), where path = FP_Cancelled and ser = ser])
      (use mark in \<open>auto simp: sealed_outcome_def cancel_reason_def states_distinct initial_locals_def t_def opened_def s1_def\<close>)
  have "run_loop parse ser enc env request s1 = (Done report, u)"
    by (simp add: run_loop_def run_loop_inner_opened bind_run_def turns fin(1))
  with fin(2-) start(4) show ?thesis by (simp add: s1_def c_def first_input_def)
qed

theorem cancelled_loop_ends_witness:
  "\<exists>a s report s'. AgentLoop_start (\<lambda>_. ([], True)) True 0 [Some (replicate 16 1)] [] sample_loop_request sample_options
      = Some (Ok (a, s))
     \<and> run_loop (\<lambda>_. None) (\<lambda>_. ([], True)) (\<lambda>_. []) sample_loop sample_loop_request
         (s\<lparr>rn_control := fst (mark_cancel CS_Shutdown (al_control a))\<rparr>) = (Done report, s')
     \<and> rep_outcome report = LO_Cancelled CR_Shutdown"
proof -
  obtain a s where start: "AgentLoop_start (\<lambda>_. ([], True)) True 0 [Some (replicate 16 1)] [] sample_loop_request sample_options
      = Some (Ok (a, s))" by (rule sample_agent)
  have "ln_rounds sample_loop \<noteq> []" by (simp add: sample_loop_def)
  from cancelled_loop_ends [OF start sample_tools_ok sample_loop_ok(2) this, where source = CS_Shutdown] start
  show ?thesis unfolding source_reason_def by fastforce
qed

text \<open>
  C15: from start to join.  If the spawned task returns, joining the owner gives its report, which
  is the report every handle waits for; the destructor that runs then finds the loop ended and
  changes nothing, and afterwards no handle can cancel, update or answer any more.
\<close>
theorem loop_start_to_join:
  assumes "AgentLoop_start ser runtime now fills consumer request options = Some (Ok (a, s))"
    and "tool_set_ok (ec_tools (lq_config request))" "typed_loop env"
    and "run_loop parse ser enc env request s = (Done report, s')"
  shows "(\<exists>a'. AgentLoop_join a (rn_control s', Some report) = (a', Ok report) \<and> al_control a' = rn_control s')
     \<and> LoopHandle_wait [published_report (rn_control s')] closed = Done (Ok report)
     \<and> rep_loop_id report = AgentLoop_id a
     \<and> LoopHandle_cancel (rn_control s') = (rn_control s', False)
     \<and> LoopHandle_shutdown (rn_control s') = (rn_control s', False)
     \<and> LoopHandle_is_finished (rn_control s') \<and> lst_status (LoopHandle_state (rn_control s')) = LS_Finished
     \<and> lst_pending_interaction (LoopHandle_state (rn_control s')) = None
     \<and> (\<forall>cfg. LoopHandle_update ser cfg (rn_control s') = Some (rn_control s', Err UE_NotActive))
     \<and> (\<forall>i v. LoopHandle_answer i v (rn_control s') = (rn_control s', Err AE_NotActive))"
proof -
  note start = started_runner [OF assms(1,2)]
  have rep: "concluded report (rn_control s')" "rep_loop_id report = rn_id s"
    by (rule run_loop_result [OF start(1) assms(3,4)]; simp)+
  then have fin: "is_finished (rn_control s')" "published_report (rn_control s') = Some report"
    "lst_status (current_state (rn_control s')) = LS_Finished"
    "lst_pending_interaction (current_state (rn_control s')) = None"
    by (simp_all add: concluded_def)
  have join: "al_join a" using assms(1)
    by (auto simp: AgentLoop_start_def Let_def split: if_splits result.splits option.splits)
  have idle: "\<not> is_active (rn_control s')" using fin(1) by (simp add: is_active_def is_finished_def none_not_finished)
  show ?thesis
    using fin rep(2) start(4) join idle
    by (auto simp: AgentLoop_join_def await_task_def AgentLoop_drop_def mark_cancel_finished LoopHandle_cancel_def
        LoopHandle_shutdown_def LoopHandle_is_finished_def LoopHandle_state_def LoopHandle_update_def LoopHandle_answer_def
        update_def answer_def answer_check_def ok_or_def)
qed

theorem loop_start_to_join_witness:
  "\<exists>a s report s'. AgentLoop_start (\<lambda>_. ([], True)) True 0 [Some (replicate 16 1)] [] sample_loop_request sample_options
      = Some (Ok (a, s))
     \<and> run_loop (\<lambda>_. None) (\<lambda>_. ([], True)) (\<lambda>_. []) sample_loop sample_loop_request s = (Done report, s')
     \<and> snd (AgentLoop_join a (rn_control s', Some report)) = Ok report"
proof -
  obtain a s where start: "AgentLoop_start (\<lambda>_. ([], True)) True 0 [Some (replicate 16 1)] [] sample_loop_request sample_options
      = Some (Ok (a, s))" by (rule sample_agent)
  have ok: "start_ok s sample_loop_request" "rn_options s = sample_options" "lc_state (rn_control s) = STATE_NONE"
    "cs_pending_config (lc_inner (rn_control s)) = None"
    using started_runner [OF start sample_tools_ok] by blast+
  obtain report s' where run: "run_loop (\<lambda>_. None) (\<lambda>_. ([], True)) (\<lambda>_. []) sample_loop sample_loop_request s = (Done report, s')"
    by (rule sample_run_completes [OF ok])
  from loop_start_to_join [OF start sample_tools_ok sample_loop_ok(2) run] start run show ?thesis by force
qed

end
