(* ===== verification/Debug_Output.thy ===== *)
theory Debug_Output
  imports Control
begin

text \<open>
  What \<open>{:?}\<close> shows.  The data types of the runtime carry user text, model text, tool
  arguments and provider payloads, and most of them replace the derived \<open>Debug\<close> by one that
  shows sizes instead of content.  Every \<open>Debug\<close> here is the tree of builder calls it makes
  (\<open>debug_struct\<close>, \<open>field\<close>, \<open>finish\<close>); \<open>debug_fmt\<close> is the text the standard library's
  formatter writes for such a tree.  The derived implementations are modelled as the derive
  expands them.  The theory then says what the output does not depend on: replacing all content
  by blanks of the same size changes nothing.
\<close>

named_theorems debug_defs \<open>the Debug implementations\<close>
named_theorems redact_defs \<open>removal of content\<close>

subsection \<open>The formatter\<close>

datatype dbg =
    Dbg_Text rstr
  | Dbg_Quoted rstr
  | Dbg_Struct string "(string \<times> dbg) list"
  | Dbg_Open_Struct string "(string \<times> dbg) list"
  | Dbg_Tuple string "dbg list"
  | Dbg_List "dbg list"
  | Dbg_Set "dbg list"

fun joined :: "rstr list \<Rightarrow> rstr" where
  "joined [] = []"
| "joined [x] = x"
| "joined (x # xs) = x @ lit '', '' @ joined xs"

definition shown_fields :: "(string \<times> rstr) list \<Rightarrow> rstr" where
  "shown_fields fs = joined (map (\<lambda>f. lit (fst f) @ lit '': '' @ snd f) fs)"

text \<open>
  The one quoted string the runtime shows is the literal \<open><redacted>\<close>, which needs no escapes.
  An open struct is one finished with \<open>finish_non_exhaustive\<close>.
\<close>

primrec debug_fmt :: "dbg \<Rightarrow> rstr" where
  "debug_fmt (Dbg_Text t) = t"
| "debug_fmt (Dbg_Quoted t) = lit [CHR 0x22] @ t @ lit [CHR 0x22]"
| "debug_fmt (Dbg_Struct n fs) =
     (let shown = map (map_prod (\<lambda>x. x) debug_fmt) fs in
      lit n @ (if shown = [] then [] else lit '' { '' @ shown_fields shown @ lit '' }''))"
| "debug_fmt (Dbg_Open_Struct n fs) =
     (let shown = map (map_prod (\<lambda>x. x) debug_fmt) fs in
      lit n @ (if shown = [] then lit '' { .. }'' else lit '' { '' @ shown_fields shown @ lit '', .. }''))"
| "debug_fmt (Dbg_Tuple n ds) =
     (let shown = map debug_fmt ds in
      lit n @ (if shown = [] then [] else lit ''('' @ joined shown @ lit '')''))"
| "debug_fmt (Dbg_List ds) = lit ''['' @ joined (map debug_fmt ds) @ lit '']''"
| "debug_fmt (Dbg_Set ds) = lit ''{'' @ joined (map debug_fmt ds) @ lit ''}''"

definition dbg_name :: "string \<Rightarrow> dbg" where
  "dbg_name n = Dbg_Text (lit n)"

definition dbg_usize :: "nat \<Rightarrow> dbg" where
  "dbg_usize n = Dbg_Text (nat_digits n)"

definition dbg_word :: "'a::len word \<Rightarrow> dbg" where
  "dbg_word w = Dbg_Text (nat_digits (unat w))"

definition dbg_bool :: "bool \<Rightarrow> dbg" where
  "dbg_bool b = dbg_name (if b then ''true'' else ''false'')"

definition dbg_option :: "('a \<Rightarrow> dbg) \<Rightarrow> 'a option \<Rightarrow> dbg" where
  "dbg_option f v = (case v of None \<Rightarrow> dbg_name ''None'' | Some a \<Rightarrow> Dbg_Tuple ''Some'' [f a])"

definition dbg_list :: "('a \<Rightarrow> dbg) \<Rightarrow> 'a list \<Rightarrow> dbg" where
  "dbg_list f vs = Dbg_List (map f vs)"

text \<open>
  \<open>Duration\<close>: the largest unit with a whole part, then the fraction without trailing zeros.
\<close>

primrec fraction_digits :: "nat \<Rightarrow> nat \<Rightarrow> rstr" where
  "fraction_digits 0 f = []"
| "fraction_digits (Suc w) f =
     (if f = 0 then [] else (0x30 + f div 10 ^ w) # fraction_digits w (f mod 10 ^ w))"

definition fmt_decimal :: "nat \<Rightarrow> nat \<Rightarrow> nat \<Rightarrow> rstr \<Rightarrow> rstr" where
  "fmt_decimal whole fraction width unit_name =
     nat_digits whole @ (if fraction = 0 then [] else lit ''.'' @ fraction_digits width fraction) @ unit_name"

definition dbg_duration :: "duration \<Rightarrow> dbg" where
  "dbg_duration d =
     (let secs = d div SECOND; nanos = d mod SECOND in
      Dbg_Text
        (if 0 < secs then fmt_decimal secs nanos 9 (lit ''s'')
         else if 1000000 \<le> nanos then fmt_decimal (nanos div 1000000) (nanos mod 1000000) 6 (lit ''ms'')
         else if 1000 \<le> nanos then fmt_decimal (nanos div 1000) (nanos mod 1000) 3 (0xB5 # lit ''s'')
         else fmt_decimal nanos 0 1 (lit ''ns'')))"

subsection \<open>Text, identifiers, usage\<close>

definition debug_BoundedText :: "BoundedText \<Rightarrow> dbg" where
  [debug_defs]: "debug_BoundedText b = Dbg_Struct ''BoundedText'' [(''bytes'', dbg_usize (bt_byte_len b))]"

definition debug_LoopId :: "LoopId \<Rightarrow> dbg" where
  "debug_LoopId i = Dbg_Text (LoopId_to_string i)"

definition debug_InteractionId :: "InteractionId \<Rightarrow> dbg" where
  "debug_InteractionId i = Dbg_Text (InteractionId_to_string i)"

definition debug_ToolCallId :: "ToolCallId \<Rightarrow> dbg" where
  "debug_ToolCallId i = Dbg_Text (tci_str i)"

definition debug_ModelRef :: "ModelRef \<Rightarrow> dbg" where
  "debug_ModelRef r = Dbg_Text (mref_str r)"

definition debug_ToolName :: "ToolName \<Rightarrow> dbg" where
  "debug_ToolName n = Dbg_Text (tname_str n)"

definition debug_ConfigRevision :: "ConfigRevision \<Rightarrow> dbg" where
  "debug_ConfigRevision r = Dbg_Tuple ''ConfigRevision'' [dbg_word (as_u64 r)]"

definition debug_Usage :: "Usage \<Rightarrow> dbg" where
  "debug_Usage u = Dbg_Struct ''Usage''
     [(''input_tokens'', dbg_option dbg_word (input_tokens u)),
      (''output_tokens'', dbg_option dbg_word (output_tokens u)),
      (''reasoning_tokens'', dbg_option dbg_word (reasoning_tokens u)),
      (''cache_read_tokens'', dbg_option dbg_word (cache_read_tokens u)),
      (''cache_write_tokens'', dbg_option dbg_word (cache_write_tokens u)),
      (''provider_total_tokens'', dbg_option dbg_word (provider_total_tokens u))]"

subsection \<open>Diagnostics and errors\<close>

fun debug_DiagnosticCategory :: "DiagnosticCategory \<Rightarrow> dbg" where
  "debug_DiagnosticCategory DCat_Configuration = dbg_name ''Configuration''"
| "debug_DiagnosticCategory DCat_Model = dbg_name ''Model''"
| "debug_DiagnosticCategory DCat_Tool = dbg_name ''Tool''"
| "debug_DiagnosticCategory DCat_Policy = dbg_name ''Policy''"
| "debug_DiagnosticCategory DCat_Context = dbg_name ''Context''"
| "debug_DiagnosticCategory DCat_Cancellation = dbg_name ''Cancellation''"
| "debug_DiagnosticCategory DCat_Internal = dbg_name ''Internal''"

fun debug_DiagnosticCode :: "DiagnosticCode \<Rightarrow> dbg" where
  "debug_DiagnosticCode DC_InvalidConfiguration = dbg_name ''InvalidConfiguration''"
| "debug_DiagnosticCode DC_ModelTimeout = dbg_name ''ModelTimeout''"
| "debug_DiagnosticCode DC_ModelMalformedResponse = dbg_name ''ModelMalformedResponse''"
| "debug_DiagnosticCode DC_ModelUnavailable = dbg_name ''ModelUnavailable''"
| "debug_DiagnosticCode DC_RuntimeTerminated = dbg_name ''RuntimeTerminated''"
| "debug_DiagnosticCode DC_ContextFailed = dbg_name ''ContextFailed''"
| "debug_DiagnosticCode DC_PolicyDenied = dbg_name ''PolicyDenied''"
| "debug_DiagnosticCode DC_PolicyFailed = dbg_name ''PolicyFailed''"
| "debug_DiagnosticCode DC_ToolNotFound = dbg_name ''ToolNotFound''"
| "debug_DiagnosticCode DC_ToolTimeout = dbg_name ''ToolTimeout''"
| "debug_DiagnosticCode DC_ToolFailed = dbg_name ''ToolFailed''"
| "debug_DiagnosticCode DC_InteractionNotFound = dbg_name ''InteractionNotFound''"
| "debug_DiagnosticCode DC_InteractionKindMismatch = dbg_name ''InteractionKindMismatch''"
| "debug_DiagnosticCode DC_TurnBudgetExceeded = dbg_name ''TurnBudgetExceeded''"
| "debug_DiagnosticCode DC_Internal = dbg_name ''Internal''"

definition debug_DiagnosticSummary :: "DiagnosticSummary \<Rightarrow> dbg" where
  [debug_defs]: "debug_DiagnosticSummary d = Dbg_Struct ''DiagnosticSummary''
     [(''code'', debug_DiagnosticCode (ds_code d)),
      (''category'', debug_DiagnosticCategory (ds_category d)),
      (''message_bytes'', dbg_usize (bt_byte_len (ds_message d))),
      (''retryable'', dbg_bool (ds_retryable d))]"

fun debug_DeliveryState :: "DeliveryState \<Rightarrow> dbg" where
  "debug_DeliveryState NotStarted = dbg_name ''NotStarted''"
| "debug_DeliveryState Started = dbg_name ''Started''"
| "debug_DeliveryState Delivery_Unknown = dbg_name ''Unknown''"

fun debug_ModelErrorKind :: "ModelErrorKind \<Rightarrow> dbg" where
  "debug_ModelErrorKind ME_InvalidRequest = dbg_name ''InvalidRequest''"
| "debug_ModelErrorKind ME_Unavailable = dbg_name ''Unavailable''"
| "debug_ModelErrorKind ME_ProviderUnavailable = dbg_name ''ProviderUnavailable''"
| "debug_ModelErrorKind ME_AuthMissing = dbg_name ''AuthMissing''"
| "debug_ModelErrorKind ME_AuthRejected = dbg_name ''AuthRejected''"
| "debug_ModelErrorKind ME_RateLimited = dbg_name ''RateLimited''"
| "debug_ModelErrorKind ME_QuotaExceeded = dbg_name ''QuotaExceeded''"
| "debug_ModelErrorKind ME_ContextOverflow = dbg_name ''ContextOverflow''"
| "debug_ModelErrorKind ME_Timeout = dbg_name ''Timeout''"
| "debug_ModelErrorKind ME_TransportUnavailable = dbg_name ''TransportUnavailable''"
| "debug_ModelErrorKind ME_Cancelled = dbg_name ''Cancelled''"
| "debug_ModelErrorKind ME_InvalidProviderResponse = dbg_name ''InvalidProviderResponse''"
| "debug_ModelErrorKind ME_IncompleteResponse = dbg_name ''IncompleteResponse''"
| "debug_ModelErrorKind ME_StreamInterrupted = dbg_name ''StreamInterrupted''"
| "debug_ModelErrorKind ME_RequestOutcomeUnknown = dbg_name ''RequestOutcomeUnknown''"
| "debug_ModelErrorKind ME_UnexpectedToolCall = dbg_name ''UnexpectedToolCall''"
| "debug_ModelErrorKind ME_Panicked = dbg_name ''Panicked''"
| "debug_ModelErrorKind ME_Internal = dbg_name ''Internal''"

fun debug_RetryHint :: "RetryHint \<Rightarrow> dbg" where
  "debug_RetryHint Never = dbg_name ''Never''"
| "debug_RetryHint (Retryable after) = Dbg_Struct ''Retryable'' [(''retry_after'', dbg_option dbg_duration after)]"

definition debug_ModelError :: "ModelError \<Rightarrow> dbg" where
  [debug_defs]: "debug_ModelError e = Dbg_Struct ''ModelError''
     [(''kind'', debug_ModelErrorKind (me_kind e)),
      (''delivery'', debug_DeliveryState (me_delivery e)),
      (''retry_hint'', debug_RetryHint (me_retry_hint e)),
      (''diagnostic'', debug_DiagnosticSummary (me_diagnostic e))]"

text \<open>\<open>Display\<close> of a model error, which also goes through \<open>{:?}\<close>.\<close>

definition display_ModelError :: "ModelError \<Rightarrow> rstr" where
  [debug_defs]: "display_ModelError e =
     lit ''model error: kind='' @ debug_fmt (debug_ModelErrorKind (me_kind e))
     @ lit '', delivery='' @ debug_fmt (debug_DeliveryState (me_delivery e))
     @ lit '', retry_hint='' @ debug_fmt (debug_RetryHint (me_retry_hint e))"

definition debug_ProviderReplay :: "ProviderReplay \<Rightarrow> dbg" where
  [debug_defs]: "debug_ProviderReplay r = Dbg_Open_Struct ''ProviderReplay'' [(''bytes'', dbg_usize (replay_bytes r))]"

subsection \<open>Tools, decisions and interactions\<close>

fun debug_ToolResultOutcome :: "ToolResultOutcome \<Rightarrow> dbg" where
  "debug_ToolResultOutcome TR_Success = dbg_name ''Success''"
| "debug_ToolResultOutcome TR_Failed = dbg_name ''Failed''"
| "debug_ToolResultOutcome TR_Denied = dbg_name ''Denied''"
| "debug_ToolResultOutcome TR_Cancelled = dbg_name ''Cancelled''"
| "debug_ToolResultOutcome TR_InputProvided = dbg_name ''InputProvided''"

text \<open>
  The schema of a specification is shown by its size.  Both \<open>expect\<close>s panic, hence the option:
  the one in \<open>json_bytes\<close> and the one on \<open>as_object\<close>.
\<close>

definition debug_ToolSpec :: "json serializer \<Rightarrow> ToolSpec \<Rightarrow> dbg option" where
  "debug_ToolSpec ser s =
     (case (json_bytes ser (spec_input_schema s), json_as_object (spec_input_schema s)) of
        (Some schema_bytes, Some schema_object) \<Rightarrow> Some (Dbg_Struct ''ToolSpec''
          [(''name'', debug_ToolName (spec_name s)),
           (''description_bytes'', dbg_usize (bt_byte_len (spec_description s))),
           (''schema_object_keys'', dbg_usize (length schema_object)),
           (''schema_bytes'', dbg_usize schema_bytes)])
      | _ \<Rightarrow> None)"

definition debug_ToolOutput :: "ToolOutput \<Rightarrow> dbg" where
  [debug_defs]: "debug_ToolOutput t = Dbg_Struct ''ToolOutput'' [(''content_bytes'', dbg_usize (bt_byte_len (out_content t)))]"

definition debug_ToolInvocation :: "ToolInvocation \<Rightarrow> dbg" where
  [debug_defs]: "debug_ToolInvocation i = Dbg_Struct ''ToolInvocation''
     [(''tool_call_id'', debug_ToolCallId (inv_tool_call_id i)),
      (''tool_name'', debug_ToolName (inv_tool_name i)),
      (''arguments'', Dbg_Quoted (lit ''<redacted>''))]"

definition debug_ToolProgress :: "ToolProgress \<Rightarrow> dbg" where
  [debug_defs]: "debug_ToolProgress p = Dbg_Struct ''ToolProgress''
     [(''message_bytes'', dbg_option (\<lambda>m. dbg_usize (bt_byte_len m)) (tp_message p)),
      (''completed'', dbg_option dbg_word (tp_completed p)),
      (''total'', dbg_option dbg_word (tp_total p))]"

fun debug_ApprovalRisk :: "ApprovalRisk \<Rightarrow> dbg" where
  "debug_ApprovalRisk Risk_Low = dbg_name ''Low''"
| "debug_ApprovalRisk Risk_Medium = dbg_name ''Medium''"
| "debug_ApprovalRisk Risk_High = dbg_name ''High''"

definition debug_ApprovalRequest :: "ApprovalRequest \<Rightarrow> dbg" where
  [debug_defs]: "debug_ApprovalRequest r = Dbg_Struct ''ApprovalRequest''
     [(''prompt_bytes'', dbg_usize (bt_byte_len (ar_prompt r))),
      (''risk'', debug_ApprovalRisk (ar_risk r))]"

fun debug_ApprovalDecision :: "ApprovalDecision \<Rightarrow> dbg" where
  "debug_ApprovalDecision AllowOnce = dbg_name ''AllowOnce''"
| "debug_ApprovalDecision Deny_Approval = dbg_name ''Deny''"

fun debug_ToolDecision :: "ToolDecision \<Rightarrow> dbg" where
  "debug_ToolDecision TD_Allow = dbg_name ''Allow''"
| "debug_ToolDecision (TD_Deny reason) = Dbg_Struct ''Deny'' [(''reason_bytes'', dbg_usize (bt_byte_len reason))]"
| "debug_ToolDecision (TD_RequireApproval request) =
     Dbg_Struct ''RequireApproval'' [(''request'', debug_ApprovalRequest request)]"

text \<open>
  What a policy is asked.  \<open>Instant\<close> is the timer library's, whose \<open>Debug\<close> is the parameter
  \<open>dbg_instant\<close>; of the token only whether it is cancelled is shown.
\<close>

record ToolPolicyRequest =
  pr_invocation :: ToolInvocation
  pr_spec :: ToolSpec
  pr_cancelled :: bool
  pr_deadline :: instant

definition debug_ToolPolicyRequest ::
  "json serializer \<Rightarrow> (instant \<Rightarrow> dbg) \<Rightarrow> ToolPolicyRequest \<Rightarrow> dbg option" where
  "debug_ToolPolicyRequest ser dbg_instant r =
     map_option (\<lambda>spec. Dbg_Struct ''ToolPolicyRequest''
       [(''invocation'', debug_ToolInvocation (pr_invocation r)), (''spec'', spec),
        (''cancelled'', dbg_bool (pr_cancelled r)), (''deadline'', dbg_instant (pr_deadline r))])
       (debug_ToolSpec ser (pr_spec r))"

fun debug_ToolInputAnswerKind :: "ToolInputAnswerKind \<Rightarrow> dbg" where
  "debug_ToolInputAnswerKind Kind_Text = dbg_name ''Text''"
| "debug_ToolInputAnswerKind Kind_SingleChoice = dbg_name ''SingleChoice''"

definition debug_ToolInputRequest :: "ToolInputRequest \<Rightarrow> dbg" where
  [debug_defs]: "debug_ToolInputRequest r = Dbg_Struct ''ToolInputRequest''
     [(''prompt'', debug_BoundedText (ti_prompt r)),
      (''choices'', dbg_list debug_BoundedText (ti_choices r)),
      (''answer_kind'', debug_ToolInputAnswerKind (ti_answer_kind r))]"

fun debug_InteractionKind :: "InteractionKind \<Rightarrow> dbg" where
  "debug_InteractionKind (IK_Approval request) = Dbg_Tuple ''Approval'' [debug_ApprovalRequest request]"
| "debug_InteractionKind (IK_ToolInput request) = Dbg_Struct ''ToolInput''
     [(''prompt_bytes'', dbg_usize (bt_byte_len (ti_prompt request))),
      (''choice_count'', dbg_usize (length (ti_choices request))),
      (''answer_kind'', debug_ToolInputAnswerKind (ti_answer_kind request))]"

fun debug_InteractionAnswer :: "InteractionAnswer \<Rightarrow> dbg" where
  "debug_InteractionAnswer (IA_Approval decision) = Dbg_Tuple ''Approval'' [debug_ApprovalDecision decision]"
| "debug_InteractionAnswer (IA_ToolInput (Answer_Text text)) =
     Dbg_Struct ''ToolInputText'' [(''text_bytes'', dbg_usize (bt_byte_len text))]"
| "debug_InteractionAnswer (IA_ToolInput (Answer_Choice index)) =
     Dbg_Struct ''ToolInputChoice'' [(''index'', dbg_usize index)]"

definition debug_PendingInteraction :: "PendingInteraction \<Rightarrow> dbg" where
  [debug_defs]: "debug_PendingInteraction p = Dbg_Struct ''PendingInteraction''
     [(''interaction_id'', debug_InteractionId (pi_interaction_id p)),
      (''tool_call_id'', debug_ToolCallId (pi_tool_call_id p)),
      (''tool_name'', debug_ToolName (pi_tool_name p)),
      (''kind'', debug_InteractionKind (pi_kind p))]"

subsection \<open>Messages, requests, responses\<close>

definition debug_ReasoningContent :: "ReasoningContent \<Rightarrow> dbg" where
  [debug_defs]: "debug_ReasoningContent r = Dbg_Struct ''ReasoningContent''
     [(''text_bytes'', dbg_option (\<lambda>t. dbg_usize (str_len t)) (rc_text r)),
      (''summary_bytes'', dbg_option (\<lambda>t. dbg_usize (str_len t)) (rc_summary r)),
      (''has_encrypted'', dbg_bool (rc_encrypted r \<noteq> None)),
      (''has_signature'', dbg_bool (rc_signature r \<noteq> None))]"

definition debug_ToolCall :: "ToolCall \<Rightarrow> dbg" where
  [debug_defs]: "debug_ToolCall c = Dbg_Struct ''ToolCall''
     [(''tool_call_id'', debug_ToolCallId (tc_id c)),
      (''name'', debug_ToolName (tc_name c)),
      (''call_index'', dbg_word (tc_index c)),
      (''arguments'', Dbg_Quoted (lit ''<redacted>''))]"

fun debug_AssistantPart :: "AssistantPart \<Rightarrow> dbg" where
  "debug_AssistantPart (AP_Text t) = Dbg_Struct ''AssistantPart::Text'' [(''text_bytes'', dbg_usize (str_len t))]"
| "debug_AssistantPart (AP_Reasoning r) = Dbg_Tuple ''AssistantPart::Reasoning'' [debug_ReasoningContent r]"
| "debug_AssistantPart (AP_ToolCall c) = Dbg_Tuple ''AssistantPart::ToolCall'' [debug_ToolCall c]"

fun debug_ModelMessage :: "ModelMessage \<Rightarrow> dbg" where
  "debug_ModelMessage (MM_System t) = Dbg_Struct ''ModelMessage::System'' [(''text_bytes'', dbg_usize (str_len t))]"
| "debug_ModelMessage (MM_User t) = Dbg_Struct ''ModelMessage::User'' [(''text_bytes'', dbg_usize (str_len t))]"
| "debug_ModelMessage (MM_Assistant parts) = Dbg_Struct ''ModelMessage::Assistant''
     [(''part_count'', dbg_usize (length parts)), (''parts'', dbg_list debug_AssistantPart parts)]"
| "debug_ModelMessage (MM_AssistantWithReplay parts provider_replay) =
     Dbg_Struct ''ModelMessage::AssistantWithReplay''
       [(''provider_replay'', debug_ProviderReplay provider_replay),
        (''part_count'', dbg_usize (length parts)), (''parts'', dbg_list debug_AssistantPart parts)]"
| "debug_ModelMessage (MM_Tool tool_call_id output outcome) = Dbg_Struct ''ModelMessage::Tool''
     [(''tool_call_id'', debug_ToolCallId tool_call_id), (''output'', debug_ToolOutput output),
      (''outcome'', debug_ToolResultOutcome outcome)]"

fun debug_ReasoningPreference :: "ReasoningPreference \<Rightarrow> dbg" where
  "debug_ReasoningPreference RP_Auto = dbg_name ''Auto''"
| "debug_ReasoningPreference RP_Disabled = dbg_name ''Disabled''"
| "debug_ReasoningPreference RP_Low = dbg_name ''Low''"
| "debug_ReasoningPreference RP_Medium = dbg_name ''Medium''"
| "debug_ReasoningPreference RP_High = dbg_name ''High''"
| "debug_ReasoningPreference RP_XHigh = dbg_name ''XHigh''"
| "debug_ReasoningPreference RP_Max = dbg_name ''Max''"
| "debug_ReasoningPreference RP_Ultra = dbg_name ''Ultra''"

definition debug_ModelLimits :: "ModelLimits \<Rightarrow> dbg" where
  "debug_ModelLimits l = Dbg_Struct ''ModelLimits''
     [(''context_window_tokens'', dbg_option dbg_word (context_window_tokens l)),
      (''max_output_tokens'', dbg_option dbg_word (max_output_tokens l))]"

definition debug_ModelRequest :: "ModelRequest \<Rightarrow> dbg" where
  [debug_defs]: "debug_ModelRequest r = Dbg_Struct ''ModelRequest''
     [(''message_count'', dbg_usize (length (mq_messages r))),
      (''tool_count'', dbg_usize (length (mq_tools r))),
      (''limits'', debug_ModelLimits (mq_limits r)),
      (''reasoning'', debug_ReasoningPreference (mq_reasoning r))]"

text \<open>The supported preferences are an ordered set, shown in the order of the variants.\<close>

definition debug_ModelDescriptor :: "ModelDescriptor \<Rightarrow> dbg" where
  "debug_ModelDescriptor d = Dbg_Struct ''ModelDescriptor''
     [(''model_ref'', debug_ModelRef (md_model_ref d)),
      (''context_window'', dbg_word (md_context_window d)),
      (''supported_reasoning'', Dbg_Set (map debug_ReasoningPreference
         (filter (\<lambda>p. p \<in> md_supported_reasoning d)
            [RP_Auto, RP_Disabled, RP_Low, RP_Medium, RP_High, RP_XHigh, RP_Max, RP_Ultra]))),
      (''supports_tools'', dbg_bool (md_supports_tools d))]"

record ModelCallContext =
  cx_loop_id :: LoopId
  cx_request_index :: u32
  cx_cancelled :: bool
  cx_deadline :: instant

definition ModelCallContext_new :: "LoopId \<Rightarrow> u32 \<Rightarrow> bool \<Rightarrow> instant \<Rightarrow> ModelCallContext" where
  "ModelCallContext_new loop_id request_index cancelled deadline =
     \<lparr>cx_loop_id = loop_id, cx_request_index = request_index, cx_cancelled = cancelled, cx_deadline = deadline\<rparr>"

definition debug_ModelCallContext :: "(instant \<Rightarrow> dbg) \<Rightarrow> ModelCallContext \<Rightarrow> dbg" where
  "debug_ModelCallContext dbg_instant c = Dbg_Struct ''ModelCallContext''
     [(''loop_id'', debug_LoopId (cx_loop_id c)), (''request_index'', dbg_word (cx_request_index c)),
      (''cancelled'', dbg_bool (cx_cancelled c)), (''deadline'', dbg_instant (cx_deadline c))]"

fun debug_ModelFinishReason :: "ModelFinishReason \<Rightarrow> dbg" where
  "debug_ModelFinishReason FR_Stop = dbg_name ''Stop''"
| "debug_ModelFinishReason FR_ToolCalls = dbg_name ''ToolCalls''"
| "debug_ModelFinishReason FR_Length = dbg_name ''Length''"
| "debug_ModelFinishReason FR_ContentFiltered = dbg_name ''ContentFiltered''"
| "debug_ModelFinishReason FR_Refused = dbg_name ''Refused''"
| "debug_ModelFinishReason FR_Unknown = dbg_name ''Unknown''"

definition debug_ModelResponse :: "ModelResponse \<Rightarrow> dbg" where
  [debug_defs]: "debug_ModelResponse r = Dbg_Struct ''ModelResponse''
     [(''part_count'', dbg_usize (length (mr_parts r))),
      (''parts'', dbg_list debug_AssistantPart (mr_parts r)),
      (''provider_replay'', dbg_option debug_ProviderReplay (mr_provider_replay r)),
      (''finish_reason'', debug_ModelFinishReason (mr_finish_reason r)),
      (''usage'', dbg_option debug_Usage (mr_usage r))]"

fun debug_ModelEvent :: "ModelEvent \<Rightarrow> dbg" where
  "debug_ModelEvent (EV_TextDelta delta) = Dbg_Struct ''TextDelta'' [(''delta_bytes'', dbg_usize (bt_byte_len delta))]"
| "debug_ModelEvent (EV_ReasoningDelta delta) =
     Dbg_Struct ''ReasoningDelta'' [(''delta_bytes'', dbg_usize (bt_byte_len delta))]"
| "debug_ModelEvent (EV_ToolCallStart tool_call_id tool_name) = Dbg_Struct ''ToolCallStart''
     [(''tool_call_id'', debug_ToolCallId tool_call_id), (''tool_name'', debug_ToolName tool_name)]"
| "debug_ModelEvent (EV_ToolCallArgumentsDelta tool_call_id delta) = Dbg_Struct ''ToolCallArgumentsDelta''
     [(''tool_call_id'', debug_ToolCallId tool_call_id), (''delta_bytes'', dbg_usize (bt_byte_len delta))]"
| "debug_ModelEvent (EV_ToolCallEnd tool_call_id) =
     Dbg_Struct ''ToolCallEnd'' [(''tool_call_id'', debug_ToolCallId tool_call_id)]"
| "debug_ModelEvent (EV_Usage usage) = Dbg_Tuple ''Usage'' [debug_Usage usage]"
| "debug_ModelEvent (EV_ProviderReplay replay) = Dbg_Tuple ''ProviderReplay'' [debug_ProviderReplay replay]"
| "debug_ModelEvent (EV_Finish reason) = Dbg_Tuple ''Finish'' [debug_ModelFinishReason reason]"

text \<open>The default prompt provider holds an optional system prompt.\<close>

definition debug_DefaultPromptProvider :: "BoundedText option \<Rightarrow> dbg" where
  [debug_defs]: "debug_DefaultPromptProvider system_prompt = Dbg_Struct ''DefaultPromptProvider''
     [(''system_prompt_bytes'', dbg_option (\<lambda>t. dbg_usize (bt_byte_len t)) system_prompt)]"

subsection \<open>History\<close>

fun debug_UserInput :: "UserInput \<Rightarrow> dbg" where
  "debug_UserInput (UI_Text t) = Dbg_Tuple ''Text'' [debug_BoundedText t]"

fun debug_UserMessageKind :: "UserMessageKind \<Rightarrow> dbg" where
  "debug_UserMessageKind UK_Prompt = dbg_name ''Prompt''"
| "debug_UserMessageKind UK_Steering = dbg_name ''Steering''"

definition debug_UserHistory :: "UserHistory \<Rightarrow> dbg" where
  [debug_defs]: "debug_UserHistory u = Dbg_Struct ''UserHistory''
     [(''loop_id'', debug_LoopId (uh_loop_id u)), (''kind'', debug_UserMessageKind (uh_kind u)),
      (''input'', debug_UserInput (uh_input u))]"

definition debug_AssistantHistory :: "AssistantHistory \<Rightarrow> dbg" where
  [debug_defs]: "debug_AssistantHistory a = Dbg_Struct ''AssistantHistory''
     [(''loop_id'', debug_LoopId (ah_loop_id a)), (''request_index'', dbg_word (ah_request_index a)),
      (''model'', debug_ModelRef (ah_model a)), (''reasoning'', debug_ReasoningPreference (ah_reasoning a)),
      (''content'', dbg_list debug_AssistantPart (ah_content a)),
      (''provider_replay'', dbg_option debug_ProviderReplay (ah_provider_replay a)),
      (''finish_reason'', debug_ModelFinishReason (ah_finish_reason a)),
      (''usage'', debug_Usage (ah_usage a))]"

definition debug_ToolResultHistory :: "ToolResultHistory \<Rightarrow> dbg" where
  [debug_defs]: "debug_ToolResultHistory r = Dbg_Struct ''ToolResultHistory''
     [(''loop_id'', debug_LoopId (th_loop_id r)), (''request_index'', dbg_word (th_request_index r)),
      (''call_id'', debug_ToolCallId (th_call_id r)), (''tool_name'', debug_ToolName (th_tool_name r)),
      (''outcome'', debug_ToolResultOutcome (th_outcome r)), (''output'', debug_ToolOutput (th_output r))]"

definition debug_SummaryHistory :: "SummaryHistory \<Rightarrow> dbg" where
  [debug_defs]: "debug_SummaryHistory s = Dbg_Struct ''SummaryHistory'' [(''content'', debug_BoundedText (sh_content s))]"

fun debug_HistoryItem :: "HistoryItem \<Rightarrow> dbg" where
  "debug_HistoryItem (HI_User u) = Dbg_Tuple ''User'' [debug_UserHistory u]"
| "debug_HistoryItem (HI_Assistant a) = Dbg_Tuple ''Assistant'' [debug_AssistantHistory a]"
| "debug_HistoryItem (HI_ToolResult r) = Dbg_Tuple ''ToolResult'' [debug_ToolResultHistory r]"
| "debug_HistoryItem (HI_Summary s) = Dbg_Tuple ''Summary'' [debug_SummaryHistory s]"

definition debug_HistoryView :: "HistoryView \<Rightarrow> dbg" where
  [debug_defs]: "debug_HistoryView v = Dbg_Struct ''HistoryView''
     [(''base'', dbg_list debug_HistoryItem (hv_base v)),
      (''appended'', dbg_list debug_HistoryItem (hv_appended v))]"

subsection \<open>Loops\<close>

fun debug_CancelReason :: "CancelReason \<Rightarrow> dbg" where
  "debug_CancelReason CR_User = dbg_name ''User''"
| "debug_CancelReason CR_OwnerDropped = dbg_name ''OwnerDropped''"
| "debug_CancelReason CR_Shutdown = dbg_name ''Shutdown''"
| "debug_CancelReason CR_Deadline = dbg_name ''Deadline''"

fun debug_LoopFailureKind :: "LoopFailureKind \<Rightarrow> dbg" where
  "debug_LoopFailureKind LF_Prompt = dbg_name ''Prompt''"
| "debug_LoopFailureKind LF_Model = dbg_name ''Model''"
| "debug_LoopFailureKind LF_InvalidModelResponse = dbg_name ''InvalidModelResponse''"
| "debug_LoopFailureKind LF_OutputLimit = dbg_name ''OutputLimit''"
| "debug_LoopFailureKind LF_Refused = dbg_name ''Refused''"
| "debug_LoopFailureKind LF_ContentFiltered = dbg_name ''ContentFiltered''"
| "debug_LoopFailureKind LF_Policy = dbg_name ''Policy''"
| "debug_LoopFailureKind LF_Interaction = dbg_name ''Interaction''"
| "debug_LoopFailureKind LF_MaxToolRounds = dbg_name ''MaxToolRounds''"
| "debug_LoopFailureKind LF_Internal = dbg_name ''Internal''"

definition debug_LoopFailure :: "LoopFailure \<Rightarrow> dbg" where
  [debug_defs]: "debug_LoopFailure f = Dbg_Struct ''LoopFailure''
     [(''kind'', debug_LoopFailureKind (lf_kind f)),
      (''diagnostic'', debug_DiagnosticSummary (lf_diagnostic f)),
      (''model_error'', dbg_option debug_ModelError (lf_model_error f))]"

fun debug_LoopOutcome :: "LoopOutcome \<Rightarrow> dbg" where
  "debug_LoopOutcome LO_Completed = dbg_name ''Completed''"
| "debug_LoopOutcome (LO_Cancelled reason) = Dbg_Tuple ''Cancelled'' [debug_CancelReason reason]"
| "debug_LoopOutcome (LO_Failed failure) = Dbg_Tuple ''Failed'' [debug_LoopFailure failure]"

definition debug_LoopReport :: "LoopReport \<Rightarrow> dbg" where
  [debug_defs]: "debug_LoopReport r = Dbg_Struct ''LoopReport''
     [(''loop_id'', debug_LoopId (rep_loop_id r)), (''outcome'', debug_LoopOutcome (rep_outcome r)),
      (''appended'', dbg_list debug_HistoryItem (rep_appended r)), (''usage'', debug_Usage (rep_usage r)),
      (''requests'', dbg_word (rep_requests r)), (''tool_rounds'', dbg_word (rep_tool_rounds r)),
      (''final_config_revision'', debug_ConfigRevision (rep_final_config_revision r))]"

fun debug_LoopStatus :: "LoopStatus \<Rightarrow> dbg" where
  "debug_LoopStatus LS_Starting = dbg_name ''Starting''"
| "debug_LoopStatus LS_RunningModel = dbg_name ''RunningModel''"
| "debug_LoopStatus LS_RunningTools = dbg_name ''RunningTools''"
| "debug_LoopStatus LS_WaitingForInput = dbg_name ''WaitingForInput''"
| "debug_LoopStatus LS_Finishing = dbg_name ''Finishing''"
| "debug_LoopStatus LS_Finished = dbg_name ''Finished''"

definition debug_LoopState :: "LoopState \<Rightarrow> dbg" where
  [debug_defs]: "debug_LoopState s = Dbg_Struct ''LoopState''
     [(''loop_id'', debug_LoopId (lst_loop_id s)), (''status'', debug_LoopStatus (lst_status s)),
      (''request_index'', dbg_word (lst_request_index s)),
      (''config_revision'', debug_ConfigRevision (lst_config_revision s)),
      (''model'', dbg_option debug_ModelRef (lst_model s)),
      (''pending_interaction'', dbg_option debug_PendingInteraction (lst_pending_interaction s))]"

fun debug_OutputChannel :: "OutputChannel \<Rightarrow> dbg" where
  "debug_OutputChannel OC_Text = dbg_name ''Text''"
| "debug_OutputChannel OC_Reasoning = dbg_name ''Reasoning''"

fun debug_LoopOutcomeSummary :: "LoopOutcomeSummary \<Rightarrow> dbg" where
  "debug_LoopOutcomeSummary OS_Completed = dbg_name ''Completed''"
| "debug_LoopOutcomeSummary (OS_Cancelled reason) = Dbg_Tuple ''Cancelled'' [debug_CancelReason reason]"
| "debug_LoopOutcomeSummary (OS_Failed kind) = Dbg_Tuple ''Failed'' [debug_LoopFailureKind kind]"

fun debug_LoopEvent :: "LoopEvent \<Rightarrow> dbg" where
  "debug_LoopEvent (EV_Started loop_id) = Dbg_Struct ''Started'' [(''loop_id'', debug_LoopId loop_id)]"
| "debug_LoopEvent (EV_StateChanged state) = Dbg_Struct ''StateChanged'' [(''state'', debug_LoopState state)]"
| "debug_LoopEvent (EV_RequestStarted loop_id request_index config_revision model reasoning) =
     Dbg_Struct ''RequestStarted''
       [(''loop_id'', debug_LoopId loop_id), (''request_index'', dbg_word request_index),
        (''config_revision'', debug_ConfigRevision config_revision), (''model'', debug_ModelRef model),
        (''reasoning'', debug_ReasoningPreference reasoning)]"
| "debug_LoopEvent (EV_OutputDelta loop_id request_index channel delta) = Dbg_Struct ''OutputDelta''
     [(''loop_id'', debug_LoopId loop_id), (''request_index'', dbg_word request_index),
      (''channel'', debug_OutputChannel channel), (''delta'', debug_BoundedText delta)]"
| "debug_LoopEvent (EV_ToolStarted loop_id request_index call_id tool_name) = Dbg_Struct ''ToolStarted''
     [(''loop_id'', debug_LoopId loop_id), (''request_index'', dbg_word request_index),
      (''call_id'', debug_ToolCallId call_id), (''tool_name'', debug_ToolName tool_name)]"
| "debug_LoopEvent (EV_ToolProgress loop_id request_index call_id progress) = Dbg_Struct ''ToolProgress''
     [(''loop_id'', debug_LoopId loop_id), (''request_index'', dbg_word request_index),
      (''call_id'', debug_ToolCallId call_id), (''progress'', debug_ToolProgress progress)]"
| "debug_LoopEvent (EV_ToolFinished loop_id request_index call_id outcome output_bytes) =
     Dbg_Struct ''ToolFinished''
       [(''loop_id'', debug_LoopId loop_id), (''request_index'', dbg_word request_index),
        (''call_id'', debug_ToolCallId call_id), (''outcome'', debug_ToolResultOutcome outcome),
        (''output_bytes'', dbg_usize output_bytes)]"
| "debug_LoopEvent (EV_InteractionRequested loop_id interaction) = Dbg_Struct ''InteractionRequested''
     [(''loop_id'', debug_LoopId loop_id), (''interaction'', debug_PendingInteraction interaction)]"
| "debug_LoopEvent (EV_InteractionResolved loop_id interaction_id) = Dbg_Struct ''InteractionResolved''
     [(''loop_id'', debug_LoopId loop_id), (''interaction_id'', debug_InteractionId interaction_id)]"
| "debug_LoopEvent (EV_Finished loop_id outcome) = Dbg_Struct ''Finished''
     [(''loop_id'', debug_LoopId loop_id), (''outcome'', debug_LoopOutcomeSummary outcome)]"

definition debug_LoopEventEnvelope :: "LoopEventEnvelope \<Rightarrow> dbg" where
  [debug_defs]: "debug_LoopEventEnvelope e = Dbg_Struct ''LoopEventEnvelope''
     [(''dropped_before'', dbg_word (env_dropped_before e)), (''event'', debug_LoopEvent (env_event e))]"

definition debug_LoopHandle :: "'c LoopControl \<Rightarrow> dbg" where
  "debug_LoopHandle c = Dbg_Struct ''LoopHandle'' [(''loop_id'', debug_LoopId (lc_id c))]"

definition debug_LoopEventStream :: dbg where
  "debug_LoopEventStream = dbg_name ''LoopEventStream { .. }''"

subsection \<open>Removing content\<close>

text \<open>
  A blank of the same size in bytes for every text; no reasoning artifact, no arguments, no
  payload.  Identifiers, names of tools and models, counters and outcomes stay.
\<close>

definition blank :: "rstr \<Rightarrow> rstr" where
  "blank t = replicate (str_len t) 0x20"

definition blank_text :: "BoundedText \<Rightarrow> BoundedText" where
  "blank_text b = BoundedText (blank (as_str b))"

definition redact_replay :: "ProviderReplay \<Rightarrow> ProviderReplay" where
  [redact_defs]: "redact_replay r = r\<lparr>replay_format := [], replay_payload := JNull\<rparr>"

definition redact_diagnostic :: "DiagnosticSummary \<Rightarrow> DiagnosticSummary" where
  [redact_defs]: "redact_diagnostic d = d\<lparr>ds_message := blank_text (ds_message d)\<rparr>"

definition redact_error :: "ModelError \<Rightarrow> ModelError" where
  [redact_defs]: "redact_error e = e\<lparr>me_diagnostic := redact_diagnostic (me_diagnostic e)\<rparr>"

definition redact_reasoning :: "ReasoningContent \<Rightarrow> ReasoningContent" where
  [redact_defs]: "redact_reasoning r =
     \<lparr>rc_text = map_option blank (rc_text r), rc_summary = map_option blank (rc_summary r),
      rc_encrypted = map_option (\<lambda>_. []) (rc_encrypted r), rc_signature = map_option (\<lambda>_. []) (rc_signature r)\<rparr>"

fun redact_part :: "AssistantPart \<Rightarrow> AssistantPart" where
  "redact_part (AP_Text t) = AP_Text (blank t)"
| "redact_part (AP_Reasoning r) = AP_Reasoning (redact_reasoning r)"
| "redact_part (AP_ToolCall c) = AP_ToolCall (c\<lparr>tc_arguments := JNull\<rparr>)"

definition redact_output :: "ToolOutput \<Rightarrow> ToolOutput" where
  [redact_defs]: "redact_output t = ToolOutput (blank_text (out_content t))"

fun redact_message :: "ModelMessage \<Rightarrow> ModelMessage" where
  "redact_message (MM_System t) = MM_System (blank t)"
| "redact_message (MM_User t) = MM_User (blank t)"
| "redact_message (MM_Assistant parts) = MM_Assistant (map redact_part parts)"
| "redact_message (MM_AssistantWithReplay parts replay) =
     MM_AssistantWithReplay (map redact_part parts) (redact_replay replay)"
| "redact_message (MM_Tool call_id output outcome) = MM_Tool call_id (redact_output output) outcome"

definition redact_request :: "ModelRequest \<Rightarrow> ModelRequest" where
  [redact_defs]: "redact_request r = r\<lparr>mq_messages := map (\<lambda>_. MM_System []) (mq_messages r),
     mq_tools := map (\<lambda>s. s\<lparr>spec_description := BoundedText [], spec_input_schema := JNull\<rparr>) (mq_tools r)\<rparr>"

definition redact_response :: "ModelResponse \<Rightarrow> ModelResponse" where
  [redact_defs]: "redact_response r = r\<lparr>mr_parts := map redact_part (mr_parts r),
     mr_provider_replay := map_option redact_replay (mr_provider_replay r)\<rparr>"

fun redact_model_event :: "ModelEvent \<Rightarrow> ModelEvent" where
  "redact_model_event (EV_TextDelta delta) = EV_TextDelta (blank_text delta)"
| "redact_model_event (EV_ReasoningDelta delta) = EV_ReasoningDelta (blank_text delta)"
| "redact_model_event (EV_ToolCallArgumentsDelta call_id delta) =
     EV_ToolCallArgumentsDelta call_id (blank_text delta)"
| "redact_model_event (EV_ProviderReplay replay) = EV_ProviderReplay (redact_replay replay)"
| "redact_model_event ev = ev"

fun redact_item :: "HistoryItem \<Rightarrow> HistoryItem" where
  "redact_item (HI_User u) = HI_User (u\<lparr>uh_input := UI_Text (blank_text (ui_text (uh_input u)))\<rparr>)"
| "redact_item (HI_Assistant a) = HI_Assistant (a\<lparr>ah_content := map redact_part (ah_content a),
     ah_provider_replay := map_option redact_replay (ah_provider_replay a)\<rparr>)"
| "redact_item (HI_ToolResult r) = HI_ToolResult (r\<lparr>th_output := redact_output (th_output r)\<rparr>)"
| "redact_item (HI_Summary s) = HI_Summary (s\<lparr>sh_content := blank_text (sh_content s)\<rparr>)"

fun redact_outcome :: "LoopOutcome \<Rightarrow> LoopOutcome" where
  "redact_outcome (LO_Failed f) = LO_Failed (f\<lparr>lf_diagnostic := redact_diagnostic (lf_diagnostic f),
     lf_model_error := map_option redact_error (lf_model_error f)\<rparr>)"
| "redact_outcome oc = oc"

definition redact_report :: "LoopReport \<Rightarrow> LoopReport" where
  [redact_defs]: "redact_report r = r\<lparr>rep_outcome := redact_outcome (rep_outcome r),
     rep_appended := map redact_item (rep_appended r)\<rparr>"

definition redact_invocation :: "ToolInvocation \<Rightarrow> ToolInvocation" where
  [redact_defs]: "redact_invocation i = i\<lparr>inv_arguments := JNull\<rparr>"

fun redact_decision :: "ToolDecision \<Rightarrow> ToolDecision" where
  "redact_decision TD_Allow = TD_Allow"
| "redact_decision (TD_Deny reason) = TD_Deny (blank_text reason)"
| "redact_decision (TD_RequireApproval r) = TD_RequireApproval (r\<lparr>ar_prompt := blank_text (ar_prompt r)\<rparr>)"

fun redact_kind :: "InteractionKind \<Rightarrow> InteractionKind" where
  "redact_kind (IK_Approval r) = IK_Approval (r\<lparr>ar_prompt := blank_text (ar_prompt r)\<rparr>)"
| "redact_kind (IK_ToolInput r) = IK_ToolInput (r\<lparr>ti_prompt := blank_text (ti_prompt r),
     ti_choices := map (\<lambda>_. BoundedText []) (ti_choices r)\<rparr>)"

fun redact_answer :: "InteractionAnswer \<Rightarrow> InteractionAnswer" where
  "redact_answer (IA_ToolInput (Answer_Text t)) = IA_ToolInput (Answer_Text (blank_text t))"
| "redact_answer (IA_Approval decision) = IA_Approval decision"
| "redact_answer (IA_ToolInput (Answer_Choice i)) = IA_ToolInput (Answer_Choice i)"

definition redact_pending :: "PendingInteraction \<Rightarrow> PendingInteraction" where
  [redact_defs]: "redact_pending p = p\<lparr>pi_kind := redact_kind (pi_kind p)\<rparr>"

definition redact_state :: "LoopState \<Rightarrow> LoopState" where
  [redact_defs]: "redact_state s =
     s\<lparr>lst_pending_interaction := map_option redact_pending (lst_pending_interaction s)\<rparr>"

fun redact_loop_event :: "LoopEvent \<Rightarrow> LoopEvent" where
  "redact_loop_event (EV_StateChanged state) = EV_StateChanged (redact_state state)"
| "redact_loop_event (EV_OutputDelta loop_id i channel delta) = EV_OutputDelta loop_id i channel (blank_text delta)"
| "redact_loop_event (EV_ToolProgress loop_id i call_id p) =
     EV_ToolProgress loop_id i call_id (p\<lparr>tp_message := map_option blank_text (tp_message p)\<rparr>)"
| "redact_loop_event (EV_InteractionRequested loop_id p) = EV_InteractionRequested loop_id (redact_pending p)"
| "redact_loop_event ev = ev"

definition redact_envelope :: "LoopEventEnvelope \<Rightarrow> LoopEventEnvelope" where
  [redact_defs]: "redact_envelope e = e\<lparr>env_event := redact_loop_event (env_event e)\<rparr>"

subsection \<open>What content a report holds\<close>

text \<open>Every text and every JSON value that a user, a model, a tool or a provider put there.\<close>

definition replay_texts :: "ProviderReplay option \<Rightarrow> rstr list" where
  [redact_defs]: "replay_texts r = map replay_format (case r of None \<Rightarrow> [] | Some x \<Rightarrow> [x])"

definition replay_values :: "ProviderReplay option \<Rightarrow> json list" where
  [redact_defs]: "replay_values r = map replay_payload (case r of None \<Rightarrow> [] | Some x \<Rightarrow> [x])"

fun part_texts :: "AssistantPart \<Rightarrow> rstr list" where
  "part_texts (AP_Text t) = [t]"
| "part_texts (AP_Reasoning r) =
     List.map_filter (\<lambda>t. t) [rc_text r, rc_summary r, rc_encrypted r, rc_signature r]"
| "part_texts (AP_ToolCall c) = []"

fun part_values :: "AssistantPart \<Rightarrow> json list" where
  "part_values (AP_ToolCall c) = [tc_arguments c]"
| "part_values _ = []"

fun item_texts :: "HistoryItem \<Rightarrow> rstr list" where
  "item_texts (HI_User u) = [UserInput_as_text (uh_input u)]"
| "item_texts (HI_Assistant a) = concat (map part_texts (ah_content a)) @ replay_texts (ah_provider_replay a)"
| "item_texts (HI_ToolResult r) = [as_str (out_content (th_output r))]"
| "item_texts (HI_Summary s) = [as_str (sh_content s)]"

fun item_values :: "HistoryItem \<Rightarrow> json list" where
  "item_values (HI_Assistant a) = concat (map part_values (ah_content a)) @ replay_values (ah_provider_replay a)"
| "item_values _ = []"

fun outcome_texts :: "LoopOutcome \<Rightarrow> rstr list" where
  "outcome_texts (LO_Failed f) = as_str (ds_message (lf_diagnostic f))
     # (case lf_model_error f of None \<Rightarrow> [] | Some e \<Rightarrow> [as_str (ds_message (me_diagnostic e))])"
| "outcome_texts _ = []"

definition report_texts :: "LoopReport \<Rightarrow> rstr list" where
  "report_texts r = outcome_texts (rep_outcome r) @ concat (map item_texts (rep_appended r))"

definition report_values :: "LoopReport \<Rightarrow> json list" where
  "report_values r = concat (map item_values (rep_appended r))"

lemma in_blank [simp]: "c \<in> set (blank t) \<longleftrightarrow> t \<noteq> [] \<and> c = 0x20"
  by (auto simp: blank_def)

lemma in_blank_text [simp]: "c \<in> set (as_str (blank_text b)) \<longleftrightarrow> as_str b \<noteq> [] \<and> c = 0x20"
  by (simp add: blank_text_def)

lemma part_texts_redacted: "set (concat (part_texts (redact_part p))) \<subseteq> {0x20}"
proof (cases p)
  case (AP_Reasoning r)
  then show ?thesis
    by (cases "rc_text r"; cases "rc_summary r"; cases "rc_encrypted r"; cases "rc_signature r")
      (auto simp: redact_defs List.map_filter_simps)
qed auto

lemma part_values_redacted: "set (part_values (redact_part p)) \<subseteq> {JNull}"
  by (cases p) simp_all

lemma replay_redacted:
  "set (concat (replay_texts (map_option redact_replay r))) \<subseteq> {0x20}"
  "set (replay_values (map_option redact_replay r)) \<subseteq> {JNull}"
  by (cases r; simp add: redact_defs)+

lemma item_texts_redacted: "set (concat (item_texts (redact_item i))) \<subseteq> {0x20}"
proof (cases i)
  case (HI_Assistant a)
  have "set (concat (concat (map part_texts (map redact_part ps)))) \<subseteq> {0x20}" for ps
    using part_texts_redacted by (induction ps) auto
  with replay_redacted(1) show ?thesis by (simp add: HI_Assistant)
qed (auto simp: UserInput_as_text_def redact_defs)

lemma item_values_redacted: "set (item_values (redact_item i)) \<subseteq> {JNull}"
proof (cases i)
  case (HI_Assistant a)
  have "set (concat (map part_values (map redact_part ps))) \<subseteq> {JNull}" for ps
    using part_values_redacted by (induction ps) auto
  with replay_redacted(2) show ?thesis by (simp add: HI_Assistant)
qed simp_all

lemma outcome_texts_redacted: "set (concat (outcome_texts (redact_outcome oc))) \<subseteq> {0x20}"
proof (cases oc)
  case (LO_Failed f)
  then show ?thesis by (cases "lf_model_error f") (auto simp: redact_defs)
qed auto

lemma report_redacted:
  "set (concat (report_texts (redact_report r))) \<subseteq> {0x20}" "set (report_values (redact_report r)) \<subseteq> {JNull}"
proof -
  have "set (concat (concat (map item_texts (map redact_item is)))) \<subseteq> {0x20}"
    "set (concat (map item_values (map redact_item is))) \<subseteq> {JNull}" for "is"
    using item_texts_redacted item_values_redacted by (induction "is") auto
  then show "set (concat (report_texts (redact_report r))) \<subseteq> {0x20}" "set (report_values (redact_report r)) \<subseteq> {JNull}"
    using outcome_texts_redacted by (simp_all add: report_texts_def report_values_def redact_defs)
qed

subsection \<open>Discreet implementations\<close>

text \<open>
  The contract of a \<open>Debug\<close> that shows no content: it cannot tell a value from its redaction.
\<close>

locale discreet =
  fixes debug :: "'a \<Rightarrow> dbg" and redact :: "'a \<Rightarrow> 'a"
  assumes debug_redact: "debug (redact x) = debug x"
begin

lemma same_redaction: "redact x = redact y \<Longrightarrow> debug x = debug y"
  using debug_redact [of x] debug_redact [of y] by simp

lemma option: "dbg_option debug (map_option redact v) = dbg_option debug v"
  by (cases v) (simp_all add: dbg_option_def debug_redact)

lemma elements: "dbg_list debug (map redact vs) = dbg_list debug vs"
  by (simp add: dbg_list_def debug_redact)

end

lemma str_len_blank [simp]: "str_len (blank t) = str_len t"
proof -
  have "str_len (replicate n 0x20) = n" for n by (induction n) (simp_all add: utf8_len_def)
  then show ?thesis by (simp add: blank_def)
qed

lemma bt_byte_len_blank [simp]: "bt_byte_len (blank_text b) = bt_byte_len b"
  by (simp add: blank_text_def bt_byte_len_def)

lemma dbg_option_map [simp]: "dbg_option f (map_option g v) = dbg_option (\<lambda>x. f (g x)) v"
  by (simp add: dbg_option_def split: option.splits)

interpretation text_dbg: discreet debug_BoundedText blank_text
  by unfold_locales (simp add: debug_defs)

interpretation replay_dbg: discreet debug_ProviderReplay redact_replay
  by unfold_locales (simp add: debug_defs redact_defs)

interpretation diagnostic_dbg: discreet debug_DiagnosticSummary redact_diagnostic
  by unfold_locales (simp add: debug_defs redact_defs)

interpretation error_dbg: discreet debug_ModelError redact_error
  by unfold_locales (simp add: debug_ModelError_def redact_error_def diagnostic_dbg.debug_redact)

interpretation output_dbg: discreet debug_ToolOutput redact_output
  by unfold_locales (simp add: debug_defs redact_defs)

interpretation invocation_dbg: discreet debug_ToolInvocation redact_invocation
  by unfold_locales (simp add: debug_defs redact_defs)

interpretation part_dbg: discreet debug_AssistantPart redact_part
proof
  fix x show "debug_AssistantPart (redact_part x) = debug_AssistantPart x"
    by (cases x) (simp_all add: debug_defs redact_defs)
qed

interpretation message_dbg: discreet debug_ModelMessage redact_message
proof
  fix x show "debug_ModelMessage (redact_message x) = debug_ModelMessage x"
    by (cases x) (simp_all add: part_dbg.elements replay_dbg.debug_redact output_dbg.debug_redact del: map_map)
qed

interpretation request_dbg: discreet debug_ModelRequest redact_request
  by unfold_locales (simp add: debug_defs redact_defs)

interpretation response_dbg: discreet debug_ModelResponse redact_response
  by unfold_locales
    (simp add: debug_ModelResponse_def redact_response_def part_dbg.elements replay_dbg.option del: dbg_option_map)

interpretation model_event_dbg: discreet debug_ModelEvent redact_model_event
proof
  fix x show "debug_ModelEvent (redact_model_event x) = debug_ModelEvent x"
    by (cases x) (simp_all add: replay_dbg.debug_redact)
qed

interpretation item_dbg: discreet debug_HistoryItem redact_item
proof
  fix x show "debug_HistoryItem (redact_item x) = debug_HistoryItem x"
  proof (cases x)
    case (HI_User u)
    then show ?thesis by (cases "uh_input u") (simp add: debug_UserHistory_def text_dbg.debug_redact)
  next
    case (HI_Assistant a)
    then show ?thesis
      by (simp add: debug_AssistantHistory_def part_dbg.elements replay_dbg.option del: dbg_option_map)
  next
    case (HI_ToolResult r)
    then show ?thesis by (simp add: debug_ToolResultHistory_def output_dbg.debug_redact)
  next
    case (HI_Summary h)
    then show ?thesis by (simp add: debug_SummaryHistory_def text_dbg.debug_redact)
  qed
qed

interpretation outcome_dbg: discreet debug_LoopOutcome redact_outcome
proof
  fix x show "debug_LoopOutcome (redact_outcome x) = debug_LoopOutcome x"
    by (cases x)
      (simp_all add: debug_LoopFailure_def diagnostic_dbg.debug_redact error_dbg.option del: dbg_option_map)
qed

interpretation report_dbg: discreet debug_LoopReport redact_report
  by unfold_locales (simp add: debug_LoopReport_def redact_report_def outcome_dbg.debug_redact item_dbg.elements)

interpretation decision_dbg: discreet debug_ToolDecision redact_decision
proof
  fix x show "debug_ToolDecision (redact_decision x) = debug_ToolDecision x"
    by (cases x) (simp_all add: debug_defs)
qed

interpretation kind_dbg: discreet debug_InteractionKind redact_kind
proof
  fix x show "debug_InteractionKind (redact_kind x) = debug_InteractionKind x"
    by (cases x) (simp_all add: debug_defs)
qed

interpretation answer_dbg: discreet debug_InteractionAnswer redact_answer
proof
  fix x show "debug_InteractionAnswer (redact_answer x) = debug_InteractionAnswer x"
    by (cases x rule: redact_answer.cases) simp_all
qed

interpretation pending_dbg: discreet debug_PendingInteraction redact_pending
  by unfold_locales (simp add: debug_PendingInteraction_def redact_pending_def kind_dbg.debug_redact)

interpretation state_dbg: discreet debug_LoopState redact_state
  by unfold_locales
    (simp add: debug_LoopState_def redact_state_def pending_dbg.option del: dbg_option_map)

interpretation loop_event_dbg: discreet debug_LoopEvent redact_loop_event
proof
  fix x show "debug_LoopEvent (redact_loop_event x) = debug_LoopEvent x"
    by (cases x) (simp_all add: state_dbg.debug_redact text_dbg.debug_redact pending_dbg.debug_redact debug_ToolProgress_def)
qed

interpretation envelope_dbg: discreet debug_LoopEventEnvelope redact_envelope
  by unfold_locales (simp add: debug_LoopEventEnvelope_def redact_envelope_def loop_event_dbg.debug_redact)

text \<open>A request for an interaction shows of a free choice no more than how many there are.\<close>

lemma input_request_dbg: "debug_ToolInputRequest (r\<lparr>ti_prompt := blank_text (ti_prompt r),
     ti_choices := map blank_text (ti_choices r)\<rparr>) = debug_ToolInputRequest r"
  by (simp add: debug_ToolInputRequest_def text_dbg.debug_redact text_dbg.elements)

text \<open>A display of a model error does not even show the size of the diagnostic.\<close>

lemma display_error_redact: "display_ModelError (redact_error e) = display_ModelError e"
  by (simp add: display_ModelError_def redact_error_def)

subsection \<open>Specifications\<close>

text \<open>The \<open>expect\<close>s in the \<open>Debug\<close> of a specification hold for every one that can be built.\<close>

lemma json_as_object_of: "json_is_object v \<Longrightarrow> json_as_object v \<noteq> None"
  by (cases v) (simp_all add: json_is_object_def json_as_object_def)

lemma debug_ToolSpec_total:
  assumes "ToolSpec_new ser name description schema = Ok spec"
  shows "debug_ToolSpec ser spec \<noteq> None"
proof -
  from assms have v: "json_is_object (spec_input_schema spec)"
    "is_ok (validate_json_size ser (spec_input_schema spec) MAX_JSON_BYTES)"
    by (auto simp: ToolSpec_new_def ToolSpec_validate_def and_then_eq_Ok Let_def split: if_splits)
  then have "json_bytes ser (spec_input_schema spec) = Some (sum_list (fst (ser (spec_input_schema spec))))"
    by (intro json_bytes_eq) (auto simp: is_ok_iff validate_json_size_Ok MAX_JSON_BYTES_def USIZE_MAX_def)
  with json_as_object_of [OF v(1)] show ?thesis by (auto simp: debug_ToolSpec_def)
qed

lemma debug_ToolSpec_same:
  assumes "spec_name s = spec_name t" "bt_byte_len (spec_description s) = bt_byte_len (spec_description t)"
    and "map_option length (json_as_object (spec_input_schema s)) = map_option length (json_as_object (spec_input_schema t))"
    and "json_bytes ser (spec_input_schema s) = json_bytes ser (spec_input_schema t)"
  shows "debug_ToolSpec ser s = debug_ToolSpec ser t"
  using assms by (auto simp: debug_ToolSpec_def split: option.splits)

subsection \<open>Samples\<close>

lemma fraction_digits_numeral [simp]:
  "fraction_digits (numeral k) f =
     (if f = 0 then []
      else (0x30 + f div 10 ^ pred_numeral k) # fraction_digits (pred_numeral k) (f mod 10 ^ pred_numeral k))"
  by (simp add: numeral_eq_Suc)

lemma debug_samples:
  "debug_fmt (debug_ModelMessage (MM_User (lit ''secret''))) = lit ''ModelMessage::User { text_bytes: 6 }''"
  "debug_fmt (debug_ProviderReplay \<lparr>replay_format = lit ''x'', replay_payload = JNull, replay_bytes = 33\<rparr>)
     = lit ''ProviderReplay { bytes: 33, .. }''"
  "debug_fmt (debug_RetryHint (Retryable (Some 1500000000))) = lit ''Retryable { retry_after: Some(1.5s) }''"
  by (simp_all add: debug_defs lit_def shown_fields_def dbg_usize_def dbg_option_def dbg_duration_def
      fmt_decimal_def Let_def dbg_name_def nat_digits.simps utf8_len_def)

subsection \<open>Properties\<close>

text \<open>
  C23: logs show no content.  The \<open>Debug\<close> of a report, of an event, of a request, of a response,
  of what a provider streams, of an error (and its \<open>Display\<close>) and of the values exchanged with
  tools, policies and users is the \<open>Debug\<close> of the same value with every text blanked and every
  argument and payload removed; and a redacted report really holds none: its texts are blanks and
  its JSON values null.
\<close>
theorem debug_discloses_no_content:
  "debug_LoopReport (redact_report report) = debug_LoopReport report
   \<and> set (concat (report_texts (redact_report report))) \<subseteq> {0x20}
   \<and> set (report_values (redact_report report)) \<subseteq> {JNull}
   \<and> debug_LoopEventEnvelope (redact_envelope envelope) = debug_LoopEventEnvelope envelope
   \<and> debug_LoopState (redact_state st) = debug_LoopState st
   \<and> debug_ModelMessage (redact_message m) = debug_ModelMessage m
   \<and> debug_ModelRequest (redact_request q) = debug_ModelRequest q
   \<and> debug_ModelResponse (redact_response r) = debug_ModelResponse r
   \<and> debug_ModelEvent (redact_model_event ev) = debug_ModelEvent ev
   \<and> debug_ModelError (redact_error e) = debug_ModelError e \<and> display_ModelError (redact_error e) = display_ModelError e
   \<and> debug_ToolInvocation (redact_invocation i) = debug_ToolInvocation i
   \<and> debug_ToolDecision (redact_decision d) = debug_ToolDecision d
   \<and> debug_InteractionAnswer (redact_answer a) = debug_InteractionAnswer a"
  by (intro conjI report_dbg.debug_redact report_redacted envelope_dbg.debug_redact state_dbg.debug_redact
      message_dbg.debug_redact request_dbg.debug_redact response_dbg.debug_redact model_event_dbg.debug_redact
      error_dbg.debug_redact display_error_redact invocation_dbg.debug_redact decision_dbg.debug_redact
      answer_dbg.debug_redact)

end
