(* ===== verification/Prompt_Transcript.thy ===== *)
theory Prompt_Transcript
  imports Runner
begin

text \<open>
  What the default prompt of \<^verbatim>\<open>prompt.rs\<close> makes of the history a loop appends: a transcript projects,
  message by message, and the messages form an exchange exactly if the inputs have no control characters.
\<close>

subsection \<open>Lemmas: the default prompt over a loop's history\<close>

definition input_ok :: "HistoryItem \<Rightarrow> bool" where
  "input_ok item \<longleftrightarrow>
     (case item of
        HI_User u \<Rightarrow> valid_text (UserInput_as_text (uh_input u)) MAX_MODEL_MESSAGE_TEXT_BYTES False
      | _ \<Rightarrow> True)"

definition result_message :: "ToolResultHistory \<Rightarrow> ModelMessage" where
  "result_message r = MM_Tool (th_call_id r) (th_output r) (th_outcome r)"

lemma project_append:
  assumes "project_items xs [] = Some (Ok ms)" "project_items ys [] = Some (Ok ns)"
  shows "project_items (xs @ ys) start = Some (Ok (start @ ms @ ns))"
  using assms by (auto simp: project_items_Ok intro: list_all2_appendI)

lemma project_results: "project_items (map HI_ToolResult rs) [] = Some (Ok (map result_message rs))"
  by (auto simp: project_items_Ok project_item_def ModelMessage_tool_with_outcome_def result_message_def list_all2_conv_all_nth)

lemma results_answer:
  assumes "list_all2 (answers_call ident ri mx) (tool_calls parts) rs" "validate_tool_call_order parts = Ok ()"
  shows "answers (map result_message rs) (part_call_ids parts)"
proof -
  have ids: "map th_call_id rs = map tc_id (tool_calls parts)"
    using assms(1) by (induction rule: list_all2_induct) (auto simp: answers_call_def)
  have "distinct (map tc_id (tool_calls parts))"
    using assms(2) by (auto simp: validate_tool_call_order_Ok calls_in_order_def)
  moreover have "map tool_result_id (map result_message rs) = map Some (map th_call_id rs)"
    by (simp add: tool_result_id_def result_message_def)
  moreover have "set (map tc_id (tool_calls parts)) = part_call_ids parts"
    by (auto simp: part_call_ids_def tool_calls_def List.map_filter_def)
  ultimately show ?thesis
    by (auto simp: answers_def ids list_all_iff tool_result_id_def result_message_def distinct_map simp del: map_map)
qed

lemma transcript_projects:
  assumes "transcript ident mx h"
  shows "\<exists>ms. project_items h [] = Some (Ok ms) \<and> (list_all input_ok h \<longrightarrow> exchange ms) \<and> length ms = length h"
  using assms
proof induction
  case empty
  then show ?case by (auto intro: exchange.empty)
next
  case (input h u)
  then obtain ms where ms: "project_items h [] = Some (Ok ms)" "list_all input_ok h \<Longrightarrow> exchange ms" "length ms = length h" by auto
  let ?m = "MM_User (UserInput_as_text (uh_input u))"
  have "exchange (ms @ [?m])" if "list_all input_ok (h @ [HI_User u])"
  proof (rule exchange_append [OF ms(2)])
    show "exchange [?m]"
      using that
      by (intro exchange.plain exchange.empty)
        (auto simp: message_parts_def tool_result_id_def input_ok_def ModelMessage_validate_def)
  qed (use that in simp)
  moreover have "project_items [HI_User u] [] = Some (Ok [?m])" by (simp add: project_item_def)
  ultimately show ?case using project_append [OF ms(1), of "[HI_User u]" _ "[]"] ms(3) by auto
next
  case (turn h a rs)
  then obtain ms where ms: "project_items h [] = Some (Ok ms)" "list_all input_ok h \<Longrightarrow> exchange ms" "length ms = length h" by auto
  define resp where "resp = \<lparr>mr_parts = ah_content a, mr_finish_reason = ah_finish_reason a, mr_usage = None,
      mr_provider_replay = ah_provider_replay a\<rparr>"
  have "response_ok resp" using turn.hyps(3) by (simp add: response_ok_def resp_def assistant_ok_def)
  then obtain m where m: "ModelMessage_assistant_with_provider_replay (ah_content a) (ah_provider_replay a) = Ok m"
    "message_parts m = Some (ah_content a)"
    using response_message_ok by (force simp: resp_def)
  have valid: "ModelMessage_validate m = Ok ()"
    using m(1) by (auto simp: ModelMessage_assistant_with_provider_replay_def Let_def and_then_eq_Ok)
  have "exchange (m # map result_message rs @ [])"
    using exchange.turn [OF m(2) valid results_answer [OF turn.hyps(4)] exchange.empty] turn.hyps(3)
    by (simp add: assistant_ok_def)
  then have "exchange (ms @ m # map result_message rs)" if "list_all input_ok h" using ms(2) [OF that] exchange_append by simp
  moreover have "project_items [HI_Assistant a] [] = Some (Ok [m])"
    using m(1) by (simp add: project_item_def assistant_message_def)
  then have "project_items (HI_Assistant a # map HI_ToolResult rs) [] = Some (Ok (m # map result_message rs))"
    using project_append [OF _ project_results, of "[HI_Assistant a]" "[m]" rs "[]"] by simp
  ultimately show ?case
    using project_append [OF ms(1), of "HI_Assistant a # map HI_ToolResult rs" _ "[]"] ms(3) by auto
qed

lemma transcript_exchange:
  assumes "transcript ident mx h" "list_all input_ok h"
  shows "\<exists>ms. project_items h [] = Some (Ok ms) \<and> exchange ms \<and> length ms = length h"
  using transcript_projects [OF assms(1)] assms(2) by blast

lemma exchange_inputs:
  assumes "project_items h [] = Some (Ok ms)" "exchange (before @ ms)"
  shows "list_all input_ok h"
proof -
  have all: "list_all2 (\<lambda>i m. project_item i = Some (Ok m)) h ms" using assms(1) by (simp add: project_items_Ok)
  have "input_ok i" if i: "i \<in> set h" for i
  proof -
    obtain k where "k < length h" "h ! k = i" using i by (auto simp: in_set_conv_nth)
    then have "ms ! k \<in> set ms" "project_item i = Some (Ok (ms ! k))" using all by (auto simp: list_all2_conv_all_nth)
    then obtain m where m: "m \<in> set ms" "project_item i = Some (Ok m)" by blast
    have "ModelMessage_validate m = Ok ()" using exchange_validates [OF assms(2)] m(1) by simp
    with m(2) show ?thesis
      by (cases i) (auto simp: input_ok_def project_item_def ModelMessage_validate_def split: if_splits)
  qed
  then show ?thesis by (simp add: list_all_iff)
qed

end
