(* ===== verification/Host_Script.thy ===== *)
theory Host_Script
  imports Agent_Loop
begin

text \<open>
  What a host says, read off the script of a run: the ground of the reference loop in
  \<^verbatim>\<open>Reference_Loop.thy\<close>.

  A script holds polls, deadlines, clock readings and the acts of other threads.  As long as nobody
  cancels and a port answers in time, all the loop learns from it is the value delivered; all it
  learns from the acts is the configuration they leave for its next boundary.  The lemmas prove
  that the port calls and the model driver return exactly those values (total correctness).
\<close>

subsection \<open>Total correctness of steps\<close>

text \<open>\<open>yields f Q s\<close>: from \<open>s\<close> the step \<open>f\<close> yields a value, and \<open>Q\<close> holds of it.\<close>

definition yields :: "('s, 'a) run \<Rightarrow> ('a \<Rightarrow> 's \<Rightarrow> bool) \<Rightarrow> 's \<Rightarrow> bool" where
  "yields f Q s \<longleftrightarrow> (\<exists>a s'. f s = (Done a, s') \<and> Q a s')"

lemma yields_wp: "yields f Q s \<longleftrightarrow> wp f Q (\<lambda>_. False) s \<and> fst (f s) \<noteq> Pending"
  by (auto simp: yields_def wp_def split: prod.splits async.splits)

lemma yields_simps [simp]:
  "yields (return_run a) Q s = Q a s"
  "yields (modify_run f) R s = R () (f s)"
  "yields (gets_run h) Q s = Q (h s) s"
  "yields (bind_run m k) T s = yields m (\<lambda>a. yields (k a) T) s"
  "yields (then_run n m) Q s = yields n (\<lambda>_. yields m Q) s"
  "yields (with_state g) Q s = yields (g s) Q s"
  "yields (lift_run (Done a)) Q s = Q a s"
  "yields (expect_run (Some a)) Q s = Q a s"
  by (auto simp: yields_def run_defs split: prod.splits async.splits)

lemma yields_control_steps [simp]:
  "yields (emit e) Q s = Q () (s\<lparr>rn_sink := try_emit e (rn_sink s)\<rparr>)"
  "yields (record_dropped_run n) Q s = Q () (s\<lparr>rn_sink := record_dropped n (rn_sink s)\<rparr>)"
  "yields (on_control f) Q s = Q () (s\<lparr>rn_control := f (rn_control s)\<rparr>)"
  "yields (on_control_get g) R s = R (snd (g (rn_control s))) (s\<lparr>rn_control := fst (g (rn_control s))\<rparr>)"
  "yields (publish st) Q s = Q () (s\<lparr>rn_control := publish_state st (rn_control s),
                                    rn_sink := try_emit (EV_StateChanged st) (rn_sink s)\<rparr>)"
  "yields (interfere ser ops) Q s = Q () (s\<lparr>rn_control := fold (act ser) ops (rn_control s)\<rparr>)"
  by (simp_all add: emit_def record_dropped_run_def on_control_def on_control_get_def publish_def interfere_def)

lemma yields_mono:
  assumes "yields f Q s" "\<And>a s'. Q a s' \<Longrightarrow> Q' a s'"
  shows "yields f Q' s"
  using assms by (auto simp: yields_def)

lemma yields_bindI:
  assumes "yields f R s" "\<And>a t. R a t \<Longrightarrow> yields (g a) Q t"
  shows "yields (bind_run f g) Q s"
  using assms by (auto intro: yields_mono)

lemma yields_thenI:
  assumes "yields f R s" "\<And>a t. R a t \<Longrightarrow> yields g Q t"
  shows "yields (then_run f g) Q s"
  using assms by (auto intro: yields_mono)

subsection \<open>Other threads that do not cancel\<close>

text \<open>
  What the control plane owes the loop: the configuration waiting for the next boundary, and the
  revision the next update gets.
\<close>

type_synonym 'c offers = "(ConfigRevision \<times> 'c) option \<times> ConfigRevision"

definition offers :: "'c LoopControl \<Rightarrow> 'c offers" where
  "offers c = (map_option (\<lambda>p. (pc_revision p, pc_config p)) (cs_pending_config (lc_inner c)), cs_next_revision (lc_inner c))"

text \<open>An accepted update replaces the waiting configuration and takes the next revision.\<close>

fun offer ::
  "json serializer \<Rightarrow> LoopLimits \<Rightarrow> ('m, 't, 'p, 'q) others \<Rightarrow> ('m, 't, 'p, 'q) ExecutionConfig offers \<Rightarrow>
     ('m, 't, 'p, 'q) ExecutionConfig offers" where
  "offer ser limits (X_Update cfg) (held, revision) =
     (if validate_against_limits ser cfg limits = Some (Ok ())
      then (Some (revision, cfg), ConfigRevision_next revision) else (held, revision))"
| "offer ser limits x w = w"

definition mild :: "('m, 't, 'p, 'q) others \<Rightarrow> bool" where
  "mild x \<longleftrightarrow> typed_op x \<and> (case x of X_Cancel source \<Rightarrow> False | _ \<Rightarrow> True)"

text \<open>A live loop nobody has cancelled, which waits for no answer and takes updates.\<close>

definition serene :: "LoopLimits \<Rightarrow> ('m, 't, 'p, 'q) control \<Rightarrow> bool" where
  "serene limits c \<longleftrightarrow> quiet c \<and> lc_state c = STATE_NONE \<and> cs_accepting_updates (lc_inner c) \<and> lc_limits c = limits"

lemma serene_not_cancelled: "serene limits c \<Longrightarrow> \<not> lc_cancel c"
  by (auto simp: serene_def quiet_def live_def)

text \<open>An abstraction of the control plane that every act of another thread follows.\<close>

locale tracked = stable act ok inv
  for act :: "'x \<Rightarrow> 'c LoopControl \<Rightarrow> 'c LoopControl" and ok :: "'x \<Rightarrow> bool" and inv :: "'c LoopControl \<Rightarrow> bool" +
  fixes view :: "'c LoopControl \<Rightarrow> 'b" and view_act :: "'x \<Rightarrow> 'b \<Rightarrow> 'b"
  assumes act_tracked: "inv c \<Longrightarrow> ok x \<Longrightarrow> view (act x c) = view_act x (view c)"
begin

lemma acts_tracked: "inv c \<Longrightarrow> list_all ok xs \<Longrightarrow> view (fold act xs c) = fold view_act xs (view c)"
  by (induction xs arbitrary: c) (simp_all add: act_tracked act_stable)

end

lemma act_serene:
  assumes "serene limits c" "mild x"
  shows "serene limits (act ser x c)" "offers (act ser x c) = offer ser limits x (offers c)"
proof -
  have "quiet (act ser x c)" using assms by (auto simp: serene_def mild_def intro: act_quiet)
  then show "serene limits (act ser x c)"
    using assms
    by (cases x) (auto simp: serene_def mild_def act_defs quiet_def split: option.splits result.splits if_splits)
  show "offers (act ser x c) = offer ser limits x (offers c)"
    using assms
    by (cases x) (auto simp: serene_def quiet_def mild_def act_defs offers_def split: option.splits result.splits if_splits)
qed

interpretation serene: stable "act ser" mild "serene limits" for ser limits by unfold_locales (rule act_serene)
interpretation offered: tracked "act ser" mild "serene limits" offers "offer ser limits" for ser limits
  by unfold_locales (rule act_serene(2))

subsection \<open>What a script says\<close>

text \<open>The first poll with an answer decides; a deadline that passes before it leaves the port unheard.\<close>

fun delivered :: "('x, 'a) live_poll list \<Rightarrow> 'a option" where
  "delivered [] = None"
| "delivered (p # ps) =
     (if lp_elapsed p then None
      else case lp_ready p of
        None \<Rightarrow> delivered ps
      | Some (Completed a) \<Rightarrow> Some a
      | Some Unwound \<Rightarrow> None)"

text \<open>How a stream ends; \<open>Stream_Unheard\<close> is a panic, a deadline or a script that is used up.\<close>

datatype stream_end = Stream_Ended | Stream_Failed ModelError | Stream_Unheard

fun streamed :: "('x, (ModelEvent, ModelError) result option) live_poll list \<Rightarrow> ModelEvent list \<times> stream_end" where
  "streamed [] = ([], Stream_Unheard)"
| "streamed (p # ps) =
     (if lp_elapsed p then ([], Stream_Unheard)
      else case lp_ready p of
        None \<Rightarrow> streamed ps
      | Some (Completed None) \<Rightarrow> ([], Stream_Ended)
      | Some (Completed (Some (Ok event))) \<Rightarrow> apfst ((#) event) (streamed ps)
      | Some (Completed (Some (Err e))) \<Rightarrow> ([], Stream_Failed e)
      | Some Unwound \<Rightarrow> ([], Stream_Unheard))"

definition poll_ops :: "('x, 'a) live_poll list \<Rightarrow> 'x list" where
  "poll_ops ps = concat (map lp_ops ps)"

definition call_ops :: "('x, 'a) live_call \<Rightarrow> 'x list" where
  "call_ops call = lv_ops call @ poll_ops (lv_polls call)"

definition attempt_ops :: "'x live_attempt \<Rightarrow> 'x list" where
  "attempt_ops a = la_ops a @ poll_ops (la_start a) @ poll_ops (map fst (la_stream a)) @ poll_ops (la_wait a)"

definition model_ops :: "'x live_model \<Rightarrow> 'x list" where
  "model_ops env = lm_ops env @ concat (map attempt_ops (lm_attempts env)) @ lm_ops_after env"

text \<open>The value a port delivers within its deadline, \<open>None\<close> if it does not.\<close>

definition within :: "instant \<Rightarrow> instant \<Rightarrow> duration \<Rightarrow> instant \<Rightarrow> bool" where
  "within deadline now timeout check \<longleftrightarrow> now + timeout < INSTANT_LIMIT \<and> check < min deadline (now + timeout)"

definition call_value :: "LoopOptions \<Rightarrow> duration \<Rightarrow> ('x, 'a) live_call \<Rightarrow> 'a option" where
  "call_value opts timeout call =
     (case turn_deadline (lv_now_turn call) (lo_deadline opts) of
        None \<Rightarrow> None
      | Some deadline \<Rightarrow>
          if within deadline (lv_now_deadline call) timeout (lv_now_check call) \<and> \<not> lv_construct_panics call
          then delivered (lv_polls call) else None)"

text \<open>
  What a model says in one attempt: its answer to \<open>start\<close> (\<open>None\<close> if there is none in time), its
  stream, the time left for a retry when the attempt has failed, and whether the pause before the
  next attempt ends undisturbed.
\<close>

record attempt_reply =
  at_start :: "(unit, ModelError) result option"
  at_stream :: "ModelEvent list \<times> stream_end"
  at_leeway :: duration
  at_waited :: bool

definition hear_attempt :: "instant \<Rightarrow> 'x live_attempt \<Rightarrow> attempt_reply" where
  "hear_attempt deadline a =
     \<lparr>at_start = (if la_now a < deadline \<and> \<not> la_start_panics a then delivered (la_start a) else None),
      at_stream = streamed (map fst (la_stream a)), at_leeway = deadline - la_now_retry a,
      at_waited = (la_now_wait a + MAX_MODEL_RETRY_DELAY < INSTANT_LIMIT \<and> delivered (la_wait a) = Some ())\<rparr>"

text \<open>The attempts of a model call that begins within its deadline.\<close>

definition model_attempts :: "LoopOptions \<Rightarrow> 'x live_model \<Rightarrow> attempt_reply list option" where
  "model_attempts opts env =
     (case turn_deadline (lm_now_turn env) (lo_deadline opts) of
        None \<Rightarrow> None
      | Some deadline \<Rightarrow>
          if within deadline (lm_now_deadline env) (lo_model_timeout opts) (lm_now_check env)
          then Some (map (hear_attempt (min deadline (lm_now_deadline env + lo_model_timeout opts))) (lm_attempts env))
          else None)"

subsection \<open>What a model call comes to\<close>

text \<open>
  The response, or the error and whether an event came before it.  An event the assembler refuses
  ends the stream; so does the model itself, whose error is then corrected by what was observed.
\<close>

definition stream_outcome ::
  "(rstr \<Rightarrow> json option) \<Rightarrow> json serializer \<Rightarrow> Assembler \<Rightarrow> ModelEvent list \<times> stream_end \<Rightarrow>
     (ModelResponse, ModelError \<times> bool) result option" where
  "stream_outcome parse ser asm said =
     (let (events, ended) = said; observed = (asm_observed_event asm \<or> events \<noteq> []) in
      case push_all parse ser asm events of
        None \<Rightarrow> None
      | Some (_, Err e) \<Rightarrow> Some (Err (e, True))
      | Some (a, Ok _) \<Rightarrow>
          (case ended of
             Stream_Unheard \<Rightarrow> None
           | Stream_Failed e \<Rightarrow> Some (Err (normalize_after_event e observed, observed))
           | Stream_Ended \<Rightarrow> map_option (map_err (\<lambda>e. (e, observed))) (finish (a\<lparr>asm_observed_event := observed\<rparr>))))"

definition attempt_outcome ::
  "(rstr \<Rightarrow> json option) \<Rightarrow> json serializer \<Rightarrow> ToolSpec list \<Rightarrow> LoopLimits \<Rightarrow> attempt_reply \<Rightarrow>
     (ModelResponse, ModelError \<times> bool) result option" where
  "attempt_outcome parse ser specs limits r =
     (case at_start r of
        None \<Rightarrow> None
      | Some (Err e) \<Rightarrow> Some (Err (e, False))
      | Some (Ok _) \<Rightarrow> stream_outcome parse ser (Assembler_new specs limits) (at_stream r))"

text \<open>
  Only a failure that delivered nothing is worth another attempt: the model has to allow it, attempts
  have to be left, and the pause has to fit into the time left.
\<close>

definition tries_again :: "RetryPolicySnapshot \<Rightarrow> u8 \<Rightarrow> duration \<Rightarrow> ModelError \<times> bool \<Rightarrow> bool" where
  "tries_again policy attempt leeway failed \<longleftrightarrow>
     attempt + 1 < rp_max_attempts policy \<and> \<not> snd failed \<and> me_delivery (fst failed) = NotStarted
     \<and> (case me_retry_hint (fst failed) of
          Never \<Rightarrow> False
        | Retryable after \<Rightarrow>
            (case delay_for_retry policy attempt after of None \<Rightarrow> False | Some delay \<Rightarrow> delay < leeway))"

fun model_outcome ::
  "(rstr \<Rightarrow> json option) \<Rightarrow> json serializer \<Rightarrow> ToolSpec list \<Rightarrow> LoopLimits \<Rightarrow> RetryPolicySnapshot \<Rightarrow> u8 \<Rightarrow>
     attempt_reply list \<Rightarrow> (ModelResponse, ModelError) result option" where
  "model_outcome parse ser specs limits policy attempt [] = None"
| "model_outcome parse ser specs limits policy attempt (r # rs) =
     (case attempt_outcome parse ser specs limits r of
        None \<Rightarrow> None
      | Some (Ok response) \<Rightarrow> Some (Ok response)
      | Some (Err failed) \<Rightarrow>
          if \<not> tries_again policy attempt (at_leeway r) failed then Some (Err (fst failed))
          else if at_waited r then model_outcome parse ser specs limits policy (attempt + 1) rs
          else None)"

subsection \<open>Lemmas: scripts\<close>

lemma polls_played: "snd (play_polls ext ps c) = fold ext (poll_ops ps) c"
  by (induction ps arbitrary: c) (simp_all add: poll_ops_def Let_def)

lemma attempt_played: "snd (play_attempt ext a c) = fold ext (attempt_ops a) c"
  by (simp add: play_attempt_def attempt_ops_def Let_def polls_played)

lemma attempts_played: "snd (play_attempts ext as c) = fold ext (concat (map attempt_ops as)) c"
  by (induction as arbitrary: c) (simp_all add: Let_def attempt_played)

lemma serene_acts: "serene limits c \<Longrightarrow> list_all mild xs \<Longrightarrow> serene limits (fold (act ser) xs c)"
  by (rule serene.acts_stable)

lemma poll_ops_mild [simp]: "list_all mild (poll_ops (p # ps)) \<longleftrightarrow> list_all mild (lp_ops p) \<and> list_all mild (poll_ops ps)"
  by (simp add: poll_ops_def)

lemma serene_select:
  "serene limits c \<Longrightarrow> list_all mild (poll_ops ps) \<Longrightarrow> delivered ps = Some a \<Longrightarrow>
     select_port (fst (play_polls (act ser) ps c)) = Some (Sel_Result (Completed a))"
proof (induction ps arbitrary: c)
  case (Cons p ps)
  have "serene limits (fold (act ser) (lp_ops p) c)" using Cons.prems by (simp add: serene_acts)
  with Cons show ?case
    by (auto simp: Let_def serene_not_cancelled split: if_splits option.splits caught.splits)
qed simp

lemma serene_stream:
  "serene limits c \<Longrightarrow> list_all mild (poll_ops (map fst xs)) \<Longrightarrow> stream_outcome parse ser asm (streamed (map fst xs)) = Some r \<Longrightarrow>
     \<exists>log'. run_stream parse ser source
       (map2 (\<lambda>p answer. \<lparr>sp_cancelled = pp_cancelled p, sp_elapsed = pp_elapsed p, sp_ready = pp_ready p, sp_send = answer\<rparr>)
          (fst (play_polls (act ser') (map fst xs) c)) (map snd xs)) asm log
       = (Done (map_err (\<lambda>(e, observed). AttemptFailure_new e observed) r), log')"
proof (induction xs arbitrary: c asm log r)
  case Nil
  then show ?case by (auto simp: stream_outcome_def)
next
  case (Cons x xs)
  let ?c = "fold (act ser') (lp_ops (fst x)) c"
  have c: "serene limits ?c" using Cons.prems by (simp add: serene_acts)
  note c = c serene_not_cancelled [OF c]
  have mild: "list_all mild (poll_ops (map fst xs))" using Cons.prems by simp
  have time: "\<not> lp_elapsed (fst x)" using Cons.prems(3) by (auto simp: stream_outcome_def)
  obtain evs ended where evs: "streamed (map fst xs) = (evs, ended)" by fastforce
  consider (skip) "lp_ready (fst x) = None" | (ends) "lp_ready (fst x) = Some (Completed None)"
    | (failed) e where "lp_ready (fst x) = Some (Completed (Some (Err e)))"
    | (event) ev where "lp_ready (fst x) = Some (Completed (Some (Ok ev)))"
  proof (cases "lp_ready (fst x)")
    case (Some ready)
    then obtain item where "ready = Completed item" using Cons.prems(3) time by (cases ready) (simp_all add: stream_outcome_def)
    with Some that show thesis by (cases item; cases "the item") auto
  qed
  then show ?case
  proof cases
    case skip
    then show ?thesis using Cons.IH [OF c(1) mild] Cons.prems(3) c(2) time by (simp add: Let_def)
  next
    case ends
    then obtain z where "finish asm = Some z" "r = map_err (\<lambda>e. (e, asm_observed_event asm)) z"
      using Cons.prems(3) time by (auto simp: stream_outcome_def)
    then show ?thesis using ends c(2) time by (cases z) (simp_all add: Let_def)
  next
    case failed
    then show ?thesis using Cons.prems(3) c(2) time by (auto simp: stream_outcome_def Let_def)
  next
    case event
    then have streamed: "streamed (map fst (x # xs)) = (ev # evs, ended)" using time evs by simp
    have said: "stream_outcome parse ser asm (ev # evs, ended) = Some r" using Cons.prems(3) unfolding streamed .
    then obtain b res where push: "push parse ser asm ev = Some (b, res)"
      by (auto simp: stream_outcome_def split: option.splits)
    then have push': "push parse ser (obs True asm) ev = Some (obs True b, res)" by (simp add: push_obs)
    show ?thesis
    proof (cases res)
      case (Err e)
      then have "r = Err (e, True)" using said by (simp add: stream_outcome_def push)
      then show ?thesis using Err push' c(2) time event by (simp add: Let_def)
    next
      case (Ok pr)
      then have "stream_outcome parse ser (obs True b) (streamed (map fst xs)) = Some r"
        using said
        by (cases ended) (auto simp: evs stream_outcome_def push push_all_obs_eq split: option.splits result.splits)
      from Cons.IH [OF c(1) mild this] Ok push' c(2) time event show ?thesis by (simp add: Let_def)
    qed
  qed
qed

text \<open>
  A step during which nobody cancels: the identity, the options, the current revision and the
  completion stay, the history grows by \<open>items\<close> and the offers by what the acts \<open>ops\<close> offer.
\<close>

abbreviation limits_of :: "('m, 't, 'p, 'q) runner \<Rightarrow> LoopLimits" where
  "limits_of s \<equiv> lo_limits (rn_options s)"

definition advances ::
  "json serializer \<Rightarrow> ('m, 't, 'p, 'q) others list \<Rightarrow> HistoryItem list \<Rightarrow>
     ('m, 't, 'p, 'q) runner \<Rightarrow> ('m, 't, 'p, 'q) runner \<Rightarrow> bool" where
  "advances ser ops items s s' \<longleftrightarrow> keeps s s' \<and> adds s s' items \<and> serene (limits_of s) (rn_control s')
     \<and> offers (rn_control s') = fold (offer ser (limits_of s)) ops (offers (rn_control s))"

lemma advances_trans:
  "advances ser ops1 items1 s t \<Longrightarrow> advances ser ops2 items2 t u \<Longrightarrow> advances ser (ops1 @ ops2) (items1 @ items2) s u"
  by (auto simp: advances_def keeps_def)

text \<open>A step only the event channel or the record of invocations can see.\<close>

definition silent :: "('m, 't, 'p, 'q) runner \<Rightarrow> ('m, 't, 'p, 'q) runner \<Rightarrow> bool" where
  "silent s t \<longleftrightarrow> rn_id t = rn_id s \<and> rn_options t = rn_options s \<and> rn_control t = rn_control s \<and> rn_working t = rn_working s"

lemma silent_simps [simp]:
  "silent s s"
  "silent s (t\<lparr>rn_sink := k\<rparr>) = silent s t" "silent s (t\<lparr>rn_executed := x\<rparr>) = silent s t"
  "silent (s\<lparr>rn_sink := k\<rparr>) t = silent s t" "silent (s\<lparr>rn_executed := x\<rparr>) t = silent s t"
  by (simp_all add: silent_def)

lemma silent_trans: "silent s t \<Longrightarrow> silent t u \<Longrightarrow> silent s u"
  by (simp add: silent_def)

lemma advances_silent:
  "advances ser ops items s t \<Longrightarrow> silent t u \<Longrightarrow> advances ser ops items s u"
  "silent s t \<Longrightarrow> advances ser ops items t u \<Longrightarrow> advances ser ops items s u"
  by (simp_all add: advances_def keeps_def adds_def silent_def)

lemma advances_acts:
  assumes "serene (limits_of s) (rn_control s)" "list_all mild ops"
  shows "advances ser ops [] s (s\<lparr>rn_control := fold (act ser) ops (rn_control s)\<rparr>)"
  using assms by (simp add: advances_def keeps_def adds_def serene_acts offered.acts_tracked)

lemma publish_state_serene [simp]:
  "serene limits (publish_state st c) = serene limits c" "offers (publish_state st c) = offers c"
  "core (publish_state st c) = core c"
  by (simp_all add: publish_state_def serene_def quiet_def live_def offers_def core_def)

lemma call_value_deadline:
  "call_value opts timeout call = Some v \<Longrightarrow> \<exists>d. turn_deadline (lv_now_turn call) (lo_deadline opts) = Some d"
  by (auto simp: call_value_def split: option.splits)

lemma within_deadline:
  "within d now timeout check \<Longrightarrow>
     \<exists>deadline. effective_deadline_from now d timeout = Ok deadline \<and> \<not> ed_tokio deadline \<le> check"
  by (simp add: within_def effective_deadline_Ok min_le_iff_disj)

lemma live_port_yields:
  assumes "serene (limits_of s) (rn_control s)" "list_all mild (call_ops call)"
    "turn_deadline (lv_now_turn call) (lo_deadline opts) = Some d" "call_value opts timeout call = Some v"
  shows "yields (live_port ser d timeout call) (\<lambda>run t. pr_outcome run = Returned v \<and> advances ser (call_ops call) [] s t) s"
proof -
  have ops: "list_all mild (lv_ops call)" "list_all mild (poll_ops (lv_polls call))"
    using assms(2) by (simp_all add: call_ops_def)
  define c where "c = fold (act ser) (lv_ops call) (rn_control s)"
  have c: "serene (limits_of s) c" using serene_acts [OF assms(1) ops(1)] by (simp add: c_def)
  have v: "within d (lv_now_deadline call) timeout (lv_now_check call)" "\<not> lv_construct_panics call"
    "delivered (lv_polls call) = Some v"
    using assms(3,4) by (simp_all add: call_value_def split: if_splits)
  have sel: "select_port (fst (play_polls (act ser) (lv_polls call) c)) = Some (Sel_Result (Completed v))"
    by (rule serene_select [OF c ops(2) v(3)])
  obtain run where run: "run_port_call d timeout
     \<lparr>pe_cancelled = lc_cancel c, pe_now_deadline = lv_now_deadline call, pe_now_check = lv_now_check call,
      pe_construct_panics = lv_construct_panics call, pe_polls = fst (play_polls (act ser) (lv_polls call) c)\<rparr> = Some run"
    "pr_outcome run = Returned v"
    using v(2) sel serene_not_cancelled [OF c] within_deadline [OF v(1)]
    by (auto simp: run_port_call_def Let_def)
  have "advances ser (call_ops call) [] s (s\<lparr>rn_control := snd (play_polls (act ser) (lv_polls call) c)\<rparr>)"
    using advances_acts [OF assms(1,2)] by (simp add: polls_played c_def call_ops_def)
  then show ?thesis
    by (simp add: live_port_def Let_def c_def [symmetric] run)
qed

subsection \<open>Lemmas: the model call\<close>

lemma forward_all_yields: "yields (forward_all ri xs) (\<lambda>_. silent s) s"
  using forward_all_returns [of ri xs s] by (auto simp: yields_def silent_def)

lemma attempt_follows:
  assumes "serene limits c" "list_all mild (attempt_ops a)"
    and "attempt_outcome parse ser (mq_tools request) (drv_limits drv) (hear_attempt deadline a) = Some r"
  shows "\<exists>log'. run_attempt parse ser drv request source (fst (play_attempt (act ser') a c)) log
     = (Done (map_err (\<lambda>(e, observed). AttemptFailure_new e observed) r), log')"
    and "precheck (ae_cancelled (fst (play_attempt (act ser') a c))) (ae_now (fst (play_attempt (act ser') a c))) deadline source = Ok ()"
proof -
  define c1 where "c1 = fold (act ser') (la_ops a) c"
  define c2 where "c2 = snd (play_polls (act ser') (la_start a) c1)"
  have ops: "list_all mild (la_ops a)" "list_all mild (poll_ops (la_start a))" "list_all mild (poll_ops (map fst (la_stream a)))"
    using assms(2) by (simp_all add: attempt_ops_def)
  have c1: "serene limits c1" using serene_acts [OF assms(1) ops(1)] by (simp add: c1_def)
  have c2: "serene limits c2" using serene_acts [OF c1 ops(2)] by (simp add: c2_def polls_played)
  obtain said where start: "la_now a < deadline" "\<not> la_start_panics a" "delivered (la_start a) = Some said"
    using assms(3) by (auto simp: attempt_outcome_def hear_attempt_def split: if_splits option.splits)
  note sel = serene_select [OF c1 ops(2) start(3), of ser']
  show "precheck (ae_cancelled (fst (play_attempt (act ser') a c))) (ae_now (fst (play_attempt (act ser') a c))) deadline source = Ok ()"
    using start(1) serene_not_cancelled [OF c1] by (simp add: precheck_def play_attempt_def Let_def c1_def)
  show "\<exists>log'. run_attempt parse ser drv request source (fst (play_attempt (act ser') a c)) log
     = (Done (map_err (\<lambda>(e, observed). AttemptFailure_new e observed) r), log')"
  proof (cases said)
    case (Err e)
    then show ?thesis
      using assms(3) start sel
      by (auto simp: attempt_outcome_def hear_attempt_def run_attempt_def play_attempt_def Let_def c1_def [symmetric])
  next
    case (Ok u)
    then have "stream_outcome parse ser (Assembler_new (mq_tools request) (drv_limits drv)) (streamed (map fst (la_stream a))) = Some r"
      using assms(3) start by (simp add: attempt_outcome_def hear_attempt_def)
    from serene_stream [OF c2 ops(3) this] Ok start sel show ?thesis
      by (simp add: run_attempt_def play_attempt_def Let_def c1_def [symmetric] c2_def [symmetric])
  qed
qed

text \<open>The driver's decision about another attempt is the reference one.\<close>

lemma evaluate_retry_tries:
  assumes "rp_base_delay policy \<le> MAX_MODEL_RETRY_DELAY" "deadline < INSTANT_LIMIT"
  shows "evaluate_retry policy attempt (AttemptFailure_new e observed) deadline now = None
     \<longleftrightarrow> \<not> tries_again policy attempt (deadline - now) (e, observed)"
    and "evaluate_retry policy attempt (AttemptFailure_new e observed) deadline now = Some delay \<Longrightarrow> delay \<le> MAX_MODEL_RETRY_DELAY"
proof -
  have fits: "retry_fits now deadline d \<longleftrightarrow> d < deadline - now" for d
    using assms(2) by (auto simp: retry_fits_def instant_checked_add_def)
  show "evaluate_retry policy attempt (AttemptFailure_new e observed) deadline now = None
     \<longleftrightarrow> \<not> tries_again policy attempt (deadline - now) (e, observed)"
    by (cases "me_retry_hint e")
      (simp_all add: evaluate_retry_def tries_again_def AttemptFailure_new_def not_le [symmetric] fits split: option.split)
  show "evaluate_retry policy attempt (AttemptFailure_new e observed) deadline now = Some delay \<Longrightarrow> delay \<le> MAX_MODEL_RETRY_DELAY"
    using delay_for_retry_bound [OF _ assms(1)]
    by (auto simp: evaluate_retry_def split: if_splits RetryHint.splits option.splits)
qed

lemma attempts_follow:
  assumes "rp_base_delay (drv_retry_policy drv) \<le> MAX_MODEL_RETRY_DELAY" "ed_tokio deadline < INSTANT_LIMIT"
    and "serene limits c" "list_all mild (concat (map attempt_ops as))"
    and "model_outcome parse ser (mq_tools request) (drv_limits drv) (drv_retry_policy drv) attempt
       (map (hear_attempt (ed_tokio deadline)) as) = Some r"
  shows "\<exists>log' fails'. run_attempts parse ser drv request deadline attempt (fst (play_attempts (act ser') as c)) log fails
     = (Done (map_err ModelDriverFailure_ordinary r), log', fails')"
  using assms(3-5)
proof (induction as arbitrary: attempt c log fails)
  case (Cons a as)
  let ?policy = "drv_retry_policy drv" and ?leeway = "ed_tokio deadline - la_now_retry a"
  let ?env = "fst (play_attempt (act ser') a c)"
  have ops: "list_all mild (attempt_ops a)" "list_all mild (concat (map attempt_ops as))" using Cons.prems(2) by simp_all
  define c' where "c' = snd (play_attempt (act ser') a c)"
  have c': "serene limits c'" using serene_acts [OF Cons.prems(1) ops(1)] by (simp add: c'_def attempt_played)
  obtain z where z: "attempt_outcome parse ser (mq_tools request) (drv_limits drv) (hear_attempt (ed_tokio deadline) a) = Some z"
    using Cons.prems(3) by (auto split: option.splits)
  obtain log1 where run: "run_attempt parse ser drv request (ed_source deadline) ?env log
      = (Done (map_err (\<lambda>(e, observed). AttemptFailure_new e observed) z), log1)"
    using attempt_follows(1) [OF Cons.prems(1) ops(1) z] by blast
  note check = attempt_follows(2) [OF Cons.prems(1) ops(1) z, of ser' "ed_source deadline"]
  note tries = evaluate_retry_tries [OF assms(1,2)]
  have env: "ae_now_retry ?env = la_now_retry a" "ae_now_wait ?env = la_now_wait a" by (simp_all add: play_attempt_def Let_def)
  have again: "at_leeway (hear_attempt (ed_tokio deadline) a) = ?leeway" by (simp add: hear_attempt_def)
  show ?case
  proof (cases z)
    case (Ok resp)
    then show ?thesis using Cons.prems(3) z check run by (auto simp: Let_def)
  next
    case (Err failed)
    obtain e observed where failed: "failed = (e, observed)" by fastforce
    show ?thesis
    proof (cases "tries_again ?policy attempt ?leeway failed")
      case False
      then have "evaluate_retry ?policy attempt (AttemptFailure_new e observed) (ed_tokio deadline) (la_now_retry a) = None"
        by (simp add: tries(1) failed)
      then show ?thesis
        using Cons.prems(3) z check run Err failed False
        by (auto simp: Let_def again env into_driver_failure_def AttemptFailure_new_def ModelDriverFailure_ordinary_def)
    next
      case True
      then obtain delay where delay: "evaluate_retry ?policy attempt (AttemptFailure_new e observed) (ed_tokio deadline)
          (la_now_retry a) = Some delay"
        using tries(1) [of attempt e observed "la_now_retry a"] failed by (cases "evaluate_retry ?policy attempt
            (AttemptFailure_new e observed) (ed_tokio deadline) (la_now_retry a)") auto
      have waited: "at_waited (hear_attempt (ed_tokio deadline) a)"
        and rest: "model_outcome parse ser (mq_tools request) (drv_limits drv) ?policy (attempt + 1)
          (map (hear_attempt (ed_tokio deadline)) as) = Some r"
        using Cons.prems(3) z Err True again by (simp_all split: if_splits)
      have polls: "serene limits (snd (play_polls (act ser') (map fst (la_stream a))
          (snd (play_polls (act ser') (la_start a) (fold (act ser') (la_ops a) c)))))"
        using ops(1) Cons.prems(1) by (simp add: attempt_ops_def polls_played serene_acts)
      have "select_port (ae_wait_polls ?env) = Some (Sel_Result (Completed ()))"
        using serene_select [OF polls, of "la_wait a" "()" ser'] waited ops(1)
        by (simp add: hear_attempt_def attempt_ops_def play_attempt_def Let_def)
      then have "wait_for_retry (la_now_wait a) (ae_wait_polls ?env) (ed_source deadline) delay e = Done (Ok ())"
        using waited tries(2) [OF delay] by (simp add: wait_for_retry_def instant_checked_add_def hear_attempt_def)
      with Cons.IH [OF c' ops(2) rest, of log1 "fails @ [AttemptFailure_new e observed]"] check run Err failed delay env
      show ?thesis by (simp add: Let_def c'_def AttemptFailure_new_def)
    qed
  qed
qed simp

text \<open>The driver of a request, as \<open>run_model\<close> builds it.\<close>

definition driver_of :: "LoopOptions \<Rightarrow> ('m, 't, 'p, 'q) ExecutionConfig \<Rightarrow> ModelDriver" where
  "driver_of opts snapshot = ModelDriver_from_validated (ec_descriptor snapshot) (lo_model_timeout opts)
     (lo_model_retry_attempts opts) (lo_model_retry_base_delay opts) (lo_limits opts)"

lemma driver_of_simps [simp]:
  "drv_limits (driver_of opts snapshot) = lo_limits opts"
  "drv_model_call_timeout (driver_of opts snapshot) = lo_model_timeout opts"
  by (simp_all add: driver_of_def ModelDriver_from_validated_def)

text \<open>The answer to a request: refused by the driver before the model is asked, or what its attempts come to.\<close>

definition model_answer ::
  "(rstr \<Rightarrow> json option) \<Rightarrow> json serializer \<Rightarrow> LoopOptions \<Rightarrow> ('m, 't, 'p, 'q) ExecutionConfig \<Rightarrow> ModelRequest \<Rightarrow>
     attempt_reply list \<Rightarrow> (ModelResponse, ModelError) result option" where
  "model_answer parse ser opts config request attempts =
     (let driver = driver_of opts config in
      case validate_request driver request of
        Err e \<Rightarrow> Some (Err e)
      | Ok _ \<Rightarrow> model_outcome parse ser (mq_tools request) (lo_limits opts) (drv_retry_policy driver) 0 attempts)"

lemma model_outcome_assembled:
  "model_outcome parse ser specs limits policy attempt rs = Some (Ok response) \<Longrightarrow>
     \<exists>evs a prog. push_all parse ser (Assembler_new specs limits) evs = Some (a, Ok prog) \<and> finish a = Some (Ok response)"
proof (induction rs arbitrary: attempt)
  case (Cons r rs)
  show ?case
  proof (cases "attempt_outcome parse ser specs limits r = Some (Ok response)")
    case True
    then have "stream_outcome parse ser (Assembler_new specs limits) (at_stream r) = Some (Ok response)"
      by (auto simp: attempt_outcome_def split: option.splits result.splits)
    then show ?thesis
      by (auto simp: stream_outcome_def Let_def finish_obs split: option.splits result.splits prod.splits stream_end.splits)
  next
    case False
    then show ?thesis using Cons by (auto split: option.splits result.splits if_splits)
  qed
qed simp

lemma run_detailed_answers:
  assumes "rp_base_delay (drv_retry_policy drv) \<le> MAX_MODEL_RETRY_DELAY" "serene limits c" "list_all mild (concat (map attempt_ops as))"
    and "within d now (drv_model_call_timeout drv) check"
    and "(case validate_request drv request of
         Err e \<Rightarrow> Some (Err e)
       | Ok _ \<Rightarrow> model_outcome parse ser (mq_tools request) (drv_limits drv) (drv_retry_policy drv) 0
           (map (hear_attempt (min d (now + drv_model_call_timeout drv))) as)) = Some r"
  shows "\<exists>log' fails. run_detailed parse ser drv request d \<lparr>de_now_deadline = now, de_cancelled = False, de_now_check = check,
      de_attempts = fst (play_attempts (act ser') as c)\<rparr> log = (Done (map_err ModelDriverFailure_ordinary r), log', fails)"
proof -
  define deadline where "deadline = \<lparr>ed_standard = min d (now + drv_model_call_timeout drv),
     ed_tokio = min d (now + drv_model_call_timeout drv),
     ed_source = (if d \<le> now + drv_model_call_timeout drv then Turn else Port)\<rparr>"
  have eff: "effective_deadline_from now d (drv_model_call_timeout drv) = Ok deadline"
    using assms(4) by (simp add: within_def deadline_def effective_deadline_Ok)
  have range: "ed_tokio deadline < INSTANT_LIMIT" using assms(4) by (simp add: within_def deadline_def min_less_iff_disj)
  have check: "precheck False check (ed_tokio deadline) (ed_source deadline) = Ok ()"
    using assms(4) by (simp add: precheck_def within_def deadline_def not_le)
  show ?thesis
  proof (cases "validate_request drv request")
    case (Err e)
    then show ?thesis using assms(5) eff check by (auto simp: run_detailed_def)
  next
    case (Ok u)
    then have "model_outcome parse ser (mq_tools request) (drv_limits drv) (drv_retry_policy drv) 0
        (map (hear_attempt (ed_tokio deadline)) as) = Some r"
      using assms(5) by (simp add: deadline_def)
    from attempts_follow [OF assms(1) range assms(2,3) this, of ser' log "[]"] eff check Ok show ?thesis
      by (simp add: run_detailed_def)
  qed
qed

lemma run_model_yields:
  assumes "options_ok (rn_options s)" "serene (limits_of s) (rn_control s)" "list_all mild (model_ops env)"
    and "turn_deadline (lm_now_turn env) (lo_deadline (rn_options s)) = Some d"
    and "model_attempts (rn_options s) env = Some attempts"
    and "model_answer parse ser (rn_options s) snapshot request attempts = Some r"
  shows "yields (run_model parse ser ri snapshot request d env)
     (\<lambda>x t. x = map_err ModelDriverFailure_ordinary r \<and> advances ser (model_ops env) [] s t) s"
proof -
  let ?drv = "driver_of (rn_options s) snapshot" and ?r = "map_err ModelDriverFailure_ordinary r"
  have within: "within d (lm_now_deadline env) (lo_model_timeout (rn_options s)) (lm_now_check env)"
    and attempts: "attempts = map (hear_attempt (min d (lm_now_deadline env + lo_model_timeout (rn_options s)))) (lm_attempts env)"
    using assms(4,5) by (simp_all add: model_attempts_def split: if_splits)
  define c1 where "c1 = fold (act ser) (lm_ops env) (rn_control s)"
  define c2 where "c2 = snd (play_attempts (act ser) (lm_attempts env) c1)"
  have ops: "list_all mild (lm_ops env)" "list_all mild (concat (map attempt_ops (lm_attempts env)))"
    "list_all mild (lm_ops_after env)"
    using assms(3) by (simp_all add: model_ops_def)
  have c1: "serene (limits_of s) c1" using serene_acts [OF assms(2) ops(1)] by (simp add: c1_def)
  have base: "rp_base_delay (drv_retry_policy ?drv) \<le> MAX_MODEL_RETRY_DELAY"
    using assms(1) by (simp add: options_ok_def driver_of_def ModelDriver_from_validated_def MAX_MODEL_RETRY_DELAY_def)
  have answer: "(case validate_request ?drv request of
       Err e \<Rightarrow> Some (Err e)
     | Ok _ \<Rightarrow> model_outcome parse ser (mq_tools request) (drv_limits ?drv) (drv_retry_policy ?drv) 0
         (map (hear_attempt (min d (lm_now_deadline env + drv_model_call_timeout ?drv))) (lm_attempts env))) = Some r"
    using assms(6) unfolding model_answer_def attempts Let_def driver_of_simps .
  obtain log fails where run: "run_detailed parse ser ?drv request d
      \<lparr>de_now_deadline = lm_now_deadline env, de_cancelled = False, de_now_check = lm_now_check env,
       de_attempts = fst (play_attempts (act ser) (lm_attempts env) c1)\<rparr> \<lparr>dl_sent = [], dl_dropped = 0\<rparr>
      = (Done ?r, log, fails)"
    using run_detailed_answers [OF base c1 ops(2) _ answer, of "lm_now_check env" ser "\<lparr>dl_sent = [], dl_dropped = 0\<rparr>"] within
    by auto
  have "advances ser (model_ops env) [] s (s\<lparr>rn_control := fold (act ser) (lm_ops_after env) c2\<rparr>)"
    using advances_acts [OF assms(2,3)] by (simp add: model_ops_def c2_def c1_def attempts_played)
  then have after: "advances ser (model_ops env) [] s (u\<lparr>rn_control := fold (act ser) (lm_ops_after env) (rn_control u)\<rparr>)"
    if "silent (s\<lparr>rn_control := c2\<rparr>) u" for u
    by (rule advances_silent(1)) (use that in \<open>simp add: silent_def\<close>)
  have tail: "yields (then_run (record_dropped_run n) (then_run (forward_all ri xs)
        (then_run (interfere ser (lm_ops_after env)) (return_run ?r))))
      (\<lambda>x t. x = ?r \<and> advances ser (model_ops env) [] s t) u"
    if "silent (s\<lparr>rn_control := c2\<rparr>) u" for n xs u
    by (simp, rule yields_mono [OF forward_all_yields])
      (use that after in \<open>auto intro: silent_trans\<close>)
  show ?thesis
    using serene_not_cancelled [OF c1]
    by (simp add: run_model_def Let_def c1_def [symmetric] driver_of_def [symmetric] run c2_def [symmetric])
      (rule yields_mono [OF forward_all_yields], use tail in simp)
qed

subsection \<open>Interactions\<close>

text \<open>
  The answer that resolves an interaction: the first one for its id that fits what was asked, and
  what other threads did up to then.  \<open>None\<close> if the loop's deadline comes first.
\<close>

fun accepted_answer :: "InteractionId \<Rightarrow> InteractionKind \<Rightarrow> ('m, 't, 'p, 'q) others list \<Rightarrow> InteractionAnswer option" where
  "accepted_answer i kind [] = None"
| "accepted_answer i kind (x # xs) =
     (case x of
        X_Answer j a \<Rightarrow> if j = i \<and> is_ok (InteractionAnswer_validate a kind) then Some a else accepted_answer i kind xs
      | _ \<Rightarrow> accepted_answer i kind xs)"

fun first_answer ::
  "InteractionId \<Rightarrow> InteractionKind \<Rightarrow> bool \<Rightarrow> (('m, 't, 'p, 'q) others list \<times> bool) list \<Rightarrow>
     (InteractionAnswer \<times> ('m, 't, 'p, 'q) others list) option" where
  "first_answer i kind timed [] = None"
| "first_answer i kind timed (p # ps) =
     (if timed \<and> snd p then None
      else case accepted_answer i kind (fst p) of
        Some a \<Rightarrow> Some (a, fst p)
      | None \<Rightarrow> map_option (apsnd ((@) (fst p))) (first_answer i kind timed ps))"

definition hear_wait ::
  "LoopOptions \<Rightarrow> ('m, 't, 'p, 'q) others live_wait \<Rightarrow> InteractionKind \<Rightarrow>
     (InteractionAnswer \<times> ('m, 't, 'p, 'q) others list) option" where
  "hear_wait opts w kind =
     (case InteractionId_new (lw_random w) of
        Some (Ok i) \<Rightarrow> first_answer i kind (lo_deadline opts \<noteq> None) (lw_polls w)
      | _ \<Rightarrow> None)"

definition wait_ops :: "'x live_wait \<Rightarrow> 'x list" where
  "wait_ops w = concat (map fst (lw_polls w))"

text \<open>The control plane while the loop waits, and when it has been answered.\<close>

definition attentive :: "LoopLimits \<Rightarrow> InteractionSlot \<Rightarrow> ('m, 't, 'p, 'q) control \<Rightarrow> bool" where
  "attentive limits slot c \<longleftrightarrow> live c \<and> lc_state c = STATE_NONE \<and> cs_accepting_updates (lc_inner c) \<and> lc_limits c = limits
     \<and> cs_interaction (lc_inner c) = Some slot \<and> slot_reply slot < length (lc_replies c)
     \<and> lc_replies c ! slot_reply slot = Oneshot_Empty"

definition replied :: "LoopLimits \<Rightarrow> nat \<Rightarrow> InteractionAnswer \<Rightarrow> ('m, 't, 'p, 'q) control \<Rightarrow> bool" where
  "replied limits reply a c \<longleftrightarrow> serene limits c \<and> lc_replies c ! reply = Oneshot_Sent a"

definition settled_by ::
  "LoopLimits \<Rightarrow> InteractionSlot \<Rightarrow> InteractionAnswer option \<Rightarrow> ('m, 't, 'p, 'q) control \<Rightarrow> bool" where
  "settled_by limits slot answered c \<longleftrightarrow>
     (case answered of None \<Rightarrow> attentive limits slot c | Some a \<Rightarrow> replied limits (slot_reply slot) a c)"

lemma act_attentive:
  assumes "attentive limits slot c" "mild x"
  shows "settled_by limits slot (accepted_answer (slot_id slot) (slot_expected slot) [x]) (act ser x c)"
    and "offers (act ser x c) = offer ser limits x (offers c)"
proof -
  have "live (act ser x c)" using assms by (auto simp: attentive_def mild_def intro: act_live)
  then show "settled_by limits slot (accepted_answer (slot_id slot) (slot_expected slot) [x]) (act ser x c)"
    using assms
    by (cases x) (auto simp: attentive_def settled_by_def replied_def serene_def quiet_def mild_def act_defs is_ok_def
        split: option.splits result.splits if_splits)
  show "offers (act ser x c) = offer ser limits x (offers c)"
    using assms
    by (cases x) (auto simp: attentive_def mild_def act_defs offers_def split: option.splits result.splits if_splits)
qed

lemma act_replied:
  assumes "replied limits reply a c" "mild x"
  shows "replied limits reply a (act ser x c)"
  using act_serene(1) [of limits c x ser] assms
  by (cases x) (auto simp: replied_def serene_def quiet_def mild_def act_defs split: option.splits result.splits if_splits)

interpretation replied: stable "act ser" mild "replied limits reply a" for ser limits reply a
  by unfold_locales (rule act_replied)

lemma acts_attentive:
  "attentive limits slot c \<Longrightarrow> list_all mild xs \<Longrightarrow>
     settled_by limits slot (accepted_answer (slot_id slot) (slot_expected slot) xs) (fold (act ser) xs c)
     \<and> offers (fold (act ser) xs c) = fold (offer ser limits) xs (offers c)"
proof (induction xs arbitrary: c)
  case (Cons x xs)
  note first = act_attentive [OF Cons.prems(1), of x ser]
  show ?case
  proof (cases "accepted_answer (slot_id slot) (slot_expected slot) [x]")
    case None
    then have "accepted_answer (slot_id slot) (slot_expected slot) (x # xs) = accepted_answer (slot_id slot) (slot_expected slot) xs"
      by (cases x) (auto split: if_splits)
    with None first Cons show ?thesis by (simp add: settled_by_def)
  next
    case (Some a)
    then have "accepted_answer (slot_id slot) (slot_expected slot) (x # xs) = Some a" by (cases x) (auto split: if_splits)
    moreover have r: "replied limits (slot_reply slot) a (act ser x c)" using first(1) Some Cons.prems(2) by (simp add: settled_by_def)
    ultimately show ?thesis
      using replied.acts_stable [OF r, of xs ser] offered.acts_tracked [of limits "act ser x c" xs ser] first(2) Cons.prems(2) r
      by (simp add: settled_by_def replied_def)
  qed
qed (simp add: settled_by_def)

lemma select_answered:
  "attentive limits slot c \<Longrightarrow> list_all mild (concat (map fst ps)) \<Longrightarrow>
     first_answer (slot_id slot) (slot_expected slot) (deadline \<noteq> None) ps = Some (a, ops) \<Longrightarrow>
     \<exists>c'. select_answer (act ser) deadline (slot_reply slot) ps c = (Done (Ok a), c') \<and> serene limits c' \<and> core c' = core c
       \<and> offers c' = fold (offer ser limits) ops (offers c)"
proof (induction ps arbitrary: c ops)
  case (Cons p ps)
  let ?c = "fold (act ser) (fst p) c"
  have mild: "list_all mild (fst p)" "list_all mild (concat (map fst ps))" using Cons.prems(2) by simp_all
  note step = acts_attentive [OF Cons.prems(1) mild(1), of ser]
  have time: "\<not> (deadline \<noteq> None \<and> snd p)" using Cons.prems(3) by (auto split: if_splits)
  show ?case
  proof (cases "accepted_answer (slot_id slot) (slot_expected slot) (fst p)")
    case None
    then have c: "attentive limits slot ?c" using step by (simp add: settled_by_def)
    then have open_c: "\<not> lc_cancel ?c" "lc_replies ?c ! slot_reply slot = Oneshot_Empty" by (auto simp: attentive_def live_def)
    obtain ops' where "first_answer (slot_id slot) (slot_expected slot) (deadline \<noteq> None) ps = Some (a, ops')" "ops = fst p @ ops'"
      using Cons.prems(3) None time by (auto split: if_splits)
    from Cons.IH [OF c mild(2) this(1)] this(2) step open_c time show ?thesis by (auto simp: Let_def)
  next
    case (Some b)
    then have "replied limits (slot_reply slot) b ?c" using step by (simp add: settled_by_def)
    then have c: "serene limits ?c" "lc_replies ?c ! slot_reply slot = Oneshot_Sent b" by (simp_all add: replied_def)
    then show ?thesis
      using Cons.prems(3) Some step serene_not_cancelled [OF c(1)] time by (auto simp: Let_def split: if_splits)
  qed
qed simp

lemma ask_yields:
  assumes "serene (limits_of s) (rn_control s)" "list_all mild (wait_ops w)" "hear_wait (rn_options s) w kind = Some (a, ops)"
  shows "yields (ask ser invocation kind w) (\<lambda>r t. r = Ok a \<and> advances ser ops [] s t) s"
proof -
  obtain i where i: "InteractionId_new (lw_random w) = Some (Ok i)"
    "first_answer i kind (lo_deadline (rn_options s) \<noteq> None) (lw_polls w) = Some (a, ops)"
    using assms(3) by (auto simp: hear_wait_def split: option.splits result.splits)
  define reply where "reply = length (lc_replies (rn_control s))"
  define slot where "slot = \<lparr>slot_id = i, slot_expected = kind, slot_reply = reply\<rparr>"
  define c1 where "c1 = fst (oneshot_channel (rn_control s))"
  define c2 where "c2 = c1\<lparr>lc_inner := (lc_inner c1)\<lparr>cs_interaction := Some slot\<rparr>\<rparr>"
  have chan: "oneshot_channel (rn_control s) = (c1, reply)" by (simp add: c1_def reply_def oneshot_channel_def)
  have set: "set_interaction slot c1 = (c2, Ok ())"
    using assms(1) by (simp add: set_interaction_def c2_def c1_def oneshot_channel_def serene_def quiet_def)
  define cp where "cp = publish_state ((current_state c2)\<lparr>lst_status := LS_WaitingForInput,
      lst_pending_interaction := Some \<lparr>pi_interaction_id = i, pi_tool_call_id = inv_tool_call_id invocation,
         pi_tool_name = inv_tool_name invocation, pi_kind = kind\<rparr>\<rparr>) c2"
  have cp: "attentive (limits_of s) slot cp" "offers cp = offers (rn_control s)" "core cp = core (rn_control s)"
    using assms(1)
    by (auto simp: cp_def c2_def c1_def oneshot_channel_def attentive_def serene_def quiet_def live_def publish_state_def slot_def
        reply_def offers_def core_def)
  obtain c' where sel: "select_answer (act ser) (lo_deadline (rn_options s)) reply (lw_polls w) cp = (Done (Ok a), c')"
    "serene (limits_of s) c'" "core c' = core cp" "offers c' = fold (offer ser (limits_of s)) ops (offers cp)"
    using select_answered [OF cp(1), of "lw_polls w" "lo_deadline (rn_options s)" a ops ser] assms(2) i(2)
    by (auto simp: slot_def wait_ops_def)
  have taken: "take_interaction c' = c'" using sel(2) by (simp add: take_interaction_def serene_def quiet_def)
  show ?thesis
    using sel cp
    by (simp add: ask_def i(1) wait_interaction_def Let_def chan set [unfolded slot_def] cp_def [symmetric] taken advances_def
        keeps_def adds_def)
qed

end
