(* ===== verification/Reference_Loop.thy ===== *)
theory Reference_Loop
  imports Host_Script
begin

text \<open>
  The loop without its machinery: a reference loop on what the host says, and the proof that the
  runner computes it.

  The runner of \<^verbatim>\<open>src/agent_loop/runner.rs\<close> talks to its host through ports with deadlines, polls,
  a stream driver with retries, an event channel and a control plane other threads write to.  The
  reference loop has none of that: it is a function of the values the host delivers, of updates
  and of inputs.  As long as nobody cancels and every port answers in time, the run returns the
  report of the reference loop, also when the model fails, before its attempts are used up or after,
  and when a user approves, refuses or provides what a tool asks for.
\<close>

subsection \<open>Tool calls\<close>

text \<open>
  What the host and its users say about one call, and what other threads do meanwhile.  The answer
  to an interaction depends on what was asked.
\<close>

type_synonym ('m, 't, 'p, 'q) answering = "InteractionKind \<Rightarrow> (InteractionAnswer \<times> ('m, 't, 'p, 'q) others list) option"

record ('m, 't, 'p, 'q) tool_reply =
  tr_ops :: "('m, 't, 'p, 'q) others list"
  tr_policy_ops :: "('m, 't, 'p, 'q) others list"
  tr_decision :: "(ToolDecision, ToolPolicyError) result option"
  tr_approval :: "('m, 't, 'p, 'q) answering"
  tr_tool_ops :: "('m, 't, 'p, 'q) others list"
  tr_outcome :: "(ToolExecutionOutcome, ToolError) result option"
  tr_input :: "('m, 't, 'p, 'q) answering"

definition hear_tool :: "LoopOptions \<Rightarrow> ('m, 't, 'p, 'q) others live_tool \<Rightarrow> ('m, 't, 'p, 'q) tool_reply" where
  "hear_tool opts env = \<lparr>tr_ops = lt_ops env, tr_policy_ops = call_ops (lt_policy env),
     tr_decision = call_value opts (lo_policy_timeout opts) (lt_policy env), tr_approval = hear_wait opts (lt_approval env),
     tr_tool_ops = call_ops (lt_tool env), tr_outcome = call_value opts (lo_tool_timeout opts) (lt_tool env),
     tr_input = hear_wait opts (lt_input env)\<rparr>"

lemma hear_tool_ops [simp]: "tr_ops (hear_tool opts env) = lt_ops env"
  by (simp add: hear_tool_def)

definition verdict :: "'r option \<Rightarrow> ('m, 't, 'p, 'q) tool_reply \<Rightarrow> (ToolDecision, ToolPolicyError) result option" where
  "verdict policy r = (case policy of None \<Rightarrow> Some (Ok TD_Allow) | Some _ \<Rightarrow> tr_decision r)"

text \<open>
  Whether the call may run: the policy's decision, or the user's where the policy wants to know
  it.  A policy that fails refuses.
\<close>

datatype permission = Permitted | Refused "BoundedText option"

definition permission ::
  "'r option \<Rightarrow> ('m, 't, 'p, 'q) tool_reply \<Rightarrow> (permission \<times> ('m, 't, 'p, 'q) others list) option" where
  "permission policy r =
     (case verdict policy r of
        None \<Rightarrow> None
      | Some (Err _) \<Rightarrow> Some (Refused None, [])
      | Some (Ok decision) \<Rightarrow>
          if \<not> is_ok (ToolDecision_validate decision) then None
          else (case decision of
              TD_Allow \<Rightarrow> Some (Permitted, [])
            | TD_Deny reason \<Rightarrow> Some (Refused (Some reason), [])
            | TD_RequireApproval request \<Rightarrow>
                (case tr_approval r (IK_Approval request) of
                   Some (IA_Approval AllowOnce, ops) \<Rightarrow> Some (Permitted, ops)
                 | Some (IA_Approval Deny_Approval, ops) \<Rightarrow> Some (Refused None, ops)
                 | _ \<Rightarrow> None)))"

text \<open>The result of a tool that runs: its own, or the user's answer to what it asks for.\<close>

definition tool_said ::
  "(json \<Rightarrow> rstr) \<Rightarrow> LoopId \<Rightarrow> u32 \<Rightarrow> nat \<Rightarrow> ToolCall \<Rightarrow> ('m, 't, 'p, 'q) tool_reply \<Rightarrow>
     (ToolResultHistory \<times> ('m, 't, 'p, 'q) others list) option" where
  "tool_said enc ident request_index mx call r =
     (let failed = map_option (\<lambda>result. (result, [])) (terminal_tool_result ident request_index (tc_id call) (tc_name call)
            TR_Failed (lit ''tool failed'') mx) in
      case tr_outcome r of
        None \<Rightarrow> None
      | Some (Err _) \<Rightarrow> failed
      | Some (Ok (TX_Completed output)) \<Rightarrow>
          map_option (\<lambda>result. (result, [])) (completed_result ident request_index (invocation_of call) output mx)
      | Some (Ok (TX_RequestInput request)) \<Rightarrow>
          if \<not> is_ok (ToolInputRequest_validate request) then failed
          else (case tr_input r (IK_ToolInput request) of
              Some (IA_ToolInput a, ops) \<Rightarrow>
                (case ToolInputAnswer_encode_result enc a request of
                   None \<Rightarrow> None
                 | Some content \<Rightarrow> map_option (\<lambda>result. (result, ops))
                     (provided_input_result ident request_index (invocation_of call) content mx))
            | _ \<Rightarrow> None))"

text \<open>
  The result of one call.  \<open>None\<close>: the host or the user does not answer, or answers what the loop
  does not accept.
\<close>

definition tool_answer ::
  "(json \<Rightarrow> rstr) \<Rightarrow> LoopId \<Rightarrow> u32 \<Rightarrow> nat \<Rightarrow> 'r option \<Rightarrow> ToolCall \<Rightarrow> ('m, 't, 'p, 'q) tool_reply \<Rightarrow>
     (ToolResultHistory \<times> ('m, 't, 'p, 'q) others list) option" where
  "tool_answer enc ident request_index mx policy call r =
     (let asked = (if policy = None then [] else tr_policy_ops r) in
      case permission policy r of
        None \<Rightarrow> None
      | Some (Refused reason, ops) \<Rightarrow>
          map_option (\<lambda>result. (result, asked @ ops)) (denied_result ident request_index (invocation_of call) reason mx)
      | Some (Permitted, ops) \<Rightarrow>
          map_option (apsnd (\<lambda>ops'. asked @ ops @ tr_tool_ops r @ ops')) (tool_said enc ident request_index mx call r))"

text \<open>One result per call, in call order.\<close>

fun batch_answers ::
  "(json \<Rightarrow> rstr) \<Rightarrow> LoopId \<Rightarrow> u32 \<Rightarrow> nat \<Rightarrow> 'r option \<Rightarrow> ToolCall list \<Rightarrow> ('m, 't, 'p, 'q) tool_reply list \<Rightarrow>
     (ToolResultHistory list \<times> ('m, 't, 'p, 'q) others list) option" where
  "batch_answers enc ident request_index mx policy [] rs = Some ([], [])"
| "batch_answers enc ident request_index mx policy (call # calls) [] = None"
| "batch_answers enc ident request_index mx policy (call # calls) (r # rs) =
     (case tool_answer enc ident request_index mx policy call r of
        None \<Rightarrow> None
      | Some (result, ops) \<Rightarrow>
          map_option (\<lambda>(results, ops'). (result # results, tr_ops r @ ops @ ops'))
            (batch_answers enc ident request_index mx policy calls rs))"

definition tool_env_ops :: "'x live_tool \<Rightarrow> 'x list" where
  "tool_env_ops env = lt_ops env @ call_ops (lt_policy env) @ wait_ops (lt_approval env) @ call_ops (lt_tool env)
     @ wait_ops (lt_input env)"

text \<open>Nobody cancels, and the clock stays in range.\<close>

definition undisturbed_tool :: "LoopOptions \<Rightarrow> ('m, 't, 'p, 'q) others live_tool \<Rightarrow> bool" where
  "undisturbed_tool opts env \<longleftrightarrow> list_all mild (tool_env_ops env) \<and> calm_tool opts env"

subsection \<open>Lemmas: tool calls\<close>

lemma forward_progress_yields: "yields (forward_tool_progress ri call_id ps) (\<lambda>_. silent s) s"
proof (induction ps arbitrary: s)
  case (Cons p ps)
  show ?case
    by (cases p, simp, rule yields_mono [OF Cons.IH]) (auto intro: silent_trans)
qed simp

lemma run_tool_port_yields:
  assumes "serene (limits_of s) (rn_control s)" "list_all mild (call_ops (lt_tool env))"
    and "turn_deadline (lv_now_turn (lt_tool env)) (lo_deadline (rn_options s)) = Some d"
    and "call_value (rn_options s) (lo_tool_timeout (rn_options s)) (lt_tool env) = Some out"
  shows "yields (run_tool_port ser ri invocation d env)
     (\<lambda>r t. r = tool_port (Returned out) \<and> advances ser (call_ops (lt_tool env)) [] s t) s"
  unfolding run_tool_port_def
proof (rule yields_thenI [OF forward_progress_yields], goal_cases)
  case (1 _ u)
  then have u: "rn_options u = rn_options s" "rn_control u = rn_control s" by (simp_all add: silent_def)
  have "yields (live_port ser d (lo_tool_timeout (rn_options s)) (lt_tool env))
      (\<lambda>run t. pr_outcome run = Returned out \<and> advances ser (call_ops (lt_tool env)) [] s t) u"
    by (rule yields_mono [OF live_port_yields [OF _ assms(2-4)]]) (use u assms(1) 1 in \<open>auto intro: advances_silent(2)\<close>)
  then show ?case
    unfolding yields_simps u(1)
  proof (rule yields_mono, goal_cases)
    case (1 run t)
    then show ?case
      by (auto intro!: yields_mono [OF forward_progress_yields] intro: advances_silent(1))
  qed
qed

lemma result_step_yields:
  "f (rn_id s) (max_output s) = Some result \<Longrightarrow> Q (TStep_Result result) s \<Longrightarrow> yields (result_step f) Q s"
  by (simp add: result_step_def)

lemma provide_input_yields:
  assumes "serene (limits_of s) (rn_control s)" "list_all mild (wait_ops w)"
    and "hear_wait (rn_options s) w (IK_ToolInput request) = Some (IA_ToolInput a, ops)"
    and "ToolInputAnswer_encode_result enc a request = Some content"
    and "provided_input_result (rn_id s) ri invocation content (max_output s) = Some result"
  shows "yields (provide_input ser enc ri invocation request w)
     (\<lambda>r t. r = TStep_Result result \<and> advances ser ops [] s t) s"
  unfolding provide_input_def
proof (rule yields_bindI [OF ask_yields [OF assms(1-3)]], goal_cases)
  case (1 r t)
  then show ?case
    using assms(4,5) by (auto simp: advances_def keeps_def max_output_def intro!: result_step_yields)
qed

lemma call_tool_yields:
  assumes "serene (limits_of s) (rn_control s)" "list_all mild (call_ops (lt_tool env))" "list_all mild (wait_ops (lt_input env))"
    and "tool_said enc (rn_id s) ri (max_output s) call (hear_tool (rn_options s) env) = Some (result, ops)"
  shows "yields (call_tool ser enc ri (invocation_of call) env)
     (\<lambda>r t. r = TStep_Result result \<and> advances ser (call_ops (lt_tool env) @ ops) [] s t) s"
proof -
  obtain out where out: "call_value (rn_options s) (lo_tool_timeout (rn_options s)) (lt_tool env) = Some out"
    using assms(4) by (auto simp: tool_said_def hear_tool_def Let_def split: option.splits)
  obtain d where d: "turn_deadline (lv_now_turn (lt_tool env)) (lo_deadline (rn_options s)) = Some d"
    using call_value_deadline [OF out] by blast
  have step: "yields (case tool_port (Returned out) of
       TPort_Completed output \<Rightarrow> result_step (\<lambda>ident mx. completed_result ident ri (invocation_of call) output mx)
     | TPort_RequestInput request \<Rightarrow> provide_input ser enc ri (invocation_of call) request (lt_input env)
     | TPort_Failed \<Rightarrow> result_step (\<lambda>ident mx. terminal_tool_result ident ri (inv_tool_call_id (invocation_of call))
           (inv_tool_name (invocation_of call)) TR_Failed (lit ''tool failed'') mx)
     | TPort_End path \<Rightarrow> return_run (TStep_End path))
     (\<lambda>r t. r = TStep_Result result \<and> advances ser (call_ops (lt_tool env) @ ops) [] s t) u"
    if u: "advances ser (call_ops (lt_tool env)) [] s u" for u
  proof -
    have same: "rn_id u = rn_id s" "rn_options u = rn_options s" "max_output u = max_output s" "serene (limits_of u) (rn_control u)"
      using u by (auto simp: advances_def keeps_def max_output_def)
    have answered: "yields (provide_input ser enc ri (invocation_of call) request (lt_input env))
        (\<lambda>r t. r = TStep_Result result \<and> advances ser (call_ops (lt_tool env) @ ops) [] s t) u"
      if "hear_wait (rn_options s) (lt_input env) (IK_ToolInput request) = Some (IA_ToolInput a, ops)"
        "ToolInputAnswer_encode_result enc a request = Some content"
        "provided_input_result (rn_id s) ri (invocation_of call) content (max_output s) = Some result" for request a content
      by (rule yields_mono [OF provide_input_yields [OF same(4) assms(3)]])
        (use that same advances_trans [OF u] in \<open>auto\<close>)
    show ?thesis
      using assms(4) out u same answered
      by (auto simp: tool_said_def hear_tool_def tool_port_def invocation_of_def Let_def intro!: result_step_yields
          split: result.splits ToolExecutionOutcome.splits option.splits InteractionAnswer.splits if_splits prod.splits)
  qed
  show ?thesis
    by (simp add: call_tool_def d)
      (rule yields_mono [OF run_tool_port_yields [OF assms(1,2) d out]], use step in simp)
qed

lemma policy_step_yields:
  assumes "serene (limits_of s) (rn_control s)" "undisturbed_tool (rn_options s) env"
    and "verdict policy (hear_tool (rn_options s) env) = Some out"
    and "turn_deadline (lv_now_turn (lt_policy env)) (lo_deadline (rn_options s)) = Some d"
  shows "yields (decide_policy ser policy d (lo_policy_timeout (rn_options s)) (lt_policy env))
     (\<lambda>r t. r = policy_step (Returned out)
        \<and> advances ser (if policy = None then [] else call_ops (lt_policy env)) [] s t) s"
proof (cases policy)
  case None
  then show ?thesis
    using assms(1,3) advances_acts [OF assms(1), of "[]" ser]
    by (auto simp: decide_policy_def verdict_def policy_step_def ToolDecision_validate_def)
next
  case (Some p)
  have "list_all mild (call_ops (lt_policy env))" using assms(2) by (simp add: undisturbed_tool_def tool_env_ops_def)
  from live_port_yields [OF assms(1) this assms(4), of "lo_policy_timeout (rn_options s)" out ser] Some assms(3) show ?thesis
    by (auto simp: decide_policy_def verdict_def hear_tool_def intro: yields_mono)
qed

lemma run_tool_call_yields:
  assumes s: "serene (limits_of s) (rn_control s)" "undisturbed_tool (rn_options s) env"
    and answer: "tool_answer enc (rn_id s) ri (max_output s) policy call (hear_tool (rn_options s) env) = Some (result, ops)"
  shows "yields (run_tool_call ser enc ri (invocation_of call) policy env)
     (\<lambda>r t. r = TStep_Result result \<and> advances ser ops [] s t) s"
proof -
  let ?r = "hear_tool (rn_options s) env"
  define asked where "asked = (if policy = None then [] else call_ops (lt_policy env))"
  have heard: "tr_policy_ops ?r = call_ops (lt_policy env)" "tr_tool_ops ?r = call_ops (lt_tool env)"
    "tr_approval ?r = hear_wait (rn_options s) (lt_approval env)" by (simp_all add: hear_tool_def)
  have mild: "list_all mild (call_ops (lt_tool env))" "list_all mild (wait_ops (lt_input env))" "list_all mild (wait_ops (lt_approval env))"
    using s(2) by (simp_all add: undisturbed_tool_def tool_env_ops_def)
  obtain d where d: "turn_deadline (lv_now_turn (lt_policy env)) (lo_deadline (rn_options s)) = Some d"
    using s(2) by (auto simp: undisturbed_tool_def calm_tool_def)
  obtain perm pops where perm: "permission policy ?r = Some (perm, pops)"
    using answer by (auto simp: tool_answer_def Let_def split: option.splits)
  obtain out where out: "verdict policy ?r = Some out" using perm by (auto simp: permission_def split: option.splits)
  have granted: "yields (call_tool ser enc ri (invocation_of call) env)
      (\<lambda>r u. r = TStep_Result result \<and> advances ser ops [] s u) t"
    if perm': "perm = Permitted" and t: "advances ser (asked @ pops) [] s t" for t
  proof -
    have same: "rn_id t = rn_id s" "rn_options t = rn_options s" "max_output t = max_output s" "serene (limits_of t) (rn_control t)"
      using t by (auto simp: advances_def keeps_def max_output_def)
    obtain tops where tops: "tool_said enc (rn_id s) ri (max_output s) call ?r = Some (result, tops)"
      "ops = asked @ pops @ call_ops (lt_tool env) @ tops"
      using answer perm perm' by (auto simp: tool_answer_def Let_def heard asked_def)
    have "yields (call_tool ser enc ri (invocation_of call) env)
        (\<lambda>r u. r = TStep_Result result \<and> advances ser (call_ops (lt_tool env) @ tops) [] t u) t"
      by (rule call_tool_yields [OF same(4) mild(1,2)]) (use tops(1) same in simp)
    then show ?thesis by (rule yields_mono) (use advances_trans [OF t] tops(2) in fastforce)
  qed
  have refused: "yields (result_step (\<lambda>ident mx. denied_result ident ri (invocation_of call) reason mx))
      (\<lambda>r u. r = TStep_Result result \<and> advances ser ops [] s u) t"
    if "perm = Refused reason" and t: "advances ser (asked @ pops) [] s t" for t reason
  proof (rule result_step_yields)
    have same: "rn_id t = rn_id s" "max_output t = max_output s" using t by (auto simp: advances_def keeps_def max_output_def)
    show "denied_result (rn_id t) ri (invocation_of call) reason (max_output t) = Some result"
      using answer perm that(1) same by (auto simp: tool_answer_def Let_def)
    show "TStep_Result result = TStep_Result result \<and> advances ser ops [] s t"
      using answer perm t that(1) by (auto simp: tool_answer_def Let_def heard asked_def)
  qed
  have rest: "yields (case policy_step (Returned out) of
       PS_Allow \<Rightarrow> call_tool ser enc ri (invocation_of call) env
     | PS_Denied reason \<Rightarrow> result_step (\<lambda>ident mx. denied_result ident ri (invocation_of call) reason mx)
     | PS_RequireApproval request \<Rightarrow> seek_approval ser enc ri (invocation_of call) request env
     | PS_Cancelled \<Rightarrow> return_run (TStep_End FP_Cancelled)
     | PS_TurnDeadline \<Rightarrow> return_run (TStep_End FP_Deadline)
     | PS_Invalid \<Rightarrow> return_run (TStep_End FP_Policy))
     (\<lambda>r u. r = TStep_Result result \<and> advances ser ops [] s u) t"
    if t: "advances ser asked [] s t" for t
  proof (cases out)
    case (Err e)
    then show ?thesis
      using perm out refused [of None t] t by (auto simp: permission_def policy_step_def)
  next
    case (Ok decision)
    then have valid: "is_ok (ToolDecision_validate decision)" using perm out by (auto simp: permission_def split: if_splits)
    show ?thesis
    proof (cases decision)
      case TD_Allow
      then show ?thesis using perm out Ok granted t valid by (auto simp: permission_def policy_step_def)
    next
      case (TD_Deny reason)
      then show ?thesis using perm out Ok refused t valid by (auto simp: permission_def policy_step_def)
    next
      case (TD_RequireApproval request)
      obtain a where a: "hear_wait (rn_options s) (lt_approval env) (IK_Approval request) = Some (IA_Approval a, pops)"
        "perm = (if a = AllowOnce then Permitted else Refused None)"
        using perm out Ok valid
        by (auto simp: permission_def TD_RequireApproval heard split: option.splits InteractionAnswer.splits ApprovalDecision.splits)
      have same: "rn_options t = rn_options s" "serene (limits_of t) (rn_control t)" using t by (auto simp: advances_def keeps_def)
      have asking: "yields (ask ser (invocation_of call) (IK_Approval request) (lt_approval env))
          (\<lambda>r u. r = Ok (IA_Approval a) \<and> advances ser (asked @ pops) [] s u) t"
        by (rule yields_mono [OF ask_yields [OF same(2) mild(3)]]) (use a(1) same advances_trans [OF t] in \<open>fastforce+\<close>)
      have "yields (seek_approval ser enc ri (invocation_of call) request env)
          (\<lambda>r u. r = TStep_Result result \<and> advances ser ops [] s u) t"
        unfolding seek_approval_def
        by (rule yields_bindI [OF asking]) (use granted refused a(2) in \<open>cases a; auto\<close>)
      then show ?thesis using valid by (simp add: Ok TD_RequireApproval policy_step_def)
    qed
  qed
  have "yields (decide_policy ser policy d (lo_policy_timeout (rn_options s)) (lt_policy env))
     (\<lambda>r t. r = policy_step (Returned out) \<and> advances ser asked [] s t) s"
    using policy_step_yields [OF s out d] by (simp only: asked_def)
  then show ?thesis
    unfolding run_tool_call_def
    by (simp add: d, elim yields_mono) (auto intro: rest)
qed

lemma start_call_yields:
  assumes "serene (limits_of s) (rn_control s)" "undisturbed_tool (rn_options s) env"
    and "EnabledTools_get (ec_tools snapshot) (tc_name call) \<noteq> None"
    and "tool_answer enc (rn_id s) ri (max_output s) (ec_policy snapshot) call (hear_tool (rn_options s) env) = Some (result, ops)"
  shows "yields (start_call ser enc ri snapshot call env)
     (\<lambda>r t. r = TStep_Result result \<and> advances ser ops [] s t) s"
proof -
  obtain en where en: "EnabledTools_get (ec_tools snapshot) (tc_name call) = Some en" using assms(3) by auto
  define u where "u = s\<lparr>rn_sink := try_emit (EV_ToolStarted (rn_id s) ri (tc_id call) (tc_name call)) (rn_sink s)\<rparr>"
  have u: "silent s u" "rn_options u = rn_options s" "rn_id u = rn_id s" "rn_control u = rn_control s" "max_output u = max_output s"
    by (simp_all add: u_def max_output_def)
  have "yields (run_tool_call ser enc ri (invocation_of call) (ec_policy snapshot) env)
     (\<lambda>r t. r = TStep_Result result \<and> advances ser ops [] s t) u"
    by (rule yields_mono [OF run_tool_call_yields])
      (use assms u in \<open>auto intro: advances_silent(2) [OF u(1)]\<close>)
  then show ?thesis
    using serene_not_cancelled [OF assms(1)]
    by (simp add: start_call_def en invocation_of_def [symmetric] u_def)
qed

lemma run_tool_batch_yields:
  assumes "serene (limits_of s) (rn_control s)" "list_all (undisturbed_tool (rn_options s)) envs"
    and "knows_calls snapshot calls"
    and "batch_answers enc (rn_id s) ri (max_output s) (ec_policy snapshot) calls (map (hear_tool (rn_options s)) envs)
       = Some (results, ops)"
  shows "yields (run_tool_batch ser enc ri snapshot calls envs)
     (\<lambda>r t. r = None \<and> advances ser ops (map HI_ToolResult results) s t) s"
  using assms
proof (induction calls arbitrary: envs s results ops)
  case Nil
  then show ?case using advances_acts [of s "[]" ser] by simp
next
  case (Cons call calls)
  obtain env rest result answered results' ops' where split: "envs = env # rest"
    "tool_answer enc (rn_id s) ri (max_output s) (ec_policy snapshot) call (hear_tool (rn_options s) env) = Some (result, answered)"
    "batch_answers enc (rn_id s) ri (max_output s) (ec_policy snapshot) calls (map (hear_tool (rn_options s)) rest)
       = Some (results', ops')"
    "results = result # results'" "ops = lt_ops env @ answered @ ops'"
    using Cons.prems(4) by (cases envs) (auto split: option.splits)
  have "undisturbed_tool (rn_options s) env" "list_all (undisturbed_tool (rn_options s)) rest"
    using Cons.prems(2) by (simp_all add: split(1))
  then have env: "undisturbed_tool (rn_options s) env" "list_all (undisturbed_tool (rn_options s)) rest" "list_all mild (lt_ops env)"
    by (simp_all add: undisturbed_tool_def [of _ env] tool_env_ops_def)
  define t where "t = s\<lparr>rn_control := fold (act ser) (lt_ops env) (rn_control s)\<rparr>"
  have t: "advances ser (lt_ops env) [] s t" unfolding t_def by (rule advances_acts [OF Cons.prems(1) env(3)])
  then have same: "rn_options t = rn_options s" "rn_id t = rn_id s" "max_output t = max_output s" "serene (limits_of t) (rn_control t)"
    by (simp_all add: advances_def keeps_def max_output_def)
  have known: "EnabledTools_get (ec_tools snapshot) (tc_name call) \<noteq> None" "knows_calls snapshot calls"
    using Cons.prems(3) by (simp_all add: knows_calls_def)
  have step: "yields (start_call ser enc ri snapshot call env)
     (\<lambda>r u. r = TStep_Result result \<and> advances ser (lt_ops env @ answered) [] s u) t"
    by (rule yields_mono [OF start_call_yields [OF same(4) _ known(1)]])
      (use env split same t in \<open>auto dest: advances_trans\<close>)
  have rest: "yields (run_tool_batch ser enc ri snapshot calls rest)
      (\<lambda>r v. r = None \<and> advances ser ops (map HI_ToolResult results) s v)
      (u\<lparr>rn_sink := sink, rn_working := append_tool_result result (rn_working u)\<rparr>)" (is "yields _ _ ?u")
    if u: "advances ser (lt_ops env @ answered) [] s u" for u sink
  proof -
    have next_: "advances ser (lt_ops env @ answered) [HI_ToolResult result] s ?u"
      using u by (auto simp: advances_def keeps_def adds_def append_tool_result_def)
    then have "rn_options ?u = rn_options s" "rn_id ?u = rn_id s" "max_output ?u = max_output s" "serene (limits_of ?u) (rn_control ?u)"
      by (auto simp: advances_def keeps_def max_output_def)
    with Cons.IH [of ?u rest results' ops'] env(2) known(2) split(3)
    have "yields (run_tool_batch ser enc ri snapshot calls rest)
        (\<lambda>r v. r = None \<and> advances ser ops' (map HI_ToolResult results') ?u v) ?u" by simp
    then show ?thesis
      by (rule yields_mono) (use advances_trans [OF next_] split(4,5) in fastforce)
  qed
  show ?case
    unfolding split(1)
    by (simp add: t_def [symmetric], rule yields_mono [OF step])
      (auto simp: append_result_def rest)
qed

lemma settle_calls_yields:
  assumes "static_message m"
  shows "yields (settle_calls ri calls outcome m)
     (\<lambda>_ t. silent (s\<lparr>rn_working := (rn_working s)\<lparr>wh_appended := wh_appended (rn_working s)
        @ map (\<lambda>c. HI_ToolResult (the (terminal_tool_result (rn_id s) ri (tc_id c) (tc_name c) outcome m (max_output s)))) calls\<rparr>\<rparr>) t) s"
proof (induction calls arbitrary: s)
  case (Cons call calls)
  obtain r where r: "terminal_tool_result (rn_id s) ri (tc_id call) (tc_name call) outcome m (max_output s) = Some r"
    using terminal_result_answers [OF assms] by blast
  show ?case
    by (simp add: r append_result_def, rule yields_mono [OF Cons.IH])
      (simp add: silent_def append_tool_result_def max_output_def r)
qed simp

subsection \<open>The reference loop\<close>

text \<open>What the host says in one turn; \<open>None\<close> where it panics or does not answer in time.\<close>

record ('m, 't, 'p, 'q) reply =
  re_ops :: "('m, 't, 'p, 'q) others list"
  re_on_time :: bool
  re_inputs :: "UserInput list caught"
  re_prompt_ops :: "('m, 't, 'p, 'q) others list"
  re_prompt :: "prompt_reply option"
  re_late_inputs :: "UserInput list caught"
  re_model_ops :: "('m, 't, 'p, 'q) others list"
  re_attempts :: "attempt_reply list option"
  re_tools :: "('m, 't, 'p, 'q) tool_reply list"

definition hear :: "LoopOptions \<Rightarrow> ('m, 't, 'p, 'q) others live_round \<Rightarrow> ('m, 't, 'p, 'q) reply" where
  "hear opts env = \<lparr>re_ops = lr_ops env,
     re_on_time = (case lo_deadline opts of Some d \<Rightarrow> lr_now env < d | None \<Rightarrow> True), re_inputs = lr_inputs env,
     re_prompt_ops = call_ops (lr_prompt env) @ lr_ops_stale env,
     re_prompt = call_value opts (lo_prompt_timeout opts) (lr_prompt env), re_late_inputs = lr_inputs_stale env,
     re_model_ops = model_ops (lr_model env), re_attempts = model_attempts opts (lr_model env),
     re_tools = map (hear_tool opts) (lr_tools env)\<rparr>"

text \<open>The state of a loop: its configuration, its counters and the history it has appended.\<close>

record ('m, 't, 'p, 'q) agent =
  ag_config :: "('m, 't, 'p, 'q) ExecutionConfig"
  ag_revision :: ConfigRevision
  ag_candidate :: "ConfigRevision option"
  ag_offers :: "('m, 't, 'p, 'q) ExecutionConfig offers"
  ag_index :: u32
  ag_rounds :: u64
  ag_requests :: u32
  ag_usage :: UsageAccumulator
  ag_history :: "HistoryItem list"

text \<open>What does not change: options, identity and the history the loop was given.\<close>

record setting =
  st_parse :: "rstr \<Rightarrow> json option"
  st_ser :: "json serializer"
  st_enc :: "json \<Rightarrow> rstr"
  st_options :: LoopOptions
  st_id :: LoopId
  st_base :: "HistoryItem list"

definition overhear ::
  "setting \<Rightarrow> ('m, 't, 'p, 'q) others list \<Rightarrow> ('m, 't, 'p, 'q) agent \<Rightarrow> ('m, 't, 'p, 'q) agent" where
  "overhear st ops g = g\<lparr>ag_offers := fold (offer (st_ser st) (lo_limits (st_options st))) ops (ag_offers g)\<rparr>"

definition append_items :: "HistoryItem list \<Rightarrow> ('m, 't, 'p, 'q) agent \<Rightarrow> ('m, 't, 'p, 'q) agent" where
  "append_items items g = g\<lparr>ag_history := ag_history g @ items\<rparr>"

text \<open>A boundary takes what is offered and what the user has typed.\<close>

definition agent_boundary ::
  "setting \<Rightarrow> UserInput list \<Rightarrow> ('m, 't, 'p, 'q) agent \<Rightarrow> bool \<times> ('m, 't, 'p, 'q) agent" where
  "agent_boundary st given g =
     (fst (ag_offers g) \<noteq> None \<or> given \<noteq> [],
      append_items (steering (st_id st) given)
        ((case fst (ag_offers g) of
            Some (r, cfg) \<Rightarrow> g\<lparr>ag_config := cfg, ag_candidate := Some r\<rparr>
          | None \<Rightarrow> g)\<lparr>ag_offers := (None, snd (ag_offers g))\<rparr>))"

definition agent_tools ::
  "setting \<Rightarrow> ToolCall list \<Rightarrow> ('m, 't, 'p, 'q) tool_reply list \<Rightarrow> ('m, 't, 'p, 'q) agent \<Rightarrow>
     ('m, 't, 'p, 'q) agent turn option" where
  "agent_tools st calls replies g =
     (let most = lo_max_tool_rounds (st_options st);
          mx = max_tool_output_bytes (lo_limits (st_options st)) in
      if most \<noteq> 0 \<and> unat most \<le> unat (ag_rounds g) then
        Some (Stop FP_MaxToolRounds (append_items (map (\<lambda>c. HI_ToolResult (the (terminal_tool_result (st_id st) (ag_index g)
          (tc_id c) (tc_name c) TR_Failed (lit ''tool round limit reached'') mx))) calls) g))
      else
        map_option (\<lambda>(results, ops). Again (overhear st ops (append_items (map HI_ToolResult results)
             (g\<lparr>ag_rounds := saturating_add (ag_rounds g) 1, ag_index := saturating_add (ag_index g) 1\<rparr>))))
          (batch_answers (st_enc st) (st_id st) (ag_index g) mx (ec_policy (ag_config g)) calls replies))"

definition spoken :: "setting \<Rightarrow> ModelResponse \<Rightarrow> Usage \<Rightarrow> ('m, 't, 'p, 'q) agent \<Rightarrow> HistoryItem" where
  "spoken st response round_usage g = HI_Assistant
     \<lparr>ah_loop_id = st_id st, ah_request_index = ag_index g, ah_model = md_model_ref (ec_descriptor (ag_config g)),
      ah_reasoning = ec_reasoning (ag_config g), ah_content = mr_parts response,
      ah_provider_replay = mr_provider_replay response, ah_finish_reason = mr_finish_reason response,
      ah_usage = round_usage\<rparr>"

definition agent_respond ::
  "setting \<Rightarrow> ModelResponse \<Rightarrow> ('m, 't, 'p, 'q) tool_reply list \<Rightarrow> ('m, 't, 'p, 'q) agent \<Rightarrow>
     ('m, 't, 'p, 'q) agent turn option" where
  "agent_respond st response replies g =
     (let round_usage = (case mr_usage response of Some u \<Rightarrow> u | None \<Rightarrow> Usage_default);
          added = UsageAccumulator_add (ag_usage g) round_usage;
          g' = g\<lparr>ag_usage := fst added\<rparr>;
          said = append_items [spoken st response round_usage g] g';
          calls = tool_calls (mr_parts response) in
      if \<not> is_ok (snd added) then Some (Stop FP_Internal g')
      else if calls \<noteq> [] then agent_tools st calls replies said
      else case no_tool_finish (mr_finish_reason response) of
        None \<Rightarrow> map_option (\<lambda>e. Stop (FP_InvalidModelResponse e) g') unsupported_finish
      | Some path \<Rightarrow> Some (Stop path said))"

definition answer_path :: "ModelError \<Rightarrow> FailPath" where
  "answer_path e = (if me_kind e \<in> {ME_InvalidProviderResponse, ME_IncompleteResponse, ME_UnexpectedToolCall}
     then FP_InvalidModelResponse e else FP_Model e)"

text \<open>The request counts whatever the model answers; an error ends the loop.\<close>

definition agent_request ::
  "setting \<Rightarrow> ModelRequest \<Rightarrow> ('m, 't, 'p, 'q) reply \<Rightarrow> ('m, 't, 'p, 'q) agent \<Rightarrow> ('m, 't, 'p, 'q) agent turn option" where
  "agent_request st request r g =
     (let revision = (case ag_candidate g of Some c \<Rightarrow> c | None \<Rightarrow> ag_revision g);
          g' = overhear st (re_model_ops r) (g\<lparr>ag_revision := revision, ag_candidate := None,
                 ag_requests := saturating_add (ag_requests g) 1\<rparr>) in
      case re_attempts r of
        None \<Rightarrow> None
      | Some attempts \<Rightarrow>
          (case model_answer (st_parse st) (st_ser st) (st_options st) (ag_config g) request attempts of
             None \<Rightarrow> None
           | Some (Err e) \<Rightarrow> Some (Stop (answer_path e) g')
           | Some (Ok response) \<Rightarrow> agent_respond st response (re_tools r) g'))"

text \<open>
  A turn up to its request: boundary, prompt, second boundary.  It ends there, or asks the model.
  \<open>None\<close> says nothing about the runner; the host then fails in a way the reference loop does not
  follow.
\<close>

definition agent_asks ::
  "setting \<Rightarrow> ('m, 't, 'p, 'q) reply \<Rightarrow> ('m, 't, 'p, 'q) agent \<Rightarrow>
     (('m, 't, 'p, 'q) agent turn + ModelRequest \<times> ('m, 't, 'p, 'q) agent) option" where
  "agent_asks st r g =
     (case (re_on_time r, re_inputs r, re_prompt r, re_late_inputs r) of
        (True, Completed given, Some prompt, Completed late) \<Rightarrow>
          (let g1 = snd (agent_boundary st given (overhear st (re_ops r) g)) in
           case prompt \<lparr>hv_base = st_base st, hv_appended = ag_history g1\<rparr> of
             Err _ \<Rightarrow> Some (Inl (Stop FP_Prompt g1))
           | Ok messages \<Rightarrow>
               if messages = [] then Some (Inl (Stop FP_Prompt g1))
               else
                 (let (taken, g2) = agent_boundary st late (overhear st (re_prompt_ops r) g1) in
                  if taken then Some (Inl (Again g2))
                  else case build_model_request messages (ag_config g2) of
                    Err _ \<Rightarrow> Some (Inl (Stop FP_Prompt g2))
                  | Ok request \<Rightarrow> Some (Inr (request, g2))))
      | _ \<Rightarrow> None)"

definition agent_turn ::
  "setting \<Rightarrow> ('m, 't, 'p, 'q) reply \<Rightarrow> ('m, 't, 'p, 'q) agent \<Rightarrow> ('m, 't, 'p, 'q) agent turn option" where
  "agent_turn st r g =
     (case agent_asks st r g of
        None \<Rightarrow> None
      | Some (Inl ended_turn) \<Rightarrow> Some ended_turn
      | Some (Inr (request, g')) \<Rightarrow> agent_request st request r g')"

fun agent_run ::
  "setting \<Rightarrow> ('m, 't, 'p, 'q) reply list \<Rightarrow> ('m, 't, 'p, 'q) agent \<Rightarrow> (FailPath \<times> ('m, 't, 'p, 'q) agent) option" where
  "agent_run st [] g = None"
| "agent_run st (r # rs) g =
     (case agent_turn st r g of
        None \<Rightarrow> None
      | Some (Stop path g') \<Rightarrow> Some (path, g')
      | Some (Again g') \<Rightarrow> agent_run st rs g')"

subsection \<open>Lemmas: the runner follows the reference loop\<close>

definition in_setting :: "setting \<Rightarrow> ('m, 't, 'p, 'q) runner \<Rightarrow> bool" where
  "in_setting st s \<longleftrightarrow> rn_options s = st_options st \<and> rn_id s = st_id st \<and> wh_base (rn_working s) = st_base st"

definition same_counts :: "('m, 't, 'p, 'q) agent \<Rightarrow> ('m, 't, 'p, 'q) runner \<Rightarrow> ('m, 't, 'p, 'q) LoopLocals \<Rightarrow> bool" where
  "same_counts g s l \<longleftrightarrow> wh_appended (rn_working s) = ag_history g \<and> ll_tool_rounds l = ag_rounds g
     \<and> ll_requests l = ag_requests g \<and> ll_usage l = ag_usage g \<and> applied_revision (rn_control s) = ag_revision g"

definition follows ::
  "setting \<Rightarrow> ('m, 't, 'p, 'q) agent \<Rightarrow> ('m, 't, 'p, 'q) runner \<Rightarrow> ('m, 't, 'p, 'q) LoopLocals \<Rightarrow> bool" where
  "follows st g s l \<longleftrightarrow> in_setting st s \<and> same_counts g s l \<and> serene (lo_limits (st_options st)) (rn_control s)
     \<and> offers (rn_control s) = ag_offers g \<and> tool_set_ok (ec_tools (ag_config g)) \<and> ll_config l = ag_config g
     \<and> ll_issued_revision l = ag_revision g \<and> ll_candidate_revision l = ag_candidate g \<and> ll_request_index l = ag_index g"

text \<open>At the end only the report counts, and that nobody has cancelled.\<close>

definition ended ::
  "setting \<Rightarrow> ('m, 't, 'p, 'q) agent \<Rightarrow> ('m, 't, 'p, 'q) runner \<Rightarrow> ('m, 't, 'p, 'q) LoopLocals \<Rightarrow> bool" where
  "ended st g s l \<longleftrightarrow> in_setting st s \<and> same_counts g s l \<and> lc_state (rn_control s) = STATE_NONE"

definition turn_follows ::
  "setting \<Rightarrow> ('m, 't, 'p, 'q) agent turn \<Rightarrow> ('m, 't, 'p, 'q) LoopLocals turn \<Rightarrow> ('m, 't, 'p, 'q) runner \<Rightarrow> bool" where
  "turn_follows st t r s \<longleftrightarrow>
     (case (t, r) of
        (Again g, Again l) \<Rightarrow> follows st g s l
      | (Stop path g, Stop path' l) \<Rightarrow> path' = path \<and> ended st g s l
      | _ \<Rightarrow> False)"

lemmas follows_defs = follows_def ended_def in_setting_def same_counts_def

lemma follows_ended: "follows st g s l \<Longrightarrow> ended st g s l"
  by (simp add: follows_defs serene_def)

lemma follows_options:
  "follows st g s l \<Longrightarrow> rn_options s = st_options st" "follows st g s l \<Longrightarrow> rn_id s = st_id st"
  "follows st g s l \<Longrightarrow> max_output s = max_tool_output_bytes (lo_limits (st_options st))"
  "follows st g s l \<Longrightarrow> serene (lo_limits (st_options st)) (rn_control s)"
  by (simp_all add: follows_defs max_output_def)

lemma core_applied: "core c = core c' \<Longrightarrow> applied_revision c = applied_revision c'"
  by (simp add: core_def applied_revision_def)

lemma follows_advances:
  assumes "follows st g s l" "advances (st_ser st) ops items s t"
  shows "follows st (overhear st ops (append_items items g)) t l"
  using assms core_applied [of "rn_control t" "rn_control s"]
  by (auto simp: follows_defs advances_def keeps_def adds_def overhear_def append_items_def)

lemma follows_publish:
  "follows st g s l \<Longrightarrow> follows st g (s\<lparr>rn_control := publish_state x (rn_control s), rn_sink := k\<rparr>) l"
  using core_applied [of "publish_state x (rn_control s)" "rn_control s"] by (simp add: follows_defs)

lemma overhear_simps [simp]:
  "overhear st [] g = g" "append_items [] g = g"
  "append_items xs (overhear st ops g) = overhear st ops (append_items xs g)"
  "overhear st ops2 (overhear st ops1 g) = overhear st (ops1 @ ops2) g"
  by (simp_all add: overhear_def append_items_def)

lemma take_config_serene:
  assumes "serene limits c"
  shows "serene limits (fst (take_config c))" "offers (fst (take_config c)) = (None, snd (offers c))"
    "snd (take_config c) = fst (offers c)" "core (fst (take_config c)) = core c"
    "snd (take_config c) = Some (r, cfg) \<Longrightarrow> tool_set_ok (ec_tools cfg)"
  using assms take_config_quiet [of c]
  by (auto simp: serene_def take_config_def offers_def core_def)

lemma take_boundary_follows:
  assumes "follows st g s l"
  shows "yields (take_boundary (Completed given) l)
     (\<lambda>r t. fst r = fst (agent_boundary st given g) \<and> follows st (snd (agent_boundary st given g)) t (snd r)) s"
proof -
  note taken = take_config_serene [OF follows_options(4) [OF assms]]
  have "applied_revision (fst (take_config (rn_control s))) = applied_revision (rn_control s)"
    by (rule core_applied [OF taken(4)])
  with assms taken show ?thesis
    by (auto simp: take_boundary_def Let_def append_inputs_def append_users agent_boundary_def steering_def append_items_def
        follows_defs split: option.splits)
qed

lemma undisturbed_calm: "list_all (undisturbed_tool opts) envs \<Longrightarrow> list_all (calm_tool opts) envs"
  by (auto simp: list_all_iff undisturbed_tool_def)

lemma tool_round_follows:
  assumes f: "follows st g s l" and env: "list_all (undisturbed_tool (st_options st)) (lr_tools env)"
    and known: "knows_calls (ag_config g) calls"
    and turn: "agent_tools st calls (map (hear_tool (st_options st)) (lr_tools env)) g = Some out"
  shows "yields (tool_round (st_ser st) (st_enc st) env (ag_config g) revision calls l) (turn_follows st out) s"
proof -
  note s = follows_options [OF f]
  let ?full = "lo_max_tool_rounds (st_options st) \<noteq> 0 \<and> unat (lo_max_tool_rounds (st_options st)) \<le> unat (ag_rounds g)"
  have l: "ll_tool_rounds l = ag_rounds g" "ll_request_index l = ag_index g" using f by (simp_all add: follows_defs)
  show ?thesis
  proof (cases ?full)
    case True
    then have out: "out = Stop FP_MaxToolRounds (append_items (map (\<lambda>c. HI_ToolResult (the (terminal_tool_result (st_id st) (ag_index g)
          (tc_id c) (tc_name c) TR_Failed (lit ''tool round limit reached'') (max_output s)))) calls) g)"
      using turn by (auto simp: agent_tools_def s(3))
    show ?thesis
      unfolding tool_round_def
      using True
      by (simp add: s(1) l, intro yields_mono [OF settle_calls_yields [OF static_messages(5)]])
        (use f s l in \<open>auto simp: out turn_follows_def follows_defs silent_def append_items_def serene_def\<close>)
  next
    case False
    then obtain results ops where batch: "batch_answers (st_enc st) (rn_id s) (ag_index g) (max_output s) (ec_policy (ag_config g)) calls
        (map (hear_tool (rn_options s)) (lr_tools env)) = Some (results, ops)"
      and out: "out = Again (overhear st ops (append_items (map HI_ToolResult results)
             (g\<lparr>ag_rounds := saturating_add (ag_rounds g) 1, ag_index := saturating_add (ag_index g) 1\<rparr>)))"
      using turn by (auto simp: agent_tools_def s split: if_splits)
    define x where "x = round_state (rn_id s) LS_RunningTools (ag_index g) revision (Some (md_model_ref (ec_descriptor (ag_config g))))"
    define u where "u = s\<lparr>rn_control := publish_state x (rn_control s), rn_sink := try_emit (EV_StateChanged x) (rn_sink s)\<rparr>"
    have u: "follows st g u l" unfolding u_def by (rule follows_publish [OF f])
    note su = follows_options [OF u]
    have "yields (run_tool_batch (st_ser st) (st_enc st) (ag_index g) (ag_config g) calls (lr_tools env))
        (\<lambda>r t. r = None \<and> advances (st_ser st) ops (map HI_ToolResult results) u t) u"
      by (rule run_tool_batch_yields) (use batch env known s su in simp_all)
    then have "yields (run_tool_batch (st_ser st) (st_enc st) (ag_index g) (ag_config g) calls (lr_tools env))
        (\<lambda>r t. r = None \<and> follows st (overhear st ops (append_items (map HI_ToolResult results) g)) t l) u"
      by (rule yields_mono) (auto intro: follows_advances [OF u])
    then show ?thesis
      unfolding tool_round_def
      using False
      by (auto simp: s(1) l Let_def x_def [symmetric] u_def [symmetric] turn_follows_def out elim!: yields_mono)
        (auto simp: follows_defs overhear_def append_items_def)
  qed
qed

lemma handle_response_follows:
  assumes f: "follows st g s l" and env: "list_all (undisturbed_tool (st_options st)) (lr_tools env)"
    and known: "knows_calls (ag_config g) (tool_calls (mr_parts response))"
    and turn: "agent_respond st response (map (hear_tool (st_options st)) (lr_tools env)) g = Some out"
  shows "yields (handle_response (st_ser st) (st_enc st) env (ag_config g) revision response l) (turn_follows st out) s"
proof -
  define used where "used = (case mr_usage response of Some u \<Rightarrow> u | None \<Rightarrow> Usage_default)"
  define added where "added = UsageAccumulator_add (ag_usage g) used"
  define g' where "g' = g\<lparr>ag_usage := fst added\<rparr>"
  define l' where "l' = l\<lparr>ll_usage := fst added\<rparr>"
  define said where "said = append_items [spoken st response used g] g'"
  define t where "t = snd (append_response (ag_index g) (ag_config g) response used s)"
  have lu: "ll_usage l = ag_usage g" "ll_request_index l = ag_index g" using f by (simp_all add: follows_defs)
  have s: "follows st g' s l'" using f by (simp add: follows_defs g'_def l'_def)
  have t: "follows st said t l'"
    using f by (simp add: follows_defs said_def g'_def l'_def t_def append_items_def append_response_def run_defs
        append_assistant_def spoken_def)
  have append: "yields (append_response (ag_index g) (ag_config g) response used) Q s = Q () t" for Q
    by (simp add: append_response_def t_def run_defs yields_def)
  have unfold: "handle_response (st_ser st) (st_enc st) env (ag_config g) revision response l =
     (if \<not> is_ok (snd added) then return_run (Stop FP_Internal l')
      else if tool_calls (mr_parts response) = [] then
        (case no_tool_finish (mr_finish_reason response) of
           None \<Rightarrow> bind_run (expect_run unsupported_finish) (\<lambda>e. return_run (Stop (FP_InvalidModelResponse e) l'))
         | Some path \<Rightarrow>
             then_run (append_response (ag_index g) (ag_config g) response used)
             (then_run (if path = FP_Completed then on_control (\<lambda>c. fst (begin_final c)) else return_run ())
               (return_run (Stop path l'))))
      else
        then_run (append_response (ag_index g) (ag_config g) response used)
          (tool_round (st_ser st) (st_enc st) env (ag_config g) revision (tool_calls (mr_parts response)) l'))"
    unfolding handle_response_def Let_def used_def added_def l'_def lu by (rule refl)
  have ref: "(if \<not> is_ok (snd added) then Some (Stop FP_Internal g')
      else if tool_calls (mr_parts response) \<noteq> []
      then agent_tools st (tool_calls (mr_parts response)) (map (hear_tool (st_options st)) (lr_tools env)) said
      else case no_tool_finish (mr_finish_reason response) of
        None \<Rightarrow> map_option (\<lambda>e. Stop (FP_InvalidModelResponse e) g') unsupported_finish
      | Some path \<Rightarrow> Some (Stop path said)) = Some out"
    using turn unfolding agent_respond_def Let_def used_def added_def g'_def said_def .
  have final: "ended st said (t\<lparr>rn_control := fst (begin_final (rn_control t))\<rparr>) l'"
    using follows_ended [OF t]
    by (auto simp: follows_defs begin_final_def close_accepting_def applied_revision_def)
  show ?thesis
  proof (cases "is_ok (snd added) \<and> tool_calls (mr_parts response) \<noteq> []")
    case True
    have config: "ag_config said = ag_config g" by (simp add: said_def g'_def append_items_def)
    have "yields (tool_round (st_ser st) (st_enc st) env (ag_config said) revision (tool_calls (mr_parts response)) l') (turn_follows st out) t"
      by (rule tool_round_follows [OF t env]) (use known ref True in \<open>simp_all add: config\<close>)
    with True show ?thesis by (simp add: unfold append config)
  next
    case False
    obtain e where e: "unsupported_finish = Some e" using unsupported_finish_Some by blast
    from False ref follows_ended [OF s] follows_ended [OF t] final show ?thesis
      by (auto simp: unfold append e turn_follows_def split: option.splits if_splits)
  qed
qed

lemma commit_follows:
  assumes "follows st g s l" "revision = (case ag_candidate g of Some c \<Rightarrow> c | None \<Rightarrow> ag_revision g)"
  shows "follows st (g\<lparr>ag_revision := revision, ag_candidate := None, ag_requests := saturating_add (ag_requests g) 1\<rparr>)
     (s\<lparr>rn_control := publish_state x (commit_revision revision (rn_control s)), rn_sink := k\<rparr>)
     (l\<lparr>ll_issued_revision := revision, ll_candidate_revision := None,
        ll_requests := saturating_add (ll_requests l) 1, ll_last_issued_request_index := Some (ll_request_index l)\<rparr>)"
  using assms
  by (auto simp: follows_defs commit_revision_def publish_state_def serene_def quiet_def live_def offers_def applied_revision_def)

lemma answer_known:
  assumes "options_ok options" "model_answer parse ser options config request attempts = Some (Ok resp)"
    and "tool_set_ok (ec_tools config)" "build_model_request messages config = Ok request"
  shows "knows_calls config (tool_calls (mr_parts resp))"
proof -
  have "mq_tools request = ts_specs (ec_tools config)"
    using assms(4) by (auto simp: build_model_request_def ModelRequest_with_validated_tools_def and_then_eq_Ok split: if_splits)
  moreover have "model_outcome parse ser (mq_tools request) (lo_limits options)
      (drv_retry_policy (driver_of options config)) 0 attempts = Some (Ok resp)"
    using assms(2) by (auto simp: model_answer_def Let_def split: result.splits)
  ultimately obtain evs a prog where "push_all parse ser (Assembler_new (ts_specs (ec_tools config)) (lo_limits options)) evs
      = Some (a, Ok prog)" "finish a = Some (Ok resp)"
    using model_outcome_assembled by metis
  from assembled_facts(3) [OF _ this] show ?thesis
    using assms(1) by (intro knows_response_calls [OF assms(3)]) (auto simp: list_all_iff options_ok_def)
qed

lemma issue_request_follows:
  assumes f: "follows st g s l" and opts: "options_ok (st_options st)"
    and env: "list_all mild (model_ops (lr_model env))" "list_all (undisturbed_tool (st_options st)) (lr_tools env)"
    and request: "build_model_request messages (ag_config g) = Ok request"
    and turn: "agent_request st request (hear (st_options st) env) g = Some out"
  shows "yields (issue_request (st_parse st) (st_ser st) (st_enc st) env (ag_config g) request l) (turn_follows st out) s"
proof -
  define revision where "revision = (case ag_candidate g of Some c \<Rightarrow> c | None \<Rightarrow> ag_revision g)"
  define model where "model = md_model_ref (ec_descriptor (ag_config g))"
  define x where "x = round_state (rn_id s) LS_RunningModel (ag_index g) revision (Some model)"
  define u where "u = s\<lparr>rn_control := publish_state x (commit_revision revision (rn_control s)),
      rn_sink := try_emit (EV_StateChanged x) (try_emit (EV_RequestStarted (rn_id s) (ag_index g) revision model
        (ec_reasoning (ag_config g))) (rn_sink s))\<rparr>"
  define l' where "l' = l\<lparr>ll_issued_revision := revision, ll_candidate_revision := None,
        ll_requests := saturating_add (ll_requests l) 1, ll_last_issued_request_index := Some (ll_request_index l)\<rparr>"
  define g' where "g' = g\<lparr>ag_revision := revision, ag_candidate := None, ag_requests := saturating_add (ag_requests g) 1\<rparr>"
  have l: "ll_request_index l = ag_index g" "ll_candidate_revision l = ag_candidate g" "ll_issued_revision l = ag_revision g"
    using f by (simp_all add: follows_defs)
  have u: "follows st g' u l'"
    unfolding g'_def u_def l'_def by (rule commit_follows [OF f revision_def])
  note su = follows_options [OF u]
  obtain attempts answer where said: "model_attempts (st_options st) (lr_model env) = Some attempts"
    "model_answer (st_parse st) (st_ser st) (st_options st) (ag_config g) request attempts = Some answer"
    "(case answer of Err e \<Rightarrow> Some (Stop (answer_path e) (overhear st (model_ops (lr_model env)) g'))
      | Ok response \<Rightarrow> agent_respond st response (map (hear_tool (st_options st)) (lr_tools env))
          (overhear st (model_ops (lr_model env)) g')) = Some out"
  proof -
    have heard: "re_model_ops (hear (st_options st) env) = model_ops (lr_model env)"
      "re_attempts (hear (st_options st) env) = model_attempts (st_options st) (lr_model env)"
      "re_tools (hear (st_options st) env) = map (hear_tool (st_options st)) (lr_tools env)" by (simp_all add: hear_def)
    from turn [unfolded agent_request_def Let_def heard, folded revision_def, folded g'_def] that show thesis
      by (auto split: option.splits result.splits)
  qed
  obtain d where d: "turn_deadline (lm_now_turn (lr_model env)) (lo_deadline (st_options st)) = Some d"
    using said(1) by (auto simp: model_attempts_def split: option.splits)
  have set: "tool_set_ok (ec_tools (ag_config g))" using f by (simp add: follows_defs)
  have config: "ag_config (overhear st (model_ops (lr_model env)) g') = ag_config g" by (simp add: g'_def overhear_def)
  have "yields (run_model (st_parse st) (st_ser st) (ag_index g) (ag_config g) request d (lr_model env))
     (\<lambda>r t. r = map_err ModelDriverFailure_ordinary answer \<and> advances (st_ser st) (model_ops (lr_model env)) [] u t) u"
    by (rule run_model_yields) (use su env opts said d in simp_all)
  then have run: "yields (run_model (st_parse st) (st_ser st) (ag_index g) (ag_config g) request d (lr_model env))
     (\<lambda>r t. r = map_err ModelDriverFailure_ordinary answer \<and> follows st (overhear st (model_ops (lr_model env)) g') t l') u"
    by (rule yields_mono) (use follows_advances [OF u, of "model_ops (lr_model env)" "[]"] in simp)
  have handled: "yields (case map_err ModelDriverFailure_ordinary answer of
       Err failed \<Rightarrow>
         bind_run (gets_run (\<lambda>s. lc_cancel (rn_control s))) (\<lambda>cancelled.
         return_run (Stop (map_model_failure cancelled failed) l'))
     | Ok response \<Rightarrow> handle_response (st_ser st) (st_enc st) env (ag_config g) revision response l') (turn_follows st out) t"
    if t: "follows st (overhear st (model_ops (lr_model env)) g') t l'" for t
  proof (cases answer)
    case (Ok response)
    have known: "knows_calls (ag_config g) (tool_calls (mr_parts response))"
      by (rule answer_known [OF opts said(2) [unfolded Ok] set request])
    then show ?thesis
      using handle_response_follows [OF t env(2), of response out revision] said(3) by (simp add: config Ok)
  next
    case (Err e)
    moreover have "\<not> lc_cancel (rn_control t)" using serene_not_cancelled [OF follows_options(4) [OF t]] .
    moreover have "map_model_failure False (ModelDriverFailure_ordinary e) = answer_path e"
      by (simp add: map_model_failure_def ModelDriverFailure_ordinary_def answer_path_def)
    ultimately show ?thesis using said(3) follows_ended [OF t] by (auto simp: turn_follows_def)
  qed
  have opts_s: "rn_options s = st_options st" by (rule follows_options(1) [OF f])
  show ?thesis
    by (simp add: issue_request_def Let_def l revision_def [symmetric] model_def [symmetric] x_def [symmetric]
        l'_def [unfolded l, symmetric] u_def [symmetric] opts_s su(1) d cong: option.case_cong)
      (rule yields_mono [OF run], use handled in auto)
qed

lemma delivered_ready_for: "delivered (map (ready_for view) ps) = map_option (\<lambda>f. f view) (delivered ps)"
  by (induction ps) (simp_all add: ready_for_def split: option.split caught.split)

lemma call_for_simps [simp]:
  "call_ops (call_for view call) = call_ops call" "lv_now_turn (call_for view call) = lv_now_turn call"
  "call_value opts timeout (call_for view call) = map_option (\<lambda>f. f view) (call_value opts timeout call)"
proof -
  show "call_ops (call_for view call) = call_ops call"
    by (simp add: call_for_def call_ops_def poll_ops_def ready_for_def comp_def)
  show "lv_now_turn (call_for view call) = lv_now_turn call" by (simp add: call_for_def)
  show "call_value opts timeout (call_for view call) = map_option (\<lambda>f. f view) (call_value opts timeout call)"
    by (simp add: call_value_def call_for_def delivered_ready_for split: option.split)
qed

lemma prepare_prompt_follows:
  assumes f: "follows st g s l" and "list_all mild (call_ops call)"
    and "turn_deadline (lv_now_turn call) (lo_deadline (st_options st)) = Some d"
    and "call_value (st_options st) (lo_prompt_timeout (st_options st)) call = Some prompt"
  shows "yields (prepare_prompt (st_ser st) d call)
     (\<lambda>r t. r = prompt_prep (Returned (prompt \<lparr>hv_base = st_base st, hv_appended = ag_history g\<rparr>))
        \<and> follows st (overhear st (call_ops call) g) t l) s"
proof -
  note s = follows_options [OF f]
  have view: "WorkingHistory_view (rn_working s) = \<lparr>hv_base = st_base st, hv_appended = ag_history g\<rparr>"
    using f by (simp add: follows_defs WorkingHistory_view_def)
  show ?thesis
    by (simp add: prepare_prompt_def s(1) view, rule yields_mono [OF live_port_yields])
      (use s assms(2-4) follows_advances [OF f, of "call_ops call" "[]"] in auto)
qed

text \<open>Nobody cancels during the turn.\<close>

definition undisturbed :: "LoopOptions \<Rightarrow> ('m, 't, 'p, 'q) others live_round \<Rightarrow> bool" where
  "undisturbed opts env \<longleftrightarrow> list_all mild (lr_ops env @ call_ops (lr_prompt env) @ lr_ops_stale env @ model_ops (lr_model env))
     \<and> list_all (undisturbed_tool opts) (lr_tools env)"

lemma interfere_follows:
  assumes "follows st g s l" "list_all mild ops"
  shows "follows st (overhear st ops g) (s\<lparr>rn_control := fold (act (st_ser st)) ops (rn_control s)\<rparr>) l"
  using follows_advances [OF assms(1) advances_acts [of s ops "st_ser st"]] assms
  by (simp add: follows_options [OF assms(1)])

lemma boundary_config: "\<not> fst (agent_boundary st given g) \<Longrightarrow> ag_config (snd (agent_boundary st given g)) = ag_config g"
  by (cases "fst (ag_offers g)") (auto simp: agent_boundary_def append_items_def)

text \<open>The request is one the runner builds for this configuration.\<close>

definition build_model_request_ok :: "ModelRequest \<Rightarrow> ('m, 't, 'p, 'q) ExecutionConfig \<Rightarrow> bool" where
  "build_model_request_ok request config \<longleftrightarrow> (\<exists>messages. build_model_request messages config = Ok request)"

text \<open>
  A turn up to the request.  The request, the configuration it is built for and the locals at that
  moment, or the turn if it ends before.
\<close>

type_synonym ('m, 't, 'p, 'q) asked_model =
  "('m, 't, 'p, 'q) LoopLocals turn
   + ('m, 't, 'p, 'q) ExecutionConfig \<times> ModelRequest \<times> ('m, 't, 'p, 'q) LoopLocals"

definition turn_request ::
  "json serializer \<Rightarrow> ('m, 't, 'p, 'q) others live_round \<Rightarrow> ('m, 't, 'p, 'q) LoopLocals \<Rightarrow>
     ('m, 't, 'p, 'q, ('m, 't, 'p, 'q) asked_model) step" where
  "turn_request ser env l =
     then_run (interfere ser (lr_ops env))
     (bind_run (gets_run (\<lambda>s. (rn_id s, lc_cancel (rn_control s), lo_deadline (rn_options s)))) (\<lambda>(ident, cancelled, deadline).
      if cancelled then return_run (Inl (Stop FP_Cancelled l))
      else if (case deadline of Some d \<Rightarrow> d \<le> lr_now env | None \<Rightarrow> False) then return_run (Inl (Stop FP_Deadline l))
      else
        bind_run (take_boundary (lr_inputs env) l) (\<lambda>(_, l1).
        then_run (publish (LoopState_new ident LS_Starting (ll_request_index l1) (ll_issued_revision l1)))
        (bind_run (expect_run (turn_deadline (lv_now_turn (lr_prompt env)) deadline)) (\<lambda>prompt_deadline.
         bind_run (prepare_prompt ser prompt_deadline (lr_prompt env)) (\<lambda>prep.
         case prep of
           PP_End path \<Rightarrow> return_run (Inl (Stop path l1))
         | PP_Ready messages \<Rightarrow>
             then_run (interfere ser (lr_ops_stale env))
             (bind_run (take_boundary (lr_inputs_stale env) l1) (\<lambda>(taken, l2).
              if taken then return_run (Inl (Again l2))
              else case build_model_request messages (ll_config l1) of
                Err _ \<Rightarrow> return_run (Inl (Stop FP_Prompt l2))
              | Ok request \<Rightarrow> return_run (Inr (ll_config l1, request, l2))))))))))"

text \<open>A turn of the runner is this, and then what \<open>issue_request\<close> does with the request.\<close>

lemma loop_turn_split:
  "loop_turn parse ser enc env l =
     bind_run (turn_request ser env l) (\<lambda>asked.
       case asked of
         Inl ended_turn \<Rightarrow> return_run ended_turn
       | Inr (snapshot, request, l') \<Rightarrow> issue_request parse ser enc env snapshot request l')"
  by (rule ext)
    (simp add: loop_turn_def turn_request_def bind_run_def then_run_def return_run_def gets_run_def
      split: prod.split async.split PromptPrep.split result.split)

definition turn_asked ::
  "setting \<Rightarrow> ('m, 't, 'p, 'q) agent turn + ModelRequest \<times> ('m, 't, 'p, 'q) agent \<Rightarrow>
     ('m, 't, 'p, 'q) asked_model \<Rightarrow> ('m, 't, 'p, 'q) runner \<Rightarrow> bool" where
  "turn_asked st x asked s \<longleftrightarrow>
     (case (x, asked) of
        (Inl out, Inl ended_turn) \<Rightarrow> turn_follows st out ended_turn s
      | (Inr (request, g), Inr (snapshot, request', l)) \<Rightarrow>
          snapshot = ag_config g \<and> request' = request \<and> build_model_request_ok request (ag_config g) \<and> follows st g s l
      | _ \<Rightarrow> False)"

lemma turn_asked_simps [simp]:
  "turn_asked st (Inl out) (Inl ended_turn) s = turn_follows st out ended_turn s"
  "turn_asked st (Inr (request, g)) (Inr (snapshot, request', l)) s
     \<longleftrightarrow> snapshot = ag_config g \<and> request' = request \<and> build_model_request_ok request (ag_config g) \<and> follows st g s l"
  by (simp_all add: turn_asked_def)

text \<open>What a turn does after it has asked, or instead of asking, leads to \<open>Q\<close>.\<close>

definition asks_lead ::
  "setting \<Rightarrow> ('m, 't, 'p, 'q) others live_round \<Rightarrow>
     (('m, 't, 'p, 'q) LoopLocals turn \<Rightarrow> ('m, 't, 'p, 'q) runner \<Rightarrow> bool) \<Rightarrow>
     ('m, 't, 'p, 'q) agent turn + ModelRequest \<times> ('m, 't, 'p, 'q) agent \<Rightarrow> bool" where
  "asks_lead st env Q x \<longleftrightarrow>
     (case x of
        Inl out \<Rightarrow> \<forall>r t. turn_follows st out r t \<longrightarrow> Q r t
      | Inr (request, g) \<Rightarrow> build_model_request_ok request (ag_config g) \<longrightarrow> (\<forall>t l. follows st g t l \<longrightarrow>
          yields (issue_request (st_parse st) (st_ser st) (st_enc st) env (ag_config g) request l) Q t))"

lemma request_phase_follows:
  assumes f: "follows st g1 s l1"
    and late: "lr_inputs_stale env = Completed late" "agent_boundary st late g1 = (taken, g2)"
    and x: "x = (if taken then Inl (Again g2)
       else case build_model_request messages (ag_config g2) of
         Err _ \<Rightarrow> Inl (Stop FP_Prompt g2)
       | Ok request \<Rightarrow> Inr (request, g2))"
  shows "yields (bind_run (take_boundary (lr_inputs_stale env) l1) (\<lambda>(taken, l2).
              if taken then return_run (Inl (Again l2))
              else case build_model_request messages (ll_config l1) of
                Err _ \<Rightarrow> return_run (Inl (Stop FP_Prompt l2))
              | Ok request \<Rightarrow> return_run (Inr (ll_config l1, request, l2)))) (turn_asked st x) s"
  unfolding late(1)
proof (rule yields_bindI [OF take_boundary_follows [OF f]], goal_cases)
  case (1 r t)
  obtain y l2 where r: "r = (y, l2)" by fastforce
  with 1 late(2) have t: "y = taken" "follows st g2 t l2" by simp_all
  have config: "ag_config g2 = ll_config l1" if "\<not> taken"
    using boundary_config [of st late g1] that late(2) f by (simp add: follows_defs)
  show ?case
  proof (cases taken)
    case False
    with t config follows_ended [OF t(2)] show ?thesis
      by (cases "build_model_request messages (ag_config g2)")
        (auto simp: r x turn_follows_def build_model_request_ok_def split: result.splits)
  qed (use t in \<open>auto simp: r x turn_follows_def\<close>)
qed

lemma turn_request_follows:
  assumes f: "follows st g s l"
    and env: "list_all mild (lr_ops env)" "list_all mild (call_ops (lr_prompt env))" "list_all mild (lr_ops_stale env)"
    and asks: "agent_asks st (hear (st_options st) env) g = Some x"
  shows "yields (turn_request (st_ser st) env l) (turn_asked st x) s"
proof -
  let ?r = "hear (st_options st) env"
  define t where "t = s\<lparr>rn_control := fold (act (st_ser st)) (lr_ops env) (rn_control s)\<rparr>"
  have t: "follows st (overhear st (lr_ops env) g) t l" unfolding t_def by (rule interfere_follows [OF f env(1)])
  note st = follows_options [OF t]
  obtain given prompt late where heard: "lr_inputs env = Completed given" "lr_inputs_stale env = Completed late"
    "call_value (st_options st) (lo_prompt_timeout (st_options st)) (lr_prompt env) = Some prompt"
    "\<not> (case lo_deadline (st_options st) of Some d \<Rightarrow> d \<le> lr_now env | None \<Rightarrow> False)"
    using asks by (auto simp: agent_asks_def hear_def split: option.splits caught.splits bool.splits)
  define g1 where "g1 = snd (agent_boundary st given (overhear st (lr_ops env) g))"
  define view where "view = \<lparr>hv_base = st_base st, hv_appended = ag_history g1\<rparr>"
  define g2 where "g2 = overhear st (call_ops (lr_prompt env) @ lr_ops_stale env) g1"
  obtain d where d: "turn_deadline (lv_now_turn (lr_prompt env)) (lo_deadline (st_options st)) = Some d"
    using call_value_deadline [OF heard(3)] by blast
  have sel: "re_on_time ?r = True" "re_inputs ?r = Completed given" "re_prompt ?r = Some prompt" "re_late_inputs ?r = Completed late"
    "re_ops ?r = lr_ops env" "re_prompt_ops ?r = call_ops (lr_prompt env) @ lr_ops_stale env"
    using heard by (auto simp: hear_def split: option.splits)
  have ref: "(case prompt view of
       Err _ \<Rightarrow> Some (Inl (Stop FP_Prompt g1))
     | Ok messages \<Rightarrow>
         if messages = [] then Some (Inl (Stop FP_Prompt g1))
         else (let (taken, g3) = agent_boundary st late g2 in
           if taken then Some (Inl (Again g3))
           else case build_model_request messages (ag_config g3) of
             Err _ \<Rightarrow> Some (Inl (Stop FP_Prompt g3))
           | Ok request \<Rightarrow> Some (Inr (request, g3)))) = Some x"
    using asks unfolding agent_asks_def sel g1_def view_def g2_def Let_def by simp
  have prompt_phase: "yields (prepare_prompt (st_ser st) d (lr_prompt env))
      (\<lambda>r u. r = prompt_prep (Returned (prompt view)) \<and> follows st (overhear st (call_ops (lr_prompt env)) g1) u l1) u"
    if "follows st g1 u l1" for u l1
    unfolding view_def by (rule prepare_prompt_follows [OF that env(2) d heard(3)])
  have prompt_failed: "turn_asked st x (Inl (Stop FP_Prompt l1)) u"
    if "x = Inl (Stop FP_Prompt g1)" "follows st (overhear st ops g1) u l1" for ops u l1
  proof -
    have "ended st g1 u l1" using follows_ended [OF that(2)] by (simp add: follows_defs overhear_def)
    with that(1) show ?thesis by (simp add: turn_follows_def)
  qed
  have rest: "yields (case prompt_prep (Returned (prompt view)) of
           PP_End path \<Rightarrow> return_run (Inl (Stop path l1))
         | PP_Ready messages \<Rightarrow>
             then_run (interfere (st_ser st) (lr_ops_stale env))
             (bind_run (take_boundary (lr_inputs_stale env) l1) (\<lambda>(taken, l2).
              if taken then return_run (Inl (Again l2))
              else case build_model_request messages (ll_config l1) of
                Err _ \<Rightarrow> return_run (Inl (Stop FP_Prompt l2))
              | Ok request \<Rightarrow> return_run (Inr (ll_config l1, request, l2))))) (turn_asked st x) u"
    if u: "follows st (overhear st (call_ops (lr_prompt env)) g1) u l1" for u l1
  proof (cases "prompt view")
    case (Err e)
    with ref prompt_failed [OF _ u] show ?thesis by (simp add: prompt_prep_def)
  next
    case (Ok messages)
    show ?thesis
    proof (cases "messages = []")
      case True
      with ref Ok prompt_failed [OF _ u] show ?thesis by (simp add: prompt_prep_def)
    next
      case False
      define v where "v = u\<lparr>rn_control := fold (act (st_ser st)) (lr_ops_stale env) (rn_control u)\<rparr>"
      have v: "follows st g2 v l1" using interfere_follows [OF u env(3)] by (simp add: v_def g2_def)
      obtain taken g3 where b: "agent_boundary st late g2 = (taken, g3)" by fastforce
      have "x = (if taken then Inl (Again g3)
          else case build_model_request messages (ag_config g3) of
            Err _ \<Rightarrow> Inl (Stop FP_Prompt g3)
          | Ok request \<Rightarrow> Inr (request, g3))"
        using ref Ok False b by (auto split: if_splits result.splits)
      from request_phase_follows [OF v heard(2) b this] False show ?thesis
        by (simp add: prompt_prep_def Ok v_def del: yields_simps(4))
    qed
  qed
  have first: "yields (take_boundary (lr_inputs env) l) (\<lambda>r u. follows st g1 u (snd r)) t"
    unfolding heard(1) g1_def by (rule yields_mono [OF take_boundary_follows [OF t]]) simp
  show ?thesis
    unfolding turn_request_def yields_simps(5) yields_control_steps(6) t_def [symmetric]
    using serene_not_cancelled [OF st(4)] heard(4)
    by (simp add: st(1,2), intro yields_mono [OF first])
      (auto simp: d intro!: yields_mono [OF prompt_phase] rest follows_publish)
qed

lemma loop_turn_leads:
  assumes f: "follows st g s l"
    and env: "list_all mild (lr_ops env)" "list_all mild (call_ops (lr_prompt env))" "list_all mild (lr_ops_stale env)"
    and asks: "agent_asks st (hear (st_options st) env) g = Some x" "asks_lead st env Q x"
  shows "yields (loop_turn (st_parse st) (st_ser st) (st_enc st) env l) Q s"
  unfolding loop_turn_split
  by (rule yields_bindI [OF turn_request_follows [OF f env asks(1)]])
    (use asks(2) in \<open>auto simp: turn_asked_def asks_lead_def split: sum.splits prod.splits\<close>)

lemma loop_turn_follows:
  assumes f: "follows st g s l" and opts: "options_ok (st_options st)" and env: "undisturbed (st_options st) env"
    and turn: "agent_turn st (hear (st_options st) env) g = Some out"
  shows "yields (loop_turn (st_parse st) (st_ser st) (st_enc st) env l) (turn_follows st out) s"
proof -
  obtain x where x: "agent_asks st (hear (st_options st) env) g = Some x" using turn by (auto simp: agent_turn_def split: option.splits)
  have ops: "list_all mild (lr_ops env)" "list_all mild (call_ops (lr_prompt env))" "list_all mild (lr_ops_stale env)"
    "list_all mild (model_ops (lr_model env))" "list_all (undisturbed_tool (st_options st)) (lr_tools env)"
    using env by (simp_all add: undisturbed_def)
  have "asks_lead st env (turn_follows st out) x"
  proof (cases x)
    case (Inr p)
    then show ?thesis
      using turn x
      by (auto simp: asks_lead_def agent_turn_def build_model_request_ok_def split: prod.splits
          intro!: issue_request_follows [OF _ opts ops(4,5)])
  qed (use turn x in \<open>simp add: asks_lead_def agent_turn_def\<close>)
  then show ?thesis by (rule loop_turn_leads [OF f ops(1-3) x])
qed

lemma turn_follows_settled: "turn_follows st t r s \<Longrightarrow> in_setting st s"
  by (auto simp: turn_follows_def follows_def ended_def split: turn.splits)

lemma run_turns_follows:
  assumes "follows st g s l" "options_ok (st_options st)" "list_all (undisturbed (st_options st)) envs"
    and "agent_run st (map (hear (st_options st)) envs) g = Some (path, g')"
  shows "yields (run_turns (st_parse st) (st_ser st) (st_enc st) envs l) (\<lambda>r t. fst r = path \<and> ended st g' t (snd r)) s"
  using assms
proof (induction envs arbitrary: g s l)
  case (Cons env envs)
  then obtain out where out: "agent_turn st (hear (st_options st) env) g = Some out" by (auto split: option.splits)
  have turn: "yields (loop_turn (st_parse st) (st_ser st) (st_enc st) env l) (turn_follows st out) s"
    by (rule loop_turn_follows) (use Cons.prems out in simp_all)
  have rest: "yields (case r of Stop path l' \<Rightarrow> return_run (path, l') | Again l' \<Rightarrow> run_turns (st_parse st) (st_ser st) (st_enc st) envs l')
      (\<lambda>r t. fst r = path \<and> ended st g' t (snd r)) t" if "turn_follows st out r t" for r t
    using that Cons.IH Cons.prems(2-4) out by (auto simp: turn_follows_def split: turn.splits)
  show ?case by (simp, rule yields_mono [OF turn]) (rule rest)
qed simp

subsection \<open>The whole run\<close>

definition agent_start :: "LoopId \<Rightarrow> ('m, 't, 'p, 'q) LoopRequest \<Rightarrow> ('m, 't, 'p, 'q) agent" where
  "agent_start ident request =
     \<lparr>ag_config = lq_config request, ag_revision = ConfigRevision_INITIAL, ag_candidate = None,
      ag_offers = (None, ConfigRevision_next ConfigRevision_INITIAL), ag_index = 0, ag_rounds = 0, ag_requests = 0,
      ag_usage = UsageAccumulator_default, ag_history = [first_input ident request]\<rparr>"

definition setting_of ::
  "(rstr \<Rightarrow> json option) \<Rightarrow> json serializer \<Rightarrow> (json \<Rightarrow> rstr) \<Rightarrow> LoopOptions \<Rightarrow> LoopId \<Rightarrow>
     ('m, 't, 'p, 'q) LoopRequest \<Rightarrow> setting" where
  "setting_of parse ser enc options ident request =
     \<lparr>st_parse = parse, st_ser = ser, st_enc = enc, st_options = options, st_id = ident, st_base = lq_history request\<rparr>"

definition agent_report :: "LoopId \<Rightarrow> LoopOutcome \<Rightarrow> ('m, 't, 'p, 'q) agent \<Rightarrow> LoopReport" where
  "agent_report ident outcome g =
     \<lparr>rep_loop_id = ident, rep_outcome = outcome, rep_appended = ag_history g,
      rep_usage = UsageAccumulator_finish (ag_usage g), rep_requests = ag_requests g,
      rep_tool_rounds = ag_rounds g, rep_final_config_revision = ag_revision g\<rparr>"

definition reference_loop ::
  "(rstr \<Rightarrow> json option) \<Rightarrow> json serializer \<Rightarrow> (json \<Rightarrow> rstr) \<Rightarrow> LoopOptions \<Rightarrow> LoopId \<Rightarrow>
     ('m, 't, 'p, 'q) LoopRequest \<Rightarrow> ('m, 't, 'p, 'q) reply list \<Rightarrow> (FailPath \<times> ('m, 't, 'p, 'q) agent) option" where
  "reference_loop parse ser enc options ident request replies =
     agent_run (setting_of parse ser enc options ident request) replies (agent_start ident request)"

text \<open>A script in which nobody cancels, from the start to the seal.\<close>

definition undisturbed_loop :: "LoopOptions \<Rightarrow> ('m, 't, 'p, 'q) others live_loop \<Rightarrow> bool" where
  "undisturbed_loop opts env \<longleftrightarrow> typed_loop env \<and> list_all (undisturbed opts) (ln_rounds env)
     \<and> list_all mild (ln_between env)"

lemma started_control:
  assumes "AgentLoop_start ser runtime now fills consumer request options = Some (Ok (a, s))"
  shows "lc_limits (rn_control s) = lo_limits options" "cs_accepting_updates (lc_inner (rn_control s))"
    "offers (rn_control s) = (None, ConfigRevision_next ConfigRevision_INITIAL)"
  using assms
  by (auto simp: AgentLoop_start_def Let_def spawn_def LoopControl_new_def and_then_eq_Ok offers_def
      split: if_splits result.splits option.splits)

lemma started_follows:
  assumes "AgentLoop_start ser runtime now fills consumer request options = Some (Ok (a, s))"
    and "tool_set_ok (ec_tools (lq_config request))"
  shows "follows (setting_of parse ser enc options (rn_id s) request) (agent_start (rn_id s) request)
     (opened s request) (initial_locals request)"
  using started_runner [OF assms] started_control [OF assms(1)] assms(2)
  by (simp add: follows_defs setting_of_def agent_start_def opened_def initial_locals_def start_ok_def serene_def)

lemma runner_reference:
  assumes start: "AgentLoop_start ser runtime now fills consumer request options = Some (Ok (a, s))"
    and tools: "tool_set_ok (ec_tools (lq_config request))"
    and env: "undisturbed_loop options env"
    and ref: "reference_loop parse ser enc options (AgentLoop_id a) request (map (hear options) (ln_rounds env)) = Some (path, g)"
  obtains outcome s' where "outcome_for (al_control a) path = Some outcome"
    "run_loop parse ser enc env request s = (Done (agent_report (AgentLoop_id a) outcome g), s')"
proof -
  note s = started_runner [OF start tools]
  define st where "st = setting_of parse ser enc options (rn_id s) request"
  have st: "st_parse st = parse" "st_ser st = ser" "st_enc st = enc" "st_options st = options" "st_id st = rn_id s"
    by (simp_all add: st_def setting_of_def)
  have typed: "typed_loop env" "list_all typed_round (ln_rounds env)" "list_all typed_op (ln_between env)"
    "list_all (undisturbed options) (ln_rounds env)" "list_all mild (ln_between env)"
    using env by (simp_all add: undisturbed_loop_def typed_loop_def)
  have limits: "options_ok (st_options st)" using s(1,2) by (simp add: start_ok_def st(4))
  have "yields (run_turns parse ser enc (ln_rounds env) (initial_locals request))
      (\<lambda>r t. fst r = path \<and> ended st g t (snd r)) (opened s request)"
    using run_turns_follows [OF started_follows [OF start tools, of parse enc] limits [unfolded st_def]] typed(4) ref s(4) st
    unfolding st_def reference_loop_def by (simp add: setting_of_def)
  then obtain l t where turns: "run_turns parse ser enc (ln_rounds env) (initial_locals request) (opened s request) = (Done (path, l), t)"
    "ended st g t l"
    by (auto simp: yields_def)
  have inv: "loop_inv t l"
    using wp_Done [OF run_turns_wp [OF opened_inv [OF s(1)] typed(2)] turns(1)] by (simp add: turns_post_def)
  have t: "rn_id t = rn_id s" "wh_appended (rn_working t) = ag_history g" "ll_tool_rounds l = ag_rounds g"
    "ll_requests l = ag_requests g" "ll_usage l = ag_usage g" "applied_revision (rn_control t) = ag_revision g"
    "lc_state (rn_control t) = STATE_NONE"
    using turns(2) by (simp_all add: follows_defs st(5))
  have "lc_state (fold (act ser) ops c) = STATE_NONE" if "list_all mild ops" "lc_state c = STATE_NONE" for ops c
    using that
  proof (induction ops arbitrary: c)
    case (Cons x ops)
    then have "lc_state (act ser x c) = STATE_NONE"
      by (cases x) (auto simp: mild_def act_defs split: option.splits result.splits if_splits)
    with Cons show ?case by simp
  qed simp
  from this [OF typed(5) t(7)] have clean: "sealed_outcome (fold (act ser) (ln_between env) (rn_control t)) intended = intended" for intended
    by (simp add: sealed_outcome_def)
  have same: "outcome_for (rn_control t) path = outcome_for (al_control a) path"
  proof -
    have "cancel_reason (rn_control t) = cancel_reason (al_control a)" using t(7) s(3,5) by (simp add: cancel_reason_def)
    then show ?thesis by (simp add: outcome_for_def split: FailPath.split)
  qed
  obtain intended report s' where fin: "outcome_for (rn_control t) path = Some intended"
    "finish_loop ser (ln_between env) path l t = (Done report, s')"
    "report = agent_report (rn_id s) intended g"
    by (rule finish_loop_run [OF inv typed(3), of path ser]) (auto simp: clean agent_report_def t)
  have "run_loop parse ser enc env request s = (Done report, s')"
    by (simp add: run_loop_def run_loop_inner_opened bind_run_def turns(1) fin(2))
  with that fin(1,3) same s(4) show thesis by simp
qed

subsection \<open>Models that answer at once\<close>

text \<open>The events of a call whose first attempt runs to the end of its stream.\<close>

definition first_events :: "attempt_reply list option \<Rightarrow> ModelEvent list option" where
  "first_events attempts =
     (case attempts of
        Some (a # _) \<Rightarrow>
          if at_start a = Some (Ok ()) \<and> snd (at_stream a) = Stream_Ended then Some (fst (at_stream a)) else None
      | _ \<Rightarrow> None)"

definition re_events :: "('m, 't, 'p, 'q) reply \<Rightarrow> ModelEvent list option" where
  "re_events r = first_events (re_attempts r)"

text \<open>The response the assembler makes of them.\<close>

definition respond ::
  "(rstr \<Rightarrow> json option) \<Rightarrow> json serializer \<Rightarrow> ToolSpec list \<Rightarrow> LoopLimits \<Rightarrow> ModelEvent list \<Rightarrow> ModelResponse option" where
  "respond parse ser specs limits events =
     (case push_all parse ser (Assembler_new specs limits) events of
        Some (a, Ok _) \<Rightarrow> (case finish a of Some (Ok response) \<Rightarrow> Some response | _ \<Rightarrow> None)
      | _ \<Rightarrow> None)"

lemma respond_request:
  assumes "re_events r = Some events" "validate_request (driver_of (st_options st) (ag_config g)) request = Ok ()"
    and "respond (st_parse st) (st_ser st) (mq_tools request) (lo_limits (st_options st)) events = Some response"
  shows "agent_request st request r g = agent_respond st response (re_tools r)
     (overhear st (re_model_ops r) (g\<lparr>ag_revision := (case ag_candidate g of Some c \<Rightarrow> c | None \<Rightarrow> ag_revision g),
        ag_candidate := None, ag_requests := saturating_add (ag_requests g) 1\<rparr>))"
proof -
  obtain a as where a: "re_attempts r = Some (a # as)" "at_start a = Some (Ok ())" "at_stream a = (events, Stream_Ended)"
    using assms(1) by (auto simp: re_events_def first_events_def prod_eq_iff split: option.splits list.splits if_splits)
  obtain b prog where "push_all (st_parse st) (st_ser st) (Assembler_new (mq_tools request) (lo_limits (st_options st))) events
      = Some (b, Ok prog)" "finish b = Some (Ok response)"
    using assms(3) by (auto simp: respond_def split: option.splits result.splits)
  then have "attempt_outcome (st_parse st) (st_ser st) (mq_tools request) (lo_limits (st_options st)) a = Some (Ok response)"
    by (simp add: attempt_outcome_def a stream_outcome_def finish_obs [THEN iffD2] Let_def)
  then show ?thesis
    using assms(2) by (simp add: agent_request_def a(1) model_answer_def Let_def)
qed

lemma respond_text:
  assumes "list_all allowed_char t" "t \<noteq> []" "str_len t \<le> MAX_MODEL_EVENT_TEXT_BYTES" "str_len t \<le> max_model_text_bytes limits"
  shows "respond parse ser specs limits [EV_TextDelta (BoundedText t), EV_Finish FR_Stop]
     = Some \<lparr>mr_parts = [AP_Text t], mr_finish_reason = FR_Stop, mr_usage = Some Usage_default, mr_provider_replay = None\<rparr>"
proof -
  have clean: "normalized_reference t = t" using normalized_reference_id [OF assms(1)] .
  have len: "str_len t \<le> USIZE_MAX" "str_len t \<le> MAX_TEXT_BYTES" "str_len t \<le> MAX_MODEL_MESSAGE_TEXT_BYTES"
    using assms(3) by (simp_all add: USIZE_MAX_def MAX_MODEL_EVENT_TEXT_BYTES_def MAX_TEXT_BYTES_def MAX_MODEL_MESSAGE_TEXT_BYTES_def)
  then have delta: "normalized_delta (BoundedText t) False = (Some (BoundedText t), ends_in_cr False t)"
    using normalized_delta_eq [of "BoundedText t" False] clean by (simp add: bt_byte_len_def normalized_reference_def)
  have event: "ModelEvent_validate (EV_TextDelta (BoundedText t)) = Ok ()" "ModelEvent_validate (EV_Finish FR_Stop) = Ok ()"
    using assms(3) by (simp_all add: ModelEvent_validate_def event_text_def bt_byte_len_def)
  have valid: "valid_text t MAX_MODEL_MESSAGE_TEXT_BYTES True" using assms(1) len(3) by (simp add: valid_text_def)
  show ?thesis
    using assms(2,4) len(1) clean
    by (simp add: respond_def push_def event delta push_text_def bt_is_empty_def append_bounded_def Assembler_new_def finish_def
        ModelResponse_new_with_provider_replay_def normalize_parts_def normalize_part_eq validate_tool_call_order_def
        AssistantPart_validate_def as_tool_call_def valid Let_def)
qed

lemma usage_default_adds: "UsageAccumulator_add UsageAccumulator_default Usage_default = (UsageAccumulator_default, Ok ())"
  by (simp add: UsageAccumulator_add_def UsageAccumulator_default_def Usage_default_def Usage_from_optional_def
      sum_usage_def sum_field_def with_cache_read_tokens_def with_cache_write_tokens_def with_provider_total_tokens_def)

lemma respond_plain:
  assumes "tool_calls (mr_parts response) = []" "mr_finish_reason response = FR_Stop" "mr_usage response = Some Usage_default"
    and "ag_usage g = UsageAccumulator_default"
  shows "agent_respond st response replies g = Some (Stop FP_Completed (append_items [spoken st response Usage_default g] g))"
  using assms by (cases g) (simp add: agent_respond_def usage_default_adds no_tool_finish_def append_items_def)

subsection \<open>Properties\<close>

text \<open>
  C1: the runner implements the reference loop.  If nobody cancels and the reference loop, run on
  what the host and its users say, ends, then the run returns, whatever the polls, the clock
  readings, the drop counts and the acts of other threads are: with the history, the usage, the
  counts and the revision of the reference loop, and the outcome of its path.  The reference loop
  retries a model call whose attempt failed before it said anything, ends as failed when the model
  fails for good, and follows refusals, failed tools, approvals and requests for input.
\<close>
theorem runner_implements_reference:
  assumes "AgentLoop_start ser runtime now fills consumer request options = Some (Ok (a, s))"
    and "tool_set_ok (ec_tools (lq_config request))" "undisturbed_loop options env"
    and "reference_loop parse ser enc options (AgentLoop_id a) request (map (hear options) (ln_rounds env)) = Some (path, g)"
  shows "\<exists>outcome s'. outcome_for (al_control a) path = Some outcome
     \<and> run_loop parse ser enc env request s
         = (Done \<lparr>rep_loop_id = AgentLoop_id a, rep_outcome = outcome, rep_appended = ag_history g,
              rep_usage = UsageAccumulator_finish (ag_usage g), rep_requests = ag_requests g,
              rep_tool_rounds = ag_rounds g, rep_final_config_revision = ag_revision g\<rparr>, s')"
  by (rule runner_reference [OF assms]) (auto simp: agent_report_def)

lemma sample_hear:
  "re_ops (hear sample_options sample_round) = []" "re_on_time (hear sample_options sample_round)"
  "re_inputs (hear sample_options sample_round) = Completed []" "re_prompt_ops (hear sample_options sample_round) = []"
  "re_prompt (hear sample_options sample_round) = Some (\<lambda>_. Ok [MM_User (lit ''hi'')])"
  "re_late_inputs (hear sample_options sample_round) = Completed []" "re_model_ops (hear sample_options sample_round) = []"
  "re_events (hear sample_options sample_round) = Some [EV_TextDelta (BoundedText [0x61]), EV_Finish FR_Stop]"
  by (simp_all add: hear_def sample_round_def sample_options_def one_poll_def call_ops_def poll_ops_def call_value_def within_def
      turn_deadline_def INSTANT_LIMIT_def sample_model_def model_ops_def attempt_ops_def model_attempts_def hear_attempt_def
      re_events_def first_events_def sample_events_def Let_def comp_def)

lemma sample_undisturbed: "undisturbed_loop sample_options sample_loop"
  using sample_loop_ok(2)
  by (simp add: undisturbed_loop_def sample_loop_def undisturbed_def sample_round_def one_poll_def call_ops_def poll_ops_def
      sample_model_def model_ops_def attempt_ops_def sample_events_def Let_def comp_def)

lemma sample_reference:
  "\<exists>g. reference_loop (\<lambda>_. None) ser enc sample_options ident sample_loop_request (map (hear sample_options) (ln_rounds sample_loop))
       = Some (FP_Completed, g)
     \<and> map (\<lambda>item. case item of HI_Assistant a \<Rightarrow> ah_content a | _ \<Rightarrow> []) (ag_history g) = [[], [AP_Text [0x61]]]"
proof -
  let ?st = "setting_of (\<lambda>_. None) ser enc sample_options ident sample_loop_request"
  let ?g = "agent_start ident sample_loop_request" and ?r = "hear sample_options sample_round"
  let ?response = "\<lparr>mr_parts = [AP_Text [0x61]], mr_finish_reason = FR_Stop, mr_usage = Some Usage_default, mr_provider_replay = None\<rparr>"
  have st: "st_parse ?st = (\<lambda>_. None)" "st_ser ?st = ser" "st_options ?st = sample_options" "st_id ?st = ident"
    and g: "ag_config ?g = sample_config" "ag_usage ?g = UsageAccumulator_default" "ag_history ?g = [first_input ident sample_loop_request]"
    by (simp_all add: setting_of_def agent_start_def sample_loop_request_def)
  have "respond (\<lambda>_. None) ser (mq_tools sample_request) (lo_limits sample_options) [EV_TextDelta (BoundedText [0x61]), EV_Finish FR_Stop]
      = Some ?response"
    by (rule respond_text) (simp_all add: text_defs utf8_len_def MAX_MODEL_EVENT_TEXT_BYTES_def LoopLimits_default_def
        MAX_TEXT_BYTES_def sample_options_def)
  moreover have "validate_request (driver_of sample_options sample_config) sample_request = Ok ()"
    by (simp add: validate_request_def driver_of_def ModelDriver_from_validated_def sample_config_def sample_request_def
        supports_reasoning_def ModelLimits_default_def)
  ultimately have request: "agent_request ?st sample_request ?r ?g = agent_respond ?st ?response (re_tools ?r)
      (overhear ?st [] (?g\<lparr>ag_revision := (case ag_candidate ?g of Some c \<Rightarrow> c | None \<Rightarrow> ag_revision ?g),
        ag_candidate := None, ag_requests := saturating_add (ag_requests ?g) 1\<rparr>))"
    by (subst respond_request [where response = ?response]) (simp_all add: sample_hear st g)
  have "agent_asks ?st ?r ?g = Some (Inr (sample_request, ?g))"
    by (simp add: agent_asks_def sample_hear agent_boundary_def append_items_def steering_def agent_start_def sample_loop_request_def
        sample_build overhear_def Let_def)
  then have turn: "agent_turn ?st ?r ?g = agent_request ?st sample_request ?r ?g" by (simp add: agent_turn_def)
  show ?thesis
    by (simp add: sample_loop_def reference_loop_def turn request respond_plain overhear_def g)
      (simp add: append_items_def spoken_def g first_input_def)
qed

theorem runner_implements_reference_witness:
  "\<exists>a s report s'. AgentLoop_start (\<lambda>_. ([], True)) True 0 [Some (replicate 16 1)] [] sample_loop_request sample_options
      = Some (Ok (a, s))
     \<and> run_loop (\<lambda>_. None) (\<lambda>_. ([], True)) (\<lambda>_. []) sample_loop sample_loop_request s = (Done report, s')
     \<and> rep_outcome report = LO_Completed
     \<and> map (\<lambda>item. case item of HI_Assistant a \<Rightarrow> ah_content a | _ \<Rightarrow> []) (rep_appended report) = [[], [AP_Text [0x61]]]"
proof -
  obtain a s where start: "AgentLoop_start (\<lambda>_. ([], True)) True 0 [Some (replicate 16 1)] [] sample_loop_request sample_options
      = Some (Ok (a, s))" by (rule sample_agent)
  obtain g where g: "reference_loop (\<lambda>_. None) (\<lambda>_. ([], True)) (\<lambda>_. []) sample_options (AgentLoop_id a) sample_loop_request
      (map (hear sample_options) (ln_rounds sample_loop)) = Some (FP_Completed, g)"
    "map (\<lambda>item. case item of HI_Assistant a \<Rightarrow> ah_content a | _ \<Rightarrow> []) (ag_history g) = [[], [AP_Text [0x61]]]"
    using sample_reference [of "\<lambda>_. ([], True)" "\<lambda>_. []" "AgentLoop_id a"] by (elim exE conjE)
  from runner_implements_reference [OF start sample_tools_ok sample_undisturbed g(1)] start g(2)
  show ?thesis by (fastforce simp: outcome_for_def)
qed
end
