(* ===== verification/Cancelled_Loop.thy ===== *)
theory Cancelled_Loop
  imports Reference_Loop Agent_Loop
begin

text \<open>
  A loop that is cancelled while its model streams ends.

  Before the cancellation the run follows the reference loop of \<^verbatim>\<open>Reference_Loop.thy\<close>; the driver sees
  the token at its next poll, gives the call up without a retry, and the loop ends with what it has
  appended so far, whatever the ports would have said later.
\<close>

subsection \<open>Marks\<close>

text \<open>The acts contain a whole \<open>mark_cancel\<close>: the exchange of this source, first, and later a token.\<close>

definition cancelling :: "CancelSource \<Rightarrow> ('m, 't, 'p, 'q) others list \<Rightarrow> bool" where
  "cancelling source ops \<longleftrightarrow> (\<exists>before mid later. ops = before @ X_Cancel source # mid @ X_Token # later \<and> list_all mild before)"

definition marked_by :: "CancelSource \<Rightarrow> ('m, 't, 'p, 'q) control \<Rightarrow> bool" where
  "marked_by source c \<longleftrightarrow> lc_cancel c \<and> lc_state c = cancel_target source"

lemma cancelling_append:
  "cancelling source ops \<Longrightarrow> cancelling source (ops @ later)"
  "cancelling source ops \<Longrightarrow> list_all mild before \<Longrightarrow> cancelling source (before @ ops)"
proof -
  assume "cancelling source ops"
  then obtain early mid rest where ops: "ops = early @ X_Cancel source # mid @ X_Token # rest" "list_all mild early"
    by (auto simp: cancelling_def)
  then have "ops @ later = early @ X_Cancel source # mid @ X_Token # (rest @ later)" by simp
  with ops(2) show "cancelling source (ops @ later)" unfolding cancelling_def by blast
  assume "list_all mild before"
  with ops have "list_all mild (before @ early)" "before @ ops = (before @ early) @ X_Cancel source # mid @ X_Token # rest" by simp_all
  then show "cancelling source (before @ ops)" unfolding cancelling_def by blast
qed

lemma cancelling_marks:
  assumes "serene limits c" "cancelling source ops"
  shows "marked_by source (fold (act ser) ops c)"
proof -
  obtain before mid later where ops: "ops = before @ X_Cancel source # mid @ X_Token # later" "list_all mild before"
    using assms(2) by (auto simp: cancelling_def)
  define c1 where "c1 = fold (act ser) mid (act ser (X_Cancel source) (fold (act ser) before c))"
  have "lc_state (fold (act ser) before c) = STATE_NONE" using serene_acts [OF assms(1) ops(2)] by (simp add: serene_def)
  then have "lc_state (act ser (X_Cancel source) (fold (act ser) before c)) = cancel_target source"
    by (simp add: exchange_cases)
  then have c1: "lc_state c1 = cancel_target source" unfolding c1_def by (rule marked.acts_stable) simp
  define c2 where "c2 = act ser X_Token c1"
  have c2: "lc_state c2 = cancel_target source" "lc_cancel c2"
    using c1 states_distinct by (auto simp: c2_def is_active_def cancel_token_def)
  have "fold (act ser) ops c = fold (act ser) later c2" by (simp add: ops(1) c1_def c2_def)
  moreover have "lc_state (fold (act ser) later c2) = cancel_target source" by (rule marked.acts_stable [OF c2(1)]) simp
  moreover have "lc_cancel (fold (act ser) later c2)" by (rule cancelled.acts_stable [OF c2(2)]) simp
  ultimately show ?thesis by (simp add: marked_by_def)
qed

subsection \<open>The model call\<close>

text \<open>Polls of a stream that has not ended: pending, or an event.\<close>

fun streaming :: "('x, (ModelEvent, ModelError) result option) live_poll list \<Rightarrow> ModelEvent list option" where
  "streaming [] = Some []"
| "streaming (p # ps) =
     (if lp_elapsed p then None
      else case lp_ready p of
        None \<Rightarrow> streaming ps
      | Some (Completed (Some (Ok event))) \<Rightarrow> map_option ((#) event) (streaming ps)
      | _ \<Rightarrow> None)"

lemma cancelled_stream:
  assumes "serene limits c" "list_all mild (poll_ops (map fst xs))" "streaming (map fst xs) = Some evs"
    and "push_all parse ser asm evs = Some (a, Ok prog)"
    and "lc_cancel (fold (act ser') (poll_ops (map fst xs) @ lp_ops (fst y)) c)"
  shows "\<exists>observed log'. run_stream parse ser source
       (map2 (\<lambda>p answer. \<lparr>sp_cancelled = pp_cancelled p, sp_elapsed = pp_elapsed p, sp_ready = pp_ready p, sp_send = answer\<rparr>)
          (fst (play_polls (act ser') (map fst (xs @ y # zs)) c)) (map snd (xs @ y # zs))) asm log
     = (Done (Err (AttemptFailure_new (generated_error ME_Cancelled (observed_delivery observed)) observed)), log')"
  using assms
proof (induction xs arbitrary: c asm log evs prog a)
  case Nil
  then show ?case by (simp add: Let_def poll_ops_def) blast
next
  case (Cons x xs)
  let ?c = "fold (act ser') (lp_ops (fst x)) c"
  have c: "serene limits ?c" using Cons.prems by (simp add: serene_acts)
  note c = c serene_not_cancelled [OF c]
  have mild: "list_all mild (poll_ops (map fst xs))" "\<not> lp_elapsed (fst x)"
    using Cons.prems by (simp_all split: if_splits)
  have mark: "lc_cancel (fold (act ser') (poll_ops (map fst xs) @ lp_ops (fst y)) ?c)"
    using Cons.prems(5) by (simp add: poll_ops_def)
  consider (skip) "lp_ready (fst x) = None" "streaming (map fst xs) = Some evs"
    | (event) ev rest where "lp_ready (fst x) = Some (Completed (Some (Ok ev)))" "streaming (map fst xs) = Some rest"
        "evs = ev # rest"
    using Cons.prems(3) mild(2) by (auto split: option.splits caught.splits result.splits)
  then show ?case
  proof cases
    case skip
    then show ?thesis using Cons.IH [OF c(1) mild(1) skip(2) Cons.prems(4) mark] c(2) mild(2) by (simp add: Let_def)
  next
    case event
    then obtain b pr prog' where b: "push parse ser asm ev = Some (b, Ok pr)" "push_all parse ser b rest = Some (a, Ok prog')"
      using Cons.prems(4) by (auto split: option.splits result.splits)
    have obs: "push parse ser (obs True asm) ev = Some (obs True b, Ok pr)"
      "push_all parse ser (obs True b) rest = Some (obs True a, Ok prog')"
      using b by (simp_all add: push_obs push_all_obs_eq)
    from Cons.IH [OF c(1) mild(1) event(2) obs(2) mark] event(1) obs(1) c(2) mild(2) show ?thesis
      by (simp add: Let_def)
  qed
qed

text \<open>
  The script of a model call that is cancelled in its first attempt: the stream has been opened, some
  events may have come, and the acts before a later poll contain the cancellation.
\<close>

definition cancels_stream ::
  "LoopOptions \<Rightarrow> CancelSource \<Rightarrow> ('m, 't, 'p, 'q) others live_model \<Rightarrow> ModelEvent list \<Rightarrow> bool" where
  "cancels_stream opts source env evs \<longleftrightarrow>
     (\<exists>d a as xs y zs. turn_deadline (lm_now_turn env) (lo_deadline opts) = Some d \<and> lm_attempts env = a # as
        \<and> within d (lm_now_deadline env) (lo_model_timeout opts) (lm_now_check env)
        \<and> within d (lm_now_deadline env) (lo_model_timeout opts) (la_now a)
        \<and> \<not> la_start_panics a \<and> delivered (la_start a) = Some (Ok ())
        \<and> la_stream a = xs @ y # zs \<and> streaming (map fst xs) = Some evs
        \<and> list_all mild (lm_ops env @ la_ops a @ poll_ops (la_start a) @ poll_ops (map fst xs))
        \<and> cancelling source (lp_ops (fst y)))"

lemma run_detailed_cancelled:
  assumes "serene limits c" "list_all mild (la_ops a @ poll_ops (la_start a) @ poll_ops (map fst xs))"
    and "within d now (drv_model_call_timeout drv) check" "within d now (drv_model_call_timeout drv) (la_now a)"
    and "\<not> la_start_panics a" "delivered (la_start a) = Some (Ok ())" "la_stream a = xs @ y # zs"
    and "streaming (map fst xs) = Some evs" "cancelling source (lp_ops (fst y))"
    and "push_all parse ser (Assembler_new (mq_tools request) (drv_limits drv)) evs = Some (b, Ok prog)"
    and "validate_request drv request = Ok ()"
  shows "\<exists>f log' fs. run_detailed parse ser drv request d \<lparr>de_now_deadline = now, de_cancelled = False, de_now_check = check,
      de_attempts = fst (play_attempts (act ser) (a # as) c)\<rparr> log = (Done (Err f), log', fs)"
proof -
  define c1 where "c1 = fold (act ser) (la_ops a) c"
  define c2 where "c2 = snd (play_polls (act ser) (la_start a) c1)"
  have ops: "list_all mild (la_ops a)" "list_all mild (poll_ops (la_start a))" "list_all mild (poll_ops (map fst xs))"
    using assms(2) by simp_all
  have c1: "serene limits c1" using serene_acts [OF assms(1) ops(1)] by (simp add: c1_def)
  have c2: "serene limits c2" using serene_acts [OF c1 ops(2)] by (simp add: c2_def polls_played)
  have mark: "lc_cancel (fold (act ser) (poll_ops (map fst xs) @ lp_ops (fst y)) c2)"
    using cancelling_marks [OF c2 cancelling_append(2) [OF assms(9) ops(3)]] by (simp add: marked_by_def)
  define deadline where "deadline = \<lparr>ed_standard = min d (now + drv_model_call_timeout drv),
     ed_tokio = min d (now + drv_model_call_timeout drv),
     ed_source = (if d \<le> now + drv_model_call_timeout drv then Turn else Port)\<rparr>"
  have eff: "effective_deadline_from now d (drv_model_call_timeout drv) = Ok deadline"
    using assms(3) by (simp add: within_def deadline_def effective_deadline_Ok)
  obtain observed log' where stream: "run_stream parse ser (ed_source deadline) (ae_stream_polls (fst (play_attempt (act ser) a c)))
       (Assembler_new (mq_tools request) (drv_limits drv)) log
     = (Done (Err (AttemptFailure_new (generated_error ME_Cancelled (observed_delivery observed)) observed)), log')"
    using cancelled_stream [OF c2 ops(3) assms(8,10) mark, of "ed_source deadline" zs log]
    by (auto simp: play_attempt_def Let_def c1_def [symmetric] c2_def [symmetric] assms(7))
  have attempt: "\<not> ae_cancelled (fst (play_attempt (act ser) a c))" "ae_now (fst (play_attempt (act ser) a c)) = la_now a"
    "\<not> ae_start_panics (fst (play_attempt (act ser) a c))"
    "select_port (ae_start_polls (fst (play_attempt (act ser) a c))) = Some (Sel_Result (Completed (Ok ())))"
    using serene_not_cancelled [OF c1] serene_select [OF c1 ops(2) assms(6)] assms(5)
    by (simp_all add: play_attempt_def Let_def c1_def [symmetric])
  have run: "run_attempt parse ser drv request (ed_source deadline) (fst (play_attempt (act ser) a c)) log
      = (Done (Err (AttemptFailure_new (generated_error ME_Cancelled (observed_delivery observed)) observed)), log')"
    using attempt stream by (simp add: run_attempt_def)
  have no_retry: "evaluate_retry policy k (AttemptFailure_new (generated_error ME_Cancelled (observed_delivery observed)) observed) dl n
      = None" for policy k dl n
    by (auto simp: evaluate_retry_def AttemptFailure_new_def observed_delivery_def)
  have "\<not> ed_tokio deadline \<le> check" "\<not> ed_tokio deadline \<le> la_now a"
    using assms(3,4) by (simp_all add: deadline_def within_def min_le_iff_disj)
  then show ?thesis
    using eff attempt(1,2) run assms(11) no_retry by (auto simp: run_detailed_def precheck_def Let_def)
qed

lemma run_model_cancelled:
  assumes s: "serene (limits_of s) (rn_control s)" and env: "cancels_stream (rn_options s) source env evs"
    and d: "turn_deadline (lm_now_turn env) (lo_deadline (rn_options s)) = Some d"
    and push: "push_all parse ser (Assembler_new (mq_tools request) (limits_of s)) evs = Some (b, Ok prog)"
    and valid: "validate_request (driver_of (rn_options s) snapshot) request = Ok ()"
  shows "yields (run_model parse ser ri snapshot request d env)
     (\<lambda>r t. (\<exists>f. r = Err f) \<and> rn_id t = rn_id s \<and> rn_options t = rn_options s \<and> rn_working t = rn_working s
        \<and> core (rn_control t) = core (rn_control s) \<and> marked_by source (rn_control t)) s"
proof -
  let ?drv = "driver_of (rn_options s) snapshot"
  obtain a as xs y zs where a: "lm_attempts env = a # as" "\<not> la_start_panics a" "delivered (la_start a) = Some (Ok ())"
    "within d (lm_now_deadline env) (lo_model_timeout (rn_options s)) (lm_now_check env)"
    "within d (lm_now_deadline env) (lo_model_timeout (rn_options s)) (la_now a)"
    "la_stream a = xs @ y # zs" "streaming (map fst xs) = Some evs"
    "list_all mild (lm_ops env @ la_ops a @ poll_ops (la_start a) @ poll_ops (map fst xs))" "cancelling source (lp_ops (fst y))"
    using env d by (auto simp: cancels_stream_def)
  define c1 where "c1 = fold (act ser) (lm_ops env) (rn_control s)"
  define c2 where "c2 = snd (play_attempts (act ser) (lm_attempts env) c1)"
  have c1: "serene (limits_of s) c1" using serene_acts [OF s, of "lm_ops env"] a(8) by (simp add: c1_def)
  obtain f log fs where run: "run_detailed parse ser ?drv request d
      \<lparr>de_now_deadline = lm_now_deadline env, de_cancelled = False, de_now_check = lm_now_check env,
       de_attempts = fst (play_attempts (act ser) (lm_attempts env) c1)\<rparr> \<lparr>dl_sent = [], dl_dropped = 0\<rparr>
      = (Done (Err f), log, fs)"
    using run_detailed_cancelled [OF c1 _ _ _ a(2,3,6,7,9), where d = d and now = "lm_now_deadline env" and drv = ?drv
        and check = "lm_now_check env" and parse = parse and ser = ser and request = request and b = b and prog = prog and as = as
        and log = "\<lparr>dl_sent = [], dl_dropped = 0\<rparr>"]
      a(1,4,5,8) push valid
    by (auto simp del: play_attempts.simps)
  have "model_ops env = (lm_ops env @ la_ops a @ poll_ops (la_start a) @ poll_ops (map fst xs)) @ lp_ops (fst y)
      @ poll_ops (map fst zs) @ poll_ops (la_wait a) @ concat (map attempt_ops as) @ lm_ops_after env"
    by (simp add: model_ops_def a(1,6) attempt_ops_def poll_ops_def)
  moreover have "cancelling source \<dots>" using a(8,9) by (intro cancelling_append)
  ultimately have "cancelling source (model_ops env)" by (simp only:)
  then have "marked_by source (fold (act ser) (model_ops env) (rn_control s))" by (rule cancelling_marks [OF s])
  then have mark: "marked_by source (fold (act ser) (lm_ops_after env) c2)"
    by (simp add: model_ops_def c2_def c1_def attempts_played)
  have same: "core (fold (act ser) (lm_ops_after env) c2) = core (rn_control s)"
    by (simp add: c2_def c1_def)
  have tail: "yields (then_run (record_dropped_run n) (then_run (forward_all ri xs)
        (then_run (interfere ser (lm_ops_after env)) (return_run (Err f)))))
      (\<lambda>r t. (\<exists>f. r = Err f) \<and> rn_id t = rn_id s \<and> rn_options t = rn_options s \<and> rn_working t = rn_working s
        \<and> core (rn_control t) = core (rn_control s) \<and> marked_by source (rn_control t)) u"
    if "silent (s\<lparr>rn_control := c2\<rparr>) u" for n xs u
    by (simp, rule yields_mono [OF forward_all_yields])
      (use that mark same in \<open>auto simp: silent_def\<close>)
  show ?thesis
    using serene_not_cancelled [OF c1]
    by (simp add: run_model_def Let_def c1_def [symmetric] driver_of_def [symmetric] run c2_def [symmetric])
      (rule yields_mono [OF forward_all_yields], use tail in simp)
qed


subsection \<open>The run\<close>

text \<open>The loop has stopped under a mark: the report is that of the reference state.\<close>

definition halted ::
  "setting \<Rightarrow> CancelSource \<Rightarrow> ('m, 't, 'p, 'q) agent \<Rightarrow> FailPath \<Rightarrow> ('m, 't, 'p, 'q) LoopLocals \<Rightarrow> ('m, 't, 'p, 'q) runner \<Rightarrow> bool" where
  "halted st source g path l s \<longleftrightarrow> path = FP_Cancelled \<and> in_setting st s \<and> same_counts g s l \<and> marked_by source (rn_control s)"

lemma issue_request_cancelled:
  assumes f: "follows st g s l" and env: "cancels_stream (st_options st) source (lr_model env) evs"
    and push: "push_all (st_parse st) (st_ser st) (Assembler_new (mq_tools request) (lo_limits (st_options st))) evs = Some (b, Ok prog)"
    and valid: "validate_request (driver_of (st_options st) (ag_config g)) request = Ok ()"
  shows "yields (issue_request (st_parse st) (st_ser st) enc env (ag_config g) request l)
     (\<lambda>r t. \<exists>l'. r = Stop FP_Cancelled l' \<and> halted st source
        (g\<lparr>ag_revision := (case ag_candidate g of Some c \<Rightarrow> c | None \<Rightarrow> ag_revision g), ag_candidate := None,
           ag_requests := saturating_add (ag_requests g) 1\<rparr>) FP_Cancelled l' t) s"
proof -
  define revision where "revision = (case ag_candidate g of Some c \<Rightarrow> c | None \<Rightarrow> ag_revision g)"
  define model where "model = md_model_ref (ec_descriptor (ag_config g))"
  define x where "x = round_state (rn_id s) LS_RunningModel (ag_index g) revision (Some model)"
  define u where "u = s\<lparr>rn_control := publish_state x (commit_revision revision (rn_control s)),
      rn_sink := try_emit (EV_StateChanged x) (try_emit (EV_RequestStarted (rn_id s) (ag_index g) revision model
        (ec_reasoning (ag_config g))) (rn_sink s))\<rparr>"
  define l' where "l' = l\<lparr>ll_issued_revision := revision, ll_candidate_revision := None,
        ll_requests := saturating_add (ll_requests l) 1, ll_last_issued_request_index := Some (ll_request_index l)\<rparr>"
  define g' where "g' = g\<lparr>ag_revision := revision, ag_candidate := None, ag_requests := saturating_add (ag_requests g) 1\<rparr>"
  have l: "ll_request_index l = ag_index g" "ll_candidate_revision l = ag_candidate g" "ll_issued_revision l = ag_revision g"
    using f by (simp_all add: follows_defs)
  have u: "follows st g' u l'"
    unfolding g'_def u_def l'_def by (rule commit_follows [OF f revision_def])
  note su = follows_options [OF u]
  obtain d where d: "turn_deadline (lm_now_turn (lr_model env)) (lo_deadline (st_options st)) = Some d"
    using env by (auto simp: cancels_stream_def)
  have run: "yields (run_model (st_parse st) (st_ser st) (ag_index g) (ag_config g) request d (lr_model env))
     (\<lambda>r t. (\<exists>f. r = Err f) \<and> lc_cancel (rn_control t) \<and> halted st source g' FP_Cancelled l' t) u"
    by (rule yields_mono [OF run_model_cancelled [where evs = evs and b = b and prog = prog]])
      (use su env d push valid u in \<open>auto simp: halted_def marked_by_def follows_defs dest!: core_applied\<close>)
  have opts_s: "rn_options s = st_options st" by (rule follows_options(1) [OF f])
  show ?thesis
    unfolding revision_def [symmetric] g'_def [symmetric]
    by (simp add: issue_request_def Let_def l revision_def [symmetric] model_def [symmetric] x_def [symmetric]
        l'_def [unfolded l, symmetric] u_def [symmetric] opts_s su(1) d cong: option.case_cong)
      (rule yields_mono [OF run], auto simp: map_model_failure_def)
qed

text \<open>The state after turns that all go on.\<close>

fun agent_walk ::
  "setting \<Rightarrow> ('m, 't, 'p, 'q) reply list \<Rightarrow> ('m, 't, 'p, 'q) agent \<Rightarrow> ('m, 't, 'p, 'q) agent option" where
  "agent_walk st [] g = Some g"
| "agent_walk st (r # rs) g = (case agent_turn st r g of Some (Again g') \<Rightarrow> agent_walk st rs g' | _ \<Rightarrow> None)"

lemma run_turns_walk:
  assumes "follows st g s l" "options_ok (st_options st)" "list_all (undisturbed (st_options st)) before"
    and "agent_walk st (map (hear (st_options st)) before) g = Some g'"
    and "\<And>t k. follows st g' t k \<Longrightarrow> yields (run_turns (st_parse st) (st_ser st) (st_enc st) later k) Q t"
  shows "yields (run_turns (st_parse st) (st_ser st) (st_enc st) (before @ later) l) Q s"
  using assms(1,3,4)
proof (induction before arbitrary: g s l)
  case Nil
  then show ?case using assms(5) by simp
next
  case (Cons env before)
  then obtain h where h: "agent_turn st (hear (st_options st) env) g = Some (Again h)"
    "agent_walk st (map (hear (st_options st)) before) h = Some g'"
    by (auto split: option.splits turn.splits)
  have turn: "yields (loop_turn (st_parse st) (st_ser st) (st_enc st) env l) (turn_follows st (Again h)) s"
    by (rule loop_turn_follows) (use Cons.prems assms(2) h(1) in simp_all)
  show ?case
    by (simp, rule yields_mono [OF turn]) (use Cons.IH Cons.prems(2) h(2) in \<open>auto simp: turn_follows_def split: turn.splits\<close>)
qed

definition asks_undisturbed :: "('m, 't, 'p, 'q) others live_round \<Rightarrow> bool" where
  "asks_undisturbed env \<longleftrightarrow> list_all mild (lr_ops env @ call_ops (lr_prompt env) @ lr_ops_stale env)"

lemma cancelled_turns_halt:
  assumes f: "follows st g s l" and limits: "options_ok (st_options st)"
    and before: "list_all (undisturbed (st_options st)) before" "agent_walk st (map (hear (st_options st)) before) g = Some h"
    and asks: "asks_undisturbed env" "agent_asks st (hear (st_options st) env) h = Some (Inr (request, h'))"
    and model: "cancels_stream (st_options st) source (lr_model env) evs"
      "push_all (st_parse st) (st_ser st) (Assembler_new (mq_tools request) (lo_limits (st_options st))) evs = Some (b, Ok prog)"
      "validate_request (driver_of (st_options st) (ag_config h')) request = Ok ()"
  shows "yields (run_turns (st_parse st) (st_ser st) (st_enc st) (before @ env # later) l)
     (\<lambda>r t. halted st source (h'\<lparr>ag_revision := (case ag_candidate h' of Some c \<Rightarrow> c | None \<Rightarrow> ag_revision h'), ag_candidate := None,
           ag_requests := saturating_add (ag_requests h') 1\<rparr>) (fst r) (snd r) t) s"
proof (rule run_turns_walk [OF f limits before])
  fix t k assume t: "follows st h t k"
  let ?Q = "\<lambda>r t. \<exists>l'. r = Stop FP_Cancelled l' \<and> halted st source
        (h'\<lparr>ag_revision := (case ag_candidate h' of Some c \<Rightarrow> c | None \<Rightarrow> ag_revision h'), ag_candidate := None,
           ag_requests := saturating_add (ag_requests h') 1\<rparr>) FP_Cancelled l' t"
  have lead: "asks_lead st env ?Q (Inr (request, h'))"
    using issue_request_cancelled [OF _ model] by (simp add: asks_lead_def)
  have "yields (loop_turn (st_parse st) (st_ser st) (st_enc st) env k) ?Q t"
    by (rule loop_turn_leads [OF t _ _ _ asks(2) lead]) (use asks(1) in \<open>simp_all add: asks_undisturbed_def\<close>)
  then show "yields (run_turns (st_parse st) (st_ser st) (st_enc st) (env # later) k)
     (\<lambda>r t. halted st source (h'\<lparr>ag_revision := (case ag_candidate h' of Some c \<Rightarrow> c | None \<Rightarrow> ag_revision h'), ag_candidate := None,
           ag_requests := saturating_add (ag_requests h') 1\<rparr>) (fst r) (snd r) t) t"
    by (simp, elim yields_mono) (auto simp: halted_def)
qed


lemma cancelled_run:
  assumes start: "AgentLoop_start ser runtime now fills consumer request options = Some (Ok (a, s))"
    and tools: "tool_set_ok (ec_tools (lq_config request))" and env: "typed_loop env"
    and st: "st = setting_of parse ser enc options (AgentLoop_id a) request"
    and before: "ln_rounds env = before @ round # later" "list_all (undisturbed options) before"
      "agent_walk st (map (hear options) before) (agent_start (AgentLoop_id a) request) = Some h"
    and asks: "asks_undisturbed round" "agent_asks st (hear options round) h = Some (Inr (mr, g))"
    and model: "cancels_stream options source (lr_model round) evs"
      "push_all parse ser (Assembler_new (mq_tools mr) (lo_limits options)) evs = Some (b, Ok prog)"
      "validate_request (driver_of options (ag_config g)) mr = Ok ()"
  obtains s' where "run_loop parse ser enc env request s
     = (Done (agent_report (AgentLoop_id a) (LO_Cancelled (source_reason source))
          (g\<lparr>ag_revision := (case ag_candidate g of Some c \<Rightarrow> c | None \<Rightarrow> ag_revision g), ag_candidate := None,
             ag_requests := saturating_add (ag_requests g) 1\<rparr>)), s')"
proof -
  note s = started_runner [OF start tools]
  define g' where "g' = g\<lparr>ag_revision := (case ag_candidate g of Some c \<Rightarrow> c | None \<Rightarrow> ag_revision g), ag_candidate := None,
             ag_requests := saturating_add (ag_requests g) 1\<rparr>"
  have st_simps: "st_parse st = parse" "st_ser st = ser" "st_enc st = enc" "st_options st = options" "st_id st = rn_id s"
    using s(4) by (simp_all add: st setting_of_def)
  have st': "st = setting_of parse ser enc options (rn_id s) request" using s(4) by (simp add: st)
  have typed: "list_all typed_round (ln_rounds env)" "list_all typed_op (ln_between env)" using env by (simp_all add: typed_loop_def)
  have limits: "options_ok (st_options st)" using s(1,2) by (simp add: start_ok_def st_simps)
  have f: "follows st (agent_start (rn_id s) request) (opened s request) (initial_locals request)"
    using started_follows [OF start tools, of parse enc] by (simp add: st')
  have "yields (run_turns parse ser enc (before @ round # later) (initial_locals request))
      (\<lambda>r t. halted st source g' (fst r) (snd r) t) (opened s request)"
    using cancelled_turns_halt [OF f limits, of before h round mr g source evs b prog later] before(2,3) asks model s(4)
    by (simp add: st_simps g'_def)
  then obtain path l t where turns: "run_turns parse ser enc (ln_rounds env) (initial_locals request) (opened s request) = (Done (path, l), t)"
    "halted st source g' path l t"
    by (auto simp: yields_def before(1))
  have inv: "loop_inv t l"
    using wp_Done [OF run_turns_wp [OF opened_inv [OF s(1)] typed(1)] turns(1)] by (simp add: turns_post_def)
  have t: "path = FP_Cancelled" "rn_id t = rn_id s" "wh_appended (rn_working t) = ag_history g'" "ll_tool_rounds l = ag_rounds g'"
    "ll_requests l = ag_requests g'" "ll_usage l = ag_usage g'" "applied_revision (rn_control t) = ag_revision g'"
    "lc_state (rn_control t) = cancel_target source"
    using turns(2) by (simp_all add: halted_def marked_by_def follows_defs st_simps)
  have "lc_state (fold (act ser) (ln_between env) (rn_control t)) = cancel_target source"
    by (rule marked.acts_stable [OF t(8)]) simp
  then have sealed: "sealed_outcome (fold (act ser) (ln_between env) (rn_control t)) intended = LO_Cancelled (source_reason source)"
    for intended using states_distinct by (simp add: sealed_outcome_def cancel_reason_def)
  obtain intended report s' where fin: "finish_loop ser (ln_between env) path l t = (Done report, s')"
    "report = agent_report (rn_id s) (LO_Cancelled (source_reason source)) g'"
    by (rule finish_loop_run [OF inv typed(2), of path ser]) (auto simp: sealed agent_report_def t)
  have "run_loop parse ser enc env request s = (Done report, s')"
    by (simp add: run_loop_def run_loop_inner_opened bind_run_def turns(1) fin(1))
  with that fin(2) s(4) show thesis by (simp add: g'_def)
qed

subsection \<open>Properties\<close>

text \<open>
  C16: a loop that is cancelled, shut down or dropped while its model streams ends.  Whatever turns
  came before and whatever the model has streamed, the driver gives up at the poll that sees the
  token and the run returns: cancelled for that reason, with the history and counts it had when it
  asked the model, the request it asked counted, and nothing of the unfinished answer appended.
\<close>
theorem cancelled_while_streaming:
  assumes "AgentLoop_start ser runtime now fills consumer request options = Some (Ok (a, s))"
    and "tool_set_ok (ec_tools (lq_config request))" "typed_loop env"
    and "st = setting_of parse ser enc options (AgentLoop_id a) request"
    and "ln_rounds env = before @ round # later" "list_all (undisturbed options) before"
    and "agent_walk st (map (hear options) before) (agent_start (AgentLoop_id a) request) = Some h"
    and "asks_undisturbed round" "agent_asks st (hear options round) h = Some (Inr (mr, g))"
    and "cancels_stream options source (lr_model round) evs"
    and "push_all parse ser (Assembler_new (mq_tools mr) (lo_limits options)) evs = Some (asm, Ok streamed_so_far)"
    and "validate_request (driver_of options (ag_config g)) mr = Ok ()"
  shows "\<exists>report s'. run_loop parse ser enc env request s = (Done report, s')
     \<and> rep_outcome report = LO_Cancelled (source_reason source) \<and> rep_appended report = ag_history g
     \<and> rep_requests report = saturating_add (ag_requests g) 1 \<and> rep_tool_rounds report = ag_rounds g"
  by (rule cancelled_run [OF assms]) (auto simp: agent_report_def)

text \<open>A stream that is held open after one delta, until the user cancels.\<close>

definition held_model :: "'x list \<Rightarrow> 'x live_model" where
  "held_model ops =
     \<lparr>lm_ops = [], lm_now_turn = 0, lm_now_deadline = 0, lm_now_check = 0,
      lm_attempts = [\<lparr>la_ops = [], la_now = 0, la_start_panics = False,
        la_start = [\<lparr>lp_ops = [], lp_elapsed = False, lp_ready = Some (Completed (Ok ()))\<rparr>],
        la_stream = [(\<lparr>lp_ops = [], lp_elapsed = False, lp_ready = Some (Completed (Some (Ok (EV_TextDelta (BoundedText [0x61])))))\<rparr>, Sent),
          (\<lparr>lp_ops = [], lp_elapsed = False, lp_ready = None\<rparr>, Sent), (\<lparr>lp_ops = ops, lp_elapsed = False, lp_ready = None\<rparr>, Sent)],
        la_now_retry = 0, la_now_wait = 0, la_wait = []\<rparr>],
      lm_forwarded = [], lm_ops_after = []\<rparr>"

definition held_round :: "(unit, unit, unit, unit) others live_round" where
  "held_round = sample_round\<lparr>lr_model := held_model [X_Cancel CS_User, X_Token]\<rparr>"

lemma held_round_ok:
  "typed_loop \<lparr>ln_rounds = [held_round], ln_between = [], ln_panic = []\<rparr>" "asks_undisturbed held_round"
  "cancels_stream sample_options CS_User (lr_model held_round) [EV_TextDelta (BoundedText [0x61])]"
proof -
  show "typed_loop \<lparr>ln_rounds = [held_round], ln_between = [], ln_panic = []\<rparr>"
    by (simp add: typed_loop_def held_round_def sample_round_def typed_round_def typed_call_def one_poll_def typed_model_def
        held_model_def attempt_acts_def typed_op_def)
  show "asks_undisturbed held_round"
    by (simp add: asks_undisturbed_def held_round_def sample_round_def one_poll_def call_ops_def poll_ops_def)
  have "cancelling CS_User [X_Cancel CS_User, X_Token]"
    unfolding cancelling_def by (rule exI [of _ "[]"], rule exI [of _ "[]"], rule exI [of _ "[]"]) simp
  then show "cancels_stream sample_options CS_User (lr_model held_round) [EV_TextDelta (BoundedText [0x61])]"
    unfolding cancels_stream_def held_round_def held_model_def
    by (simp add: sample_options_def turn_deadline_def within_def INSTANT_LIMIT_def)
      (rule exI [of _ "[(\<lparr>lp_ops = [], lp_elapsed = False, lp_ready = Some (Completed (Some (Ok (EV_TextDelta (BoundedText [0x61])))))\<rparr>, Sent),
         (\<lparr>lp_ops = [], lp_elapsed = False, lp_ready = None\<rparr>, Sent)]"], simp add: poll_ops_def)
qed

theorem cancelled_while_streaming_witness:
  "\<exists>a s report s'. AgentLoop_start (\<lambda>_. ([], True)) True 0 [Some (replicate 16 1)] [] sample_loop_request sample_options
      = Some (Ok (a, s))
     \<and> run_loop (\<lambda>_. None) (\<lambda>_. ([], True)) (\<lambda>_. []) \<lparr>ln_rounds = [held_round], ln_between = [], ln_panic = []\<rparr>
         sample_loop_request s = (Done report, s')
     \<and> rep_outcome report = LO_Cancelled CR_User \<and> rep_requests report = 1 \<and> length (rep_appended report) = 1"
proof -
  obtain a s where start: "AgentLoop_start (\<lambda>_. ([], True)) True 0 [Some (replicate 16 1)] [] sample_loop_request sample_options
      = Some (Ok (a, s))" by (rule sample_agent)
  let ?st = "setting_of (\<lambda>_. None) (\<lambda>_. ([], True)) (\<lambda>_. []) sample_options (AgentLoop_id a) sample_loop_request"
  let ?g = "agent_start (AgentLoop_id a) sample_loop_request"
  have heard: "re_ops (hear sample_options held_round) = []" "re_on_time (hear sample_options held_round)"
    "re_inputs (hear sample_options held_round) = Completed []" "re_prompt_ops (hear sample_options held_round) = []"
    "re_prompt (hear sample_options held_round) = Some (\<lambda>_. Ok [MM_User (lit ''hi'')])"
    "re_late_inputs (hear sample_options held_round) = Completed []"
    by (simp_all add: hear_def held_round_def sample_round_def sample_options_def one_poll_def call_ops_def poll_ops_def
        call_value_def within_def turn_deadline_def INSTANT_LIMIT_def)
  have asks: "agent_asks ?st (hear sample_options held_round) ?g = Some (Inr (sample_request, ?g))"
    by (simp add: agent_asks_def heard agent_boundary_def append_items_def steering_def agent_start_def sample_loop_request_def
        sample_build overhear_def Let_def)
  have push: "\<exists>asm ps. push_all (\<lambda>_. None) (\<lambda>_. ([], True)) (Assembler_new (mq_tools sample_request) (lo_limits sample_options))
      [EV_TextDelta (BoundedText [0x61])] = Some (asm, Ok ps)"
    by (simp add: push_def ModelEvent_validate_def event_text_def push_text_def normalized_delta_eq
        bt_byte_len_def bt_is_empty_def utf8_len_def MAX_TEXT_BYTES_def MAX_MODEL_EVENT_TEXT_BYTES_def sample_options_def
        append_bounded_def USIZE_MAX_def LoopLimits_default_def Assembler_new_def Let_def clean_char_def text_defs)
  then obtain asm ps where push: "push_all (\<lambda>_. None) (\<lambda>_. ([], True))
      (Assembler_new (mq_tools sample_request) (lo_limits sample_options)) [EV_TextDelta (BoundedText [0x61])] = Some (asm, Ok ps)"
    by blast
  have valid: "validate_request (driver_of sample_options (ag_config ?g)) sample_request = Ok ()"
    by (simp add: validate_request_def driver_of_def ModelDriver_from_validated_def sample_config_def sample_request_def
        supports_reasoning_def ModelLimits_default_def agent_start_def sample_loop_request_def)
  from cancelled_while_streaming [OF start sample_tools_ok held_round_ok(1) refl _ _ _ held_round_ok(2) asks held_round_ok(3) push valid,
      of "[]" "[]"] start
  show ?thesis
    by (fastforce simp: source_reason_def agent_start_def saturating_add_def)
qed

end
