(* ===== verification/Live_Model.thy ===== *)
theory Live_Model
  imports Reference_Loop
begin

text \<open>
  Models that are programs.  The script of a run holds what the polls of a model's stream give; a
  model that is a function of what it is asked makes this part of the script depend on the run.
  \<open>model_plays\<close> says so of the runner itself: it follows the run, and in every turn that gets as far
  as a request it compares the stream of the script with the answer to the request the runner built,
  for the configuration the runner built it for.  The lemmas carry this over to the reference loop.
\<close>

subsection \<open>A model as a function\<close>

text \<open>
  The events of a stream that runs to its end, for a configuration, a request and the index of the
  request; \<open>None\<close> is a panic of the model.
\<close>

type_synonym ('m, 't, 'p, 'q) model_fun =
  "('m, 't, 'p, 'q) ExecutionConfig \<Rightarrow> ModelRequest \<Rightarrow> u32 \<Rightarrow> ModelEvent list option"

fun model_plays ::
  "('m, 't, 'p, 'q) model_fun \<Rightarrow> (rstr \<Rightarrow> json option) \<Rightarrow> json serializer \<Rightarrow> (json \<Rightarrow> rstr) \<Rightarrow>
     ('m, 't, 'p, 'q) others live_round list \<Rightarrow> ('m, 't, 'p, 'q) LoopLocals \<Rightarrow> ('m, 't, 'p, 'q) runner \<Rightarrow> bool" where
  "model_plays M parse ser enc [] l s = True"
| "model_plays M parse ser enc (env # envs) l s \<longleftrightarrow>
     (case turn_request ser env l s of
        (Done (Inr (snapshot, request, l')), _) \<Rightarrow>
          re_events (hear (rn_options s) env) = M snapshot request (ll_request_index l')
      | _ \<Rightarrow> True)
     \<and> (case loop_turn parse ser enc env l s of
          (Done (Again l'), s') \<Rightarrow> model_plays M parse ser enc envs l' s'
        | _ \<Rightarrow> True)"

text \<open>A run from its start.\<close>

definition model_answers ::
  "('m, 't, 'p, 'q) model_fun \<Rightarrow> (rstr \<Rightarrow> json option) \<Rightarrow> json serializer \<Rightarrow> (json \<Rightarrow> rstr) \<Rightarrow>
     ('m, 't, 'p, 'q) others live_loop \<Rightarrow> ('m, 't, 'p, 'q) LoopRequest \<Rightarrow> ('m, 't, 'p, 'q) runner \<Rightarrow> bool" where
  "model_answers M parse ser enc env request s \<longleftrightarrow>
     model_plays M parse ser enc (ln_rounds env) (initial_locals request) (opened s request)"

subsection \<open>Lemmas: the same of the reference loop\<close>

fun agent_plays ::
  "('m, 't, 'p, 'q) model_fun \<Rightarrow> setting \<Rightarrow> ('m, 't, 'p, 'q) reply list \<Rightarrow> ('m, 't, 'p, 'q) agent \<Rightarrow> bool" where
  "agent_plays M st [] g = True"
| "agent_plays M st (r # rs) g \<longleftrightarrow>
     (case agent_asks st r g of
        Some (Inr (request, asking)) \<Rightarrow> re_events r = M (ag_config asking) request (ag_index asking)
      | _ \<Rightarrow> True)
     \<and> (case agent_turn st r g of Some (Again g') \<Rightarrow> agent_plays M st rs g' | _ \<Rightarrow> True)"

lemma request_seen:
  assumes "follows st g s l" "undisturbed (st_options st) env" "agent_asks st (hear (st_options st) env) g = Some x"
  obtains asked t where "turn_request (st_ser st) env l s = (Done asked, t)" "turn_asked st x asked t"
  using turn_request_follows [OF assms(1) _ _ _ assms(3)] assms(2) by (auto simp: undisturbed_def yields_def)

lemma turn_seen:
  assumes "follows st g s l" "options_ok (st_options st)" "undisturbed (st_options st) env"
    and "agent_turn st (hear (st_options st) env) g = Some out"
  obtains r t where "loop_turn (st_parse st) (st_ser st) (st_enc st) env l s = (Done r, t)" "turn_follows st out r t"
  using loop_turn_follows [OF assms] by (auto simp: yields_def)

text \<open>What is asked, and whether the model's part of the script fits, is the same on both sides.\<close>

lemma asked_alike:
  assumes "follows st g s l" "undisturbed (st_options st) env" "agent_asks st (hear (st_options st) env) g = Some x"
  shows "(case turn_request (st_ser st) env l s of
        (Done (Inr (snapshot, request, l')), _) \<Rightarrow>
          re_events (hear (rn_options s) env) = M snapshot request (ll_request_index l')
      | _ \<Rightarrow> True)
     \<longleftrightarrow> (case x of
        Inr (request, asking) \<Rightarrow> re_events (hear (st_options st) env) = M (ag_config asking) request (ag_index asking)
      | _ \<Rightarrow> True)"
proof -
  obtain asked t where asked: "turn_request (st_ser st) env l s = (Done asked, t)" "turn_asked st x asked t"
    by (rule request_seen [OF assms])
  have opts: "rn_options s = st_options st" by (rule follows_options(1) [OF assms(1)])
  show ?thesis
  proof (cases x)
    case (Inr p)
    obtain request asking where p: "p = (request, asking)" by fastforce
    with asked(2) Inr obtain l' where l': "asked = Inr (ag_config asking, request, l')" "follows st asking t l'"
      by (cases asked) (auto simp: turn_asked_def)
    have "ll_request_index l' = ag_index asking" using l'(2) by (simp add: follows_def)
    then show ?thesis by (simp add: asked(1) l'(1) Inr p opts)
  qed (use asked in \<open>auto simp: turn_asked_def split: sum.splits\<close>)
qed

lemma model_plays_iff:
  assumes "follows st g s l" "options_ok (st_options st)" "list_all (undisturbed (st_options st)) envs"
    and "agent_run st (map (hear (st_options st)) envs) g \<noteq> None"
  shows "model_plays M (st_parse st) (st_ser st) (st_enc st) envs l s
     \<longleftrightarrow> agent_plays M st (map (hear (st_options st)) envs) g"
  using assms
proof (induction envs arbitrary: g s l)
  case (Cons env envs)
  have env: "undisturbed (st_options st) env" "list_all (undisturbed (st_options st)) envs" using Cons.prems(3) by simp_all
  obtain out where out: "agent_turn st (hear (st_options st) env) g = Some out" using Cons.prems(4) by (auto split: option.splits)
  obtain x where x: "agent_asks st (hear (st_options st) env) g = Some x" using out by (auto simp: agent_turn_def split: option.splits)
  obtain r t where turn: "loop_turn (st_parse st) (st_ser st) (st_enc st) env l s = (Done r, t)" "turn_follows st out r t"
    by (rule turn_seen [OF Cons.prems(1,2) env(1) out])
  have rest: "(case (Done r, t) of (Done (Again l'), s') \<Rightarrow> model_plays M (st_parse st) (st_ser st) (st_enc st) envs l' s' | _ \<Rightarrow> True)
     \<longleftrightarrow> (case out of Again g' \<Rightarrow> agent_plays M st (map (hear (st_options st)) envs) g' | _ \<Rightarrow> True)"
    using turn(2) Cons.IH [OF _ Cons.prems(2) env(2)] Cons.prems(4) out
    by (auto simp: turn_follows_def split: turn.splits)
  show ?case
    using asked_alike [OF Cons.prems(1) env(1) x, of M] rest by (simp add: turn(1) out x)
qed simp

text \<open>A model that answers the runner answers the reference loop, as far as the reference loop goes.\<close>

lemma model_plays_agent:
  assumes "model_plays M (st_parse st) (st_ser st) (st_enc st) envs l s"
    and "follows st g s l" "options_ok (st_options st)" "list_all (undisturbed (st_options st)) envs"
  shows "agent_plays M st (map (hear (st_options st)) envs) g"
  using assms
proof (induction envs arbitrary: g s l)
  case (Cons env envs)
  have env: "undisturbed (st_options st) env" "list_all (undisturbed (st_options st)) envs" using Cons.prems(4) by simp_all
  have first: "case agent_asks st (hear (st_options st) env) g of
        Some (Inr (request, asking)) \<Rightarrow> re_events (hear (st_options st) env) = M (ag_config asking) request (ag_index asking)
      | _ \<Rightarrow> True"
    using asked_alike [OF Cons.prems(2) env(1), of _ M] Cons.prems(1) by (auto split: option.split sum.split)
  have rest: "agent_plays M st (map (hear (st_options st)) envs) g'"
    if out: "agent_turn st (hear (st_options st) env) g = Some (Again g')" for g'
  proof -
    obtain r t where turn: "loop_turn (st_parse st) (st_ser st) (st_enc st) env l s = (Done r, t)" "turn_follows st (Again g') r t"
      by (rule turn_seen [OF Cons.prems(2,3) env(1) out])
    then obtain l' where l': "r = Again l'" "follows st g' t l'" by (cases r) (simp_all add: turn_follows_def)
    with Cons.prems(1) turn(1) have "model_plays M (st_parse st) (st_ser st) (st_enc st) envs l' t" by simp
    then show ?thesis by (rule Cons.IH [OF _ l'(2) Cons.prems(3) env(2)])
  qed
  show ?case using first rest by (auto split: option.split turn.split)
qed simp

text \<open>The start of a run.\<close>

lemma answers_from_start:
  assumes "AgentLoop_start ser runtime now fills consumer request options = Some (Ok (a, s))"
    and "tool_set_ok (ec_tools (lq_config request))" "st = setting_of parse ser enc options (AgentLoop_id a) request"
  shows "follows st (agent_start (AgentLoop_id a) request) (opened s request) (initial_locals request)"
    "options_ok (st_options st)" "st_options st = options"
    "model_answers M parse ser enc env request s
       = model_plays M (st_parse st) (st_ser st) (st_enc st) (ln_rounds env) (initial_locals request) (opened s request)"
proof -
  note s = started_runner [OF assms(1,2)]
  have st: "st = setting_of parse ser enc options (rn_id s) request" using assms(3) s(4) by simp
  show "follows st (agent_start (AgentLoop_id a) request) (opened s request) (initial_locals request)"
    unfolding st s(4) by (rule started_follows [OF assms(1,2)])
  show "options_ok (st_options st)" using s(1,2) by (simp add: start_ok_def st setting_of_def)
  show "st_options st = options" by (simp add: st setting_of_def)
  show "model_answers M parse ser enc env request s
       = model_plays M (st_parse st) (st_ser st) (st_enc st) (ln_rounds env) (initial_locals request) (opened s request)"
    by (simp add: model_answers_def st setting_of_def)
qed

end
