(* ===== verification/Example_Base.thy ===== *)
theory Example_Base
  imports Live_Model Prompt_Transcript
begin

text \<open>
  What the hosts under \<^verbatim>\<open>examples/\<close> share: the default options, the default prompt as a reply of the
  prompt port, and the script of a host that answers at the first poll.
\<close>

subsection \<open>Options and prompt\<close>

definition default_options :: LoopOptions where
  "default_options = \<lparr>lo_deadline = None, lo_max_tool_rounds = 0, lo_event_capacity = 256,
                  lo_prompt_timeout = 30 * SECOND, lo_model_timeout = 10 * 60 * SECOND,
                  lo_policy_timeout = 30 * SECOND, lo_tool_timeout = 30 * 60 * SECOND,
                  lo_model_retry_attempts = 2, lo_model_retry_base_delay = 100 * 1000000,
                  lo_limits = LoopLimits_default\<rparr>"

definition prompt_of :: "BoundedText option \<Rightarrow> instant \<Rightarrow> instant \<Rightarrow> prompt_reply" where
  "prompt_of system deadline now view =
     (case DefaultPromptProvider_prepare system False deadline now view of Some r \<Rightarrow> r | None \<Rightarrow> Err PE_InvalidHistory)"

subsection \<open>A host that answers at once\<close>

definition poll_at_once :: "'a \<Rightarrow> ('x, 'a) live_poll" where
  "poll_at_once a = \<lparr>lp_ops = [], lp_elapsed = False, lp_ready = Some (Completed a)\<rparr>"

definition answer_at_once :: "'a \<Rightarrow> ('x, 'a) live_call" where
  "answer_at_once a = \<lparr>lv_ops = [], lv_now_turn = 0, lv_now_deadline = 0, lv_now_check = 0, lv_construct_panics = False,
     lv_polls = [poll_at_once a]\<rparr>"

text \<open>The acts \<open>ops\<close> of other threads fall between the start of the stream and its first event.\<close>

definition stream_at_once :: "'x list \<Rightarrow> ModelEvent list \<Rightarrow> 'x live_model" where
  "stream_at_once ops events =
     \<lparr>lm_ops = [], lm_now_turn = 0, lm_now_deadline = 0, lm_now_check = 0,
      lm_attempts = [\<lparr>la_ops = [], la_now = 0, la_start_panics = False, la_start = [poll_at_once (Ok ())],
        la_stream = (\<lparr>lp_ops = ops, lp_elapsed = False, lp_ready = None\<rparr>, Sent)
          # map (\<lambda>r. (poll_at_once r, Sent)) (map (\<lambda>e. Some (Ok e)) events @ [None]),
        la_now_retry = 0, la_now_wait = 0, la_wait = [poll_at_once ()]\<rparr>],
      lm_forwarded = [], lm_ops_after = []\<rparr>"

definition tool_at_once :: "(ToolExecutionOutcome, ToolError) result \<Rightarrow> 'x live_tool" where
  "tool_at_once outcome =
     \<lparr>lt_ops = [], lt_policy = answer_at_once (Ok TD_Allow), lt_approval = \<lparr>lw_random = [], lw_polls = []\<rparr>,
      lt_tool = answer_at_once outcome, lt_progress = [], lt_dropped = 0, lt_drained = [],
      lt_input = \<lparr>lw_random = [], lw_polls = []\<rparr>\<rparr>"

definition round_at_once ::
  "UserInput list \<Rightarrow> prompt_reply \<Rightarrow> 'x list \<Rightarrow> ModelEvent list \<Rightarrow> (ToolExecutionOutcome, ToolError) result list \<Rightarrow> 'x live_round" where
  "round_at_once inputs prompt ops events outcomes =
     \<lparr>lr_ops = [], lr_now = 0, lr_inputs = Completed inputs, lr_prompt = answer_at_once prompt, lr_ops_stale = [],
      lr_inputs_stale = Completed [], lr_model = stream_at_once ops events, lr_tools = map tool_at_once outcomes\<rparr>"

subsection \<open>Lemmas\<close>

lemma options_default: "LoopOptions_default_checked now = Ok default_options" "options_ok default_options"
proof -
  show "options_ok default_options"
    using limits_default_ok by (simp add: options_ok_def default_options_def)
  then have "LoopOptions_validate now default_options = Ok ()" for now
    by (simp add: options_validate_Ok) (simp add: default_options_def)
  then show "LoopOptions_default_checked now = Ok default_options"
    by (simp add: LoopOptions_default_checked_def default_options_def)
qed

lemma idle_boundary: "fst (ag_offers g) = None \<Longrightarrow> agent_boundary st [] g = (False, g)"
  by (cases g; cases "ag_offers g") (simp add: agent_boundary_def append_items_def steering_def)

lemma quiet_overhear: "overhear st [] g = g"
  by (simp add: overhear_def)

lemma started_id:
  "AgentLoop_start ser runtime now fills consumer request options = Some (Ok (a, s)) \<Longrightarrow>
     LoopId_new fills = Some (Ok (AgentLoop_id a)) \<and> al_join a \<and> al_events a"
  by (auto simp: AgentLoop_start_def Let_def AgentLoop_id_def LoopControl_new_def and_then_eq_Ok spawn_def
      split: if_splits result.splits option.splits)

lemma poll_at_once_simps [simp]:
  "lp_ops (poll_at_once a) = []" "lp_elapsed (poll_at_once a) = False" "lp_ready (poll_at_once a) = Some (Completed a)"
  by (simp_all add: poll_at_once_def)

lemma at_once_simps [simp]:
  "poll_ops [poll_at_once a] = []" "call_ops (answer_at_once a) = []" "delivered [poll_at_once a] = Some a"
  "0 < timeout \<Longrightarrow> timeout < INSTANT_LIMIT \<Longrightarrow> call_value default_options timeout (answer_at_once a) = Some a"
  by (simp_all add: poll_ops_def poll_at_once_def call_ops_def answer_at_once_def call_value_def default_options_def
      turn_deadline_def instant_checked_add_def LOOP_HORIZON_def INSTANT_LIMIT_def within_def)

lemma streamed_at_once:
  "streamed (map (fst \<circ> (\<lambda>r. (poll_at_once r, Sent))) (map (\<lambda>e. Some (Ok e)) events @ [None])) = (events, Stream_Ended)"
  by (induction events) (simp_all add: poll_at_once_def)

lemma poll_ops_at_once: "poll_ops (map fst (map (\<lambda>r. (poll_at_once r, Sent)) rs)) = []"
  by (induction rs) (simp_all add: poll_ops_def poll_at_once_def)

lemma stream_at_once_simps:
  "model_ops (stream_at_once ops events) = ops"
  "first_events (model_attempts default_options (stream_at_once ops events)) = Some events"
  using poll_ops_at_once [of "map (\<lambda>e. Some (Ok e)) events @ [None]"]
  by (simp_all add: stream_at_once_def model_ops_def attempt_ops_def model_attempts_def hear_attempt_def first_events_def default_options_def poll_ops_def
      turn_deadline_def instant_checked_add_def LOOP_HORIZON_def INSTANT_LIMIT_def within_def streamed_at_once del: map_append)

text \<open>A tool that may run, answers at once and asks nobody.\<close>

definition quick_reply :: "(ToolExecutionOutcome, ToolError) result \<Rightarrow> ('m, 't, 'p, 'q) tool_reply" where
  "quick_reply outcome = \<lparr>tr_ops = [], tr_policy_ops = [], tr_decision = Some (Ok TD_Allow), tr_approval = (\<lambda>_. None),
     tr_tool_ops = [], tr_outcome = Some outcome, tr_input = (\<lambda>_. None)\<rparr>"

lemma quick_reply_simps [simp]:
  "tr_ops (quick_reply outcome) = []" "tr_tool_ops (quick_reply outcome) = []" "tr_outcome (quick_reply outcome) = Some outcome"
  by (simp_all add: quick_reply_def)

lemma tool_at_once_simps [simp]:
  "hear_tool default_options (tool_at_once outcome) = quick_reply outcome"
  "undisturbed_tool default_options (tool_at_once outcome)" "typed_tool (tool_at_once outcome)"
proof -
  have opts: "lo_policy_timeout default_options = 30 * SECOND" "lo_tool_timeout default_options = 30 * 60 * SECOND"
    by (simp_all add: default_options_def)
  show "hear_tool default_options (tool_at_once outcome) = quick_reply outcome"
    by (simp add: hear_tool_def quick_reply_def tool_at_once_def opts INSTANT_LIMIT_def hear_wait_def InteractionId_new_def fun_eq_iff)
  show "undisturbed_tool default_options (tool_at_once outcome)" "typed_tool (tool_at_once outcome)"
    by (simp_all add: undisturbed_tool_def tool_env_ops_def tool_at_once_def calm_tool_def answer_at_once_def default_options_def
        turn_deadline_def instant_checked_add_def LOOP_HORIZON_def INSTANT_LIMIT_def call_ops_def poll_ops_def wait_ops_def
        typed_tool_def typed_call_def typed_wait_def)
qed

text \<open>A turn in which every port answers at once and nobody acts before the model is asked.\<close>

definition plain_reply ::
  "UserInput list \<Rightarrow> prompt_reply \<Rightarrow> ('m, 't, 'p, 'q) others list \<Rightarrow>
     ('m, 't, 'p, 'q) tool_reply list \<Rightarrow> ('m, 't, 'p, 'q) reply \<Rightarrow> bool" where
  "plain_reply inputs prompt ops tools r \<longleftrightarrow> re_ops r = [] \<and> re_on_time r \<and> re_inputs r = Completed inputs
     \<and> re_prompt_ops r = [] \<and> re_prompt r = Some prompt \<and> re_late_inputs r = Completed [] \<and> re_model_ops r = ops
     \<and> re_tools r = tools"

lemma hear_at_once:
  "plain_reply inputs prompt ops (map quick_reply outcomes)
     (hear default_options (round_at_once inputs prompt ops events outcomes))"
  "re_events (hear default_options (round_at_once inputs prompt ops events outcomes)) = Some events"
proof -
  have opts: "lo_deadline default_options = None" "lo_prompt_timeout default_options = 30 * SECOND"
    by (simp_all add: default_options_def)
  show "plain_reply inputs prompt ops (map quick_reply outcomes)
     (hear default_options (round_at_once inputs prompt ops events outcomes))"
    "re_events (hear default_options (round_at_once inputs prompt ops events outcomes)) = Some events"
    by (simp_all add: plain_reply_def hear_def re_events_def round_at_once_def stream_at_once_simps opts comp_def INSTANT_LIMIT_def)
qed

lemmas heard_at_once = hear_at_once [unfolded plain_reply_def]

lemma mild_typed: "list_all mild ops \<Longrightarrow> list_all typed_op ops"
  by (simp add: list_all_iff mild_def)

lemma undisturbed_at_once:
  assumes "list_all mild ops"
  shows "undisturbed default_options (round_at_once inputs prompt ops events outcomes)"
    "typed_round (round_at_once inputs prompt ops events outcomes)"
proof -
  show "undisturbed default_options (round_at_once inputs prompt ops events outcomes)"
    using assms by (simp add: undisturbed_def round_at_once_def stream_at_once_simps list_all_iff)
  show "typed_round (round_at_once inputs prompt ops events outcomes)"
    using mild_typed [OF assms]
    by (simp add: round_at_once_def typed_round_def typed_call_def answer_at_once_def typed_model_def attempt_acts_def
        stream_at_once_def list_all_iff comp_def)
qed

definition loop_at_once :: "'x live_round list \<Rightarrow> 'x live_loop" where
  "loop_at_once rounds = \<lparr>ln_rounds = rounds, ln_between = [], ln_panic = []\<rparr>"

lemma undisturbed_loop_at_once:
  "list_all (undisturbed default_options) rounds \<Longrightarrow> list_all typed_round rounds \<Longrightarrow>
     undisturbed_loop default_options (loop_at_once rounds)"
  by (simp add: undisturbed_loop_def loop_at_once_def typed_loop_def)

end
