(* ===== verification/Memory_Agent.thy ===== *)
theory Memory_Agent
  imports Example_Base "HOL-Library.Sublist"
begin

text \<open>
  The host of \<^verbatim>\<open>examples/memory_agent.rs\<close>: a conversation of any length, one loop per turn, where the
  host keeps the history and hands it to the next loop.

  The host's own code is modelled from the source.  Its model keeps an atomic counter, which is an
  argument here.  What is left to the script of a turn is time: polls and clock readings, as long as
  the host's ports answer in time with what its code says; the model answers the request the runner
  built (\<open>echo_plays\<close>).
\<close>

subsection \<open>Host code\<close>

definition NoInputs_take :: "UserInput list" where "NoInputs_take = []"

record EchoModel =
  em_descriptor :: ModelDescriptor

definition EchoModel_descriptor :: "EchoModel \<Rightarrow> ModelDescriptor" where
  "EchoModel_descriptor m = em_descriptor m"

text \<open>\<open>find_map\<close> from the back, with the empty text as default.\<close>

definition last_user_text :: "ModelMessage list \<Rightarrow> rstr" where
  "last_user_text messages =
     (case List.map_filter (\<lambda>m. case m of MM_User t \<Rightarrow> Some t | _ \<Rightarrow> None) (rev messages) of
        [] \<Rightarrow> [] | t # _ \<Rightarrow> t)"

definition echo_text :: "u64 \<Rightarrow> rstr \<Rightarrow> rstr" where
  "echo_text turn text = lit ''[turn '' @ nat_digits (unat turn) @ lit ''] you said: '' @ text"

text \<open>The counter after the call and the events; \<open>None\<close> is the panic of \<open>unwrap\<close>.\<close>

definition EchoModel_start :: "u64 \<Rightarrow> ModelRequest \<Rightarrow> u64 \<times> ModelEvent list option" where
  "EchoModel_start turn request =
     (turn + 1,
      case ModelEvent_text_delta (echo_text turn (last_user_text (mq_messages request))) of
        Ok delta \<Rightarrow> Some [delta, EV_Finish FR_Stop]
      | Err _ \<Rightarrow> None)"

definition echo_descriptor :: "ModelDescriptor option" where
  "echo_descriptor =
     (case ModelRef_from_str (lit ''fake/echo'') of
        Err _ \<Rightarrow> None
      | Ok mref \<Rightarrow> (case ModelDescriptor_new mref 8192 {RP_Auto} False of Ok d \<Rightarrow> Some d | Err _ \<Rightarrow> None))"

text \<open>The prompt provider of the configuration is \<open>DefaultPromptProvider\<close> with its system text.\<close>

type_synonym echo_config = "(EchoModel, unit, unit, BoundedText option) ExecutionConfig"

definition main_config :: "(echo_config, ExecutionConfigError) result option" where
  "main_config =
     map_option (\<lambda>d. ExecutionConfig_new (\<lambda>m. Completed (EchoModel_descriptor m)) \<lparr>em_descriptor = d\<rparr> RP_Auto
       \<lparr>ts_specs = [], ts_entries = []\<rparr> None None) echo_descriptor"

record MemoryAgent =
  ma_history :: "HistoryItem list"
  ma_config :: echo_config

definition MemoryAgent_new :: "echo_config \<Rightarrow> MemoryAgent" where
  "MemoryAgent_new config = \<lparr>ma_history = [], ma_config = config\<rparr>"

text \<open>The first part of the first assistant message that has one, if it is a text.\<close>

definition report_reply :: "LoopReport \<Rightarrow> rstr" where
  "report_reply report =
     (case List.map_filter (\<lambda>item. case item of
             HI_Assistant a \<Rightarrow> (case ah_content a of [] \<Rightarrow> None | part # _ \<Rightarrow> Some part)
           | _ \<Rightarrow> None) (rep_appended report) of
        AP_Text t # _ \<Rightarrow> t
      | _ \<Rightarrow> [])"

datatype ChatError = Chat_Input UserInputError | Chat_Start LoopStartError | Chat_Join LoopJoinError

text \<open>What the outside contributes to one turn.\<close>

record chat_env =
  ce_runtime :: bool
  ce_now_options :: instant
  ce_now_start :: instant
  ce_fills :: "u8 list option list"
  ce_consumer :: "consumer_op list list"
  ce_loop :: "(EchoModel, unit, unit, BoundedText option) others live_loop"

definition chat_request :: "MemoryAgent \<Rightarrow> UserInput \<Rightarrow> (EchoModel, unit, unit, BoundedText option) LoopRequest" where
  "chat_request agent input = \<lparr>lq_history = ma_history agent, lq_input = input, lq_config = ma_config agent\<rparr>"

definition MemoryAgent_chat ::
  "(rstr \<Rightarrow> json option) \<Rightarrow> json serializer \<Rightarrow> (json \<Rightarrow> rstr) \<Rightarrow> chat_env \<Rightarrow> MemoryAgent \<Rightarrow> rstr \<Rightarrow>
     (rstr, ChatError) result async \<times> MemoryAgent" where
  "MemoryAgent_chat parse ser enc e agent input =
     (case UserInput_text input of
        Err error \<Rightarrow> (Done (Err (Chat_Input error)), agent)
      | Ok text_in \<Rightarrow>
        (case LoopOptions_default_checked (ce_now_options e) of
           Err error \<Rightarrow> (Done (Err (Chat_Start error)), agent)
         | Ok options \<Rightarrow>
           (case AgentLoop_start ser (ce_runtime e) (ce_now_start e) (ce_fills e) (ce_consumer e)
                   (chat_request agent text_in) options of
              None \<Rightarrow> (Aborted, agent)
            | Some (Err error) \<Rightarrow> (Done (Err (Chat_Start error)), agent)
            | Some (Ok (a, s)) \<Rightarrow>
              (case run_loop parse ser enc (ce_loop e) (chat_request agent text_in) s of
                 (Done report, s') \<Rightarrow>
                   (case snd (AgentLoop_join a (rn_control s', Some report)) of
                      Err error \<Rightarrow> (Done (Err (Chat_Join error)), agent)
                    | Ok joined \<Rightarrow>
                        (Done (Ok (report_reply joined)), agent\<lparr>ma_history := ma_history agent @ rep_appended joined\<rparr>))
               | (Pending, _) \<Rightarrow> (Pending, agent)
               | (Aborted, _) \<Rightarrow> (Aborted, agent)))))"

text \<open>The loop of \<open>main\<close> over its questions; \<open>Aborted\<close> is a failed assertion.\<close>

fun chat_turns ::
  "(rstr \<Rightarrow> json option) \<Rightarrow> json serializer \<Rightarrow> (json \<Rightarrow> rstr) \<Rightarrow> (chat_env \<times> rstr) list \<Rightarrow> MemoryAgent \<Rightarrow>
     (rstr list, ChatError) result async \<times> MemoryAgent" where
  "chat_turns parse ser enc [] agent = (Done (Ok []), agent)"
| "chat_turns parse ser enc ((e, question) # rest) agent =
     (case MemoryAgent_chat parse ser enc e agent question of
        (Done (Ok reply), agent') \<Rightarrow>
          if sublist question reply then
            (case chat_turns parse ser enc rest agent' of
               (Done (Ok replies), agent'') \<Rightarrow> (Done (Ok (reply # replies)), agent'')
             | other \<Rightarrow> other)
          else (Aborted, agent')
      | (Done (Err error), agent') \<Rightarrow> (Done (Err error), agent')
      | (Pending, agent') \<Rightarrow> (Pending, agent')
      | (Aborted, agent') \<Rightarrow> (Aborted, agent'))"

subsection \<open>What the script of a turn has to say\<close>

text \<open>
  The model as a function.  Its counter counts the calls of \<open>start\<close>: \<open>turn\<close> before the loop, and one
  for each request of the loop before.
\<close>

definition echo_model :: "u64 \<Rightarrow> (EchoModel, unit, unit, BoundedText option) model_fun" where
  "echo_model turn config request request_index = snd (EchoModel_start (turn + ucast request_index) request)"

text \<open>
  The host's ports answer in time, whatever the polls are: no inputs, the default prompt for the view
  it is given, and the model for the request and the configuration the runner of this turn asks it with.
\<close>

definition echo_plays ::
  "(rstr \<Rightarrow> json option) \<Rightarrow> json serializer \<Rightarrow> (json \<Rightarrow> rstr) \<Rightarrow> u64 \<Rightarrow> MemoryAgent \<Rightarrow> rstr \<Rightarrow> chat_env \<Rightarrow> bool" where
  "echo_plays parse ser enc turn agent question e \<longleftrightarrow>
     ce_runtime e \<and> undisturbed_loop default_options (ce_loop e)
     \<and> (\<exists>ident text_in round rounds deadline now.
          LoopId_new (ce_fills e) = Some (Ok ident) \<and> UserInput_text question = Ok text_in
          \<and> ln_rounds (ce_loop e) = round # rounds \<and> now < deadline
          \<and> plain_reply NoInputs_take (prompt_of (ec_prompt (ma_config agent)) deadline now) [] [] (hear default_options round)
          \<and> (\<forall>a s. AgentLoop_start ser True (ce_now_start e) (ce_fills e) (ce_consumer e) (chat_request agent text_in) default_options
                 = Some (Ok (a, s))
               \<longrightarrow> model_answers (echo_model turn) parse ser enc (ce_loop e) (chat_request agent text_in) s))"

text \<open>Turn after turn, with the counter and the history the turns before have left.\<close>

fun echo_hosts ::
  "(rstr \<Rightarrow> json option) \<Rightarrow> json serializer \<Rightarrow> (json \<Rightarrow> rstr) \<Rightarrow> u64 \<Rightarrow> MemoryAgent \<Rightarrow> (chat_env \<times> rstr) list \<Rightarrow> bool" where
  "echo_hosts parse ser enc turn agent [] = True"
| "echo_hosts parse ser enc turn agent ((e, question) # rest) \<longleftrightarrow>
     echo_plays parse ser enc turn agent question e
     \<and> echo_hosts parse ser enc (turn + 1) (snd (MemoryAgent_chat parse ser enc e agent question)) rest"


subsection \<open>Lemmas\<close>

definition question_ok :: "rstr \<Rightarrow> bool" where
  "question_ok q \<longleftrightarrow> q \<noteq> [] \<and> list_all allowed_char q \<and> str_len q \<le> 65000"

text \<open>The configuration is that of \<open>main\<close>, and the history projects to an exchange.\<close>

definition chat_ready :: "MemoryAgent \<Rightarrow> bool" where
  "chat_ready agent \<longleftrightarrow> main_config = Some (Ok (ma_config agent))
     \<and> (\<exists>ms. project_items (ma_history agent) [] = Some (Ok ms) \<and> exchange ms)"

lemma main_config_Ok:
  "main_config = Some (Ok \<lparr>ec_model = \<lparr>em_descriptor = \<lparr>md_model_ref = ModelRef (lit ''fake/echo''), md_context_window = 8192,
       md_supported_reasoning = {RP_Auto}, md_supports_tools = False\<rparr>\<rparr>,
     ec_descriptor = \<lparr>md_model_ref = ModelRef (lit ''fake/echo''), md_context_window = 8192,
       md_supported_reasoning = {RP_Auto}, md_supports_tools = False\<rparr>,
     ec_reasoning = RP_Auto, ec_tools = \<lparr>ts_specs = [], ts_entries = []\<rparr>, ec_policy = None, ec_prompt = None\<rparr>)"
  by (simp add: main_config_def echo_descriptor_def ModelRef_from_str_def ModelDescriptor_new_def ModelDescriptor_validate_def
      ExecutionConfig_new_def EchoModel_descriptor_def supports_reasoning_def Let_def lit_def utf8_len_def str_bytes_def
      utf8_char_def text_defs)

lemma nat_digits_length: "0 < k \<Longrightarrow> n < 10 ^ k \<Longrightarrow> length (nat_digits n) \<le> k"
proof (induction n arbitrary: k rule: nat_digits.induct)
  case (1 n)
  show ?case
  proof (cases "n < 10")
    case True
    then show ?thesis using "1.prems"(1) by (subst nat_digits.simps) simp
  next
    case False
    obtain j where j: "k = Suc j" using "1.prems"(1) by (cases k) auto
    with False "1.prems"(2) have "0 < j" by (cases j) auto
    note j = j this
    have "length (nat_digits (n div 10)) \<le> j"
      by (rule "1.IH" [OF False j(2)]) (use "1.prems"(2) j(1) in \<open>simp add: less_mult_imp_div_less mult.commute\<close>)
    then show ?thesis using False j(1) by (subst nat_digits.simps) simp
  qed
qed

lemma digits_fit: "str_len (nat_digits (unat (turn :: u64))) \<le> 20" "list_all allowed_char (nat_digits n)"
proof -
  have ascii: "str_len t = length t" if "\<And>c. c \<in> set t \<Longrightarrow> c < 0x80" for t
    using that by (induction t) (auto simp: utf8_len_def)
  have "unat turn < 2 ^ 64" using unsigned_less [of turn] by simp
  then have "unat turn < 10 ^ 20" by simp
  then have "length (nat_digits (unat turn)) \<le> 20" by (intro nat_digits_length) simp_all
  moreover have "str_len (nat_digits (unat turn)) = length (nat_digits (unat turn))"
    by (rule ascii) (use nat_digits_ascii in fastforce)
  ultimately show "str_len (nat_digits (unat turn)) \<le> 20" by simp
  show "list_all allowed_char (nat_digits n)"
    using nat_digits_ascii [of _ n] by (force simp: list_all_iff text_defs)
qed

lemma echo_text_ok:
  assumes "question_ok q"
  shows "list_all allowed_char (echo_text turn q)" "echo_text turn q \<noteq> []" "str_len (echo_text turn q) \<le> MAX_MODEL_EVENT_TEXT_BYTES"
    "str_len (echo_text turn q) \<le> max_model_text_bytes LoopLimits_default" "sublist q (echo_text turn q)"
proof -
  have len: "str_len (echo_text turn q) \<le> 65000 + 20 + 30"
    using assms digits_fit(1) [of turn] by (simp add: echo_text_def question_ok_def lit_def utf8_len_def)
  then show "str_len (echo_text turn q) \<le> MAX_MODEL_EVENT_TEXT_BYTES"
    "str_len (echo_text turn q) \<le> max_model_text_bytes LoopLimits_default"
    by (simp_all add: MAX_MODEL_EVENT_TEXT_BYTES_def LoopLimits_default_def MAX_TEXT_BYTES_def)
  show "list_all allowed_char (echo_text turn q)"
    using assms digits_fit(2) by (simp add: echo_text_def question_ok_def lit_def text_defs)
  show "echo_text turn q \<noteq> []" by (simp add: echo_text_def lit_def)
  show "sublist q (echo_text turn q)"
    unfolding echo_text_def sublist_def by (metis append.assoc append_Nil2)
qed

lemma input_of_question:
  assumes "question_ok q"
  shows "UserInput_text q = Ok (UI_Text (BoundedText q))" "valid_text q MAX_MODEL_MESSAGE_TEXT_BYTES False"
  using assms
  by (auto simp: question_ok_def UserInput_text_def BoundedText_new_def BoundedText_new_with_max_bytes_def MAX_TEXT_BYTES_def
      bt_is_empty_def valid_text_def MAX_MODEL_MESSAGE_TEXT_BYTES_def)

lemma last_user_text_snoc: "last_user_text (ms @ [MM_User t]) = t"
  by (simp add: last_user_text_def List.map_filter_def)

lemma ready_config:
  assumes "chat_ready agent"
  shows "ec_prompt (ma_config agent) = None" "ts_specs (ec_tools (ma_config agent)) = []" "tool_set_ok (ec_tools (ma_config agent))"
    "ec_reasoning (ma_config agent) = RP_Auto" "supports_reasoning (ec_descriptor (ma_config agent)) RP_Auto"
proof -
  from assms have "main_config = Some (Ok (ma_config agent))" by (simp add: chat_ready_def)
  note config = this [unfolded main_config_Ok option.inject result.inject, symmetric]
  show "ec_prompt (ma_config agent) = None" "ts_specs (ec_tools (ma_config agent)) = []" "tool_set_ok (ec_tools (ma_config agent))"
    "ec_reasoning (ma_config agent) = RP_Auto" "supports_reasoning (ec_descriptor (ma_config agent)) RP_Auto"
    unfolding config by (simp_all add: supports_reasoning_def tool_set_ok_def)
qed

text \<open>The two items a turn adds.\<close>

definition turn_items :: "LoopId \<Rightarrow> MemoryAgent \<Rightarrow> u64 \<Rightarrow> rstr \<Rightarrow> HistoryItem list" where
  "turn_items ident agent turn q =
     [HI_User \<lparr>uh_loop_id = ident, uh_kind = UK_Prompt, uh_input = UI_Text (BoundedText q)\<rparr>,
      HI_Assistant \<lparr>ah_loop_id = ident, ah_request_index = 0, ah_model = md_model_ref (ec_descriptor (ma_config agent)),
        ah_reasoning = ec_reasoning (ma_config agent), ah_content = [AP_Text (echo_text turn q)], ah_provider_replay = None,
        ah_finish_reason = FR_Stop, ah_usage = Usage_default\<rparr>]"

lemma turn_items_exchange:
  assumes "question_ok q"
  shows "\<exists>ms. project_items (turn_items ident agent turn q) [] = Some (Ok ms) \<and> exchange ms"
proof -
  let ?a = "\<lparr>ah_loop_id = ident, ah_request_index = 0, ah_model = md_model_ref (ec_descriptor (ma_config agent)),
        ah_reasoning = ec_reasoning (ma_config agent), ah_content = [AP_Text (echo_text turn q)], ah_provider_replay = None,
        ah_finish_reason = FR_Stop, ah_usage = Usage_default\<rparr>"
  have "assistant_ok ?a"
    using echo_text_ok [OF assms, of turn]
    by (simp add: assistant_ok_def validate_tool_call_order_def AssistantPart_validate_def valid_text_def as_tool_call_def
        MAX_MODEL_MESSAGE_TEXT_BYTES_def MAX_MODEL_EVENT_TEXT_BYTES_def)
  then have "transcript ident 0 (([] @ [hd (turn_items ident agent turn q)]) @ HI_Assistant ?a # map HI_ToolResult [])"
    unfolding turn_items_def list.sel
    by (intro transcript.turn transcript.input transcript.empty) simp_all
  then have "transcript ident 0 (turn_items ident agent turn q)" by (simp add: turn_items_def)
  moreover have "list_all input_ok (turn_items ident agent turn q)"
    using input_of_question(2) [OF assms] by (simp add: turn_items_def input_ok_def UserInput_as_text_def)
  ultimately show ?thesis using transcript_exchange by blast
qed

text \<open>What the loop asks the model, and what the model answers.\<close>

lemma echo_request:
  assumes ready: "chat_ready agent" and q: "question_ok q" and "now < deadline"
    and hear: "plain_reply NoInputs_take (prompt_of (ec_prompt (ma_config agent)) deadline now) [] [] r"
    and st: "st = setting_of parse ser enc default_options ident (chat_request agent (UI_Text (BoundedText q)))"
    and g0: "g0 = agent_start ident (chat_request agent (UI_Text (BoundedText q)))"
  obtains mr where
    "agent_asks st r g0 = Some (Inr (mr, g0))" "mq_tools mr = []"
    "validate_request (driver_of default_options (ma_config agent)) mr = Ok ()"
    "echo_model turn (ag_config g0) mr (ag_index g0) = Some [EV_TextDelta (BoundedText (echo_text turn q)), EV_Finish FR_Stop]"
proof -
  let ?config = "ma_config agent" and ?request = "chat_request agent (UI_Text (BoundedText q))"
  let ?view = "\<lparr>hv_base = ma_history agent, hv_appended = [first_input ident ?request]\<rparr>"
  note config = ready_config [OF ready]
  obtain ms where ms: "project_items (ma_history agent) [] = Some (Ok ms)" "exchange ms"
    using ready by (auto simp: chat_ready_def)
  have first: "project_items [first_input ident ?request] [] = Some (Ok [MM_User q])"
    by (simp add: first_input_def chat_request_def project_item_def UserInput_as_text_def)
  have prompt: "prompt_of (ec_prompt ?config) deadline now ?view = Ok (ms @ [MM_User q])"
    using project_append [OF ms(1) first, of "[]"] assms(3)
    by (simp add: prompt_of_def DefaultPromptProvider_prepare_def HistoryView_iter_def config(1))
  have "exchange [MM_User q]"
    using input_of_question(2) [OF q]
    by (intro exchange.plain exchange.empty) (simp_all add: message_parts_def tool_result_id_def ModelMessage_validate_def)
  then have ex: "exchange (ms @ [MM_User q])" using ms(2) by (intro exchange_append)
  define mr where "mr = \<lparr>mq_messages = ms @ [MM_User q], mq_tools = [], mq_limits = ModelLimits_default, mq_reasoning = RP_Auto\<rparr>"
  have mr: "build_model_request (ms @ [MM_User q]) ?config = Ok mr"
    using ex by (simp add: build_model_request_def ModelRequest_with_validated_tools_def and_then_eq_Ok validate_tool_exchange_Ok
        config mr_def)
  have start: "fst (ag_offers g0) = None" "ag_config g0 = ?config" "ag_history g0 = [first_input ident ?request]" "ag_index g0 = 0"
    "st_base st = ma_history agent"
    by (simp_all add: g0 st agent_start_def setting_of_def chat_request_def)
  have asks: "agent_asks st r g0 = Some (Inr (mr, g0))"
    using hear start
    by (simp add: plain_reply_def agent_asks_def NoInputs_take_def quiet_overhear idle_boundary prompt mr Let_def)
  have events: "echo_model turn (ag_config g0) mr (ag_index g0) = Some [EV_TextDelta (BoundedText (echo_text turn q)), EV_Finish FR_Stop]"
    using echo_text_ok(3) [OF q, of turn]
    by (simp add: echo_model_def start EchoModel_start_def mr_def last_user_text_snoc ModelEvent_text_delta_def
        checked_event_text_def BoundedText_new_with_max_bytes_def MAX_MODEL_EVENT_TEXT_BYTES_def MAX_TEXT_BYTES_def)
  have valid: "validate_request (driver_of default_options ?config) mr = Ok ()"
    using config by (simp add: validate_request_def driver_of_def ModelDriver_from_validated_def mr_def ModelLimits_default_def)
  show thesis by (rule that [OF asks _ valid events]) (simp add: mr_def)
qed

lemma echo_reference:
  assumes ready: "chat_ready agent" and q: "question_ok q" and "now < deadline"
    and hear: "plain_reply NoInputs_take (prompt_of (ec_prompt (ma_config agent)) deadline now) [] [] r"
    and events: "re_events r = Some [EV_TextDelta (BoundedText (echo_text turn q)), EV_Finish FR_Stop]"
  shows "\<exists>g. reference_loop parse ser enc default_options ident (chat_request agent (UI_Text (BoundedText q))) (r # replies)
       = Some (FP_Completed, g) \<and> ag_history g = turn_items ident agent turn q"
proof -
  let ?request = "chat_request agent (UI_Text (BoundedText q))"
  let ?response = "\<lparr>mr_parts = [AP_Text (echo_text turn q)], mr_finish_reason = FR_Stop, mr_usage = Some Usage_default,
          mr_provider_replay = None\<rparr>"
  define st where "st = setting_of parse ser enc default_options ident ?request"
  define g0 where "g0 = agent_start ident ?request"
  obtain mr where mr: "agent_asks st r g0 = Some (Inr (mr, g0))" "mq_tools mr = []"
    "validate_request (driver_of default_options (ma_config agent)) mr = Ok ()"
    by (rule echo_request [OF ready q assms(3) hear st_def g0_def])
  have respond: "respond parse ser [] LoopLimits_default [EV_TextDelta (BoundedText (echo_text turn q)), EV_Finish FR_Stop] = Some ?response"
    by (rule respond_text) (use echo_text_ok [OF q, of turn] in simp_all)
  have limits: "lo_limits default_options = LoopLimits_default" by (simp add: default_options_def)
  have st: "st_parse st = parse" "st_ser st = ser" "st_options st = default_options" "st_id st = ident"
    by (simp_all add: st_def setting_of_def)
  have g0: "ag_config g0 = ma_config agent" "ag_history g0 = [first_input ident ?request]" "ag_candidate g0 = None"
    "ag_usage g0 = UsageAccumulator_default" "ag_index g0 = 0"
    by (simp_all add: g0_def agent_start_def chat_request_def)
  define g1 where "g1 = g0\<lparr>ag_candidate := None, ag_requests := saturating_add (ag_requests g0) 1\<rparr>"
  have g1: "ag_usage g1 = UsageAccumulator_default" "ag_history g1 = [first_input ident ?request]" "ag_config g1 = ma_config agent"
    "ag_index g1 = 0" by (simp_all add: g1_def g0)
  have request: "agent_request st mr r g0 = agent_respond st ?response [] g1"
    by (subst respond_request [where response = ?response])
      (use mr(3) respond hear in \<open>simp_all add: plain_reply_def events g0 st limits g1_def mr(2) overhear_def\<close>)
  have "agent_turn st r g0 = Some (Stop FP_Completed (append_items [spoken st ?response Usage_default g1] g1))"
    by (simp add: agent_turn_def mr(1) request respond_plain g1)
  moreover have "ag_history (append_items [spoken st ?response Usage_default g1] g1) = turn_items ident agent turn q"
    by (simp add: append_items_def spoken_def g1 st turn_items_def first_input_def chat_request_def)
  ultimately show ?thesis by (simp add: reference_loop_def st_def g0_def)
qed

text \<open>The start of a turn's loop.\<close>

lemma chat_starts:
  assumes ready: "chat_ready agent" and q: "question_ok q" and fills: "LoopId_new fills = Some (Ok ident)"
  obtains a s where "AgentLoop_start ser True now fills consumer (chat_request agent (UI_Text (BoundedText q))) default_options
      = Some (Ok (a, s))" "AgentLoop_id a = ident" "al_join a"
proof -
  let ?request = "chat_request agent (UI_Text (BoundedText q))"
  have "str_len q \<le> max_user_input_bytes (lo_limits default_options)" "UserInput_as_text (lq_input ?request) = q" "q \<noteq> []"
    using q by (simp_all add: question_ok_def default_options_def LoopLimits_default_def MAX_TEXT_BYTES_def chat_request_def
        UserInput_as_text_def)
  moreover have "validate_against_limits ser (lq_config ?request) (lo_limits default_options) = Some (Ok ())"
    by (simp add: validate_against_limits_def chat_request_def ready_config [OF ready])
  moreover have "lo_deadline default_options = None" by (simp add: default_options_def)
  ultimately have "\<exists>a s. AgentLoop_start ser True now fills consumer ?request default_options = Some (Ok (a, s))"
    using fills options_default(2) by (intro start_accepts [THEN iffD2]) simp
  then obtain a s where start: "AgentLoop_start ser True now fills consumer ?request default_options = Some (Ok (a, s))" by blast
  then show thesis using started_id [OF start] fills by (intro that [OF start]) simp_all
qed

text \<open>What the runner asks is what the reference loop asks, so its model echoes the question.\<close>

lemma echo_answers:
  assumes ready: "chat_ready agent" and q: "question_ok q" and now: "now < deadline"
    and hear: "plain_reply NoInputs_take (prompt_of (ec_prompt (ma_config agent)) deadline now) [] [] (hear default_options round)"
    and start: "AgentLoop_start ser True now_start fills consumer (chat_request agent (UI_Text (BoundedText q))) default_options
      = Some (Ok (a, s))"
    and env: "undisturbed_loop default_options env" "ln_rounds env = round # rounds"
  shows "model_answers (echo_model turn) parse ser enc env (chat_request agent (UI_Text (BoundedText q))) s
     \<Longrightarrow> re_events (hear default_options round) = Some [EV_TextDelta (BoundedText (echo_text turn q)), EV_Finish FR_Stop]"
    and "rounds = [] \<Longrightarrow> re_events (hear default_options round) = Some [EV_TextDelta (BoundedText (echo_text turn q)), EV_Finish FR_Stop]
     \<Longrightarrow> model_answers (echo_model turn) parse ser enc env (chat_request agent (UI_Text (BoundedText q))) s"
proof -
  let ?request = "chat_request agent (UI_Text (BoundedText q))"
  define st where "st = setting_of parse ser enc default_options (AgentLoop_id a) ?request"
  define g0 where "g0 = agent_start (AgentLoop_id a) ?request"
  have tools: "tool_set_ok (ec_tools (lq_config ?request))" by (simp add: chat_request_def ready_config [OF ready])
  note answers = answers_from_start [OF start tools st_def]
  obtain mr where mr: "agent_asks st (hear default_options round) g0 = Some (Inr (mr, g0))"
    "echo_model turn (ag_config g0) mr (ag_index g0) = Some [EV_TextDelta (BoundedText (echo_text turn q)), EV_Finish FR_Stop]"
    by (rule echo_request [OF ready q now hear st_def g0_def, of turn])
  have calm: "undisturbed (st_options st) round" using env by (simp add: undisturbed_loop_def answers(3))
  show "re_events (hear default_options round) = Some [EV_TextDelta (BoundedText (echo_text turn q)), EV_Finish FR_Stop]"
    if "model_answers (echo_model turn) parse ser enc env ?request s"
    using asked_alike [OF answers(1) calm, of _ "echo_model turn"] mr that [unfolded answers(4) env(2)]
    by (simp add: answers(3) g0_def)
  show "model_answers (echo_model turn) parse ser enc env ?request s"
    if "rounds = []" "re_events (hear default_options round) = Some [EV_TextDelta (BoundedText (echo_text turn q)), EV_Finish FR_Stop]"
    unfolding answers(4) env(2) that(1)
    using asked_alike [OF answers(1) calm, of _ "echo_model turn"] mr that(2)
    by (auto simp: answers(3) g0_def split: async.split turn.split)
qed

text \<open>A turn: the reply echoes the question, and the history grows by two items and stays usable.\<close>

lemma chat_turn:
  assumes ready: "chat_ready agent" and q: "question_ok q" and plays: "echo_plays parse ser enc turn agent q e"
  obtains ident where
    "MemoryAgent_chat parse ser enc e agent q
       = (Done (Ok (echo_text turn q)), agent\<lparr>ma_history := ma_history agent @ turn_items ident agent turn q\<rparr>)"
    "chat_ready (agent\<lparr>ma_history := ma_history agent @ turn_items ident agent turn q\<rparr>)"
proof -
  note text_in = input_of_question(1) [OF q]
  let ?request = "chat_request agent (UI_Text (BoundedText q))"
  obtain ident round rounds deadline now where e: "ce_runtime e" "undisturbed_loop default_options (ce_loop e)"
    "LoopId_new (ce_fills e) = Some (Ok ident)" "ln_rounds (ce_loop e) = round # rounds" "now < deadline"
    "plain_reply NoInputs_take (prompt_of (ec_prompt (ma_config agent)) deadline now) [] [] (hear default_options round)"
    "\<And>a s. AgentLoop_start ser True (ce_now_start e) (ce_fills e) (ce_consumer e) ?request default_options = Some (Ok (a, s))
       \<Longrightarrow> model_answers (echo_model turn) parse ser enc (ce_loop e) ?request s"
    using plays text_in by (auto simp: echo_plays_def)
  obtain a s where start: "AgentLoop_start ser True (ce_now_start e) (ce_fills e) (ce_consumer e) ?request default_options
      = Some (Ok (a, s))" and id_eq: "AgentLoop_id a = ident" "al_join a" by (rule chat_starts [OF ready q e(3)])
  have events: "re_events (hear default_options round) = Some [EV_TextDelta (BoundedText (echo_text turn q)), EV_Finish FR_Stop]"
    by (rule echo_answers(1) [OF ready q e(5,6) start e(2,4) e(7) [OF start]])
  obtain g where g: "reference_loop parse ser enc default_options ident ?request (map (hear default_options) (ln_rounds (ce_loop e)))
      = Some (FP_Completed, g)" "ag_history g = turn_items ident agent turn q"
    using echo_reference [OF ready q e(5,6) events, of parse ser enc ident "map (hear default_options) rounds"] by (auto simp: e(4))
  have tools: "tool_set_ok (ec_tools (lq_config ?request))" by (simp add: chat_request_def ready_config [OF ready])
  obtain outcome s' where run: "run_loop parse ser enc (ce_loop e) ?request s = (Done (agent_report ident outcome g), s')"
    by (rule runner_reference [OF start tools e(2) g(1) [folded id_eq(1)]]) (simp add: id_eq)
  have reply: "report_reply (agent_report ident outcome g) = echo_text turn q"
    by (simp add: report_reply_def agent_report_def g(2) turn_items_def List.map_filter_def)
  have appended: "rep_appended (agent_report ident outcome g) = turn_items ident agent turn q"
    by (simp add: agent_report_def g(2))
  have "MemoryAgent_chat parse ser enc e agent q
       = (Done (Ok (echo_text turn q)), agent\<lparr>ma_history := ma_history agent @ turn_items ident agent turn q\<rparr>)"
    by (simp add: MemoryAgent_chat_def text_in options_default(1) e(1) start run AgentLoop_join_def await_task_def id_eq(2) ok_or_def
        reply appended)
  moreover have "chat_ready (agent\<lparr>ma_history := ma_history agent @ turn_items ident agent turn q\<rparr>)"
    using ready turn_items_exchange [OF q, of ident agent turn]
    by (fastforce simp: chat_ready_def intro: project_append exchange_append)
  ultimately show thesis by (rule that)
qed

lemma chat_turns_echo:
  assumes "chat_ready agent" "list_all (\<lambda>(e, q). question_ok q) turns" "echo_hosts parse ser enc turn agent turns"
  shows "\<exists>agent'. chat_turns parse ser enc turns agent
       = (Done (Ok (map2 (\<lambda>k q. echo_text (turn + of_nat k) q) [0..<length turns] (map snd turns))), agent')
     \<and> chat_ready agent' \<and> length (ma_history agent') = length (ma_history agent) + 2 * length turns"
  using assms
proof (induction turns arbitrary: turn agent)
  case (Cons t turns)
  obtain e q where t: "t = (e, q)" by fastforce
  with Cons.prems have q: "question_ok q" "echo_plays parse ser enc turn agent q e" by simp_all
  obtain ident where chat: "MemoryAgent_chat parse ser enc e agent q
       = (Done (Ok (echo_text turn q)), agent\<lparr>ma_history := ma_history agent @ turn_items ident agent turn q\<rparr>)"
    "chat_ready (agent\<lparr>ma_history := ma_history agent @ turn_items ident agent turn q\<rparr>)"
    by (rule chat_turn [OF Cons.prems(1) q])
  have shift: "map2 (\<lambda>k. echo_text (turn + 1 + of_nat k)) [0..<n] qs = map2 (\<lambda>k. echo_text (turn + of_nat k)) [Suc 0..<Suc n] qs"
    for n and qs :: "rstr list"
    unfolding map_Suc_upt [symmetric] zip_map1 by (auto simp: algebra_simps)
  have upt: "[0..<Suc n] = 0 # [Suc 0..<Suc n]" for n by (simp add: upt_conv_Cons del: upt_Suc)
  from Cons.IH [OF chat(2), of "turn + 1"] Cons.prems(2,3) chat(1) echo_text_ok(5) [OF q(1), of turn] show ?case
    by (auto simp: t shift turn_items_def upt simp del: upt_Suc)
qed simp

lemma echo_host_exists:
  assumes ready: "chat_ready agent" and q: "question_ok q"
  shows "\<exists>e. echo_plays parse ser enc turn agent q e"
proof -
  define ident where "ident = LoopId (replicate 16 1)"
  define round :: "(EchoModel, unit, unit, BoundedText option) others live_round" where
    "round = round_at_once [] (prompt_of (ec_prompt (ma_config agent)) 1 0) []
       [EV_TextDelta (BoundedText (echo_text turn q)), EV_Finish FR_Stop] []"
  have id_new: "LoopId_new [Some (replicate 16 1)] = Some (Ok ident)" by (simp add: LoopId_new_def list_ex_iff ident_def)
  have quiet: "undisturbed_loop default_options (loop_at_once [round])"
    by (rule undisturbed_loop_at_once) (simp_all add: round_def undisturbed_at_once)
  have rounds: "ln_rounds (loop_at_once [round]) = [round]" by (simp add: loop_at_once_def)
  have hear: "plain_reply NoInputs_take (prompt_of (ec_prompt (ma_config agent)) 1 0) [] [] (hear default_options round)"
    "re_events (hear default_options round) = Some [EV_TextDelta (BoundedText (echo_text turn q)), EV_Finish FR_Stop]"
    using hear_at_once(1) [of "[]" "prompt_of (ec_prompt (ma_config agent)) 1 0" "[]" "[]"]
    by (simp_all add: round_def NoInputs_take_def hear_at_once(2))
  have answers: "model_answers (echo_model turn) parse ser enc (loop_at_once [round]) (chat_request agent (UI_Text (BoundedText q))) s"
    if "AgentLoop_start ser True 0 [Some (replicate 16 1)] [] (chat_request agent (UI_Text (BoundedText q))) default_options
      = Some (Ok (a, s))" for a s
    by (rule echo_answers(2) [OF ready q _ hear(1) that quiet rounds refl hear(2)]) simp
  have "echo_plays parse ser enc turn agent q \<lparr>ce_runtime = True, ce_now_options = 0, ce_now_start = 0,
      ce_fills = [Some (replicate 16 1)], ce_consumer = [], ce_loop = loop_at_once [round]\<rparr>"
    unfolding echo_plays_def chat_env.simps
    using id_new quiet rounds hear(1) answers input_of_question(1) [OF q]
    by (intro conjI TrueI, simp) (rule exI [where x = ident], rule exI [where x = "UI_Text (BoundedText q)"], rule exI [where x = round],
       rule exI [where x = "[]"], rule exI [where x = 1], rule exI [where x = 0], simp)
  then show ?thesis by blast
qed

lemma echo_hosts_exist:
  "chat_ready agent \<Longrightarrow> list_all question_ok qs \<Longrightarrow> \<exists>turns. map snd turns = qs \<and> echo_hosts parse ser enc turn agent turns"
proof (induction qs arbitrary: turn agent)
  case (Cons q qs)
  then have q: "question_ok q" by simp
  obtain e where e: "echo_plays parse ser enc turn agent q e" using echo_host_exists [OF Cons.prems(1) q] by blast
  obtain ident where chat: "MemoryAgent_chat parse ser enc e agent q
       = (Done (Ok (echo_text turn q)), agent\<lparr>ma_history := ma_history agent @ turn_items ident agent turn q\<rparr>)"
    "chat_ready (agent\<lparr>ma_history := ma_history agent @ turn_items ident agent turn q\<rparr>)"
    by (rule chat_turn [OF Cons.prems(1) q e])
  from Cons.IH [OF chat(2), of "turn + 1"] Cons.prems(2) obtain turns where "map snd turns = qs"
    "echo_hosts parse ser enc (turn + 1) (agent\<lparr>ma_history := ma_history agent @ turn_items ident agent turn q\<rparr>) turns"
    by auto
  with e chat(1) show ?case by (intro exI [of _ "(e, q) # turns"]) simp
qed simp

lemma new_agent_ready: "main_config = Some (Ok config) \<Longrightarrow> chat_ready (MemoryAgent_new config)"
  by (simp add: chat_ready_def MemoryAgent_new_def exchange.empty)

subsection \<open>Properties\<close>

text \<open>
  C18: the memory agent works for any number of turns.  The questions are not empty, at most 65000
  bytes long and have no control characters (the code takes others too, and their turns may fail).
  As long as nobody cancels and the host's ports answer in time, where the model answers with its own
  code the request the runner really built, every turn ends, every reply is the echo of its question
  under the running turn number, so that the assertion of \<open>main\<close> holds, and after \<open>n\<close> turns the
  host's history has \<open>2 * n\<close> items and projects to an exchange the next loop accepts.
\<close>
theorem memory_agent_conversation:
  assumes "main_config = Some (Ok config)" "list_all (\<lambda>(e, q). question_ok q) turns"
    and "echo_hosts parse ser enc turn (MemoryAgent_new config) turns"
  shows "\<exists>agent ms. chat_turns parse ser enc turns (MemoryAgent_new config)
       = (Done (Ok (map2 (\<lambda>k q. echo_text (turn + of_nat k) q) [0..<length turns] (map snd turns))), agent)
     \<and> length (ma_history agent) = 2 * length turns
     \<and> project_items (ma_history agent) [] = Some (Ok ms) \<and> exchange ms"
  using chat_turns_echo [OF new_agent_ready [OF assms(1)] assms(2,3)]
  by (auto simp: chat_ready_def MemoryAgent_new_def)

theorem memory_agent_conversation_witness:
  "\<exists>config turns agent. main_config = Some (Ok config)
     \<and> chat_turns (\<lambda>_. None) (\<lambda>_. ([], True)) (\<lambda>_. []) turns (MemoryAgent_new config)
       = (Done (Ok [lit ''[turn 0] you said: hello'', lit ''[turn 1] you said: what is the time'',
            lit ''[turn 2] you said: goodbye'']), agent)
     \<and> length (ma_history agent) = 6"
proof -
  obtain config where config: "main_config = Some (Ok config)" using main_config_Ok by blast
  let ?qs = "[lit ''hello'', lit ''what is the time'', lit ''goodbye'']"
  have "list_all question_ok ?qs"
    by (simp add: question_ok_def lit_def utf8_len_def text_defs)
  with echo_hosts_exist [OF new_agent_ready [OF config]]
  have "\<exists>turns. map snd turns = ?qs \<and> echo_hosts (\<lambda>_. None) (\<lambda>_. ([], True)) (\<lambda>_. []) 0 (MemoryAgent_new config) turns"
    by blast
  then obtain turns where turns: "map snd turns = ?qs"
    "echo_hosts (\<lambda>_. None) (\<lambda>_. ([], True)) (\<lambda>_. []) 0 (MemoryAgent_new config) turns" by (elim exE conjE)
  then have ok: "list_all (\<lambda>(e, q). question_ok q) turns"
    using \<open>list_all question_ok ?qs\<close> list.pred_map [of question_ok snd turns] by (simp add: case_prod_beta' comp_def)
  have len: "length turns = 3" using turns(1) by (metis length_map length_Cons list.size(3) numeral_3_eq_3)
  have replies: "map2 (\<lambda>k q. echo_text (0 + of_nat k) q) [0..<3] ?qs = [lit ''[turn 0] you said: hello'',
      lit ''[turn 1] you said: what is the time'', lit ''[turn 2] you said: goodbye'']"
    by (simp add: upt_conv_Cons echo_text_def lit_def nat_digits.simps)
  show ?thesis
    using memory_agent_conversation [OF config ok turns(2)] config unfolding len turns(1) replies by auto
qed

end
