(* ===== verification/Agent_Loop_Demo.thy ===== *)
theory Agent_Loop_Demo
  imports Example_Base Cancelled_Loop "HOL-Library.Sublist"
begin

text \<open>
  The host of \<^verbatim>\<open>examples/agent_loop.rs\<close>: a text loop, a tool loop, and a loop whose configuration is
  replaced and whose user speaks up while the model works.

  The models, the tool and the input queue are modelled from the source.  In every turn of the run
  the model of the configuration the runner asks for answers (\<open>model_answers\<close> of \<open>Live_Model\<close>), so the
  script of a run says when things happen, not what the ports say.  What the host does with the event stream, and what it
  prints, is in \<open>Agent_Loop_Events\<close>.
\<close>

subsection \<open>Host code\<close>

definition HostInputs_push :: "rstr \<Rightarrow> UserInput list \<Rightarrow> UserInput list option" where
  "HostInputs_push text queue = (case UserInput_text text of Ok u \<Rightarrow> Some (queue @ [u]) | Err _ \<Rightarrow> None)"

definition HostInputs_take :: "UserInput list \<Rightarrow> UserInput list \<times> UserInput list" where
  "HostInputs_take queue = (queue, [])"

text \<open>\<open>unwrap\<close> and \<open>expect\<close> on a result.\<close>

fun unwrapped :: "('a, 'e) result \<Rightarrow> 'a option" where
  "unwrapped (Ok a) = Some a"
| "unwrapped (Err _) = None"

definition clock_arguments_text :: rstr where
  "clock_arguments_text = lit ''{\"question\":\"what time is it\"}''"

definition clock_call_events :: "ModelEvent list option" where
  "clock_call_events =
     (case (unwrapped (ToolCallId_new (lit ''call_clock_0001'')), unwrapped (ToolName_from_str (lit ''clock''))) of
        (Some call_id, Some name) \<Rightarrow>
          map_option (\<lambda>delta. [EV_ToolCallStart call_id name, delta, EV_ToolCallEnd call_id, EV_Finish FR_ToolCalls])
            (unwrapped (ModelEvent_tool_call_arguments_delta call_id clock_arguments_text))
      | _ \<Rightarrow> None)"

definition one_text :: "rstr \<Rightarrow> ModelEvent list option" where
  "one_text t = map_option (\<lambda>delta. [delta, EV_Finish FR_Stop]) (unwrapped (ModelEvent_text_delta t))"

datatype DemoModel =
    EchoModel (dm_descriptor: ModelDescriptor)
  | ToolModel (dm_descriptor: ModelDescriptor)
  | FirstModel (dm_descriptor: ModelDescriptor)
  | SecondModel (dm_descriptor: ModelDescriptor)

text \<open>
  What a model streams for a request.  \<open>FirstModel\<close> holds its first answer until it is released,
  which is a matter of time.
\<close>

fun DemoModel_start :: "DemoModel \<Rightarrow> u32 \<Rightarrow> ModelEvent list option" where
  "DemoModel_start (EchoModel _) request_index = one_text (lit ''Hello from the model'')"
| "DemoModel_start (ToolModel _) request_index =
     (if request_index = 0 then clock_call_events else one_text (lit ''It is 12:00''))"
| "DemoModel_start (FirstModel _) request_index =
     (if request_index = 0 then clock_call_events else one_text (lit ''first-again''))"
| "DemoModel_start (SecondModel _) request_index = one_text (lit ''after-update'')"

record ClockTool =
  ct_spec :: ToolSpec

definition ClockTool_execute :: "(ToolExecutionOutcome, ToolError) result option" where
  "ClockTool_execute = map_option (\<lambda>out. Ok (TX_Completed out)) (unwrapped (ToolOutput_new (lit ''12:00'')))"

definition fake_descriptor :: "rstr \<Rightarrow> bool \<Rightarrow> ModelDescriptor option" where
  "fake_descriptor model_name supports_tools =
     (case unwrapped (ModelRef_from_str (lit ''fake/'' @ model_name)) of
        None \<Rightarrow> None
      | Some mref \<Rightarrow> unwrapped (ModelDescriptor_new mref 8192 {RP_Auto} supports_tools))"

text \<open>The fields of an object come in key order.\<close>

definition clock_schema :: json where
  "clock_schema = JObject [(lit ''properties'', JObject [(lit ''question'', JObject [(lit ''type'', JString (lit ''string''))])]),
     (lit ''type'', JString (lit ''object''))]"

definition clock_toolset :: "json serializer \<Rightarrow> ClockTool ToolSet option" where
  "clock_toolset ser =
     (case unwrapped (ToolName_from_str (lit ''clock'')) of
        None \<Rightarrow> None
      | Some name \<Rightarrow>
          (case unwrapped (ToolSpec_new ser name (lit ''Reads the current time'') clock_schema) of
             None \<Rightarrow> None
           | Some spec \<Rightarrow> unwrapped (ToolSetBuilder_build
               (ToolSetBuilder_register (\<lambda>t. Completed (ct_spec t)) ToolSetBuilder_default \<lparr>ct_spec = spec\<rparr>))))"

definition ToolSet_default :: "ClockTool ToolSet" where
  "ToolSet_default = \<lparr>ts_specs = [], ts_entries = []\<rparr>"

type_synonym demo_config = "(DemoModel, ClockTool, unit, BoundedText option) ExecutionConfig"
type_synonym demo_request = "(DemoModel, ClockTool, unit, BoundedText option) LoopRequest"
type_synonym demo_others = "(DemoModel, ClockTool, unit, BoundedText option) others"

definition host_config :: "DemoModel \<Rightarrow> ClockTool ToolSet \<Rightarrow> (demo_config, ExecutionConfigError) result" where
  "host_config model tools = ExecutionConfig_new (\<lambda>m. Completed (dm_descriptor m)) model RP_Auto tools None None"

definition start_request :: "DemoModel \<Rightarrow> ClockTool ToolSet \<Rightarrow> demo_request option" where
  "start_request model tools =
     (case (unwrapped (UserInput_text (lit ''hello'')), unwrapped (host_config model tools)) of
        (Some text_in, Some cfg) \<Rightarrow> Some \<lparr>lq_history = [], lq_input = text_in, lq_config = cfg\<rparr>
      | _ \<Rightarrow> None)"

text \<open>What the outside contributes to one run.\<close>

record demo_env =
  de_runtime :: bool
  de_now_options :: instant
  de_now_start :: instant
  de_fills :: "u8 list option list"
  de_consumer :: "consumer_op list list"
  de_loop :: "demo_others live_loop"

text \<open>\<open>None\<close> is the panic of an \<open>unwrap\<close>.\<close>

definition start_demo ::
  "json serializer \<Rightarrow> demo_env \<Rightarrow> demo_request \<Rightarrow>
     ((DemoModel, ClockTool, unit, BoundedText option) AgentLoop
      \<times> (DemoModel, ClockTool, unit, BoundedText option) runner, LoopStartError) result option" where
  "start_demo ser e request =
     (case unwrapped (LoopOptions_default_checked (de_now_options e)) of
        None \<Rightarrow> None
      | Some options \<Rightarrow>
          AgentLoop_start ser (de_runtime e) (de_now_start e) (de_fills e) (de_consumer e) request options)"

text \<open>
  \<open>start\<close>, \<open>take_events\<close>, \<open>join\<close>, each with its \<open>unwrap\<close>; \<open>Aborted\<close> is a panic of the host.  The host
  keeps the stream, so besides the report it ends up with what the stream gave it while the loop ran,
  and then with what is left in the queue.
\<close>

definition all_received :: "LoopEventSink \<Rightarrow> LoopEventEnvelope list" where
  "all_received sk = sk_received sk @ ch_queue (sk_sender sk)"

definition host_run ::
  "(rstr \<Rightarrow> json option) \<Rightarrow> json serializer \<Rightarrow> (json \<Rightarrow> rstr) \<Rightarrow> demo_env \<Rightarrow> DemoModel option \<Rightarrow> ClockTool ToolSet option \<Rightarrow>
     (LoopReport \<times> LoopEventEnvelope list) async" where
  "host_run parse ser enc e model tools =
     (case (model, tools) of
        (Some m, Some ts) \<Rightarrow>
          (case start_request m ts of
             None \<Rightarrow> Aborted
           | Some request \<Rightarrow>
               (case start_demo ser e request of
                  Some (Ok (a, s)) \<Rightarrow>
                    (case AgentLoop_take_events a of
                       (_, Err _) \<Rightarrow> Aborted
                     | (a', Ok _) \<Rightarrow>
                         (case run_loop parse ser enc (de_loop e) request s of
                            (Done report, s') \<Rightarrow>
                              (case snd (AgentLoop_join a' (rn_control s', Some report)) of
                                 Ok joined \<Rightarrow> Done (joined, all_received (rn_sink s'))
                               | Err _ \<Rightarrow> Aborted)
                          | (Pending, _) \<Rightarrow> Pending
                          | (Aborted, _) \<Rightarrow> Aborted))
                | _ \<Rightarrow> Aborted))
      | _ \<Rightarrow> Aborted)"

definition host_drive ::
  "(rstr \<Rightarrow> json option) \<Rightarrow> json serializer \<Rightarrow> (json \<Rightarrow> rstr) \<Rightarrow> demo_env \<Rightarrow> DemoModel option \<Rightarrow> ClockTool ToolSet option \<Rightarrow>
     LoopReport async" where
  "host_drive parse ser enc e model tools =
     (case host_run parse ser enc e model tools of
        Done (report, _) \<Rightarrow> Done report
      | Pending \<Rightarrow> Pending
      | Aborted \<Rightarrow> Aborted)"

definition simple_text_loop ::
  "(rstr \<Rightarrow> json option) \<Rightarrow> json serializer \<Rightarrow> (json \<Rightarrow> rstr) \<Rightarrow> demo_env \<Rightarrow> LoopReport async" where
  "simple_text_loop parse ser enc e =
     host_drive parse ser enc e (map_option EchoModel (fake_descriptor (lit ''echo'') False)) (Some ToolSet_default)"

definition tool_loop ::
  "(rstr \<Rightarrow> json option) \<Rightarrow> json serializer \<Rightarrow> (json \<Rightarrow> rstr) \<Rightarrow> demo_env \<Rightarrow> LoopReport async" where
  "tool_loop parse ser enc e =
     host_drive parse ser enc e (map_option ToolModel (fake_descriptor (lit ''toolbot'') True)) (clock_toolset ser)"

text \<open>The first parts of the assistant messages that are texts.\<close>

definition report_texts :: "LoopReport \<Rightarrow> rstr list" where
  "report_texts report =
     List.map_filter (\<lambda>part. case part of AP_Text t \<Rightarrow> Some t | _ \<Rightarrow> None)
       (List.map_filter (\<lambda>item. case item of
             HI_Assistant a \<Rightarrow> (case ah_content a of [] \<Rightarrow> None | part # _ \<Rightarrow> Some part)
           | _ \<Rightarrow> None) (rep_appended report))"

text \<open>The assertions on the report.\<close>

definition boundary_asserts :: "LoopReport \<Rightarrow> bool" where
  "boundary_asserts report \<longleftrightarrow>
     rep_requests report = 2
     \<and> list_ex (\<lambda>item. case item of
          HI_User user \<Rightarrow> UserInput_as_text (uh_input user) = lit ''please focus on the time'' | _ \<Rightarrow> False) (rep_appended report)
     \<and> list_ex (sublist (lit ''after-update'')) (report_texts report)
     \<and> \<not> list_ex (sublist (lit ''first-again'')) (report_texts report)"

definition updated_config :: "json serializer \<Rightarrow> demo_config option" where
  "updated_config ser =
     (case (fake_descriptor (lit ''second'') True, clock_toolset ser) of
        (Some d, Some tools) \<Rightarrow> unwrapped (host_config (SecondModel d) tools)
      | _ \<Rightarrow> None)"

definition input_update_boundaries ::
  "(rstr \<Rightarrow> json option) \<Rightarrow> json serializer \<Rightarrow> (json \<Rightarrow> rstr) \<Rightarrow> demo_env \<Rightarrow> LoopReport async" where
  "input_update_boundaries parse ser enc e =
     (case host_drive parse ser enc e (map_option FirstModel (fake_descriptor (lit ''first'') True)) (clock_toolset ser) of
        Done report \<Rightarrow> if boundary_asserts report then Done report else Aborted
      | other \<Rightarrow> other)"

definition cancel_held_loop ::
  "(rstr \<Rightarrow> json option) \<Rightarrow> json serializer \<Rightarrow> (json \<Rightarrow> rstr) \<Rightarrow> demo_env \<Rightarrow> LoopReport async" where
  "cancel_held_loop parse ser enc e =
     (case host_drive parse ser enc e (map_option FirstModel (fake_descriptor (lit ''held'') True)) (clock_toolset ser) of
        Done report \<Rightarrow> if rep_outcome report = LO_Cancelled CR_User then Done report else Aborted
      | other \<Rightarrow> other)"

subsection \<open>What the script of a run has to say\<close>

text \<open>The model of the configuration in force, for whatever request it is asked.\<close>

definition demo_model :: "(DemoModel, ClockTool, unit, BoundedText option) model_fun" where
  "demo_model config request request_index = DemoModel_start (ec_model config) request_index"

text \<open>Every tool that answers is the clock.\<close>

definition clock_answers :: "(DemoModel, ClockTool, unit, BoundedText option) reply list \<Rightarrow> bool" where
  "clock_answers replies \<longleftrightarrow> list_all (\<lambda>r. list_all (\<lambda>t. tr_outcome t = ClockTool_execute) (re_tools r)) replies"

text \<open>A turn without delays: nobody acts before the model is asked, and all ports answer.\<close>

definition on_schedule ::
  "UserInput list \<Rightarrow> UserInput list \<Rightarrow> demo_others list \<Rightarrow> (DemoModel, ClockTool, unit, BoundedText option) reply \<Rightarrow> bool" where
  "on_schedule given late ops r \<longleftrightarrow>
     re_ops r = [] \<and> re_on_time r \<and> re_inputs r = Completed given \<and> re_prompt_ops r = []
     \<and> (\<exists>deadline now. now < deadline \<and> re_prompt r = Some (prompt_of None deadline now))
     \<and> re_late_inputs r = Completed late \<and> re_model_ops r = ops
     \<and> list_all (\<lambda>t. tr_ops t = [] \<and> tr_tool_ops t = []) (re_tools r)"

text \<open>
  The script of a run with two requests: while the first is running, other threads do \<open>ops\<close> and the
  host pushes \<open>text\<close>; both ports then answer the second.  Which model answers a request is not part
  of the schedule: it is the one of the configuration the runner itself has when it asks.
\<close>

definition plays_two_rounds ::
  "(rstr \<Rightarrow> json option) \<Rightarrow> json serializer \<Rightarrow> (json \<Rightarrow> rstr) \<Rightarrow> DemoModel option \<Rightarrow> ClockTool ToolSet option \<Rightarrow> demo_others list \<Rightarrow>
     rstr option \<Rightarrow> demo_env \<Rightarrow> bool" where
  "plays_two_rounds parse ser enc model tools ops pushed e \<longleftrightarrow>
     de_runtime e \<and> undisturbed_loop default_options (de_loop e)
     \<and> (\<exists>m ts ident request queue round0 round1 rounds.
          model = Some m \<and> tools = Some ts \<and> start_request m ts = Some request \<and> LoopId_new (de_fills e) = Some (Ok ident)
          \<and> (case pushed of None \<Rightarrow> Some [] | Some text \<Rightarrow> HostInputs_push text []) = Some queue
          \<and> ln_rounds (de_loop e) = round0 # round1 # rounds
          \<and> on_schedule (fst (HostInputs_take [])) (fst (HostInputs_take [])) ops (hear default_options round0)
          \<and> on_schedule (fst (HostInputs_take queue)) (fst (HostInputs_take (snd (HostInputs_take queue)))) []
              (hear default_options round1)
          \<and> re_tools (hear default_options round0) \<noteq> []
          \<and> clock_answers (map (hear default_options) (ln_rounds (de_loop e)))
          \<and> (\<forall>a s. start_demo ser e request = Some (Ok (a, s)) \<longrightarrow> model_answers demo_model parse ser enc (de_loop e) request s))"

text \<open>
  What \<open>serde_json\<close> does with the two values of the program: the arguments parse to the object
  they show, and both values serialise to their compact text, 30 and 61 bytes long.
\<close>

definition clock_arguments :: json where
  "clock_arguments = JObject [(lit ''question'', JString (lit ''what time is it''))]"

definition serde_json :: "(rstr \<Rightarrow> json option) \<Rightarrow> json serializer \<Rightarrow> bool" where
  "serde_json parse ser \<longleftrightarrow>
     parse clock_arguments_text = Some clock_arguments
     \<and> snd (ser clock_arguments) \<and> sum_list (fst (ser clock_arguments)) = 30
     \<and> snd (ser clock_schema) \<and> sum_list (fst (ser clock_schema)) = 61"

subsection \<open>Lemmas: the values of the program\<close>

definition clock_id :: ToolCallId where "clock_id = ToolCallId (lit ''call_clock_0001'')"
definition clock_name :: ToolName where "clock_name = ToolName (lit ''clock'')"

definition clock_spec :: ToolSpec where
  "clock_spec = \<lparr>spec_name = clock_name, spec_description = BoundedText (lit ''Reads the current time''),
     spec_input_schema = clock_schema\<rparr>"

definition clock_tools :: "ClockTool ToolSet" where
  "clock_tools = \<lparr>ts_specs = [clock_spec], ts_entries = [(clock_name, \<lparr>en_implementation = \<lparr>ct_spec = clock_spec\<rparr>, en_spec = clock_spec\<rparr>)]\<rparr>"

definition clock_call :: ToolCall where
  "clock_call = \<lparr>tc_id = clock_id, tc_name = clock_name, tc_arguments = clock_arguments, tc_index = 0\<rparr>"

definition fake :: "string \<Rightarrow> bool \<Rightarrow> ModelDescriptor" where
  "fake name tools = \<lparr>md_model_ref = ModelRef (lit (''fake/'' @ name)), md_context_window = 8192,
     md_supported_reasoning = {RP_Auto}, md_supports_tools = tools\<rparr>"

lemma fake_descriptor_Some [simp]:
  "fake_descriptor (lit ''echo'') b = Some (fake ''echo'' b)" "fake_descriptor (lit ''toolbot'') b = Some (fake ''toolbot'' b)"
  "fake_descriptor (lit ''held'') b = Some (fake ''held'' b)"
  "fake_descriptor (lit ''first'') b = Some (fake ''first'' b)" "fake_descriptor (lit ''second'') b = Some (fake ''second'' b)"
  by (simp_all add: fake_descriptor_def fake_def ModelRef_from_str_def ModelDescriptor_new_def ModelDescriptor_validate_def
      Let_def lit_def utf8_len_def str_bytes_def utf8_char_def text_defs)

lemma clock_events:
  "clock_call_events = Some [EV_ToolCallStart clock_id clock_name,
     EV_ToolCallArgumentsDelta clock_id (BoundedText clock_arguments_text), EV_ToolCallEnd clock_id, EV_Finish FR_ToolCalls]"
  by (simp add: clock_call_events_def ToolCallId_new_def ToolName_from_str_def ModelEvent_tool_call_arguments_delta_def
      checked_event_text_def BoundedText_new_with_max_bytes_def clock_arguments_text_def clock_id_def clock_name_def
      MAX_MODEL_EVENT_TEXT_BYTES_def MAX_TEXT_BYTES_def lit_def utf8_len_def str_bytes_def utf8_char_def text_defs)

lemma clock_answer: "ClockTool_execute = Some (Ok (TX_Completed (ToolOutput (BoundedText (lit ''12:00'')))))"
proof -
  have "ToolOutput_new (lit ''12:00'') = Ok (ToolOutput (BoundedText (lit ''12:00'')))"
    by (simp add: ToolOutput_new_Ok valid_text_def lit_def utf8_len_def MAX_TEXT_BYTES_def text_defs)
  then show ?thesis by (simp add: ClockTool_execute_def)
qed

lemma clock_json:
  assumes "serde_json parse ser"
  shows "validate_json_size ser clock_arguments MAX_JSON_BYTES = Ok ()" "validate_json_size ser clock_schema MAX_JSON_BYTES = Ok ()"
    "json_bytes ser clock_schema = Some 61"
  using assms json_bytes_eq [of ser clock_schema]
  by (simp_all add: serde_json_def validate_json_size_Ok clock_arguments_def clock_schema_def MAX_JSON_DEPTH_def MAX_JSON_NODES_def
      MAX_JSON_BYTES_def USIZE_MAX_def)

lemma clock_toolset_Some:
  assumes "serde_json parse ser"
  shows "clock_toolset ser = Some clock_tools" "tool_set_ok clock_tools" "specs_within ser LoopLimits_default [clock_spec] = Some (Ok ())"
proof -
  have name: "ToolName_from_str (lit ''clock'') = Ok clock_name"
    by (simp add: ToolName_from_str_def clock_name_def lit_def utf8_len_def str_bytes_def utf8_char_def text_defs)
  have "ToolSpec_validate ser clock_spec = Ok ()"
    using clock_json(2) [OF assms]
    by (simp add: ToolSpec_validate_def clock_spec_def valid_text_def json_is_object_def clock_schema_def is_ok_def lit_def utf8_len_def
        MAX_TOOL_DESCRIPTION_BYTES_def text_defs)
  then have spec: "ToolSpec_new ser clock_name (lit ''Reads the current time'') clock_schema = Ok clock_spec"
    by (simp add: ToolSpec_new_Ok clock_spec_def)
  show "clock_toolset ser = Some clock_tools"
    by (simp add: clock_toolset_def name spec ToolSetBuilder_build_def ToolSetBuilder_register_def ToolSetBuilder_default_def
        btree_contains_key_def btree_get_def clock_tools_def) (simp add: clock_spec_def)
  show "tool_set_ok clock_tools" by (simp add: tool_set_ok_def clock_tools_def) (simp add: clock_spec_def)
  show "specs_within ser LoopLimits_default [clock_spec] = Some (Ok ())"
    using clock_json(3) [OF assms]
    by (simp add: ToolSpec_validate_for_bindings_def clock_spec_def clock_name_def lit_def utf8_len_def LoopLimits_default_def
        MAX_TOOL_NAME_BYTES_def MAX_JSON_BYTES_def MAX_TOOL_DESCRIPTION_BYTES_def bt_byte_len_def)
qed

lemma respond_clock:
  assumes "serde_json parse ser"
  shows "respond parse ser [clock_spec] LoopLimits_default [EV_ToolCallStart clock_id clock_name,
     EV_ToolCallArgumentsDelta clock_id (BoundedText clock_arguments_text), EV_ToolCallEnd clock_id, EV_Finish FR_ToolCalls]
     = Some \<lparr>mr_parts = [AP_ToolCall clock_call], mr_finish_reason = FR_ToolCalls, mr_usage = Some Usage_default, mr_provider_replay = None\<rparr>"
proof -
  have args: "list_all allowed_char clock_arguments_text" "clock_arguments_text \<noteq> []" "str_len clock_arguments_text = 30"
    by (simp_all add: clock_arguments_text_def lit_def utf8_len_def text_defs)
  have clean: "normalized_reference clock_arguments_text = clock_arguments_text" using args(1) normalized_reference_id by blast
  have event: "ModelEvent_validate (EV_ToolCallArgumentsDelta i (BoundedText clock_arguments_text)) = Ok ()"
    "ModelEvent_validate (EV_ToolCallStart i n) = Ok ()" "ModelEvent_validate (EV_ToolCallEnd i) = Ok ()"
    "ModelEvent_validate (EV_Finish FR_ToolCalls) = Ok ()" for i n
    using args(3) by (simp_all add: ModelEvent_validate_def event_text_def bt_byte_len_def MAX_MODEL_EVENT_TEXT_BYTES_def)
  have limits: "max_tool_calls_per_response LoopLimits_default \<noteq> 0" "max_tool_arguments_bytes LoopLimits_default = MAX_JSON_BYTES"
    "\<not> MAX_JSON_BYTES < 30"
    by (simp_all add: LoopLimits_default_def MAX_JSON_BYTES_def MAX_TOOL_CALLS_PER_RESPONSE_def)
  have "parse clock_arguments_text = Some clock_arguments" "json_is_object clock_arguments"
    using assms by (simp_all add: serde_json_def json_is_object_def clock_arguments_def)
  with clock_json(1) [OF assms] show ?thesis
    using args(2,3) limits
    by (simp add: respond_def push_def event push_tool_start_def push_tool_arguments_def push_tool_end_def append_bounded_def
        Assembler_new_def clean USIZE_MAX_def ToolCall_new_with_max_bytes_def is_ok_def finish_def Let_def
        ModelResponse_new_with_provider_replay_def normalize_parts_def normalize_part_eq validate_tool_call_order_def
        AssistantPart_validate_def as_tool_call_def clock_call_def clock_spec_def checked_add_def)
qed


subsection \<open>Lemmas: turns\<close>

lemma host_config_facts:
  assumes "host_config m ts = Ok c"
  shows "ec_model c = m" "ec_tools c = ts" "ec_prompt c = None" "ec_policy c = None" "ec_reasoning c = RP_Auto"
    "supports_reasoning (ec_descriptor c) RP_Auto" "ts_specs ts \<noteq> [] \<Longrightarrow> md_supports_tools (ec_descriptor c)"
    "ec_descriptor c = dm_descriptor m"
  using assms by (auto simp: host_config_def ExecutionConfig_new_def and_then_eq_Ok split: if_splits)

lemma host_config_fake:
  "dm_descriptor m = fake name b \<Longrightarrow> ts_specs ts = [] \<or> b \<Longrightarrow>
     host_config m ts = Ok \<lparr>ec_model = m, ec_descriptor = fake name b, ec_reasoning = RP_Auto, ec_tools = ts, ec_policy = None, ec_prompt = None\<rparr>"
  by (auto simp: host_config_def ExecutionConfig_new_def ModelDescriptor_validate_def supports_reasoning_def fake_def)

text \<open>The state once the request is out.\<close>

definition asked ::
  "setting \<Rightarrow> demo_others list \<Rightarrow> (DemoModel, ClockTool, unit, BoundedText option) agent \<Rightarrow>
     (DemoModel, ClockTool, unit, BoundedText option) agent" where
  "asked st ops g = overhear st ops (g\<lparr>ag_revision := (case ag_candidate g of Some c \<Rightarrow> c | None \<Rightarrow> ag_revision g),
     ag_candidate := None, ag_requests := saturating_add (ag_requests g) 1\<rparr>)"

lemma scheduled_turn:
  assumes sched: "on_schedule given [] ops r" and st: "st_base st = []" "st_options st = default_options"
    and g1: "snd (agent_boundary st given g) = g1"
    and items: "transcript ident mx (ag_history g1)" "list_all input_ok (ag_history g1)" "ag_history g1 \<noteq> []"
    and cfg: "host_config m ts = Ok (ag_config g1)"
  obtains request where "agent_turn st r g = agent_request st request r g1"
    "agent_asks st r g = Some (Inr (request, g1))"
    "mq_tools request = ts_specs ts" "validate_request (driver_of default_options (ag_config g1)) request = Ok ()"
proof -
  note config = host_config_facts [OF cfg]
  obtain ms where ms: "project_items (ag_history g1) [] = Some (Ok ms)" "exchange ms" "length ms = length (ag_history g1)"
    using transcript_exchange [OF items(1,2)] by blast
  obtain deadline now where prompt: "now < deadline" "re_prompt r = Some (prompt_of None deadline now)"
    using sched by (auto simp: on_schedule_def)
  have said: "prompt_of None deadline now \<lparr>hv_base = [], hv_appended = ag_history g1\<rparr> = Ok ms"
    using ms(1,3) items(3) prompt(1) by (auto simp: prompt_of_def DefaultPromptProvider_prepare_def HistoryView_iter_def)
  have "ms \<noteq> []" using ms(3) items(3) by auto
  define request where "request = \<lparr>mq_messages = ms, mq_tools = ts_specs ts, mq_limits = ModelLimits_default, mq_reasoning = RP_Auto\<rparr>"
  have request: "build_model_request ms (ag_config g1) = Ok request"
    using ms(2) \<open>ms \<noteq> []\<close> config
    by (simp add: build_model_request_def ModelRequest_with_validated_tools_def and_then_eq_Ok validate_tool_exchange_Ok request_def)
  have "fst (ag_offers g1) = None" by (simp add: g1 [symmetric] agent_boundary_def append_items_def)
  then have idle: "agent_boundary st [] g1 = (False, g1)" by (rule idle_boundary)
  have asks: "agent_asks st r g = Some (Inr (request, g1))"
    using sched prompt(2) said \<open>ms \<noteq> []\<close> by (simp add: agent_asks_def on_schedule_def g1 st idle request Let_def)
  then have turn: "agent_turn st r g = agent_request st request r g1" by (simp add: agent_turn_def)
  have valid: "validate_request (driver_of default_options (ag_config g1)) request = Ok ()"
    using config(5-7) by (auto simp: validate_request_def driver_of_def ModelDriver_from_validated_def request_def
        ModelLimits_default_def Let_def)
  show thesis by (rule that [OF turn asks _ valid]) (simp add: request_def)
qed

definition plain_response :: "rstr \<Rightarrow> ModelResponse" where
  "plain_response t = \<lparr>mr_parts = [AP_Text t], mr_finish_reason = FR_Stop, mr_usage = Some Usage_default, mr_provider_replay = None\<rparr>"

definition call_response :: ModelResponse where
  "call_response = \<lparr>mr_parts = [AP_ToolCall clock_call], mr_finish_reason = FR_ToolCalls, mr_usage = Some Usage_default,
     mr_provider_replay = None\<rparr>"

lemma asked_simps [simp]:
  "ag_history (asked st ops g) = ag_history g" "ag_config (asked st ops g) = ag_config g" "ag_index (asked st ops g) = ag_index g"
  "ag_rounds (asked st ops g) = ag_rounds g" "ag_requests (asked st ops g) = saturating_add (ag_requests g) 1"
  "ag_usage (asked st ops g) = ag_usage g" "ag_candidate (asked st ops g) = None"
  "ag_revision (asked st ops g) = (case ag_candidate g of Some c \<Rightarrow> c | None \<Rightarrow> ag_revision g)"
  "ag_offers (asked st ops g) = fold (offer (st_ser st) (lo_limits (st_options st))) ops (ag_offers g)"
  by (simp_all add: asked_def overhear_def)

lemma one_text_Some:
  "str_len t \<le> 65000 \<Longrightarrow> one_text t = Some [EV_TextDelta (BoundedText t), EV_Finish FR_Stop]"
  by (simp add: one_text_def ModelEvent_text_delta_def checked_event_text_def BoundedText_new_with_max_bytes_def
      MAX_MODEL_EVENT_TEXT_BYTES_def MAX_TEXT_BYTES_def)

lemma text_request:
  assumes t: "list_all allowed_char t" "t \<noteq> []" "str_len t \<le> 65000"
    and r: "re_events r = one_text t" "re_model_ops r = ops"
    and st: "st_options st = default_options" and used: "ag_usage g = UsageAccumulator_default"
    and valid: "validate_request (driver_of default_options (ag_config g)) request = Ok ()"
  shows "agent_request st request r g
     = Some (Stop FP_Completed (append_items [spoken st (plain_response t) Usage_default (asked st ops g)] (asked st ops g)))"
proof -
  have limits: "lo_limits default_options = LoopLimits_default" by (simp add: default_options_def)
  have "respond (st_parse st) (st_ser st) (mq_tools request) LoopLimits_default [EV_TextDelta (BoundedText t), EV_Finish FR_Stop]
      = Some (plain_response t)"
    unfolding plain_response_def
    by (rule respond_text [OF t(1,2)])
      (use t(3) in \<open>simp_all add: MAX_MODEL_EVENT_TEXT_BYTES_def LoopLimits_default_def MAX_TEXT_BYTES_def\<close>)
  then have "agent_request st request r g = agent_respond st (plain_response t) (re_tools r) (asked st ops g)"
    using valid by (subst respond_request [where response = "plain_response t"])
      (simp_all add: r one_text_Some [OF t(3)] st limits asked_def)
  also have "\<dots> = Some (Stop FP_Completed (append_items [spoken st (plain_response t) Usage_default (asked st ops g)] (asked st ops g)))"
    by (rule respond_plain) (simp_all add: plain_response_def used)
  finally show ?thesis .
qed

definition clock_result :: "LoopId \<Rightarrow> u32 \<Rightarrow> ToolResultHistory" where
  "clock_result ident request_index = \<lparr>th_loop_id = ident, th_request_index = request_index, th_call_id = clock_id,
     th_tool_name = clock_name, th_outcome = TR_Success, th_output = ToolOutput (BoundedText (lit ''12:00''))\<rparr>"

lemma call_request:
  assumes json: "serde_json (st_parse st) (st_ser st)"
    and r: "re_events r = clock_call_events" "on_schedule given late ops r" "re_tools r \<noteq> []"
      "list_all (\<lambda>t. tr_outcome t = ClockTool_execute) (re_tools r)"
    and st: "st_options st = default_options" and used: "ag_usage g = UsageAccumulator_default"
    and request: "mq_tools request = ts_specs clock_tools" "validate_request (driver_of default_options (ag_config g)) request = Ok ()"
    and policy: "ec_policy (ag_config g) = None"
  shows "agent_request st request r g = Some (Again (append_items
      [spoken st call_response Usage_default (asked st ops g), HI_ToolResult (clock_result (st_id st) (ag_index g))]
      ((asked st ops g)\<lparr>ag_rounds := saturating_add (ag_rounds g) 1, ag_index := saturating_add (ag_index g) 1\<rparr>)))"
proof -
  have limits: "lo_limits default_options = LoopLimits_default" "lo_max_tool_rounds default_options = 0"
    by (simp_all add: default_options_def)
  have specs: "mq_tools request = [clock_spec]" by (simp add: request(1) clock_tools_def)
  have "agent_request st request r g = agent_respond st call_response (re_tools r) (asked st ops g)"
    using r(2) request(2) respond_clock [OF json]
    by (subst respond_request [where response = call_response])
      (simp_all add: r(1) clock_events st limits asked_def specs call_response_def on_schedule_def)
  moreover obtain t ts where ts: "re_tools r = t # ts" using r(3) by (cases "re_tools r") auto
  have t: "tr_outcome t = ClockTool_execute" "tr_ops t = []" "tr_tool_ops t = []"
    using r(2,4) by (simp_all add: ts on_schedule_def)
  have "str_len (lit ''12:00'') \<le> max_tool_output_bytes LoopLimits_default"
    by (simp add: lit_def utf8_len_def LoopLimits_default_def MAX_TEXT_BYTES_def)
  then have batch: "batch_answers (st_enc st) (st_id st) (ag_index g) (max_tool_output_bytes LoopLimits_default) None [clock_call] (t # ts)
      = Some ([clock_result (st_id st) (ag_index g)], [])"
    using t by (simp add: tool_answer_def verdict_def clock_answer completed_result_def invocation_of_def clock_result_def
        clock_call_def permission_def tool_said_def ToolDecision_validate_def is_ok_def apsnd_def)
  have same: "(asked st ops g)\<lparr>ag_usage := UsageAccumulator_default\<rparr> = asked st ops g"
    using used by (cases "asked st ops g") (metis agent.select_convs(8) agent.update_convs(8) asked_simps(6))
  have "agent_respond st call_response (re_tools r) (asked st ops g)
      = agent_tools st [clock_call] (t # ts) (append_items [spoken st call_response Usage_default (asked st ops g)] (asked st ops g))"
    by (simp add: agent_respond_def call_response_def usage_default_adds is_ok_def used ts tool_calls_def List.map_filter_def
        as_tool_call_def same)
  ultimately show ?thesis
    by (simp add: agent_tools_def limits st append_items_def policy batch Let_def del: batch_answers.simps)
qed


text \<open>The history of a run with two requests.\<close>

definition demo_assistant :: "LoopId \<Rightarrow> u32 \<Rightarrow> demo_config \<Rightarrow> ModelResponse \<Rightarrow> HistoryItem" where
  "demo_assistant ident request_index cfg response = HI_Assistant
     \<lparr>ah_loop_id = ident, ah_request_index = request_index, ah_model = md_model_ref (ec_descriptor cfg),
      ah_reasoning = RP_Auto, ah_content = mr_parts response, ah_provider_replay = None,
      ah_finish_reason = mr_finish_reason response, ah_usage = Usage_default\<rparr>"

definition two_round_items :: "LoopId \<Rightarrow> demo_request \<Rightarrow> UserInput list \<Rightarrow> demo_config \<Rightarrow> rstr \<Rightarrow> HistoryItem list" where
  "two_round_items ident request given cfg t =
     [first_input ident request, demo_assistant ident 0 (lq_config request) call_response, HI_ToolResult (clock_result ident 0)]
     @ steering ident given @ [demo_assistant ident 1 cfg (plain_response t)]"

lemma call_order: "validate_tool_call_order [AP_ToolCall clock_call] = Ok ()"
  by (simp add: validate_tool_call_order_def AssistantPart_validate_def as_tool_call_def clock_call_def checked_add_def)

lemma clock_transcript:
  assumes "list_all (\<lambda>u. valid_text (UserInput_as_text u) MAX_MODEL_MESSAGE_TEXT_BYTES False) (lq_input request # given)"
  shows "transcript ident MAX_TEXT_BYTES ([first_input ident request, demo_assistant ident 0 cfg call_response,
      HI_ToolResult (clock_result ident 0)] @ steering ident given)"
    "list_all input_ok ([first_input ident request, demo_assistant ident 0 cfg call_response,
      HI_ToolResult (clock_result ident 0)] @ steering ident given)"
    "transcript ident MAX_TEXT_BYTES [first_input ident request]" "list_all input_ok [first_input ident request]"
proof -
  have one: "transcript ident MAX_TEXT_BYTES [first_input ident request]"
    using transcript.input [OF transcript.empty] by (simp add: first_input_def)
  then show "transcript ident MAX_TEXT_BYTES [first_input ident request]" .
  show "list_all input_ok [first_input ident request]" "list_all input_ok ([first_input ident request,
      demo_assistant ident 0 cfg call_response, HI_ToolResult (clock_result ident 0)] @ steering ident given)"
    using assms by (simp_all add: first_input_def input_ok_def demo_assistant_def steering_def list_all_iff)
  have "list_all2 (answers_call ident 0 MAX_TEXT_BYTES) (tool_calls [AP_ToolCall clock_call]) [clock_result ident 0]"
    by (simp add: tool_calls_def List.map_filter_def as_tool_call_def answers_call_def clock_result_def clock_call_def lit_def
        utf8_len_def MAX_TEXT_BYTES_def)
  then have "transcript ident MAX_TEXT_BYTES ([first_input ident request] @ demo_assistant ident 0 cfg call_response
      # map HI_ToolResult [clock_result ident 0])"
    unfolding demo_assistant_def
    by (intro transcript.turn [OF one]) (simp_all add: assistant_ok_def call_response_def call_order)
  then show "transcript ident MAX_TEXT_BYTES ([first_input ident request, demo_assistant ident 0 cfg call_response,
      HI_ToolResult (clock_result ident 0)] @ steering ident given)"
    using transcript_steering by fastforce
qed

lemma first_asks:
  assumes r0: "on_schedule [] [] ops r0" and request: "lq_history request = []" "host_config m ts = Ok (lq_config request)"
    and inputs: "list_all (\<lambda>u. valid_text (UserInput_as_text u) MAX_MODEL_MESSAGE_TEXT_BYTES False) [lq_input request]"
    and st: "st = setting_of parse ser enc default_options ident request" and g0: "g0 = agent_start ident request"
  obtains q0 where "agent_turn st r0 g0 = agent_request st q0 r0 g0" "agent_asks st r0 g0 = Some (Inr (q0, g0))"
    "mq_tools q0 = ts_specs ts" "validate_request (driver_of default_options (ag_config g0)) q0 = Ok ()"
proof -
  have facts: "ag_history g0 = [first_input ident request]" "ag_config g0 = lq_config request" "fst (ag_offers g0) = None"
    "st_base st = []" "st_options st = default_options"
    by (simp_all add: g0 agent_start_def st setting_of_def request)
  have boundary: "snd (agent_boundary st [] g0) = g0" using idle_boundary [of g0 st] by (simp add: facts)
  show thesis
    by (rule scheduled_turn [OF r0 facts(4,5) boundary, of ident MAX_TEXT_BYTES m ts])
      (use clock_transcript(3,4) [OF inputs] request(2) that in \<open>simp_all add: facts\<close>)
qed

lemma two_rounds:
  fixes r0 r1 :: "(DemoModel, ClockTool, unit, BoundedText option) reply"
  assumes json: "serde_json parse ser"
    and request: "lq_history request = []" "host_config m clock_tools = Ok (lq_config request)"
    and inputs: "list_all (\<lambda>u. valid_text (UserInput_as_text u) MAX_MODEL_MESSAGE_TEXT_BYTES False) (lq_input request # given)"
    and r0: "on_schedule [] [] ops r0" "re_tools r0 \<noteq> []" and r1: "on_schedule given [] [] r1"
    and said0: "re_events r0 = clock_call_events" "list_all (\<lambda>t. tr_outcome t = ClockTool_execute) (re_tools r0)"
    and next_config: "held = fst (fold (offer ser LoopLimits_default) ops (None, ConfigRevision_next ConfigRevision_INITIAL))"
      "cfg = (case held of Some (_, c) \<Rightarrow> c | None \<Rightarrow> lq_config request)" "host_config m' clock_tools = Ok cfg"
    and t: "list_all allowed_char t" "t \<noteq> []" "str_len t \<le> 65000"
    and st: "st = setting_of parse ser enc default_options ident request"
  obtains h g q1 k where "agent_turn st r0 (agent_start ident request) = Some (Again h)"
    "agent_asks st r1 h = Some (Inr (q1, k))" "ag_config k = cfg" "ag_index k = 1"
    "re_events r1 = one_text t \<longrightarrow> agent_turn st r1 h = Some (Stop FP_Completed g)"
    "ag_history g = two_round_items ident request given cfg t" "ag_requests g = 2" "ag_rounds g = 1"
    "ag_revision g = (case held of Some (r, _) \<Rightarrow> r | None \<Rightarrow> ConfigRevision_INITIAL)"
proof -
  define g0 where "g0 = agent_start ident request"
  note setting = st
  have st: "st_parse st = parse" "st_ser st = ser" "st_options st = default_options" "st_id st = ident" "st_base st = []"
    by (simp_all add: st setting_of_def request)
  have limits: "lo_limits default_options = LoopLimits_default" by (simp add: default_options_def)
  note second = clock_transcript(1,2) [OF inputs]
  have g0: "ag_history g0 = [first_input ident request]" "ag_config g0 = lq_config request" "ag_index g0 = 0" "ag_rounds g0 = 0"
    "ag_requests g0 = 0" "ag_usage g0 = UsageAccumulator_default" "ag_candidate g0 = None" "ag_revision g0 = ConfigRevision_INITIAL"
    "ag_offers g0 = (None, ConfigRevision_next ConfigRevision_INITIAL)"
    by (simp_all add: g0_def agent_start_def)
  note config0 = host_config_facts [OF request(2)] and config1 = host_config_facts [OF next_config(3)]
  have sat: "saturating_add (0 :: 64 word) 1 = 1" "saturating_add (0 :: 32 word) 1 = 1" "saturating_add (1 :: 32 word) 1 = 2"
    by (simp_all add: saturating_add_def)
  define h where "h = append_items [spoken st call_response Usage_default (asked st ops g0), HI_ToolResult (clock_result ident 0)]
      ((asked st ops g0)\<lparr>ag_rounds := 1, ag_index := 1\<rparr>)"
  obtain q0 where "agent_turn st r0 g0 = agent_request st q0 r0 g0"
    "mq_tools q0 = ts_specs clock_tools" "validate_request (driver_of default_options (ag_config g0)) q0 = Ok ()"
    by (rule first_asks [OF r0(1) request _ setting g0_def]) (use inputs in simp_all)
  then have turn0: "agent_turn st r0 g0 = Some (Again h)"
    using call_request [OF _ said0(1) r0 said0(2) st(3), of g0 q0] json config0(4) by (simp add: g0 st h_def sat)
  have "spoken st call_response Usage_default (asked st ops g0) = demo_assistant ident 0 (lq_config request) call_response"
    by (simp add: spoken_def demo_assistant_def st g0 call_response_def config0)
  then have h: "ag_history h = [first_input ident request, demo_assistant ident 0 (lq_config request) call_response,
      HI_ToolResult (clock_result ident 0)]" "ag_config h = lq_config request" "ag_index h = 1" "ag_rounds h = 1" "ag_requests h = 1"
    "ag_usage h = UsageAccumulator_default" "ag_candidate h = None" "ag_revision h = ConfigRevision_INITIAL" "fst (ag_offers h) = held"
    by (simp_all add: h_def append_items_def g0 sat st limits next_config(1))
  define k where "k = snd (agent_boundary st given h)"
  have k: "ag_history k = ag_history h @ steering ident given" "ag_config k = cfg" "ag_index k = 1" "ag_rounds k = 1" "ag_requests k = 1"
    "ag_usage k = UsageAccumulator_default"
    "(case ag_candidate k of Some c \<Rightarrow> c | None \<Rightarrow> ag_revision k) = (case held of Some (r, _) \<Rightarrow> r | None \<Rightarrow> ConfigRevision_INITIAL)"
    by (auto simp: k_def agent_boundary_def append_items_def h next_config(2) st split: option.split)
  obtain q1 where q1: "agent_turn st r1 h = agent_request st q1 r1 k" "agent_asks st r1 h = Some (Inr (q1, k))"
    "validate_request (driver_of default_options (ag_config k)) q1 = Ok ()"
    by (rule scheduled_turn [OF r1 st(5,3) k_def [symmetric], of ident MAX_TEXT_BYTES m' clock_tools])
      (use second next_config(3) in \<open>simp_all add: k h\<close>)
  define g where "g = append_items [spoken st (plain_response t) Usage_default (asked st [] k)] (asked st [] k)"
  have "re_model_ops r1 = []" using r1 by (simp add: on_schedule_def)
  from text_request [OF t _ this st(3) k(6) q1(3)]
  have turn1: "re_events r1 = one_text t \<longrightarrow> agent_turn st r1 h = Some (Stop FP_Completed g)"
    by (simp add: q1(1) g_def)
  have "spoken st (plain_response t) Usage_default (asked st [] k) = demo_assistant ident 1 cfg (plain_response t)"
    by (simp add: spoken_def demo_assistant_def st k plain_response_def config1)
  then have g: "ag_history g = two_round_items ident request given cfg t" "ag_requests g = 2" "ag_rounds g = 1"
    "ag_revision g = (case held of Some (r, _) \<Rightarrow> r | None \<Rightarrow> ConfigRevision_INITIAL)"
    by (simp_all add: g_def append_items_def k h two_round_items_def sat)
  show thesis by (rule that [OF turn0 [unfolded g0_def] q1(2) k(2,3) turn1 g])
qed

lemma clock_then_text:
  fixes r0 r1 :: "(DemoModel, ClockTool, unit, BoundedText option) reply"
  assumes json: "serde_json parse ser"
    and request: "lq_history request = []" "host_config m clock_tools = Ok (lq_config request)"
    and inputs: "list_all (\<lambda>u. valid_text (UserInput_as_text u) MAX_MODEL_MESSAGE_TEXT_BYTES False) (lq_input request # given)"
    and r0: "on_schedule [] [] ops r0" "re_tools r0 \<noteq> []" and r1: "on_schedule given [] [] r1"
    and next_config: "held = fst (fold (offer ser LoopLimits_default) ops (None, ConfigRevision_next ConfigRevision_INITIAL))"
      "cfg = (case held of Some (_, c) \<Rightarrow> c | None \<Rightarrow> lq_config request)" "host_config m' clock_tools = Ok cfg"
    and models: "DemoModel_start m 0 = clock_call_events" "DemoModel_start m' 1 = one_text t"
    and t: "list_all allowed_char t" "t \<noteq> []" "str_len t \<le> 65000"
    and plays: "agent_plays demo_model (setting_of parse ser enc default_options ident request) (r0 # r1 # rs) (agent_start ident request)"
      "clock_answers (r0 # r1 # rs)"
  obtains g where "reference_loop parse ser enc default_options ident request (r0 # r1 # rs) = Some (FP_Completed, g)"
     "ag_history g = two_round_items ident request given cfg t" "ag_requests g = 2" "ag_rounds g = 1"
     "ag_revision g = (case held of Some (r, _) \<Rightarrow> r | None \<Rightarrow> ConfigRevision_INITIAL)"
proof -
  define st where "st = setting_of parse ser enc default_options ident request"
  obtain q0 where "agent_asks st r0 (agent_start ident request) = Some (Inr (q0, agent_start ident request))"
    by (rule first_asks [OF r0(1) request _ st_def refl]) (use inputs in simp_all)
  then have said0: "re_events r0 = clock_call_events" "list_all (\<lambda>t. tr_outcome t = ClockTool_execute) (re_tools r0)"
    using plays [folded st_def] models(1) host_config_facts(1) [OF request(2)]
    by (simp_all add: clock_answers_def demo_model_def) (simp_all add: agent_start_def)
  obtain h g q1 k where turn0: "agent_turn st r0 (agent_start ident request) = Some (Again h)"
    and asking: "agent_asks st r1 h = Some (Inr (q1, k))" "ag_config k = cfg" "ag_index k = 1"
    and turn1: "re_events r1 = one_text t \<longrightarrow> agent_turn st r1 h = Some (Stop FP_Completed g)"
    and g: "ag_history g = two_round_items ident request given cfg t" "ag_requests g = 2" "ag_rounds g = 1"
      "ag_revision g = (case held of Some (r, _) \<Rightarrow> r | None \<Rightarrow> ConfigRevision_INITIAL)"
    by (rule two_rounds [OF json request inputs r0 r1 said0 next_config t st_def])
  have "re_events r1 = one_text t"
    using plays(1) [folded st_def] turn0 asking models(2) host_config_facts(1) [OF next_config(3)] by (simp add: demo_model_def)
  then show thesis
    by (intro that [OF _ g]) (simp add: reference_loop_def st_def [symmetric] turn0 turn1)
qed

subsection \<open>Lemmas: runs\<close>

lemma hello_input:
  "UserInput_text (lit ''hello'') = Ok (UI_Text (BoundedText (lit ''hello'')))"
  "valid_text (lit ''hello'') MAX_MODEL_MESSAGE_TEXT_BYTES False"
  by (simp_all add: UserInput_text_def BoundedText_new_def BoundedText_new_with_max_bytes_def bt_is_empty_def valid_text_def
      MAX_MODEL_MESSAGE_TEXT_BYTES_def MAX_TEXT_BYTES_def lit_def utf8_len_def text_defs)

lemma start_request_Some:
  "start_request m ts = Some request \<longleftrightarrow> (\<exists>cfg. host_config m ts = Ok cfg
     \<and> request = \<lparr>lq_history = [], lq_input = UI_Text (BoundedText (lit ''hello'')), lq_config = cfg\<rparr>)"
  by (cases "host_config m ts") (auto simp: start_request_def hello_input)

text \<open>The loop of a demonstration starts, so what the script says of its runner is not empty.\<close>

lemma demo_starts:
  assumes e: "de_runtime e" "LoopId_new (de_fills e) = Some (Ok ident)"
    and request: "start_request m ts = Some request" "specs_within ser LoopLimits_default (ts_specs ts) = Some (Ok ())"
  obtains a s where "start_demo ser e request = Some (Ok (a, s))"
    "AgentLoop_start ser (de_runtime e) (de_now_start e) (de_fills e) (de_consumer e) request default_options = Some (Ok (a, s))"
    "AgentLoop_id a = ident" "al_join a" "al_events a"
proof -
  obtain cfg where cfg: "host_config m ts = Ok cfg"
    "request = \<lparr>lq_history = [], lq_input = UI_Text (BoundedText (lit ''hello'')), lq_config = cfg\<rparr>"
    using request(1) start_request_Some by blast
  have limits: "lo_limits default_options = LoopLimits_default" "lo_deadline default_options = None"
    by (simp_all add: default_options_def)
  have tools: "ec_tools (lq_config request) = ts" using host_config_facts(2) [OF cfg(1)] by (simp add: cfg(2))
  have "UserInput_as_text (lq_input request) \<noteq> []" "str_len (UserInput_as_text (lq_input request)) \<le> max_user_input_bytes LoopLimits_default"
    by (simp_all add: cfg(2) UserInput_as_text_def lit_def utf8_len_def LoopLimits_default_def MAX_TEXT_BYTES_def)
  then have "\<exists>a s. AgentLoop_start ser (de_runtime e) (de_now_start e) (de_fills e) (de_consumer e) request default_options = Some (Ok (a, s))"
    using e options_default(2) request(2)
    by (intro start_accepts [THEN iffD2]) (simp add: limits validate_against_limits_def tools)
  then obtain a s where start: "AgentLoop_start ser (de_runtime e) (de_now_start e) (de_fills e) (de_consumer e) request default_options
      = Some (Ok (a, s))" by blast
  have a: "AgentLoop_id a = ident" "al_join a" "al_events a" using started_id [OF start] e(2) by simp_all
  show thesis by (rule that [OF _ start a]) (simp add: start_demo_def options_default(1) start)
qed

lemma host_drive_joins:
  assumes e: "de_runtime e" "LoopId_new (de_fills e) = Some (Ok ident)"
    and request: "start_request m ts = Some request" "specs_within ser LoopLimits_default (ts_specs ts) = Some (Ok ())"
    and run: "\<And>a s. AgentLoop_start ser (de_runtime e) (de_now_start e) (de_fills e) (de_consumer e) request default_options
        = Some (Ok (a, s)) \<Longrightarrow> AgentLoop_id a = ident \<Longrightarrow> \<exists>s'. run_loop parse ser enc (de_loop e) request s = (Done report, s')"
  shows "host_drive parse ser enc e (Some m) (Some ts) = Done report"
proof -
  obtain a s where start: "start_demo ser e request = Some (Ok (a, s))"
    "AgentLoop_start ser (de_runtime e) (de_now_start e) (de_fills e) (de_consumer e) request default_options = Some (Ok (a, s))"
    and a: "AgentLoop_id a = ident" "al_join a" "al_events a" by (rule demo_starts [OF e request])
  obtain s' where "run_loop parse ser enc (de_loop e) request s = (Done report, s')" using run [OF start(2) a(1)] by blast
  then show ?thesis
    by (simp add: host_drive_def host_run_def request(1) start(1) AgentLoop_take_events_def
        AgentLoop_join_def await_task_def a(2,3) ok_or_def)
qed

lemma start_request_tools: "start_request m ts = Some request \<Longrightarrow> ec_tools (lq_config request) = ts"
  using start_request_Some [of m ts request] host_config_facts(2) [of m ts] by auto

text \<open>A model that answers the runner of a demonstration answers the reference loop.\<close>

lemma demo_answers:
  assumes e: "de_runtime e" "undisturbed_loop default_options (de_loop e)" "LoopId_new (de_fills e) = Some (Ok ident)"
    and request: "start_request m ts = Some request" "tool_set_ok ts" "specs_within ser LoopLimits_default (ts_specs ts) = Some (Ok ())"
    and st: "st = setting_of parse ser enc default_options ident request"
  shows "(\<And>a s. start_demo ser e request = Some (Ok (a, s)) \<Longrightarrow> model_answers M parse ser enc (de_loop e) request s)
     \<Longrightarrow> agent_plays M st (map (hear default_options) (ln_rounds (de_loop e))) (agent_start ident request)"
    and "agent_run st (map (hear default_options) (ln_rounds (de_loop e))) (agent_start ident request) \<noteq> None
     \<Longrightarrow> agent_plays M st (map (hear default_options) (ln_rounds (de_loop e))) (agent_start ident request)
     \<Longrightarrow> start_demo ser e request = Some (Ok (a', s')) \<Longrightarrow> model_answers M parse ser enc (de_loop e) request s'"
proof -
  have set: "tool_set_ok (ec_tools (lq_config request))" using start_request_tools [OF request(1)] request(2) by simp
  have calm: "list_all (undisturbed default_options) (ln_rounds (de_loop e))" using e(2) by (simp add: undisturbed_loop_def)
  have started: "AgentLoop_start ser (de_runtime e) (de_now_start e) (de_fills e) (de_consumer e) request default_options = Some (Ok (a, s))
      \<and> AgentLoop_id a = ident" if "start_demo ser e request = Some (Ok (a, s))" for a s
    using demo_starts [OF e(1,3) request(1,3)] that by (metis option.inject prod.inject result.inject(1))
  show "agent_plays M st (map (hear default_options) (ln_rounds (de_loop e))) (agent_start ident request)"
    if plays: "\<And>a s. start_demo ser e request = Some (Ok (a, s)) \<Longrightarrow> model_answers M parse ser enc (de_loop e) request s"
  proof -
    obtain a s where demo: "start_demo ser e request = Some (Ok (a, s))" by (rule demo_starts [OF e(1,3) request(1,3)])
    have start: "AgentLoop_start ser (de_runtime e) (de_now_start e) (de_fills e) (de_consumer e) request default_options = Some (Ok (a, s))"
      and a: "AgentLoop_id a = ident" using started [OF demo] by simp_all
    note answers = answers_from_start [OF start set st [folded a]]
    from model_plays_agent [OF plays [OF demo, unfolded answers(4)] answers(1,2)] calm show ?thesis by (simp add: answers(3) a)
  qed
  show "model_answers M parse ser enc (de_loop e) request s'"
    if "agent_run st (map (hear default_options) (ln_rounds (de_loop e))) (agent_start ident request) \<noteq> None"
      "agent_plays M st (map (hear default_options) (ln_rounds (de_loop e))) (agent_start ident request)"
      "start_demo ser e request = Some (Ok (a', s'))"
  proof -
    have start: "AgentLoop_start ser (de_runtime e) (de_now_start e) (de_fills e) (de_consumer e) request default_options = Some (Ok (a', s'))"
      and a: "AgentLoop_id a' = ident" using started [OF that(3)] by simp_all
    note answers = answers_from_start [OF start set st [folded a]]
    show ?thesis
      unfolding answers(4)
      by (rule model_plays_iff [OF answers(1,2), THEN iffD2]) (use that(1,2) calm in \<open>simp_all add: answers(3) a\<close>)
  qed
qed

lemma host_drive_runs:
  assumes e: "de_runtime e" "undisturbed_loop default_options (de_loop e)" "LoopId_new (de_fills e) = Some (Ok ident)"
    and request: "start_request m ts = Some request" "tool_set_ok ts" "specs_within ser LoopLimits_default (ts_specs ts) = Some (Ok ())"
    and ref: "reference_loop parse ser enc default_options ident request (map (hear default_options) (ln_rounds (de_loop e)))
       = Some (FP_Completed, g)"
  shows "host_drive parse ser enc e (Some m) (Some ts) = Done (agent_report ident LO_Completed g)"
proof (rule host_drive_joins [OF e(1,3) request(1,3)])
  fix a s
  assume start: "AgentLoop_start ser (de_runtime e) (de_now_start e) (de_fills e) (de_consumer e) request default_options = Some (Ok (a, s))"
    and a: "AgentLoop_id a = ident"
  have tools: "tool_set_ok (ec_tools (lq_config request))" using start_request_tools [OF request(1)] request(2) by simp
  show "\<exists>s'. run_loop parse ser enc (de_loop e) request s = (Done (agent_report ident LO_Completed g), s')"
    by (rule runner_reference [OF start tools e(2) ref [folded a]]) (auto simp: a outcome_for_def)
qed

lemma sublist_two: "\<not> sublist (lit ''first-again'') (lit ''after-update'')" "sublist (lit ''after-update'') (lit ''after-update'')"
  by (simp_all add: lit_def sublist_code)

lemma two_rounds_run:
  assumes json: "serde_json parse ser" and plays: "plays_two_rounds parse ser enc (Some m) (clock_toolset ser) ops pushed e"
    and m: "dm_descriptor m = fake name True"
    and pushed: "case pushed of None \<Rightarrow> given = [] | Some line \<Rightarrow>
        given = [UI_Text (BoundedText line)] \<and> line \<noteq> [] \<and> valid_text line MAX_MODEL_MESSAGE_TEXT_BYTES False"
    and next_config: "held = fst (fold (offer ser LoopLimits_default) ops (None, ConfigRevision_next ConfigRevision_INITIAL))"
      "\<And>c. host_config m clock_tools = Ok c \<Longrightarrow> host_config m' clock_tools = Ok (case held of Some (_, c') \<Rightarrow> c' | None \<Rightarrow> c)"
    and models: "DemoModel_start m 0 = clock_call_events" "DemoModel_start m' 1 = one_text t"
    and t: "list_all allowed_char t" "t \<noteq> []" "str_len t \<le> 65000"
  obtains ident request cfg and g :: "(DemoModel, ClockTool, unit, BoundedText option) agent" where "host_drive parse ser enc e (Some m) (clock_toolset ser) = Done (agent_report ident LO_Completed g)"
     "ag_history g = two_round_items ident request given cfg t" "ag_requests g = 2" "ag_rounds g = 1"
     "ag_revision g = (case held of Some (r, _) \<Rightarrow> r | None \<Rightarrow> ConfigRevision_INITIAL)"
     "start_request m clock_tools = Some request" "cfg = (case held of Some (_, c') \<Rightarrow> c' | None \<Rightarrow> lq_config request)"
proof -
  note tools = clock_toolset_Some [OF json]
  obtain ident request queue round0 round1 rounds where e: "de_runtime e" "undisturbed_loop default_options (de_loop e)"
      "start_request m clock_tools = Some request" "LoopId_new (de_fills e) = Some (Ok ident)"
      "(case pushed of None \<Rightarrow> Some [] | Some text \<Rightarrow> HostInputs_push text []) = Some queue"
      "ln_rounds (de_loop e) = round0 # round1 # rounds"
      "on_schedule [] [] ops (hear default_options round0)" "on_schedule queue [] [] (hear default_options round1)"
      "re_tools (hear default_options round0) \<noteq> []"
      "clock_answers (map (hear default_options) (ln_rounds (de_loop e)))"
      "\<And>a s. start_demo ser e request = Some (Ok (a, s)) \<Longrightarrow> model_answers demo_model parse ser enc (de_loop e) request s"
    using plays by (auto simp: plays_two_rounds_def tools(1) HostInputs_take_def)
  obtain cfg0 where request: "host_config m clock_tools = Ok cfg0"
    "request = \<lparr>lq_history = [], lq_input = UI_Text (BoundedText (lit ''hello'')), lq_config = cfg0\<rparr>"
    using e(3) start_request_Some by blast
  have queue: "queue = given"
    using e(5) pushed
    by (auto simp: HostInputs_push_def UserInput_text_def BoundedText_new_def BoundedText_new_with_max_bytes_def bt_is_empty_def
        valid_text_def split: option.splits if_splits)
  have inputs: "list_all (\<lambda>u. valid_text (UserInput_as_text u) MAX_MODEL_MESSAGE_TEXT_BYTES False) (lq_input request # given)"
    using pushed hello_input(2) by (auto simp: request(2) UserInput_as_text_def split: option.splits)
  have specs: "specs_within ser LoopLimits_default (ts_specs clock_tools) = Some (Ok ())" using tools(3) by (simp add: clock_tools_def)
  have agent: "agent_plays demo_model (setting_of parse ser enc default_options ident request)
      (map (hear default_options) (ln_rounds (de_loop e))) (agent_start ident request)"
    by (rule demo_answers(1) [OF e(1,2,4,3) tools(2) specs refl e(11)])
  define cfg where "cfg = (case held of Some (_, c') \<Rightarrow> c' | None \<Rightarrow> lq_config request)"
  have next_ok: "host_config m' clock_tools = Ok cfg" using next_config(2) [OF request(1)] by (cases held) (auto simp: cfg_def request(2))
  obtain g where g: "reference_loop parse ser enc default_options ident request
      (hear default_options round0 # hear default_options round1 # map (hear default_options) rounds) = Some (FP_Completed, g)"
     "ag_history g = two_round_items ident request given cfg t" "ag_requests g = 2" "ag_rounds g = 1"
     "ag_revision g = (case held of Some (r, _) \<Rightarrow> r | None \<Rightarrow> ConfigRevision_INITIAL)"
    by (rule clock_then_text [OF json _ _ inputs e(7,9) e(8) [unfolded queue] next_config(1) cfg_def next_ok models t
          agent [unfolded e(6) list.map] e(10) [unfolded e(6) list.map]]) (simp_all add: request)
  have "host_drive parse ser enc e (Some m) (clock_toolset ser) = Done (agent_report ident LO_Completed g)"
    unfolding tools(1)
    by (rule host_drive_runs [OF e(1,2,4,3) tools(2) specs]) (use g(1) e(6) in simp_all)
  then show thesis by (rule that [OF _ g(2-5) e(3) cfg_def])
qed

lemma two_round_texts_of: "ag_history g = two_round_items ident request given cfg t \<Longrightarrow> report_texts (agent_report i o' g) = [t]"
  by (simp add: report_texts_def agent_report_def two_round_items_def demo_assistant_def call_response_def plain_response_def
      first_input_def steering_def List.map_filter_def comp_def)


lemma steering_input:
  "UserInput_text (lit ''please focus on the time'') = Ok (UI_Text (BoundedText (lit ''please focus on the time'')))"
  "valid_text (lit ''please focus on the time'') MAX_MODEL_MESSAGE_TEXT_BYTES False" "lit ''please focus on the time'' \<noteq> []"
  by (simp_all add: UserInput_text_def BoundedText_new_def BoundedText_new_with_max_bytes_def bt_is_empty_def valid_text_def
      MAX_MODEL_MESSAGE_TEXT_BYTES_def MAX_TEXT_BYTES_def lit_def utf8_len_def text_defs)

lemma short_texts:
  "list_all allowed_char (lit ''after-update'') \<and> lit ''after-update'' \<noteq> [] \<and> str_len (lit ''after-update'') \<le> 65000"
  "list_all allowed_char (lit ''It is 12:00'') \<and> lit ''It is 12:00'' \<noteq> [] \<and> str_len (lit ''It is 12:00'') \<le> 65000"
  by (simp_all add: lit_def utf8_len_def text_defs)

lemma updated_config_Some:
  assumes "serde_json parse ser" "updated_config ser = Some cfg"
  shows "host_config (SecondModel (fake ''second'' True)) clock_tools = Ok cfg"
    "offer ser LoopLimits_default (X_Update cfg) (None, revision) = (Some (revision, cfg), ConfigRevision_next revision)"
proof -
  note tools = clock_toolset_Some [OF assms(1)]
  have "unwrapped (host_config (SecondModel (fake ''second'' True)) clock_tools) = Some cfg"
    using assms(2) by (simp add: updated_config_def tools(1))
  then show cfg: "host_config (SecondModel (fake ''second'' True)) clock_tools = Ok cfg"
    by (cases "host_config (SecondModel (fake ''second'' True)) clock_tools") simp_all
  show "offer ser LoopLimits_default (X_Update cfg) (None, revision) = (Some (revision, cfg), ConfigRevision_next revision)"
    using tools(3) host_config_facts(2) [OF cfg] by (simp add: validate_against_limits_def clock_tools_def)
qed

lemma first_then_second:
  assumes "serde_json parse ser" "updated_config ser = Some cfg"
  shows "Some (ConfigRevision_next ConfigRevision_INITIAL, cfg)
       = fst (fold (offer ser LoopLimits_default) [X_Update cfg] (None, ConfigRevision_next ConfigRevision_INITIAL))"
    "host_config (SecondModel (fake ''second'' True)) clock_tools
       = Ok (case Some (ConfigRevision_next ConfigRevision_INITIAL, cfg) of Some (_, c') \<Rightarrow> c' | None \<Rightarrow> c)"
  using updated_config_Some [OF assms] by (simp_all del: offer.simps)

text \<open>A script of the demonstration exists: all ports answer at the first poll.\<close>

lemma demonstration_exists:
  assumes json: "serde_json parse ser" and update: "updated_config ser = Some cfg"
  shows "\<exists>e. plays_two_rounds parse ser enc (map_option FirstModel (fake_descriptor (lit ''first'') True)) (clock_toolset ser)
       [X_Update cfg] (Some (lit ''please focus on the time'')) e"
proof -
  define given where "given = [UI_Text (BoundedText (lit ''please focus on the time''))]"
  define round0 :: "demo_others live_round" where
    "round0 = round_at_once [] (prompt_of None 1 0) [X_Update cfg] (the clock_call_events) [the ClockTool_execute]"
  define round1 :: "demo_others live_round" where
    "round1 = round_at_once given (prompt_of None 1 0) [] (the (one_text (lit ''after-update''))) []"
  define ident where "ident = LoopId (replicate 16 1)"
  let ?m = "FirstModel (fake ''first'' True)"
  obtain cfg0 where cfg0: "host_config ?m clock_tools = Ok cfg0" using host_config_fake [of ?m "''first''" True clock_tools] by simp
  define request where "request = \<lparr>lq_history = [], lq_input = UI_Text (BoundedText (lit ''hello'')), lq_config = cfg0\<rparr>"
  have start: "start_request ?m clock_tools = Some request" using cfg0 start_request_Some request_def by blast
  note tools = clock_toolset_Some [OF json] and after = short_texts(1) [THEN conjunct1]
    short_texts(1) [THEN conjunct2, THEN conjunct1] short_texts(1) [THEN conjunct2, THEN conjunct2]
  have "mild (X_Update cfg)"
    using tools(2) host_config_facts(2) [OF updated_config_Some(1) [OF json update]] by (simp add: mild_def typed_op_def)
  then have quiet: "undisturbed_loop default_options (loop_at_once [round0, round1])"
    by (intro undisturbed_loop_at_once) (simp_all add: round0_def round1_def undisturbed_at_once)
  have heard: "on_schedule [] [] [X_Update cfg] (hear default_options round0)" "on_schedule given [] [] (hear default_options round1)"
    "re_tools (hear default_options round0) \<noteq> []"
    unfolding on_schedule_def round0_def round1_def
    by (auto simp: heard_at_once intro: exI [where x = 0] exI [where x = 1])
  have said: "re_events (hear default_options round0) = clock_call_events"
    "list_all (\<lambda>t. tr_outcome t = ClockTool_execute) (re_tools (hear default_options round0))"
    "re_events (hear default_options round1) = one_text (lit ''after-update'')" "re_tools (hear default_options round1) = []"
    using after(3) by (simp_all add: round0_def round1_def heard_at_once clock_events clock_answer one_text_Some)
  have inputs: "list_all (\<lambda>u. valid_text (UserInput_as_text u) MAX_MODEL_MESSAGE_TEXT_BYTES False) (lq_input request # given)"
    using hello_input(2) steering_input(2) by (simp add: request_def given_def UserInput_as_text_def)
  note next_config = first_then_second [OF json update]
  have rq: "lq_history request = []" "host_config ?m clock_tools = Ok (lq_config request)" by (simp_all add: request_def cfg0)
  define st where "st = setting_of parse ser enc default_options ident request"
  have same: "cfg = (case Some (ConfigRevision_next ConfigRevision_INITIAL, cfg) of Some (_, c) \<Rightarrow> c | None \<Rightarrow> lq_config request)"
    by simp
  obtain h g q1 k where run: "agent_turn st (hear default_options round0) (agent_start ident request) = Some (Again h)"
    "agent_asks st (hear default_options round1) h = Some (Inr (q1, k))" "ag_config k = cfg" "ag_index k = 1"
    "re_events (hear default_options round1) = one_text (lit ''after-update'')
       \<longrightarrow> agent_turn st (hear default_options round1) h = Some (Stop FP_Completed g)"
    using two_rounds [OF json rq inputs heard(1,3,2) said(1,2) next_config(1) same updated_config_Some(1) [OF json update] after st_def]
    by metis
  obtain q0 where "agent_asks st (hear default_options round0) (agent_start ident request) = Some (Inr (q0, agent_start ident request))"
    by (rule first_asks [OF heard(1) rq _ st_def refl]) (use inputs in simp_all)
  moreover have "ag_config (agent_start ident request) = lq_config request" "ag_index (agent_start ident request) = 0"
    by (simp_all add: agent_start_def)
  ultimately have play: "agent_plays demo_model st [hear default_options round0, hear default_options round1] (agent_start ident request)"
    "agent_run st [hear default_options round0, hear default_options round1] (agent_start ident request) \<noteq> None"
    using said run host_config_facts(1) [OF rq(2)] host_config_facts(1) [OF updated_config_Some(1) [OF json update]]
    by (simp_all add: demo_model_def)
  have fresh: "LoopId_new [Some (replicate 16 1)] = Some (Ok ident)" by (simp add: LoopId_new_def list_ex_iff ident_def)
  have queue: "HostInputs_push (lit ''please focus on the time'') [] = Some given"
    by (simp add: HostInputs_push_def steering_input(1) given_def)
  define e where "e = \<lparr>de_runtime = True, de_now_options = 0, de_now_start = 0, de_fills = [Some (replicate 16 1)],
     de_consumer = [], de_loop = loop_at_once [round0, round1]\<rparr>"
  have rounds: "ln_rounds (de_loop e) = [round0, round1]" by (simp add: e_def loop_at_once_def)
  have env: "de_runtime e" "undisturbed_loop default_options (de_loop e)" "LoopId_new (de_fills e) = Some (Ok ident)"
    using quiet fresh by (simp_all add: e_def)
  have specs: "specs_within ser LoopLimits_default (ts_specs clock_tools) = Some (Ok ())" using tools(3) by (simp add: clock_tools_def)
  have answers: "model_answers demo_model parse ser enc (de_loop e) request s"
    if "start_demo ser e request = Some (Ok (a, s))" for a s
    by (rule demo_answers(2) [OF env start tools(2) specs st_def _ _ that]) (use play in \<open>simp_all only: rounds list.map not_False_eq_True\<close>)
  have clock: "clock_answers (map (hear default_options) (ln_rounds (de_loop e)))"
    using said by (simp add: clock_answers_def rounds)
  have "plays_two_rounds parse ser enc (Some ?m) (Some clock_tools) [X_Update cfg] (Some (lit ''please focus on the time'')) e"
    unfolding plays_two_rounds_def
  proof (intro conjI env(1,2) exI)
    show "Some ?m = Some ?m" "Some clock_tools = Some clock_tools" by simp_all
    show "start_request ?m clock_tools = Some request" "LoopId_new (de_fills e) = Some (Ok ident)" by (fact start env(3))+
    show "(case Some (lit ''please focus on the time'') of None \<Rightarrow> Some [] | Some text \<Rightarrow> HostInputs_push text []) = Some given"
      using queue by simp
    show "ln_rounds (de_loop e) = round0 # round1 # []" by (fact rounds)
    show "clock_answers (map (hear default_options) (ln_rounds (de_loop e)))" by (fact clock)
    show "\<forall>a s. start_demo ser e request = Some (Ok (a, s)) \<longrightarrow> model_answers demo_model parse ser enc (de_loop e) request s"
      using answers by blast
  qed (use heard in \<open>simp_all add: HostInputs_take_def\<close>)
  then show ?thesis by (auto simp: tools(1))
qed

text \<open>The two loops nobody interferes with.\<close>

lemma tool_loop_report:
  assumes "serde_json parse ser"
    and "plays_two_rounds parse ser enc (map_option ToolModel (fake_descriptor (lit ''toolbot'') True)) (clock_toolset ser) [] None e"
  shows "\<exists>report ident. tool_loop parse ser enc e = Done report \<and> rep_outcome report = LO_Completed
     \<and> rep_requests report = 2 \<and> rep_tool_rounds report = 1 \<and> report_texts report = [lit ''It is 12:00'']
     \<and> rep_appended report ! 2 = HI_ToolResult (clock_result ident 0)"
proof -
  have play: "plays_two_rounds parse ser enc (Some (ToolModel (fake ''toolbot'' True))) (clock_toolset ser) [] None e"
    using assms(2) by simp
  have held: "None = fst (fold (offer ser LoopLimits_default) [] (None :: (ConfigRevision \<times> demo_config) option,
      ConfigRevision_next ConfigRevision_INITIAL))" by simp
  have answer: "DemoModel_start (ToolModel (fake ''toolbot'' True)) 1 = one_text (lit ''It is 12:00'')" by simp
  obtain ident request cfg and g :: "(DemoModel, ClockTool, unit, BoundedText option) agent" where run:
     "host_drive parse ser enc e (Some (ToolModel (fake ''toolbot'' True))) (clock_toolset ser) = Done (agent_report ident LO_Completed g)"
     "ag_history g = two_round_items ident request [] cfg (lit ''It is 12:00'')" "ag_requests g = 2" "ag_rounds g = 1"
     "ag_revision g = (case None :: (ConfigRevision \<times> demo_config) option of Some (r, _) \<Rightarrow> r | None \<Rightarrow> ConfigRevision_INITIAL)"
    by (rule two_rounds_run [OF assms(1) play _ _ held _ _ answer short_texts(2) [THEN conjunct1]
          short_texts(2) [THEN conjunct2, THEN conjunct1] short_texts(2) [THEN conjunct2, THEN conjunct2]])
      (simp_all, blast)
  have "rep_appended (agent_report ident LO_Completed g) ! 2 = HI_ToolResult (clock_result ident 0)"
    by (simp add: agent_report_def run(2) two_round_items_def)
  then show ?thesis
    using run(1,3,4) two_round_texts_of [OF run(2)]
    by (intro exI [of _ "agent_report ident LO_Completed g"] exI [of _ ident]) (simp add: tool_loop_def agent_report_def)
qed

lemma simple_text_loop_report:
  assumes e: "de_runtime e" "undisturbed_loop default_options (de_loop e)" "LoopId_new (de_fills e) = Some (Ok ident)"
    and request: "start_request (EchoModel (fake ''echo'' False)) ToolSet_default = Some request"
    and rounds: "ln_rounds (de_loop e) = round # rounds" "on_schedule [] [] [] (hear default_options round)"
    and plays: "\<And>a s. start_demo ser e request = Some (Ok (a, s)) \<Longrightarrow> model_answers demo_model parse ser enc (de_loop e) request s"
  shows "\<exists>report. simple_text_loop parse ser enc e = Done report \<and> rep_outcome report = LO_Completed
     \<and> rep_requests report = 1 \<and> report_texts report = [lit ''Hello from the model'']"
proof -
  define st where "st = setting_of parse ser enc default_options ident request"
  define g0 where "g0 = agent_start ident request"
  obtain cfg where cfg: "host_config (EchoModel (fake ''echo'' False)) ToolSet_default = Ok cfg"
    "request = \<lparr>lq_history = [], lq_input = UI_Text (BoundedText (lit ''hello'')), lq_config = cfg\<rparr>"
    using request start_request_Some by blast
  have inputs: "list_all (\<lambda>u. valid_text (UserInput_as_text u) MAX_MODEL_MESSAGE_TEXT_BYTES False) [lq_input request]"
    using hello_input(2) by (simp add: cfg(2) UserInput_as_text_def)
  have g0: "ag_history g0 = [first_input ident request]" "ag_config g0 = cfg" "ag_usage g0 = UsageAccumulator_default"
    "ag_requests g0 = 0" "fst (ag_offers g0) = None"
    by (simp_all add: g0_def agent_start_def cfg(2))
  have boundary: "snd (agent_boundary st [] g0) = g0" using idle_boundary [of g0 st] g0(5) by simp
  have st: "st_base st = []" "st_options st = default_options" by (simp_all add: st_def setting_of_def cfg(2))
  obtain q where q: "agent_turn st (hear default_options round) g0 = agent_request st q (hear default_options round) g0"
    "agent_asks st (hear default_options round) g0 = Some (Inr (q, g0))" "validate_request (driver_of default_options (ag_config g0)) q = Ok ()"
    by (rule scheduled_turn [OF rounds(2) st boundary, of ident MAX_TEXT_BYTES "EchoModel (fake ''echo'' False)" ToolSet_default])
      (use clock_transcript(3,4) [OF inputs] cfg(1) g0 in simp_all)
  let ?t = "lit ''Hello from the model''"
  have hello: "list_all allowed_char ?t" "?t \<noteq> []" "str_len ?t \<le> 65000" by (simp_all add: lit_def utf8_len_def text_defs)
  have said: "re_events (hear default_options round) = one_text ?t"
    using demo_answers(1) [OF e request _ _ st_def plays] q(2) host_config_facts(1) [OF cfg(1)]
    by (simp add: rounds(1) g0_def [symmetric] g0 demo_model_def tool_set_ok_def ToolSet_default_def)
  have quiet: "re_model_ops (hear default_options round) = []" using rounds(2) by (simp add: on_schedule_def)
  define g where "g = append_items [spoken st (plain_response ?t) Usage_default (asked st [] g0)] (asked st [] g0)"
  have "reference_loop parse ser enc default_options ident request (map (hear default_options) (ln_rounds (de_loop e))) = Some (FP_Completed, g)"
    using text_request [OF hello said quiet st(2) g0(3) q(3)]
    by (simp add: reference_loop_def rounds(1) st_def [symmetric] g0_def [symmetric] q(1) g_def)
  then have "simple_text_loop parse ser enc e = Done (agent_report ident LO_Completed g)"
    unfolding simple_text_loop_def fake_descriptor_Some option.map
    by (intro host_drive_runs [OF e request]) (simp_all add: tool_set_ok_def ToolSet_default_def)
  moreover have "report_texts (agent_report ident LO_Completed g) = [?t]" "ag_requests g = 1"
    by (simp_all add: report_texts_def agent_report_def g_def append_items_def spoken_def plain_response_def g0 first_input_def
        List.map_filter_def saturating_add_def)
  ultimately show ?thesis by (auto simp: agent_report_def)
qed

text \<open>The loop whose model never answers and which the user cancels.\<close>

lemma cancel_held_loop_ends:
  assumes json: "serde_json parse ser" and e: "de_runtime e" "typed_loop (de_loop e)" "LoopId_new (de_fills e) = Some (Ok ident)"
    and rounds: "ln_rounds (de_loop e) = round # later" "asks_undisturbed round" "on_schedule [] [] ops (hear default_options round)"
    and held: "cancels_stream default_options CS_User (lr_model round) []"
  shows "\<exists>report. cancel_held_loop parse ser enc e = Done report \<and> rep_outcome report = LO_Cancelled CR_User
     \<and> rep_requests report = 1 \<and> length (rep_appended report) = 1"
proof -
  note tools = clock_toolset_Some [OF json]
  let ?m = "FirstModel (fake ''held'' True)"
  obtain cfg where cfg: "host_config ?m clock_tools = Ok cfg" using host_config_fake [of ?m "''held''" True clock_tools] by simp
  define request where "request = \<lparr>lq_history = [], lq_input = UI_Text (BoundedText (lit ''hello'')), lq_config = cfg\<rparr>"
  have request: "start_request ?m clock_tools = Some request" using cfg start_request_Some request_def by blast
  define st where "st = setting_of parse ser enc default_options ident request"
  define g0 where "g0 = agent_start ident request"
  have inputs: "list_all (\<lambda>u. valid_text (UserInput_as_text u) MAX_MODEL_MESSAGE_TEXT_BYTES False) [lq_input request]"
    using hello_input(2) by (simp add: request_def UserInput_as_text_def)
  have g0: "ag_history g0 = [first_input ident request]" "ag_config g0 = cfg" "fst (ag_offers g0) = None" "ag_requests g0 = 0"
    by (simp_all add: g0_def agent_start_def request_def)
  have boundary: "snd (agent_boundary st [] g0) = g0" using idle_boundary [of g0 st] g0(3) by simp
  have st: "st_base st = []" "st_options st = default_options" by (simp_all add: st_def setting_of_def request_def)
  obtain q where q: "agent_asks st (hear default_options round) g0 = Some (Inr (q, g0))"
    "validate_request (driver_of default_options (ag_config g0)) q = Ok ()"
    by (rule scheduled_turn [OF rounds(3) st boundary, of ident MAX_TEXT_BYTES ?m clock_tools])
      (use clock_transcript(3,4) [OF inputs] cfg g0 in simp_all)
  define report where "report = agent_report ident (LO_Cancelled CR_User)
     (g0\<lparr>ag_revision := (case ag_candidate g0 of Some c \<Rightarrow> c | None \<Rightarrow> ag_revision g0), ag_candidate := None,
         ag_requests := saturating_add (ag_requests g0) 1\<rparr>)"
  have drive: "host_drive parse ser enc e (Some ?m) (Some clock_tools) = Done report"
  proof (rule host_drive_joins [OF e(1,3) request])
    show "specs_within ser LoopLimits_default (ts_specs clock_tools) = Some (Ok ())" using tools(3) by (simp add: clock_tools_def)
    fix a s
    assume start: "AgentLoop_start ser (de_runtime e) (de_now_start e) (de_fills e) (de_consumer e) request default_options = Some (Ok (a, s))"
      and a: "AgentLoop_id a = ident"
    have set: "tool_set_ok (ec_tools (lq_config request))" using start_request_tools [OF request] tools(2) by simp
    have idle: "agent_walk st (map (hear default_options) []) (agent_start (AgentLoop_id a) request) = Some g0" by (simp add: a g0_def)
    have "push_all parse ser (Assembler_new (mq_tools q) (lo_limits default_options)) []
        = Some (Assembler_new (mq_tools q) (lo_limits default_options), Ok [])" by simp
    from cancelled_run [OF start set e(2) st_def [folded a] _ _ idle rounds(2) q(1) held this q(2), of later] rounds(1)
    show "\<exists>s'. run_loop parse ser enc (de_loop e) request s = (Done report, s')"
      by (auto simp: report_def a source_reason_def)
  qed
  then have "cancel_held_loop parse ser enc e = Done report"
    by (simp add: cancel_held_loop_def tools(1)) (simp add: report_def agent_report_def)
  then show ?thesis by (simp add: report_def agent_report_def g0 saturating_add_def)
qed

text \<open>The loop whose configuration is replaced, and what the host asserts about its report.\<close>

lemma input_update_report:
  assumes "serde_json parse ser" "updated_config ser = Some cfg"
    and "plays_two_rounds parse ser enc (map_option FirstModel (fake_descriptor (lit ''first'') True)) (clock_toolset ser)
       [X_Update cfg] (Some (lit ''please focus on the time'')) e"
  shows "\<exists>report. input_update_boundaries parse ser enc e = Done report \<and> boundary_asserts report
     \<and> rep_outcome report = LO_Completed \<and> report_texts report = [lit ''after-update'']
     \<and> rep_final_config_revision report = ConfigRevision_next ConfigRevision_INITIAL
     \<and> (\<exists>ident request. start_request (FirstModel (fake ''first'' True)) clock_tools = Some request
          \<and> rep_appended report = two_round_items ident request [UI_Text (BoundedText (lit ''please focus on the time''))] cfg
               (lit ''after-update''))"
proof -
  have play: "plays_two_rounds parse ser enc (Some (FirstModel (fake ''first'' True))) (clock_toolset ser)
       [X_Update cfg] (Some (lit ''please focus on the time'')) e" using assms(3) by simp
  have pushed: "case Some (lit ''please focus on the time'') of None \<Rightarrow> given = [] | Some line \<Rightarrow>
        given = [UI_Text (BoundedText line)] \<and> line \<noteq> [] \<and> valid_text line MAX_MODEL_MESSAGE_TEXT_BYTES False"
    if "given = [UI_Text (BoundedText (lit ''please focus on the time''))]" for given
    using that steering_input by simp
  obtain ident request cfg' and g :: "(DemoModel, ClockTool, unit, BoundedText option) agent" where run:
     "host_drive parse ser enc e (Some (FirstModel (fake ''first'' True))) (clock_toolset ser) = Done (agent_report ident LO_Completed g)"
     "ag_history g = two_round_items ident request [UI_Text (BoundedText (lit ''please focus on the time''))] cfg' (lit ''after-update'')"
     "ag_requests g = 2" "ag_rounds g = 1" "ag_revision g = (case Some (ConfigRevision_next ConfigRevision_INITIAL, cfg) of Some (r, _) \<Rightarrow> r | None \<Rightarrow> ConfigRevision_INITIAL)"
     "start_request (FirstModel (fake ''first'' True)) clock_tools = Some request"
     "cfg' = (case Some (ConfigRevision_next ConfigRevision_INITIAL, cfg) of Some (_, c') \<Rightarrow> c' | None \<Rightarrow> lq_config request)"
    by (rule two_rounds_run [OF assms(1) play _ pushed [OF refl] first_then_second [OF assms(1,2)] _ _ short_texts(1) [THEN conjunct1]
          short_texts(1) [THEN conjunct2, THEN conjunct1] short_texts(1) [THEN conjunct2, THEN conjunct2]]) simp_all
  define report where "report = agent_report ident LO_Completed g"
  have report: "rep_requests report = 2" "report_texts report = [lit ''after-update'']" "rep_outcome report = LO_Completed"
    "rep_final_config_revision report = ConfigRevision_next ConfigRevision_INITIAL"
    using two_round_texts_of [OF run(2)] run(3,5) by (simp_all add: report_def agent_report_def)
  have "list_ex (\<lambda>item. case item of
          HI_User user \<Rightarrow> UserInput_as_text (uh_input user) = lit ''please focus on the time'' | _ \<Rightarrow> False) (rep_appended report)"
    by (simp add: report_def agent_report_def run(2) two_round_items_def steering_def UserInput_as_text_def)
  then have asserts: "boundary_asserts report" by (simp add: boundary_asserts_def report sublist_two)
  have "input_update_boundaries parse ser enc e = Done report"
    using asserts run(1) by (simp add: input_update_boundaries_def report_def)
  moreover have "rep_appended report = two_round_items ident request [UI_Text (BoundedText (lit ''please focus on the time''))] cfg
      (lit ''after-update'')" using run(2,7) by (simp add: report_def agent_report_def)
  ultimately show ?thesis using asserts report run(6) by blast
qed

end
