(* ===== verification/Event_Log.thy ===== *)
theory Event_Log
  imports Runner_Properties
begin

text \<open>
  A program logic for what a step of the runner emits.  \<open>logged\<close> speaks of the events emitted so
  far, of the value, wait or panic the step ends with and of the state it leaves; it also says that
  the event channel influences neither.  \<open>logs\<close> is its form for one invariant on waits and panics.
\<close>

subsection \<open>The calculus\<close>

definition logged ::
  "LoopEvent list \<Rightarrow> ('m, 't, 'p, 'q, 'a) step \<Rightarrow>
     (LoopEvent list \<Rightarrow> 'a async \<Rightarrow> ('m, 't, 'p, 'q) runner \<Rightarrow> bool) \<Rightarrow> ('m, 't, 'p, 'q) runner \<Rightarrow> bool" where
  "logged es f Q s \<longleftrightarrow>
     (\<exists>ops. (\<forall>k. f (s\<lparr>rn_sink := k\<rparr>) = (fst (f s), (snd (f s))\<lparr>rn_sink := fold sink_step ops k\<rparr>))
        \<and> Q (es @ emitted ops) (fst (f s)) (snd (f s)))"

definition logs ::
  "(LoopEvent list \<Rightarrow> bool) \<Rightarrow> LoopEvent list \<Rightarrow> ('m, 't, 'p, 'q, 'a) step \<Rightarrow>
     ('a \<Rightarrow> LoopEvent list \<Rightarrow> ('m, 't, 'p, 'q) runner \<Rightarrow> bool) \<Rightarrow> ('m, 't, 'p, 'q) runner \<Rightarrow> bool" where
  "logs ok es f G s = logged es f (\<lambda>es r t. case r of Done a \<Rightarrow> G a es t | _ \<Rightarrow> ok es) s"

lemma logged_mono:
  assumes "logged es f Q s" "\<And>es r t. Q es r t \<Longrightarrow> Q' es r t"
  shows "logged es f Q' s"
  using assms unfolding logged_def by blast

lemma logs_mono:
  assumes "logs ok es f G s" "\<And>a es t. G a es t \<Longrightarrow> G' a es t"
  shows "logs ok es f G' s"
  using assms(1) unfolding logs_def by (rule logged_mono) (use assms(2) in \<open>auto split: async.splits\<close>)

text \<open>What another logic proves of the value and the state may be added.\<close>

lemma logged_wp:
  assumes "logged es f Q s" "wp f P E s"
  shows "logged es f (\<lambda>es r t. Q es r t \<and> (\<forall>a. r = Done a \<longrightarrow> P a t) \<and> (r = Aborted \<longrightarrow> E t)) s"
  using assms unfolding logged_def wp_def by (auto split: prod.splits async.splits)

lemma logs_wp:
  assumes "logs ok es f G s" "wp f P E s"
  shows "logs ok es f (\<lambda>a es t. G a es t \<and> P a t) s"
  using logged_wp [OF assms(1) [unfolded logs_def] assms(2)] unfolding logs_def
  by (rule logged_mono) (auto split: async.splits)

named_theorems log_rules

lemma logged_bind:
  assumes "logged es f (\<lambda>es r t. case r of Done a \<Rightarrow> logged es (g a) Q t
      | Pending \<Rightarrow> Q es Pending t | Aborted \<Rightarrow> Q es Aborted t) s"
  shows "logged es (bind_run f g) Q s"
proof -
  obtain r t where f: "f s = (r, t)" by fastforce
  obtain ops where ops: "\<And>k. f (s\<lparr>rn_sink := k\<rparr>) = (r, t\<lparr>rn_sink := fold sink_step ops k\<rparr>)"
    and post: "case r of Done a \<Rightarrow> logged (es @ emitted ops) (g a) Q t
      | Pending \<Rightarrow> Q (es @ emitted ops) Pending t | Aborted \<Rightarrow> Q (es @ emitted ops) Aborted t"
    using assms by (auto simp: logged_def f)
  show ?thesis
  proof (cases r)
    case (Done a)
    with post obtain ops' where "\<And>k. g a (t\<lparr>rn_sink := k\<rparr>) = (fst (g a t), (snd (g a t))\<lparr>rn_sink := fold sink_step ops' k\<rparr>)"
      "Q (es @ emitted ops @ emitted ops') (fst (g a t)) (snd (g a t))"
      by (auto simp: logged_def)
    then show ?thesis unfolding logged_def
      by (intro exI [of _ "ops @ ops'"]) (simp add: bind_run_def f ops Done)
  qed (use post in \<open>auto simp: logged_def bind_run_def f ops intro!: exI [of _ ops]\<close>)
qed

lemma logs_bind [log_rules]:
  "logs ok es f (\<lambda>a es t. logs ok es (g a) G t) s \<Longrightarrow> logs ok es (bind_run f g) G s"
  unfolding logs_def by (rule logged_bind, erule logged_mono) (auto split: async.splits)

lemma logs_then [log_rules]:
  "logs ok es f (\<lambda>_ es t. logs ok es g G t) s \<Longrightarrow> logs ok es (then_run f g) G s"
  unfolding then_run_def by (rule logs_bind)

text \<open>A step that neither emits nor looks at the channel.\<close>

lemma logged_silent:
  assumes "\<And>k. f (s\<lparr>rn_sink := k\<rparr>) = (r, t\<lparr>rn_sink := k\<rparr>)" "f s = (r, t)" "Q es r t"
  shows "logged es f Q s"
  using assms unfolding logged_def by (intro exI [of _ "[]"]) simp

lemma logs_return [log_rules]: "G a es s \<Longrightarrow> logs ok es (return_run a) G s"
  unfolding logs_def by (rule logged_silent [where r = "Done a" and t = s]) (simp_all add: return_run_def)

lemma logs_lift [log_rules]: "(\<And>a. r = Done a \<Longrightarrow> G a es s) \<Longrightarrow> ok es \<Longrightarrow> logs ok es (lift_run r) G s"
  unfolding logs_def by (rule logged_silent [where r = r and t = s]) (simp_all add: lift_run_def split: async.split)

lemma logs_expect [log_rules]: "(\<And>a. x = Some a \<Longrightarrow> G a es s) \<Longrightarrow> ok es \<Longrightarrow> logs ok es (expect_run x) G s"
  unfolding expect_run_def by (rule logs_lift) (auto split: option.splits)

lemma logs_gets [log_rules]:
  assumes "\<And>k. h (s\<lparr>rn_sink := k\<rparr>) = h s" "G (h s) es s"
  shows "logs ok es (gets_run h) G s"
  unfolding logs_def using assms(2) assms(1)
  by (intro logged_silent [where r = "Done (h s)" and t = s]) (simp_all add: gets_run_def)

lemma logs_modify [log_rules]:
  assumes "\<And>k. h (s\<lparr>rn_sink := k\<rparr>) = (h s)\<lparr>rn_sink := k\<rparr>" "G () es (h s)"
  shows "logs ok es (modify_run h) G s"
  unfolding logs_def using assms
  by (intro logged_silent [where r = "Done ()" and t = "h s"]) (simp_all add: modify_run_def)

lemma logs_with_state [log_rules]:
  assumes "\<And>k. g (s\<lparr>rn_sink := k\<rparr>) = g s" "logs ok es (g s) G s"
  shows "logs ok es (with_state g) G s"
  using assms unfolding logs_def logged_def with_state_def by simp

lemma logs_on_control [log_rules]:
  "G () es (s\<lparr>rn_control := f (rn_control s)\<rparr>) \<Longrightarrow> logs ok es (on_control f) G s"
  unfolding on_control_def by (rule logs_modify) simp_all

lemma logs_on_control_get [log_rules]:
  "R (snd (g (rn_control s))) es (s\<lparr>rn_control := fst (g (rn_control s))\<rparr>) \<Longrightarrow> logs ok es (on_control_get g) R s"
  unfolding on_control_get_def by (intro log_rules) simp_all

lemma logs_interfere [log_rules]:
  "G () es (s\<lparr>rn_control := fold (act ser) ops (rn_control s)\<rparr>) \<Longrightarrow> logs ok es (interfere ser ops) G s"
  unfolding interfere_def by (rule logs_on_control)

text \<open>The two operations on the channel.  The state after an emission is given up to its channel.\<close>

lemma logs_emit [log_rules]:
  assumes "\<And>k. G () (es @ [e]) (s\<lparr>rn_sink := k\<rparr>)" shows "logs ok es (emit e) G s"
  unfolding logs_def logged_def emit_def modify_run_def using assms
  by (intro exI [of _ "[Op_Emit e]"]) simp

lemma logs_record [log_rules]:
  assumes "\<And>k. G () es (s\<lparr>rn_sink := k\<rparr>)" shows "logs ok es (record_dropped_run n) G s"
  unfolding logs_def logged_def record_dropped_run_def modify_run_def using assms
  by (intro exI [of _ "[Op_Record n]"]) simp

lemma logs_publish [log_rules]:
  assumes "\<And>k. G () (es @ [EV_StateChanged st]) (s\<lparr>rn_control := publish_state st (rn_control s), rn_sink := k\<rparr>)"
  shows "logs ok es (publish st) G s"
  unfolding publish_def by (intro log_rules) (use assms in simp)

end
