(* ===== verification/Event_Protocol.thy ===== *)
theory Event_Protocol
  imports Event_Log
begin

text \<open>
  The order of the events of one loop, \<^verbatim>\<open>src/docs/contracts/event-stream.md\<close> and
  \<^verbatim>\<open>src/docs/contracts/agent-loop.md\<close>, as an automaton that watches the stream of an observer, and
  the simulation that shows that the runner of \<^verbatim>\<open>agent_loop/runner.rs\<close> never leaves it.
\<close>

subsection \<open>The protocol\<close>

datatype phase =
    Opening | Idle | Preparing | Requested ModelRef | Calling | Batch | In_Call ToolCallId
  | Asking ToolCallId PendingInteraction | Waiting ToolCallId InteractionId | Answered ToolCallId
  | Finishing | Sealed | Closed LoopOutcomeSummary

text \<open>
  What an observer knows: the phase, the last state announced, the index of the request that is
  prepared or running, and of the requests the last index, their number and the revision in use.
\<close>

record event_view =
  vw_phase :: phase
  vw_state :: LoopState
  vw_index :: u32
  vw_issued :: "u32 option"
  vw_requests :: u32
  vw_revision :: ConfigRevision

definition must :: "bool \<Rightarrow> 'a \<Rightarrow> 'a option" where
  "must b x = (if b then Some x else None)"

fun may_finish :: "phase \<Rightarrow> bool" where
  "may_finish Idle = True"
| "may_finish Preparing = True"
| "may_finish Calling = True"
| "may_finish Batch = True"
| "may_finish (In_Call c) = True"
| "may_finish (Waiting c i) = True"
| "may_finish _ = False"

text \<open>A batch is left for the next request, so the index of the preparation after it is one higher.\<close>

definition next_index :: "event_view \<Rightarrow> u32" where
  "next_index v = (if vw_phase v = Batch then saturating_add (vw_index v) 1 else vw_index v)"

definition final_state :: "LoopId \<Rightarrow> LoopStatus \<Rightarrow> event_view \<Rightarrow> LoopState" where
  "final_state i status v =
     round_state i status (case vw_issued v of Some n \<Rightarrow> n | None \<Rightarrow> 0) (vw_revision v) (lst_model (vw_state v))"

definition observe_state :: "LoopId \<Rightarrow> LoopState \<Rightarrow> event_view \<Rightarrow> event_view option" where
  "observe_state i st v =
     (case lst_status st of
        LS_Starting \<Rightarrow>
          must (vw_phase v \<in> {Idle, Preparing, Batch} \<and> st = LoopState_new i LS_Starting (next_index v) (vw_revision v))
            (v\<lparr>vw_phase := Preparing, vw_state := st, vw_index := next_index v\<rparr>)
      | LS_RunningModel \<Rightarrow>
          (case vw_phase v of
             Requested m \<Rightarrow> must (st = round_state i LS_RunningModel (vw_index v) (vw_revision v) (Some m))
               (v\<lparr>vw_phase := Calling, vw_state := st\<rparr>)
           | _ \<Rightarrow> None)
      | LS_RunningTools \<Rightarrow>
          (case vw_phase v of
             Calling \<Rightarrow> must (st = (vw_state v)\<lparr>lst_status := LS_RunningTools\<rparr>) (v\<lparr>vw_phase := Batch, vw_state := st\<rparr>)
           | Answered c \<Rightarrow> must (st = (vw_state v)\<lparr>lst_status := LS_RunningTools, lst_pending_interaction := None\<rparr>)
               (v\<lparr>vw_phase := In_Call c, vw_state := st\<rparr>)
           | _ \<Rightarrow> None)
      | LS_WaitingForInput \<Rightarrow>
          (case (vw_phase v, lst_pending_interaction st) of
             (In_Call c, Some p) \<Rightarrow>
               must (pi_tool_call_id p = c
                   \<and> st = (vw_state v)\<lparr>lst_status := LS_WaitingForInput, lst_pending_interaction := Some p\<rparr>)
                 (v\<lparr>vw_phase := Asking c p, vw_state := st\<rparr>)
           | _ \<Rightarrow> None)
      | LS_Finishing \<Rightarrow>
          must (may_finish (vw_phase v) \<and> st = final_state i LS_Finishing v)
            (v\<lparr>vw_phase := Finishing, vw_state := st\<rparr>)
      | LS_Finished \<Rightarrow>
          must (vw_phase v = Finishing \<and> st = final_state i LS_Finished v) (v\<lparr>vw_phase := Sealed, vw_state := st\<rparr>))"

fun observe :: "LoopId \<Rightarrow> LoopEvent \<Rightarrow> event_view \<Rightarrow> event_view option" where
  "observe i (EV_Started j) v = must (j = i \<and> vw_phase v = Opening) (v\<lparr>vw_phase := Idle\<rparr>)"
| "observe i (EV_StateChanged st) v = observe_state i st v"
| "observe i (EV_RequestStarted j n r m reasoning) v =
     must (j = i \<and> vw_phase v = Preparing \<and> n = vw_index v)
       (v\<lparr>vw_phase := Requested m, vw_issued := Some n, vw_requests := saturating_add (vw_requests v) 1, vw_revision := r\<rparr>)"
| "observe i (EV_OutputDelta j n channel delta) v = must (j = i \<and> vw_phase v = Calling \<and> n = vw_index v) v"
| "observe i (EV_ToolStarted j n c name) v =
     must (j = i \<and> vw_phase v = Batch \<and> n = vw_index v) (v\<lparr>vw_phase := In_Call c\<rparr>)"
| "observe i (EV_ToolProgress j n c p) v = must (j = i \<and> vw_phase v = In_Call c \<and> n = vw_index v) v"
| "observe i (EV_ToolFinished j n c outcome bytes) v =
     must (j = i \<and> vw_phase v = In_Call c \<and> n = vw_index v) (v\<lparr>vw_phase := Batch\<rparr>)"
| "observe i (EV_InteractionRequested j p) v =
     (case vw_phase v of
        Asking c q \<Rightarrow> must (j = i \<and> p = q) (v\<lparr>vw_phase := Waiting c (pi_interaction_id p)\<rparr>)
      | _ \<Rightarrow> None)"
| "observe i (EV_InteractionResolved j ii) v =
     (case vw_phase v of
        Waiting c waited \<Rightarrow> must (j = i \<and> ii = waited) (v\<lparr>vw_phase := Answered c\<rparr>)
      | _ \<Rightarrow> None)"
| "observe i (EV_Finished j outcome) v = must (j = i \<and> vw_phase v = Sealed) (v\<lparr>vw_phase := Closed outcome\<rparr>)"

fun watch :: "LoopId \<Rightarrow> event_view \<Rightarrow> LoopEvent list \<Rightarrow> event_view option" where
  "watch i v [] = Some v"
| "watch i v (e # es) = Option.bind (observe i e v) (\<lambda>w. watch i w es)"

definition first_view :: "LoopState \<Rightarrow> event_view" where
  "first_view st = \<lparr>vw_phase = Opening, vw_state = st, vw_index = 0, vw_issued = None, vw_requests = 0,
     vw_revision = ConfigRevision_INITIAL\<rparr>"

lemma must_Some [simp]: "(must b x = Some y) = (b \<and> y = x)" "must True x = Some x"
  by (auto simp: must_def)

lemma watch_append: "watch i v (es @ fs) = Option.bind (watch i v es) (\<lambda>w. watch i w fs)"
  by (induction es arbitrary: v) (simp_all split: Option.bind_split)

lemma watch_snoc: "watch i v es = Some w \<Longrightarrow> watch i v (es @ [e]) = observe i e w"
  by (simp add: watch_append)

subsection \<open>Tool events and the history\<close>

text \<open>What a finished call announces, what a result of the history says, and the calls announced.\<close>

type_synonym call_note = "u32 \<times> ToolCallId \<times> ToolResultOutcome \<times> nat"

fun finishes :: "LoopEvent list \<Rightarrow> call_note list" where
  "finishes [] = []"
| "finishes (EV_ToolFinished i n c outcome bytes # es) = (n, c, outcome, bytes) # finishes es"
| "finishes (e # es) = finishes es"

fun started_calls :: "LoopEvent list \<Rightarrow> ToolCallId list" where
  "started_calls [] = []"
| "started_calls (EV_ToolStarted i n c name # es) = c # started_calls es"
| "started_calls (e # es) = started_calls es"

definition result_note :: "ToolResultHistory \<Rightarrow> call_note" where
  "result_note r = (th_request_index r, th_call_id r, th_outcome r, str_len (as_str (out_content (th_output r))))"

fun result_notes :: "HistoryItem list \<Rightarrow> call_note list" where
  "result_notes [] = []"
| "result_notes (HI_ToolResult r # h) = result_note r # result_notes h"
| "result_notes (x # h) = result_notes h"

definition note_outcome :: "call_note \<Rightarrow> ToolResultOutcome" where "note_outcome x = fst (snd (snd x))"

text \<open>
  The results no event announces: those of the calls that were open when a loop ended in its tool
  phase, all cancelled, or all failed because the loop was at its round limit.
\<close>

definition settled_by_path :: "FailPath \<Rightarrow> call_note list \<Rightarrow> bool" where
  "settled_by_path path xs \<longleftrightarrow> xs = []
     \<or> (path \<noteq> FP_Completed \<and> (\<forall>x \<in> set xs. note_outcome x = TR_Cancelled))
     \<or> (path = FP_MaxToolRounds \<and> (\<forall>x \<in> set xs. note_outcome x = TR_Failed))"

definition settled_at_end :: "LoopOutcome \<Rightarrow> call_note list \<Rightarrow> bool" where
  "settled_at_end outcome xs \<longleftrightarrow> xs = []
     \<or> (outcome \<noteq> LO_Completed \<and> (\<forall>x \<in> set xs. note_outcome x = TR_Cancelled))
     \<or> ((case outcome of
           LO_Completed \<Rightarrow> False
         | LO_Cancelled reason \<Rightarrow> True
         | LO_Failed f \<Rightarrow> lf_kind f = LF_MaxToolRounds) \<and> (\<forall>x \<in> set xs. note_outcome x = TR_Failed))"

lemma settled_nil [simp]: "settled_by_path path []" "settled_at_end outcome []"
  by (simp_all add: settled_by_path_def settled_at_end_def)

lemma settled_by_pathI:
  "path \<noteq> FP_Completed \<Longrightarrow> \<forall>x \<in> set xs. note_outcome x = TR_Cancelled \<Longrightarrow> settled_by_path path xs"
  "\<forall>x \<in> set xs. note_outcome x = TR_Failed \<Longrightarrow> settled_by_path FP_MaxToolRounds xs"
  by (simp_all add: settled_by_path_def)

lemma settled_path_outcome:
  assumes "settled_by_path path xs" "outcome_for c path = Some outcome"
  shows "settled_at_end outcome xs" "settled_at_end (LO_Cancelled reason) xs"
proof -
  have "path \<noteq> FP_Completed \<longrightarrow> outcome \<noteq> LO_Completed"
    by (rule outcome_for_Some [of c path]) (use assms(2) in auto)
  moreover have "path = FP_MaxToolRounds \<longrightarrow> (\<exists>f. outcome = LO_Failed f \<and> lf_kind f = LF_MaxToolRounds)"
    using assms(2) by (auto simp: outcome_for_def)
  ultimately show "settled_at_end outcome xs" "settled_at_end (LO_Cancelled reason) xs"
    using assms(1) by (auto simp: settled_by_path_def settled_at_end_def)
qed

lemma notes_append [simp]:
  "finishes (xs @ ys) = finishes xs @ finishes ys"
  "started_calls (xs @ ys) = started_calls xs @ started_calls ys"
  "result_notes (h @ h') = result_notes h @ result_notes h'"
proof -
  show "finishes (xs @ ys) = finishes xs @ finishes ys" by (induction xs rule: finishes.induct) simp_all
  show "started_calls (xs @ ys) = started_calls xs @ started_calls ys" by (induction xs rule: started_calls.induct) simp_all
  show "result_notes (h @ h') = result_notes h @ result_notes h'" by (induction h rule: result_notes.induct) simp_all
qed

lemma result_notes_users [simp]: "result_notes (map (\<lambda>x. HI_User (f x)) xs) = []"
  by (induction xs) simp_all

definition accounted :: "('m, 't, 'p, 'q) runner \<Rightarrow> call_note list \<times> ToolCallId list" where
  "accounted s = (result_notes (wh_appended (rn_working s)), rn_executed s)"

lemma accounted_simps [simp]:
  "accounted (s\<lparr>rn_control := c\<rparr>) = accounted s" "accounted (s\<lparr>rn_sink := k\<rparr>) = accounted s"
  "accounted (s\<lparr>rn_working := append_assistant a (rn_working s)\<rparr>) = accounted s"
  "accounted (s\<lparr>rn_working := fold (\<lambda>x. append_user (f x)) xs (rn_working s)\<rparr>) = accounted s"
proof -
  have "wh_appended (fold (\<lambda>x. append_user (f x)) xs w) = wh_appended w @ map (\<lambda>x. HI_User (f x)) xs" for w
    by (induction xs arbitrary: w) (simp_all add: append_user_def)
  then show "accounted (s\<lparr>rn_working := fold (\<lambda>x. append_user (f x)) xs (rn_working s)\<rparr>) = accounted s"
    by (simp add: accounted_def)
qed (simp_all add: accounted_def append_assistant_def)

text \<open>
  The results of the history are those announced, in order, and after them those settled without an
  announcement; and no tool ran unannounced.
\<close>

definition noted :: "call_note list \<Rightarrow> ToolCallId list \<Rightarrow> LoopEvent list \<Rightarrow> call_note list \<times> ToolCallId list \<Rightarrow> bool" where
  "noted unannounced before es x \<longleftrightarrow> fst x = finishes es @ unannounced \<and> set (snd x) \<subseteq> set before \<union> set (started_calls es)"

subsection \<open>The simulation\<close>

text \<open>Where a run began, and what it has settled without an announcement.\<close>

record origin =
  or_view :: event_view
  or_executed :: "ToolCallId list"
  or_settled :: "call_note list"

text \<open>The runner and its observer: the observer knows the published state and the applied revision.\<close>

definition tracks :: "origin \<Rightarrow> LoopId \<Rightarrow> event_view \<Rightarrow> LoopEvent list \<Rightarrow> ('m, 't, 'p, 'q) runner \<Rightarrow> bool" where
  "tracks v0 i v es s \<longleftrightarrow> rn_id s = i \<and> vw_phase (or_view v0) = Opening \<and> watch i (or_view v0) es = Some v
     \<and> current_state (rn_control s) = vw_state v \<and> applied_revision (rn_control s) = vw_revision v
     \<and> noted (or_settled v0) (or_executed v0) es (accounted s)"

definition orderly :: "origin \<Rightarrow> LoopId \<Rightarrow> LoopEvent list \<Rightarrow> bool" where
  "orderly v0 i es \<longleftrightarrow> watch i (or_view v0) es \<noteq> None"

lemma orderly_settled [simp]: "orderly (v0\<lparr>or_settled := xs\<rparr>) = orderly v0"
  by (simp add: orderly_def fun_eq_iff)

lemma tracks_orderly: "tracks v0 i v es s \<Longrightarrow> orderly v0 i es"
  by (simp add: tracks_def orderly_def)

definition shown :: "('m, 't, 'p, 'q) control \<Rightarrow> LoopState \<times> ConfigRevision" where
  "shown c = (current_state c, applied_revision c)"

lemma tracks_cong:
  "tracks v0 i v es s \<Longrightarrow> rn_id t = rn_id s \<Longrightarrow> shown (rn_control t) = shown (rn_control s) \<Longrightarrow> accounted t = accounted s
     \<Longrightarrow> tracks v0 i v es t"
  by (simp add: tracks_def shown_def)

text \<open>A call is announced before it is open.\<close>

fun current_call :: "phase \<Rightarrow> ToolCallId option" where
  "current_call (In_Call c) = Some c"
| "current_call (Asking c p) = Some c"
| "current_call (Waiting c x) = Some c"
| "current_call (Answered c) = Some c"
| "current_call _ = None"

lemma call_announced:
  assumes "watch i v0 es = Some v" "vw_phase v0 = Opening" "current_call (vw_phase v) = Some c"
  shows "c \<in> set (started_calls es)"
  using assms
proof (induction es arbitrary: v c rule: rev_induct)
  case (snoc e es)
  then obtain w where w: "watch i v0 es = Some w" "observe i e w = Some v"
    by (auto simp: watch_append split: Option.bind_splits)
  with snoc.IH [OF w(1) snoc.prems(2)] snoc.prems(3) show ?case
    by (cases e) (auto simp: observe_state_def split: phase.splits LoopStatus.splits option.splits)
qed simp

lemma tracks_executed:
  assumes "tracks v0 i v es s" "vw_phase v = In_Call c"
  shows "tracks v0 i v es (s\<lparr>rn_executed := rn_executed s @ [c]\<rparr>)"
  using call_announced [of i "or_view v0" es v c] assms by (auto simp: tracks_def noted_def accounted_def)

text \<open>A result that no event announces.\<close>

lemma tracks_settled:
  assumes "tracks v0 i v es s"
  shows "tracks (v0\<lparr>or_settled := or_settled v0 @ [result_note r]\<rparr>) i v es
     (s\<lparr>rn_working := append_tool_result r (rn_working s)\<rparr>)"
  using assms by (auto simp: tracks_def noted_def accounted_def append_tool_result_def)

text \<open>The calculus over the simulation: the state itself is no longer needed.\<close>

lemma emit_tracks:
  assumes "tracks v0 i v es s" "observe i e v = Some w" "vw_state w = vw_state v" "vw_revision w = vw_revision v"
    and "\<And>es t. tracks v0 i w es t \<Longrightarrow> G () es t" "finishes [e] = []"
  shows "logs ok es (emit e) G s"
proof (rule logs_emit, rule assms(5))
  fix k
  show "tracks v0 i w (es @ [e]) (s\<lparr>rn_sink := k\<rparr>)" using assms(1-4,6) by (auto simp: tracks_def watch_snoc noted_def)
qed

text \<open>A finished call: its event and its result belong together.\<close>

lemma finish_call_tracks:
  assumes t: "tracks v0 i v es s" "vw_phase v = In_Call c" "vw_index v = n" "th_call_id r = c" "th_request_index r = n"
      "or_settled v0 = []"
    and "\<And>es t. tracks v0 i (v\<lparr>vw_phase := Batch\<rparr>) es t \<Longrightarrow> logs ok es g G t"
  shows "logs ok es (then_run (emit (EV_ToolFinished i n c (th_outcome r) (str_len (as_str (out_content (th_output r))))))
          (then_run (append_result r) g)) G s"
  unfolding append_result_def
proof (rule logs_then, rule logs_emit, rule logs_then, rule logs_modify, simp, rule assms(7))
  fix k
  show "tracks v0 i (v\<lparr>vw_phase := Batch\<rparr>) (es @ [EV_ToolFinished i n c (th_outcome r)
                       (str_len (as_str (out_content (th_output r))))])
     (s\<lparr>rn_sink := k\<rparr>\<lparr>rn_working := append_tool_result r (rn_working (s\<lparr>rn_sink := k\<rparr>))\<rparr>)"
    using t by (auto simp: tracks_def watch_snoc noted_def accounted_def append_tool_result_def result_note_def)
qed

lemma publish_tracks:
  assumes "tracks v0 i v es s" "observe_state i st v = Some w" "vw_state w = st" "vw_revision w = vw_revision v"
    and "\<And>es t. tracks v0 i w es t \<Longrightarrow> G () es t"
  shows "logs ok es (publish st) G s"
proof (rule logs_publish, rule assms(5))
  fix k
  show "tracks v0 i w (es @ [EV_StateChanged st]) (s\<lparr>rn_control := publish_state st (rn_control s), rn_sink := k\<rparr>)"
    using assms(1-4) by (auto simp: tracks_def watch_snoc noted_def publish_state_def current_state_def applied_revision_def)
qed

lemma state_tracks:
  "tracks v0 i v es s \<Longrightarrow> G (vw_state v) es s \<Longrightarrow> logs ok es (gets_run (\<lambda>s. current_state (rn_control s))) G s"
  by (rule logs_gets) (simp_all add: tracks_def)

lemma id_tracks: "tracks v0 i v es s \<Longrightarrow> G i es s \<Longrightarrow> logs ok es (gets_run rn_id) G s"
  by (rule logs_gets) (simp_all add: tracks_def)

lemma control_tracks:
  assumes "tracks v0 i v es s" "shown (f (rn_control s)) = shown (rn_control s)" "\<And>t. tracks v0 i v es t \<Longrightarrow> G () es t"
  shows "logs ok es (on_control f) G s"
  by (rule logs_on_control, rule assms(3), rule tracks_cong [OF assms(1)]) (simp_all add: assms(2))

lemma act_shown: "shown (act ser x c) = shown c"
  by (cases x) (auto simp: shown_def current_state_def applied_revision_def act_defs
      split: option.splits result.splits if_splits)

interpretation shown: stable "act ser" "\<lambda>_. True" "\<lambda>c. shown c = k" for ser k by unfold_locales (simp add: act_shown)

lemma acts_shown [simp]: "shown (fold (act ser) xs c) = shown c"
  by (rule shown.acts_stable) simp_all

lemma polls_shown [simp]: "shown (snd (play_polls (act ser) ps c)) = shown c"
  by (rule shown.polls_stable) simp_all

lemma attempts_shown [simp]: "shown (snd (play_attempts (act ser) as c)) = shown c"
  by (rule shown.attempts_stable) (simp_all add: attempt_acts_def list_all_iff)

lemma shown_defs [simp]:
  "shown (fst (take_config c)) = shown c" "shown (take_interaction c) = shown c"
  "shown (fst (oneshot_channel c)) = shown c" "shown (fst (set_interaction slot c)) = shown c"
  "shown (fst (begin_final c)) = shown c" "shown (complete report c) = shown c" "shown (cancel_token c) = shown c"
  by (auto simp: shown_def current_state_def applied_revision_def take_config_def take_interaction_def oneshot_channel_def
      set_interaction_def drop_sender_def begin_final_def close_accepting_def complete_def cancel_token_def split: option.splits)

lemma select_answer_shown [simp]: "shown (snd (select_answer (act ser) deadline reply ps c)) = shown c"
proof (induction ps arbitrary: c)
  case (Cons p ps)
  show ?case
    using Cons.IH [of "fold (act ser) (fst p) c"] by (cases deadline) (simp_all add: Let_def split: oneshot.splits)
qed simp

lemma finish_once_shown: "finish_once c = Some (c', x) \<Longrightarrow> shown c' = shown c"
  by (auto simp: finish_once_def shown_def current_state_def applied_revision_def close_accepting_def
      seal_exchange_simps split: option.splits if_splits prod.splits)

subsection \<open>Tool calls\<close>

lemma tracks_live_port:
  assumes "tracks v0 i v es s"
  shows "logs (orderly v0 i) es (live_port ser d t call) (\<lambda>_. tracks v0 i v) s"
  unfolding live_port_def Let_def
  by (intro log_rules) (use assms in \<open>auto intro: tracks_cong tracks_orderly\<close>)

lemma tracks_result_step:
  assumes "tracks v0 i v es s"
  shows "logs (orderly v0 i) es (result_step f) (\<lambda>_. tracks v0 i v) s"
  unfolding result_step_def
  by (intro log_rules) (use assms in \<open>auto simp: max_output_def intro: tracks_orderly\<close>)

lemma terminal_result_fields:
  "terminal_tool_result ident n c name outcome m mx = Some r \<Longrightarrow>
     th_call_id r = c \<and> th_request_index r = n \<and> th_outcome r = outcome"
  by (auto simp: terminal_tool_result_def)

lemma tracks_settle:
  assumes "tracks v0 i v es s"
  shows "logs (orderly v0 i) es (settle_calls ri calls outcome m)
     (\<lambda>_ es t. \<exists>xs. tracks (v0\<lparr>or_settled := or_settled v0 @ xs\<rparr>) i v es t \<and> (\<forall>x \<in> set xs. note_outcome x = outcome)) s"
  using assms
proof (induction calls arbitrary: s v0)
  case Nil
  then show ?case by (auto intro!: log_rules exI [of _ "[]"])
next
  case (Cons call calls)
  let ?post = "\<lambda>v0 _ es t. \<exists>xs. tracks (v0\<lparr>or_settled := or_settled v0 @ xs\<rparr>) i v es t \<and> (\<forall>x \<in> set xs. note_outcome x = outcome)"
  have rest: "logs (orderly v0 i) es (settle_calls ri calls outcome m) (?post v0)
      (s\<lparr>rn_working := append_tool_result r (rn_working s)\<rparr>)" if r: "th_outcome r = outcome" for r
  proof -
    let ?v0 = "v0\<lparr>or_settled := or_settled v0 @ [result_note r]\<rparr>"
    have "logs (orderly ?v0 i) es (settle_calls ri calls outcome m) (?post ?v0)
        (s\<lparr>rn_working := append_tool_result r (rn_working s)\<rparr>)"
      by (rule Cons.IH [OF tracks_settled [OF Cons.prems]])
    then have "logs (orderly v0 i) es (settle_calls ri calls outcome m) (?post ?v0)
        (s\<lparr>rn_working := append_tool_result r (rn_working s)\<rparr>)" by simp
    then show ?thesis
    proof (rule logs_mono, goal_cases)
      case (1 a es t)
      then obtain xs where "tracks (v0\<lparr>or_settled := or_settled v0 @ (result_note r # xs)\<rparr>) i v es t"
        "\<forall>x \<in> set (result_note r # xs). note_outcome x = outcome"
        using r by (auto simp: note_outcome_def result_note_def)
      then show ?case by blast
    qed
  qed
  show ?case
    unfolding settle_calls.simps append_result_def
    by (intro log_rules)
      (auto simp: max_output_def dest!: terminal_result_fields intro!: rest tracks_orderly [OF Cons.prems])
qed

text \<open>Inside one request only the phase and the announced state change.\<close>

definition onward :: "event_view \<Rightarrow> event_view \<Rightarrow> bool" where
  "onward v w \<longleftrightarrow> vw_index w = vw_index v \<and> vw_issued w = vw_issued v \<and> vw_requests w = vw_requests v
     \<and> vw_revision w = vw_revision v"

lemma onward_simps [simp]:
  "onward v v" "onward v (w\<lparr>vw_phase := p\<rparr>) = onward v w" "onward v (w\<lparr>vw_state := st\<rparr>) = onward v w"
  by (simp_all add: onward_def)

lemma onward_trans [trans]: "onward u v \<Longrightarrow> onward v w \<Longrightarrow> onward u w"
  by (simp add: onward_def)

text \<open>Where a call is after a part of it: still open, or where the loop may end.\<close>

definition in_call ::
  "origin \<Rightarrow> LoopId \<Rightarrow> event_view \<Rightarrow> ToolCallId \<Rightarrow> bool \<Rightarrow> LoopEvent list \<Rightarrow> ('m, 't, 'p, 'q) runner \<Rightarrow> bool" where
  "in_call v0 i v c running es s \<longleftrightarrow> (\<exists>w. tracks v0 i w es s \<and> onward v w
     \<and> (if running then vw_phase w = In_Call c else may_finish (vw_phase w)))"

lemma in_callI:
  "tracks v0 i w es s \<Longrightarrow> onward v w \<Longrightarrow> vw_phase w = In_Call c \<Longrightarrow> in_call v0 i v c running es s"
  "tracks v0 i w es s \<Longrightarrow> onward v w \<Longrightarrow> may_finish (vw_phase w) \<Longrightarrow> in_call v0 i v c False es s"
  by (auto simp: in_call_def)

lemma wait_tracks:
  assumes t: "tracks v0 i v es s" "vw_phase v = In_Call (inv_tool_call_id invocation)"
  shows "logs (orderly v0 i) es (wait_interaction ser invocation ii kind reply polls)
     (\<lambda>r. in_call v0 i v (inv_tool_call_id invocation) (is_ok r)) s"
proof -
  define c where "c = inv_tool_call_id invocation"
  define p where "p = \<lparr>pi_interaction_id = ii, pi_tool_call_id = c, pi_tool_name = inv_tool_name invocation, pi_kind = kind\<rparr>"
  define st where "st = (vw_state v)\<lparr>lst_status := LS_WaitingForInput, lst_pending_interaction := Some p\<rparr>"
  define w where "w = v\<lparr>vw_phase := Asking c p, vw_state := st\<rparr>"
  define x where "x = w\<lparr>vw_phase := Waiting c ii\<rparr>"
  define y where "y = x\<lparr>vw_phase := Answered c\<rparr>"
  define z where "z = y\<lparr>vw_phase := In_Call c, vw_state := (vw_state y)\<lparr>lst_status := LS_RunningTools, lst_pending_interaction := None\<rparr>\<rparr>"
  note defs = p_def st_def w_def x_def y_def z_def observe_state_def
  have resume: "logs (orderly v0 i) es
      (then_run (emit (EV_InteractionResolved i ii))
         (bind_run (gets_run (\<lambda>s. current_state (rn_control s))) (\<lambda>running.
          then_run (publish (running\<lparr>lst_status := LS_RunningTools, lst_pending_interaction := None\<rparr>))
            (return_run (Ok a)))))
      (\<lambda>r. in_call v0 i v c (is_ok r)) s"
    if x: "tracks v0 i x es s" for es s and a :: InteractionAnswer
  proof (rule logs_then, rule emit_tracks [OF x, where w = y], goal_cases)
    case (4 es s)
    show ?case
    proof (rule logs_bind, rule state_tracks [OF 4], rule logs_then, rule publish_tracks [OF 4, where w = z], goal_cases)
      case (4 es s)
      show ?case by (rule logs_return, rule in_callI(1) [OF 4]) (simp_all add: defs)
    qed (simp_all add: defs)
  qed (simp_all add: defs)
  have answered: "logs (orderly v0 i) es (with_state (\<lambda>s.
             (let selected = select_answer (act ser) (lo_deadline (rn_options s)) reply polls (rn_control s) in
              then_run (on_control (\<lambda>_. snd selected)) (lift_run (fst selected))))) (\<lambda>_. tracks v0 i x) s"
    if x: "tracks v0 i x es s" for es s
    by (rule logs_with_state, simp, unfold Let_def, rule logs_then, rule control_tracks [OF x])
      (auto intro!: log_rules tracks_orderly)
  have after: "logs (orderly v0 i) es
      (then_run (on_control take_interaction)
          (case answered of
             Err path \<Rightarrow> return_run (Err path)
           | Ok a \<Rightarrow>
               then_run (emit (EV_InteractionResolved i ii))
               (bind_run (gets_run (\<lambda>s. current_state (rn_control s))) (\<lambda>running.
                then_run (publish (running\<lparr>lst_status := LS_RunningTools, lst_pending_interaction := None\<rparr>))
                  (return_run (Ok a))))))
      (\<lambda>r. in_call v0 i v c (is_ok r)) s"
    if x: "tracks v0 i x es s" for es s and answered :: "(InteractionAnswer, FailPath) result"
  proof (rule logs_then, rule control_tracks [OF x], goal_cases)
    case (2 t)
    then show ?case
      by (cases answered) (auto simp: defs intro!: resume logs_return in_callI(2) [OF 2])
  qed simp
  show ?thesis
    unfolding wait_interaction_def Let_def c_def [symmetric] p_def [symmetric]
  proof (rule logs_bind, rule logs_on_control_get, goal_cases)
    case 1
    let ?s = "s\<lparr>rn_control := fst (set_interaction \<lparr>slot_id = ii, slot_expected = kind, slot_reply = reply\<rparr> (rn_control s))\<rparr>"
    have v: "tracks v0 i v es ?s" by (rule tracks_cong [OF t(1)]) simp_all
    show ?case
    proof (cases "snd (set_interaction \<lparr>slot_id = ii, slot_expected = kind, slot_reply = reply\<rparr> (rn_control s))")
      case (Err e)
      then show ?thesis using t(2) by (auto simp: c_def intro!: logs_return in_callI(2) [OF v])
    next
      case (Ok u)
      show ?thesis
        unfolding Ok result.case
      proof (rule logs_bind, rule state_tracks [OF v], rule logs_then, rule publish_tracks [OF v, where w = w], goal_cases)
        case (4 es s)
        show ?case
        proof (rule logs_bind, rule id_tracks [OF 4], rule logs_then, rule emit_tracks [OF 4, where w = x], goal_cases)
          case (4 es s)
          show ?case by (rule logs_bind, rule logs_mono [OF answered [unfolded Let_def, OF 4]], rule after)
        qed (simp_all add: defs)
      qed (use t(2) in \<open>simp_all add: defs c_def\<close>)
    qed
  qed
qed

lemma ask_tracks:
  assumes t: "tracks v0 i v es s" "vw_phase v = In_Call (inv_tool_call_id invocation)"
  shows "logs (orderly v0 i) es (ask ser invocation kind w) (\<lambda>r. in_call v0 i v (inv_tool_call_id invocation) (is_ok r)) s"
proof -
  have v: "tracks v0 i v es (s\<lparr>rn_control := fst (oneshot_channel (rn_control s))\<rparr>)"
    by (rule tracks_cong [OF t(1)]) simp_all
  have err: "in_call v0 i v (inv_tool_call_id invocation) (is_ok (Err FP_Internal)) es s"
    by (rule in_callI(1) [OF t(1)]) (simp_all add: t(2))
  show ?thesis
    unfolding ask_def
    by (auto intro!: log_rules err tracks_orderly [OF t(1)] wait_tracks [OF v t(2)] split: option.splits result.splits)
qed

lemma progress_tracks:
  assumes "tracks v0 i v es s" "vw_phase v = In_Call c" "vw_index v = n"
  shows "logs (orderly v0 i) es (forward_tool_progress n c ps) (\<lambda>_. tracks v0 i v) s"
  using assms(1)
proof (induction ps arbitrary: es s)
  case (Cons p ps)
  obtain dropped q where p: "p = (dropped, q)" by fastforce
  have same: "tracks v0 i v es (s\<lparr>rn_sink := k\<rparr>)" for k by (rule tracks_cong [OF Cons.prems]) simp_all
  show ?case
    unfolding p forward_tool_progress.simps
    by (rule logs_then, rule logs_record, rule logs_bind, rule id_tracks [OF same], rule logs_then,
        rule emit_tracks [OF same, where w = v], use assms(2,3) in simp_all) (rule Cons.IH)
qed (auto intro!: log_rules)

lemma tool_port_tracks:
  assumes t: "tracks v0 i v es s" "vw_phase v = In_Call (inv_tool_call_id invocation)" "vw_index v = n"
  shows "logs (orderly v0 i) es (run_tool_port ser n invocation deadline env) (\<lambda>_. tracks v0 i v) s"
  unfolding run_tool_port_def
  apply (rule logs_then, rule logs_mono [OF progress_tracks [OF assms]])
  apply (rule logs_bind, rule logs_gets, simp)
  apply (rule logs_bind, rule logs_mono [OF tracks_live_port], assumption)
  apply (rule logs_then, rule logs_modify, simp)
  apply (rule logs_then, rule logs_record)
  apply (rule logs_then, rule logs_mono [OF progress_tracks [where v = v]])
     apply (rule tracks_cong [of _ _ v, OF _ _ _ accounted_simps(2)])
       apply (auto simp: t(2) intro: tracks_executed)[1]
      apply (simp_all add: t(2,3))
  apply (rule logs_return, assumption)
  done

fun is_result :: "ToolStep \<Rightarrow> bool" where
  "is_result (TStep_Result r) = True"
| "is_result (TStep_End p) = False"

text \<open>A part of a call that starts where the call is open.\<close>

lemma in_call_trans: "onward v w \<Longrightarrow> in_call v0 i w c running es s \<Longrightarrow> in_call v0 i v c running es s"
  unfolding in_call_def using onward_trans by blast

lemma in_call_ended: "in_call v0 i v c running es s \<Longrightarrow> in_call v0 i v c False es s"
  unfolding in_call_def by (cases running) auto

text \<open>The observer after a call, and the result of the call if it has one.\<close>

definition call_view ::
  "origin \<Rightarrow> LoopId \<Rightarrow> event_view \<Rightarrow> u32 \<Rightarrow> ToolCallId \<Rightarrow> ToolStep \<Rightarrow> LoopEvent list \<Rightarrow> ('m, 't, 'p, 'q) runner \<Rightarrow> bool" where
  "call_view v0 i v n c r es s \<longleftrightarrow> in_call v0 i v c (is_result r) es s
     \<and> (\<forall>x. r = TStep_Result x \<longrightarrow> th_call_id x = c \<and> th_request_index x = n)"

lemma result_call:
  assumes "in_call v0 i v c True es s" "\<And>ident mx x. f ident mx = Some x \<Longrightarrow> th_call_id x = c \<and> th_request_index x = n"
  shows "logs (orderly v0 i) es (result_step f) (call_view v0 i v n c) s"
proof -
  obtain w where w: "tracks v0 i w es s" "onward v w" "vw_phase w = In_Call c" using assms(1) by (auto simp: in_call_def)
  show ?thesis
    unfolding result_step_def
    by (rule logs_bind, rule logs_with_state, simp add: max_output_def, rule logs_expect, rule logs_return)
      (use assms(1) tracks_orderly [OF w(1)] in \<open>auto simp: call_view_def dest!: assms(2)\<close>)
qed

lemma end_call:
  "in_call v0 i v c running es s \<Longrightarrow> logs (orderly v0 i) es (return_run (TStep_End p)) (call_view v0 i v n c) s"
  by (rule logs_return) (simp add: call_view_def in_call_ended)

lemma call_view_trans: "onward v w \<Longrightarrow> call_view v0 i w n c r es s \<Longrightarrow> call_view v0 i v n c r es s"
  by (auto simp: call_view_def intro: in_call_trans)

lemma result_fields:
  "completed_result ident n invocation output mx = Some r \<Longrightarrow> th_call_id r = inv_tool_call_id invocation \<and> th_request_index r = n"
  "provided_input_result ident n invocation content mx = Some r \<Longrightarrow> th_call_id r = inv_tool_call_id invocation \<and> th_request_index r = n"
  "denied_result ident n invocation reason mx = Some r \<Longrightarrow> th_call_id r = inv_tool_call_id invocation \<and> th_request_index r = n"
  by (auto simp: completed_result_def provided_input_result_def denied_result_def Let_def
      dest: terminal_result_fields split: if_splits result.splits)

lemma provide_tracks:
  assumes t: "tracks v0 i v es s" "vw_phase v = In_Call (inv_tool_call_id invocation)"
  shows "logs (orderly v0 i) es (provide_input ser enc n invocation request w)
     (call_view v0 i v n (inv_tool_call_id invocation)) s"
  unfolding provide_input_def
proof (rule logs_bind, rule logs_mono [OF ask_tracks [OF t]], goal_cases)
  case (1 answered es s)
  then have "orderly v0 i es" by (auto simp: in_call_def intro: tracks_orderly)
  with 1 show ?case
    by (auto intro!: end_call result_call logs_bind logs_expect dest!: result_fields split: result.splits InteractionAnswer.splits)
qed

lemma call_tool_tracks:
  assumes t: "tracks v0 i v es s" "vw_phase v = In_Call (inv_tool_call_id invocation)" "vw_index v = n"
  shows "logs (orderly v0 i) es (call_tool ser enc n invocation env)
     (call_view v0 i v n (inv_tool_call_id invocation)) s"
  unfolding call_tool_def
proof (rule logs_bind, rule logs_with_state, simp, rule logs_expect, rule logs_bind,
    rule logs_mono [OF tool_port_tracks [OF t]], goal_cases)
  case (1 _ port es s)
  have call: "in_call v0 i v (inv_tool_call_id invocation) b es s" for b
    by (rule in_callI(1) [OF 1(2)]) (simp_all add: t(2))
  show ?case
    by (auto intro!: result_call end_call provide_tracks [OF 1(2) t(2)] call dest!: result_fields terminal_result_fields split: ToolPort.splits)
qed (rule tracks_orderly [OF t(1)])

lemma approval_tracks:
  assumes t: "tracks v0 i v es s" "vw_phase v = In_Call (inv_tool_call_id invocation)" "vw_index v = n"
  shows "logs (orderly v0 i) es (seek_approval ser enc n invocation request env)
     (call_view v0 i v n (inv_tool_call_id invocation)) s"
  unfolding seek_approval_def
proof (rule logs_bind, rule logs_mono [OF ask_tracks [OF t(1,2)]], goal_cases)
  case (1 answered es s)
  have call: "logs (orderly v0 i) es (call_tool ser enc n invocation env)
      (call_view v0 i v n (inv_tool_call_id invocation)) s" if ok: "is_ok answered"
  proof -
    obtain w where w: "tracks v0 i w es s" "onward v w" "vw_phase w = In_Call (inv_tool_call_id invocation)"
      using 1 unfolding in_call_def if_P [OF ok] by blast
    show ?thesis
      by (rule logs_mono [OF call_tool_tracks [OF w(1,3)]], use w(2) t(3) in \<open>simp add: onward_def\<close>)
        (rule call_view_trans [OF w(2)])
  qed
  from 1 call show ?case
    by (auto intro!: end_call result_call dest!: result_fields split: result.splits InteractionAnswer.splits ApprovalDecision.splits)
qed

lemma tool_call_tracks:
  assumes t: "tracks v0 i v es s" "vw_phase v = In_Call (inv_tool_call_id invocation)" "vw_index v = n"
  shows "logs (orderly v0 i) es (run_tool_call ser enc n invocation policy env)
     (call_view v0 i v n (inv_tool_call_id invocation)) s"
proof -
  have decided: "logs (orderly v0 i) es (decide_policy ser policy d timeout call) (\<lambda>_. tracks v0 i v) s" for d timeout call
    unfolding decide_policy_def
    by (auto intro!: log_rules logs_mono [OF tracks_live_port [OF t(1)]] split: option.splits) (simp_all add: t(1))
  show ?thesis
    unfolding run_tool_call_def
  proof (rule logs_bind, rule logs_with_state, simp, rule logs_expect, rule logs_bind, rule logs_gets, simp, rule logs_bind,
      rule logs_mono [OF decided], goal_cases)
    case (1 _ step es s)
    have call: "in_call v0 i v (inv_tool_call_id invocation) b es s" for b
      by (rule in_callI(1) [OF 1(2)]) (simp_all add: t(2))
    show ?case
      by (auto intro!: result_call end_call call_tool_tracks [OF 1(2) t(2,3)] approval_tracks [OF 1(2) t(2,3)] call
          dest!: result_fields
          split: PolicyStep.splits)
  qed (rule tracks_orderly [OF t(1)])
qed

lemma start_call_tracks:
  assumes t: "tracks v0 i v es s" "vw_phase v = Batch" "vw_index v = n"
  shows "logs (orderly v0 i) es (start_call ser enc n snapshot call env) (call_view v0 i v n (tc_id call)) s"
proof -
  have cancelled: "in_call v0 i v (tc_id call) False es s" by (rule in_callI(2) [OF t(1)]) (simp_all add: t(2))
  have started: "logs (orderly v0 i) es (then_run (emit (EV_ToolStarted i n (tc_id call) (tc_name call)))
       (run_tool_call ser enc n \<lparr>inv_tool_call_id = tc_id call, inv_tool_name = tc_name call,
             inv_arguments = tc_arguments call\<rparr> (ec_policy snapshot) env))
     (call_view v0 i v n (tc_id call)) s"
  proof (rule logs_then, rule emit_tracks [OF t(1), where w = "v\<lparr>vw_phase := In_Call (tc_id call)\<rparr>"], goal_cases)
    case (4 es s)
    show ?case
      by (rule logs_mono [OF tool_call_tracks [OF 4]]) (simp_all add: t(3), erule call_view_trans [rotated], simp)
  qed (simp_all add: t(2,3))
  show ?thesis
    unfolding start_call_def
  proof (rule logs_bind, rule logs_gets, simp, cases "lc_cancel (rn_control s)", goal_cases)
    case 1
    then show ?case using cancelled by (simp add: end_call)
  next
    case 2
    show ?case
      unfolding if_not_P [OF 2]
      by (rule logs_bind, rule logs_expect, rule logs_bind, rule id_tracks [OF t(1)], rule started)
        (rule tracks_orderly [OF t(1)])
  qed
qed

text \<open>A call never ends the loop as completed.\<close>

lemma wp_any: "wp f (\<lambda>_ _. True) (\<lambda>_. True) s"
  by (auto simp: wp_def split: prod.splits async.splits)

lemma wp_bind_any: "(\<And>a t. wp (g a) Q (\<lambda>_. True) t) \<Longrightarrow> wp (bind_run f g) Q (\<lambda>_. True) s"
  by (rule wp_bindI [OF wp_any])

lemma wp_then_any: "(\<And>t. wp g Q (\<lambda>_. True) t) \<Longrightarrow> wp (then_run f g) Q (\<lambda>_. True) s"
  by (rule wp_thenI [OF wp_any])

lemma select_answer_open: "fst (select_answer ext deadline reply ps c) \<noteq> Done (Err FP_Completed)"
  by (induction ps arbitrary: c) (auto simp: Let_def split: oneshot.splits)

lemma wait_not_completed:
  "wp (wait_interaction ser invocation ii kind reply polls) (\<lambda>r _. r \<noteq> Err FP_Completed) (\<lambda>_. True) s"
  by (auto simp: wait_interaction_def Let_def on_control_get_def on_control_def publish_def emit_def select_answer_open
      split: result.splits async.splits)

lemma ask_not_completed: "wp (ask ser invocation kind w) (\<lambda>r _. r \<noteq> Err FP_Completed) (\<lambda>_. True) s"
  unfolding ask_def by (auto intro!: wp_bind_any wait_not_completed split: option.splits result.splits)

lemma result_step_continues: "wp (result_step f) (\<lambda>r _. r \<noteq> TStep_End FP_Completed) (\<lambda>_. True) s"
  by (auto simp: result_step_def split: option.splits)

lemma tool_port_open: "tool_port outcome \<noteq> TPort_End FP_Completed"
  by (auto simp: tool_port_def split: PortCallOutcome.splits result.splits ToolExecutionOutcome.splits DeadlineSource.splits)

lemma call_tool_continues:
  "wp (call_tool ser enc n invocation env) (\<lambda>r _. r \<noteq> TStep_End FP_Completed) (\<lambda>_. True) s"
proof -
  have port: "wp (run_tool_port ser n invocation deadline env) (\<lambda>r _. r \<noteq> TPort_End FP_Completed) (\<lambda>_. True) s" for deadline s
    unfolding run_tool_port_def by (intro wp_then_any wp_bind_any) (simp add: tool_port_open)
  have input: "wp (provide_input ser enc n invocation request w) (\<lambda>r _. r \<noteq> TStep_End FP_Completed) (\<lambda>_. True) s" for request w s
    unfolding provide_input_def
    by (rule wp_bindI [OF ask_not_completed])
      (auto intro!: result_step_continues split: result.splits InteractionAnswer.splits option.splits)
  show ?thesis
    unfolding call_tool_def
    by (rule wp_bind_any, rule wp_bindI [OF port])
      (auto intro!: input result_step_continues split: ToolPort.splits)
qed

lemma start_call_continues:
  "wp (start_call ser enc n snapshot call env) (\<lambda>r _. r \<noteq> TStep_End FP_Completed) (\<lambda>_. True) s"
proof -
  have approval: "wp (seek_approval ser enc n invocation request env) (\<lambda>r _. r \<noteq> TStep_End FP_Completed) (\<lambda>_. True) s"
    for invocation request s
    unfolding seek_approval_def
    by (rule wp_bindI [OF ask_not_completed])
      (auto intro!: call_tool_continues result_step_continues split: result.splits InteractionAnswer.splits ApprovalDecision.splits)
  have call: "wp (run_tool_call ser enc n invocation policy env) (\<lambda>r _. r \<noteq> TStep_End FP_Completed) (\<lambda>_. True) s"
    for invocation policy s
    unfolding run_tool_call_def
    by (intro wp_bind_any) (auto intro!: approval call_tool_continues result_step_continues split: PolicyStep.splits)
  show ?thesis
    unfolding start_call_def by (intro wp_bind_any) (auto intro!: wp_bind_any wp_then_any call split: option.splits)
qed

text \<open>A batch that ends the loop has settled the open calls as cancelled.\<close>

definition in_batch ::
  "origin \<Rightarrow> LoopId \<Rightarrow> event_view \<Rightarrow> FailPath option \<Rightarrow> LoopEvent list \<Rightarrow> ('m, 't, 'p, 'q) runner \<Rightarrow> bool" where
  "in_batch v0 i v ended es s \<longleftrightarrow> (\<exists>w. onward v w
     \<and> (case ended of
          None \<Rightarrow> tracks v0 i w es s \<and> vw_phase w = Batch
        | Some path \<Rightarrow> may_finish (vw_phase w) \<and> path \<noteq> FP_Completed
            \<and> (\<exists>xs. tracks (v0\<lparr>or_settled := xs\<rparr>) i w es s \<and> (\<forall>x \<in> set xs. note_outcome x = TR_Cancelled))))"

lemma batch_tracks:
  assumes "tracks v0 i v es s" "vw_phase v = Batch" "vw_index v = n" and fresh: "or_settled v0 = []"
  shows "logs (orderly v0 i) es (run_tool_batch ser enc n snapshot calls envs) (in_batch v0 i v) s"
  using assms(1-3)
proof (induction ser enc n snapshot calls envs arbitrary: v es s rule: run_tool_batch.induct)
  case (1 ser enc n snapshot envs)
  then show ?case by (auto simp: in_batch_def intro!: logs_return exI [of _ v])
next
  case (2 ser enc n snapshot call calls)
  then show ?case by (auto intro!: logs_lift tracks_orderly)
next
  case (3 ser enc n snapshot call calls env envs)
  note IH = 3(1) and index = 3(4)
  have v: "tracks v0 i v es (s\<lparr>rn_control := fold (act ser) (lt_ops env) (rn_control s)\<rparr>)"
    by (rule tracks_cong [OF 3(2)]) simp_all
  show ?case
    unfolding run_tool_batch.simps
  proof (rule logs_then, rule logs_interfere, rule logs_bind, rule logs_mono [OF logs_wp [OF start_call_tracks [OF v 3(3,4)] start_call_continues]], goal_cases)
    case (1 stepped es s)
    then obtain w where w: "tracks v0 i w es s" "onward v w"
      "if is_result stepped then vw_phase w = In_Call (tc_id call) else may_finish (vw_phase w)"
      unfolding call_view_def in_call_def by blast
    have r: "th_call_id x = tc_id call" "th_request_index x = n" if "stepped = TStep_Result x" for x
      using 1 that by (auto simp: call_view_def)
    show ?case
    proof (cases stepped)
      case (TStep_Result result)
      show ?thesis
        unfolding TStep_Result ToolStep.case
      proof (rule logs_bind, rule id_tracks [OF w(1)],
          rule finish_call_tracks [OF w(1)], goal_cases)
        case (6 es s)
        show ?case
          by (rule logs_mono [OF IH [OF 6]])
            (use w(2) index in \<open>auto simp: in_batch_def onward_def split: option.splits\<close>)
      qed (use w r index TStep_Result fresh in \<open>auto simp: onward_def\<close>)
    next
      case (TStep_End path)
      show ?thesis
        unfolding TStep_End ToolStep.case
        by (rule logs_then, rule logs_mono [OF tracks_settle [OF w(1), where outcome = TR_Cancelled]], rule logs_return)
          (use w(2,3) TStep_End 1 fresh in \<open>auto simp: in_batch_def\<close>)
    qed
  qed
qed

subsection \<open>The loop\<close>

lemma forward_tracks:
  assumes "tracks v0 i v es s" "vw_phase v = Calling" "vw_index v = n"
  shows "logs (orderly v0 i) es (forward_all n xs) (\<lambda>_. tracks v0 i v) s"
  using assms(1)
proof (induction xs arbitrary: es s)
  case (Cons x xs)
  have same: "tracks v0 i v es (s\<lparr>rn_sink := k\<rparr>)" for k by (rule tracks_cong [OF Cons.prems]) simp_all
  show ?case
    unfolding forward_all.simps forward_progress_def
    by (rule logs_then, rule logs_then, rule logs_record, rule logs_bind, rule id_tracks [OF same],
        rule emit_tracks [OF same, where w = v], use assms(2,3) in \<open>simp_all split: ModelDriverProgress.splits\<close>)
      (rule Cons.IH)
qed (auto intro!: log_rules)

lemma model_tracks:
  assumes t: "tracks v0 i v es s" "vw_phase v = Calling" "vw_index v = n"
  shows "logs (orderly v0 i) es (run_model parse ser n snapshot request deadline env) (\<lambda>_. tracks v0 i v) s"
  unfolding run_model_def Let_def
proof (rule logs_then, rule logs_interfere, rule logs_with_state, simp, rule logs_then, rule logs_on_control, rule logs_then,
    rule logs_mono [OF forward_tracks [where v = v]], goal_cases)
  case 1
  show ?case by (rule tracks_cong [OF t(1)]) simp_all
next
  case (4 _ es s)
  show ?case
  proof (rule logs_bind, rule logs_lift, rule logs_then, rule logs_record, rule logs_then, rule logs_mono [OF forward_tracks [where v = v]], goal_cases)
    case 1
    show ?case by (rule tracks_cong [OF 4]) simp_all
  next
    case (4 _ _ _ es s)
    show ?case by (rule logs_then, rule logs_interfere, rule logs_return, rule tracks_cong [OF 4(2)]) simp_all
  qed (use t 4 in \<open>auto intro: tracks_orderly\<close>)
qed (use t in auto)

text \<open>The observer and the locals of the loop agree on the requests.\<close>

definition counted :: "event_view \<Rightarrow> ('m, 't, 'p, 'q) LoopLocals \<Rightarrow> bool" where
  "counted v l \<longleftrightarrow> vw_issued v = ll_last_issued_request_index l \<and> vw_requests v = ll_requests l
     \<and> vw_revision v = ll_issued_revision l"

definition between :: "event_view \<Rightarrow> ('m, 't, 'p, 'q) LoopLocals \<Rightarrow> bool" where
  "between v l \<longleftrightarrow> vw_phase v \<in> {Idle, Preparing, Batch} \<and> next_index v = ll_request_index l \<and> counted v l"

definition turn_view ::
  "origin \<Rightarrow> LoopId \<Rightarrow> ('m, 't, 'p, 'q) LoopLocals turn \<Rightarrow> LoopEvent list \<Rightarrow> ('m, 't, 'p, 'q) runner \<Rightarrow> bool" where
  "turn_view v0 i t es s \<longleftrightarrow> (\<exists>v.
     (case t of
        Again l \<Rightarrow> tracks v0 i v es s \<and> between v l
      | Stop p l \<Rightarrow> may_finish (vw_phase v) \<and> counted v l
          \<and> (\<exists>xs. tracks (v0\<lparr>or_settled := xs\<rparr>) i v es s \<and> settled_by_path p xs)))"

lemma turn_view_settled:
  "tracks (v0\<lparr>or_settled := xs\<rparr>) i v es s \<Longrightarrow> settled_by_path p xs \<Longrightarrow> may_finish (vw_phase v) \<Longrightarrow> counted v l
     \<Longrightarrow> turn_view v0 i (Stop p l) es s"
  by (auto simp: turn_view_def)

lemma origin_settled: "or_settled v0 = [] \<Longrightarrow> v0\<lparr>or_settled := []\<rparr> = v0"
  by (cases v0) simp

lemma turn_views:
  "tracks v0 i v es s \<Longrightarrow> may_finish (vw_phase v) \<Longrightarrow> counted v l \<Longrightarrow> or_settled v0 = [] \<Longrightarrow> turn_view v0 i (Stop p l) es s"
  "tracks v0 i v es s \<Longrightarrow> between v l \<Longrightarrow> turn_view v0 i (Again l) es s"
proof -
  assume "tracks v0 i v es s" "may_finish (vw_phase v)" "counted v l" "or_settled v0 = []"
  then show "turn_view v0 i (Stop p l) es s"
    by (intro turn_view_settled [where xs = "[]" and v = v]) (simp_all add: origin_settled)
qed (auto simp: turn_view_def)

lemma counted_simps [simp]:
  "counted v (l\<lparr>ll_tool_rounds := n\<rparr>) = counted v l" "counted v (l\<lparr>ll_request_index := k\<rparr>) = counted v l"
  "counted v (l\<lparr>ll_usage := u\<rparr>) = counted v l" "counted v (l\<lparr>ll_config := cfg\<rparr>) = counted v l"
  "counted v (l\<lparr>ll_candidate_revision := r\<rparr>) = counted v l"
  "counted (v\<lparr>vw_phase := p\<rparr>) l = counted v l" "counted (v\<lparr>vw_state := st\<rparr>) l = counted v l"
  "counted (v\<lparr>vw_index := x\<rparr>) l = counted v l"
  by (simp_all add: counted_def)

lemma counted_onward: "onward v w \<Longrightarrow> counted w l = counted v l"
  by (simp add: counted_def onward_def)

text \<open>The observer while the model of a request runs.\<close>

definition running ::
  "event_view \<Rightarrow> LoopId \<Rightarrow> ('m, 't, 'p, 'q) ExecutionConfig \<Rightarrow> ConfigRevision \<Rightarrow> ('m, 't, 'p, 'q) LoopLocals \<Rightarrow> bool" where
  "running v i snapshot revision l \<longleftrightarrow> vw_phase v = Calling \<and> vw_index v = ll_request_index l \<and> counted v l
     \<and> vw_state v = round_state i LS_RunningModel (ll_request_index l) revision (Some (md_model_ref (ec_descriptor snapshot)))"

lemma round_tracks:
  assumes t: "tracks v0 i v es s" "running v i snapshot revision l" and fresh: "or_settled v0 = []"
  shows "logs (orderly v0 i) es (tool_round ser enc env snapshot revision calls l) (turn_view v0 i) s"
proof -
  let ?st = "round_state i LS_RunningTools (ll_request_index l) revision (Some (md_model_ref (ec_descriptor snapshot)))"
  let ?w = "v\<lparr>vw_phase := Batch, vw_state := ?st\<rparr>"
  let ?l = "l\<lparr>ll_tool_rounds := saturating_add (ll_tool_rounds l) 1\<rparr>"
  have limit: "logs (orderly v0 i) es (then_run (settle_calls (ll_request_index l) calls TR_Failed (lit ''tool round limit reached''))
         (return_run (Stop FP_MaxToolRounds l))) (turn_view v0 i) s"
  proof (rule logs_then, rule logs_mono [OF tracks_settle [OF t(1), where outcome = TR_Failed]], rule logs_return, goal_cases)
    case (1 a es s)
    then obtain xs where "tracks (v0\<lparr>or_settled := xs\<rparr>) i v es s" "\<forall>x \<in> set xs. note_outcome x = TR_Failed"
      using fresh by auto
    then show ?case by (rule turn_view_settled [OF _ settled_by_pathI(2)]) (use t(2) in \<open>auto simp: running_def\<close>)
  qed
  have batch: "logs (orderly v0 i) es (bind_run (run_tool_batch ser enc (ll_request_index l) snapshot calls (lr_tools env)) (\<lambda>ended.
         case ended of
           Some path \<Rightarrow> return_run (Stop path ?l)
         | None \<Rightarrow> return_run (Again (?l\<lparr>ll_request_index := saturating_add (ll_request_index l) 1\<rparr>)))) (turn_view v0 i) s"
    if w: "tracks v0 i ?w es s" for es s
  proof (rule logs_bind, rule logs_mono [OF batch_tracks [OF w _ _ fresh]], goal_cases)
    case (3 ended es s)
    then obtain x where x: "onward ?w x" "case ended of
          None \<Rightarrow> tracks v0 i x es s \<and> vw_phase x = Batch
        | Some path \<Rightarrow> may_finish (vw_phase x) \<and> path \<noteq> FP_Completed
            \<and> (\<exists>xs. tracks (v0\<lparr>or_settled := xs\<rparr>) i x es s \<and> (\<forall>x \<in> set xs. note_outcome x = TR_Cancelled))"
      unfolding in_batch_def by blast
    have facts: "counted x ?l" "vw_index x = ll_request_index l"
      using t(2) counted_onward [OF x(1), of ?l] x(1) by (simp_all add: running_def onward_def)
    show ?case
    proof (cases ended)
      case None
      then have "tracks v0 i x es s" "vw_phase x = Batch" using x(2) by simp_all
      with None facts show ?thesis
        by (simp, intro logs_return turn_views(2) [of _ _ x]) (simp_all add: between_def next_index_def)
    next
      case (Some path)
      then obtain xs where xs: "may_finish (vw_phase x)" "path \<noteq> FP_Completed" "tracks (v0\<lparr>or_settled := xs\<rparr>) i x es s"
        "\<forall>x \<in> set xs. note_outcome x = TR_Cancelled"
        using x(2) by auto
      show ?thesis
        using Some facts by (simp, intro logs_return turn_view_settled [OF xs(3) settled_by_pathI(1) [OF xs(2,4)] xs(1)]) simp
    qed
  qed (use t(2) in \<open>simp_all add: running_def\<close>)
  have open_batch: "logs (orderly v0 i) es (bind_run (gets_run rn_id) (\<lambda>ident.
        then_run (publish (round_state ident LS_RunningTools (ll_request_index l) revision
            (Some (md_model_ref (ec_descriptor snapshot)))))
        (bind_run (run_tool_batch ser enc (ll_request_index l) snapshot calls (lr_tools env)) (\<lambda>ended.
         case ended of
           Some path \<Rightarrow> return_run (Stop path ?l)
         | None \<Rightarrow> return_run (Again (?l\<lparr>ll_request_index := saturating_add (ll_request_index l) 1\<rparr>)))))) (turn_view v0 i) s"
  proof (rule logs_bind, rule id_tracks [OF t(1)], rule logs_then, rule publish_tracks [OF t(1), where w = ?w], goal_cases)
    case (4 es s)
    then show ?case by (rule batch)
  qed (use t(2) in \<open>simp_all add: running_def observe_state_def round_state_def\<close>)
  show ?thesis
    unfolding tool_round_def Let_def
  proof (rule logs_bind, rule logs_gets, simp, goal_cases)
    case 1
    show ?case
    proof (cases "lo_max_tool_rounds (rn_options s) \<noteq> 0 \<and> unat (lo_max_tool_rounds (rn_options s)) \<le> unat (ll_tool_rounds l)")
      case True
      show ?thesis unfolding if_P [OF True] by (rule limit)
    next
      case False
      then show ?thesis unfolding if_not_P [OF False] using open_batch by simp
    qed
  qed
qed

lemma handle_tracks:
  assumes t: "tracks v0 i v es s" "running v i snapshot revision l" and fresh: "or_settled v0 = []"
  shows "logs (orderly v0 i) es (handle_response ser enc env snapshot revision response l) (turn_view v0 i) s"
proof -
  define usage where "usage = (case mr_usage response of Some u \<Rightarrow> u | None \<Rightarrow> Usage_default)"
  define l' where "l' = l\<lparr>ll_usage := fst (UsageAccumulator_add (ll_usage l) usage)\<rparr>"
  have run: "running v i snapshot revision l'" using t(2) by (simp add: running_def l'_def)
  have stop: "turn_view v0 i (Stop p l') es s" if "tracks v0 i v es s" for p es s
    by (rule turn_views(1) [OF that]) (use run fresh in \<open>simp_all add: running_def\<close>)
  have append: "tracks v0 i v es (s\<lparr>rn_working := append_assistant a (rn_working s)\<rparr>)" for a by (rule tracks_cong [OF t(1)]) simp_all
  have final: "logs (orderly v0 i) es (then_run (on_control (\<lambda>c. fst (begin_final c))) (return_run (Stop p l'))) (turn_view v0 i) s"
    "logs (orderly v0 i) es (then_run (return_run ()) (return_run (Stop p l'))) (turn_view v0 i) s"
    if "tracks v0 i v es s" for p es s
    by (auto intro!: logs_then logs_return control_tracks [OF that] stop that)
  show ?thesis
    unfolding handle_response_def Let_def usage_def [symmetric] l'_def [symmetric] append_response_def
    using stop [OF t(1)] tracks_orderly [OF t(1)]
    by (auto intro!: logs_then [OF logs_modify] logs_bind [OF logs_expect] logs_return final append round_tracks [OF append run fresh]
        split: option.splits)
qed

lemma issue_tracks:
  assumes t: "tracks v0 i v es s" "vw_phase v = Preparing" "vw_index v = ll_request_index l" "counted v l"
    and fresh: "or_settled v0 = []"
  shows "logs (orderly v0 i) es (issue_request parse ser enc env snapshot request l) (turn_view v0 i) s"
proof -
  define revision where "revision = (case ll_candidate_revision l of Some r \<Rightarrow> r | None \<Rightarrow> ll_issued_revision l)"
  define model where "model = md_model_ref (ec_descriptor snapshot)"
  define l' where "l' = l\<lparr>ll_issued_revision := revision, ll_candidate_revision := None,
                 ll_requests := saturating_add (ll_requests l) 1,
                 ll_last_issued_request_index := Some (ll_request_index l)\<rparr>"
  define w where "w = v\<lparr>vw_phase := Requested model, vw_issued := Some (ll_request_index l),
     vw_requests := saturating_add (vw_requests v) 1, vw_revision := revision\<rparr>"
  define st where "st = round_state i LS_RunningModel (ll_request_index l) revision (Some model)"
  define x where "x = w\<lparr>vw_phase := Calling, vw_state := st\<rparr>"
  have run: "running x i snapshot revision l'"
    using t(3,4) by (simp add: running_def x_def w_def st_def model_def l'_def counted_def)
  have issued: "tracks v0 i w (es @ [EV_RequestStarted i (ll_request_index l) revision model reasoning])
      (s\<lparr>rn_control := commit_revision revision (rn_control s), rn_sink := k\<rparr>)" for k reasoning
    using t(1-3)
    by (auto simp: tracks_def watch_snoc w_def commit_revision_def current_state_def applied_revision_def noted_def)
  have call: "logs (orderly v0 i) es
      (bind_run (with_state (\<lambda>s. expect_run (turn_deadline (lm_now_turn (lr_model env)) (lo_deadline (rn_options s))))) (\<lambda>deadline.
        bind_run (run_model parse ser (ll_request_index l) snapshot request deadline (lr_model env)) (\<lambda>result.
        case result of
          Err e \<Rightarrow>
            bind_run (gets_run (\<lambda>s. lc_cancel (rn_control s))) (\<lambda>cancelled.
            return_run (Stop (map_model_failure cancelled e) l'))
        | Ok response \<Rightarrow> handle_response ser enc env snapshot revision response l'))) (turn_view v0 i) s"
    if u: "tracks v0 i x es s" for es s
  proof (rule logs_bind, rule logs_with_state, simp, rule logs_expect, rule logs_bind, rule logs_mono [OF model_tracks [OF u]], goal_cases)
    case (3 _ result es s)
    have stop: "turn_view v0 i (Stop p l') es s" for p
      by (rule turn_views(1) [OF 3(2)]) (use run fresh in \<open>simp_all add: running_def\<close>)
    show ?case
      by (cases result) (auto intro!: logs_bind [OF logs_gets] logs_return stop handle_tracks [OF 3(2) run fresh])
  qed (use run tracks_orderly [OF u] in \<open>simp_all add: running_def l'_def\<close>)
  show ?thesis
    unfolding issue_request_def Let_def revision_def [symmetric] model_def [symmetric] l'_def [symmetric]
  proof (rule logs_then, rule logs_on_control, rule logs_bind, rule logs_gets, simp, rule logs_then, rule logs_emit, goal_cases)
    case (1 k)
    have i: "rn_id (s\<lparr>rn_control := commit_revision revision (rn_control s)\<rparr>) = i" using t(1) by (simp add: tracks_def)
    show ?case
      unfolding i
      by (rule logs_then, rule publish_tracks [OF issued, where w = x])
        (simp_all add: observe_state_def x_def w_def st_def round_state_def t(3), rule call, simp add: x_def w_def st_def round_state_def)
  qed
qed

lemma boundary_tracks:
  assumes t: "tracks v0 i v es s" "between v l"
  shows "logs (orderly v0 i) es (take_boundary inputs l) (\<lambda>r es t. tracks v0 i v es t \<and> between v (snd r)) s"
proof -
  have c: "tracks v0 i v es (s\<lparr>rn_control := fst (take_config (rn_control s))\<rparr>)" by (rule tracks_cong [OF t(1)]) simp_all
  have append: "logs (orderly v0 i) es (append_inputs given) (\<lambda>_. tracks v0 i v) u" if "tracks v0 i v es u" for given u
    unfolding append_inputs_def by (rule logs_modify, simp, rule tracks_cong [OF that]) simp_all
  show ?thesis
    unfolding take_boundary_def Let_def
    by (rule logs_bind, rule logs_on_control_get)
      (use t(2) tracks_orderly [OF t(1)] in
        \<open>auto simp: between_def intro!: logs_lift logs_then [OF logs_mono [OF append [OF c]]] logs_return split: option.splits caught.splits\<close>)
qed

lemma prompt_tracks:
  assumes "tracks v0 i v es s"
  shows "logs (orderly v0 i) es (prepare_prompt ser d call) (\<lambda>_. tracks v0 i v) s"
  unfolding prepare_prompt_def
  by (rule logs_bind, rule logs_gets, simp, unfold prod.case, rule logs_bind, rule logs_mono [OF tracks_live_port [OF assms]],
      rule logs_return)

lemma turn_tracks:
  assumes t: "tracks v0 i v es s" "between v l" and fresh: "or_settled v0 = []"
  shows "logs (orderly v0 i) es (loop_turn parse ser enc env l) (turn_view v0 i) s"
proof -
  have stop: "turn_view v0 i (Stop p l) es s" if "tracks v0 i v es s" "between v l" for p es s v l
    by (rule turn_views(1) [OF that(1)]) (use that(2) fresh in \<open>auto simp: between_def\<close>)
  have prepared: "logs (orderly v0 i) es (then_run (interfere ser (lr_ops_stale env))
             (bind_run (take_boundary (lr_inputs_stale env) l1) (\<lambda>(taken, l2).
              if taken then return_run (Again l2)
              else case build_model_request messages (ll_config l1) of
                Err _ \<Rightarrow> return_run (Stop FP_Prompt l2)
              | Ok request \<Rightarrow> issue_request parse ser enc env (ll_config l1) request l2))) (turn_view v0 i) s"
    if p: "tracks v0 i w es s" "between w l1" "vw_phase w = Preparing" for w es s l1 messages
  proof (rule logs_then, rule logs_interfere, rule logs_bind, rule logs_mono [OF boundary_tracks [where v = w]], goal_cases)
    case 1
    show ?case by (rule tracks_cong [OF p(1)]) simp_all
  next
    case (3 r es s)
    obtain taken l2 where r: "r = (taken, l2)" by fastforce
    from 3 have w: "tracks v0 i w es s" "between w l2" by (simp_all add: r)
    show ?case
      using stop [OF w] turn_views(2) [OF w] w(2) p(3)
      by (auto simp: r between_def next_index_def intro!: logs_return issue_tracks [OF w(1) p(3) _ _ fresh] split: result.splits)
  qed (rule p(2))
  have opened: "logs (orderly v0 i) es
        (then_run (publish (LoopState_new i LS_Starting (ll_request_index l1) (ll_issued_revision l1)))
        (bind_run (expect_run (turn_deadline (lv_now_turn (lr_prompt env)) deadline)) (\<lambda>prompt_deadline.
         bind_run (prepare_prompt ser prompt_deadline (lr_prompt env)) (\<lambda>prep.
         case prep of
           PP_End path \<Rightarrow> return_run (Stop path l1)
         | PP_Ready messages \<Rightarrow>
             then_run (interfere ser (lr_ops_stale env))
             (bind_run (take_boundary (lr_inputs_stale env) l1) (\<lambda>(taken, l2).
              if taken then return_run (Again l2)
              else case build_model_request messages (ll_config l1) of
                Err _ \<Rightarrow> return_run (Stop FP_Prompt l2)
              | Ok request \<Rightarrow> issue_request parse ser enc env (ll_config l1) request l2)))))) (turn_view v0 i) s"
    if v: "tracks v0 i v es s" "between v l1" for es s l1 deadline
  proof -
    define st where "st = LoopState_new i LS_Starting (ll_request_index l1) (ll_issued_revision l1)"
    define w where "w = v\<lparr>vw_phase := Preparing, vw_state := st, vw_index := next_index v\<rparr>"
    have w: "between w l1" "vw_phase w = Preparing" using v(2) by (auto simp: w_def between_def next_index_def)
    have idx: "next_index v = ll_request_index l1" "vw_revision v = ll_issued_revision l1" "vw_phase v \<in> {Idle, Preparing, Batch}"
      using v(2) by (auto simp: between_def counted_def)
    show ?thesis
      unfolding st_def [symmetric]
    proof (rule logs_then, rule publish_tracks [OF v(1), where w = w], goal_cases)
      case (4 es s)
      show ?case
      proof (rule logs_bind, rule logs_expect, rule logs_bind, rule logs_mono [OF prompt_tracks [OF 4]], goal_cases)
        case (1 _ prep es s)
        show ?case
          by (cases prep) (auto intro!: logs_return stop [OF 1(2) w(1)] prepared [OF 1(2) w])
      qed (rule tracks_orderly [OF 4])
    qed (use idx in \<open>auto simp: w_def st_def observe_state_def LoopState_new_def\<close>)
  qed
  define u where "u = s\<lparr>rn_control := fold (act ser) (lr_ops env) (rn_control s)\<rparr>"
  have u: "tracks v0 i v es u" unfolding u_def by (rule tracks_cong [OF t(1)]) simp_all
  have id: "rn_id u = i" using u by (simp add: tracks_def)
  show ?thesis
    unfolding loop_turn_def
  proof (rule logs_then, rule logs_interfere, unfold u_def [symmetric], rule logs_bind, rule logs_gets, simp,
      unfold prod.case id, goal_cases)
    case 1
    let ?late = "case lo_deadline (rn_options u) of None \<Rightarrow> False | Some d \<Rightarrow> d \<le> lr_now env"
    consider "lc_cancel (rn_control u)" | "\<not> lc_cancel (rn_control u)" ?late | "\<not> lc_cancel (rn_control u)" "\<not> ?late" by blast
    then show ?case
    proof cases
      case 1
      show ?thesis unfolding if_P [OF 1] by (rule logs_return, rule stop [OF u t(2)])
    next
      case 2
      show ?thesis unfolding if_not_P [OF 2(1)] if_P [OF 2(2)] by (rule logs_return, rule stop [OF u t(2)])
    next
      case 3
      show ?thesis
        unfolding if_not_P [OF 3(1)] if_not_P [OF 3(2)]
      proof (rule logs_bind, rule logs_mono [OF boundary_tracks [OF u t(2)]], goal_cases)
        case (1 r es s)
        then show ?case by (cases r) (auto intro: opened)
      qed
    qed
  qed
qed

definition ended_view ::
  "origin \<Rightarrow> LoopId \<Rightarrow> FailPath \<times> ('m, 't, 'p, 'q) LoopLocals \<Rightarrow> LoopEvent list \<Rightarrow> ('m, 't, 'p, 'q) runner \<Rightarrow> bool" where
  "ended_view v0 i r es s \<longleftrightarrow> (\<exists>v xs. tracks (v0\<lparr>or_settled := xs\<rparr>) i v es s \<and> settled_by_path (fst r) xs
     \<and> may_finish (vw_phase v) \<and> counted v (snd r))"

lemma turns_tracks:
  assumes "tracks v0 i v es s" "between v l" and fresh: "or_settled v0 = []"
  shows "logs (orderly v0 i) es (run_turns parse ser enc envs l) (ended_view v0 i) s"
  using assms(1,2)
proof (induction envs arbitrary: v l es s)
  case Nil
  then show ?case by (auto intro!: logs_lift tracks_orderly)
next
  case (Cons env envs)
  show ?case
    unfolding run_turns.simps
  proof (rule logs_bind, rule logs_mono [OF turn_tracks [OF Cons.prems fresh]], goal_cases)
    case (1 t es s)
    then show ?case
    proof (cases t)
      case (Again l')
      with 1 show ?thesis using Cons.IH by (auto simp: turn_view_def)
    next
      case (Stop p l')
      with 1 show ?thesis by (simp add: turn_view_def ended_view_def logs_return) (intro logs_return, auto)
    qed
  qed
qed

subsection \<open>The end of a loop\<close>

lemma final_states_tracks:
  assumes t: "tracks v0 i v es s" "may_finish (vw_phase v)" "vw_revision v = revision"
    and n: "(case vw_issued v of Some n \<Rightarrow> n | None \<Rightarrow> 0) = n"
  shows "logs (orderly v0 i) es (publish_final_states n revision)
     (\<lambda>_. tracks v0 i (v\<lparr>vw_phase := Sealed, vw_state := final_state i LS_Finished v\<rparr>)) s"
proof -
  define w where "w = v\<lparr>vw_phase := Finishing, vw_state := final_state i LS_Finishing v\<rparr>"
  have model: "lst_model (vw_state w) = lst_model (vw_state v)" by (simp add: w_def final_state_def round_state_def)
  have final: "final_state i LS_Finished w = final_state i LS_Finished v"
    by (simp add: final_state_def model) (simp add: w_def)
  have states: "lst_model (current_state (rn_control s)) = lst_model (vw_state v)" "rn_id s = i" using t(1) by (simp_all add: tracks_def)
  show ?thesis
    unfolding publish_final_states_def
  proof (rule logs_bind, rule logs_gets, simp, unfold prod.case states, rule logs_then,
      rule publish_tracks [OF t(1), where w = w], goal_cases)
    case (4 es s)
    have "lst_model (current_state (rn_control s)) = lst_model (vw_state v)" using 4 model by (simp add: tracks_def)
    then show ?case
      by (intro logs_bind, intro logs_gets, simp)
        (rule publish_tracks [OF 4, where w = "v\<lparr>vw_phase := Sealed, vw_state := final_state i LS_Finished v\<rparr>"],
          simp_all add: observe_state_def final, simp_all add: w_def final_state_def round_state_def t(3) n)
  qed (use t n in \<open>simp_all add: w_def observe_state_def final_state_def round_state_def\<close>)
qed

lemma seal_tracks:
  assumes t: "tracks v0 i v es s" "live (rn_control s)"
  shows "logs (orderly v0 i) es finish_once_run (\<lambda>seal es t. tracks v0 i v es t \<and> seal \<noteq> Seal_AlreadyFinished) s"
proof -
  obtain seal d c' where c': "finish_once (rn_control s) = Some (c', seal, d)"
    "seal = (if lc_state (rn_control s) = STATE_NONE then Seal_Clean else Seal_CancelledPrior (cancel_reason (rn_control s)))"
    using finish_once_live [OF t(2)] by metis
  have "tracks v0 i v es (s\<lparr>rn_control := c'\<rparr>)"
    by (rule tracks_cong [OF t(1)]) (use finish_once_shown [OF c'(1)] in simp_all)
  with c' show ?thesis
    unfolding finish_once_run_def
    by (intro logs_bind logs_gets logs_expect tracks_orderly [OF t(1)]) (auto intro!: logs_then [OF logs_on_control] logs_return)
qed

text \<open>The results of a report: those announced, and those the end of the loop settled.\<close>

definition report_noted :: "ToolCallId list \<Rightarrow> LoopReport \<Rightarrow> LoopEvent list \<Rightarrow> ToolCallId list \<Rightarrow> bool" where
  "report_noted before report es executed \<longleftrightarrow> (\<exists>xs. settled_at_end (rep_outcome report) xs
     \<and> noted xs before es (result_notes (rep_appended report), executed))"

text \<open>What the observer of an ended loop knows of its report.\<close>

definition closed_view ::
  "event_view \<Rightarrow> LoopId \<Rightarrow> LoopReport \<Rightarrow> LoopEvent list \<Rightarrow> bool" where
  "closed_view v0 i report es \<longleftrightarrow> (\<exists>v. watch i v0 es = Some v \<and> vw_phase v = Closed (outcome_summary (rep_outcome report))
     \<and> vw_requests v = rep_requests report \<and> vw_revision v = rep_final_config_revision report
     \<and> vw_state v = round_state i LS_Finished (case vw_issued v of Some n \<Rightarrow> n | None \<Rightarrow> 0) (rep_final_config_revision report)
         (lst_model (vw_state v)))"

lemma finish_tracks:
  fixes s :: "('m, 't, 'p, 'q) runner"
  assumes t: "ended_view v0 i (path, l) es s" "live (rn_control s)" "list_all typed_op others"
  shows "logs (orderly v0 i) es (finish_loop ser others path l)
     (\<lambda>report es t. closed_view (or_view v0) i report es
        \<and> report_noted (or_executed v0) report es (rn_executed t)) s"
proof -
  obtain v xs where xs: "tracks (v0\<lparr>or_settled := xs\<rparr>) i v es s" "settled_by_path path xs"
    and v2: "may_finish (vw_phase v)" "counted v l" using t(1) by (auto simp: ended_view_def)
  define w0 where "w0 = v0\<lparr>or_settled := xs\<rparr>"
  have v: "tracks w0 i v es s" "may_finish (vw_phase v)" "counted v l" using xs v2 by (simp_all add: w0_def)
  have same: "orderly w0 = orderly v0" "or_view w0 = or_view v0" by (simp_all add: w0_def)
  define n where "n = (case ll_last_issued_request_index l of Some n \<Rightarrow> n | None \<Rightarrow> 0)"
  define u where "u = s\<lparr>rn_control := fold (act ser) others (rn_control s)\<rparr>"
  have u: "tracks w0 i v es u" "live (rn_control u)"
    unfolding u_def by (rule tracks_cong [OF v(1)]) (use live.acts_stable [OF t(2,3)] in simp_all)
  have rev: "applied_revision (rn_control s) = ll_issued_revision l" using v by (simp add: tracks_def counted_def)
  define report where "report = (\<lambda>outcome (s :: ('m, 't, 'p, 'q) runner). \<lparr>rep_loop_id = rn_id s, rep_outcome = outcome,
             rep_appended = into_appended (rn_working s),
             rep_usage = UsageAccumulator_finish (ll_usage l), rep_requests = ll_requests l,
             rep_tool_rounds = ll_tool_rounds l, rep_final_config_revision = ll_issued_revision l\<rparr>)"
  let ?publish = "\<lambda>outcome. bind_run (gets_run (report outcome)) (\<lambda>report.
         then_run (publish_final_states n (ll_issued_revision l))
         (then_run (on_control (complete report))
         (then_run (emit (EV_Finished (rep_loop_id report) (outcome_summary outcome)))
         (then_run (on_control cancel_token) (return_run report)))))"
  have publish: "logs (orderly w0 i) es (?publish outcome)
       (\<lambda>report es t. closed_view (or_view w0) i report es \<and> (\<exists>w. tracks w0 i w es t)) s"
    if s: "tracks w0 i v es s" for es s outcome
  proof (rule logs_bind, rule logs_gets, simp add: report_def, rule logs_then, rule logs_mono [OF final_states_tracks [OF s v(2)]], goal_cases)
    case (3 a es' t)
    let ?w = "v\<lparr>vw_phase := Sealed, vw_state := final_state i LS_Finished v\<rparr>"
    let ?r = "report outcome s"
    have i: "rep_loop_id ?r = i" using s by (simp add: report_def tracks_def)
    show ?case
      unfolding i
    proof (rule logs_then, rule control_tracks [OF 3], simp, rule logs_then,
        rule emit_tracks [where v = ?w and w = "?w\<lparr>vw_phase := Closed (outcome_summary outcome)\<rparr>"], assumption, goal_cases)
      case (4 _ es u)
      have view: "closed_view (or_view w0) i ?r es"
        using 4(2) v(3)
        by (simp add: closed_view_def tracks_def report_def final_state_def counted_def) (simp add: round_state_def)
      show ?case
        by (intro logs_then [OF control_tracks [OF 4(2)]] logs_return) (use view in auto)
    qed simp_all
  qed (use v(3) in \<open>simp_all add: counted_def n_def\<close>)
  have kept: "wp (?publish outcome) (\<lambda>report t. rep_appended report = wh_appended (rn_working t) \<and> rep_outcome report = outcome)
     (\<lambda>_. True) s" for outcome s
    by (simp add: report_def publish_final_states_def into_appended_def)
  have publish_noted: "logs (orderly w0 i) es (?publish outcome)
       (\<lambda>report es t. closed_view (or_view w0) i report es
          \<and> report_noted (or_executed v0) report es (rn_executed t)) s"
    if s: "tracks w0 i v es s" "settled_at_end outcome xs" for es s outcome
    by (rule logs_mono [OF logs_wp [OF publish [OF s(1)] kept]])
      (use s(2) in \<open>auto simp: tracks_def accounted_def report_noted_def w0_def\<close>)
  show ?thesis
    unfolding finish_loop_def Let_def n_def [symmetric] same(1) [symmetric] same(2) [symmetric]
  proof (rule logs_bind, rule logs_gets, simp, unfold rev, rule logs_bind, rule logs_with_state, simp, rule logs_expect,
        rule logs_then, rule logs_interfere, unfold u_def [symmetric], rule logs_bind, rule logs_mono [OF seal_tracks [OF u]], goal_cases)
    case (1 intended seal es s)
    then show ?case
      using publish_noted [unfolded report_def] settled_path_outcome [OF xs(2) 1(1)] by (cases seal) (simp_all add: same(2))
  qed (rule tracks_orderly [OF v(1)])
qed

subsection \<open>The whole run\<close>

definition origin_of :: "('m, 't, 'p, 'q) runner \<Rightarrow> origin" where
  "origin_of s = \<lparr>or_view = first_view (current_state (rn_control s)), or_executed = rn_executed s, or_settled = []\<rparr>"

lemma inner_tracks:
  fixes s :: "('m, 't, 'p, 'q) runner"
  assumes ok: "start_ok s request" "typed_loop env"
  defines "v0 \<equiv> origin_of s" and "i \<equiv> rn_id s"
  shows "logs (orderly v0 i) [] (run_loop_inner parse ser enc env request)
     (\<lambda>report es t. closed_view (or_view v0) i report es
        \<and> report_noted (or_executed v0) report es (rn_executed t)) s"
proof -
  define w where "w = (or_view v0)\<lparr>vw_phase := Idle\<rparr>"
  define t where "t = (\<lambda>k. s\<lparr>rn_sink := k, rn_working := \<lparr>wh_base = lq_history request, wh_appended = [first_input i request]\<rparr>\<rparr>)"
  have t: "tracks v0 i w [EV_Started i] (t k)" "between w (initial_locals request)" for k
    using ok(1)
    by (simp_all add: tracks_def t_def w_def v0_def origin_of_def first_view_def i_def start_ok_def between_def next_index_def
        counted_def initial_locals_def noted_def accounted_def first_input_def)
  have inv: "loop_inv (t k) (initial_locals request)" for k
    using opened_inv [OF ok(1)] by (simp add: loop_inv_def t_def opened_def i_def max_output_def)
  have fresh: "or_settled v0 = []" by (simp add: v0_def origin_of_def)
  have typed: "list_all typed_round (ln_rounds env)" "list_all typed_op (ln_between env)" using ok(2) by (simp_all add: typed_loop_def)
  have turns: "logs (orderly v0 i) [EV_Started i]
      (bind_run (run_turns parse ser enc (ln_rounds env) (initial_locals request)) (\<lambda>(path, l). finish_loop ser (ln_between env) path l))
      (\<lambda>report es t. closed_view (or_view v0) i report es
        \<and> report_noted (or_executed v0) report es (rn_executed t)) (t k)" for k
  proof (rule logs_bind, rule logs_mono [OF logs_wp [OF turns_tracks [OF t fresh] run_turns_wp [OF inv typed(1)]]], goal_cases)
    case (1 r es u)
    then have "live (rn_control u)" "ended_view v0 i r es u" by (auto simp: turns_post_def loop_inv_def quiet_def)
    then show ?case by (cases r) (auto intro: finish_tracks typed(2))
  qed
  have emit: "rn_id s = i" by (simp add: i_def)
  show ?thesis
    unfolding run_loop_inner_def
    by (rule logs_bind, rule logs_gets, simp, unfold emit, rule logs_then, rule logs_emit, rule logs_then, rule logs_modify, simp)
      (use turns in \<open>simp add: t_def first_input_def append_user_def WorkingHistory_new_def initial_locals_def\<close>)
qed

lemma panic_silent: "logged es (panic_report ser others) (\<lambda>fs _ _. fs = es) s"
proof -
  have "logs (\<lambda>fs. fs = es) es (panic_report ser others) (\<lambda>_ fs _. fs = es) s"
    unfolding panic_report_def Let_def finish_once_run_def by (auto intro!: log_rules)
  then show ?thesis unfolding logs_def by (rule logged_mono) (simp split: async.splits)
qed

lemma run_loop_tracks:
  fixes s :: "('m, 't, 'p, 'q) runner"
  assumes ok: "start_ok s request" "typed_loop env"
  defines "v0 \<equiv> origin_of s" and "i \<equiv> rn_id s"
  shows "logged [] (run_loop parse ser enc env request)
     (\<lambda>es r t. orderly v0 i es \<and> (\<forall>report. fst (run_loop_inner parse ser enc env request s) = Done report
        \<longrightarrow> closed_view (or_view v0) i report es \<and> report_noted (or_executed v0) report es (rn_executed t))) s"
proof -
  obtain r t where f: "run_loop_inner parse ser enc env request s = (r, t)" by fastforce
  obtain ops where ops: "\<And>k. run_loop_inner parse ser enc env request (s\<lparr>rn_sink := k\<rparr>) = (r, t\<lparr>rn_sink := fold sink_step ops k\<rparr>)"
    and post: "case r of Done a \<Rightarrow> closed_view (or_view v0) i a (emitted ops)
        \<and> report_noted (or_executed v0) a (emitted ops) (rn_executed t)
      | _ \<Rightarrow> orderly v0 i (emitted ops)"
    using inner_tracks [OF ok, of parse ser enc]
    unfolding logs_def logged_def v0_def [symmetric] i_def [symmetric] append_Nil f fst_conv snd_conv by blast
  have ord: "orderly v0 i (emitted ops)" using post by (cases r) (auto simp: closed_view_def orderly_def)
  show ?thesis
  proof (cases r)
    case Aborted
    obtain ops' where ops': "\<And>k. panic_report ser (ln_panic env) (t\<lparr>rn_sink := k\<rparr>)
        = (fst (panic_report ser (ln_panic env) t), (snd (panic_report ser (ln_panic env) t))\<lparr>rn_sink := fold sink_step ops' k\<rparr>)"
      "emitted ops' = []"
      using panic_silent [of "[]" ser "ln_panic env" t] unfolding logged_def append_Nil by blast
    then show ?thesis
      unfolding logged_def using ord
      by (intro exI [of _ "ops @ ops'"]) (simp add: run_loop_def f ops Aborted)
  qed (use ord post in \<open>auto simp: logged_def run_loop_def f ops intro!: exI [of _ ops]\<close>)
qed

text \<open>
  No panic of host code or of the clock cut the run short: the script has none, or the report is not
  the one of a panic.
\<close>

definition ran_through :: "LoopOptions \<Rightarrow> ('m, 't, 'p, 'q) others live_loop \<Rightarrow> LoopReport \<Rightarrow> bool" where
  "ran_through opts env report \<longleftrightarrow> list_all (calm_round opts) (ln_rounds env)
     \<or> (\<forall>f. rep_outcome report = LO_Failed f \<longrightarrow> lf_kind f \<noteq> LF_Internal)"

lemma run_loop_events:
  assumes "start_ok s request" "typed_loop env" "run_loop parse ser enc env request s = (r, s')"
  shows "\<exists>ops. (\<forall>k. run_loop parse ser enc env request (s\<lparr>rn_sink := k\<rparr>) = (r, s'\<lparr>rn_sink := fold sink_step ops k\<rparr>))
     \<and> watch (rn_id s) (first_view (current_state (rn_control s))) (emitted ops) \<noteq> None
     \<and> (\<forall>report. r = Done report \<longrightarrow> ran_through (rn_options s) env report \<longrightarrow>
          closed_view (first_view (current_state (rn_control s))) (rn_id s) report (emitted ops)
          \<and> report_noted (rn_executed s) report (emitted ops) (rn_executed s'))"
proof -
  have inner: "fst (run_loop_inner parse ser enc env request s) = Done report"
    if "r = Done report" "ran_through (rn_options s) env report" for report
    using run_loop_result [OF assms] that by cases (auto simp: ran_through_def)
  from run_loop_tracks [OF assms(1,2), of parse ser enc] assms(3) inner show ?thesis
    unfolding logged_def orderly_def origin_of_def by auto
qed

end
