(* ===== verification/Event_Stream.thy ===== *)
theory Event_Stream
  imports Event_Protocol
begin

text \<open>
  What the one consumer of a loop's events sees of the protocol of \<open>Event_Protocol\<close>, through the
  lossy channel of \<^verbatim>\<open>agent_loop/event.rs\<close>: up to the first gap that an envelope reports, a prefix of it.
\<close>

subsection \<open>Until the first gap\<close>

definition gapless :: "LoopEventEnvelope list \<Rightarrow> LoopEvent list" where
  "gapless xs = map env_event (takeWhile (\<lambda>x. env_dropped_before x = 0) xs)"

text \<open>The counter of the sink is zero only if nothing was lost since the last event that entered.\<close>

definition lossless :: "LoopEvent list \<Rightarrow> LoopEventSink \<Rightarrow> bool" where
  "lossless es sk \<longleftrightarrow> prefix (gapless (sk_sent sk)) es
     \<and> (sk_dropped sk = 0 \<longrightarrow> \<not> sk_closed sk \<longrightarrow> list_all (\<lambda>x. env_dropped_before x = 0) (sk_sent sk)
          \<longrightarrow> map env_event (sk_sent sk) = es)"

lemma gapless_all: "list_all (\<lambda>x. env_dropped_before x = 0) xs \<Longrightarrow> gapless xs = map env_event xs"
  by (simp add: gapless_def list_all_iff takeWhile_eq_all_conv [THEN iffD2])

lemma gapless_append:
  "gapless (xs @ ys) = (if list_all (\<lambda>x. env_dropped_before x = 0) xs then map env_event xs @ gapless ys else gapless xs)"
  by (auto simp: gapless_def list_all_iff takeWhile_append takeWhile_eq_all_conv [THEN iffD2])

lemma gapless_single: "gapless [x] = (if env_dropped_before x = 0 then [env_event x] else [])"
  by (simp add: gapless_def)

lemma gapless_prefix: "prefix xs ys \<Longrightarrow> prefix (gapless xs) (gapless ys)"
  by (auto simp: prefix_def gapless_append gapless_all)

lemma consume_kept: "sk_sent (consume c sk) = sk_sent sk \<and> sk_dropped (consume c sk) = sk_dropped sk \<and> sk_closed (consume c sk) = sk_closed sk"
  by (cases c) (auto simp: mpsc_try_recv_def split: list.splits)

lemma consumer_turn_kept [simp]:
  "sk_sent (consumer_turn sk) = sk_sent sk" "sk_dropped (consumer_turn sk) = sk_dropped sk" "sk_closed (consumer_turn sk) = sk_closed sk"
proof -
  have "sk_sent (fold consume cs sk) = sk_sent sk \<and> sk_dropped (fold consume cs sk) = sk_dropped sk
      \<and> sk_closed (fold consume cs sk) = sk_closed sk" for cs sk
    by (induction cs arbitrary: sk) (simp_all add: consume_kept)
  then show "sk_sent (consumer_turn sk) = sk_sent sk" "sk_dropped (consumer_turn sk) = sk_dropped sk"
    "sk_closed (consumer_turn sk) = sk_closed sk"
    by (simp_all add: consumer_turn_def split: list.splits)
qed

lemma saturating_add_eq_0: "saturating_add a b = (0 :: u64) \<longleftrightarrow> a = 0 \<and> b = 0"
proof -
  have "unat (saturating_add a b) = 0 \<longleftrightarrow> unat a = 0 \<and> unat b = 0" by (auto simp: unat_saturating_add min_def)
  then show ?thesis by (simp add: unat_eq_0)
qed

lemma lossless_step:
  assumes "lossless es sk"
  shows "lossless (es @ emitted [op]) (sink_step op sk)"
proof (cases op)
  case (Op_Emit e)
  have "prefix (gapless (sk_sent sk)) (es @ [e])" using assms by (auto simp: lossless_def)
  then show ?thesis
    using assms
    by (auto simp: Op_Emit lossless_def try_emit_def Let_def mpsc_try_send_def gapless_append gapless_single gapless_all saturating_add_eq_0)
next
  case (Op_Record n)
  then show ?thesis using assms by (auto simp: lossless_def record_dropped_def saturating_add_eq_0)
qed

lemma lossless_run:
  assumes "LoopEventSink_channel consumer capacity = Ok sk"
  shows "lossless (emitted ops) (fold sink_step ops sk)"
proof (induction ops rule: rev_induct)
  case Nil
  show ?case using assms by (auto simp: lossless_def LoopEventSink_channel_def gapless_def split: if_splits)
next
  case (snoc op ops)
  then show ?case using lossless_step by simp
qed

lemma received_gapless:
  assumes "LoopEventSink_channel consumer capacity = Ok sk"
  shows "prefix (gapless (sk_received (fold sink_step ops sk))) (emitted ops)"
proof -
  have "prefix (sk_received (fold sink_step ops sk)) (sk_sent (fold sink_step ops sk))"
    using sink_run_inv [OF assms, of ops] unfolding sink_inv_def by (metis prefixI)
  then show ?thesis
    using gapless_prefix lossless_run [OF assms, of ops] unfolding lossless_def by (meson prefix_order.trans)
qed



lemma watch_prefix: "prefix xs ys \<Longrightarrow> watch i v ys \<noteq> None \<Longrightarrow> watch i v xs \<noteq> None"
  by (auto simp: prefix_def watch_append split: Option.bind_splits)

subsection \<open>The requests of a stream\<close>

fun requests_of :: "LoopEvent list \<Rightarrow> (u32 \<times> ConfigRevision) list" where
  "requests_of [] = []"
| "requests_of (EV_RequestStarted i n r m reasoning # es) = (n, r) # requests_of es"
| "requests_of (e # es) = requests_of es"

lemma requests_append [simp]: "requests_of (xs @ ys) = requests_of xs @ requests_of ys"
  by (induction xs rule: requests_of.induct) simp_all

text \<open>A request is under preparation, or the last one is running.\<close>

fun in_preparation :: "phase \<Rightarrow> bool" where
  "in_preparation Opening = True"
| "in_preparation Idle = True"
| "in_preparation Preparing = True"
| "in_preparation _ = False"

fun is_running :: "phase \<Rightarrow> bool" where
  "is_running (Requested m) = True"
| "is_running Calling = True"
| "is_running Batch = True"
| "is_running (In_Call c) = True"
| "is_running (Asking c p) = True"
| "is_running (Waiting c x) = True"
| "is_running (Answered c) = True"
| "is_running _ = False"

definition numbered :: "event_view \<Rightarrow> (u32 \<times> ConfigRevision) list \<Rightarrow> bool" where
  "numbered v rs \<longleftrightarrow> map fst rs = map of_nat [0..<length rs] \<and> vw_requests v = of_nat (length rs)
     \<and> vw_revision v = (if rs = [] then ConfigRevision_INITIAL else snd (last rs))
     \<and> (in_preparation (vw_phase v) \<longrightarrow> vw_index v = of_nat (length rs))
     \<and> (is_running (vw_phase v) \<longrightarrow> rs \<noteq> [] \<and> vw_index v = of_nat (length rs - 1))"

lemma saturating_of_nat:
  assumes "Suc n < 2 ^ 32"
  shows "saturating_add (of_nat n :: u32) 1 = of_nat (Suc n)"
  using assms by (simp add: saturating_add_def unat_of_nat)

lemma next_numbered:
  assumes "numbered v rs" "vw_phase v \<in> {Idle, Preparing, Batch}" "length rs < 2 ^ 32"
  shows "next_index v = of_nat (length rs)"
proof (cases "vw_phase v = Batch")
  case True
  then have "rs \<noteq> []" "vw_index v = of_nat (length rs - 1)" using assms(1) by (simp_all add: numbered_def)
  then show ?thesis using assms(3) True saturating_of_nat [of "length rs - 1"] by (simp add: next_index_def)
qed (use assms in \<open>auto simp: numbered_def next_index_def\<close>)

lemma observe_numbered:
  assumes "numbered v rs" "observe i e v = Some w" "length (rs @ requests_of [e]) < 2 ^ 32"
  shows "numbered w (rs @ requests_of [e])"
proof (cases e)
  case (EV_StateChanged st)
  then show ?thesis
    using assms next_numbered [OF assms(1)]
    by (cases "lst_status st")
      (auto simp: observe_state_def numbered_def split: phase.splits option.splits)
next
  case (EV_RequestStarted j n r m reasoning)
  then show ?thesis
    using assms saturating_of_nat [of "length rs"] by (auto simp: numbered_def)
qed (use assms in \<open>auto simp: numbered_def split: phase.splits\<close>)

lemma watch_numbered:
  assumes "watch i (first_view st) es = Some v" "length (requests_of es) < 2 ^ 32"
  shows "numbered v (requests_of es)"
  using assms
proof (induction es arbitrary: v rule: rev_induct)
  case Nil
  then show ?case by (auto simp: numbered_def first_view_def)
next
  case (snoc e es)
  then obtain w where w: "watch i (first_view st) es = Some w" "observe i e w = Some v"
    by (auto simp: watch_append split: Option.bind_splits)
  with snoc observe_numbered [OF snoc.IH [OF w(1)] w(2)] show ?case by simp
qed

lemma events_sink:
  assumes "\<forall>k. run_loop parse ser enc env request (s\<lparr>rn_sink := k\<rparr>) = (r, s'\<lparr>rn_sink := fold sink_step ops k\<rparr>)"
    and "run_loop parse ser enc env request s = (r, s')"
  shows "rn_sink s' = fold sink_step ops (rn_sink s)"
proof -
  have "(r, s') = (r, s'\<lparr>rn_sink := fold sink_step ops (rn_sink s)\<rparr>)"
    using assms(1) [THEN spec, of "rn_sink s"] assms(2) by simp
  then have "rn_sink s' = rn_sink (s'\<lparr>rn_sink := fold sink_step ops (rn_sink s)\<rparr>)" by (metis prod.inject)
  then show ?thesis by simp
qed

lemma sample_start_view:
  "LoopEventSink_channel [] 1 = Ok (rn_sink (sample_start b))"
  "rn_id (sample_start b) = LoopId []"
  "current_state (rn_control (sample_start b)) = LoopState_new (LoopId []) LS_Starting 0 ConfigRevision_INITIAL"
  by (simp_all add: sample_start_def sample_runner_def LoopEventSink_channel_def MAX_EVENT_CAPACITY_def current_state_def)

lemma sample_ran_through: "ran_through (rn_options (sample_start False)) sample_loop report"
  using sample_loop_ok(3) [of False] by (simp add: ran_through_def)

subsection \<open>Properties\<close>

text \<open>
  C4: the events of a loop follow its contract, whatever hosts, models and threads do.  What a run
  emits does not depend on the channel, and an observer can follow it with the automaton \<open>observe\<close>:
  the loop starts once; every request is prepared first and carries the next index, with the revision
  it is issued under; output comes while its model runs; tools start one at a time inside its batch and
  progress, questions and the finish belong to the open call; every state says what the observer knows.
  If the run returns and no panic cut it short, the last event is Finished with the outcome of the report, and
  requests, revision and final state are those of the report.  The consumer sees a prefix of this up to
  the first gap an envelope reports.
\<close>
theorem loop_event_protocol:
  assumes "start_ok s request" "typed_loop env" "run_loop parse ser enc env request s = (r, s')"
    and "LoopEventSink_channel consumer capacity = Ok (rn_sink s)"
  shows "\<exists>ops. (\<forall>k. run_loop parse ser enc env request (s\<lparr>rn_sink := k\<rparr>) = (r, s'\<lparr>rn_sink := fold sink_step ops k\<rparr>))
     \<and> watch (rn_id s) (first_view (current_state (rn_control s))) (emitted ops) \<noteq> None
     \<and> (length (requests_of (emitted ops)) < 2 ^ 32 \<longrightarrow>
          map fst (requests_of (emitted ops)) = map of_nat [0..<length (requests_of (emitted ops))])
     \<and> (\<forall>report. r = Done report \<longrightarrow> ran_through (rn_options s) env report \<longrightarrow>
          closed_view (first_view (current_state (rn_control s))) (rn_id s) report (emitted ops))
     \<and> prefix (gapless (sk_received (rn_sink s'))) (emitted ops)"
proof -
  obtain ops where ops: "\<forall>k. run_loop parse ser enc env request (s\<lparr>rn_sink := k\<rparr>) = (r, s'\<lparr>rn_sink := fold sink_step ops k\<rparr>)"
    "watch (rn_id s) (first_view (current_state (rn_control s))) (emitted ops) \<noteq> None"
    "\<And>report. r = Done report \<Longrightarrow> ran_through (rn_options s) env report \<Longrightarrow>
          closed_view (first_view (current_state (rn_control s))) (rn_id s) report (emitted ops)"
    using run_loop_events [OF assms(1-3)] by blast
  have sink: "rn_sink s' = fold sink_step ops (rn_sink s)" by (rule events_sink [OF ops(1) assms(3)])
  have "map fst (requests_of (emitted ops)) = map of_nat [0..<length (requests_of (emitted ops))]"
    if few: "length (requests_of (emitted ops)) < 2 ^ 32"
    using ops(2) watch_numbered [OF _ few] unfolding numbered_def by blast
  then show ?thesis using ops received_gapless [OF assms(4), of ops] unfolding sink by blast
qed

theorem loop_event_protocol_witness:
  "\<exists>report s' ops. run_loop (\<lambda>_. None) (\<lambda>_. ([], True)) (\<lambda>_. []) sample_loop sample_loop_request (sample_start False)
       = (Done report, s')
     \<and> rn_sink s' = fold sink_step ops (rn_sink (sample_start False))
     \<and> (\<exists>v. watch (LoopId []) (first_view (LoopState_new (LoopId []) LS_Starting 0 ConfigRevision_INITIAL)) (emitted ops) = Some v
          \<and> vw_phase v = Closed OS_Completed \<and> vw_requests v = rep_requests report)"
proof -
  obtain report s' where run: "run_loop (\<lambda>_. None) (\<lambda>_. ([], True)) (\<lambda>_. []) sample_loop sample_loop_request
      (sample_start False) = (Done report, s')" "rep_outcome report = LO_Completed"
    by (rule sample_loop_completes)
  note start = sample_start_view
  obtain ops where ops: "\<forall>k. run_loop (\<lambda>_. None) (\<lambda>_. ([], True)) (\<lambda>_. []) sample_loop sample_loop_request
      ((sample_start False)\<lparr>rn_sink := k\<rparr>) = (Done report, s'\<lparr>rn_sink := fold sink_step ops k\<rparr>)"
    "closed_view (first_view (LoopState_new (LoopId []) LS_Starting 0 ConfigRevision_INITIAL)) (LoopId []) report (emitted ops)"
    using loop_event_protocol [OF sample_loop_ok(1,2) run(1) start(1)] sample_ran_through [of report] unfolding start(2,3) by blast
  have "rn_sink s' = fold sink_step ops (rn_sink (sample_start False))" by (rule events_sink [OF ops(1) run(1)])
  with run ops(2) show ?thesis by (auto simp: closed_view_def outcome_summary_def)
qed


end
