(* ===== verification/Agent_Loop_Events.thy ===== *)
theory Agent_Loop_Events
  imports Agent_Loop_Demo Event_Stream Debug_Output
begin

text \<open>
  The host of \<^verbatim>\<open>examples/agent_loop.rs\<close> as the reader of its event stream: what it prints of the
  events and the report, how it waits for a request, and the assertions it makes about the stream
  after a loop has ended.
\<close>

subsection \<open>Printing\<close>

definition pad_left :: "nat \<Rightarrow> rstr \<Rightarrow> rstr" where
  "pad_left width t = replicate (width - length t) 0x20 @ t"

definition shown_word :: "'a::len word \<Rightarrow> rstr" where
  "shown_word w = nat_digits (unat w)"

fun printable :: "LoopEvent \<Rightarrow> rstr" where
  "printable (EV_Started loop_id) = lit ''started '' @ LoopId_to_string loop_id"
| "printable (EV_RequestStarted _ request_index config_revision _ _) =
     lit ''request '' @ shown_word request_index @ lit '' started (revision ''
       @ debug_fmt (debug_ConfigRevision config_revision) @ lit '')''"
| "printable (EV_OutputDelta _ _ channel delta) =
     lit ''delta['' @ debug_fmt (debug_OutputChannel channel) @ lit ''] '' @ debug_fmt (debug_BoundedText delta)"
| "printable (EV_ToolStarted _ _ _ tool_name) = lit ''tool started: '' @ tname_str tool_name"
| "printable (EV_ToolFinished _ _ call_id outcome _) =
     lit ''tool finished: '' @ tci_str call_id @ lit '' -> '' @ debug_fmt (debug_ToolResultOutcome outcome)"
| "printable (EV_Finished _ outcome) = lit ''finished: '' @ debug_fmt (debug_LoopOutcomeSummary outcome)"
| "printable other = debug_fmt (debug_LoopEvent other)"

text \<open>What \<open>println!\<close> writes, as lines.\<close>

definition stream_events :: "LoopEventEnvelope list \<Rightarrow> rstr list" where
  "stream_events events =
     map (\<lambda>envelope. lit ''  '' @ pad_left 3 (shown_word (env_dropped_before envelope)) @ lit '' dropped, ''
       @ printable (env_event envelope)) events @ [lit ''  (event stream closed)'']"

fun join_with :: "rstr \<Rightarrow> rstr list \<Rightarrow> rstr" where
  "join_with sep [] = []"
| "join_with sep [x] = x"
| "join_with sep (x # xs) = x @ sep @ join_with sep xs"

fun first_part :: "HistoryItem \<Rightarrow> AssistantPart option" where
  "first_part (HI_Assistant a) = (case ah_content a of [] \<Rightarrow> None | part # _ \<Rightarrow> Some part)"
| "first_part _ = None"

definition first_parts :: "LoopReport \<Rightarrow> AssistantPart list" where
  "first_parts report = List.map_filter first_part (rep_appended report)"

definition summarize :: "LoopReport \<Rightarrow> rstr" where
  "summarize report =
     lit ''  report: outcome='' @ debug_fmt (debug_LoopOutcome (rep_outcome report))
       @ lit '' requests='' @ shown_word (rep_requests report) @ lit '' tool_rounds='' @ shown_word (rep_tool_rounds report)
       @ lit '' appended='' @ nat_digits (length (rep_appended report))
       @ lit '' text=['' @ join_with (lit '' | '') (map (\<lambda>part. debug_fmt (debug_AssistantPart part)) (first_parts report)) @ lit '']''"

text \<open>The first two demonstrations, with everything they print.\<close>

definition printed_run :: "string \<Rightarrow> (LoopReport \<times> LoopEventEnvelope list) async \<Rightarrow> rstr list async" where
  "printed_run title played =
     (case played of
        Done (report, events) \<Rightarrow> Done (lit title # stream_events events @ [summarize report])
      | Pending \<Rightarrow> Pending
      | Aborted \<Rightarrow> Aborted)"

definition simple_text_loop_output ::
  "(rstr \<Rightarrow> json option) \<Rightarrow> json serializer \<Rightarrow> (json \<Rightarrow> rstr) \<Rightarrow> demo_env \<Rightarrow> rstr list async" where
  "simple_text_loop_output parse ser enc e = printed_run ''== simple text loop''
     (host_run parse ser enc e (map_option EchoModel (fake_descriptor (lit ''echo'') False)) (Some ToolSet_default))"

definition tool_loop_output ::
  "(rstr \<Rightarrow> json option) \<Rightarrow> json serializer \<Rightarrow> (json \<Rightarrow> rstr) \<Rightarrow> demo_env \<Rightarrow> rstr list async" where
  "tool_loop_output parse ser enc e = printed_run ''== tool loop''
     (host_run parse ser enc e (map_option ToolModel (fake_descriptor (lit ''toolbot'') True)) (clock_toolset ser))"

subsection \<open>Reading the stream\<close>

text \<open>\<open>None\<close> is the panic when the stream ends first; otherwise what is left to read.\<close>

fun wait_for_request :: "u32 \<Rightarrow> LoopEventEnvelope list \<Rightarrow> LoopEventEnvelope list option" where
  "wait_for_request request_index [] = None"
| "wait_for_request request_index (envelope # events) =
     (case env_event envelope of
        EV_RequestStarted _ index _ _ _ \<Rightarrow>
          if index = request_index then Some events else wait_for_request request_index events
      | _ \<Rightarrow> wait_for_request request_index events)"

text \<open>The loop after the join; \<open>None\<close> is a failed assertion, otherwise the flag.\<close>

fun second_request_with_revision :: "ConfigRevision \<Rightarrow> LoopEventEnvelope list \<Rightarrow> bool \<Rightarrow> bool option" where
  "second_request_with_revision revision [] seen = Some seen"
| "second_request_with_revision revision (envelope # events) seen =
     (case env_event envelope of
        EV_RequestStarted _ index observed _ _ \<Rightarrow>
          if index = 1 then
            (if observed = revision then second_request_with_revision revision events True else None)
          else second_request_with_revision revision events seen
      | _ \<Rightarrow> second_request_with_revision revision events seen)"

text \<open>
  The last two demonstrations with their whole reading of the stream; \<open>revision\<close> is what \<open>update\<close>
  answered.
\<close>

definition input_update_boundaries_output ::
  "(rstr \<Rightarrow> json option) \<Rightarrow> json serializer \<Rightarrow> (json \<Rightarrow> rstr) \<Rightarrow> demo_env \<Rightarrow> ConfigRevision \<Rightarrow> rstr list async" where
  "input_update_boundaries_output parse ser enc e revision =
     (case host_run parse ser enc e (map_option FirstModel (fake_descriptor (lit ''first'') True)) (clock_toolset ser) of
        Done (report, events) \<Rightarrow>
          (case wait_for_request 0 events of
             None \<Rightarrow> Aborted
           | Some events' \<Rightarrow>
               if boundary_asserts report \<and> second_request_with_revision revision events' False = Some True
               then Done [lit ''== host input + update at the next request'',
                          lit ''  input + update applied at request 1 (revision '' @ debug_fmt (debug_ConfigRevision revision) @ lit '')'']
               else Aborted)
      | Pending \<Rightarrow> Pending
      | Aborted \<Rightarrow> Aborted)"

definition cancel_held_loop_output ::
  "(rstr \<Rightarrow> json option) \<Rightarrow> json serializer \<Rightarrow> (json \<Rightarrow> rstr) \<Rightarrow> demo_env \<Rightarrow> rstr list async" where
  "cancel_held_loop_output parse ser enc e =
     (case host_run parse ser enc e (map_option FirstModel (fake_descriptor (lit ''held'') True)) (clock_toolset ser) of
        Done (report, events) \<Rightarrow>
          (case wait_for_request 0 events of
             None \<Rightarrow> Aborted
           | Some _ \<Rightarrow>
               if rep_outcome report = LO_Cancelled CR_User
               then Done [lit ''== cancel a held loop'', lit ''  cancelled: '' @ debug_fmt (debug_LoopOutcome (rep_outcome report))]
               else Aborted)
      | Pending \<Rightarrow> Pending
      | Aborted \<Rightarrow> Aborted)"

subsection \<open>Lemmas: reading\<close>

text \<open>A stream that reports no loss and ends with the last event.\<close>

definition unbroken :: "LoopEventEnvelope list \<Rightarrow> bool" where
  "unbroken events \<longleftrightarrow> list_all (\<lambda>x. env_dropped_before x = 0) events
     \<and> events \<noteq> [] \<and> (case env_event (last events) of EV_Finished _ _ \<Rightarrow> True | _ \<Rightarrow> False)"

abbreviation requests_read :: "LoopEventEnvelope list \<Rightarrow> (u32 \<times> ConfigRevision) list" where
  "requests_read events \<equiv> requests_of (map env_event events)"

lemma wait_for_request_Some:
  "requests_read events = (n, r) # rs \<Longrightarrow> \<exists>rest. wait_for_request n events = Some rest \<and> requests_read rest = rs"
proof (induction events)
  case (Cons x events)
  then show ?case by (cases "env_event x") auto
qed simp

lemma wait_for_request_rest: "wait_for_request n events = Some rest \<Longrightarrow> set (requests_read rest) \<subseteq> set (requests_read events)"
proof (induction events)
  case (Cons x events)
  then show ?case by (cases "env_event x") (auto split: if_splits)
qed simp

lemma second_request_spec:
  "second_request_with_revision revision events seen =
     (if \<forall>r. (1, r) \<in> set (requests_read events) \<longrightarrow> r = revision
      then Some (seen \<or> (1, revision) \<in> set (requests_read events)) else None)"
proof (induction events arbitrary: seen)
  case (Cons x events)
  then show ?case by (cases "env_event x") auto
qed simp

text \<open>An observer counts the requests, and nothing follows the last event.\<close>

lemma observe_counts:
  "observe i e v = Some w \<Longrightarrow>
     unat (vw_requests w) = min (2 ^ 32 - 1) (unat (vw_requests v) + length (requests_of [e]))"
proof -
  have "unat (vw_requests v) < 2 ^ LENGTH(32)" by (rule unsigned_less)
  then have "unat (vw_requests v) \<le> 2 ^ 32 - 1" by simp
  moreover assume "observe i e v = Some w"
  ultimately show ?thesis
    by (cases e) (auto simp: observe_state_def unat_saturating_add min_def split: phase.splits LoopStatus.splits option.splits)
qed

lemma watch_counts:
  assumes "watch i (first_view st) es = Some v"
  shows "unat (vw_requests v) = min (2 ^ 32 - 1) (length (requests_of es))"
  using assms
proof (induction es arbitrary: v rule: rev_induct)
  case Nil
  then show ?case by (auto simp: first_view_def)
next
  case (snoc e es)
  then obtain w where w: "watch i (first_view st) es = Some w" "observe i e w = Some v"
    by (auto simp: watch_append split: Option.bind_splits)
  with snoc.IH [OF w(1)] observe_counts [OF w(2)] show ?case by simp
qed

lemma closed_silent: "vw_phase v = Closed x \<Longrightarrow> observe i e v = None"
  by (cases e) (auto simp: observe_state_def must_def split: LoopStatus.splits)

lemma watch_complete:
  assumes "watch i v (es @ fs) \<noteq> None" "es \<noteq> []" "last es = EV_Finished j outcome"
  shows "fs = []"
proof -
  obtain ds where es: "es = ds @ [EV_Finished j outcome]" using assms(2,3) by (metis append_butlast_last_id)
  obtain w where w: "watch i v es = Some w" using assms(1) by (auto simp: watch_append split: Option.bind_splits)
  then have "vw_phase w = Closed outcome" by (auto simp: es watch_append split: Option.bind_splits)
  then show ?thesis using assms(1) w by (cases fs) (auto simp: watch_append closed_silent)
qed

text \<open>What the host reads is a part of what was emitted, and all of it if the stream is unbroken.\<close>

lemma all_received_emitted:
  assumes "LoopEventSink_channel consumer capacity = Ok sk" "watch i v (emitted ops) \<noteq> None"
  defines "events \<equiv> all_received (fold sink_step ops sk)"
  shows "subseq (map env_event events) (emitted ops)" "unbroken events \<Longrightarrow> map env_event events = emitted ops"
proof -
  have inv: "sink_inv ops (fold sink_step ops sk)" by (rule sink_run_inv [OF assms(1)])
  then have sent: "prefix events (sk_sent (fold sink_step ops sk))"
    unfolding events_def all_received_def sink_inv_def by (metis append_Nil2 prefix_order.refl)
  then show "subseq (map env_event events) (emitted ops)"
    using inv unfolding sink_inv_def by (meson map_mono_prefix prefix_imp_subseq subseq_order.trans)
  assume unbroken: "unbroken events"
  have "prefix (gapless events) (emitted ops)"
    using gapless_prefix [OF sent] lossless_run [OF assms(1), of ops] unfolding lossless_def by (meson prefix_order.trans)
  then have "prefix (map env_event events) (emitted ops)" using unbroken gapless_all [of events] by (simp add: unbroken_def)
  then obtain fs where fs: "emitted ops = map env_event events @ fs" by (auto simp: prefix_def)
  obtain j outcome where "events \<noteq> []" "env_event (last events) = EV_Finished j outcome"
    using unbroken by (auto simp: unbroken_def split: LoopEvent.splits)
  then have "fs = []" using watch_complete [OF assms(2) [unfolded fs], of j outcome] by (simp add: last_map)
  with fs show "map env_event events = emitted ops" by simp
qed

lemma started_sink:
  "AgentLoop_start ser runtime now fills consumer request options = Some (Ok (a, s)) \<Longrightarrow>
     LoopEventSink_channel consumer (lo_event_capacity options) = Ok (rn_sink s)"
  by (auto simp: AgentLoop_start_def Let_def LoopControl_new_def and_then_eq_Ok spawn_def
      split: if_splits result.splits option.splits)

text \<open>The run of the loop behind a host's run.\<close>

lemma host_loop:
  assumes "host_run parse ser enc e (Some m) (Some ts) = Done (report, events)" "tool_set_ok ts"
  obtains request a s s' where "run_loop parse ser enc (de_loop e) request s = (Done report, s')" "events = all_received (rn_sink s')"
    "start_ok s request" "LoopEventSink_channel (de_consumer e) (lo_event_capacity default_options) = Ok (rn_sink s)"
    "rn_options s = default_options"
proof -
  obtain request a s s' where run: "start_request m ts = Some request" "start_demo ser e request = Some (Ok (a, s))"
      "run_loop parse ser enc (de_loop e) request s = (Done report, s')" "events = all_received (rn_sink s')"
    using assms(1)
    by (auto simp: host_run_def AgentLoop_take_events_def AgentLoop_join_def await_task_def ok_or_def
        split: option.splits result.splits async.splits if_splits prod.splits)
  have start: "AgentLoop_start ser (de_runtime e) (de_now_start e) (de_fills e) (de_consumer e) request default_options = Some (Ok (a, s))"
    using run(2) by (simp add: start_demo_def options_default(1))
  have "tool_set_ok (ec_tools (lq_config request))" using start_request_tools [OF run(1)] assms(2) by simp
  note s = started_runner [OF start this]
  show thesis by (rule that [OF run(3,4) s(1) started_sink [OF start] s(2)])
qed

text \<open>What the stream tells about the report of a host's run.\<close>

lemma host_stream:
  assumes "host_run parse ser enc e (Some m) (Some ts) = Done (report, events)" "tool_set_ok ts" "typed_loop (de_loop e)"
    and "ran_through default_options (de_loop e) report"
  obtains es i st where "closed_view (first_view st) i report es" "subseq (map env_event events) es"
    "unbroken events \<Longrightarrow> map env_event events = es"
proof -
  obtain request a s s' where run: "run_loop parse ser enc (de_loop e) request s = (Done report, s')" "events = all_received (rn_sink s')"
    and s: "start_ok s request" "LoopEventSink_channel (de_consumer e) (lo_event_capacity default_options) = Ok (rn_sink s)"
      "rn_options s = default_options"
    by (rule host_loop [OF assms(1,2)])
  obtain ops where ops: "\<forall>k. run_loop parse ser enc (de_loop e) request (s\<lparr>rn_sink := k\<rparr>) = (Done report, s'\<lparr>rn_sink := fold sink_step ops k\<rparr>)"
    "watch (rn_id s) (first_view (current_state (rn_control s))) (emitted ops) \<noteq> None"
    "closed_view (first_view (current_state (rn_control s))) (rn_id s) report (emitted ops)"
    using run_loop_events [OF s(1) assms(3) run(1)] assms(4) unfolding s(3) by blast
  have "events = all_received (fold sink_step ops (rn_sink s))" using events_sink [OF ops(1) run(1)] run(2) by simp
  then show thesis using that ops(3) all_received_emitted [OF s(2) ops(2)] by blast
qed

text \<open>The requests of a stream are those the report counts, numbered from 0.\<close>

lemma report_requests:
  assumes "closed_view (first_view st) i report es" "unat (rep_requests report) < 2 ^ 32 - 1"
  shows "map fst (requests_of es) = map of_nat [0..<unat (rep_requests report)]"
    "rep_requests report \<noteq> 0 \<Longrightarrow> snd (last (requests_of es)) = rep_final_config_revision report"
proof -
  obtain v where v: "watch i (first_view st) es = Some v" "vw_requests v = rep_requests report"
      "vw_revision v = rep_final_config_revision report"
    using assms by (auto simp: closed_view_def)
  have count: "length (requests_of es) = unat (rep_requests report)"
    using watch_counts [OF v(1)] assms(2) by (simp add: v(2) min_def split: if_splits)
  have "length (requests_of es) < 2 ^ 32" using count assms(2) by simp
  from watch_numbered [OF v(1) this] count v(3)
  show "map fst (requests_of es) = map of_nat [0..<unat (rep_requests report)]"
    "rep_requests report \<noteq> 0 \<Longrightarrow> snd (last (requests_of es)) = rep_final_config_revision report"
    by (auto simp: numbered_def unat_eq_0 split: if_splits)
qed

lemma two_requests:
  assumes "closed_view (first_view st) i report es" "rep_requests report = 2"
  obtains r where "requests_of es = [(0, r), (1, rep_final_config_revision report)]"
proof -
  have "map fst (requests_of es) = [0, 1]" "snd (last (requests_of es)) = rep_final_config_revision report"
    using report_requests [OF assms(1)] assms(2) by (simp_all add: upt_rec)
  then show thesis using that by (auto simp: map_eq_Cons_conv)
qed

lemma one_request:
  assumes "closed_view (first_view st) i report es" "rep_requests report = 1"
  obtains r where "requests_of es = [(0, r)]"
proof -
  have "map fst (requests_of es) = [0]" using report_requests(1) [OF assms(1)] assms(2) by (simp add: upt_rec)
  then show thesis using that by (auto simp: map_eq_Cons_conv)
qed

subsection \<open>Lemmas: what is printed\<close>

text \<open>What the example prints of events and reports is as discreet as \<open>Debug\<close>.\<close>

lemma printable_redacted: "printable (redact_loop_event ev) = printable ev"
proof (cases ev)
  case (EV_StateChanged st)
  then show ?thesis using loop_event_dbg.debug_redact [of ev] by simp
next
  case (EV_ToolProgress loop_id i call_id p)
  then show ?thesis using loop_event_dbg.debug_redact [of ev] by simp
next
  case (EV_InteractionRequested loop_id p)
  then show ?thesis using loop_event_dbg.debug_redact [of ev] by simp
qed (simp_all add: text_dbg.debug_redact)

lemma stream_events_redacted: "stream_events (map redact_envelope events) = stream_events events"
  by (simp add: stream_events_def redact_envelope_def printable_redacted)

lemma first_parts_redacted: "first_parts (redact_report report) = map redact_part (first_parts report)"
proof -
  have item: "first_part (redact_item item) = map_option redact_part (first_part item)" for item
    by (cases item) (simp_all split: list.splits)
  have "List.map_filter first_part (map redact_item items) = map redact_part (List.map_filter first_part items)" for items
    by (induction items) (simp_all add: List.map_filter_simps item split: option.splits)
  then show ?thesis by (simp add: first_parts_def redact_report_def)
qed

lemma summarize_redacted: "summarize (redact_report report) = summarize report"
proof -
  have "rep_outcome (redact_report report) = redact_outcome (rep_outcome report)"
    "rep_requests (redact_report report) = rep_requests report" "rep_tool_rounds (redact_report report) = rep_tool_rounds report"
    "length (rep_appended (redact_report report)) = length (rep_appended report)"
    by (simp_all add: redact_report_def)
  then show ?thesis by (simp add: summarize_def first_parts_redacted comp_def part_dbg.debug_redact outcome_dbg.debug_redact)
qed

lemma printed_run_redacted:
  "printed_run title (Done (redact_report report, map redact_envelope events)) = printed_run title (Done (report, events))"
  by (simp add: printed_run_def stream_events_redacted summarize_redacted)

subsection \<open>Lemmas: the demonstrations\<close>

lemma unbroken_demo:
  assumes "host_run parse ser enc e (Some (FirstModel (fake name True))) (Some clock_tools) = Done (report, events)"
    and "typed_loop (de_loop e)" "ran_through default_options (de_loop e) report" "serde_json parse ser"
  shows "rep_requests report = 2 \<Longrightarrow> (1, r) \<in> set (requests_read events) \<Longrightarrow> r = rep_final_config_revision report"
    and "unbroken events \<Longrightarrow> rep_requests report = 2 \<Longrightarrow> \<exists>r. requests_read events = [(0, r), (1, rep_final_config_revision report)]"
    and "unbroken events \<Longrightarrow> rep_requests report = 1 \<Longrightarrow> \<exists>r. requests_read events = [(0, r)]"
proof -
  obtain es i st where es: "closed_view (first_view st) i report es" "subseq (map env_event events) es"
    "unbroken events \<Longrightarrow> map env_event events = es"
    by (rule host_stream [OF assms(1) clock_toolset_Some(2) [OF assms(4)] assms(2,3)]) blast
  have read: "set (requests_read events) \<subseteq> set (requests_of es)"
    using es(2)
  proof (induction rule: list_emb.induct)
    case (list_emb_Cons xs ys y)
    then show ?case by (cases y) auto
  next
    case (list_emb_Cons2 x y xs ys)
    then show ?case by (cases x) auto
  qed simp
  show "r = rep_final_config_revision report" if two: "rep_requests report = 2" "(1, r) \<in> set (requests_read events)"
  proof -
    obtain r' where "requests_of es = [(0, r'), (1, rep_final_config_revision report)]" by (rule two_requests [OF es(1) two(1)])
    then show ?thesis using read two(2) by auto
  qed
  show "\<exists>r. requests_read events = [(0, r), (1, rep_final_config_revision report)]" if "unbroken events" "rep_requests report = 2"
    using es(3) [OF that(1)] two_requests [OF es(1) that(2)] by simp blast
  show "\<exists>r. requests_read events = [(0, r)]" if "unbroken events" "rep_requests report = 1"
    using es(3) [OF that(1)] one_request [OF es(1) that(2)] by simp blast
qed

lemma host_drive_run: "host_drive parse ser enc e m ts = Done report \<Longrightarrow> \<exists>events. host_run parse ser enc e m ts = Done (report, events)"
  by (auto simp: host_drive_def split: async.splits)

lemma cancel_held_loop_prints:
  assumes json: "serde_json parse ser" and e: "de_runtime e" "typed_loop (de_loop e)" "LoopId_new (de_fills e) = Some (Ok ident)"
    and rounds: "ln_rounds (de_loop e) = round # later" "asks_undisturbed round" "on_schedule [] [] ops (hear default_options round)"
    and held: "cancels_stream default_options CS_User (lr_model round) []"
  shows "\<exists>report events. host_run parse ser enc e (map_option FirstModel (fake_descriptor (lit ''held'') True)) (clock_toolset ser)
       = Done (report, events)
     \<and> (unbroken events \<longrightarrow> cancel_held_loop_output parse ser enc e
          = Done [lit ''== cancel a held loop'', lit ''  cancelled: Cancelled(User)''])"
proof -
  note tools = clock_toolset_Some [OF json]
  obtain report where cancelled: "cancel_held_loop parse ser enc e = Done report" "rep_outcome report = LO_Cancelled CR_User"
    "rep_requests report = 1"
    using cancel_held_loop_ends [OF assms, of enc] by blast
  then have "host_drive parse ser enc e (Some (FirstModel (fake ''held'' True))) (Some clock_tools) = Done report"
    by (simp add: cancel_held_loop_def tools(1) split: async.splits if_splits)
  then obtain events where events: "host_run parse ser enc e (Some (FirstModel (fake ''held'' True))) (Some clock_tools) = Done (report, events)"
    using host_drive_run by blast
  have "cancel_held_loop_output parse ser enc e = Done [lit ''== cancel a held loop'', lit ''  cancelled: Cancelled(User)'']"
    if unbroken: "unbroken events"
  proof -
    obtain r where "requests_read events = [(0, r)]"
      using unbroken_demo(3) [OF events e(2) _ json unbroken cancelled(3)] cancelled(2) by (auto simp: ran_through_def)
    then obtain rest where "wait_for_request 0 events = Some rest" using wait_for_request_Some by blast
    moreover have "debug_fmt (debug_LoopOutcome (LO_Cancelled CR_User)) = lit ''Cancelled(User)''" by (simp add: dbg_name_def lit_def)
    ultimately show ?thesis
      by (simp add: cancel_held_loop_output_def tools(1) events cancelled(2)) (simp add: lit_def)
  qed
  then show ?thesis using events by (auto simp: tools(1))
qed

subsection \<open>Properties\<close>

text \<open>
  C19: in the demonstration of \<open>examples/agent_loop.rs\<close>, an update and an input that arrive while the
  first request runs take effect at the second, both at once, and the host can see it.  The script
  keeps to the demonstration's schedule (nobody cancels, the ports answer in time); the models answer
  as their code does, each request by the model of the configuration the runner itself has when it
  asks.  Then the history is: the prompt, the first model's tool call, the clock's result, the input,
  and the answer of the model of the updated configuration.  So the assertions of the demonstration
  hold, and the report ends on the revision the update was given.  Whatever the channel lost, no event
  claims another revision for the second request; and if the stream is unbroken, the host finds both
  requests in it and the whole demonstration prints its last line.
\<close>
theorem input_update_takes_effect:
  assumes "serde_json parse ser" "updated_config ser = Some cfg"
    and "plays_two_rounds parse ser enc (map_option FirstModel (fake_descriptor (lit ''first'') True)) (clock_toolset ser)
       [X_Update cfg] (Some (lit ''please focus on the time'')) e"
  shows "\<exists>report events. input_update_boundaries parse ser enc e = Done report \<and> boundary_asserts report
     \<and> rep_outcome report = LO_Completed \<and> Agent_Loop_Demo.report_texts report = [lit ''after-update'']
     \<and> rep_final_config_revision report = ConfigRevision_next ConfigRevision_INITIAL
     \<and> (\<exists>ident request. start_request (FirstModel (fake ''first'' True)) clock_tools = Some request
          \<and> rep_appended report = two_round_items ident request [UI_Text (BoundedText (lit ''please focus on the time''))] cfg
               (lit ''after-update''))
     \<and> host_run parse ser enc e (map_option FirstModel (fake_descriptor (lit ''first'') True)) (clock_toolset ser) = Done (report, events)
     \<and> (\<forall>r. (1, r) \<in> set (requests_read events) \<longrightarrow> r = ConfigRevision_next ConfigRevision_INITIAL)
     \<and> (unbroken events \<longrightarrow> input_update_boundaries_output parse ser enc e (ConfigRevision_next ConfigRevision_INITIAL)
          = Done [lit ''== host input + update at the next request'',
              lit ''  input + update applied at request 1 (revision ConfigRevision(1))''])"
proof -
  note tools = clock_toolset_Some [OF assms(1)]
  let ?next = "ConfigRevision_next ConfigRevision_INITIAL"
  obtain report where report: "input_update_boundaries parse ser enc e = Done report" "boundary_asserts report"
    "rep_outcome report = LO_Completed" "Agent_Loop_Demo.report_texts report = [lit ''after-update'']" "rep_final_config_revision report = ?next"
    and items: "\<exists>ident request. start_request (FirstModel (fake ''first'' True)) clock_tools = Some request
          \<and> rep_appended report = two_round_items ident request [UI_Text (BoundedText (lit ''please focus on the time''))] cfg
               (lit ''after-update'')"
    using input_update_report [OF assms] by blast
  from report have "host_drive parse ser enc e (Some (FirstModel (fake ''first'' True))) (Some clock_tools) = Done report"
    by (simp add: input_update_boundaries_def tools(1) split: async.splits if_splits)
  then obtain events where events: "host_run parse ser enc e (Some (FirstModel (fake ''first'' True))) (Some clock_tools) = Done (report, events)"
    using host_drive_run by blast
  have two: "rep_requests report = 2" using report(2) by (simp add: boundary_asserts_def)
  have env: "typed_loop (de_loop e)" "ran_through default_options (de_loop e) report"
    using assms(3) report(3) by (auto simp: plays_two_rounds_def undisturbed_loop_def ran_through_def)
  have shown: "debug_fmt (debug_ConfigRevision ?next) = lit ''ConfigRevision(1)''"
    by (simp add: debug_ConfigRevision_def dbg_word_def ConfigRevision_next_def ConfigRevision_INITIAL_def saturating_add_def
        nat_digits.simps lit_def)
  have "input_update_boundaries_output parse ser enc e ?next = Done [lit ''== host input + update at the next request'',
      lit ''  input + update applied at request 1 (revision ConfigRevision(1))'']" if unbroken: "unbroken events"
  proof -
    obtain r where "requests_read events = [(0, r), (1, ?next)]"
      using unbroken_demo(2) [OF events env assms(1) unbroken two] report(5) by auto
    then obtain rest where "wait_for_request 0 events = Some rest" "requests_read rest = [(1, ?next)]"
      using wait_for_request_Some by blast
    then show ?thesis
      using report(2) by (simp add: input_update_boundaries_output_def tools(1) events second_request_spec shown) (simp add: lit_def)
  qed
  then show ?thesis using report items events unbroken_demo(1) [OF events env assms(1) two] by (auto simp: tools(1))
qed

theorem input_update_takes_effect_witness:
  "\<exists>parse ser cfg e report events. updated_config ser = Some cfg \<and> serde_json parse ser
     \<and> input_update_boundaries parse ser (\<lambda>_. []) e = Done report \<and> rep_requests report = 2
     \<and> rep_final_config_revision report = ConfigRevision 1
     \<and> host_run parse ser (\<lambda>_. []) e (map_option FirstModel (fake_descriptor (lit ''first'') True)) (clock_toolset ser) = Done (report, events)
     \<and> (\<forall>r. (1, r) \<in> set (requests_read events) \<longrightarrow> r = ConfigRevision 1)"
proof -
  define ser :: "json serializer" where "ser = (\<lambda>v. ([if v = clock_schema then 61 else 30], True))"
  define parse :: "rstr \<Rightarrow> json option" where "parse = (\<lambda>_. Some clock_arguments)"
  have json: "serde_json parse ser" by (simp add: serde_json_def parse_def ser_def) (simp add: clock_arguments_def clock_schema_def lit_def)
  obtain cfg where update: "updated_config ser = Some cfg"
    using host_config_fake [of "SecondModel (fake ''second'' True)" "''second''" True clock_tools]
    by (simp add: updated_config_def clock_toolset_Some [OF json])
  obtain e where "plays_two_rounds parse ser (\<lambda>_. []) (map_option FirstModel (fake_descriptor (lit ''first'') True)) (clock_toolset ser)
       [X_Update cfg] (Some (lit ''please focus on the time'')) e"
    using demonstration_exists [OF json update] by blast
  moreover have "ConfigRevision_next ConfigRevision_INITIAL = ConfigRevision 1"
    by (simp add: ConfigRevision_next_def ConfigRevision_INITIAL_def saturating_add_def)
  ultimately show ?thesis
    using input_update_takes_effect [OF json update, of "\<lambda>_. []" e] json update unfolding boundary_asserts_def by metis
qed


end
