(* ===== verification/Stored_History.thy ===== *)
theory Stored_History
  imports Runner
begin

text \<open>
  Storing a history.  The host persists what a loop appends and hands it back later: the types of
  \<^verbatim>\<open>history.rs\<close> derive their serde implementations, and every component with an invariant reads
  itself through its checked constructor (\<^verbatim>\<open>value.rs\<close>, \<^verbatim>\<open>ids.rs\<close>, \<^verbatim>\<open>model/message.rs\<close>,
  \<^verbatim>\<open>model/replay.rs\<close>, \<^verbatim>\<open>tools/tool.rs\<close>).

  The data format is a library, and that it gives back the strings, numbers and JSON values it was
  given is its own promise; a stored value is represented by a value of the same shape, which need
  not satisfy any invariant.  Reading it back checks and rebuilds every component; \<open>None\<close> is an
  error of the reader.  The items that survive are characterised, and everything a loop appends
  is among them.
\<close>

named_theorems stored_defs \<open>reading stored values\<close>

subsection \<open>Reading\<close>

fun accepted :: "('a, 'e) result \<Rightarrow> 'a option" where
  "accepted (Ok a) = Some a"
| "accepted (Err e) = None"

text \<open>A type that is stored as its text: \<open>Display\<close> writes it and \<open>FromStr\<close> reads it.\<close>

definition deserialize_from_str :: "('a \<Rightarrow> rstr) \<Rightarrow> (rstr \<Rightarrow> ('a, 'e) result) \<Rightarrow> 'a \<Rightarrow> 'a option" where
  [stored_defs]: "deserialize_from_str shown from_str wire = accepted (from_str (shown wire))"

definition LoopId_deserialize :: "LoopId \<Rightarrow> LoopId option" where
  [stored_defs]: "LoopId_deserialize = deserialize_from_str LoopId_to_string LoopId_from_str"

definition ToolCallId_deserialize :: "ToolCallId \<Rightarrow> ToolCallId option" where
  [stored_defs]: "ToolCallId_deserialize = deserialize_from_str tci_str ToolCallId_new"

definition ToolName_deserialize :: "ToolName \<Rightarrow> ToolName option" where
  [stored_defs]: "ToolName_deserialize = deserialize_from_str tname_str ToolName_from_str"

definition ModelRef_deserialize :: "ModelRef \<Rightarrow> ModelRef option" where
  [stored_defs]: "ModelRef_deserialize = deserialize_from_str mref_str ModelRef_from_str"

definition BoundedText_deserialize :: "BoundedText \<Rightarrow> BoundedText option" where
  [stored_defs]: "BoundedText_deserialize wire = accepted (BoundedText_new (as_str wire))"

fun UserInput_deserialize :: "UserInput \<Rightarrow> UserInput option" where
  "UserInput_deserialize (UI_Text b) = map_option UI_Text (BoundedText_deserialize b)"

definition UserHistory_deserialize :: "UserHistory \<Rightarrow> UserHistory option" where
  [stored_defs]: "UserHistory_deserialize wire =
     Option.bind (LoopId_deserialize (uh_loop_id wire)) (\<lambda>i.
     Option.bind (UserInput_deserialize (uh_input wire)) (\<lambda>u.
       Some \<lparr>uh_loop_id = i, uh_kind = uh_kind wire, uh_input = u\<rparr>))"

text \<open>A part: its own reader, after those of what it holds.\<close>

definition stored_call :: "json serializer \<Rightarrow> ToolCall \<Rightarrow> ToolCall option" where
  [stored_defs]: "stored_call ser wire =
     Option.bind (ToolCallId_deserialize (tc_id wire)) (\<lambda>i.
     Option.bind (ToolName_deserialize (tc_name wire)) (\<lambda>n.
       accepted (ToolCall_deserialize ser (wire\<lparr>tc_id := i, tc_name := n\<rparr>))))"

fun stored_part :: "json serializer \<Rightarrow> AssistantPart \<Rightarrow> AssistantPart option" where
  "stored_part ser (AP_Text t) = accepted (AssistantPart_deserialize (AP_Text t))"
| "stored_part ser (AP_Reasoning r) =
     Option.bind (accepted (ReasoningContent_deserialize r)) (\<lambda>r. accepted (AssistantPart_deserialize (AP_Reasoning r)))"
| "stored_part ser (AP_ToolCall c) =
     Option.bind (stored_call ser c) (\<lambda>c. accepted (AssistantPart_deserialize (AP_ToolCall c)))"

text \<open>The size of a replay is not stored; it is measured again.  A missing replay reads as none.\<close>

definition stored_replay ::
  "(rstr \<times> json) serializer \<Rightarrow> ProviderReplay option \<Rightarrow> ProviderReplay option option" where
  [stored_defs]: "stored_replay rser wire =
     (case wire of
        None \<Rightarrow> Some None
      | Some r \<Rightarrow> map_option Some (accepted (ProviderReplay_deserialize rser (replay_format r, replay_payload r))))"

definition AssistantHistory_deserialize ::
  "json serializer \<Rightarrow> (rstr \<times> json) serializer \<Rightarrow> AssistantHistory \<Rightarrow> AssistantHistory option" where
  [stored_defs]: "AssistantHistory_deserialize ser rser wire =
     Option.bind (LoopId_deserialize (ah_loop_id wire)) (\<lambda>i.
     Option.bind (ModelRef_deserialize (ah_model wire)) (\<lambda>m.
     Option.bind (those (map (stored_part ser) (ah_content wire))) (\<lambda>parts.
     Option.bind (stored_replay rser (ah_provider_replay wire)) (\<lambda>replay.
       Some (wire\<lparr>ah_loop_id := i, ah_model := m, ah_content := parts, ah_provider_replay := replay\<rparr>)))))"

definition stored_output :: "ToolOutput \<Rightarrow> ToolOutput option" where
  [stored_defs]: "stored_output wire =
     Option.bind (BoundedText_deserialize (out_content wire)) (\<lambda>b. accepted (ToolOutput_deserialize b))"

definition ToolResultHistory_deserialize :: "ToolResultHistory \<Rightarrow> ToolResultHistory option" where
  [stored_defs]: "ToolResultHistory_deserialize wire =
     Option.bind (LoopId_deserialize (th_loop_id wire)) (\<lambda>i.
     Option.bind (ToolCallId_deserialize (th_call_id wire)) (\<lambda>c.
     Option.bind (ToolName_deserialize (th_tool_name wire)) (\<lambda>n.
     Option.bind (stored_output (th_output wire)) (\<lambda>out.
       Some (wire\<lparr>th_loop_id := i, th_call_id := c, th_tool_name := n, th_output := out\<rparr>)))))"

definition SummaryHistory_deserialize :: "SummaryHistory \<Rightarrow> SummaryHistory option" where
  [stored_defs]: "SummaryHistory_deserialize wire =
     Option.bind (BoundedText_deserialize (sh_content wire)) (\<lambda>b. Some \<lparr>sh_content = b\<rparr>)"

fun HistoryItem_deserialize ::
  "json serializer \<Rightarrow> (rstr \<times> json) serializer \<Rightarrow> HistoryItem \<Rightarrow> HistoryItem option" where
  "HistoryItem_deserialize ser rser (HI_User u) = map_option HI_User (UserHistory_deserialize u)"
| "HistoryItem_deserialize ser rser (HI_Assistant a) = map_option HI_Assistant (AssistantHistory_deserialize ser rser a)"
| "HistoryItem_deserialize ser rser (HI_ToolResult r) = map_option HI_ToolResult (ToolResultHistory_deserialize r)"
| "HistoryItem_deserialize ser rser (HI_Summary s) = map_option HI_Summary (SummaryHistory_deserialize s)"

definition history_deserialize ::
  "json serializer \<Rightarrow> (rstr \<times> json) serializer \<Rightarrow> HistoryItem list \<Rightarrow> HistoryItem list option" where
  "history_deserialize ser rser wire = those (map (HistoryItem_deserialize ser rser) wire)"

subsection \<open>What can be stored\<close>

fun part_storable :: "json serializer \<Rightarrow> AssistantPart \<Rightarrow> bool" where
  "part_storable ser (AP_Text t) = valid_text t MAX_MODEL_MESSAGE_TEXT_BYTES True"
| "part_storable ser (AP_Reasoning r) = reasoning_ok r"
| "part_storable ser (AP_ToolCall c) =
     (tool_call_id.name_ok (tc_id c) \<and> tool_name.name_ok (tc_name c) \<and> json_is_object (tc_arguments c)
      \<and> validate_json_size ser (tc_arguments c) MAX_JSON_BYTES = Ok ())"

definition replay_storable :: "(rstr \<times> json) serializer \<Rightarrow> ProviderReplay \<Rightarrow> bool" where
  "replay_storable rser r \<longleftrightarrow> ProviderReplay_new rser (replay_format r) (replay_payload r) = Ok r"

fun item_storable :: "json serializer \<Rightarrow> (rstr \<times> json) serializer \<Rightarrow> HistoryItem \<Rightarrow> bool" where
  "item_storable ser rser (HI_User u) =
     (id_payload_ok (lup_bytes (uh_loop_id u)) \<and> str_len (UserInput_as_text (uh_input u)) \<le> MAX_TEXT_BYTES)"
| "item_storable ser rser (HI_Assistant a) =
     (id_payload_ok (lup_bytes (ah_loop_id a)) \<and> model_ref.name_ok (ah_model a)
      \<and> list_all (part_storable ser) (ah_content a)
      \<and> (\<forall>r. ah_provider_replay a = Some r \<longrightarrow> replay_storable rser r))"
| "item_storable ser rser (HI_ToolResult r) =
     (id_payload_ok (lup_bytes (th_loop_id r)) \<and> tool_call_id.name_ok (th_call_id r)
      \<and> tool_name.name_ok (th_tool_name r) \<and> tool_output_ok (th_output r))"
| "item_storable ser rser (HI_Summary s) = (bt_byte_len (sh_content s) \<le> MAX_TEXT_BYTES)"

subsection \<open>Lemmas: reading\<close>

text \<open>
  The contract of a reader on values of the shape it reads: what it returns is storable, and reading
  a storable value changes nothing.
\<close>

locale stored_reader =
  fixes reader :: "'a \<Rightarrow> 'a option" and storable :: "'a \<Rightarrow> bool"
  assumes read_storable: "storable a \<Longrightarrow> reader a = Some a"
    and storable_read: "reader w = Some a \<Longrightarrow> storable a"
begin

lemma same_iff: "reader a = Some a \<longleftrightarrow> storable a"
  using read_storable storable_read by blast

lemma read_twice: "reader w = Some a \<Longrightarrow> reader a = Some a"
  using read_storable storable_read by blast

lemma those_storable: "list_all storable xs \<Longrightarrow> those (map reader xs) = Some xs"
  by (induction xs) (simp_all add: read_storable)

lemma those_read: "those (map reader ws) = Some xs \<Longrightarrow> list_all storable xs"
  by (induction ws arbitrary: xs) (auto split: option.splits dest: storable_read)

end

lemma accepted_Some [simp]: "accepted r = Some a \<longleftrightarrow> r = Ok a"
  by (cases r) simp_all

interpretation loop_id_reader: stored_reader LoopId_deserialize "\<lambda>i. id_payload_ok (lup_bytes i)"
  by unfold_locales (auto simp: stored_defs loop_id.decode_encode dest: loop_id.decode_valid)

interpretation call_id_reader: stored_reader ToolCallId_deserialize tool_call_id.name_ok
  by unfold_locales (auto simp: stored_defs tool_call_id.parse_Ok_iff)

interpretation tool_name_reader: stored_reader ToolName_deserialize tool_name.name_ok
  by unfold_locales (auto simp: stored_defs tool_name.parse_Ok_iff)

interpretation model_ref_reader: stored_reader ModelRef_deserialize model_ref.name_ok
  by unfold_locales (auto simp: stored_defs model_ref.parse_Ok_iff)

interpretation text_reader: stored_reader BoundedText_deserialize "\<lambda>b. bt_byte_len b \<le> MAX_TEXT_BYTES"
proof
  fix a w :: BoundedText
  show "bt_byte_len a \<le> MAX_TEXT_BYTES \<Longrightarrow> BoundedText_deserialize a = Some a"
    by (cases a) (simp add: stored_defs BoundedText_new_Ok bt_byte_len_def)
  show "BoundedText_deserialize w = Some a \<Longrightarrow> bt_byte_len a \<le> MAX_TEXT_BYTES"
    by (auto simp: stored_defs BoundedText_new_Ok bt_byte_len_def)
qed

interpretation output_reader: stored_reader stored_output tool_output_ok
proof
  fix a w :: ToolOutput
  show "tool_output_ok a \<Longrightarrow> stored_output a = Some a"
    using text_reader.read_storable [of "out_content a"]
    by (cases a) (auto simp: stored_output_def tool_output_ok_def ToolOutput_deserialize_def ToolOutput_new_Ok valid_text_def
        bt_byte_len_def)
  show "stored_output w = Some a \<Longrightarrow> tool_output_ok a"
    by (auto simp: stored_output_def ToolOutput_deserialize_def ToolOutput_new_Ok tool_output_ok_def split: Option.bind_splits)
qed

lemma reasoning_read: "reasoning_ok r \<Longrightarrow> ReasoningContent_deserialize r = Ok r"
proof -
  assume ok: "reasoning_ok r"
  then have "map_option normalized_reference (rc_text r) = rc_text r" "map_option normalized_reference (rc_summary r) = rc_summary r"
    by (cases "rc_text r"; cases "rc_summary r"; auto simp: reasoning_ok_def valid_text_def normalized_reference_id)+
  with ok show ?thesis by (simp add: ReasoningContent_deserialize_def reasoning_new_Ok)
qed

lemma replay_read: "ProviderReplay_new rser f p = Ok r \<Longrightarrow> ProviderReplay_new rser (replay_format r) (replay_payload r) = Ok r"
  by (auto simp: ProviderReplay_new_def split: if_splits result.splits prod.splits)

interpretation part_reader: stored_reader "stored_part ser" "part_storable ser" for ser
proof
  fix a w
  show "part_storable ser a \<Longrightarrow> stored_part ser a = Some a"
  proof (cases a)
    case (AP_Reasoning r)
    assume "part_storable ser a"
    then show ?thesis
      by (simp add: AP_Reasoning reasoning_read AssistantPart_deserialize_def AssistantPart_validate_def and_then_eq_Ok)
  next
    case (AP_ToolCall c)
    assume "part_storable ser a"
    then show ?thesis
      by (auto simp: AP_ToolCall stored_call_def call_id_reader.read_storable tool_name_reader.read_storable ToolCall_deserialize_def
          ToolCall_new_def ToolCall_new_with_max_bytes_def AssistantPart_deserialize_def AssistantPart_validate_def and_then_eq_Ok)
  qed (auto simp: AssistantPart_deserialize_def AssistantPart_validate_def Let_def and_then_eq_Ok valid_text_def
      cow_normalize_model_text normalized_reference_id)
  show "stored_part ser w = Some a \<Longrightarrow> part_storable ser a"
    by (cases w) (auto simp: AssistantPart_deserialize_def AssistantPart_validate_def Let_def and_then_eq_Ok
        ReasoningContent_deserialize_def reasoning_new_Ok stored_call_def ToolCall_deserialize_def ToolCall_new_def
        ToolCall_new_with_max_bytes_def is_ok_iff call_id_reader.storable_read tool_name_reader.storable_read
        split: Option.bind_splits if_splits)
qed

interpretation item_reader: stored_reader "HistoryItem_deserialize ser rser" "item_storable ser rser" for ser rser
proof
  fix a w
  show "item_storable ser rser a \<Longrightarrow> HistoryItem_deserialize ser rser a = Some a"
  proof (cases a)
    case (HI_User u)
    assume "item_storable ser rser a"
    then show ?thesis
      by (cases u; cases "uh_input u") (auto simp: HI_User UserHistory_deserialize_def loop_id_reader.read_storable
          text_reader.read_storable UserInput_as_text_def bt_byte_len_def)
  next
    case (HI_Assistant h)
    assume "item_storable ser rser a"
    then show ?thesis
      by (cases h) (auto simp: HI_Assistant AssistantHistory_deserialize_def loop_id_reader.read_storable
          model_ref_reader.read_storable part_reader.those_storable stored_replay_def replay_storable_def
          ProviderReplay_deserialize_def split: option.splits)
  next
    case (HI_ToolResult r)
    assume "item_storable ser rser a"
    then show ?thesis
      by (cases r) (auto simp: HI_ToolResult ToolResultHistory_deserialize_def loop_id_reader.read_storable
          call_id_reader.read_storable tool_name_reader.read_storable output_reader.read_storable)
  next
    case (HI_Summary s)
    assume "item_storable ser rser a"
    then show ?thesis by (cases s) (auto simp: HI_Summary SummaryHistory_deserialize_def text_reader.read_storable)
  qed
  show "HistoryItem_deserialize ser rser w = Some a \<Longrightarrow> item_storable ser rser a"
  proof (cases w)
    case (HI_User u)
    assume "HistoryItem_deserialize ser rser w = Some a"
    then show ?thesis
      using text_reader.storable_read
      by (cases "uh_input u") (auto simp: HI_User UserHistory_deserialize_def loop_id_reader.storable_read
          UserInput_as_text_def bt_byte_len_def split: Option.bind_splits)
  next
    case (HI_Assistant h)
    assume "HistoryItem_deserialize ser rser w = Some a"
    then show ?thesis
      by (auto simp: HI_Assistant AssistantHistory_deserialize_def loop_id_reader.storable_read model_ref_reader.storable_read
          part_reader.those_read stored_replay_def replay_storable_def ProviderReplay_deserialize_def
          split: Option.bind_splits option.splits dest: replay_read)
  qed (auto simp: ToolResultHistory_deserialize_def SummaryHistory_deserialize_def loop_id_reader.storable_read
      call_id_reader.storable_read tool_name_reader.storable_read output_reader.storable_read text_reader.storable_read
      split: Option.bind_splits)
qed

lemma history_read: "history_deserialize ser rser xs = Some xs \<longleftrightarrow> list_all (item_storable ser rser) xs"
  using item_reader.those_storable item_reader.those_read by (auto simp: history_deserialize_def)

subsection \<open>Lemmas: what a loop makes\<close>

definition response_storable :: "json serializer \<Rightarrow> (rstr \<times> json) serializer \<Rightarrow> ModelResponse \<Rightarrow> bool" where
  "response_storable ser rser resp \<longleftrightarrow> list_all (part_storable ser) (mr_parts resp)
     \<and> (\<forall>r. mr_provider_replay resp = Some r \<longrightarrow> replay_storable rser r)"

text \<open>
  Values with private constructors: an identifier, a name or a replay of a model event was made by
  the constructor that reads it.
\<close>

fun event_made :: "(rstr \<times> json) serializer \<Rightarrow> ModelEvent \<Rightarrow> bool" where
  "event_made rser (EV_ToolCallStart call_id name) = (tool_call_id.name_ok call_id \<and> tool_name.name_ok name)"
| "event_made rser (EV_ProviderReplay r) = replay_storable rser r"
| "event_made rser _ = True"

definition assembly_made :: "ToolAssembly \<Rightarrow> bool" where
  "assembly_made t \<longleftrightarrow> tool_call_id.name_ok (ta_id t) \<and> tool_name.name_ok (ta_name t)"

definition assembler_made :: "(rstr \<times> json) serializer \<Rightarrow> Assembler \<Rightarrow> bool" where
  "assembler_made rser a \<longleftrightarrow> list_all assembly_made (asm_tools a)
     \<and> (\<forall>r. asm_provider_replay a = Some r \<longrightarrow> replay_storable rser r)"

lemma made_update:
  assumes "list_all assembly_made ts" "tool_mut ts call_id = Some i" "ta_id t = ta_id (ts ! i)" "ta_name t = ta_name (ts ! i)"
  shows "list_all assembly_made (ts[i := t])"
proof -
  have "assembly_made (ts ! i)" using assms(1) tool_mut_Some [OF assms(2)] by (simp add: list_all_length)
  then have "assembly_made t" using assms(3,4) by (simp add: assembly_made_def)
  then show ?thesis using assms(1) by (auto simp: list_all_iff dest!: set_update_subset_insert [THEN subsetD])
qed

lemma push_made:
  assumes "assembler_made rser a" "event_made rser ev" "push parse ser a ev = Some (a', Ok p)"
  shows "assembler_made rser a'"
proof (cases ev)
  case (EV_ToolCallArgumentsDelta i d)
  with assms show ?thesis
    by (auto simp: push_def assembler_made_def push_tool_arguments_def Let_def
        split: if_splits option.splits result.splits intro!: made_update)
next
  case (EV_ToolCallEnd i)
  with assms show ?thesis
    by (auto simp: push_def assembler_made_def push_tool_end_def Let_def
        split: if_splits option.splits result.splits intro!: made_update)
qed (use assms in \<open>auto simp: push_def assembler_made_def push_text_def push_reasoning_def push_tool_start_def Let_def
    assembly_made_def split: if_splits option.splits result.splits prod.splits\<close>)

lemma finish_storable:
  assumes ok: "assembler_ok ser a" and made: "assembler_made rser a" and fin: "finish a = Some (Ok resp)"
  shows "response_storable ser rser resp"
proof -
  from fin obtain reason where reason: "asm_finish_reason a = Some reason" "resp = assembled a reason"
    by (auto simp: finish_eq [OF ok] split: option.splits if_splits)
  have "part_storable ser (slot_part (asm_text a) (asm_reasoning a) (asm_tools a) s)" if s: "s \<in> set (asm_slots a)" for s
  proof (cases s)
    case (PS_Tool i)
    have i: "i < length (asm_tools a)" using ok s set_tool_slots [of i "asm_slots a"] by (simp add: assembler_ok_def PS_Tool)
    let ?t = "asm_tools a ! i"
    have names: "tool_call_id.name_ok (ta_id ?t)" "tool_name.name_ok (ta_name ?t)"
      using made i by (simp_all add: assembler_made_def assembly_made_def list_all_length)
    obtain c where c: "ta_call ?t = Some c" using ok reason(1) i by (auto simp: assembler_ok_def list_all_length)
    have "call_matches ser (asm_limits a) ?t c"
      using ok i c by (simp add: assembler_ok_def tools_ok_def list_all_length)
    moreover have "max_tool_arguments_bytes (asm_limits a) \<le> MAX_JSON_BYTES"
      using ok limits_ok_bounds by (simp add: assembler_ok_def)
    ultimately show ?thesis using names by (auto simp: PS_Tool slot_part_def c call_matches_def validate_json_size_Ok)
  qed (use text_limits(1,2) [OF ok] in \<open>simp_all add: slot_part_def MAX_MODEL_MESSAGE_TEXT_BYTES_def reasoning_ok_def\<close>)
  then show ?thesis
    using made by (auto simp: response_storable_def reason(2) assembled_def assembler_made_def list_all_iff)
qed

definition stream_made :: "(rstr \<times> json) serializer \<Rightarrow> (ModelEvent, ModelError) result option caught option \<Rightarrow> bool" where
  "stream_made rser ready \<longleftrightarrow> (\<forall>ev. ready = Some (Completed (Some (Ok ev))) \<longrightarrow> event_made rser ev)"

lemma run_stream_storable:
  "assembler_ok ser asm \<Longrightarrow> assembler_made rser asm \<Longrightarrow> list_all (\<lambda>p. stream_made rser (sp_ready p)) ps \<Longrightarrow>
     run_stream parse ser source ps asm log = (Done (Ok resp), log') \<Longrightarrow> response_storable ser rser resp"
proof (induction ps arbitrary: asm log)
  case (Cons p ps)
  from Cons.prems(4) consider
      (skip) "sp_ready p = None" "run_stream parse ser source ps asm log = (Done (Ok resp), log')"
    | (event) ev a1 pr where "sp_ready p = Some (Completed (Some (Ok ev)))"
        "push parse ser (obs True asm) ev = Some (a1, Ok pr)"
        "run_stream parse ser source ps a1 (send_progress (sp_send p) pr log) = (Done (Ok resp), log')"
    | (finish) "finish asm = Some (Ok resp)" "log' = log"
    by (auto simp: Let_def split: if_splits option.splits caught.splits result.splits)
  then show ?case
  proof cases
    case skip
    with Cons show ?thesis by simp
  next
    case event
    have "assembler_ok ser a1" using push_ok [of ser "obs True asm" parse ev a1 pr] event(2) Cons.prems(1) by simp
    moreover have "assembler_made rser a1"
      by (rule push_made [OF _ _ event(2)]) (use Cons.prems(2,3) event(1) in \<open>simp_all add: assembler_made_def stream_made_def\<close>)
    ultimately show ?thesis using Cons.IH event(3) Cons.prems(3) by simp
  next
    case finish
    then show ?thesis using finish_storable Cons.prems(1,2) by blast
  qed
qed simp

lemma run_detailed_storable:
  assumes "limits_ok (drv_limits drv)"
    and "list_all (\<lambda>a. list_all (\<lambda>p. stream_made rser (sp_ready p)) (ae_stream_polls a)) (de_attempts env)"
    and "run_detailed parse ser drv request cd env log = (Done (Ok resp), log', fails)"
  shows "response_storable ser rser resp"
proof -
  obtain deadline where "run_attempts parse ser drv request deadline 0 (de_attempts env) log []
      = (Done (Ok resp), log', fails)" by (rule run_detailed_attempts [OF assms(3)])
  from run_attempts_response [OF this] obtain a where a: "a \<in> set (de_attempts env)"
    "run_stream parse ser (ed_source deadline) (ae_stream_polls a)
       (Assembler_new (mq_tools request) (drv_limits drv)) log = (Done (Ok resp), log')" by blast
  show ?thesis
    by (rule run_stream_storable [OF assembler_new_ok [OF assms(1)] _ _ a(2)])
      (use assms(2) a(1) in \<open>auto simp: assembler_made_def Assembler_new_def list_all_iff\<close>)
qed

text \<open>The results the runner makes itself, of calls with valid names.\<close>

definition call_named :: "ToolCallId \<Rightarrow> ToolName \<Rightarrow> bool" where
  "call_named call_id name \<longleftrightarrow> tool_call_id.name_ok call_id \<and> tool_name.name_ok name"

lemma static_output_ok: "static_output m mx = Some out \<Longrightarrow> tool_output_ok out"
  by (auto simp: static_output_def ToolOutput_new_ok split: result.splits)

definition result_storable :: "ToolResultHistory \<Rightarrow> bool" where
  "result_storable r \<longleftrightarrow> id_payload_ok (lup_bytes (th_loop_id r)) \<and> call_named (th_call_id r) (th_tool_name r)
     \<and> tool_output_ok (th_output r)"

lemma result_item: "item_storable ser rser (HI_ToolResult r) = result_storable r"
  by (auto simp: result_storable_def call_named_def)

lemma terminal_storable:
  assumes "id_payload_ok (lup_bytes ident)" "call_named call_id name" "terminal_tool_result ident ri call_id name outcome m mx = Some r"
  shows "result_storable r"
  using assms static_output_ok by (auto simp: terminal_tool_result_def result_storable_def)

lemma results_storable:
  assumes "id_payload_ok (lup_bytes ident)" "call_named (inv_tool_call_id invocation) (inv_tool_name invocation)"
  shows "tool_output_ok out \<Longrightarrow> completed_result ident ri invocation out mx = Some r \<Longrightarrow> result_storable r"
    and "provided_input_result ident ri invocation content mx = Some r \<Longrightarrow> result_storable r"
    and "denied_result ident ri invocation reason mx = Some r \<Longrightarrow> result_storable r"
proof -
  note terminal = terminal_storable [OF assms]
  show "tool_output_ok out \<Longrightarrow> completed_result ident ri invocation out mx = Some r \<Longrightarrow> result_storable r"
    using assms terminal by (auto simp: completed_result_def result_storable_def split: if_splits)
  show "provided_input_result ident ri invocation content mx = Some r \<Longrightarrow> result_storable r"
    using assms terminal
    by (auto simp: provided_input_result_def Let_def result_storable_def ToolOutput_new_ok split: if_splits result.splits)
  show "denied_result ident ri invocation reason mx = Some r \<Longrightarrow> result_storable r"
    using assms static_output_ok
    by (auto simp: denied_result_def result_storable_def ToolOutput_new_ok split: if_splits result.splits option.splits)
qed

end
