(* ===== verification/Stored_Report.thy ===== *)
theory Stored_Report
  imports Stored_History Agent_Loop
begin

text \<open>
  Everything a loop appends to its history can be stored and read back: an invariant of the whole
  runner of \<^verbatim>\<open>agent_loop/runner.rs\<close>, proved with a logic for one fixed invariant in which a step is
  described by what its value satisfies.
\<close>

subsection \<open>What the host hands in\<close>

text \<open>
  Values of types with private constructors were made by them.  \<open>input_made\<close> is \<open>BoundedText\<close>,
  \<open>config_made\<close> is \<open>ModelRef\<close>, the output of a tool is \<open>ToolOutput\<close>; for model events see \<open>event_made\<close>.
\<close>

definition input_made :: "UserInput \<Rightarrow> bool" where
  "input_made u \<longleftrightarrow> str_len (UserInput_as_text u) \<le> MAX_TEXT_BYTES"

definition config_made :: "('m, 't, 'p, 'q) ExecutionConfig \<Rightarrow> bool" where
  "config_made cfg \<longleftrightarrow> model_ref.name_ok (md_model_ref (ec_descriptor cfg))"

definition op_made :: "('m, 't, 'p, 'q) others \<Rightarrow> bool" where
  "op_made x \<longleftrightarrow> (case x of X_Update cfg \<Rightarrow> config_made cfg | _ \<Rightarrow> True)"

definition call_made :: "('a \<Rightarrow> bool) \<Rightarrow> (('m, 't, 'p, 'q) others, 'a) live_call \<Rightarrow> bool" where
  "call_made P call \<longleftrightarrow> list_all op_made (lv_ops call) \<and> list_all (\<lambda>p. list_all op_made (lp_ops p)) (lv_polls call)
     \<and> list_all (\<lambda>p. \<forall>a. lp_ready p = Some (Completed a) \<longrightarrow> P a) (lv_polls call)"

definition wait_made :: "('m, 't, 'p, 'q) others live_wait \<Rightarrow> bool" where
  "wait_made w \<longleftrightarrow> list_all (\<lambda>p. list_all op_made (fst p)) (lw_polls w)"

definition tool_answer_made :: "(ToolExecutionOutcome, ToolError) result \<Rightarrow> bool" where
  "tool_answer_made r \<longleftrightarrow> (\<forall>out. r = Ok (TX_Completed out) \<longrightarrow> tool_output_ok out)"

definition tool_made :: "('m, 't, 'p, 'q) others live_tool \<Rightarrow> bool" where
  "tool_made env \<longleftrightarrow> list_all op_made (lt_ops env) \<and> call_made (\<lambda>_. True) (lt_policy env) \<and> wait_made (lt_approval env)
     \<and> call_made tool_answer_made (lt_tool env) \<and> wait_made (lt_input env)"

definition model_made :: "(rstr \<times> json) serializer \<Rightarrow> ('m, 't, 'p, 'q) others live_model \<Rightarrow> bool" where
  "model_made rser env \<longleftrightarrow> list_all op_made (lm_ops env) \<and> list_all (attempt_acts op_made) (lm_attempts env)
     \<and> list_all op_made (lm_ops_after env)
     \<and> list_all (\<lambda>a. list_all (\<lambda>x. stream_made rser (lp_ready (fst x))) (la_stream a)) (lm_attempts env)"

definition inputs_made :: "UserInput list caught \<Rightarrow> bool" where
  "inputs_made given \<longleftrightarrow> (\<forall>us. given = Completed us \<longrightarrow> list_all input_made us)"

definition round_made :: "(rstr \<times> json) serializer \<Rightarrow> ('m, 't, 'p, 'q) others live_round \<Rightarrow> bool" where
  "round_made rser env \<longleftrightarrow> list_all op_made (lr_ops env) \<and> inputs_made (lr_inputs env) \<and> call_made (\<lambda>_. True) (lr_prompt env)
     \<and> list_all op_made (lr_ops_stale env) \<and> inputs_made (lr_inputs_stale env) \<and> model_made rser (lr_model env)
     \<and> list_all tool_made (lr_tools env)"

definition loop_made :: "(rstr \<times> json) serializer \<Rightarrow> ('m, 't, 'p, 'q) others live_loop \<Rightarrow> bool" where
  "loop_made rser env \<longleftrightarrow> list_all (round_made rser) (ln_rounds env) \<and> list_all op_made (ln_between env)
     \<and> list_all op_made (ln_panic env)"

subsection \<open>The invariant and its logic\<close>

definition control_made :: "json serializer \<Rightarrow> (rstr \<times> json) serializer \<Rightarrow> ('m, 't, 'p, 'q) control \<Rightarrow> bool" where
  "control_made ser rser c \<longleftrightarrow> (\<forall>p. cs_pending_config (lc_inner c) = Some p \<longrightarrow> config_made (pc_config p))
     \<and> (\<forall>r. lc_completion c = Some r \<longrightarrow> list_all (item_storable ser rser) (rep_appended r))"

definition stored :: "json serializer \<Rightarrow> (rstr \<times> json) serializer \<Rightarrow> ('m, 't, 'p, 'q) runner \<Rightarrow> bool" where
  "stored ser rser s \<longleftrightarrow> options_ok (rn_options s) \<and> id_payload_ok (lup_bytes (rn_id s))
     \<and> control_made ser rser (rn_control s) \<and> list_all (item_storable ser rser) (wh_appended (rn_working s))"

definition safe ::
  "json serializer \<Rightarrow> (rstr \<times> json) serializer \<Rightarrow> ('a \<Rightarrow> bool) \<Rightarrow> ('m, 't, 'p, 'q, 'a) step \<Rightarrow> bool" where
  "safe ser rser P f \<longleftrightarrow> (\<forall>s. stored ser rser s \<longrightarrow> wp f (\<lambda>a t. stored ser rser t \<and> P a) (stored ser rser) s)"

named_theorems safe_rules

lemma safe_mono: "safe ser rser P f \<Longrightarrow> (\<And>a. P a \<Longrightarrow> Q a) \<Longrightarrow> safe ser rser Q f"
  unfolding safe_def by (blast intro: wp_mono)

lemma safe_bind:
  "safe ser rser R f \<Longrightarrow> (\<And>a. R a \<Longrightarrow> safe ser rser P (g a)) \<Longrightarrow> safe ser rser P (bind_run f g)"
  unfolding safe_def by (blast intro: wp_bindI)

text \<open>The value of the first step does not matter.\<close>

lemma safe_any [safe_rules]:
  "safe ser rser (\<lambda>_. True) f \<Longrightarrow> (\<And>a. safe ser rser P (g a)) \<Longrightarrow> safe ser rser P (bind_run f g)"
  by (rule safe_bind)

lemma safe_then [safe_rules]:
  "safe ser rser (\<lambda>_. True) f \<Longrightarrow> safe ser rser P g \<Longrightarrow> safe ser rser P (then_run f g)"
  unfolding then_run_def by (rule safe_bind)

lemma safe_return [safe_rules]: "P a \<Longrightarrow> safe ser rser P (return_run a)"
  by (simp add: safe_def)

lemma safe_lift [safe_rules]: "(\<And>a. r = Done a \<Longrightarrow> P a) \<Longrightarrow> safe ser rser P (lift_run r)"
  by (simp add: safe_def split: async.splits)

lemma safe_expect [safe_rules]: "(\<And>a. x = Some a \<Longrightarrow> P a) \<Longrightarrow> safe ser rser P (expect_run x)"
  by (simp add: safe_def split: option.splits)

lemma safe_gets: "(\<And>s. stored ser rser s \<Longrightarrow> P (h s)) \<Longrightarrow> safe ser rser P (gets_run h)"
  by (simp add: safe_def)

lemma safe_gets_any [safe_rules]: "safe ser rser (\<lambda>_. True) (gets_run h)"
  by (rule safe_gets) simp

lemma safe_with_state [safe_rules]: "(\<And>s. stored ser rser s \<Longrightarrow> safe ser rser P (g s)) \<Longrightarrow> safe ser rser P (with_state g)"
  by (simp add: safe_def)

lemma safe_modify: "(\<And>s. stored ser rser s \<Longrightarrow> stored ser rser (h s)) \<Longrightarrow> safe ser rser (\<lambda>_. True) (modify_run h)"
  by (simp add: safe_def)

lemma safe_on_control [safe_rules]:
  "(\<And>c. control_made ser rser c \<Longrightarrow> control_made ser rser (f c)) \<Longrightarrow> safe ser rser (\<lambda>_. True) (on_control f)"
  by (simp add: safe_def stored_def)

lemma safe_on_control_get:
  "(\<And>c. control_made ser rser c \<Longrightarrow> control_made ser rser (fst (f c)) \<and> P (snd (f c))) \<Longrightarrow> safe ser rser P (on_control_get f)"
  by (simp add: safe_def stored_def)

lemma safe_emit [safe_rules]: "safe ser rser (\<lambda>_. True) (emit e)" "safe ser rser (\<lambda>_. True) (record_dropped_run n)"
  by (simp_all add: safe_def stored_def)

lemma safe_publish [safe_rules]: "safe ser rser (\<lambda>_. True) (publish st)"
  by (simp add: safe_def stored_def control_made_def publish_state_def)

lemma act_made: "control_made ser rser c \<Longrightarrow> op_made x \<Longrightarrow> control_made ser rser (act ser' x c)"
  by (cases x) (auto simp: control_made_def op_made_def act_defs split: option.splits result.splits if_splits)

interpretation made: stable "act ser'" op_made "control_made ser rser" for ser' ser rser
  by unfold_locales (rule act_made)

lemma safe_interfere [safe_rules]: "list_all op_made ops \<Longrightarrow> safe ser rser (\<lambda>_. True) (interfere ser' ops)"
  unfolding interfere_def by (intro safe_on_control made.acts_stable)

subsection \<open>Port calls and interactions\<close>

lemma play_polls_ready: "map pp_ready (fst (play_polls ext ps c)) = map lp_ready ps"
  by (induction ps arbitrary: c) (simp_all add: Let_def)

lemma select_port_result: "select_port ps = Some (Sel_Result r) \<Longrightarrow> Some r \<in> set (map pp_ready ps)"
  by (induction ps) (auto split: if_splits option.splits)

lemma live_port_safe:
  assumes "call_made P call"
  shows "safe ser rser (\<lambda>run. \<forall>v. pr_outcome run = Returned v \<longrightarrow> P v) (live_port ser' deadline timeout call)"
  unfolding live_port_def Let_def
proof (intro safe_rules, goal_cases)
  case 1
  then show ?case using assms by (simp add: call_made_def)
next
  case (2 s c)
  then show ?case using assms made.polls_stable by (auto simp: stored_def call_made_def)
next
  case (3 s run)
  show ?case
  proof (intro allI impI)
    fix v assume "pr_outcome run = Returned v"
    with 3(2) have "select_port (fst (play_polls (act ser') (lv_polls call) (rn_control s))) = Some (Sel_Result (Completed v))"
      by (auto dest!: run_port_call_Returned split: option.splits)
    from select_port_result [OF this] show "P v"
      using assms by (auto simp: play_polls_ready call_made_def list_all_iff)
  qed
qed

lemma select_answer_made:
  "control_made ser rser c \<Longrightarrow> list_all (\<lambda>p. list_all op_made (fst p)) ps \<Longrightarrow>
     control_made ser rser (snd (select_answer (act ser') deadline reply ps c))"
proof (induction ps arbitrary: c)
  case (Cons p ps)
  then show ?case using made.acts_stable [of ser rser c "fst p" ser'] by (auto simp: Let_def split: oneshot.splits)
qed simp

lemma interaction_made:
  assumes "control_made ser rser c"
  shows "control_made ser rser (fst (set_interaction slot c))" "control_made ser rser (take_interaction c)"
    "control_made ser rser (fst (oneshot_channel c))"
  using assms by (auto simp: control_made_def set_interaction_def take_interaction_def oneshot_channel_def drop_sender_def
      split: option.splits)

lemma ask_safe [safe_rules]:
  assumes "wait_made wait"
  shows "safe ser rser (\<lambda>_. True) (ask ser' invocation kind wait)"
proof -
  have wait: "safe ser rser (\<lambda>_. True) (wait_interaction ser' invocation i kind reply (lw_polls wait))" for i reply
    unfolding wait_interaction_def Let_def
  proof (rule safe_any, rule safe_on_control_get, goal_cases)
    case (1 c)
    then show ?case by (simp add: interaction_made)
  next
    case (2 r)
    show ?case
    proof (cases r)
      case (Ok u)
      show ?thesis
        unfolding Ok result.case
        by (intro safe_rules) (use assms select_answer_made interaction_made in
            \<open>auto simp: wait_made_def stored_def intro!: safe_rules split: result.splits\<close>)
    qed (simp add: safe_rules)
  qed
  have "safe ser rser (\<lambda>_. True) (on_control_get oneshot_channel)"
    by (rule safe_on_control_get) (simp add: interaction_made)
  then show ?thesis
    unfolding ask_def by (auto intro!: safe_rules wait split: option.splits result.splits)
qed

subsection \<open>Tool calls\<close>

definition step_storable :: "ToolStep \<Rightarrow> bool" where
  "step_storable x \<longleftrightarrow> (\<forall>r. x = TStep_Result r \<longrightarrow> result_storable r)"

lemma step_storable_simps [simp]: "step_storable (TStep_Result r) = result_storable r" "step_storable (TStep_End p)"
  by (simp_all add: step_storable_def)

lemma result_step_safe:
  assumes "\<And>ident mx r. id_payload_ok (lup_bytes ident) \<Longrightarrow> f ident mx = Some r \<Longrightarrow> result_storable r"
  shows "safe ser rser step_storable (result_step f)"
  unfolding result_step_def
  by (rule safe_bind [where R = result_storable]) (auto intro!: safe_rules assms simp: stored_def)

lemma forward_tool_progress_safe [safe_rules]: "safe ser rser (\<lambda>_. True) (forward_tool_progress ri i ps)"
proof (induction ps)
  case (Cons p ps)
  then show ?case by (cases p) (auto intro!: safe_rules)
qed (simp add: safe_rules)

lemma run_tool_port_safe:
  assumes "call_made tool_answer_made (lt_tool env)"
  shows "safe ser rser (\<lambda>port. \<forall>out. port = TPort_Completed out \<longrightarrow> tool_output_ok out) (run_tool_port ser' ri invocation deadline env)"
  unfolding run_tool_port_def
proof (rule safe_then, rule forward_tool_progress_safe, rule safe_any, rule safe_gets_any,
    rule safe_bind, rule live_port_safe [OF assms], intro safe_rules, goal_cases)
  case (1 timeout run)
  show ?case by (rule safe_modify) (simp add: stored_def)
next
  case (2 timeout run)
  then show ?case
    by (auto simp: tool_port_def tool_answer_made_def
        split: PortCallOutcome.splits result.splits ToolExecutionOutcome.splits DeadlineSource.splits if_splits)
qed

lemma call_tool_safe:
  assumes "tool_made env" "call_named (inv_tool_call_id invocation) (inv_tool_name invocation)"
  shows "safe ser rser step_storable (call_tool ser' enc ri invocation env)"
proof -
  have input: "safe ser rser step_storable (provide_input ser' enc ri invocation request (lt_input env))" for request
    unfolding provide_input_def
    by (rule safe_any)
      (use assms in \<open>auto simp: tool_made_def intro!: safe_rules result_step_safe results_storable(2)
        split: result.splits InteractionAnswer.splits\<close>)
  show ?thesis
    unfolding call_tool_def
  proof (rule safe_any, intro safe_rules, simp, rule safe_bind, rule run_tool_port_safe, goal_cases)
    case 1
    then show ?case using assms(1) by (simp add: tool_made_def)
  next
    case (2 deadline port)
    then show ?case
      using assms(2) input
      by (cases port) (auto intro!: safe_rules result_step_safe intro: results_storable(1) terminal_storable)
  qed
qed

lemma run_tool_call_safe:
  assumes "tool_made env" "call_named (inv_tool_call_id invocation) (inv_tool_name invocation)"
  shows "safe ser rser step_storable (run_tool_call ser' enc ri invocation policy env)"
proof -
  note tool = call_tool_safe [OF assms]
  have denied: "safe ser rser step_storable (result_step (\<lambda>ident mx. denied_result ident ri invocation reason mx))" for reason
    using assms(2) by (auto intro: result_step_safe results_storable(3))
  have approval: "safe ser rser step_storable (seek_approval ser' enc ri invocation request env)" for request
    unfolding seek_approval_def
    by (rule safe_any)
      (use assms tool denied in \<open>auto simp: tool_made_def intro!: safe_rules
        split: result.splits InteractionAnswer.splits ApprovalDecision.splits\<close>)
  have policy: "safe ser rser (\<lambda>_. True) (decide_policy ser' policy deadline timeout (lt_policy env))" for deadline timeout
    unfolding decide_policy_def
    using safe_mono [OF live_port_safe [of "\<lambda>_. True" "lt_policy env"]] assms(1)
    by (auto simp: tool_made_def intro!: safe_rules split: option.splits)
  show ?thesis
    unfolding run_tool_call_def
    by (rule safe_any, intro safe_rules, simp, rule safe_any, rule safe_gets_any, rule safe_any, rule policy)
      (auto intro!: safe_rules tool denied approval split: PolicyStep.splits)
qed

lemma append_result_safe: "result_storable r \<Longrightarrow> safe ser rser (\<lambda>_. True) (append_result r)"
  unfolding append_result_def
  by (rule safe_modify) (simp add: stored_def append_tool_result_def result_item del: item_storable.simps)

definition calls_named :: "ToolCall list \<Rightarrow> bool" where
  "calls_named calls \<longleftrightarrow> list_all (\<lambda>c. call_named (tc_id c) (tc_name c)) calls"

lemma settle_calls_safe: "calls_named calls \<Longrightarrow> safe ser rser (\<lambda>_. True) (settle_calls ri calls outcome m)"
proof (induction calls)
  case (Cons c calls)
  have result: "safe ser rser result_storable (with_state (\<lambda>s. expect_run (terminal_tool_result (rn_id s) ri (tc_id c)
      (tc_name c) outcome m (max_output s))))"
    using Cons.prems terminal_storable by (auto simp: calls_named_def stored_def intro!: safe_rules)
  show ?case
    unfolding settle_calls.simps
    by (rule safe_bind [OF result]) (use Cons in \<open>auto simp: calls_named_def intro!: safe_rules append_result_safe\<close>)
qed (simp add: safe_rules)

lemma run_tool_batch_safe:
  "calls_named calls \<Longrightarrow> list_all tool_made envs \<Longrightarrow> safe ser rser (\<lambda>_. True) (run_tool_batch ser' enc ri snapshot calls envs)"
proof (induction calls arbitrary: envs)
  case (Cons c calls)
  show ?case
  proof (cases envs)
    case (Cons env rest)
    note prems = Cons.prems [unfolded Cons]
    have start: "safe ser rser step_storable (start_call ser' enc ri snapshot c env)"
      unfolding start_call_def
      by (rule safe_any, rule safe_gets_any)
        (use prems in \<open>auto simp: calls_named_def intro!: safe_rules run_tool_call_safe\<close>)
    show ?thesis
      unfolding Cons run_tool_batch.simps
    proof (rule safe_then, rule safe_interfere, goal_cases)
      case 1
      then show ?case using prems by (simp add: tool_made_def)
    next
      case 2
      show ?case
      proof (rule safe_bind [OF start], goal_cases)
        case (1 x)
        then show ?case
          using prems Cons.IH
          by (cases x) (auto simp del: settle_calls.simps simp: calls_named_def intro!: safe_rules
              dest: append_result_safe intro: settle_calls_safe [unfolded calls_named_def])
      qed
    qed
  qed (simp add: safe_rules)
qed (simp add: safe_rules)

subsection \<open>The model call\<close>

lemma forward_all_safe [safe_rules]: "safe ser rser (\<lambda>_. True) (forward_all i xs)"
  by (induction xs) (auto simp: forward_progress_def intro!: safe_rules)

lemma stream_polls_made:
  "list_all (\<lambda>x. stream_made rser (lp_ready (fst x))) xs \<Longrightarrow>
     list_all (\<lambda>p. stream_made rser (sp_ready p)) (map2 (\<lambda>p answer. \<lparr>sp_cancelled = pp_cancelled p,
       sp_elapsed = pp_elapsed p, sp_ready = pp_ready p, sp_send = answer\<rparr>) (fst (play_polls ext (map fst xs) c)) (map snd xs))"
  by (induction xs arbitrary: c) (simp_all add: Let_def)

lemma play_attempts_made:
  assumes "list_all (\<lambda>a. list_all (\<lambda>x. stream_made rser (lp_ready (fst x))) (la_stream a)) as"
  shows "list_all (\<lambda>a. list_all (\<lambda>p. stream_made rser (sp_ready p)) (ae_stream_polls a)) (fst (play_attempts ext as c))"
  using assms
proof (induction as arbitrary: c)
  case (Cons a as)
  then show ?case by (simp add: play_attempt_def Let_def stream_polls_made)
qed simp

lemma run_model_safe:
  assumes "model_made rser env"
  shows "safe ser rser (\<lambda>r. \<forall>resp. r = Ok resp \<longrightarrow> response_storable ser rser resp)
     (run_model parse ser i snapshot request deadline env)"
  unfolding run_model_def Let_def
proof (rule safe_then, rule safe_interfere, goal_cases)
  case 1
  then show ?case using assms by (simp add: model_made_def)
next
  case 2
  show ?case
  proof (rule safe_with_state, intro safe_then, goal_cases)
    case (1 s)
    then show ?case
      using assms made.attempts_stable by (auto simp: model_made_def stored_def intro!: safe_rules)
  next
    case (2 s)
    show ?case by (rule forward_all_safe)
  next
    case (3 s)
    show ?case
    proof (rule safe_bind [where R = "\<lambda>r. \<forall>resp. r = Ok resp \<longrightarrow> response_storable ser rser resp"], rule safe_lift,
        goal_cases)
      case (1 r)
      let ?drv = "ModelDriver_from_validated (ec_descriptor snapshot) (lo_model_timeout (rn_options s))
        (lo_model_retry_attempts (rn_options s)) (lo_model_retry_base_delay (rn_options s)) (lo_limits (rn_options s))"
      have drv: "limits_ok (drv_limits ?drv)"
        using 3 by (simp add: stored_def options_ok_def ModelDriver_from_validated_def)
      show ?case
      proof (intro allI impI)
        fix resp assume "r = Ok resp"
        with 1 show "response_storable ser rser resp"
          by (intro run_detailed_storable [OF drv, where parse = parse and request = request and cd = deadline])
            (use assms play_attempts_made in \<open>auto simp: model_made_def prod_eq_iff\<close>)
      qed
    next
      case (2 r)
      then show ?case using assms by (auto simp: model_made_def intro!: safe_rules)
    qed
  qed
qed

subsection \<open>A turn\<close>

lemma safe_add:
  "(\<And>s. stored ser rser s \<Longrightarrow> \<exists>xs. wh_appended (w s) = wh_appended (rn_working s) @ xs \<and> list_all (item_storable ser rser) xs) \<Longrightarrow>
     safe ser rser (\<lambda>_. True) (modify_run (\<lambda>s. s\<lparr>rn_working := w s\<rparr>))"
  by (rule safe_modify) (fastforce simp: stored_def)

lemma take_boundary_safe:
  assumes "inputs_made given" "config_made (ll_config l)"
  shows "safe ser rser (\<lambda>(_, l'). config_made (ll_config l')) (take_boundary given l)"
  unfolding take_boundary_def
proof (rule safe_bind, rule safe_on_control_get [where P = "\<lambda>t. \<forall>r cfg. t = Some (r, cfg) \<longrightarrow> config_made cfg"], goal_cases)
  case (1 c)
  then show ?case by (auto simp: take_config_def control_made_def)
next
  case (2 taken)
  have "safe ser rser (\<lambda>_. True) (append_inputs us)" if "list_all input_made us" for us
    unfolding append_inputs_def
    using that by (intro safe_add) (auto simp: append_users stored_def list_all_iff input_made_def)
  then show ?case
    using 2 assms by (auto simp: Let_def inputs_made_def intro!: safe_rules split: option.splits caught.splits)
qed

lemma call_for_made: "call_made (\<lambda>_. True) call \<Longrightarrow> call_made (\<lambda>_. True) (call_for view call)"
  by (simp add: call_made_def call_for_def list_all_iff ready_for_def)

lemma prepare_prompt_safe [safe_rules]:
  assumes "call_made (\<lambda>_. True) call"
  shows "safe ser rser (\<lambda>_. True) (prepare_prompt ser' deadline call)"
  unfolding prepare_prompt_def
  using safe_mono [OF live_port_safe [OF call_for_made [OF assms]]]
  by (auto intro!: safe_rules)

lemma append_response_safe:
  assumes "config_made snapshot" "response_storable ser rser response"
  shows "safe ser rser (\<lambda>_. True) (append_response i snapshot response u)"
  unfolding append_response_def
  using assms by (intro safe_add) (auto simp: append_assistant_def stored_def config_made_def response_storable_def)

definition turn_made :: "('m, 't, 'p, 'q) LoopLocals turn \<Rightarrow> bool" where
  "turn_made t \<longleftrightarrow> (\<forall>l. t = Again l \<longrightarrow> config_made (ll_config l))"

lemma turn_made_simps [simp]: "turn_made (Stop path l)" "turn_made (Again l) = config_made (ll_config l)"
  by (simp_all add: turn_made_def)

lemma tool_round_safe:
  assumes "list_all tool_made (lr_tools env)" "calls_named calls" "config_made (ll_config l)"
  shows "safe ser rser turn_made (tool_round ser' enc env snapshot revision calls l)"
  unfolding tool_round_def Let_def
  by (rule safe_any, rule safe_gets_any)
    (use assms in \<open>auto intro!: safe_rules settle_calls_safe run_tool_batch_safe split: option.splits\<close>)

lemma response_calls_named: "response_storable ser rser response \<Longrightarrow> calls_named (tool_calls (mr_parts response))"
proof -
  have "list_all (part_storable ser) parts \<Longrightarrow> calls_named (tool_calls parts)" for parts
  proof (induction parts)
    case (Cons part parts)
    then show ?case by (cases part) (auto simp: calls_named_def call_named_def)
  qed (simp add: calls_named_def)
  then show "response_storable ser rser response \<Longrightarrow> calls_named (tool_calls (mr_parts response))"
    by (simp add: response_storable_def)
qed

lemma close_accepting_made: "control_made ser rser c \<Longrightarrow> control_made ser rser (fst (close_accepting c))"
  by (simp add: control_made_def close_accepting_def)

lemma handle_response_safe:
  assumes "round_made rser env" "config_made snapshot" "config_made (ll_config l)" "response_storable ser rser response"
  shows "safe ser rser turn_made (handle_response ser' enc env snapshot revision response l)"
  unfolding handle_response_def Let_def
  using assms close_accepting_made append_response_safe [OF assms(2,4)] response_calls_named [OF assms(4)]
  by (auto simp: round_made_def begin_final_def intro!: safe_rules tool_round_safe split: option.splits)

lemma issue_request_safe:
  assumes "round_made rser env" "config_made snapshot" "config_made (ll_config l)"
  shows "safe ser rser turn_made (issue_request parse ser enc env snapshot request l)"
  unfolding issue_request_def Let_def
proof (rule safe_then, rule safe_on_control, goal_cases)
  case (1 c)
  then show ?case by (simp add: control_made_def commit_revision_def)
next
  case 2
  show ?case
  proof (rule safe_any, rule safe_gets_any, rule safe_then, rule safe_emit, rule safe_then, rule safe_publish,
      rule safe_any, intro safe_rules, simp, rule safe_bind, rule run_model_safe, goal_cases)
    case 1
    then show ?case using assms(1) by (simp add: round_made_def)
  next
    case (2 ident deadline r)
    then show ?case
      using assms by (auto intro!: safe_rules handle_response_safe split: result.splits)
  qed
qed

lemma loop_turn_safe:
  assumes "round_made rser env" "config_made (ll_config l)"
  shows "safe ser rser turn_made (loop_turn parse ser enc env l)"
proof -
  note env = assms(1) [unfolded round_made_def]
  define rest where "rest = (\<lambda>l1 messages. bind_run (take_boundary (lr_inputs_stale env) l1) (\<lambda>(taken, l2).
      if taken then return_run (Again l2)
      else case build_model_request messages (ll_config l1) of
        Err _ \<Rightarrow> return_run (Stop FP_Prompt l2)
      | Ok request \<Rightarrow> issue_request parse ser enc env (ll_config l1) request l2))"
  have second: "safe ser rser turn_made (rest l1 messages)" if "config_made (ll_config l1)" for l1 messages
    unfolding rest_def
    by (rule safe_bind, rule take_boundary_safe)
      (use env that assms(1) in \<open>auto intro!: safe_rules issue_request_safe split: result.splits\<close>)
  define front where "front = (\<lambda>ident deadline. bind_run (take_boundary (lr_inputs env) l) (\<lambda>(_, l1).
      then_run (publish (LoopState_new ident LS_Starting (ll_request_index l1) (ll_issued_revision l1)))
      (bind_run (expect_run (turn_deadline (lv_now_turn (lr_prompt env)) deadline)) (\<lambda>prompt_deadline.
       bind_run (prepare_prompt ser prompt_deadline (lr_prompt env)) (\<lambda>prep.
       case prep of
         PP_End path \<Rightarrow> return_run (Stop path l1)
       | PP_Ready messages \<Rightarrow> then_run (interfere ser (lr_ops_stale env)) (rest l1 messages))))))"
  have first: "safe ser rser turn_made (front ident deadline)" for ident deadline
    unfolding front_def
    by (rule safe_bind, rule take_boundary_safe)
      (use env assms(2) second in \<open>auto intro!: safe_rules split: PromptPrep.splits\<close>)
  have "loop_turn parse ser enc env l = then_run (interfere ser (lr_ops env))
     (bind_run (gets_run (\<lambda>s. (rn_id s, lc_cancel (rn_control s), lo_deadline (rn_options s)))) (\<lambda>(ident, cancelled, deadline).
      if cancelled then return_run (Stop FP_Cancelled l)
      else if (case deadline of Some d \<Rightarrow> d \<le> lr_now env | None \<Rightarrow> False) then return_run (Stop FP_Deadline l)
      else front ident deadline))"
    unfolding loop_turn_def rest_def front_def ..
  then show ?thesis
    using env first by (auto intro!: safe_rules)
qed

lemma run_turns_safe:
  "list_all (round_made rser) envs \<Longrightarrow> config_made (ll_config l) \<Longrightarrow>
     safe ser rser (\<lambda>_. True) (run_turns parse ser enc envs l)"
proof (induction envs arbitrary: l)
  case (Cons env envs)
  show ?case
    unfolding run_turns.simps
  proof (rule safe_bind, rule loop_turn_safe, goal_cases)
    case (3 t)
    then show ?case using Cons by (cases t) (auto intro!: safe_rules)
  qed (use Cons.prems in simp_all)
qed (simp add: safe_rules)

subsection \<open>The report\<close>

definition report_storable :: "json serializer \<Rightarrow> (rstr \<times> json) serializer \<Rightarrow> LoopReport \<Rightarrow> bool" where
  "report_storable ser rser r \<longleftrightarrow> list_all (item_storable ser rser) (rep_appended r)"

lemma finish_once_safe [safe_rules]: "safe ser rser (\<lambda>_. True) finish_once_run"
  unfolding finish_once_run_def
proof (rule safe_bind, rule safe_gets
    [where P = "\<lambda>r. \<forall>c seal d. r = Some (c, seal, d) \<longrightarrow> control_made ser rser c"], goal_cases)
  case (1 s)
  then show ?case
    by (auto simp: finish_once_def stored_def control_made_def close_accepting_def split: option.splits)
next
  case (2 r)
  show ?case
    by (rule safe_bind [where R = "\<lambda>x. control_made ser rser (fst x)"])
      (use 2 in \<open>auto intro!: safe_rules split: prod.splits\<close>)
qed

lemma safe_published: "safe ser rser (report_storable ser rser) (with_state (\<lambda>s. expect_run (published_report (rn_control s))))"
  by (intro safe_rules) (auto simp: stored_def control_made_def published_report_def report_storable_def)

lemma safe_complete: "report_storable ser rser r \<Longrightarrow> safe ser rser (\<lambda>_. True) (on_control (complete r))"
  by (rule safe_on_control) (simp add: control_made_def complete_def report_storable_def)

lemma safe_cancel_token [safe_rules]: "safe ser rser (\<lambda>_. True) (on_control cancel_token)"
  by (rule safe_on_control) (simp add: control_made_def cancel_token_def)

lemma publish_final_states_safe [safe_rules]: "safe ser rser (\<lambda>_. True) (publish_final_states i revision)"
  unfolding publish_final_states_def by (auto intro!: safe_rules)

lemma finish_loop_safe:
  assumes "list_all op_made between"
  shows "safe ser rser (report_storable ser rser) (finish_loop ser between path l)"
proof -
  have report: "safe ser rser (report_storable ser rser) (bind_run (gets_run (\<lambda>s. \<lparr>rep_loop_id = rn_id s, rep_outcome = outcome,
             rep_appended = into_appended (rn_working s),
             rep_usage = UsageAccumulator_finish (ll_usage l), rep_requests = ll_requests l,
             rep_tool_rounds = ll_tool_rounds l, rep_final_config_revision = revision\<rparr>)) (\<lambda>report.
         then_run (publish_final_states i revision)
         (then_run (on_control (complete report))
         (then_run (emit (EV_Finished (rep_loop_id report) (outcome_summary outcome)))
         (then_run (on_control cancel_token) (return_run report))))))" for outcome revision i
    by (rule safe_bind, rule safe_gets [where P = "report_storable ser rser"])
      (auto simp: report_storable_def stored_def into_appended_def intro!: safe_rules safe_complete [unfolded report_storable_def])
  show ?thesis
    unfolding finish_loop_def Let_def
    by (auto intro!: safe_rules assms report safe_published split: FinishSeal.splits)
qed

lemma panic_report_safe:
  assumes "list_all op_made others"
  shows "safe ser rser (report_storable ser rser) (panic_report ser others)"
  unfolding panic_report_def Let_def
  using assms
  by (auto intro!: safe_rules safe_published safe_complete simp: report_storable_def control_made_def publish_state_def)

lemma run_loop_stored:
  assumes "stored ser rser s" "config_made (lq_config request)" "input_made (lq_input request)" "loop_made rser env"
    and "run_loop parse ser enc env request s = (Done report, s')"
  shows "report_storable ser rser report"
proof -
  have "safe ser rser (report_storable ser rser) (run_loop_inner parse ser enc env request)"
    unfolding run_loop_inner_def
  proof (rule safe_bind, rule safe_gets [where P = "\<lambda>i. id_payload_ok (lup_bytes i)"], goal_cases)
    case (2 ident)
    have "safe ser rser (\<lambda>_. True) (modify_run (\<lambda>s. s\<lparr>rn_working := append_user
         \<lparr>uh_loop_id = ident, uh_kind = UK_Prompt, uh_input = lq_input request\<rparr> (WorkingHistory_new (lq_history request))\<rparr>))"
      by (rule safe_modify)
        (use 2 assms(3) in \<open>simp add: stored_def append_user_def WorkingHistory_new_def input_made_def\<close>)
    then show ?case
      using assms(2,4) by (intro safe_then safe_emit)
        (auto simp: loop_made_def intro!: safe_any [OF run_turns_safe] finish_loop_safe)
  qed (simp add: stored_def)
  then have inner: "wp (run_loop_inner parse ser enc env request) (\<lambda>r t. stored ser rser t \<and> report_storable ser rser r)
      (stored ser rser) s" using assms(1) by (simp add: safe_def)
  have panic: "safe ser rser (report_storable ser rser) (panic_report ser (ln_panic env))"
    by (rule panic_report_safe) (use assms(4) in \<open>simp add: loop_made_def\<close>)
  from assms(5) consider "run_loop_inner parse ser enc env request s = (Done report, s')"
    | t where "run_loop_inner parse ser enc env request s = (Aborted, t)" "panic_report ser (ln_panic env) t = (Done report, s')"
    by (auto simp: run_loop_def split: prod.splits async.splits)
  then show ?thesis
  proof cases
    case 1
    then show ?thesis using wp_Done [OF inner] by blast
  next
    case 2
    then show ?thesis using wp_Aborted [OF inner 2(1)] panic by (auto simp: safe_def dest: wp_Done)
  qed
qed

lemma started_stored:
  assumes "AgentLoop_start ser runtime now fills consumer request options = Some (Ok (a, s))"
    and "\<forall>bs. Some bs \<in> set fills \<longrightarrow> length bs = 16"
  shows "stored ser' rser s" "input_made (lq_input request)"
proof -
  have "id_payload_ok (lup_bytes i)" if "LoopId_new fills = Some (Ok i)" for i
  proof -
    from that obtain z where "random_nonzero_bytes fills = Some z" "map_ok LoopId z = Ok i" by (auto simp: LoopId_new_def)
    then obtain bs where "random_nonzero_bytes fills = Some (Ok bs)" "i = LoopId bs" by (cases z) (auto simp: map_ok_def)
    with assms(2) show ?thesis by (simp add: id_payload_ok_def random_nonzero_bytes_Ok)
  qed
  then show "stored ser' rser s"
    using assms(1)
    by (auto simp: AgentLoop_start_def spawn_def stored_def control_made_def options_validate_Ok LoopControl_new_def
        WorkingHistory_new_def and_then_eq_Ok Let_def split: if_splits result.splits option.splits)
  show "input_made (lq_input request)"
    using assms(1) limits_ok_bounds
    by (fastforce simp: AgentLoop_start_def input_made_def options_validate_Ok options_ok_def Let_def
        split: if_splits result.splits option.splits)
qed

lemma sample_loop_made: "loop_made rser sample_loop" "config_made (lq_config sample_loop_request)"
  by (simp_all add: loop_made_def sample_loop_def sample_round_def round_made_def inputs_made_def call_made_def one_poll_def
      model_made_def sample_model_def Let_def attempt_acts_def sample_events_def stream_made_def config_made_def
      sample_loop_request_def sample_config_def model_ref.name_ok_def model_ref_byte_def is_ascii_alphanumeric_def lit_def)

subsection \<open>Properties\<close>

text \<open>
  C22: storing what a loop appended.  Of a loop that was started, whatever its host answers, sends
  and does meanwhile, everything the report says was appended can be stored and is read back
  unchanged: every identifier, name, text, part, tool call, replay and output passes the checks of
  its reader, so a host can persist a history and start the next loop with it.
\<close>
theorem report_can_be_stored:
  assumes "AgentLoop_start ser runtime now fills consumer request options = Some (Ok (a, s))"
    and "\<forall>bs. Some bs \<in> set fills \<longrightarrow> length bs = 16"
    and "config_made (lq_config request)" "loop_made rser env"
    and "run_loop parse ser enc env request s = (Done report, s')"
  shows "history_deserialize ser rser (rep_appended report) = Some (rep_appended report)"
  using run_loop_stored [OF started_stored(1) [OF assms(1,2)] assms(3) started_stored(2) [OF assms(1,2)] assms(4,5)]
  by (simp add: history_read report_storable_def)

theorem report_can_be_stored_witness:
  "\<exists>a s report s'. AgentLoop_start (\<lambda>_. ([], True)) True 0 [Some (replicate 16 1)] [] sample_loop_request sample_options
      = Some (Ok (a, s))
     \<and> run_loop (\<lambda>_. None) (\<lambda>_. ([], True)) (\<lambda>_. []) sample_loop sample_loop_request s = (Done report, s')
     \<and> rep_outcome report = LO_Completed
     \<and> history_deserialize (\<lambda>_. ([], True)) (\<lambda>_. ([], True)) (rep_appended report) = Some (rep_appended report)"
proof -
  obtain a s where start: "AgentLoop_start (\<lambda>_. ([], True)) True 0 [Some (replicate 16 1)] [] sample_loop_request sample_options
      = Some (Ok (a, s))" by (rule sample_agent)
  have ok: "start_ok s sample_loop_request" "rn_options s = sample_options" "lc_state (rn_control s) = STATE_NONE"
    "cs_pending_config (lc_inner (rn_control s)) = None"
    using started_runner [OF start sample_tools_ok] by blast+
  obtain report s' where run: "run_loop (\<lambda>_. None) (\<lambda>_. ([], True)) (\<lambda>_. []) sample_loop sample_loop_request s = (Done report, s')"
    "rep_outcome report = LO_Completed"
    by (rule sample_run_completes [OF ok])
  have "\<forall>bs. Some bs \<in> set [Some (replicate 16 (1 :: u8))] \<longrightarrow> length bs = 16" by simp
  from report_can_be_stored [OF start this sample_loop_made(2,1) run(1), where rser = "\<lambda>_. ([], True)"] start run
  show ?thesis by blast
qed

end
