(* ===== verification/Spec2Isabelle.thy ===== *)
theory Spec2Isabelle
  imports Value_Json Ids Port_Call Model_Error Replay Tools Tool_Interaction Message Request History Assembler Driver
    Limits Usage Observers Agent_Loop Debug_Output Prompt_Transcript Reference_Loop Cancelled_Loop
    Live_Model Memory_Agent Agent_Loop_Events Stored_Report
begin

text \<open>
  A verification library for MiniCore Runtime (crate \<^verbatim>\<open>minicore-runtime\<close>), the Rust execution
  core of one live agent loop: a host starts a loop with a history, an input and a configuration;
  the loop asks a model, runs the tools the model calls, asks the host's policy and user where
  needed, and ends with exactly one report.  File names below are relative to \<^verbatim>\<open>src/src\<close>,
  those under \<^verbatim>\<open>examples/\<close> to \<^verbatim>\<open>src\<close>.

  \<^bold>\<open>Parts and theories.\<close>

  \<^item> \<open>Prelude\<close>: results, options, words with saturating and checked addition, strings as lists of
    Unicode scalars with their UTF-8 lengths, the locales \<open>wire_format\<close> (a checked reader and a
    writer) and \<open>inductive_invariant\<close> (a step relation, its reachable states and an invariant).
  \<^item> \<open>Value_Text\<close>, \<open>Value_Json\<close> (\<^verbatim>\<open>value.rs\<close>): bounded text, normalisation of model text, the
    one-pass JSON budget.  \<open>Ids\<close> (\<^verbatim>\<open>ids.rs\<close>, \<^verbatim>\<open>model/model_ref.rs\<close>, \<^verbatim>\<open>tools/types.rs\<close>): identifiers and symbolic names.
    \<open>Limits\<close>, \<open>Usage\<close> (\<^verbatim>\<open>limits.rs\<close>, \<^verbatim>\<open>model/usage.rs\<close>, \<^verbatim>\<open>usage.rs\<close>).
  \<^item> \<open>Port_Call\<close> (\<^verbatim>\<open>port_call.rs\<close>, \<^verbatim>\<open>time.rs\<close>): deadlines and the biased select around every call of host code.
  \<^item> \<open>Model_Error\<close>, \<open>Replay\<close>, \<open>Message\<close>, \<open>Request\<close> (\<^verbatim>\<open>error.rs\<close> and \<^verbatim>\<open>model/\<close>): the data a model call
    exchanges, with every validating constructor and reader.
  \<^item> \<open>Ordered_Map\<close>, \<open>Tools\<close>, \<open>Tool_Interaction\<close> (\<^verbatim>\<open>tools/\<close>, \<^verbatim>\<open>interaction.rs\<close>): tool sets, policies, input
    requests, answers.
  \<^item> \<open>History\<close> (\<^verbatim>\<open>history.rs\<close>, \<^verbatim>\<open>execution.rs\<close>, \<^verbatim>\<open>prompt.rs\<close>): the working history, configurations, the default prompt.
  \<^item> \<open>Assembler\<close>, \<open>Driver\<close> (\<^verbatim>\<open>model/driver.rs\<close>, \<^verbatim>\<open>model/driver/\<close>): the stream assembler and the model driver with
    its retries.
  \<^item> \<open>Loop_Types\<close>, \<open>Events\<close>, \<open>Control\<close> (\<^verbatim>\<open>agent_loop/mod.rs\<close>, \<^verbatim>\<open>state.rs\<close>, \<^verbatim>\<open>event.rs\<close>, \<^verbatim>\<open>control.rs\<close>, \<^verbatim>\<open>handle.rs\<close>): options
    and report, the lossy event channel, and the control plane shared by the runner and all handles.
  \<^item> \<open>Runner_Base\<close>, \<open>Runner_Tools\<close>, \<open>Runner\<close>, \<open>Runner_Properties\<close>, \<open>Observers\<close> (\<^verbatim>\<open>agent_loop/runner.rs\<close>,
    \<^verbatim>\<open>runner/tools.rs\<close>, \<^verbatim>\<open>runner/model.rs\<close>): the runner, and what a whole run guarantees.
  \<^item> \<open>Debug_Output\<close>: what \<open>{:?}\<close> prints of every type above that carries content, the copies with that
    content removed, and the locale \<open>discreet\<close>, the contract of a \<open>Debug\<close> that cannot tell the two apart.
  \<^item> \<open>Agent_Loop\<close> (\<^verbatim>\<open>agent_loop/mod.rs\<close>): the owner of a loop.  \<open>Prompt_Transcript\<close>: what the default prompt
    makes of a loop's own history.  This theory: properties that span the prompt, the request and the
    runner.
  \<^item> \<open>Host_Script\<close>, \<open>Reference_Loop\<close>, \<open>Cancelled_Loop\<close>: what a script of the environment says when nobody
    cancels, the reference loop on what the host says (\<open>agent_turn\<close>, \<open>agent_run\<close>), the simulation that
    the runner computes it, and what happens when it is cancelled in the middle of a stream.
    \<open>Live_Model\<close>: models that are functions of what they are asked; the hypothesis \<open>model_answers\<close>
    follows the runner and compares the script with the answer to the request the runner really built.
  \<^item> \<open>Event_Log\<close>, \<open>Event_Protocol\<close>, \<open>Event_Stream\<close>: a program logic for the trace of events a runner
    program emits, the protocol of \<^verbatim>\<open>docs/contracts/event-stream.md\<close> as an automaton of an observer,
    the simulation of the runner by it, and what the one consumer behind the lossy channel can conclude.
  \<^item> \<open>Stored_History\<close>, \<open>Stored_Report\<close> (the readers of \<^verbatim>\<open>history.rs\<close>, \<^verbatim>\<open>value.rs\<close>, \<^verbatim>\<open>ids.rs\<close>,
    \<^verbatim>\<open>model/message.rs\<close>, \<^verbatim>\<open>model/replay.rs\<close>, \<^verbatim>\<open>tools/tool.rs\<close>): how a stored history is read back, the
    locale \<open>stored_reader\<close> (what is read is storable, what is storable reads as itself), and an invariant
    of the whole runner by which everything it appends is storable.
  \<^item> \<open>Example_Base\<close>, \<open>Memory_Agent\<close>, \<open>Agent_Loop_Demo\<close>, \<open>Agent_Loop_Events\<close> (\<^verbatim>\<open>examples/memory_agent.rs\<close>,
    \<^verbatim>\<open>examples/agent_loop.rs\<close>): two hosts of the crate with their models, tool and inputs, run on the loop
    through the reference loop; the second also as a reader of its event stream, with all it prints.
    Their models answer for the request and the configuration of the runner, their scripts say only when.

  \<^bold>\<open>How state and operations correspond.\<close>  Structs are records and enums are datatypes with the
  source's names; machine integers are words of their width and \<open>usize\<close> quantities are natural
  numbers; a fallible function returns \<open>Ok\<close> or \<open>Err\<close>; a panic of \<open>expect\<close> is \<open>None\<close>, or
  \<open>Aborted\<close> in code that runs in the loop.  \<open>BTreeMap\<close> is a sorted association list.  The
  control plane is the record \<open>LoopControl\<close> with the state byte, the token, the locked inner
  state, the watch channels and the reply channels; its methods are functions on the record.  Their
  atomic accesses are also the steps of a machine with any number of threads, and
  \<open>control_linearizable\<close> shows that every interleaving is a sequence of whole methods, so the
  runner theories may use the functions.  The runner is a state-passing program over the record
  \<open>runner\<close>; \<open>bind_run\<close> sequences its steps and \<open>wp\<close> is the predicate transformer its lemmas
  use.  \<open>loop_turn\<close> is the body of the source's \<open>loop\<close>, split where the source has its phases:
  \<open>take_boundary\<close>, \<open>prepare_prompt\<close>, \<open>issue_request\<close>, \<open>run_model\<close>, \<open>handle_response\<close>,
  \<open>tool_round\<close>, \<open>run_tool_batch\<close>.

  \<^bold>\<open>Environment.\<close>  Models, tools, policies, prompt providers and inputs are host code, tokio is a
  library: none of it is under the sources.  A call of host code is given by its polls (what is ready
  at which poll, or a panic), the clock by its readings, the random source by its fills, the
  serialiser by a function, and other threads by the methods they perform between two accesses of
  the runner (\<open>act\<close>).  The token is never part of a script: it follows from what the threads did.
  The theorems hold for every such script, with two side conditions where they are needed:
  \<open>typed_\<dots>\<close> (configurations handed in carry tool sets that \<open>ToolSetBuilder::build\<close> made) and
  \<open>calm_\<dots>\<close> (host inputs do not panic, the clock is not at the end of its range).  The locale
  \<open>stable\<close> states what no act of another thread can break and is interpreted for the assertions
  the runner relies on; its extension \<open>tracked\<close> adds an abstraction that every act follows, and is
  interpreted for the updates a loop has been offered.

  \<^bold>\<open>What the lemmas show.\<close>  Text, JSON, identifiers, usage, errors, replay, messages, requests:
  exact characterisations of the checks and round trips of the wire forms.  Port calls: priority of
  cancellation over timer over result, and the order in which the child token, the closure and the
  future are made, cancelled and dropped on each path.  Assembler and driver: streamed
  deltas equal the normalisation of the whole stream, responses are valid and within all limits, the
  progress channel gets the deltas it has room for and the drop counter the rest,
  retries only when nothing can have been delivered, no panic.  Control: linearisability, exactly
  one seal, refusals after the end, numbering of updates.  Runner: every tool call is answered
  exactly once and only run with permission, interactions end for a reason, the transcript is well formed,
  the report is published exactly once even after a panic, the seal decides between cancellation
  and outcome, cancelled loops end, no \<open>expect\<close> of the runner fails, and events influence
  nothing.  Reference loop: a run nobody cancels whose ports answer in time returns, with the report
  of a loop that has no polls, no clock and no other threads, through retries, failed model calls,
  refused and failed tools, approvals and input requests; what a host can rely on is then a
  computation.  Cancellation: a loop whose model holds its stream open ends at the poll that sees the
  token.  Event stream: the observer's automaton accepts what every run emits, its requests and last
  event are those of the report, its tool finishes are the results of the report but for those the end
  of the loop settles itself, and a consumer sees a prefix of it up to the first gap.  Example hosts: the assertions of the example programs hold, those about the event stream
  whenever the stream reports no loss.  Stored history: the readers accept exactly the values their
  types promise, and everything a loop appends is among them.  Debug output: no user, model, tool or
  provider content reaches a log.  The properties of the library are the theorems whose text starts
  with a number C1 to C40.

  \<^bold>\<open>Bounds and fuel.\<close>  No definition has fuel of its own.  Loops over polls and rounds recurse on
  the script; a script that is used up is \<open>Pending\<close>, a run that has not returned yet.  That runs
  return is stated separately: \<open>driver_returns\<close>, \<open>run_port_call_lifecycle\<close>,
  \<open>cancelled_batch_ends\<close>, \<open>cancelled_loop_ends\<close>, \<open>cancelled_while_streaming\<close>,
  \<open>runner_implements_reference\<close> and the two example hosts.  \<open>yields\<close> of \<open>Host_Script\<close> is the total
  counterpart of \<open>wp\<close>: the program returns, and its result is right.

  \<^bold>\<open>Not modelled.\<close>  The data format behind serde: field and variant names, unknown fields, and that
  strings, numbers and JSON values survive it (the readers and the constructors they call are
  modelled, a stored value being a value of the same shape); the pretty form
  \<open>{:#?}\<close>, the \<open>Debug\<close> of internal types and of error enums without content, the fixed texts of
  \<open>Display\<close>; the host's traits; destructors of discarded configurations and the \<open>catch_unwind\<close> around
  them; poisoned locks, which the code recovers; memory ordering beyond sequential consistency of
  the state byte; what the memory agent prints; the provider gate, the scripts and the tests.  The reference loop
  is \<open>None\<close> for a script in which a port misses its deadline or panics, a policy's decision is invalid,
  nobody answers an interaction before the loop's deadline, or an id cannot be generated.
\<close>

subsection \<open>Properties\<close>

text \<open>
  C21: the default prompt serves a loop exactly as long as its inputs are clean.  If the system text
  is valid, the base the loop was given projects to an exchange, and the call is neither cancelled nor
  past its deadline, then the default prompt projects whatever history the loop has appended, and the
  next model request is accepted if and only if no input of the loop is empty, too long for a message
  or has a control character: nothing a model or a tool said can make a loop fail under the default
  prompt, and an unclean input always does.
\<close>
theorem default_prompt_serves_the_loop:
  assumes "transcript ident mx appended" "appended \<noteq> []"
    and "project_items base [] = Some (Ok ms)" "exchange ms"
    and "\<forall>text. system = Some text \<longrightarrow> valid_text (as_str text) MAX_MODEL_MESSAGE_TEXT_BYTES True" "now < deadline"
  shows "\<exists>messages.
     DefaultPromptProvider_prepare system False deadline now \<lparr>hv_base = base, hv_appended = appended\<rparr> = Some (Ok messages)
     \<and> prompt_prep (Returned (Ok messages)) = PP_Ready messages
     \<and> ((\<exists>request. build_model_request messages config = Ok request) \<longleftrightarrow> list_all input_ok appended)"
proof -
  obtain ns where ns: "project_items appended [] = Some (Ok ns)" "list_all input_ok appended \<Longrightarrow> exchange ns"
    "length ns = length appended"
    using transcript_projects [OF assms(1)] by blast
  define pre where "pre = (case system of Some s \<Rightarrow> if bt_is_empty s then [] else [MM_System (as_str s)] | None \<Rightarrow> [])"
  have "exchange pre"
    using assms(5)
    by (auto simp: pre_def bt_is_empty_def message_parts_def tool_result_id_def ModelMessage_validate_def valid_text_def
        intro!: exchange.plain exchange.empty split: option.splits)
  then have ex: "exchange (pre @ ms @ ns) \<longleftrightarrow> list_all input_ok appended"
    using assms(4) ns(2) exchange_inputs [OF ns(1), of "pre @ ms"] by (auto intro: exchange_append)
  have proj: "project_items (base @ appended) pre = Some (Ok (pre @ ms @ ns))"
    by (rule project_append [OF assms(3) ns(1)])
  have ne: "pre @ ms @ ns \<noteq> []" using assms(2) ns(3) by auto
  have "DefaultPromptProvider_prepare system False deadline now \<lparr>hv_base = base, hv_appended = appended\<rparr>
      = Some (Ok (pre @ ms @ ns))"
    using assms(6) proj ne
    by (simp add: DefaultPromptProvider_prepare_def HistoryView_iter_def pre_def [symmetric] Let_def)
  moreover have "(\<exists>request. build_model_request (pre @ ms @ ns) config = Ok request) \<longleftrightarrow> list_all input_ok appended"
    using ex ne by (auto simp: build_model_request_def ModelRequest_with_validated_tools_def and_then_eq_Ok
        validate_tool_exchange_Ok simp del: append_is_Nil_conv)
  ultimately show ?thesis using ne by (auto simp: prompt_prep_def)
qed

theorem default_prompt_serves_the_loop_witness:
  "\<exists>messages request.
     DefaultPromptProvider_prepare None False 1 0 \<lparr>hv_base = [], hv_appended = [HI_User \<lparr>uh_loop_id = LoopId [],
       uh_kind = UK_Prompt, uh_input = UI_Text (BoundedText (lit ''hi''))\<rparr>]\<rparr> = Some (Ok messages)
     \<and> build_model_request messages sample_config = Ok request"
proof -
  let ?u = "\<lparr>uh_loop_id = LoopId [], uh_kind = UK_Prompt, uh_input = UI_Text (BoundedText (lit ''hi''))\<rparr>"
  have "transcript (LoopId []) 0 ([] @ [HI_User ?u])" by (intro transcript.intros) simp
  moreover have "list_all input_ok [HI_User ?u]"
    by (simp add: input_ok_def UserInput_as_text_def valid_text_def lit_def text_defs utf8_len_def
        MAX_MODEL_MESSAGE_TEXT_BYTES_def)
  ultimately show ?thesis
    using default_prompt_serves_the_loop [of "LoopId []" 0 "[HI_User ?u]" "[]" "[]" None 0 1 sample_config]
    by (auto intro: exchange.empty)
qed

text \<open>
  Such inputs do reach the prompt: \<open>UserInput::text\<close> and \<open>start\<close> accept text with a carriage
  return, and the message made of it is rejected when the request is built, which ends the loop
  with a prompt failure.
\<close>

lemma control_character_input_fails_prompt:
  "\<exists>u messages. UserInput_text (lit ''a'' @ [CR]) = Ok u
     \<and> DefaultPromptProvider_prepare None False 1 0 \<lparr>hv_base = [], hv_appended = [HI_User \<lparr>uh_loop_id = LoopId [],
         uh_kind = UK_Prompt, uh_input = u\<rparr>]\<rparr> = Some (Ok messages)
     \<and> build_model_request messages sample_config = Err MV_InvalidText"
  by (simp add: UserInput_text_def BoundedText_new_def BoundedText_new_with_max_bytes_def bt_is_empty_def lit_def
      utf8_len_def utf8_char_def MAX_TEXT_BYTES_def DefaultPromptProvider_prepare_def HistoryView_iter_def project_item_def
      UserInput_as_text_def build_model_request_def ModelRequest_with_validated_tools_def validate_tool_exchange_def
      ModelMessage_validate_def valid_text_def text_defs Let_def)

end
